(* ===== verification/Js_Prelude.thy ===== *)
theory Js_Prelude
  imports Complex_Main "HOL-Library.Multiset" "HOL-Library.Sublist"
begin

text \<open>
  Shared ground of the development: JavaScript's stable \<open>Array.prototype.sort\<close> driven by a
  comparator, the contract of a comparator, tables of rows found by an id, \<open>Math.floor\<close>,
  \<open>Math.ceil\<close> and \<open>Math.round\<close> on exact rationals, and the list lemmas the components share.
\<close>

named_theorems table_simps \<open>how a lookup reads after an operation on a table of rows\<close>
named_theorems inv_rules \<open>preservation of a component's invariant by its operations\<close>

subsection \<open>Numbers\<close>

text \<open>
  Numbers that the code keeps integral (counts, seconds, milliseconds, offsets) are \<open>int\<close>;
  amounts and fractions are exact rationals. \<open>Math.round\<close> rounds halves up.
\<close>

definition js_round :: "rat \<Rightarrow> int" where
  "js_round x = \<lfloor>x + 1 / 2\<rfloor>"

definition js_ceil_div :: "int \<Rightarrow> int \<Rightarrow> int" where
  "js_ceil_div a b = - ((- a) div b)"

definition js_trunc :: "rat \<Rightarrow> int" where
  "js_trunc x = (if x < 0 then - \<lfloor>- x\<rfloor> else \<lfloor>x\<rfloor>)"

lemma js_ceil_div_bounds:
  assumes "0 < b"
  shows "a \<le> b * js_ceil_div a b" and "b * js_ceil_div a b < a + b"
proof -
  have e: "b * ((- a) div b) + (- a) mod b = - a" by simp
  have r: "0 \<le> (- a) mod b" "(- a) mod b < b" using assms by simp_all
  show "a \<le> b * js_ceil_div a b" and "b * js_ceil_div a b < a + b"
    using e r unfolding js_ceil_div_def mult_minus_right by linarith+
qed

lemma js_ceil_div_nonneg: "0 < b \<Longrightarrow> 0 \<le> a \<Longrightarrow> 0 \<le> js_ceil_div a b"
  by (simp add: js_ceil_div_def div_nonpos_pos_le0)

lemma js_round_of_int [simp]: "js_round (of_int n) = n"
proof -
  have "\<lfloor>rat_of_int n + 1 / 2\<rfloor> = n" by (rule floor_unique) simp_all
  then show ?thesis by (simp add: js_round_def)
qed

lemma int_div_less_iff:
  assumes "0 < (w::int)"
  shows "a div w < n \<longleftrightarrow> a < n * w"
proof
  assume "a div w < n"
  then have "w * (a div w) \<le> w * (n - 1)" using assms by simp
  then have "w * (a div w) + w \<le> n * w" by (simp add: algebra_simps)
  moreover have "w * (a div w) + a mod w = a" "a mod w < w" using assms by simp_all
  ultimately show "a < n * w" by linarith
next
  assume "a < n * w"
  moreover have "w * (a div w) \<le> a" using assms
    by (metis add_le_same_cancel1 assms le_add_same_cancel1 mult_div_mod_eq pos_mod_sign)
  ultimately have "w * (a div w) < w * n" by (simp add: mult.commute)
  then show "a div w < n" using assms by simp
qed

lemma js_round_mono: "x \<le> y \<Longrightarrow> js_round x \<le> js_round y"
  by (simp add: js_round_def floor_mono)

definition cmp_num :: "'a::linorder \<Rightarrow> 'a \<Rightarrow> int" where
  "cmp_num a b = (if a < b then -1 else if b < a then 1 else 0)"

lemma cmp_num_simps [simp]:
  "cmp_num a b \<le> 0 \<longleftrightarrow> a \<le> b" "cmp_num a b = 0 \<longleftrightarrow> a = b"
  "cmp_num a b < 0 \<longleftrightarrow> a < b" "0 < cmp_num a b \<longleftrightarrow> b < a"
  by (auto simp: cmp_num_def)

subsection \<open>Array.prototype.sort\<close>

text \<open>
  ECMAScript's sort is stable. For a comparator that is a total preorder, every stable sort
  gives the same list, so insertion sort is a faithful reading of it (\<open>sort_cmp_unique\<close>).
\<close>

fun insert_cmp :: "('a \<Rightarrow> 'a \<Rightarrow> int) \<Rightarrow> 'a \<Rightarrow> 'a list \<Rightarrow> 'a list" where
  "insert_cmp cmp x [] = [x]"
| "insert_cmp cmp x (y # ys) = (if cmp x y \<le> 0 then x # y # ys else y # insert_cmp cmp x ys)"

fun sort_cmp :: "('a \<Rightarrow> 'a \<Rightarrow> int) \<Rightarrow> 'a list \<Rightarrow> 'a list" where
  "sort_cmp cmp [] = []"
| "sort_cmp cmp (x # xs) = insert_cmp cmp x (sort_cmp cmp xs)"

lemma mset_insert_cmp [simp]: "mset (insert_cmp cmp x ys) = add_mset x (mset ys)"
  by (induction ys) auto

lemma set_insert_cmp: "set (insert_cmp cmp x ys) = insert x (set ys)"
  by (induction ys) auto

lemma filter_insert_cmp_neq: "\<not> Q x \<Longrightarrow> filter Q (insert_cmp cmp x ys) = filter Q ys"
  by (induction ys) auto

lemma mset_sort_cmp [simp]: "mset (sort_cmp cmp xs) = mset xs"
  by (induction xs) auto

lemma set_sort_cmp [simp]: "set (sort_cmp cmp xs) = set xs"
  using mset_eq_setD [OF mset_sort_cmp] .

lemma length_sort_cmp [simp]: "length (sort_cmp cmp xs) = length xs"
  using mset_eq_length [OF mset_sort_cmp] .

lemma sort_cmp_Nil_iff [simp]: "sort_cmp cmp xs = [] \<longleftrightarrow> xs = []"
  by (metis length_0_conv length_sort_cmp)

lemma distinct_map_sort_cmp [simp]: "distinct (map f (sort_cmp cmp xs)) \<longleftrightarrow> distinct (map f xs)"
  by (metis mset_eq_imp_distinct_iff mset_map mset_sort_cmp)

lemma sum_list_map_sort_cmp [simp]:
  "sum_list (map (f :: 'a \<Rightarrow> 'b::comm_monoid_add) (sort_cmp cmp xs)) = sum_list (map f xs)"
  by (metis mset_map mset_sort_cmp sum_mset_sum_list)

text \<open>
  The contract of a comparator: what a caller of sort promises, for the elements in \<open>P\<close> (a
  comparator is often only consistent on the lists it is given).
\<close>

locale comparator =
  fixes cmp :: "'a \<Rightarrow> 'a \<Rightarrow> int" and P :: "'a \<Rightarrow> bool"
  assumes cmp_flip: "P a \<Longrightarrow> P b \<Longrightarrow> 0 < cmp a b \<longleftrightarrow> cmp b a < 0"
    and cmp_trans: "P a \<Longrightarrow> P b \<Longrightarrow> P c \<Longrightarrow> cmp a b \<le> 0 \<Longrightarrow> cmp b c \<le> 0 \<Longrightarrow> cmp a c \<le> 0"
begin

lemma cmp_refl: "P a \<Longrightarrow> cmp a a = 0"
  using cmp_flip [of a a] by linarith

lemma cmp_total: "P a \<Longrightarrow> P b \<Longrightarrow> cmp a b \<le> 0 \<or> cmp b a \<le> 0"
  using cmp_flip [of a b] by linarith

lemma cmp_eq_sym: "P a \<Longrightarrow> P b \<Longrightarrow> cmp a b = 0 \<longleftrightarrow> cmp b a = 0"
  using cmp_flip [of a b] cmp_flip [of b a] by linarith

lemma sorted_insert_cmp:
  "P x \<Longrightarrow> list_all P ys \<Longrightarrow> sorted_wrt (\<lambda>a b. cmp a b \<le> 0) ys \<Longrightarrow>
    sorted_wrt (\<lambda>a b. cmp a b \<le> 0) (insert_cmp cmp x ys)"
proof (induction ys)
  case Nil
  then show ?case by simp
next
  case (Cons y ys)
  then have P: "P x" "P y" "\<forall>z\<in>set ys. P z" by (auto simp: list_all_iff)
  show ?case
  proof (cases "cmp x y \<le> 0")
    case True
    with Cons.prems P show ?thesis by (auto intro: cmp_trans [of x y])
  next
    case False
    then have "cmp y x \<le> 0" using cmp_total P by blast
    with Cons P False show ?thesis by (auto simp: set_insert_cmp list_all_iff)
  qed
qed

lemma sorted_sort_cmp: "list_all P xs \<Longrightarrow> sorted_wrt (\<lambda>a b. cmp a b \<le> 0) (sort_cmp cmp xs)"
  by (induction xs) (auto intro: sorted_insert_cmp simp: list_all_iff)

lemma filter_insert_cmp_eq:
  "P z \<Longrightarrow> P x \<Longrightarrow> list_all P ys \<Longrightarrow> cmp z x = 0 \<Longrightarrow>
    filter (\<lambda>y. cmp z y = 0) (insert_cmp cmp x ys) = x # filter (\<lambda>y. cmp z y = 0) ys"
proof (induction ys)
  case Nil
  then show ?case by simp
next
  case (Cons y ys)
  then have P: "P z" "P x" "P y" by simp_all
  have "cmp z y \<noteq> 0" if "\<not> cmp x y \<le> 0"
  proof
    assume "cmp z y = 0"
    moreover have "cmp x z \<le> 0" using Cons.prems(4) cmp_eq_sym [OF P(1,2)] by simp
    ultimately have "cmp x y \<le> 0" using cmp_trans [of x z y] P by simp
    with that show False ..
  qed
  with Cons show ?case by simp
qed

text \<open>Stability: elements the comparator does not tell apart keep their order.\<close>

lemma sort_cmp_stable:
  assumes "P z" and "list_all P xs"
  shows "filter (\<lambda>y. cmp z y = 0) (sort_cmp cmp xs) = filter (\<lambda>y. cmp z y = 0) xs"
  using assms(2)
proof (induction xs)
  case (Cons x xs)
  then have "list_all P (sort_cmp cmp xs)" by (simp add: list_all_iff)
  with Cons assms(1) show ?case
    by (cases "cmp z x = 0") (simp_all add: filter_insert_cmp_eq filter_insert_cmp_neq)
qed simp

lemma insert_cmp_least: "(\<And>y. y \<in> set ys \<Longrightarrow> cmp x y \<le> 0) \<Longrightarrow> insert_cmp cmp x ys = x # ys"
  by (cases ys) auto

lemma sort_cmp_sorted: "sorted_wrt (\<lambda>a b. cmp a b \<le> 0) xs \<Longrightarrow> sort_cmp cmp xs = xs"
  by (induction xs) (auto simp: insert_cmp_least)

lemma sort_cmp_idem: "list_all P xs \<Longrightarrow> sort_cmp cmp (sort_cmp cmp xs) = sort_cmp cmp xs"
  by (rule sort_cmp_sorted) (rule sorted_sort_cmp)

text \<open>Any sorted and stable rearrangement is the result of the model's sort.\<close>

lemma sorted_stable_unique:
  assumes "list_all P xs" and "mset xs = mset ys"
    and "sorted_wrt (\<lambda>a b. cmp a b \<le> 0) xs" and "sorted_wrt (\<lambda>a b. cmp a b \<le> 0) ys"
    and "\<And>z. P z \<Longrightarrow> filter (\<lambda>y. cmp z y = 0) xs = filter (\<lambda>y. cmp z y = 0) ys"
  shows "xs = ys"
  using assms
proof (induction xs arbitrary: ys)
  case Nil
  then show ?case by simp
next
  case (Cons x xs)
  then obtain y ys' where ys: "ys = y # ys'" by (cases ys) auto
  have mem: "x \<in> set ys" "y \<in> set (x # xs)"
    using Cons.prems(2) ys by (metis list.set_intros(1) mset_eq_setD)+
  then have P: "P x" "P y" using Cons.prems(1) by (auto simp: list_all_iff)
  then have "cmp x y \<le> 0" and "cmp y x \<le> 0"
    using Cons.prems(3,4) ys mem cmp_refl by auto
  then have "cmp x y = 0" using cmp_flip [OF P] cmp_flip [OF P(2,1)] by linarith
  with Cons.prems(5) [OF P(1)] ys cmp_refl [OF P(1)] have xy: "x = y" by simp
  have "\<And>z. P z \<Longrightarrow> filter (\<lambda>y. cmp z y = 0) xs = filter (\<lambda>y. cmp z y = 0) ys'"
    using Cons.prems(5) ys xy by (metis (mono_tags, lifting) filter.simps(2) list.inject)
  with Cons.IH [of ys'] Cons.prems ys xy show ?case by simp
qed

lemma sort_cmp_unique:
  assumes "list_all P xs" and "mset ys = mset xs" and "sorted_wrt (\<lambda>a b. cmp a b \<le> 0) ys"
    and "\<And>z. P z \<Longrightarrow> filter (\<lambda>y. cmp z y = 0) ys = filter (\<lambda>y. cmp z y = 0) xs"
  shows "sort_cmp cmp xs = ys"
proof (rule sorted_stable_unique)
  show "list_all P (sort_cmp cmp xs)" using assms(1) by (simp add: list_all_iff)
qed (use assms sorted_sort_cmp sort_cmp_stable in auto)

end

text \<open>Comparators built from comparators: on a key, reversed, by two keys, by number.\<close>

lemma comparator_map:
  assumes "comparator c P" and "\<And>x. Q x \<Longrightarrow> P (f x)"
  shows "comparator (\<lambda>a b. c (f a) (f b)) Q"
  using assms unfolding comparator_def by blast

lemma comparator_num: "comparator (\<lambda>a b. cmp_num (f a) (f b)) P"
  by unfold_locales auto

lemma comparator_reverse:
  assumes "comparator c P"
  shows "comparator (\<lambda>a b. - c a b) P"
proof unfold_locales
  fix a b assume "P a" "P b"
  then show "(0 < - c a b) = (- c b a < 0)"
    using comparator.cmp_flip [OF assms] by auto
next
  fix a b d assume P: "P a" "P b" "P d" and "- c a b \<le> 0" "- c b d \<le> 0"
  then have "c b a \<le> 0" "c d b \<le> 0"
    using comparator.cmp_flip [OF assms P(2,1)] comparator.cmp_flip [OF assms P(3,2)] by linarith+
  then have "c d a \<le> 0" using comparator.cmp_trans [OF assms P(3,2,1)] by blast
  then show "- c a d \<le> 0" using comparator.cmp_flip [OF assms P(3,1)] by linarith
qed

lemma comparator_lex:
  assumes "comparator c P" and "comparator d P"
  shows "comparator (\<lambda>a b. if c a b \<noteq> 0 then c a b else d a b) P"
proof unfold_locales
  fix a b assume P: "P a" "P b"
  then show "(0 < (if c a b \<noteq> 0 then c a b else d a b)) = ((if c b a \<noteq> 0 then c b a else d b a) < 0)"
    using comparator.cmp_flip [OF assms(1) P] comparator.cmp_eq_sym [OF assms(1) P]
      comparator.cmp_flip [OF assms(2) P] by auto
next
  fix x y z assume P: "P x" "P y" "P z"
    and xy: "(if c x y \<noteq> 0 then c x y else d x y) \<le> 0"
    and yz: "(if c y z \<noteq> 0 then c y z else d y z) \<le> 0"
  have le: "c x y \<le> 0" "c y z \<le> 0" using xy yz by (auto split: if_splits)
  then have xz: "c x z \<le> 0" using comparator.cmp_trans [OF assms(1) P] by blast
  show "(if c x z \<noteq> 0 then c x z else d x z) \<le> 0"
  proof (cases "c x z = 0")
    case True
    then have zx: "c z x \<le> 0" using comparator.cmp_eq_sym [OF assms(1) P(1,3)] by simp
    have "c y x \<le> 0" by (rule comparator.cmp_trans [OF assms(1) P(2,3,1) le(2) zx])
    then have "c x y = 0" using le comparator.cmp_flip [OF assms(1) P(1,2)] comparator.cmp_flip [OF assms(1) P(2,1)] by linarith
    moreover have "c z y \<le> 0" by (rule comparator.cmp_trans [OF assms(1) P(3,1,2) zx le(1)])
    then have "c y z = 0" using le comparator.cmp_flip [OF assms(1) P(2,3)] comparator.cmp_flip [OF assms(1) P(3,2)] by linarith
    ultimately have "d x y \<le> 0" "d y z \<le> 0" using xy yz by simp_all
    then have "d x z \<le> 0" using comparator.cmp_trans [OF assms(2) P] by blast
    with True show ?thesis by simp
  qed (use xz in simp)
qed

text \<open>
  Two comparators that agree on every pair of the list, taken in list order, sort it alike: the
  position used as a tie break is what stability gives anyway.
\<close>

lemma sort_cmp_agree:
  assumes "sorted_wrt (\<lambda>a b. c1 a b \<le> 0 \<longleftrightarrow> c2 a b \<le> 0) xs"
  shows "sort_cmp c1 xs = sort_cmp c2 xs"
  using assms
proof (induction xs)
  case (Cons x xs)
  have "insert_cmp c1 x ys = insert_cmp c2 x ys"
    if "\<forall>y\<in>set ys. c1 x y \<le> 0 \<longleftrightarrow> c2 x y \<le> 0" for ys
    using that by (induction ys) auto
  with Cons show ?case by simp
qed simp

lemma sort_cmp_map: "sort_cmp c (map f xs) = map f (sort_cmp (\<lambda>a b. c (f a) (f b)) xs)"
proof (induction xs)
  case (Cons x xs)
  have "insert_cmp c (f x) (map f ys) = map f (insert_cmp (\<lambda>a b. c (f a) (f b)) x ys)" for ys
    by (induction ys) auto
  with Cons show ?case by simp
qed simp

subsection \<open>Tables of rows with an id\<close>

text \<open>
  \<open>rows.find((row) => row.id === id)\<close> and \<open>rows.filter((row) => row.id !== id)\<close>, and the
  in-place change of the row found.
\<close>

definition find_by :: "('r \<Rightarrow> 'k) \<Rightarrow> 'r list \<Rightarrow> 'k \<Rightarrow> 'r option" where
  "find_by key rows k = List.find (\<lambda>r. key r = k) rows"

definition remove_by :: "('r \<Rightarrow> 'k) \<Rightarrow> 'k \<Rightarrow> 'r list \<Rightarrow> 'r list" where
  "remove_by key k rows = filter (\<lambda>r. key r \<noteq> k) rows"

fun modify_by :: "('r \<Rightarrow> 'k) \<Rightarrow> 'k \<Rightarrow> ('r \<Rightarrow> 'r) \<Rightarrow> 'r list \<Rightarrow> 'r list" where
  "modify_by key k f [] = []"
| "modify_by key k f (r # rs) = (if key r = k then f r # rs else r # modify_by key k f rs)"

lemma find_by_simps [simp]:
  "find_by key [] k = None"
  "find_by key (r # rs) k = (if key r = k then Some r else find_by key rs k)"
  by (simp_all add: find_by_def)

lemma find_by_Some: "find_by key rows k = Some r \<Longrightarrow> r \<in> set rows \<and> key r = k"
  by (induction rows) (auto split: if_splits)

lemma find_by_None: "find_by key rows k = None \<longleftrightarrow> k \<notin> key ` set rows"
  by (induction rows) auto

lemma find_by_append: "find_by key (xs @ ys) k =
    (case find_by key xs k of None \<Rightarrow> find_by key ys k | Some r \<Rightarrow> Some r)"
  by (induction xs) auto

lemma find_by_unique:
  "distinct (map key rows) \<Longrightarrow> r \<in> set rows \<Longrightarrow> find_by key rows (key r) = Some r"
  by (induction rows) (auto simp: image_iff)

lemma find_remove_by: "find_by key (remove_by key k rows) j =
    (if j = k then None else find_by key rows j)"
  by (induction rows) (auto simp: remove_by_def)

lemma find_modify_by:
  assumes "\<And>r. key (f r) = key r"
  shows "find_by key (modify_by key k f rows) j =
    (if j = k then map_option f (find_by key rows j) else find_by key rows j)"
  by (induction rows) (auto simp: assms)

lemma set_remove_by: "set (remove_by key k rows) = {r \<in> set rows. key r \<noteq> k}"
  by (auto simp: remove_by_def)

lemma map_key_modify_by: "(\<And>r. key (f r) = key r) \<Longrightarrow> map key (modify_by key k f rows) = map key rows"
  by (induction rows) auto

lemma length_modify_by [simp]: "length (modify_by key k f rows) = length rows"
  by (induction rows) auto

lemma modify_by_absent: "k \<notin> key ` set rows \<Longrightarrow> modify_by key k f rows = rows"
  by (induction rows) auto

lemma set_modify_by: "set (modify_by key k f rows) \<subseteq> set rows \<union> f ` set rows"
  by (induction rows) auto

lemma distinct_remove_by: "distinct (map key rows) \<Longrightarrow> distinct (map g rows) \<Longrightarrow>
    distinct (map g (remove_by key k rows))"
  by (induction rows) (auto simp: remove_by_def)

text \<open>The contract every row table keeps for its handlers.\<close>

locale row_table =
  fixes lookup :: "'db \<Rightarrow> 'k \<Rightarrow> 'r option"
    and delete :: "'k \<Rightarrow> 'db \<Rightarrow> 'db"
    and modify :: "'k \<Rightarrow> ('r \<Rightarrow> 'r) \<Rightarrow> 'db \<Rightarrow> 'db"
    and ok :: "('r \<Rightarrow> 'r) \<Rightarrow> bool"
  assumes lookup_delete: "lookup (delete k db) j = (if j = k then None else lookup db j)"
    and lookup_modify: "ok f \<Longrightarrow> lookup (modify k f db) j =
          (if j = k then map_option f (lookup db j) else lookup db j)"
begin

lemma delete_gone: "lookup (delete k db) k = None"
  by (simp add: lookup_delete)

lemma delete_frame: "j \<noteq> k \<Longrightarrow> lookup (delete k db) j = lookup db j"
  by (simp add: lookup_delete)

lemma delete_idem: "lookup (delete k (delete k db)) = lookup (delete k db)"
  by (rule ext) (simp add: lookup_delete)

lemma delete_commute: "lookup (delete k (delete l db)) = lookup (delete l (delete k db))"
  by (rule ext) (simp add: lookup_delete)

lemma modify_frame: "ok f \<Longrightarrow> j \<noteq> k \<Longrightarrow> lookup (modify k f db) j = lookup db j"
  by (simp add: lookup_modify)

lemma modify_hit: "ok f \<Longrightarrow> lookup db k = Some r \<Longrightarrow> lookup (modify k f db) k = Some (f r)"
  by (simp add: lookup_modify)

lemma modify_delete: "ok f \<Longrightarrow> lookup (delete k (modify k f db)) = lookup (delete k db)"
  by (rule ext) (simp add: lookup_modify lookup_delete)

end

subsection \<open>Lists\<close>

lemma filter_filter_partition:
  "length (filter P xs) + length (filter (\<lambda>x. \<not> P x) xs) = length xs"
  by (rule sum_length_filter_compl)

lemma sum_list_nonneg_map: "(\<And>x. x \<in> set xs \<Longrightarrow> (0::int) \<le> f x) \<Longrightarrow> 0 \<le> sum_list (map f xs)"
  by (induction xs) auto

lemma sum_list_map_upt_take_drop:
  "sum_list (map f (take n xs)) + sum_list (map f (drop n xs)) = (sum_list (map f xs) :: 'b::comm_monoid_add)"
  by (metis append_take_drop_id map_append sum_list.append)

lemma list_all2_refl: "(\<And>x. x \<in> set xs \<Longrightarrow> P x x) \<Longrightarrow> list_all2 P xs xs"
  by (induction xs) auto

lemma distinct_filter_length_le1:
  "distinct (map f xs) \<Longrightarrow> length (filter (\<lambda>x. f x = k) xs) \<le> 1"
proof (induction xs)
  case (Cons x xs)
  then have "f x = k \<Longrightarrow> filter (\<lambda>x. f x = k) xs = []"
    by (auto simp: filter_empty_conv image_iff)
  with Cons show ?case by auto
qed simp

end
