(* ===== verification/Js_Strings.thy ===== *)
theory Js_Strings
  imports Js_Prelude
begin

text \<open>
  JavaScript strings and the string functions of the code. A string is the list of its UTF-16
  code units, restricted to units below 256 (Latin-1), which is what \<open>char list\<close> holds; on these
  every function below is exact, but for the upper case of U+00B5 and U+00FF, which leaves
  Latin-1 and is kept as it is. Out of the restriction fall the em dash the UI shows for a
  missing value (\<open>EMPTY\<close>, only ever displayed, never inspected) and translated text, which
  enters the model through the translation function the code takes as a parameter.
\<close>

subsection \<open>Characters\<close>

definition code :: "char \<Rightarrow> nat" where
  "code c = of_char c"

definition is_space :: "char \<Rightarrow> bool" where
  "is_space c \<longleftrightarrow> (9 \<le> code c \<and> code c \<le> 13) \<or> code c = 32 \<or> code c = 160"

definition is_digit :: "char \<Rightarrow> bool" where
  "is_digit c \<longleftrightarrow> 48 \<le> code c \<and> code c \<le> 57"

definition is_lower_az :: "char \<Rightarrow> bool" where
  "is_lower_az c \<longleftrightarrow> 97 \<le> code c \<and> code c \<le> 122"

definition is_upper_az :: "char \<Rightarrow> bool" where
  "is_upper_az c \<longleftrightarrow> 65 \<le> code c \<and> code c \<le> 90"

definition is_hex :: "char \<Rightarrow> bool" where
  "is_hex c \<longleftrightarrow> is_digit c \<or> (97 \<le> code c \<and> code c \<le> 102) \<or> (65 \<le> code c \<and> code c \<le> 70)"

definition cased_upper :: "nat \<Rightarrow> bool" where
  "cased_upper n \<longleftrightarrow> (65 \<le> n \<and> n \<le> 90) \<or> (192 \<le> n \<and> n \<le> 222 \<and> n \<noteq> 215)"

definition lower_char :: "char \<Rightarrow> char" where
  "lower_char c = (if cased_upper (code c) then char_of (code c + 32) else c)"

definition upper_char :: "char \<Rightarrow> string" where
  "upper_char c =
     (if code c = 223 then ''SS''
      else if 32 \<le> code c \<and> cased_upper (code c - 32) then [char_of (code c - 32)] else [c])"

definition toLowerCase :: "string \<Rightarrow> string" where
  "toLowerCase = map lower_char"

definition toUpperCase :: "string \<Rightarrow> string" where
  "toUpperCase s = concat (map upper_char s)"

lemma code_less [simp]: "code c < 256"
  unfolding code_def using of_char_mod_256 [of c, where 'a = nat] by (metis mod_less_divisor zero_less_numeral)

lemma code_char_of [simp]: "n < 256 \<Longrightarrow> code (char_of n) = n"
  by (simp add: code_def)

lemma code_lower: "code (lower_char c) = (if cased_upper (code c) then code c + 32 else code c)"
  by (auto simp: lower_char_def cased_upper_def)

lemma lower_char_idem [simp]: "lower_char (lower_char c) = lower_char c"
  using code_lower [of c] by (auto simp: lower_char_def cased_upper_def)

lemma is_space_lower [simp]: "is_space (lower_char c) = is_space c"
  by (auto simp: is_space_def code_lower cased_upper_def)

lemma toLowerCase_idem [simp]: "toLowerCase (toLowerCase s) = toLowerCase s"
  by (simp add: toLowerCase_def)

lemma toLowerCase_simps [simp]:
  "toLowerCase [] = []" "toLowerCase (c # s) = lower_char c # toLowerCase s"
  "toLowerCase (s @ t) = toLowerCase s @ toLowerCase t"
  "length (toLowerCase s) = length s" "toLowerCase s = [] \<longleftrightarrow> s = []"
  by (simp_all add: toLowerCase_def)

subsection \<open>trim\<close>

definition trimStart :: "string \<Rightarrow> string" where
  "trimStart s = dropWhile is_space s"

definition trim :: "string \<Rightarrow> string" where
  "trim s = rev (dropWhile is_space (rev (dropWhile is_space s)))"

lemma dropWhile_hd: "dropWhile P xs = [] \<or> \<not> P (hd (dropWhile P xs))"
  by (induction xs) auto

lemma trim_Nil [simp]: "trim [] = []"
  by (simp add: trim_def)

lemma trim_eq_Nil_iff: "trim s = [] \<longleftrightarrow> (\<forall>c\<in>set s. is_space c)"
proof -
  have "dropWhile is_space s = [] \<or> (\<exists>c\<in>set (dropWhile is_space s). \<not> is_space c)"
    by (metis dropWhile_hd hd_in_set)
  moreover have "trim s = [] \<longleftrightarrow> (\<forall>c\<in>set (dropWhile is_space s). is_space c)"
    by (simp only: trim_def rev_is_Nil_conv dropWhile_eq_Nil_conv set_rev)
  ultimately show ?thesis
    by (metis dropWhile_eq_Nil_conv empty_iff list.set(1) set_dropWhileD)
qed

lemma trim_fix:
  assumes "s = [] \<or> (\<not> is_space (hd s) \<and> \<not> is_space (last s))"
  shows "trim s = s"
proof -
  have id: "dropWhile is_space u = u" if "u = [] \<or> \<not> is_space (hd u)" for u
    using that by (cases u) auto
  have "dropWhile is_space s = s" "dropWhile is_space (rev s) = rev s"
    using assms by (auto intro!: id simp: hd_rev)
  then show ?thesis by (simp add: trim_def)
qed

lemma trim_ends:
  assumes "trim s \<noteq> []"
  shows "\<not> is_space (hd (trim s))" and "\<not> is_space (last (trim s))"
proof -
  let ?d = "dropWhile is_space s"
  let ?e = "dropWhile is_space (rev ?d)"
  have e: "?e \<noteq> []" using assms by (simp add: trim_def)
  then have "\<not> is_space (hd ?e)" using dropWhile_hd by blast
  with e show "\<not> is_space (last (trim s))" by (simp add: trim_def last_rev)
  have d: "?d \<noteq> []" using e by (metis dropWhile.simps(1) rev.simps(1))
  then have hd: "\<not> is_space (hd ?d)" using dropWhile_hd by blast
  obtain pre where "rev ?d = pre @ ?e" by (metis takeWhile_dropWhile_id)
  then have "?d = rev ?e @ rev pre" by (metis rev_append rev_rev_ident)
  then have "hd ?d = hd (rev ?e)" using e by (metis hd_append2 rev_is_Nil_conv)
  with hd show "\<not> is_space (hd (trim s))" by (simp add: trim_def)
qed

lemma trim_idem [simp]: "trim (trim s) = trim s"
  using trim_ends [of s] by (intro trim_fix) auto

lemma set_trim: "set (trim s) \<subseteq> set s"
  unfolding trim_def by (auto dest!: set_dropWhileD)

lemma trim_toLowerCase: "trim (toLowerCase s) = toLowerCase (trim s)"
  by (simp add: trim_def toLowerCase_def dropWhile_map rev_map comp_def)

subsection \<open>startsWith, includes, indexOf\<close>

definition startsWith :: "string \<Rightarrow> string \<Rightarrow> bool" where
  "startsWith s p \<longleftrightarrow> take (length p) s = p"

fun indexOf :: "string \<Rightarrow> string \<Rightarrow> nat option" where
  "indexOf [] p = (if p = [] then Some 0 else None)"
| "indexOf (c # s) p = (if startsWith (c # s) p then Some 0 else map_option Suc (indexOf s p))"

definition includesStr :: "string \<Rightarrow> string \<Rightarrow> bool" where
  "includesStr s p \<longleftrightarrow> indexOf s p \<noteq> None"

definition lastIndexOf :: "string \<Rightarrow> char \<Rightarrow> nat option" where
  "lastIndexOf s c = map_option (\<lambda>i. length s - 1 - i) (indexOf (rev s) [c])"

lemma startsWith_iff: "startsWith s p \<longleftrightarrow> (\<exists>r. s = p @ r)"
  unfolding startsWith_def by (metis append_eq_conv_conj append_take_drop_id)

lemma startsWith_append [simp]: "startsWith (p @ r) p"
  by (auto simp: startsWith_iff)

lemma startsWith_Nil [simp]: "startsWith s []"
  by (simp add: startsWith_def)

lemma startsWith_Cons [simp]:
  "startsWith (c # s) (d # p) \<longleftrightarrow> c = d \<and> startsWith s p" "\<not> startsWith [] (d # p)"
  by (auto simp: startsWith_iff)

lemma indexOf_Some: "indexOf s p = Some i \<Longrightarrow> startsWith (drop i s) p \<and> i \<le> length s"
  by (induction s p arbitrary: i rule: indexOf.induct) (auto split: if_splits)

lemma indexOf_split: "indexOf s p = Some i \<Longrightarrow> s = take i s @ p @ drop (i + length p) s"
  using indexOf_Some [of s p i]
  by (metis append_eq_conv_conj append_take_drop_id drop_drop startsWith_iff add.commute)

lemma indexOf_None: "indexOf s p = None \<longleftrightarrow> (\<forall>i \<le> length s. \<not> startsWith (drop i s) p)"
proof (induction s p rule: indexOf.induct)
  case (1 p)
  then show ?case by (cases p) auto
next
  case (2 c s p)
  then show ?case
    by (auto simp: less_Suc_eq_0_disj less_Suc_eq_le [symmetric] drop_Cons split: nat.splits if_splits)
qed

lemma indexOf_char: "indexOf s [c] = (if c \<in> set s then Some (length (takeWhile (\<lambda>d. d \<noteq> c) s)) else None)"
  by (induction s) auto

lemma includesStr_char [simp]: "includesStr s [c] \<longleftrightarrow> c \<in> set s"
  by (simp add: includesStr_def indexOf_char)

lemma includesStr_iff: "includesStr s p \<longleftrightarrow> (\<exists>a b. s = a @ p @ b)"
proof
  assume "includesStr s p"
  then show "\<exists>a b. s = a @ p @ b" unfolding includesStr_def using indexOf_split by blast
next
  assume "\<exists>a b. s = a @ p @ b"
  then obtain a b where s: "s = a @ p @ b" by blast
  then have "startsWith (drop (length a) s) p" "length a \<le> length s" by simp_all
  then show "includesStr s p" unfolding includesStr_def indexOf_None by blast
qed

lemma includesStr_Nil [simp]: "includesStr s []"
  by (cases s) (simp_all add: includesStr_def)

lemma lastIndexOf_None [simp]: "lastIndexOf s c = None \<longleftrightarrow> c \<notin> set s"
  by (simp add: lastIndexOf_def indexOf_char)

lemma lastIndexOf_last: "c \<notin> set t \<Longrightarrow> lastIndexOf (s @ c # t) c = Some (length s)"
proof -
  assume c: "c \<notin> set t"
  have "takeWhile (\<lambda>d. d \<noteq> c) (rev t @ c # rev s) = rev t"
    using c by (subst takeWhile_append2) auto
  then show ?thesis by (simp add: lastIndexOf_def indexOf_char)
qed

lemma indexOf_first: "c \<notin> set s \<Longrightarrow> indexOf (s @ c # t) [c] = Some (length s)"
proof -
  assume c: "c \<notin> set s"
  have "takeWhile (\<lambda>d. d \<noteq> c) (s @ c # t) = s"
    using c by (subst takeWhile_append2) auto
  then show ?thesis by (simp add: indexOf_char)
qed

subsection \<open>split, join, slice, padStart\<close>

text \<open>\<open>s.split(c)\<close> for a one-character separator.\<close>

fun split_char :: "char \<Rightarrow> string \<Rightarrow> string list" where
  "split_char d [] = [[]]"
| "split_char d (c # s) =
     (if c = d then [] # split_char d s
      else case split_char d s of [] \<Rightarrow> [[c]] | w # ws \<Rightarrow> (c # w) # ws)"

function split_str :: "string \<Rightarrow> string \<Rightarrow> string list" where
  "split_str sep s =
     (if sep = [] then map (\<lambda>c. [c]) s
      else case indexOf s sep of
        None \<Rightarrow> [s]
      | Some i \<Rightarrow> take i s # split_str sep (drop (i + length sep) s))"
  by pat_completeness auto
termination
  by (relation "measure (length \<circ> snd)") (auto dest: indexOf_split split: if_splits,
      metis indexOf_split length_append length_greater_0_conv add_gr_0 diff_less length_0_conv
        append_is_Nil_conv)

declare split_str.simps [simp del]

fun join :: "string \<Rightarrow> string list \<Rightarrow> string" where
  "join sep [] = []"
| "join sep [w] = w"
| "join sep (w # v # ws) = w @ sep @ join sep (v # ws)"

definition slice_from :: "nat \<Rightarrow> string \<Rightarrow> string" where
  "slice_from i s = drop i s"

definition slice :: "nat \<Rightarrow> nat \<Rightarrow> string \<Rightarrow> string" where
  "slice i j s = take (j - i) (drop i s)"

definition slice_last :: "nat \<Rightarrow> string \<Rightarrow> string" where
  "slice_last n s = drop (length s - n) s"

definition padStart :: "nat \<Rightarrow> char \<Rightarrow> string \<Rightarrow> string" where
  "padStart n c s = replicate (n - length s) c @ s"

lemma split_char_nonempty [simp]: "split_char d s \<noteq> []"
  by (cases s) (auto split: list.splits)

lemma join_split_char: "join [d] (split_char d s) = s"
proof (induction s)
  case (Cons c s)
  obtain w ws where "split_char d s = w # ws" by (cases "split_char d s") auto
  with Cons show ?case by (cases ws) auto
qed simp

lemma split_char_no_sep: "w \<in> set (split_char d s) \<Longrightarrow> d \<notin> set w"
proof (induction s arbitrary: w)
  case (Cons c s)
  obtain v vs where "split_char d s = v # vs" by (cases "split_char d s") auto
  with Cons show ?case by (auto split: if_splits)
qed simp

lemma split_char_single: "d \<notin> set s \<Longrightarrow> split_char d s = [s]"
  by (induction s) auto

lemma padStart_length [simp]: "length (padStart n c s) = max n (length s)"
  by (simp add: padStart_def)

subsection \<open>Numbers as text\<close>

definition digit_char :: "nat \<Rightarrow> char" where
  "digit_char n = char_of (48 + n)"

fun string_of_nat :: "nat \<Rightarrow> string" where
  "string_of_nat n = (if n < 10 then [digit_char n] else string_of_nat (n div 10) @ [digit_char (n mod 10)])"

declare string_of_nat.simps [simp del]

definition string_of_int :: "int \<Rightarrow> string" where
  "string_of_int i = (if i < 0 then ''-'' @ string_of_nat (nat (- i)) else string_of_nat (nat i))"

definition nat_of_digits :: "string \<Rightarrow> nat" where
  "nat_of_digits = foldl (\<lambda>n c. 10 * n + (code c - 48)) 0"

lemma code_digit_char [simp]: "n < 10 \<Longrightarrow> code (digit_char n) = 48 + n"
  by (simp add: digit_char_def)

lemma string_of_nat_digits: "c \<in> set (string_of_nat n) \<Longrightarrow> is_digit c"
proof (induction n arbitrary: c rule: string_of_nat.induct)
  case (1 n)
  show ?case
  proof (cases "n < 10")
    case True
    with "1.prems" show ?thesis by (auto simp: string_of_nat.simps [of n] is_digit_def)
  next
    case False
    with "1.prems" have "c \<in> set (string_of_nat (n div 10)) \<or> c = digit_char (n mod 10)"
      by (subst (asm) string_of_nat.simps) auto
    with "1.IH" False show ?thesis by (auto simp: is_digit_def)
  qed
qed

lemma string_of_nat_nonempty [simp]: "string_of_nat n \<noteq> []"
  by (subst string_of_nat.simps) simp

lemma nat_of_string_of_nat: "nat_of_digits (string_of_nat n) = n"
proof (induction n rule: string_of_nat.induct)
  case (1 n)
  show ?case
  proof (cases "n < 10")
    case True
    then show ?thesis by (simp add: string_of_nat.simps [of n] nat_of_digits_def)
  next
    case False
    with 1 have "nat_of_digits (string_of_nat (n div 10)) = n div 10" by simp
    with False show ?thesis
      by (subst string_of_nat.simps) (simp add: nat_of_digits_def)
  qed
qed

lemma string_of_nat_inject [simp]: "string_of_nat m = string_of_nat n \<longleftrightarrow> m = n"
  by (metis nat_of_string_of_nat)

lemma string_of_int_inject [simp]: "string_of_int i = string_of_int j \<longleftrightarrow> i = j"
proof
  assume eq: "string_of_int i = string_of_int j"
  have minus: "CHR ''-'' \<notin> set (string_of_nat n)" for n
    using string_of_nat_digits [of "CHR ''-''" n] by (auto simp: is_digit_def code_def)
  show "i = j"
  proof (cases "i < 0"; cases "j < 0")
    assume "i < 0" "\<not> j < 0"
    with eq minus [of "nat j"] show ?thesis by (simp add: string_of_int_def) (metis list.set_intros(1))
  next
    assume "\<not> i < 0" "j < 0"
    with eq minus [of "nat i"] show ?thesis by (simp add: string_of_int_def)
  qed (use eq in \<open>auto simp: string_of_int_def\<close>)
qed simp

subsection \<open>Comparison by code units\<close>

text \<open>\<open>a < b\<close> on strings, as the three-way result a comparator returns.\<close>

fun textCompare :: "string \<Rightarrow> string \<Rightarrow> int" where
  "textCompare [] [] = 0"
| "textCompare [] (d # t) = -1"
| "textCompare (c # s) [] = 1"
| "textCompare (c # s) (d # t) =
     (if code c < code d then -1 else if code d < code c then 1 else textCompare s t)"

lemma code_inject [simp]: "code c = code d \<longleftrightarrow> c = d"
  by (simp add: code_def)

lemma textCompare_flip: "textCompare b a = - textCompare a b"
  by (induction a b rule: textCompare.induct) auto

lemma textCompare_zero [simp]: "textCompare a b = 0 \<longleftrightarrow> a = b"
  by (induction a b rule: textCompare.induct) (auto simp: not_less)

lemma textCompare_Cons_le:
  "textCompare (c # s) (d # t) \<le> 0 \<longleftrightarrow> code c < code d \<or> (c = d \<and> textCompare s t \<le> 0)"
  by (cases "code c" "code d" rule: linorder_cases) auto

lemma textCompare_trans: "textCompare a b \<le> 0 \<Longrightarrow> textCompare b c \<le> 0 \<Longrightarrow> textCompare a c \<le> 0"
proof (induction a arbitrary: b c)
  case Nil
  then show ?case by (cases c) auto
next
  case (Cons x s)
  then obtain y t where b: "b = y # t" by (cases b) auto
  with Cons.prems(2) obtain z u where c: "c = z # u" by (cases c) auto
  have "textCompare s t \<le> 0 \<Longrightarrow> textCompare t u \<le> 0 \<Longrightarrow> textCompare s u \<le> 0" by (rule Cons.IH)
  with Cons.prems show ?case
    unfolding b c textCompare_Cons_le by (elim disjE conjE) (simp_all add: order.strict_trans)
qed

interpretation text_order: comparator textCompare "\<lambda>_. True"
proof unfold_locales
  fix a b show "(0 < textCompare a b) = (textCompare b a < 0)"
    using textCompare_flip [of a b] by linarith
qed (rule textCompare_trans)

subsection \<open>Display\<close>

text \<open>
  \<open>EMPTY\<close>, the em dash the UI shows for a missing value. U+2014 is no Latin-1 unit; unit 0x97,
  which no text of the program uses, stands in for it. It is neither white space nor a letter.
\<close>

definition EMPTY :: string where
  "EMPTY = [CHR 0x97]"

lemma EMPTY_nonempty [simp]: "EMPTY \<noteq> []"
  by (simp add: EMPTY_def)

text \<open>
  A translation function \<open>t(key, params)\<close>. A parameter of the code; its parameters are strings
  or numbers.
\<close>

datatype tparam = TStr string | TNum int

type_synonym tfun = "string \<Rightarrow> (string \<times> tparam) list \<Rightarrow> string"

end
