(* ===== verification/Js_Values.thy ===== *)
theory Js_Values
  imports Js_Strings
begin

text \<open>
  JavaScript values of unknown shape: what \<open>JSON.parse\<close> returns, what a route's raw search
  holds, what a request body decodes to. Numbers are exact rationals with \<open>NaN\<close> and the two
  infinities; an object is its list of own properties, a missing property reads as \<open>JUndef\<close>.
  Also the conversions the code uses: \<open>Boolean(v)\<close>, \<open>String(n)\<close>, \<open>Number(s)\<close> and
  \<open>Number.parseInt(s, 10)\<close>.
\<close>

datatype jnum = Fin rat | NaN | PInf | NInf

datatype json =
    JUndef
  | JNull
  | JBool bool
  | JNum jnum
  | JStr string
  | JArr "json list"
  | JObj "(string \<times> json) list"

definition jint :: "int \<Rightarrow> json" where
  "jint n = JNum (Fin (of_int n))"

subsection \<open>Numbers\<close>

fun is_finite :: "jnum \<Rightarrow> bool" where
  "is_finite (Fin _) = True"
| "is_finite _ = False"

fun as_integer :: "jnum \<Rightarrow> int option" where
  "as_integer (Fin r) = (if of_int \<lfloor>r\<rfloor> = r then Some \<lfloor>r\<rfloor> else None)"
| "as_integer _ = None"

lemma as_integer_Some: "as_integer n = Some i \<longleftrightarrow> n = Fin (of_int i)"
proof (cases n)
  case (Fin r)
  then show ?thesis by auto
qed auto

lemma as_integer_of_int [simp]: "as_integer (Fin (of_int i)) = Some i"
  by simp

text \<open>
  \<open>String(n)\<close>. Numbers of at least \<open>10^21\<close> or below \<open>10^-6\<close>, which JavaScript writes with an
  exponent, and fractions of more than 21 digits are outside the model.
\<close>

fun frac_digits :: "nat \<Rightarrow> rat \<Rightarrow> string" where
  "frac_digits 0 r = []"
| "frac_digits (Suc n) r =
     (if r = 0 then [] else digit_char (nat \<lfloor>10 * r\<rfloor>) # frac_digits n (10 * r - of_int \<lfloor>10 * r\<rfloor>))"

definition rat_text :: "rat \<Rightarrow> string" where
  "rat_text r =
     (let a = \<bar>r\<bar>; whole = \<lfloor>a\<rfloor>; frac = a - of_int whole
      in (if r < 0 then ''-'' else []) @ string_of_nat (nat whole) @
         (if frac = 0 then [] else ''.'' @ frac_digits 21 frac))"

fun num_text :: "jnum \<Rightarrow> string" where
  "num_text (Fin r) = rat_text r"
| "num_text NaN = ''NaN''"
| "num_text PInf = ''Infinity''"
| "num_text NInf = ''-Infinity''"

lemma rat_text_nat [simp]: "rat_text (of_int (int n)) = string_of_nat n"
  by (simp add: rat_text_def Let_def)

lemma rat_text_nonempty [simp]: "rat_text r \<noteq> []"
  by (simp add: rat_text_def Let_def)

lemma num_text_nonempty [simp]: "num_text n \<noteq> []"
  by (cases n) auto

text \<open>
  \<open>Number(s)\<close>: white space is trimmed, the empty string is 0, then \<open>Infinity\<close>, a 0x / 0o / 0b
  integer or a decimal with an optional fraction and exponent; anything else is NaN.
\<close>

definition digits_value :: "nat \<Rightarrow> string \<Rightarrow> nat option" where
  "digits_value base s =
     (let d = (\<lambda>c. if is_digit c then code c - 48
                   else if 97 \<le> code c \<and> code c \<le> 122 then code c - 87
                   else if 65 \<le> code c \<and> code c \<le> 90 then code c - 55 else 99)
      in if s = [] \<or> (\<exists>c\<in>set s. base \<le> d c) then None
         else Some (foldl (\<lambda>n c. base * n + d c) 0 s))"

definition split_first :: "(char \<Rightarrow> bool) \<Rightarrow> string \<Rightarrow> string \<times> string option" where
  "split_first P s =
     (let a = takeWhile (\<lambda>c. \<not> P c) s; b = dropWhile (\<lambda>c. \<not> P c) s
      in (a, if b = [] then None else Some (tl b)))"

definition signed :: "string \<Rightarrow> bool \<times> string" where
  "signed s = (case s of
      [] \<Rightarrow> (False, [])
    | c # r \<Rightarrow> if c = CHR ''-'' then (True, r) else if c = CHR ''+'' then (False, r) else (False, s))"

definition decimal_value :: "string \<Rightarrow> rat option" where
  "decimal_value s =
     (let (mant, ex) = split_first (\<lambda>c. c = CHR ''e'' \<or> c = CHR ''E'') s;
          (whole, frac) = split_first (\<lambda>c. c = CHR ''.'') mant;
          fr = (case frac of None \<Rightarrow> [] | Some f \<Rightarrow> f);
          m = digits_value 10 (whole @ fr);
          e = (case ex of None \<Rightarrow> Some (False, 0)
               | Some x \<Rightarrow> (let (neg, ds) = signed x in map_option (\<lambda>n. (neg, n)) (digits_value 10 ds)))
      in case (m, e) of
           (Some v, Some (neg, k)) \<Rightarrow>
             Some (of_nat v / 10 ^ length fr * (if neg then 1 / 10 ^ k else 10 ^ k))
         | _ \<Rightarrow> None)"

definition js_number :: "string \<Rightarrow> jnum" where
  "js_number text =
     (let s = trim text; (neg, body) = signed s in
      if s = [] then Fin 0
      else if body = ''Infinity'' then (if neg then NInf else PInf)
      else if startsWith s ''0x'' \<or> startsWith s ''0X'' then
        (case digits_value 16 (drop 2 s) of None \<Rightarrow> NaN | Some n \<Rightarrow> Fin (of_nat n))
      else if startsWith s ''0o'' \<or> startsWith s ''0O'' then
        (case digits_value 8 (drop 2 s) of None \<Rightarrow> NaN | Some n \<Rightarrow> Fin (of_nat n))
      else if startsWith s ''0b'' \<or> startsWith s ''0B'' then
        (case digits_value 2 (drop 2 s) of None \<Rightarrow> NaN | Some n \<Rightarrow> Fin (of_nat n))
      else (case decimal_value body of None \<Rightarrow> NaN | Some r \<Rightarrow> Fin (if neg then - r else r)))"

text \<open>\<open>Number.parseInt(s, 10)\<close>: leading white space, a sign, then the longest run of digits.\<close>

definition parse_int :: "string \<Rightarrow> int option" where
  "parse_int text =
     (let (neg, body) = signed (trimStart text); ds = takeWhile is_digit body
      in if ds = [] then None
         else Some (if neg then - int (nat_of_digits ds) else int (nat_of_digits ds)))"

lemma parse_int_of_nat: "parse_int (string_of_nat n) = Some (int n)"
proof -
  obtain c r where s: "string_of_nat n = c # r" by (cases "string_of_nat n") auto
  have d: "\<forall>x\<in>set (string_of_nat n). is_digit x" using string_of_nat_digits by blast
  then have c: "is_digit c" using s by simp
  then have "\<not> is_space c" "c \<noteq> CHR ''-''" "c \<noteq> CHR ''+''"
    by (auto simp: is_digit_def is_space_def code_def)
  then have sg: "signed (trimStart (string_of_nat n)) = (False, string_of_nat n)"
    by (simp add: s trimStart_def signed_def)
  have tw: "takeWhile is_digit (string_of_nat n) = string_of_nat n"
    using d by (simp add: takeWhile_eq_all_conv)
  show ?thesis
    unfolding parse_int_def sg prod.case Let_def tw by (simp add: nat_of_string_of_nat)
qed

subsection \<open>Values\<close>

fun truthy :: "json \<Rightarrow> bool" where
  "truthy JUndef = False"
| "truthy JNull = False"
| "truthy (JBool b) = b"
| "truthy (JNum (Fin r)) = (r \<noteq> 0)"
| "truthy (JNum NaN) = False"
| "truthy (JNum _) = True"
| "truthy (JStr s) = (s \<noteq> [])"
| "truthy (JArr _) = True"
| "truthy (JObj _) = True"

text \<open>An own property of a decoded object; \<open>undefined\<close> when it has none.\<close>

definition own :: "(string \<times> json) list \<Rightarrow> string \<Rightarrow> json" where
  "own fields k = (case map_of fields k of None \<Rightarrow> JUndef | Some v \<Rightarrow> v)"

fun as_string :: "json \<Rightarrow> string option" where
  "as_string (JStr s) = Some s"
| "as_string _ = None"

fun as_bool :: "json \<Rightarrow> bool option" where
  "as_bool (JBool b) = Some b"
| "as_bool _ = None"

fun as_int :: "json \<Rightarrow> int option" where
  "as_int (JNum n) = as_integer n"
| "as_int _ = None"

text \<open>\<open>isRecord(value)\<close>: an object that is neither null nor an array.\<close>

fun as_record :: "json \<Rightarrow> (string \<times> json) list option" where
  "as_record (JObj fields) = Some fields"
| "as_record _ = None"

lemma as_string_Some [simp]: "as_string v = Some s \<longleftrightarrow> v = JStr s"
  by (cases v) auto

lemma as_bool_Some [simp]: "as_bool v = Some b \<longleftrightarrow> v = JBool b"
  by (cases v) auto

lemma as_record_Some [simp]: "as_record v = Some f \<longleftrightarrow> v = JObj f"
  by (cases v) auto

lemma own_Nil [simp]: "own [] k = JUndef"
  by (simp add: own_def)

lemma own_Cons [simp]: "own ((j, v) # fs) k = (if j = k then v else own fs k)"
  by (simp add: own_def)

end
