(* ===== verification/Wire_Types.thy ===== *)
theory Wire_Types
  imports Js_Values
begin

text \<open>
  The wire types of the admin API (src/ui/src/lib/api/types.ts): one record per interface, one
  datatype per union of literals. A field keeps its name behind the record's prefix; an optional
  field is an \<open>option\<close>. Fields the server may fill with any string (\<open>BanStatus\<close>,
  \<open>AuthMethod\<close>, \<open>BackupKind\<close>) stay strings, as the source's \<open>string & {}\<close> says. Counts and times
  are \<open>int\<close>; credits, dollars and fractions are \<open>rat\<close>.
\<close>

datatype server_error_code =
    Api_key_lockout | Backup_not_found | Backup_invalid_json | Backup_unsupported_format
  | Backup_unsupported_version | Backup_schema_mismatch | Invalid_cadence | Invalid_keep

datatype admin_event_type =
    Hello | Observe_tick | Backup_created | Backup_restored | Backup_deleted
  | Accounts_changed | Api_keys_changed | Settings_changed | Stats_reset

record session_create_response =
  scr_token :: string
  scr_expiresAt :: int

record remote_version_json =
  rv_version :: string
  rv_changelog :: "string option"
  rv_download :: "string option"

subsection \<open>Add-account flows\<close>

record added_account_ref =
  ref_id :: string
  ref_email :: string

record kiro_profile =
  kp_arn :: string
  kp_name :: "string option"
  kp_region :: string

datatype microsoft_complete_response =
    StageMicrosoft string
  | StageProfile string "kiro_profile list"
  | StageComplete added_account_ref "string option"

datatype builder_id_poll_response =
    PollPending string int
  | PollCompleted added_account_ref

record credentials_import_request =
  cir_accessToken :: "string option"
  cir_refreshToken :: "string option"
  cir_kiroApiKey :: "string option"
  cir_clientId :: "string option"
  cir_clientSecret :: "string option"
  cir_authMethod :: "string option"
  cir_provider :: "string option"
  cir_region :: "string option"
  cir_email :: "string option"
  cir_nickname :: "string option"
  cir_userId :: "string option"
  cir_profileArn :: "string option"
  cir_tokenEndpoint :: "string option"
  cir_issuerUrl :: "string option"
  cir_scopes :: "string option"

subsection \<open>Accounts\<close>

text \<open>
  \<open>AccountFull\<close> is \<open>Omit<Account, "hasToken" | "activeRegion">\<close> with the secrets, so the fields
  the two share form \<open>account_base\<close> and both extend it.
\<close>

record account_base =
  acc_id :: string
  acc_email :: string
  acc_userId :: string
  acc_nickname :: string
  acc_authMethod :: string
  acc_provider :: string
  acc_region :: string
  acc_profileArn :: string
  acc_profileArnPinned :: bool
  acc_enabled :: bool
  acc_silent :: bool
  acc_silentReason :: string
  acc_silentTime :: int
  acc_banStatus :: string
  acc_banReason :: string
  acc_banTime :: int
  acc_expiresAt :: int
  acc_machineId :: string
  acc_weight :: int
  acc_overageStatus :: string
  acc_overageCapability :: string
  acc_overageCap :: rat
  acc_overageRate :: rat
  acc_currentOverages :: rat
  acc_overageCheckedAt :: int
  acc_proxyURL :: string
  acc_subscriptionType :: string
  acc_subscriptionTitle :: string
  acc_daysRemaining :: int
  acc_usageCurrent :: rat
  acc_usageLimit :: rat
  acc_usagePercent :: rat
  acc_nextResetDate :: string
  acc_lastRefresh :: int
  acc_trialUsageCurrent :: rat
  acc_trialUsageLimit :: rat
  acc_trialUsagePercent :: rat
  acc_trialStatus :: string
  acc_trialExpiresAt :: int
  acc_requestCount :: int
  acc_errorCount :: int
  acc_totalTokens :: int
  acc_totalCredits :: rat
  acc_lastUsed :: int

record account = account_base +
  acc_hasToken :: bool
  acc_activeRegion :: string

record account_full = account_base +
  full_accessToken :: string
  full_refreshToken :: string
  full_kiroApiKey :: string
  full_clientId :: string
  full_clientSecret :: string
  full_tokenEndpoint :: string
  full_issuerUrl :: string
  full_scopes :: string

datatype batch_action = ActEnable | ActDisable | ActRefresh | ActRefreshModels | ActDelete

datatype action_status = NotFound | SuspendedStatus

record account_action_result =
  res_id :: string
  res_ok :: bool
  res_error :: "string option"
  res_status :: "action_status option"

datatype batch_accounts_response =
    BatchEnableDisable int int "account_action_result list"
  | BatchRefresh int int int "account_action_result list"
  | BatchRefreshModels int int int "account_action_result list"
  | BatchDelete int int "account_action_result list"

record account_info =
  info_Email :: string
  info_UserId :: string
  info_SubscriptionType :: string
  info_SubscriptionTitle :: string
  info_DaysRemaining :: int
  info_UsageCurrent :: rat
  info_UsageLimit :: rat
  info_UsagePercent :: rat
  info_NextResetDate :: string
  info_LastRefresh :: int
  info_TrialUsageCurrent :: rat
  info_TrialUsageLimit :: rat
  info_TrialUsagePercent :: rat
  info_TrialStatus :: string
  info_TrialExpiresAt :: int

record model_info =
  mi_modelId :: string
  mi_modelName :: string
  mi_description :: string
  mi_supportedInputTypes :: "string list"
  mi_rateMultiplier :: rat
  mi_tokenLimits :: "(int \<times> int) option"

record overage_response =
  ov_overageStatus :: string
  ov_overageCapability :: string
  ov_subscriptionTitle :: string
  ov_overageCap :: rat
  ov_overageRate :: rat
  ov_currentOverages :: rat
  ov_overageCheckedAt :: int

record account_profile =
  prof_arn :: string
  prof_name :: string
  prof_region :: string
  prof_current :: bool

record export_credentials =
  exc_accessToken :: string
  exc_csrfToken :: string
  exc_refreshToken :: string
  exc_kiroApiKey :: "string option"
  exc_clientId :: "string option"
  exc_clientSecret :: "string option"
  exc_region :: "string option"
  exc_expiresAt :: int
  exc_authMethod :: "string option"
  exc_provider :: "string option"
  exc_tokenEndpoint :: "string option"
  exc_issuerUrl :: "string option"
  exc_scopes :: "string option"

subsection \<open>Observe\<close>

record heatmap_cell =
  cell_offset :: int
  cell_reqs :: int
  cell_failures :: int
  cell_retries :: "int option"
  cell_credits :: "rat option"

record account_heatmap =
  hm_accountId :: string
  hm_email :: "string option"
  hm_cells :: "heatmap_cell list"

record heatmap_response =
  hr_windowMin :: int
  hr_bucketMin :: "int option"
  hr_nowUnix :: int
  hr_global :: account_heatmap
  hr_accounts :: "account_heatmap list option"
  hr_restCount :: "int option"

record model_mix_entry =
  mix_model :: string
  mix_reqs :: int
  mix_retries :: "int option"
  mix_inTokens :: int
  mix_outTokens :: int
  mix_cacheReadTokens :: int
  mix_cacheWriteTokens :: int
  mix_credits :: rat
  mix_lastUsed :: int

record observe_error =
  oe_ts :: int
  oe_accountId :: string
  oe_email :: "string option"
  oe_model :: "string option"
  oe_status :: "int option"
  oe_message :: "string option"

subsection \<open>Requests\<close>

datatype request_endpoint = Claude | Openai | Responses

datatype request_error_type =
    Client_closed | Api_key_limit | Overage | Quota | Suspended_err | Profile | Auth | Stream_err
  | No_accounts | Invalid_request | Rate_limit | Timeout | Upstream | Unknown

datatype request_sort =
    ByTime | ByStatus | ByAccount | ByApiKey | ByModel | ByTokens | ByCredits | ByDuration

datatype sort_order = Asc | Desc

datatype request_status = Success | Failed

record request_record =
  rr_id :: "int option"
  rr_ts :: int
  rr_accountId :: string
  rr_apiKeyId :: "string option"
  rr_apiKeyMasked :: "string option"
  rr_email :: "string option"
  rr_model :: string
  rr_inTokens :: int
  rr_outTokens :: int
  rr_totalTokens :: int
  rr_cacheReadTokens :: int
  rr_cacheWriteTokens :: int
  rr_credits :: rat
  rr_success :: bool
  rr_status :: "int option"
  rr_message :: "string option"
  rr_endpoint :: "string option"
  rr_durationMs :: "int option"
  rr_errorType :: "string option"

record recent_requests_params =
  rp_page :: "int option"
  rp_pageSize :: "int option"
  rp_search :: "string option"
  rp_status :: "request_status option"
  rp_sort :: "request_sort option"
  rp_order :: "sort_order option"

record recent_requests_response =
  rs_requests :: "request_record list"
  rs_total :: int
  rs_page :: int
  rs_pageSize :: int
  rs_sort :: request_sort
  rs_order :: sort_order
  rs_persistent :: bool

subsection \<open>API keys\<close>

record api_key =
  key_id :: string
  key_name :: "string option"
  key_key :: "string option"
  key_masked :: string
  key_enabled :: bool
  key_createdAt :: int
  key_lastUsedAt :: "int option"
  key_tokenLimit :: "int option"
  key_creditLimit :: "rat option"
  key_tokensUsed :: int
  key_creditsUsed :: rat
  key_requestsCount :: int

record api_key_create_request =
  kcr_name :: "string option"
  kcr_key :: "string option"
  kcr_enabled :: "bool option"
  kcr_tokenLimit :: "jnum option"
  kcr_creditLimit :: "jnum option"

record api_key_update_request =
  kur_name :: "string option"
  kur_key :: "string option"
  kur_enabled :: "bool option"
  kur_tokenLimit :: "jnum option"
  kur_creditLimit :: "jnum option"

subsection \<open>Settings\<close>

record settings =
  set_requireApiKey :: bool
  set_port :: int
  set_host :: string
  set_allowOverUsage :: bool
  set_lenientStreamIntegrity :: bool
  set_sessionAffinity :: bool
  set_autoContinue :: bool
  set_autoContinueMax :: int
  set_structuredToolHistory :: bool

record settings_patch =
  sp_requireApiKey :: "bool option"
  sp_password :: "string option"
  sp_allowOverUsage :: "bool option"
  sp_lenientStreamIntegrity :: "bool option"
  sp_sessionAffinity :: "bool option"
  sp_autoContinue :: "bool option"
  sp_autoContinueMax :: "int option"
  sp_structuredToolHistory :: "bool option"

record thinking_config =
  th_suffix :: string
  th_openaiFormat :: string
  th_claudeFormat :: string

record model_mapping_rule =
  rule_key :: string
  rule_value :: string

record endpoint_config =
  ep_preferredEndpoint :: string
  ep_endpointFallback :: bool

record proxy_config =
  px_proxyURL :: string

record prompt_filter_rule =
  pf_id :: string
  pf_name :: string
  pf_type :: string
  pf_match :: string
  pf_replace :: "string option"
  pf_enabled :: bool

record prompt_filter_config =
  pfc_filterClaudeCode :: bool
  pfc_filterEnvNoise :: bool
  pfc_filterStripBoundaries :: bool
  pfc_rules :: "prompt_filter_rule list"

subsection \<open>Backups\<close>

record backup_entry =
  bk_id :: string
  bk_createdAt :: int
  bk_kind :: string
  bk_note :: "string option"
  bk_file :: string
  bk_size :: int
  bk_sha256 :: string
  bk_accountCnt :: "int option"
  bk_restoredAccountCnt :: "int option"
  bk_version :: "string option"
  bk_format :: "string option"
  bk_includesCredentials :: "bool option"

datatype backup_cadence = Hourly | Daily | Weekly

record backup_schedule =
  sch_enabled :: "bool option"
  sch_cadence :: "string option"
  sch_keep :: "int option"
  sch_lastRun :: "int option"
  sch_nextRun :: "int option"

end
