(* ===== verification/Search_Params.thy ===== *)
theory Search_Params
  imports Wire_Types
begin

text \<open>
  The search-parameter schemas of the file routes (src/ui/src/routes/-search.ts): what a raw URL
  search may turn into, and the guard on the \<open>redirect\<close> of the sign-in page. A raw search is the
  object the router decoded; every validator answers each key it owns, \<open>None\<close> when invalid.
\<close>

datatype overview_range = Range1h | Range6h | Range24h

datatype account_status = Banned | Suspended | NoToken | OutOfCredits | Expired | Disabled | Active

definition ACCOUNT_STATUSES :: "(string \<times> account_status) list" where
  "ACCOUNT_STATUSES =
     [(''banned'', Banned), (''suspended'', Suspended), (''noToken'', NoToken),
      (''outOfCredits'', OutOfCredits), (''expired'', Expired), (''disabled'', Disabled),
      (''active'', Active)]"

datatype account_status_filter = Only account_status | Attention

definition ACCOUNT_STATUS_FILTERS :: "(string \<times> account_status_filter) list" where
  "ACCOUNT_STATUS_FILTERS =
     map (\<lambda>(n, s). (n, Only s)) ACCOUNT_STATUSES @ [(''attention'', Attention)]"

datatype account_sort = SortAccount | SortStatus | SortUsage | SortRequests | SortLastUsed | SortExpiry

definition ACCOUNT_SORTS :: "(string \<times> account_sort) list" where
  "ACCOUNT_SORTS =
     [(''account'', SortAccount), (''status'', SortStatus), (''usage'', SortUsage),
      (''requests'', SortRequests), (''lastUsed'', SortLastUsed), (''expiry'', SortExpiry)]"

record accounts_search =
  as_add :: bool
  as_q :: "string option"
  as_status :: "account_status_filter option"
  as_plan :: "string option"
  as_auth :: "string option"
  as_region :: "string option"
  as_enabled :: "string option"
  as_sort :: "account_sort option"
  as_order :: "sort_order option"
  as_page :: "int option"
  as_pageSize :: "int option"

definition REQUEST_SORTS :: "(string \<times> request_sort) list" where
  "REQUEST_SORTS =
     [(''time'', ByTime), (''status'', ByStatus), (''account'', ByAccount), (''api_key'', ByApiKey),
      (''model'', ByModel), (''tokens'', ByTokens), (''credits'', ByCredits),
      (''duration'', ByDuration)]"

record requests_search =
  qs_page :: "int option"
  qs_pageSize :: "int option"
  qs_search :: "string option"
  qs_status :: "request_status option"
  qs_sort :: "request_sort option"
  qs_order :: "sort_order option"

definition OVERVIEW_RANGES :: "(string \<times> overview_range) list" where
  "OVERVIEW_RANGES = [(''1h'', Range1h), (''6h'', Range6h), (''24h'', Range24h)]"

definition PAGE_SIZES :: "int list" where
  "PAGE_SIZES = [25, 50, 100]"

definition ORDERS :: "(string \<times> sort_order) list" where
  "ORDERS = [(''asc'', Asc), (''desc'', Desc)]"

subsection \<open>Validators of one value\<close>

definition oneOf :: "json \<Rightarrow> (string \<times> 'a) list \<Rightarrow> 'a option" where
  "oneOf v allowed = (case v of JStr s \<Rightarrow> map_of allowed s | _ \<Rightarrow> None)"

definition text_param :: "json \<Rightarrow> string option" where
  "text_param v = (case v of
      JNum n \<Rightarrow> if is_finite n then Some (num_text n) else None
    | JStr s \<Rightarrow> if s \<noteq> [] then Some s else None
    | _ \<Rightarrow> None)"

definition integer_param :: "json \<Rightarrow> int option" where
  "integer_param v =
     as_integer (case v of JNum n \<Rightarrow> n | JStr s \<Rightarrow> js_number s | _ \<Rightarrow> NaN)"

definition pageNumber :: "json \<Rightarrow> int option" where
  "pageNumber v = (case integer_param v of Some n \<Rightarrow> if 1 \<le> n then Some n else None | None \<Rightarrow> None)"

definition pageSize :: "json \<Rightarrow> int option" where
  "pageSize v =
     (case integer_param v of Some n \<Rightarrow> if n \<in> set PAGE_SIZES then Some n else None | None \<Rightarrow> None)"

subsection \<open>Validators of a search\<close>

definition validateOverviewSearch :: "(string \<times> json) list \<Rightarrow> overview_range option" where
  "validateOverviewSearch input = oneOf (own input ''range'') OVERVIEW_RANGES"

definition validateAccountsSearch :: "(string \<times> json) list \<Rightarrow> accounts_search" where
  "validateAccountsSearch input =
     (let add = own input ''add'';
          status = own input ''status'';
          legacyEnabled = (if status = JStr ''enabled'' then Some ''on'' else None)
      in \<lparr>as_add = (add = JBool True \<or> add = jint 1 \<or> add = JStr ''1'' \<or> add = JStr ''true''),
          as_q = text_param (own input ''q''),
          as_status = oneOf status ACCOUNT_STATUS_FILTERS,
          as_plan = text_param (own input ''plan''),
          as_auth = text_param (own input ''auth''),
          as_region = text_param (own input ''region''),
          as_enabled =
            (case oneOf (own input ''enabled'') [(''on'', ''on''), (''off'', ''off'')] of
               Some e \<Rightarrow> Some e | None \<Rightarrow> legacyEnabled),
          as_sort = oneOf (own input ''sort'') ACCOUNT_SORTS,
          as_order = oneOf (own input ''order'') ORDERS,
          as_page = pageNumber (own input ''page''),
          as_pageSize = pageSize (own input ''pageSize'')\<rparr>)"

definition validateRequestsSearch :: "(string \<times> json) list \<Rightarrow> requests_search" where
  "validateRequestsSearch input =
     \<lparr>qs_page = pageNumber (own input ''page''),
      qs_pageSize = pageSize (own input ''pageSize''),
      qs_search = text_param (own input ''search''),
      qs_status = oneOf (own input ''status'') [(''success'', Success), (''failed'', Failed)],
      qs_sort = oneOf (own input ''sort'') REQUEST_SORTS,
      qs_order = oneOf (own input ''order'') ORDERS\<rparr>"

subsection \<open>The redirect after sign-in\<close>

definition isSafeRedirect :: "json \<Rightarrow> bool" where
  "isSafeRedirect v = (case v of
      JStr s \<Rightarrow> startsWith s ''/'' \<and> \<not> startsWith s ''//'' \<and> \<not> startsWith s (''/'' @ [CHR 0x5C])
    | _ \<Rightarrow> False)"

definition validateLoginSearch :: "(string \<times> json) list \<Rightarrow> string option" where
  "validateLoginSearch input =
     (if isSafeRedirect (own input ''redirect'') then as_string (own input ''redirect'') else None)"

text \<open>
  \<open>new URLSearchParams(text)\<close>: \<open>&\<close>-separated pieces, empty ones dropped, each cut at its first
  \<open>=\<close>; \<open>decode\<close> is the platform's form decoding (\<open>+\<close> and percent escapes). Reading the pairs into
  an object keeps the last value of a repeated key.
\<close>

definition search_pairs :: "(string \<Rightarrow> string) \<Rightarrow> string \<Rightarrow> (string \<times> string) list" where
  "search_pairs decode query =
     map (\<lambda>piece. case indexOf piece ''='' of
             None \<Rightarrow> (decode piece, [])
           | Some i \<Rightarrow> (decode (take i piece), decode (drop (i + 1) piece)))
         (filter (\<lambda>piece. piece \<noteq> []) (split_char (CHR ''&'') query))"

fun set_key :: "(string \<times> 'v) list \<Rightarrow> string \<Rightarrow> 'v \<Rightarrow> (string \<times> 'v) list" where
  "set_key [] k v = [(k, v)]"
| "set_key ((j, w) # rest) k v = (if j = k then (j, v) # rest else (j, w) # set_key rest k v)"

definition redirectTarget ::
  "(string \<Rightarrow> string) \<Rightarrow> string option \<Rightarrow> string \<times> (string \<times> string) list" where
  "redirectTarget decode redirect =
     (case redirect of
        None \<Rightarrow> (''/'', [])
      | Some r \<Rightarrow>
          if \<not> isSafeRedirect (JStr r) then (''/'', [])
          else
            (let withoutHash = hd (split_char (CHR ''#'') r);
                 queryStart = indexOf withoutHash ''?'';
                 to = (case queryStart of None \<Rightarrow> withoutHash | Some i \<Rightarrow> take i withoutHash);
                 search = (case queryStart of
                     None \<Rightarrow> []
                   | Some i \<Rightarrow> foldl (\<lambda>acc (k, v). set_key acc k v) []
                                 (search_pairs decode (drop (i + 1) withoutHash)))
             in (if to = [] then ''/'' else to, search)))"

subsection \<open>Lemmas\<close>

lemma map_of_set_key: "map_of (set_key xs k v) = (map_of xs)(k \<mapsto> v)"
  by (induction xs k v rule: set_key.induct) auto

lemma distinct_set_key: "distinct (map fst xs) \<Longrightarrow> distinct (map fst (set_key xs k v))"
proof (induction xs k v rule: set_key.induct)
  case (2 j w rest k v)
  have "fst ` set (set_key rest k v) = insert k (fst ` set rest)"
    by (metis dom_fun_upd dom_map_of_conv_image_fst map_of_set_key option.distinct(1))
  with 2 show ?case by auto
qed simp

lemma distinct_foldl_set_key:
  "distinct (map fst acc) \<Longrightarrow> distinct (map fst (foldl (\<lambda>acc (k, v). set_key acc k v) acc ps))"
  by (induction ps arbitrary: acc) (auto simp: distinct_set_key)

lemma oneOf_Some: "oneOf v allowed = Some x \<Longrightarrow> \<exists>s. v = JStr s \<and> (s, x) \<in> set allowed"
  by (auto simp: oneOf_def map_of_SomeD split: json.splits)

lemma pageNumber_Some: "pageNumber v = Some n \<Longrightarrow> 1 \<le> n"
  by (auto simp: pageNumber_def split: option.splits if_splits)

lemma pageSize_Some: "pageSize v = Some n \<Longrightarrow> n \<in> set PAGE_SIZES"
  by (auto simp: pageSize_def split: option.splits if_splits)

lemma text_param_Some: "text_param v = Some s \<Longrightarrow> s \<noteq> []"
  by (auto simp: text_param_def split: json.splits if_splits)

lemma hd_split_char: "hd (split_char d s) = takeWhile (\<lambda>c. c \<noteq> d) s"
proof (induction s)
  case (Cons c s)
  then show ?case by (cases "split_char d s") auto
qed simp

lemma take_index_char: "indexOf s [c] = Some i \<Longrightarrow> take i s = takeWhile (\<lambda>d. d \<noteq> c) s"
  by (metis indexOf_char option.distinct(1) option.inject takeWhile_eq_take)

text \<open>The path of a target is the redirect cut at the first \<open>#\<close> and then at the first \<open>?\<close>.\<close>

lemma redirectTarget_path:
  assumes "isSafeRedirect (JStr r)"
  shows "fst (redirectTarget decode (Some r)) =
    takeWhile (\<lambda>c. c \<noteq> CHR ''?'') (takeWhile (\<lambda>c. c \<noteq> CHR ''#'') r)"
proof -
  obtain r' where r: "r = CHR ''/'' # r'" using assms by (cases r) (auto simp: isSafeRedirect_def)
  let ?w = "takeWhile (\<lambda>c. c \<noteq> CHR ''#'') r"
  have ne: "?w \<noteq> []" "takeWhile (\<lambda>c. c \<noteq> CHR ''?'') ?w \<noteq> []" by (simp_all add: r)
  show ?thesis
  proof (cases "indexOf ?w ''?''")
    case None
    then have "CHR ''?'' \<notin> set ?w" by (simp add: indexOf_char split: if_splits)
    then have e: "takeWhile (\<lambda>c. c \<noteq> CHR ''?'') ?w = ?w" by (subst takeWhile_eq_all_conv) blast
    have "fst (redirectTarget decode (Some r)) = ?w"
      using None ne assms by (simp add: redirectTarget_def hd_split_char Let_def)
    then show ?thesis using e by (rule trans [OF _ sym])
  next
    case (Some i)
    then have "take i ?w = takeWhile (\<lambda>c. c \<noteq> CHR ''?'') ?w" by (rule take_index_char)
    with Some ne assms show ?thesis
      by (simp add: redirectTarget_def hd_split_char Let_def)
  qed
qed

lemma startsWith_takeWhile: "startsWith (takeWhile P s) p \<Longrightarrow> startsWith s p"
  by (metis append.assoc startsWith_iff takeWhile_dropWhile_id)

lemma isSafeRedirect_takeWhile:
  "isSafeRedirect (JStr s) \<Longrightarrow> P (CHR ''/'') \<Longrightarrow> isSafeRedirect (JStr (takeWhile P s))"
  by (cases s) (auto simp: isSafeRedirect_def dest: startsWith_takeWhile)

lemma isSafeRedirect_start: "isSafeRedirect (JStr s) \<Longrightarrow>
    take 1 s = ''/'' \<and> take 1 (drop 1 s) \<notin> {''/'', [CHR 0x5C]}"
  by (cases s; cases "tl s") (auto simp: isSafeRedirect_def)

subsection \<open>Properties\<close>

text \<open>C29: The sign-in page never sends the browser off the origin: whatever the \<open>redirect\<close>
  parameter is, the router target is a path that starts with one slash (not \<open>//host\<close>, not a slash
  and a backslash), holds neither a query nor a fragment, and its search has no key twice.\<close>

theorem redirect_target_safe:
  shows "take 1 (fst (redirectTarget decode redirect)) = ''/'' \<and>
    take 1 (drop 1 (fst (redirectTarget decode redirect))) \<notin> {''/'', [CHR 0x5C]} \<and>
    CHR ''?'' \<notin> set (fst (redirectTarget decode redirect)) \<and>
    CHR ''#'' \<notin> set (fst (redirectTarget decode redirect)) \<and>
    distinct (map fst (snd (redirectTarget decode redirect)))"
proof (cases "redirect = None \<or> \<not> isSafeRedirect (JStr (the redirect))")
  case True
  then have "redirectTarget decode redirect = (''/'', [])"
    by (auto simp: redirectTarget_def split: option.splits)
  then show ?thesis by simp
next
  case False
  then obtain r where r: "redirect = Some r" "isSafeRedirect (JStr r)" by auto
  have "distinct (map fst (snd (redirectTarget decode (Some r))))"
    by (auto simp: redirectTarget_def Let_def distinct_foldl_set_key split: option.splits)
  moreover note redirectTarget_path [OF r(2), of decode]
  ultimately show ?thesis
    using isSafeRedirect_start [OF isSafeRedirect_takeWhile [OF isSafeRedirect_takeWhile [OF r(2)]]]
    by (auto simp: r(1) dest: set_takeWhileD)
qed

text \<open>Every validated accounts search holds legal values only, whatever the raw URL search
  was: a page is at least 1, a page size is one the pager offers, free text is never empty, the
  enabled filter is on or off, and the old link \<open>status=enabled\<close> reads as the Enabled filter.\<close>

theorem accounts_search_legal:
  shows "(case as_page (validateAccountsSearch input) of None \<Rightarrow> True | Some n \<Rightarrow> 1 \<le> n) \<and>
    (case as_pageSize (validateAccountsSearch input) of None \<Rightarrow> True | Some n \<Rightarrow> n \<in> {25, 50, 100}) \<and>
    [] \<notin> set_option (as_q (validateAccountsSearch input)) \<and>
    set_option (as_enabled (validateAccountsSearch input)) \<subseteq> {''on'', ''off''} \<and>
    as_enabled (validateAccountsSearch [(''status'', JStr ''enabled'')]) = Some ''on'' \<and>
    as_status (validateAccountsSearch [(''status'', JStr ''enabled'')]) = None"
proof (intro conjI)
  show "case as_page (validateAccountsSearch input) of None \<Rightarrow> True | Some n \<Rightarrow> 1 \<le> n"
    by (auto simp: validateAccountsSearch_def Let_def dest: pageNumber_Some split: option.splits)
  show "case as_pageSize (validateAccountsSearch input) of None \<Rightarrow> True | Some n \<Rightarrow> n \<in> {25, 50, 100}"
    by (auto simp: validateAccountsSearch_def Let_def PAGE_SIZES_def dest!: pageSize_Some split: option.splits)
  show "[] \<notin> set_option (as_q (validateAccountsSearch input))"
    by (auto simp: validateAccountsSearch_def Let_def dest: text_param_Some)
  show "set_option (as_enabled (validateAccountsSearch input)) \<subseteq> {''on'', ''off''}"
    by (auto simp: validateAccountsSearch_def Let_def dest!: oneOf_Some split: option.splits if_splits)
qed (simp_all add: validateAccountsSearch_def oneOf_def ACCOUNT_STATUS_FILTERS_def ACCOUNT_STATUSES_def)

end
