(* ===== verification/Account_Model.thy ===== *)
theory Account_Model
  imports Search_Params
begin

text \<open>
  The pure rules of the Accounts page (src/ui/src/features/accounts/account-model.ts): labels,
  the one status a row shows, filters and their option counts, sorting, expiry arithmetic,
  validation, the credential copies and the failure summary of a batch. The object tables
  (\<open>AUTH_KEYS\<close>, \<open>AUTH_IDS\<close>) are association lists of their own keys. The locale-aware
  \<open>localeCompare\<close> and the translation function are parameters, as they are in the code.
\<close>

subsection \<open>Labels\<close>

datatype subscription_tier = Power | ProPlus | Pro | Free

fun tier_text :: "subscription_tier \<Rightarrow> string" where
  "tier_text Power = ''power''"
| "tier_text ProPlus = ''proPlus''"
| "tier_text Pro = ''pro''"
| "tier_text Free = ''free''"

definition subscriptionTier :: "string \<Rightarrow> subscription_tier option" where
  "subscriptionTier type =
     (let upper = toUpperCase type in
      if includesStr upper ''POWER'' then Some Power
      else if includesStr upper ''PRO_PLUS'' \<or> includesStr upper ''PROPLUS'' then Some ProPlus
      else if includesStr upper ''PRO'' then Some Pro
      else if includesStr upper ''FREE'' \<or> upper = [] then Some Free
      else None)"

definition subscriptionLabel :: "string \<Rightarrow> tfun \<Rightarrow> string" where
  "subscriptionLabel type t =
     (case subscriptionTier type of
        Some tier \<Rightarrow> t (''subscription.'' @ tier_text tier) []
      | None \<Rightarrow> type)"

definition AUTH_KEYS :: "(string \<times> string) list" where
  "AUTH_KEYS =
     [(''idc'', ''auth.enterprise''), (''enterprise'', ''auth.enterprise''),
      (''external_idp'', ''auth.microsoft''), (''azuread'', ''auth.microsoft''),
      (''apikey'', ''auth.apiKey''), (''api_key'', ''auth.apiKey''),
      (''social'', ''auth.social''), (''builderid'', ''auth.builderId''),
      (''github'', ''auth.github''), (''google'', ''auth.google'')]"

definition formatAuthMethod :: "string \<Rightarrow> tfun \<Rightarrow> string" where
  "formatAuthMethod v t =
     (if v = [] then EMPTY
      else case map_of AUTH_KEYS (toLowerCase v) of Some key \<Rightarrow> t key [] | None \<Rightarrow> v)"

definition provider_or_method :: "'a account_base_scheme \<Rightarrow> string" where
  "provider_or_method a = (if acc_provider a \<noteq> [] then acc_provider a else acc_authMethod a)"

definition authLabel :: "'a account_base_scheme \<Rightarrow> tfun \<Rightarrow> string" where
  "authLabel a t = formatAuthMethod (provider_or_method a) t"

definition isApiKeyAccount :: "'a account_base_scheme \<Rightarrow> bool" where
  "isApiKeyAccount a \<longleftrightarrow> toLowerCase (acc_authMethod a) = ''api_key''"

subsection \<open>Health and filters\<close>

definition DISABLED_BAN_STATUS :: string where
  "DISABLED_BAN_STATUS = ''DISABLED''"

definition isHeld :: "'a account_base_scheme \<Rightarrow> bool" where
  "isHeld a \<longleftrightarrow> acc_banStatus a \<noteq> [] \<and> acc_banStatus a \<noteq> ''ACTIVE''"

definition isBanned :: "'a account_base_scheme \<Rightarrow> bool" where
  "isBanned a \<longleftrightarrow> isHeld a \<and> acc_banStatus a \<noteq> DISABLED_BAN_STATUS"

definition isOutOfCredits :: "'a account_base_scheme \<Rightarrow> bool" where
  "isOutOfCredits a \<longleftrightarrow> acc_usageLimit a > 0 \<and> acc_usageCurrent a \<ge> acc_usageLimit a"

definition accountStatus :: "account \<Rightarrow> int \<Rightarrow> account_status" where
  "accountStatus a nowSec =
     (if isBanned a then (if acc_banStatus a = ''SUSPENDED'' then Suspended else Banned)
      else if \<not> acc_hasToken a then NoToken
      else if isOutOfCredits a then OutOfCredits
      else if acc_expiresAt a \<noteq> 0 \<and> acc_expiresAt a < nowSec then Expired
      else if \<not> acc_enabled a \<or> acc_banStatus a = DISABLED_BAN_STATUS then Disabled
      else Active)"

fun index_in :: "('a \<times> 'b) list \<Rightarrow> 'b \<Rightarrow> nat" where
  "index_in [] s = 0"
| "index_in ((n, x) # xs) s = (if x = s then 0 else Suc (index_in xs s))"

definition statusRank :: "account_status \<Rightarrow> nat" where
  "statusRank s = index_in ACCOUNT_STATUSES s"

definition status_text :: "account_status \<Rightarrow> string" where
  "status_text s = fst (ACCOUNT_STATUSES ! statusRank s)"

datatype status_group = GroupActive | GroupAttention | GroupDisabled

definition STATUS_GROUPS :: "status_group list" where
  "STATUS_GROUPS = [GroupActive, GroupAttention, GroupDisabled]"

definition statusGroup :: "account_status \<Rightarrow> status_group" where
  "statusGroup s = (case s of Active \<Rightarrow> GroupActive | Disabled \<Rightarrow> GroupDisabled | _ \<Rightarrow> GroupAttention)"

definition statusFilterGroup :: "account_status_filter option \<Rightarrow> status_group option" where
  "statusFilterGroup f = (case f of
      None \<Rightarrow> None
    | Some Attention \<Rightarrow> Some GroupAttention
    | Some (Only s) \<Rightarrow> Some (statusGroup s))"

definition matchesStatus :: "account_status \<Rightarrow> account_status_filter \<Rightarrow> bool" where
  "matchesStatus s f = (case f of
      Attention \<Rightarrow> statusGroup s = GroupAttention
    | Only x \<Rightarrow> s = x)"

definition AUTH_IDS :: "(string \<times> string) list" where
  "AUTH_IDS =
     [(''idc'', ''enterprise''), (''enterprise'', ''enterprise''),
      (''external_idp'', ''microsoft''), (''azuread'', ''microsoft''), (''microsoft'', ''microsoft''),
      (''apikey'', ''apiKey''), (''api_key'', ''apiKey''), (''social'', ''social''),
      (''builderid'', ''builderId''), (''github'', ''github''), (''google'', ''google'')]"

definition authKey :: "'a account_base_scheme \<Rightarrow> string" where
  "authKey a =
     (let raw = toLowerCase (provider_or_method a)
      in case map_of AUTH_IDS raw of Some i \<Rightarrow> i | None \<Rightarrow> raw)"

definition NO_PROFILE_AUTH :: "string list" where
  "NO_PROFILE_AUTH = [''builderId'', ''social'', ''github'', ''google'', ''apiKey'']"

definition supportsKiroProfiles :: "'a account_base_scheme \<Rightarrow> bool" where
  "supportsKiroProfiles a \<longleftrightarrow> authKey a \<notin> set NO_PROFILE_AUTH"

definition planKey :: "'a account_base_scheme \<Rightarrow> string" where
  "planKey a = (case subscriptionTier (acc_subscriptionType a) of
      Some tier \<Rightarrow> tier_text tier | None \<Rightarrow> acc_subscriptionType a)"

definition regionKey :: "'a account_base_scheme \<Rightarrow> string" where
  "regionKey a = (if acc_region a \<noteq> [] then acc_region a else ''us-east-1'')"

datatype filter_dimension = DStatus | DPlan | DAuth | DRegion | DEnabled

definition FILTER_DIMENSIONS :: "filter_dimension list" where
  "FILTER_DIMENSIONS = [DStatus, DPlan, DAuth, DRegion, DEnabled]"

fun dimensionValue :: "account \<Rightarrow> filter_dimension \<Rightarrow> int \<Rightarrow> string" where
  "dimensionValue a DStatus nowSec = status_text (accountStatus a nowSec)"
| "dimensionValue a DPlan nowSec = planKey a"
| "dimensionValue a DAuth nowSec = authKey a"
| "dimensionValue a DRegion nowSec = regionKey a"
| "dimensionValue a DEnabled nowSec = (if acc_enabled a then ''on'' else ''off'')"

text \<open>\<open>filters[dimension] !== undefined\<close>, and the test \<open>every\<close> runs for a set dimension.\<close>

fun filter_is_set :: "accounts_search \<Rightarrow> filter_dimension \<Rightarrow> bool" where
  "filter_is_set f DStatus = (as_status f \<noteq> None)"
| "filter_is_set f DPlan = (as_plan f \<noteq> None)"
| "filter_is_set f DAuth = (as_auth f \<noteq> None)"
| "filter_is_set f DRegion = (as_region f \<noteq> None)"
| "filter_is_set f DEnabled = (as_enabled f \<noteq> None)"

fun dimension_passes :: "account \<Rightarrow> accounts_search \<Rightarrow> int \<Rightarrow> filter_dimension \<Rightarrow> bool" where
  "dimension_passes a f nowSec DStatus =
     (case as_status f of None \<Rightarrow> False | Some x \<Rightarrow> matchesStatus (accountStatus a nowSec) x)"
| "dimension_passes a f nowSec DPlan = (Some (dimensionValue a DPlan nowSec) = as_plan f)"
| "dimension_passes a f nowSec DAuth = (Some (dimensionValue a DAuth nowSec) = as_auth f)"
| "dimension_passes a f nowSec DRegion = (Some (dimensionValue a DRegion nowSec) = as_region f)"
| "dimension_passes a f nowSec DEnabled = (Some (dimensionValue a DEnabled nowSec) = as_enabled f)"

definition filterAccounts :: "account list \<Rightarrow> accounts_search \<Rightarrow> int \<Rightarrow> account list" where
  "filterAccounts accounts f nowSec =
     (let needle = toLowerCase (trim (case as_q f of None \<Rightarrow> [] | Some q \<Rightarrow> q));
          active = filter (filter_is_set f) FILTER_DIMENSIONS
      in filter (\<lambda>a. list_all (dimension_passes a f nowSec) active \<and>
                 (needle = [] \<or> includesStr (toLowerCase (acc_email a)) needle \<or>
                  includesStr (toLowerCase (acc_nickname a)) needle)) accounts)"

definition planLabel :: "'a account_base_scheme \<Rightarrow> tfun \<Rightarrow> string" where
  "planLabel a t =
     (if subscriptionTier (acc_subscriptionType a) \<noteq> None
      then subscriptionLabel (acc_subscriptionType a) t
      else if acc_subscriptionTitle a \<noteq> [] then acc_subscriptionTitle a
      else if acc_subscriptionType a \<noteq> [] then acc_subscriptionType a
      else EMPTY)"

record filter_option =
  opt_value :: string
  opt_label :: string
  opt_count :: int

fun optionLabel :: "account \<Rightarrow> filter_dimension \<Rightarrow> string \<Rightarrow> tfun \<Rightarrow> string" where
  "optionLabel a DStatus v t = t (''health.'' @ v) []"
| "optionLabel a DPlan v t = planLabel a t"
| "optionLabel a DAuth v t = authLabel a t"
| "optionLabel a DRegion v t = v"
| "optionLabel a DEnabled v t =
     (if v = ''on'' then t ''filter.enabledOn'' [] else t ''filter.enabledOff'' [])"

text \<open>One round of the counting loop over the insertion-ordered map of options.\<close>

definition count_option ::
  "filter_dimension \<Rightarrow> tfun \<Rightarrow> int \<Rightarrow> filter_option list \<Rightarrow> account \<Rightarrow> filter_option list" where
  "count_option d t nowSec options a =
     (let v = dimensionValue a d nowSec in
      case find_by opt_value options v of
        Some _ \<Rightarrow> modify_by opt_value v (\<lambda>p. p\<lparr>opt_count := opt_count p + 1\<rparr>) options
      | None \<Rightarrow> options @ [\<lparr>opt_value = v, opt_label = optionLabel a d v t, opt_count = 1\<rparr>])"

definition status_rank_text :: "string \<Rightarrow> int" where
  "status_rank_text v = (case map_of ACCOUNT_STATUSES v of Some s \<Rightarrow> int (statusRank s) | None \<Rightarrow> -1)"

definition filterOptions ::
  "(string \<Rightarrow> string \<Rightarrow> int) \<Rightarrow> account list \<Rightarrow> filter_dimension \<Rightarrow> tfun \<Rightarrow> int \<Rightarrow> filter_option list" where
  "filterOptions localeCompare accounts d t nowSec =
     (let options = foldl (count_option d t nowSec) [] accounts in
      case d of
        DStatus \<Rightarrow>
          sort_cmp (\<lambda>a b. status_rank_text (opt_value a) - status_rank_text (opt_value b)) options
      | DEnabled \<Rightarrow>
          sort_cmp (\<lambda>a b. if opt_value a = ''on'' then -1 else if opt_value b = ''on'' then 1 else 0) options
      | _ \<Rightarrow> sort_cmp (\<lambda>a b. localeCompare (opt_label a) (opt_label b)) options)"

subsection \<open>Sorting\<close>

definition usageFraction :: "'a account_base_scheme \<Rightarrow> rat" where
  "usageFraction a =
     (if acc_usageLimit a > 0 then acc_usagePercent a
      else if acc_trialUsageLimit a > 0 then acc_trialUsagePercent a
      else -1)"

definition accountsDefaultSortDesc :: "string \<Rightarrow> bool" where
  "accountsDefaultSortDesc column \<longleftrightarrow>
     column = ''usage'' \<or> column = ''requests'' \<or> column = ''lastUsed''"

datatype sort_key = KNull | KStr string | KNum rat

fun account_sort_key :: "account_sort \<Rightarrow> int \<Rightarrow> account \<Rightarrow> sort_key" where
  "account_sort_key SortAccount nowSec a =
     KStr (toLowerCase (if acc_email a \<noteq> [] then acc_email a else acc_id a))"
| "account_sort_key SortStatus nowSec a = KNum (of_nat (statusRank (accountStatus a nowSec)))"
| "account_sort_key SortUsage nowSec a = (if usageFraction a < 0 then KNull else KNum (usageFraction a))"
| "account_sort_key SortRequests nowSec a = KNum (of_int (acc_requestCount a))"
| "account_sort_key SortLastUsed nowSec a = (if acc_lastUsed a = 0 then KNull else KNum (of_int (acc_lastUsed a)))"
| "account_sort_key SortExpiry nowSec a = (if acc_expiresAt a = 0 then KNull else KNum (of_int (acc_expiresAt a)))"

text \<open>
  The order of two keys; a string against a number would be \<open>NaN\<close>, which \<open>||\<close> skips like 0.
\<close>

fun key_order :: "(string \<Rightarrow> string \<Rightarrow> int) \<Rightarrow> sort_key \<Rightarrow> sort_key \<Rightarrow> int" where
  "key_order localeCompare (KStr a) (KStr b) = localeCompare a b"
| "key_order localeCompare (KNum a) (KNum b) = cmp_num a b"
| "key_order localeCompare _ _ = 0"

definition keyed_compare ::
  "(string \<Rightarrow> string \<Rightarrow> int) \<Rightarrow> bool \<Rightarrow> account \<times> nat \<times> sort_key \<Rightarrow> account \<times> nat \<times> sort_key \<Rightarrow> int" where
  "keyed_compare localeCompare desc x y =
     (let (_, i, a) = x; (_, j, b) = y in
      if a = KNull \<or> b = KNull then
        (if a = b then int i - int j else if a = KNull then 1 else -1)
      else
        (let order = key_order localeCompare a b; signed = (if desc then - order else order)
         in if signed \<noteq> 0 then signed else int i - int j))"

definition sortAccounts ::
  "(string \<Rightarrow> string \<Rightarrow> int) \<Rightarrow> account list \<Rightarrow> account_sort option \<Rightarrow> bool \<Rightarrow> int \<Rightarrow> account list" where
  "sortAccounts localeCompare accounts srt desc nowSec =
     (case srt of
        None \<Rightarrow> accounts
      | Some s \<Rightarrow>
          (let keyed = map (\<lambda>(a, i). (a, i, account_sort_key s nowSec a))
                         (zip accounts [0..<length accounts])
           in map fst (sort_cmp (keyed_compare localeCompare desc) keyed)))"

subsection \<open>Credits and time\<close>

definition usagePercent :: "jnum \<Rightarrow> rat" where
  "usagePercent fraction = (case fraction of Fin r \<Rightarrow> min 100 (max 0 (r * 100)) | _ \<Rightarrow> 0)"

datatype credit_tone = ToneDefault | ToneWarning | ToneDestructive

definition creditTone :: "rat \<Rightarrow> credit_tone" where
  "creditTone pct = (if pct > 90 then ToneDestructive else if pct > 70 then ToneWarning else ToneDefault)"

definition DAY_MS :: int where
  "DAY_MS = 86400000"

datatype trial_expiry = TrialExpired | TrialToday | TrialDays int

definition trialExpiry :: "int \<Rightarrow> int \<Rightarrow> trial_expiry option" where
  "trialExpiry trialExpiresAt nowMs =
     (if trialExpiresAt = 0 then None
      else
        (let days = js_ceil_div (trialExpiresAt * 1000 - nowMs) DAY_MS in
         if days < 0 then Some TrialExpired
         else if days = 0 then Some TrialToday
         else if days \<le> 7 then Some (TrialDays days)
         else None))"

datatype token_expiry = TokenNone | TokenExpired | TokenMinutes int | TokenHours int | TokenDays int

definition tokenExpiry :: "int \<Rightarrow> int \<Rightarrow> token_expiry" where
  "tokenExpiry expiresAt nowSec =
     (if expiresAt = 0 then TokenNone
      else
        (let diff = expiresAt - nowSec in
         if diff \<le> 0 then TokenExpired
         else if diff < 3600 then TokenMinutes (diff div 60)
         else if diff < 86400 then TokenHours (diff div 3600)
         else TokenDays (diff div 86400)))"

fun formatTokenExpiry :: "token_expiry \<Rightarrow> tfun \<Rightarrow> string" where
  "formatTokenExpiry TokenNone t = EMPTY"
| "formatTokenExpiry TokenExpired t = t ''time.expired'' []"
| "formatTokenExpiry (TokenMinutes v) t = t ''time.minutes'' [(''value'', TNum v)]"
| "formatTokenExpiry (TokenHours v) t = t ''time.hours'' [(''value'', TNum v)]"
| "formatTokenExpiry (TokenDays v) t = t ''time.days'' [(''value'', TNum v)]"

subsection \<open>Validation\<close>

definition is_uuid :: "string \<Rightarrow> bool" where
  "is_uuid s \<longleftrightarrow> length s = 36 \<and>
     list_all (\<lambda>(i, c). if i \<in> {8, 13, 18, 23} then c = CHR ''-'' else is_hex c)
       (zip [0::nat..<36] s)"

definition isValidMachineId :: "string \<Rightarrow> bool" where
  "isValidMachineId v =
     (let trimmed = trim v
      in trimmed = [] \<or> is_uuid trimmed \<or> (length trimmed = 32 \<and> list_all is_hex trimmed))"

definition isValidProxyUrl :: "string \<Rightarrow> bool" where
  "isValidProxyUrl v =
     (let trimmed = trim v
      in trimmed = [] \<or>
         list_ex (\<lambda>scheme. startsWith trimmed (scheme @ ''://''))
           [''socks5'', ''socks5h'', ''http'', ''https''])"

subsection \<open>Credentials JSON\<close>

definition buildCopyJson :: "account_full \<Rightarrow> (string \<times> string) list" where
  "buildCopyJson a =
     (if acc_authMethod a = ''api_key'' then
        [(''kiroApiKey'', if full_kiroApiKey a \<noteq> [] then full_kiroApiKey a else full_accessToken a),
         (''region'', acc_region a), (''authMethod'', ''api_key'')]
      else if acc_authMethod a = ''external_idp'' then
        [(''clientId'', full_clientId a), (''accessToken'', full_accessToken a),
         (''refreshToken'', full_refreshToken a), (''authMethod'', acc_authMethod a),
         (''provider'', acc_provider a), (''userId'', acc_userId a),
         (''profileArn'', acc_profileArn a), (''tokenEndpoint'', full_tokenEndpoint a),
         (''issuerUrl'', full_issuerUrl a), (''scopes'', full_scopes a)]
      else
        [(''clientId'', full_clientId a), (''clientSecret'', full_clientSecret a),
         (''accessToken'', full_accessToken a), (''refreshToken'', full_refreshToken a)])"

text \<open>A copied entry of the export dialog; an optional credential may be undefined.\<close>

definition buildExportCopy :: "export_credentials list option \<Rightarrow> (string \<times> string option) list list" where
  "buildExportCopy accounts =
     map (\<lambda>c. if exc_authMethod c = Some ''api_key'' then
                [(''kiroApiKey'', Some (exc_accessToken c)), (''region'', exc_region c),
                 (''authMethod'', exc_authMethod c)]
              else
                [(''clientId'', exc_clientId c), (''clientSecret'', exc_clientSecret c),
                 (''accessToken'', Some (exc_accessToken c)), (''refreshToken'', Some (exc_refreshToken c))])
       (case accounts of None \<Rightarrow> [] | Some cs \<Rightarrow> cs)"

definition pad2 :: "int \<Rightarrow> string" where
  "pad2 n = padStart 2 (CHR ''0'') (string_of_int n)"

text \<open>Year, month (from 0) and day of a local date.\<close>

definition exportFilename :: "int \<times> int \<times> int \<Rightarrow> string" where
  "exportFilename date = (case date of (y, m, d) \<Rightarrow>
     ''kiro-accounts-'' @ string_of_int y @ ''-'' @ pad2 (m + 1) @ ''-'' @ pad2 d @ ''.json'')"

subsection \<open>Models\<close>

definition modelRate :: "model_info \<Rightarrow> rat" where
  "modelRate m = (if mi_rateMultiplier m \<noteq> 0 then mi_rateMultiplier m else 1)"

definition model_compare :: "model_info \<Rightarrow> model_info \<Rightarrow> int" where
  "model_compare a b =
     (if mi_modelId a = ''auto'' then -1
      else if mi_modelId b = ''auto'' then 1
      else cmp_num (modelRate a) (modelRate b))"

definition sortModels :: "model_info list \<Rightarrow> model_info list" where
  "sortModels models = sort_cmp model_compare models"

definition overageEnabled :: "'a account_base_scheme \<Rightarrow> bool" where
  "overageEnabled a \<longleftrightarrow> toUpperCase (acc_overageStatus a) = ''ENABLED''"

definition overageCapable :: "'a account_base_scheme \<Rightarrow> bool" where
  "overageCapable a \<longleftrightarrow> toUpperCase (acc_overageCapability a) \<noteq> ''NOT_OVERAGE_CAPABLE''"

subsection \<open>Batch results\<close>

definition FAILURE_NAMES_SHOWN :: nat where
  "FAILURE_NAMES_SHOWN = 3"

definition describe_failure :: "(string \<Rightarrow> string) \<Rightarrow> tfun \<Rightarrow> account_action_result \<Rightarrow> string" where
  "describe_failure nameOf t r =
     (let reason = (case res_error r of
            Some e \<Rightarrow> if e \<noteq> [] then e
                      else if res_status r = Some NotFound then t ''batch.notFound'' [] else []
          | None \<Rightarrow> if res_status r = Some NotFound then t ''batch.notFound'' [] else [])
      in if reason \<noteq> [] then nameOf (res_id r) @ '': '' @ reason else nameOf (res_id r))"

definition failure_lines ::
  "account_action_result list \<Rightarrow> (string \<Rightarrow> string) \<Rightarrow> tfun \<Rightarrow> string list" where
  "failure_lines results nameOf t =
     (let failed = filter (\<lambda>r. \<not> res_ok r) results;
          named = map (describe_failure nameOf t) (take FAILURE_NAMES_SHOWN failed);
          rest = int (length failed) - int (length named)
      in if rest > 0 then named @ [t ''batch.moreFailures'' [(''count'', TNum rest)]] else named)"

definition describeFailures ::
  "account_action_result list option \<Rightarrow> (string \<Rightarrow> string) \<Rightarrow> tfun \<Rightarrow> string" where
  "describeFailures results nameOf t =
     (let rs = (case results of None \<Rightarrow> [] | Some xs \<Rightarrow> xs)
      in if filter (\<lambda>r. \<not> res_ok r) rs = [] then []
         else join [CHR 0x0A] (failure_lines rs nameOf t))"

subsection \<open>Lemmas\<close>

lemma status_text_inject [simp]: "status_text s = status_text s' \<longleftrightarrow> s = s'"
  by (cases s; cases s') (simp_all add: status_text_def statusRank_def ACCOUNT_STATUSES_def)

lemma map_of_status_text [simp]: "map_of ACCOUNT_STATUSES (status_text s) = Some s"
  by (cases s) (simp_all add: status_text_def statusRank_def ACCOUNT_STATUSES_def)

lemma map_of_filter_text [simp]: "map_of ACCOUNT_STATUS_FILTERS (status_text s) = Some (Only s)"
  by (cases s) (simp_all add: ACCOUNT_STATUS_FILTERS_def status_text_def statusRank_def ACCOUNT_STATUSES_def)

lemma statusRank_simps [simp]:
  "statusRank Banned = 0" "statusRank Suspended = 1" "statusRank NoToken = 2"
  "statusRank OutOfCredits = 3" "statusRank Expired = 4" "statusRank Disabled = 5"
  "statusRank Active = 6"
  by (simp_all add: statusRank_def ACCOUNT_STATUSES_def)

text \<open>When each status applies to an account, taken on its own.\<close>

fun status_applies :: "account \<Rightarrow> int \<Rightarrow> account_status \<Rightarrow> bool" where
  "status_applies a now Banned \<longleftrightarrow>
     acc_banStatus a \<notin> {[], ''ACTIVE'', ''DISABLED'', ''SUSPENDED''}"
| "status_applies a now Suspended \<longleftrightarrow> acc_banStatus a = ''SUSPENDED''"
| "status_applies a now NoToken \<longleftrightarrow> \<not> acc_hasToken a"
| "status_applies a now OutOfCredits \<longleftrightarrow> 0 < acc_usageLimit a \<and> acc_usageLimit a \<le> acc_usageCurrent a"
| "status_applies a now Expired \<longleftrightarrow> acc_expiresAt a \<noteq> 0 \<and> acc_expiresAt a < now"
| "status_applies a now Disabled \<longleftrightarrow> \<not> acc_enabled a \<or> acc_banStatus a = ''DISABLED''"
| "status_applies a now Active \<longleftrightarrow> True"

text \<open>What the counting loop keeps: one option per value met, with its exact count.\<close>

definition options_inv ::
  "filter_dimension \<Rightarrow> int \<Rightarrow> filter_option list \<Rightarrow> account list \<Rightarrow> bool" where
  "options_inv d now options seen \<longleftrightarrow>
     distinct (map opt_value options) \<and>
     opt_value ` set options = (\<lambda>a. dimensionValue a d now) ` set seen \<and>
     (\<forall>p\<in>set options. opt_count p = int (length (filter (\<lambda>a. dimensionValue a d now = opt_value p) seen)))"

lemma modify_by_inc:
  "distinct (map opt_value ps) \<Longrightarrow>
   set (modify_by opt_value v (\<lambda>p. p\<lparr>opt_count := opt_count p + 1\<rparr>) ps) =
     (\<lambda>p. if opt_value p = v then p\<lparr>opt_count := opt_count p + 1\<rparr> else p) ` set ps"
proof (induction ps)
  case (Cons p ps)
  then have "opt_value p = v \<Longrightarrow>
      (\<lambda>p. if opt_value p = v then p\<lparr>opt_count := opt_count p + 1\<rparr> else p) ` set ps = set ps"
    by (force simp: image_iff)
  with Cons show ?case by auto
qed simp

lemma count_option_inv:
  assumes "options_inv d now options seen"
  shows "options_inv d now (count_option d t now options a) (seen @ [a])"
proof -
  let ?v = "dimensionValue a d now"
  have dist: "distinct (map opt_value options)"
    and vals: "opt_value ` set options = (\<lambda>a. dimensionValue a d now) ` set seen"
    and cnt: "\<And>p. p \<in> set options \<Longrightarrow>
      opt_count p = int (length (filter (\<lambda>a. dimensionValue a d now = opt_value p) seen))"
    using assms by (auto simp: options_inv_def)
  show ?thesis
  proof (cases "find_by opt_value options ?v")
    case None
    then have new: "?v \<notin> opt_value ` set options" by (simp add: find_by_None)
    have "dimensionValue b d now \<noteq> ?v" if "b \<in> set seen" for b
    proof -
      have "dimensionValue b d now \<in> (\<lambda>a. dimensionValue a d now) ` set seen"
        using that by (rule imageI)
      then have "dimensionValue b d now \<in> opt_value ` set options" unfolding vals .
      with new show ?thesis by metis
    qed
    then have none: "filter (\<lambda>b. dimensionValue b d now = ?v) seen = []"
      by (simp add: filter_empty_conv)
    have neq: "?v \<noteq> opt_value p" if "p \<in> set options" for p using new that by (metis imageI)
    then have cnt': "opt_count p = int (length (filter (\<lambda>a. dimensionValue a d now = opt_value p) (seen @ [a])))"
      if "p \<in> set options" for p using cnt [OF that] neq [OF that] by simp
    show ?thesis
      unfolding options_inv_def count_option_def Let_def None option.case
      using dist vals new none cnt' by simp
  next
    case (Some p)
    then have mem: "?v \<in> opt_value ` set options" by (metis find_by_None option.distinct(1))
    let ?f = "\<lambda>p. p\<lparr>opt_count := opt_count p + 1\<rparr>"
    let ?new = "modify_by opt_value ?v ?f options"
    have key: "map opt_value ?new = map opt_value options" by (rule map_key_modify_by) simp
    then have img: "opt_value ` set ?new = opt_value ` set options" by (metis list.set_map)
    have "opt_count q = int (length (filter (\<lambda>a. dimensionValue a d now = opt_value q) (seen @ [a])))"
      if "q \<in> set ?new" for q
      using that cnt unfolding modify_by_inc [OF dist] by auto
    moreover have "(\<lambda>a. dimensionValue a d now) ` set (seen @ [a]) = (\<lambda>a. dimensionValue a d now) ` set seen"
      using mem vals by auto
    ultimately show ?thesis
      unfolding options_inv_def count_option_def Let_def Some option.case key img
      using dist vals by simp
  qed
qed

lemma options_inv_foldl:
  "options_inv d now options seen \<Longrightarrow>
   options_inv d now (foldl (count_option d t now) options accounts) (seen @ accounts)"
proof (induction accounts arbitrary: options seen)
  case (Cons a accounts)
  then show ?case using count_option_inv [of d now options seen t a] by fastforce
qed simp

lemma sum_modify_inc:
  "find_by opt_value ps v \<noteq> None \<Longrightarrow>
   sum_list (map opt_count (modify_by opt_value v (\<lambda>p. p\<lparr>opt_count := opt_count p + 1\<rparr>) ps)) =
     sum_list (map opt_count ps) + 1"
  by (induction ps) auto

lemma sum_count_foldl:
  "sum_list (map opt_count (foldl (count_option d t now) options accounts)) =
    sum_list (map opt_count options) + int (length accounts)"
proof (induction accounts arbitrary: options)
  case (Cons a accounts)
  have "sum_list (map opt_count (count_option d t now options a)) = sum_list (map opt_count options) + 1"
    using sum_modify_inc [of options "dimensionValue a d now"]
    by (auto simp: count_option_def Let_def split: option.splits)
  with Cons show ?case by simp
qed simp

lemma filterOptions_sorted:
  "\<exists>cmp. filterOptions lc accounts d t now = sort_cmp cmp (foldl (count_option d t now) [] accounts)"
  by (cases d) (auto simp: filterOptions_def Let_def)

lemma filterOptions_inv: "options_inv d now (filterOptions lc accounts d t now) accounts"
proof -
  have "options_inv d now (foldl (count_option d t now) [] accounts) accounts"
    using options_inv_foldl [of d now "[]" "[]" t accounts] by (simp add: options_inv_def)
  with filterOptions_sorted [of lc accounts d t now] show ?thesis
    by (auto simp: options_inv_def)
qed

text \<open>The search that picking a value of a dimension puts in the URL.\<close>

fun dimension_name :: "filter_dimension \<Rightarrow> string" where
  "dimension_name DStatus = ''status''"
| "dimension_name DPlan = ''plan''"
| "dimension_name DAuth = ''auth''"
| "dimension_name DRegion = ''region''"
| "dimension_name DEnabled = ''enabled''"

lemma validate_picked:
  assumes "v \<noteq> []" and "v = dimensionValue a d now"
  shows "filterAccounts accounts (validateAccountsSearch [(dimension_name d, JStr v)]) now =
    filter (\<lambda>b. dimensionValue b d now = v) accounts"
proof (cases d)
  case DStatus
  have "status_text (accountStatus a now) \<noteq> ''enabled''"
    by (cases "accountStatus a now") (simp_all add: status_text_def ACCOUNT_STATUSES_def)
  with DStatus assms show ?thesis
    by (simp add: filterAccounts_def validateAccountsSearch_def Let_def text_param_def oneOf_def
        FILTER_DIMENSIONS_def matchesStatus_def)
next
  case DEnabled
  with assms have "v = ''on'' \<or> v = ''off''" by (simp split: if_splits)
  with DEnabled show ?thesis
    by (auto simp: filterAccounts_def validateAccountsSearch_def Let_def text_param_def oneOf_def
        FILTER_DIMENSIONS_def intro!: filter_cong)
qed (use assms in \<open>simp_all add: filterAccounts_def validateAccountsSearch_def Let_def text_param_def
        oneOf_def FILTER_DIMENSIONS_def\<close>)

text \<open>The order of two accounts by key alone: what the comparator is without its index tie break.\<close>

definition key_compare :: "(string \<Rightarrow> string \<Rightarrow> int) \<Rightarrow> bool \<Rightarrow> sort_key \<Rightarrow> sort_key \<Rightarrow> int" where
  "key_compare lc desc a b =
     (if a = KNull \<or> b = KNull then (if a = b then 0 else if a = KNull then 1 else -1)
      else if desc then - key_order lc a b else key_order lc a b)"

definition account_compare ::
  "(string \<Rightarrow> string \<Rightarrow> int) \<Rightarrow> bool \<Rightarrow> account_sort \<Rightarrow> int \<Rightarrow> account \<Rightarrow> account \<Rightarrow> int" where
  "account_compare lc desc s now a b =
     key_compare lc desc (account_sort_key s now a) (account_sort_key s now b)"

lemma sortAccounts_eq:
  "sortAccounts lc accounts (Some s) desc now = sort_cmp (account_compare lc desc s now) accounts"
proof -
  let ?keyed = "map (\<lambda>(a, i). (a, i, account_sort_key s now a)) (zip accounts [0..<length accounts])"
  have "sort_cmp (keyed_compare lc desc) ?keyed =
      sort_cmp (\<lambda>x y. account_compare lc desc s now (fst x) (fst y)) ?keyed"
    by (rule sort_cmp_agree)
      (auto simp: sorted_wrt_iff_nth_less keyed_compare_def account_compare_def key_compare_def Let_def)
  moreover have "map fst (sort_cmp (\<lambda>x y. account_compare lc desc s now (fst x) (fst y)) ?keyed) =
      sort_cmp (account_compare lc desc s now) (map fst ?keyed)"
    by (rule sort_cmp_map [symmetric])
  moreover have "map fst ?keyed = accounts"
    by (simp add: comp_def case_prod_beta)
  ultimately show ?thesis
    by (simp only: sortAccounts_def Let_def option.case)
qed

lemma comparator_keys:
  assumes "comparator lc (\<lambda>_. True)"
  shows "comparator (key_compare lc desc) (\<lambda>k. k = KNull \<or> (\<exists>n. k = KNum n))"
    and "comparator (key_compare lc desc) (\<lambda>k. \<exists>s. k = KStr s)"
proof -
  have flip: "0 < lc x y \<longleftrightarrow> lc y x < 0" for x y
    using comparator.cmp_flip [OF assms] by simp
  have trans: "lc x y \<le> 0 \<Longrightarrow> lc y z \<le> 0 \<Longrightarrow> lc x z \<le> 0" for x y z
    using comparator.cmp_trans [OF assms] by blast
  have flip': "0 \<le> lc x y \<longleftrightarrow> lc y x \<le> 0" for x y
    using flip [of y x] by linarith
  show "comparator (key_compare lc desc) (\<lambda>k. k = KNull \<or> (\<exists>n. k = KNum n))"
    by unfold_locales (auto simp: key_compare_def cmp_num_def split: if_splits)
  show "comparator (key_compare lc desc) (\<lambda>k. \<exists>s. k = KStr s)"
  proof unfold_locales
    fix a b assume "\<exists>s. a = KStr s" "\<exists>s. b = KStr s"
    then show "(0 < key_compare lc desc a b) = (key_compare lc desc b a < 0)"
      using flip by (auto simp: key_compare_def)
  next
    fix a b c assume "\<exists>s. a = KStr s" "\<exists>s. b = KStr s" "\<exists>s. c = KStr s"
      and "key_compare lc desc a b \<le> 0" "key_compare lc desc b c \<le> 0"
    then show "key_compare lc desc a c \<le> 0"
      using trans by (cases desc) (auto simp: key_compare_def flip')
  qed
qed

lemma comparator_account:
  assumes "comparator lc (\<lambda>_. True)"
  shows "comparator (account_compare lc desc s now) (\<lambda>_. True)"
proof (cases "s = SortAccount")
  case True
  show ?thesis unfolding account_compare_def
    by (rule comparator_map [OF comparator_keys(2) [OF assms]]) (simp add: True)
next
  case False
  show ?thesis unfolding account_compare_def
    by (rule comparator_map [OF comparator_keys(1) [OF assms]]) (use False in \<open>cases s; simp\<close>)
qed

lemma comparator_models:
  "comparator (\<lambda>a b. if mi_modelId a = ''auto'' \<and> mi_modelId b = ''auto'' then 0 else model_compare a b)
     (\<lambda>_. True)"
  by unfold_locales (auto simp: model_compare_def cmp_num_def split: if_splits)

text \<open>What a row must pass besides the status filter.\<close>

definition passes_rest :: "account \<Rightarrow> accounts_search \<Rightarrow> int \<Rightarrow> bool" where
  "passes_rest a f now \<longleftrightarrow>
     list_all (\<lambda>d. filter_is_set f d \<longrightarrow> dimension_passes a f now d) [DPlan, DAuth, DRegion, DEnabled] \<and>
     (let needle = toLowerCase (trim (case as_q f of None \<Rightarrow> [] | Some q \<Rightarrow> q)) in
      needle = [] \<or> includesStr (toLowerCase (acc_email a)) needle \<or>
      includesStr (toLowerCase (acc_nickname a)) needle)"

lemma filter_by_status:
  "filterAccounts accounts (f\<lparr>as_status := x\<rparr>) now =
    filter (\<lambda>a. (case x of None \<Rightarrow> True | Some y \<Rightarrow> matchesStatus (accountStatus a now) y) \<and>
      passes_rest a f now) accounts"
proof -
  have all: "list_all P (filter Q ds) = list_all (\<lambda>d. Q d \<longrightarrow> P d) ds"
    for P Q and ds :: "filter_dimension list"
    by (induction ds) auto
  show ?thesis
    unfolding filterAccounts_def Let_def all passes_rest_def FILTER_DIMENSIONS_def
    by (intro filter_cong refl) (simp split: option.split)
qed

text \<open>An account for the witnesses: every field empty, a token, switched on.\<close>

definition sample_account :: account where
  "sample_account =
     \<lparr>acc_id = ''a1'', acc_email = ''ada@example.com'', acc_userId = [], acc_nickname = [],
      acc_authMethod = ''idc'', acc_provider = [], acc_region = [], acc_profileArn = [],
      acc_profileArnPinned = False, acc_enabled = True, acc_silent = False, acc_silentReason = [],
      acc_silentTime = 0, acc_banStatus = [], acc_banReason = [], acc_banTime = 0,
      acc_expiresAt = 0, acc_machineId = [], acc_weight = 0, acc_overageStatus = [],
      acc_overageCapability = [], acc_overageCap = 0, acc_overageRate = 0, acc_currentOverages = 0,
      acc_overageCheckedAt = 0, acc_proxyURL = [], acc_subscriptionType = [],
      acc_subscriptionTitle = [], acc_daysRemaining = 0, acc_usageCurrent = 0, acc_usageLimit = 0,
      acc_usagePercent = 0, acc_nextResetDate = [], acc_lastRefresh = 0, acc_trialUsageCurrent = 0,
      acc_trialUsageLimit = 0, acc_trialUsagePercent = 0, acc_trialStatus = [],
      acc_trialExpiresAt = 0, acc_requestCount = 0, acc_errorCount = 0, acc_totalTokens = 0,
      acc_totalCredits = 0, acc_lastUsed = 0, acc_hasToken = True, acc_activeRegion = []\<rparr>"

subsection \<open>Properties\<close>

text \<open>The status pill shows the worst state that applies to the account: the status chosen
  by the chain of early returns applies, and every other status that applies comes later in
  \<open>ACCOUNT_STATUSES\<close>.\<close>

theorem account_status_worst_first:
  shows "status_applies a now (accountStatus a now) \<and>
    statusRank (accountStatus a now) = Min {statusRank s | s. status_applies a now s}"
proof -
  let ?s = "accountStatus a now"
  have ok: "status_applies a now ?s"
    by (simp add: accountStatus_def isBanned_def isHeld_def isOutOfCredits_def DISABLED_BAN_STATUS_def)
  have least: "statusRank ?s \<le> statusRank s" if "status_applies a now s" for s
    using that by (cases s)
      (simp_all add: accountStatus_def isBanned_def isHeld_def isOutOfCredits_def DISABLED_BAN_STATUS_def)
  have "statusRank s \<le> 6" for s by (cases s) simp_all
  then have "{statusRank s | s. status_applies a now s} \<subseteq> {0..6}" by auto
  then have "finite {statusRank s | s. status_applies a now s}"
    by (rule finite_subset) simp
  with ok least show ?thesis by (intro conjI Min_eqI [symmetric]) auto
qed

text \<open>The tabs Active, Attention and Disabled split the accounts list: whatever else is
  filtered, every row the All tab shows is in exactly one of them, with its multiplicity.\<close>

theorem status_tabs_partition:
  shows "mset (filterAccounts accounts (f\<lparr>as_status := None\<rparr>) now) =
      mset (filterAccounts accounts (f\<lparr>as_status := Some (Only Active)\<rparr>) now) +
      mset (filterAccounts accounts (f\<lparr>as_status := Some Attention\<rparr>) now) +
      mset (filterAccounts accounts (f\<lparr>as_status := Some (Only Disabled)\<rparr>) now)"
proof -
  have split: "mset (filter P xs) = mset (filter A xs) + mset (filter B xs) + mset (filter D xs)"
    if "\<And>a. P a \<longleftrightarrow> A a \<or> B a \<or> D a" "\<And>a. \<not> (A a \<and> B a)" "\<And>a. \<not> (A a \<and> D a)" "\<And>a. \<not> (B a \<and> D a)"
    for P A B D :: "account \<Rightarrow> bool" and xs
    using that by (induction xs) auto
  show ?thesis
    unfolding filter_by_status option.case
    by (rule split) (auto simp: matchesStatus_def statusGroup_def split: account_status.splits)
qed

text \<open>A filter menu never lies: picking one of the values \<open>filterOptions\<close> lists puts a search in
  the URL that, validated and applied, shows exactly as many rows as the option's count says; no
  value is listed twice and the counts add up to the whole list. (An empty value, which only an
  account with neither provider nor auth method has, cannot be picked: an empty parameter reads
  as no filter.)\<close>

theorem filter_option_counts:
  shows "(\<forall>p\<in>set (filterOptions localeCompare accounts d t now). opt_value p \<noteq> [] \<longrightarrow>
      opt_count p = int (length (filterAccounts accounts
        (validateAccountsSearch [(dimension_name d, JStr (opt_value p))]) now))) \<and>
    distinct (map opt_value (filterOptions localeCompare accounts d t now)) \<and>
    sum_list (map opt_count (filterOptions localeCompare accounts d t now)) = int (length accounts)"
proof (intro conjI ballI impI)
  have inv: "options_inv d now (filterOptions localeCompare accounts d t now) accounts"
    by (rule filterOptions_inv)
  then show "distinct (map opt_value (filterOptions localeCompare accounts d t now))"
    by (simp add: options_inv_def)
  show "sum_list (map opt_count (filterOptions localeCompare accounts d t now)) = int (length accounts)"
    using filterOptions_sorted [of localeCompare accounts d t now] by (auto simp: sum_count_foldl)
  fix p assume p: "p \<in> set (filterOptions localeCompare accounts d t now)" "opt_value p \<noteq> []"
  have "opt_value p \<in> (\<lambda>a. dimensionValue a d now) ` set accounts"
    using inv p(1) unfolding options_inv_def by (metis imageI)
  then obtain a where "opt_value p = dimensionValue a d now" by blast
  from validate_picked [OF p(2) this] inv p(1)
  show "opt_count p = int (length (filterAccounts accounts
      (validateAccountsSearch [(dimension_name d, JStr (opt_value p))]) now))"
    by (simp add: options_inv_def)
qed

lemma sample_options:
  "filterOptions textCompare [sample_account] DRegion (\<lambda>k ps. k) 0 =
    [\<lparr>opt_value = ''us-east-1'', opt_label = ''us-east-1'', opt_count = 1\<rparr>]"
  by (simp add: filterOptions_def count_option_def regionKey_def sample_account_def Let_def)

theorem filter_option_counts_witness:
  "1 = int (length (filterAccounts [sample_account]
      (validateAccountsSearch [(''region'', JStr ''us-east-1'')]) 0))"
  using filter_option_counts [of textCompare "[sample_account]" DRegion "\<lambda>k ps. k" 0]
  unfolding sample_options by simp

text \<open>Sorting the accounts table is a stable sort by the column's key, in either direction:
  the rows are rearranged, rows without a value come last, the others follow the key, and rows
  with the same key keep the server's order.\<close>

theorem sort_accounts_stable:
  assumes "comparator localeCompare (\<lambda>_. True)"
  shows "mset (sortAccounts localeCompare accounts (Some s) desc now) = mset accounts \<and>
    sorted_wrt (\<lambda>a b. account_sort_key s now a = KNull \<longrightarrow> account_sort_key s now b = KNull)
      (sortAccounts localeCompare accounts (Some s) desc now) \<and>
    sorted_wrt (\<lambda>a b. account_sort_key s now a = KNull \<or> account_sort_key s now b = KNull \<or>
        (if desc then 0 \<le> key_order localeCompare (account_sort_key s now a) (account_sort_key s now b)
         else key_order localeCompare (account_sort_key s now a) (account_sort_key s now b) \<le> 0))
      (sortAccounts localeCompare accounts (Some s) desc now) \<and>
    filter (\<lambda>a. account_compare localeCompare desc s now z a = 0)
      (sortAccounts localeCompare accounts (Some s) desc now) =
    filter (\<lambda>a. account_compare localeCompare desc s now z a = 0) accounts"
proof -
  let ?c = "account_compare localeCompare desc s now"
  let ?r = "sortAccounts localeCompare accounts (Some s) desc now"
  note c = comparator_account [OF assms, of desc s now]
  have "sorted_wrt (\<lambda>a b. ?c a b \<le> 0) ?r"
    unfolding sortAccounts_eq by (rule comparator.sorted_sort_cmp [OF c]) (simp add: list_all_iff)
  then have "sorted_wrt (\<lambda>a b. account_sort_key s now a = KNull \<longrightarrow> account_sort_key s now b = KNull) ?r"
    and "sorted_wrt (\<lambda>a b. account_sort_key s now a = KNull \<or> account_sort_key s now b = KNull \<or>
        (if desc then 0 \<le> key_order localeCompare (account_sort_key s now a) (account_sort_key s now b)
         else key_order localeCompare (account_sort_key s now a) (account_sort_key s now b) \<le> 0)) ?r"
    by (auto elim!: sorted_wrt_mono_rel [rotated] simp: account_compare_def key_compare_def split: if_splits)
  moreover have "filter (\<lambda>a. ?c z a = 0) ?r = filter (\<lambda>a. ?c z a = 0) accounts"
    unfolding sortAccounts_eq by (rule comparator.sort_cmp_stable [OF c]) (simp_all add: list_all_iff)
  ultimately show ?thesis by (simp add: sortAccounts_eq)
qed

theorem sort_accounts_stable_witness:
  "sorted_wrt (\<lambda>a b. account_sort_key SortExpiry 0 a = KNull \<longrightarrow> account_sort_key SortExpiry 0 b = KNull)
     (sortAccounts textCompare [sample_account, sample_account\<lparr>acc_expiresAt := 5\<rparr>] (Some SortExpiry) True 0)"
  using sort_accounts_stable [OF text_order.comparator_axioms,
      of "[sample_account, sample_account\<lparr>acc_expiresAt := 5\<rparr>]" SortExpiry True 0] by blast

text \<open>Time left on a token: expired exactly when the expiry is set and not in the future, and
  otherwise the amount shown is in range for its unit and within one unit below the true time.\<close>

theorem token_expiry_exact:
  shows "case tokenExpiry expiresAt nowSec of
      TokenNone \<Rightarrow> expiresAt = 0
    | TokenExpired \<Rightarrow> expiresAt \<noteq> 0 \<and> expiresAt \<le> nowSec
    | TokenMinutes m \<Rightarrow> 0 \<le> m \<and> m < 60 \<and> 60 * m \<le> expiresAt - nowSec \<and> expiresAt - nowSec < 60 * m + 60
    | TokenHours h \<Rightarrow> 1 \<le> h \<and> h < 24 \<and> 3600 * h \<le> expiresAt - nowSec \<and> expiresAt - nowSec < 3600 * h + 3600
    | TokenDays d \<Rightarrow> 1 \<le> d \<and> 86400 * d \<le> expiresAt - nowSec \<and> expiresAt - nowSec < 86400 * d + 86400"
  by (auto simp: tokenExpiry_def Let_def)

text \<open>The model list of an account: a rearrangement with \<open>auto\<close> before every other model and
  the rest by credit multiplier, cheapest first.\<close>

theorem sort_models_auto_first:
  shows "mset (sortModels models) = mset models \<and>
    sorted_wrt (\<lambda>a b. mi_modelId a = ''auto'' \<or> (mi_modelId b \<noteq> ''auto'' \<and> modelRate a \<le> modelRate b))
      (sortModels models)"
proof -
  let ?c = "\<lambda>a b. if mi_modelId a = ''auto'' \<and> mi_modelId b = ''auto'' then 0 else model_compare a b"
  have eq: "sortModels models = sort_cmp ?c models"
    unfolding sortModels_def
    by (rule sort_cmp_agree) (auto simp: sorted_wrt_iff_nth_less model_compare_def)
  have "sorted_wrt (\<lambda>a b. ?c a b \<le> 0) (sort_cmp ?c models)"
    by (rule comparator.sorted_sort_cmp [OF comparator_models]) (simp add: list_all_iff)
  then have "sorted_wrt (\<lambda>a b. mi_modelId a = ''auto'' \<or>
      (mi_modelId b \<noteq> ''auto'' \<and> modelRate a \<le> modelRate b)) (sort_cmp ?c models)"
    by (rule sorted_wrt_mono_rel [rotated]) (auto simp: model_compare_def split: if_splits)
  then show ?thesis by (simp add: eq)
qed

end
