(* ===== verification/Data_Table.thy ===== *)
theory Data_Table
  imports Js_Values
begin

text \<open>
  The table the list pages share and its pager (src/ui/src/components/shared/data-table.tsx,
  data-table-pagination.tsx and the sort select of table-toolbar.tsx): which rows are selected, what the
  select-all box shows and does, what a click on a header asks for, when a click counts as a click on the
  row, which parts are rendered, and the numbers of the pager. A JavaScript set is the list of its members
  in the order they were added.
\<close>

subsection \<open>JavaScript sets\<close>

definition set_insert :: "'a \<Rightarrow> 'a list \<Rightarrow> 'a list" where
  "set_insert x s = (if x \<in> set s then s else s @ [x])"

definition set_remove :: "'a \<Rightarrow> 'a list \<Rightarrow> 'a list" where
  "set_remove x s = filter (\<lambda>y. y \<noteq> x) s"

text \<open>\<open>new Set(xs)\<close>: the first of equal members stays where it is.\<close>

definition set_of_list :: "'a list \<Rightarrow> 'a list" where
  "set_of_list xs = foldl (\<lambda>s x. set_insert x s) [] xs"

subsection \<open>Selection\<close>

definition selected_count :: "string list \<Rightarrow> string list \<Rightarrow> nat" where
  "selected_count rowIds selected = length (filter (\<lambda>i. i \<in> set selected) rowIds)"

definition all_selected :: "string list \<Rightarrow> string list \<Rightarrow> bool" where
  "all_selected rowIds selected \<longleftrightarrow> 0 < length rowIds \<and> selected_count rowIds selected = length rowIds"

definition some_selected :: "string list \<Rightarrow> string list \<Rightarrow> bool" where
  "some_selected rowIds selected \<longleftrightarrow>
     0 < selected_count rowIds selected \<and> \<not> all_selected rowIds selected"

definition toggleAll :: "string list \<Rightarrow> string list \<Rightarrow> string list" where
  "toggleAll rowIds selected =
     (if all_selected rowIds selected then [] else foldl (\<lambda>s i. set_insert i s) selected rowIds)"

definition toggleOne :: "string \<Rightarrow> string list \<Rightarrow> string list" where
  "toggleOne i selected = (if i \<in> set selected then set_remove i selected else set_insert i selected)"

subsection \<open>Sorting\<close>

record data_table_sort =
  dts_id :: string
  dts_desc :: bool

text \<open>A click on a header of \<open>column\<close>: the same column turns round, another starts in its own direction.\<close>

definition sortBy :: "(string \<Rightarrow> bool) option \<Rightarrow> data_table_sort option \<Rightarrow> string \<Rightarrow> data_table_sort" where
  "sortBy defaultSortDesc srt column =
     (case srt of
        Some s \<Rightarrow>
          (if dts_id s = column then \<lparr>dts_id = column, dts_desc = \<not> dts_desc s\<rparr>
           else \<lparr>dts_id = column, dts_desc = (case defaultSortDesc of None \<Rightarrow> False | Some f \<Rightarrow> f column)\<rparr>)
      | None \<Rightarrow> \<lparr>dts_id = column, dts_desc = (case defaultSortDesc of None \<Rightarrow> False | Some f \<Rightarrow> f column)\<rparr>)"

datatype aria_sort = AriaNone | AriaAscending | AriaDescending

definition aria_sort_of :: "bool \<Rightarrow> data_table_sort option \<Rightarrow> string \<Rightarrow> aria_sort option" where
  "aria_sort_of sortable srt column =
     (if \<not> sortable then None
      else case srt of
          Some s \<Rightarrow> Some (if dts_id s = column then if dts_desc s then AriaDescending else AriaAscending else AriaNone)
        | None \<Rightarrow> Some AriaNone)"

text \<open>The sort select of the toolbar: a column from its menu (or the server order), and a direction.\<close>

definition sort_select ::
  "(string \<Rightarrow> bool) \<Rightarrow> string option \<Rightarrow> bool \<Rightarrow> string \<Rightarrow> string option \<times> bool" where
  "sort_select defaultSortDesc srt desc picked =
     (if picked = ''default'' then (None, False)
      else (Some picked, if Some picked = srt then desc else defaultSortDesc picked))"

definition direction_select :: "string option \<Rightarrow> string \<Rightarrow> string option \<times> bool" where
  "direction_select srt picked = (srt, picked = ''desc'')"

subsection \<open>Clicks on a row\<close>

text \<open>
  An event of a row: whether it started on the row itself, whether its target lies in the row (a menu in a
  portal does not), and whether the nearest interactive element around the target is inside the row.
\<close>

record row_event =
  re_has_target :: bool
  re_on_row :: bool
  re_inside :: bool
  re_interactive :: bool

definition fromInteractiveChild :: "row_event \<Rightarrow> bool" where
  "fromInteractiveChild e =
     (if \<not> re_has_target e \<or> re_on_row e then False
      else if \<not> re_inside e then True
      else re_interactive e)"

definition click_opens :: "row_event \<Rightarrow> bool" where
  "click_opens e \<longleftrightarrow> \<not> fromInteractiveChild e"

definition key_opens :: "string \<Rightarrow> row_event \<Rightarrow> bool" where
  "key_opens key e \<longleftrightarrow> (if key \<noteq> ''Enter'' \<and> key \<noteq> '' '' then False else re_on_row e)"

subsection \<open>What is rendered\<close>

definition DEFAULT_SKELETON_ROWS :: int where "DEFAULT_SKELETON_ROWS = 5"
definition MAX_SKELETON_ROWS :: int where "MAX_SKELETON_ROWS = 10"
definition SKELETON_CARDS :: int where "SKELETON_CARDS = 3"

datatype card_layout = CardStack | CardGrid | CardDivided

text \<open>
  The parts on screen: only the empty state; or the table with its header, with \<open>n\<close> placeholder rows, the
  data rows or the empty state under the header; and the cards beside it.
\<close>

datatype table_body = BodySkeleton int | BodyRows "string list" | BodyEmpty

datatype table_view = EmptyOnly | TableView table_body "table_body option"

definition data_table_view ::
  "bool \<Rightarrow> bool \<Rightarrow> int option \<Rightarrow> card_layout \<Rightarrow> bool \<Rightarrow> string list \<Rightarrow> table_view" where
  "data_table_view loading filtered pageSize cardLayout cards rowIds =
     (let showEmpty = (\<not> loading \<and> rowIds = []);
          showSkeleton = (loading \<and> rowIds = []);
          skeletonRows = min (case pageSize of None \<Rightarrow> DEFAULT_SKELETON_ROWS | Some n \<Rightarrow> n) MAX_SKELETON_ROWS
      in if showEmpty \<and> \<not> filtered then EmptyOnly
         else TableView
           (if showSkeleton then BodySkeleton skeletonRows else if showEmpty then BodyEmpty else BodyRows rowIds)
           (if cards \<and> \<not> showEmpty
            then Some (if showSkeleton then BodySkeleton (if cardLayout = CardDivided then skeletonRows else SKELETON_CARDS)
                       else BodyRows rowIds)
            else None))"

subsection \<open>The pager\<close>

definition pager_page_count :: "int \<Rightarrow> int \<Rightarrow> int" where
  "pager_page_count total_rows page_size = max 1 (js_ceil_div total_rows (max 1 page_size))"

definition pager_start :: "int \<Rightarrow> int \<Rightarrow> int \<Rightarrow> int" where
  "pager_start page page_size total_rows = (if total_rows = 0 then 0 else (page - 1) * page_size + 1)"

definition pager_end :: "int \<Rightarrow> int \<Rightarrow> int \<Rightarrow> int" where
  "pager_end page page_size total_rows = min total_rows (page * page_size)"

definition pager_pages :: "int \<Rightarrow> int \<Rightarrow> int list" where
  "pager_pages page pageCount =
     sort_cmp (\<lambda>a b. a - b)
       (filter (\<lambda>n. 1 \<le> n \<and> n \<le> pageCount) (set_of_list [1, page - 1, page, page + 1, pageCount]))"

text \<open>The list as it is read: an ellipsis before a number that does not follow the one before it.\<close>

datatype pager_item = PagerNumber int | PagerEllipsis

fun pager_items_from :: "int option \<Rightarrow> int list \<Rightarrow> pager_item list" where
  "pager_items_from before [] = []"
| "pager_items_from before (n # ns) =
     (case before of Some m \<Rightarrow> if 1 < n - m then [PagerEllipsis] else [] | None \<Rightarrow> []) @
     PagerNumber n # pager_items_from (Some n) ns"

definition pager_items :: "int \<Rightarrow> int \<Rightarrow> pager_item list" where
  "pager_items page pageCount = pager_items_from None (pager_pages page pageCount)"

text \<open>What the chevrons and a number ask for; a disabled chevron asks for nothing.\<close>

datatype pager_press = PressPrevious | PressNext | PressPage int

definition pager_asks :: "int \<Rightarrow> int \<Rightarrow> pager_press \<Rightarrow> int option" where
  "pager_asks page pageCount press =
     (case press of
        PressPrevious \<Rightarrow> if page \<le> 1 then None else Some (page - 1)
      | PressNext \<Rightarrow> if pageCount \<le> page then None else Some (page + 1)
      | PressPage n \<Rightarrow> if n \<in> set (pager_pages page pageCount) then Some n else None)"

text \<open>\<open>rows.slice((page - 1) * pageSize, page * pageSize)\<close> of a page from 1 on.\<close>

definition slice_page :: "'a list \<Rightarrow> int \<Rightarrow> int \<Rightarrow> 'a list" where
  "slice_page rows page page_size =
     take (nat (page * page_size) - nat ((page - 1) * page_size)) (drop (nat ((page - 1) * page_size)) rows)"

subsection \<open>Lemmas on sets and the selection\<close>

lemma set_insert_set [simp]: "set (set_insert x s) = insert x (set s)"
  by (auto simp: set_insert_def)

lemma distinct_set_insert [simp]: "distinct (set_insert x s) = distinct s"
  by (simp add: set_insert_def)

lemma set_remove_set [simp]: "set (set_remove x s) = set s - {x}"
  by (auto simp: set_remove_def)

lemma distinct_set_remove [simp]: "distinct s \<Longrightarrow> distinct (set_remove x s)"
  by (simp add: set_remove_def)

lemma foldl_set_insert:
  "set (foldl (\<lambda>s i. set_insert i s) s xs) = set s \<union> set xs"
  "distinct (foldl (\<lambda>s i. set_insert i s) s xs) = distinct s"
  by (induction xs arbitrary: s) auto

lemma set_set_of_list [simp]: "set (set_of_list xs) = set xs"
  by (simp add: set_of_list_def foldl_set_insert)

lemma distinct_set_of_list [simp]: "distinct (set_of_list xs)"
  by (simp add: set_of_list_def foldl_set_insert)

lemma selected_count_le: "selected_count rowIds selected \<le> length rowIds"
  by (simp add: selected_count_def)

lemma all_selected_iff: "all_selected rowIds selected \<longleftrightarrow> rowIds \<noteq> [] \<and> set rowIds \<subseteq> set selected"
proof -
  have "length (filter P xs) = length xs \<longleftrightarrow> list_all P xs" for P and xs :: "string list"
    by (metis filter_True length_filter_less less_irrefl list_all_iff)
  then show ?thesis by (auto simp: all_selected_def selected_count_def list_all_iff)
qed

lemma some_selected_iff:
  "some_selected rowIds selected \<longleftrightarrow> set rowIds \<inter> set selected \<noteq> {} \<and> \<not> set rowIds \<subseteq> set selected"
  by (auto simp: some_selected_def all_selected_iff selected_count_def filter_empty_conv)

lemma toggleAll_set:
  "set (toggleAll rowIds selected) = (if all_selected rowIds selected then {} else set selected \<union> set rowIds)"
  by (simp add: toggleAll_def foldl_set_insert)

lemma toggleAll_distinct: "distinct selected \<Longrightarrow> distinct (toggleAll rowIds selected)"
  by (simp add: toggleAll_def foldl_set_insert)

lemma toggleOne_set: "set (toggleOne i selected) = (if i \<in> set selected then set selected - {i} else insert i (set selected))"
  by (simp add: toggleOne_def)

lemma toggleOne_distinct: "distinct selected \<Longrightarrow> distinct (toggleOne i selected)"
  by (simp add: toggleOne_def)

text \<open>The select-all box: it selects the rows on screen and, once they are all selected, clears everything.\<close>

lemma toggleAll_twice:
  assumes "rowIds \<noteq> []" "\<not> all_selected rowIds selected"
  shows "all_selected rowIds (toggleAll rowIds selected)" "toggleAll rowIds (toggleAll rowIds selected) = []"
proof -
  show all: "all_selected rowIds (toggleAll rowIds selected)"
    using assms by (auto simp: all_selected_iff [of rowIds "toggleAll rowIds selected"] toggleAll_set)
  show "toggleAll rowIds (toggleAll rowIds selected) = []"
    using all by (simp add: toggleAll_def [of rowIds "toggleAll rowIds selected"])
qed

lemma toggleOne_twice: "set (toggleOne i (toggleOne i selected)) = set selected"
  by (auto simp: toggleOne_set)

subsection \<open>Lemmas on the pager\<close>

interpretation page_order: comparator "\<lambda>a b :: int. a - b" "\<lambda>n. True"
  by unfold_locales auto

lemma set_pager_pages: "set (pager_pages page pageCount) = {n \<in> {1, page - 1, page, page + 1, pageCount}. 1 \<le> n \<and> n \<le> pageCount}"
  by (auto simp: pager_pages_def)

lemma pager_pages_ascending: "sorted_wrt (<) (pager_pages page pageCount)"
proof -
  let ?ns = "pager_pages page pageCount"
  have "sorted_wrt (\<lambda>a b. a - b \<le> 0) ?ns"
    unfolding pager_pages_def by (rule page_order.sorted_sort_cmp) (simp add: list_all_iff)
  then have "sorted ?ns" by (simp add: sorted_wrt_iff_nth_less sorted_iff_nth_mono_less)
  moreover have "distinct ?ns"
    by (simp add: pager_pages_def distinct_map_sort_cmp [of id, simplified])
  ultimately show ?thesis by (simp add: strict_sorted_iff)
qed

text \<open>What a reader makes of the list: an ellipsis stands for the numbers between its neighbours.\<close>

fun spelled_out :: "int \<Rightarrow> pager_item list \<Rightarrow> int list" where
  "spelled_out before [] = []"
| "spelled_out before (PagerNumber n # items) = n # spelled_out n items"
| "spelled_out before (PagerEllipsis # PagerNumber n # items) = [before + 1..n - 1] @ n # spelled_out n items"
| "spelled_out before (PagerEllipsis # items) = spelled_out before items"

lemma spelled_out_from:
  "sorted_wrt (<) (m # ns) \<Longrightarrow>
    spelled_out m (pager_items_from (Some m) ns) = [m + 1..last (m # ns)]"
proof (induction ns arbitrary: m)
  case (Cons n ns)
  then have IH: "spelled_out n (pager_items_from (Some n) ns) = [n + 1..last (n # ns)]" by simp
  have "m < n" "n \<le> last (n # ns)"
    using Cons.prems by (auto simp: less_imp_le dest: bspec [where x = "last ns"])
  then have "[m + 1..last (n # ns)] = [m + 1..n - 1] @ n # [n + 1..last (n # ns)]"
    using upto_split3 [of "m + 1" n "last (n # ns)"] by simp
  moreover have "[m + 1..n - 1] = []" if "\<not> 1 < n - m" using that by simp
  moreover have "last (m # n # ns) = last (n # ns)" by simp
  ultimately show ?case using IH by (cases "1 < n - m") (auto simp del: last.simps)
qed simp

lemma sorted_le_last: "sorted xs \<Longrightarrow> x \<in> set xs \<Longrightarrow> (x :: int) \<le> last xs"
  by (induction xs) auto

lemma pager_pages_ends:
  assumes "1 \<le> page" "page \<le> pageCount"
  shows "pager_pages page pageCount \<noteq> []" "hd (pager_pages page pageCount) = 1"
    "last (pager_pages page pageCount) = pageCount"
proof -
  let ?ns = "pager_pages page pageCount"
  have one: "1 \<in> set ?ns" and top: "pageCount \<in> set ?ns" using assms by (auto simp: set_pager_pages)
  have bounds: "1 \<le> n \<and> n \<le> pageCount" if "n \<in> set ?ns" for n using that by (simp add: set_pager_pages)
  show ne: "?ns \<noteq> []" using one by auto
  have asc: "sorted ?ns" using pager_pages_ascending by (simp add: strict_sorted_iff)
  have "hd ?ns \<le> 1" using asc one ne by (cases ?ns) auto
  with bounds [of "hd ?ns"] ne show "hd ?ns = 1" by simp
  have "pageCount \<le> last ?ns" by (rule sorted_le_last [OF asc top])
  with bounds [of "last ?ns"] ne show "last ?ns = pageCount" by simp
qed

text \<open>The pager shows every page: for any current page in range the numbers and ellipses, read with each
  ellipsis standing for the numbers between its neighbours, are exactly 1 to the last page in order; the
  first, the current and the last page and the current page's neighbours are numbers one can press, and
  there are at most five of them.\<close>

theorem pager_spells_every_page:
  assumes "1 \<le> page" "page \<le> pageCount"
  shows "spelled_out 0 (pager_items page pageCount) = [1..pageCount] \<and>
    sorted_wrt (<) (pager_pages page pageCount) \<and>
    {1, page, pageCount} \<subseteq> set (pager_pages page pageCount) \<and>
    {page - 1, page + 1} \<inter> {1..pageCount} \<subseteq> set (pager_pages page pageCount) \<and>
    length (pager_pages page pageCount) \<le> 5"
proof -
  let ?ns = "pager_pages page pageCount"
  note ends = pager_pages_ends [OF assms]
  obtain ns where ns: "?ns = 1 # ns" using ends by (cases ?ns) auto
  have "spelled_out 1 (pager_items_from (Some 1) ns) = [1 + 1..pageCount]"
    using spelled_out_from [of 1 ns] pager_pages_ascending [of page pageCount] ends(3) by (simp add: ns)
  then have "spelled_out 0 (pager_items page pageCount) = [1..pageCount]"
    using assms by (simp add: pager_items_def ns upto_rec1 [of 1 pageCount])
  moreover have "length ?ns \<le> 5"
  proof -
    have "card (set ?ns) \<le> card (set [1, page - 1, page, page + 1, pageCount])"
      by (intro card_mono) (auto simp: set_pager_pages)
    also have "\<dots> \<le> 5" using card_length [of "[1, page - 1, page, page + 1, pageCount]"] by simp
    finally show ?thesis using pager_pages_ascending [of page pageCount] by (simp add: strict_sorted_iff distinct_card)
  qed
  ultimately show ?thesis using assms pager_pages_ascending by (auto simp: set_pager_pages)
qed

theorem pager_spells_every_page_witness:
  "spelled_out 0 (pager_items 6 12) = [1..12] \<and> length (pager_pages 6 12) \<le> 5"
  using pager_spells_every_page [of 6 12] by simp

text \<open>The pages of a list: one after the other they are the list.\<close>

lemma slice_page_take:
  assumes "0 < page_size" "1 \<le> page"
  shows "slice_page rows page page_size = take (nat page_size) (drop (nat (page - 1) * nat page_size) rows)"
proof -
  have "nat ((page - 1) * page_size) = nat (page - 1) * nat page_size" using assms by (simp add: nat_mult_distrib)
  moreover have "nat (page * page_size) = nat (page - 1) * nat page_size + nat page_size"
    using assms by (simp add: nat_mult_distrib [symmetric] nat_add_distrib [symmetric] algebra_simps)
  ultimately show ?thesis by (simp add: slice_page_def)
qed

lemma concat_pages:
  assumes "0 < page_size"
  shows "concat (map (\<lambda>p. slice_page rows p page_size) [1..int k]) = take (k * nat page_size) rows"
proof (induction k)
  case (Suc k)
  have "[1..int (Suc k)] = [1..int k] @ [int k + 1]" by (simp add: upto_rec2)
  then have "concat (map (\<lambda>p. slice_page rows p page_size) [1..int (Suc k)]) =
      take (k * nat page_size) rows @ slice_page rows (int k + 1) page_size" using Suc by simp
  also have "slice_page rows (int k + 1) page_size = take (nat page_size) (drop (k * nat page_size) rows)"
    using slice_page_take [OF assms, of "int k + 1" rows] by simp
  finally show ?case by (simp add: take_add [symmetric] add.commute)
qed simp

lemma pager_page_count_enough:
  assumes "0 < page_size"
  shows "1 \<le> pager_page_count (int n) page_size" "n \<le> nat (pager_page_count (int n) page_size) * nat page_size"
proof -
  show one: "1 \<le> pager_page_count (int n) page_size" by (simp add: pager_page_count_def)
  have "int n \<le> js_ceil_div (int n) page_size * page_size"
    using js_ceil_div_bounds [of page_size "int n"] assms by (auto simp: mult.commute)
  also have "\<dots> \<le> pager_page_count (int n) page_size * page_size"
    using assms by (intro mult_right_mono) (auto simp: pager_page_count_def max_def)
  finally have "int n \<le> int (nat (pager_page_count (int n) page_size) * nat page_size)" using one assms by simp
  then show "n \<le> nat (pager_page_count (int n) page_size) * nat page_size" by linarith
qed

lemma slices_partition:
  assumes "0 < page_size"
  shows "concat (map (\<lambda>p. slice_page rows p page_size) [1..pager_page_count (int (length rows)) page_size]) = rows"
proof -
  let ?k = "pager_page_count (int (length rows)) page_size"
  have "concat (map (\<lambda>p. slice_page rows p page_size) [1..int (nat ?k)]) = take (nat ?k * nat page_size) rows"
    by (rule concat_pages [OF assms])
  then show ?thesis using pager_page_count_enough [OF assms, of "length rows"] by simp
qed

text \<open>The count above the pager is the rows the page shows.\<close>

lemma pager_info_exact:
  assumes "0 < page_size" "1 \<le> page" "page \<le> pager_page_count (int (length rows)) page_size" "rows \<noteq> []"
  shows "int (length (slice_page rows page page_size)) =
    pager_end page page_size (int (length rows)) - pager_start page page_size (int (length rows)) + 1"
    and "1 \<le> length (slice_page rows page page_size)"
proof -
  let ?n = "int (length rows)"
  have pos: "0 < ?n" using assms(4) by simp
  then have "0 < js_ceil_div ?n page_size"
    using js_ceil_div_bounds [of page_size ?n] assms(1) by (smt (verit) mult_nonneg_nonpos mult_nonneg_nonneg mult.commute)
  then have "pager_page_count ?n page_size = js_ceil_div ?n page_size" using assms(1) by (simp add: pager_page_count_def)
  then have "(js_ceil_div ?n page_size - 1) * page_size < ?n" and le: "page \<le> js_ceil_div ?n page_size"
    using js_ceil_div_bounds [of page_size ?n] assms by (auto simp: algebra_simps)
  moreover have "(page - 1) * page_size \<le> (js_ceil_div ?n page_size - 1) * page_size"
    using le assms(1) by (intro mult_right_mono) auto
  ultimately have low: "(page - 1) * page_size < ?n" by linarith
  have len: "int (length (slice_page rows page page_size)) = min page_size (?n - (page - 1) * page_size)"
  proof -
    define k where "k = nat ((page - 1) * page_size)"
    have k: "int k = (page - 1) * page_size" using assms by (simp add: k_def)
    have "slice_page rows page page_size = take (nat page_size) (drop k rows)"
      using assms by (simp add: slice_page_take k_def nat_mult_distrib)
    then have "length (slice_page rows page page_size) = min (nat page_size) (length rows - k)" by simp
    moreover have "int (length rows - k) = ?n - (page - 1) * page_size" using low k by linarith
    ultimately show ?thesis using assms(1) by (simp add: of_nat_min)
  qed
  also have "\<dots> = min ?n (page * page_size) - (page - 1) * page_size" by (simp add: min_def algebra_simps)
  finally show "int (length (slice_page rows page page_size)) =
    pager_end page page_size ?n - pager_start page page_size ?n + 1"
    using pos by (simp add: pager_end_def pager_start_def)
  show "1 \<le> length (slice_page rows page page_size)" using len low assms(1) by linarith
qed

end
