(* ===== verification/Accounts_Page.thy ===== *)
theory Accounts_Page
  imports Data_Table Account_Model
begin

text \<open>
  The accounts page as it is drawn (src/ui/src/features/accounts/accounts-page.tsx, accounts-table.tsx and
  accounts-toolbar.tsx): the filtered, sorted and paged list that the URL and the fetched accounts
  determine, the changes of the URL that the toolbar, the headers and the pager ask for, the tabs and
  selects of the toolbar with their counts, and the state machines of its dialogs.
\<close>

subsection \<open>The view\<close>

definition ACCOUNT_PAGE_SIZES :: "int list" where "ACCOUNT_PAGE_SIZES = [25, 50, 100]"
definition ACCOUNT_DEFAULT_PAGE_SIZE :: int where "ACCOUNT_DEFAULT_PAGE_SIZE = 25"

definition account_sort_name :: "account_sort \<Rightarrow> string" where
  "account_sort_name x =
     (case x of SortAccount \<Rightarrow> ''account'' | SortStatus \<Rightarrow> ''status'' | SortUsage \<Rightarrow> ''usage''
      | SortRequests \<Rightarrow> ''requests'' | SortLastUsed \<Rightarrow> ''lastUsed'' | SortExpiry \<Rightarrow> ''expiry'')"

record accounts_view =
  vw_filtered :: "account list"
  vw_sorted :: "account list"
  vw_pageSize :: int
  vw_pageCount :: int
  vw_page :: int
  vw_rows :: "account list"

definition view_desc :: "accounts_search \<Rightarrow> bool" where
  "view_desc s =
     (case as_order s of
        Some order \<Rightarrow> order = Desc
      | None \<Rightarrow> (case as_sort s of Some srt \<Rightarrow> accountsDefaultSortDesc (account_sort_name srt) | None \<Rightarrow> False))"

definition accounts_view_of ::
  "(string \<Rightarrow> string \<Rightarrow> int) \<Rightarrow> accounts_search \<Rightarrow> account list \<Rightarrow> int \<Rightarrow> accounts_view" where
  "accounts_view_of localeCompare s accounts nowSec =
     (let filtered = filterAccounts accounts s nowSec;
          sorted = sortAccounts localeCompare filtered (as_sort s) (view_desc s) nowSec;
          pageSize = (case as_pageSize s of None \<Rightarrow> ACCOUNT_DEFAULT_PAGE_SIZE | Some n \<Rightarrow> n);
          pageCount = max 1 (js_ceil_div (int (length sorted)) pageSize);
          page = min (case as_page s of None \<Rightarrow> 1 | Some p \<Rightarrow> p) pageCount
      in \<lparr>vw_filtered = filtered, vw_sorted = sorted, vw_pageSize = pageSize, vw_pageCount = pageCount,
          vw_page = page, vw_rows = slice_page sorted page pageSize\<rparr>)"

text \<open>\<open>useClockAt\<close>: the clock of a fetch is read once, when its tick is first seen.\<close>

definition clock_at :: "int \<Rightarrow> int \<Rightarrow> int \<times> int \<Rightarrow> int \<times> int" where
  "clock_at nowMs tick clock = (if fst clock = tick then clock else (tick, nowMs div 1000))"

subsection \<open>Changes of the URL\<close>

text \<open>A patch of the filters: what it sets, \<open>None\<close> for a key it does not name.\<close>

record filter_patch =
  fp_q :: "string option option"
  fp_status :: "account_status_filter option option"
  fp_plan :: "string option option"
  fp_auth :: "string option option"
  fp_region :: "string option option"
  fp_enabled :: "string option option"

definition no_patch :: filter_patch where
  "no_patch = \<lparr>fp_q = None, fp_status = None, fp_plan = None, fp_auth = None, fp_region = None, fp_enabled = None\<rparr>"

definition patched :: "'a option \<Rightarrow> 'a \<Rightarrow> 'a" where
  "patched change old = (case change of None \<Rightarrow> old | Some new \<Rightarrow> new)"

definition setFilters :: "filter_patch \<Rightarrow> accounts_search \<Rightarrow> accounts_search" where
  "setFilters p s =
     s\<lparr>as_q := patched (fp_q p) (as_q s), as_status := patched (fp_status p) (as_status s),
       as_plan := patched (fp_plan p) (as_plan s), as_auth := patched (fp_auth p) (as_auth s),
       as_region := patched (fp_region p) (as_region s), as_enabled := patched (fp_enabled p) (as_enabled s),
       as_page := None\<rparr>"

definition clearFilters :: "accounts_search \<Rightarrow> accounts_search" where
  "clearFilters = setFilters
     \<lparr>fp_q = Some None, fp_status = Some None, fp_plan = Some None, fp_auth = Some None,
      fp_region = Some None, fp_enabled = Some None\<rparr>"

definition setSort :: "account_sort option \<Rightarrow> bool \<Rightarrow> accounts_search \<Rightarrow> accounts_search" where
  "setSort srt desc s =
     s\<lparr>as_sort := srt,
       as_order := (if srt \<noteq> None then Some (if desc then Desc else Asc) else None),
       as_page := None\<rparr>"

definition setAddOpen :: "bool \<Rightarrow> accounts_search \<Rightarrow> accounts_search" where
  "setAddOpen opened s = s\<lparr>as_add := opened\<rparr>"

definition setPage :: "int \<Rightarrow> accounts_search \<Rightarrow> accounts_search" where
  "setPage n s = s\<lparr>as_page := (if 1 < n then Some n else None)\<rparr>"

definition onPageSizeChange :: "int \<Rightarrow> accounts_search \<Rightarrow> accounts_search" where
  "onPageSizeChange n s =
     s\<lparr>as_pageSize := (if n = ACCOUNT_DEFAULT_PAGE_SIZE then None else Some n), as_page := None\<rparr>"

text \<open>The table calls the page back with a column id; only sortable columns change the URL.\<close>

definition header_clicked :: "string \<Rightarrow> accounts_search \<Rightarrow> accounts_search" where
  "header_clicked column s =
     (let srt = map_option (\<lambda>x. \<lparr>dts_id = account_sort_name x, dts_desc = view_desc s\<rparr>) (as_sort s);
          next_sort = sortBy (Some accountsDefaultSortDesc) srt column
      in case map_of ACCOUNT_SORTS (dts_id next_sort) of
           Some x \<Rightarrow> setSort (Some x) (dts_desc next_sort) s
         | None \<Rightarrow> s)"

definition search_is_set :: "accounts_search \<Rightarrow> bool" where
  "search_is_set s = (case as_q s of Some (c # cs) \<Rightarrow> True | _ \<Rightarrow> False)"

definition account_filters_set :: "accounts_search \<Rightarrow> bool" where
  "account_filters_set s \<longleftrightarrow> search_is_set s \<or> list_ex (filter_is_set s) FILTER_DIMENSIONS"

subsection \<open>The toolbar\<close>

datatype account_tab = TabAll | TabGroup status_group

definition current_tab :: "accounts_search \<Rightarrow> account_tab" where
  "current_tab s = (case statusFilterGroup (as_status s) of None \<Rightarrow> TabAll | Some g \<Rightarrow> TabGroup g)"

definition group_count :: "filter_option list \<Rightarrow> status_group \<Rightarrow> int" where
  "group_count options g =
     foldl (\<lambda>n opt. if map_option statusGroup (map_of ACCOUNT_STATUSES (opt_value opt)) = Some g
                    then n + opt_count opt else n) 0 options"

definition status_tabs :: "filter_option list \<Rightarrow> account list \<Rightarrow> (account_tab \<times> int) list" where
  "status_tabs options accounts =
     (TabAll, int (length accounts)) # map (\<lambda>g. (TabGroup g, group_count options g)) STATUS_GROUPS"

definition issue_options :: "filter_option list \<Rightarrow> filter_option list" where
  "issue_options options =
     filter (\<lambda>opt. map_option statusGroup (map_of ACCOUNT_STATUSES (opt_value opt)) = Some GroupAttention) options"

definition issue_of :: "accounts_search \<Rightarrow> account_status_filter option" where
  "issue_of s = (if current_tab s = TabGroup GroupAttention \<and> as_status s \<noteq> Some Attention then as_status s else None)"

definition show_issue :: "filter_option list \<Rightarrow> accounts_search \<Rightarrow> bool" where
  "show_issue options s \<longleftrightarrow>
     current_tab s = TabGroup GroupAttention \<and> (1 < length (issue_options options) \<or> issue_of s \<noteq> None)"

definition SELECT_DIMENSIONS :: "filter_dimension list" where
  "SELECT_DIMENSIONS = [DPlan, DAuth, DRegion, DEnabled]"

definition select_dimensions :: "(filter_dimension \<Rightarrow> filter_option list) \<Rightarrow> accounts_search \<Rightarrow> filter_dimension list" where
  "select_dimensions options s =
     filter (\<lambda>d. 1 < length (options d) \<or> filter_is_set s d) SELECT_DIMENSIONS"

definition refined :: "accounts_search \<Rightarrow> bool" where
  "refined s \<longleftrightarrow> search_is_set s \<or> list_ex (filter_is_set s) SELECT_DIMENSIONS \<or> issue_of s \<noteq> None"

definition show_tabs :: "bool \<Rightarrow> account list \<Rightarrow> accounts_search \<Rightarrow> bool" where
  "show_tabs loading accounts s \<longleftrightarrow> loading \<or> 0 < length accounts \<or> as_status s \<noteq> None"

definition show_sort :: "account list \<Rightarrow> accounts_search \<Rightarrow> bool" where
  "show_sort accounts s \<longleftrightarrow> 1 < length accounts \<or> as_sort s \<noteq> None"

text \<open>The filters a tab, the issue select and a filter select ask for.\<close>

definition group_filter :: "status_group \<Rightarrow> account_status_filter" where
  "group_filter g = (case g of GroupActive \<Rightarrow> Only Active | GroupAttention \<Rightarrow> Attention | GroupDisabled \<Rightarrow> Only Disabled)"

definition tab_picked :: "account_tab \<Rightarrow> filter_patch" where
  "tab_picked tab = no_patch\<lparr>fp_status := Some (case tab of TabAll \<Rightarrow> None | TabGroup g \<Rightarrow> Some (group_filter g))\<rparr>"

definition issue_picked :: "account_status option \<Rightarrow> filter_patch" where
  "issue_picked v = no_patch\<lparr>fp_status := Some (Some (case v of None \<Rightarrow> Attention | Some x \<Rightarrow> Only x))\<rparr>"

definition select_picked :: "filter_dimension \<Rightarrow> string option \<Rightarrow> filter_patch" where
  "select_picked d v =
     (case d of
        DPlan \<Rightarrow> no_patch\<lparr>fp_plan := Some v\<rparr>
      | DAuth \<Rightarrow> no_patch\<lparr>fp_auth := Some v\<rparr>
      | DRegion \<Rightarrow> no_patch\<lparr>fp_region := Some v\<rparr>
      | DEnabled \<Rightarrow> no_patch\<lparr>fp_enabled := Some v\<rparr>
      | DStatus \<Rightarrow> no_patch)"

definition search_typed :: "string \<Rightarrow> filter_patch" where
  "search_typed text = no_patch\<lparr>fp_q := Some (if text = [] then None else Some text)\<rparr>"

subsection \<open>Dialogs that keep their target\<close>

record dialog_target =
  dt_id :: string
  dt_open :: bool
  dt_session :: nat

definition open_target :: "string \<Rightarrow> dialog_target option \<Rightarrow> dialog_target option" where
  "open_target i current =
     Some \<lparr>dt_id = i, dt_open = True, dt_session = (case current of None \<Rightarrow> 0 | Some c \<Rightarrow> dt_session c) + 1\<rparr>"

definition close_target :: "dialog_target option \<Rightarrow> dialog_target option" where
  "close_target current = map_option (\<lambda>c. c\<lparr>dt_open := False\<rparr>) current"

subsection \<open>The URL stays legal\<close>

definition page_search_legal :: "accounts_search \<Rightarrow> bool" where
  "page_search_legal s \<longleftrightarrow>
     (case as_page s of None \<Rightarrow> True | Some n \<Rightarrow> 1 \<le> n) \<and>
     (case as_pageSize s of None \<Rightarrow> True | Some n \<Rightarrow> n \<in> set ACCOUNT_PAGE_SIZES)"

lemma legal_validated: "page_search_legal (validateAccountsSearch input)"
  by (auto simp: page_search_legal_def validateAccountsSearch_def Let_def ACCOUNT_PAGE_SIZES_def PAGE_SIZES_def
      dest: pageNumber_Some pageSize_Some split: option.split)

lemma legal_changes [simp]:
  "page_search_legal s \<Longrightarrow> page_search_legal (setFilters p s)"
  "page_search_legal s \<Longrightarrow> page_search_legal (clearFilters s)"
  "page_search_legal s \<Longrightarrow> page_search_legal (setSort srt desc s)"
  "page_search_legal s \<Longrightarrow> page_search_legal (setAddOpen opened s)"
  "page_search_legal s \<Longrightarrow> page_search_legal (setPage n s)"
  "page_search_legal s \<Longrightarrow> n \<in> set ACCOUNT_PAGE_SIZES \<Longrightarrow> page_search_legal (onPageSizeChange n s)"
  "page_search_legal s \<Longrightarrow> page_search_legal (header_clicked column s)"
  by (auto simp: page_search_legal_def setFilters_def clearFilters_def setSort_def setAddOpen_def setPage_def
      onPageSizeChange_def header_clicked_def Let_def split: option.splits)

lemma view_pageSize_pos: "page_search_legal s \<Longrightarrow> 0 < vw_pageSize (accounts_view_of lc s accounts now)"
  by (auto simp: page_search_legal_def accounts_view_of_def Let_def ACCOUNT_DEFAULT_PAGE_SIZE_def
      ACCOUNT_PAGE_SIZES_def split: option.splits)

lemma view_pageCount:
  "page_search_legal s \<Longrightarrow> vw_pageCount (accounts_view_of lc s accounts now) =
    pager_page_count (int (length (vw_sorted (accounts_view_of lc s accounts now)))) (vw_pageSize (accounts_view_of lc s accounts now))"
  using view_pageSize_pos [of s lc accounts now] by (simp add: accounts_view_of_def Let_def pager_page_count_def)

lemma view_page_range:
  "page_search_legal s \<Longrightarrow> 1 \<le> vw_page (accounts_view_of lc s accounts now) \<and>
    vw_page (accounts_view_of lc s accounts now) \<le> vw_pageCount (accounts_view_of lc s accounts now)"
  by (auto simp: page_search_legal_def accounts_view_of_def Let_def split: option.splits)

lemma view_rows: "vw_rows (accounts_view_of lc s accounts now) =
    slice_page (vw_sorted (accounts_view_of lc s accounts now)) (vw_page (accounts_view_of lc s accounts now))
      (vw_pageSize (accounts_view_of lc s accounts now))"
  by (simp add: accounts_view_of_def Let_def)

lemma view_sorted: "mset (vw_sorted (accounts_view_of lc s accounts now)) = mset (filterAccounts accounts s now)"
proof (cases "as_sort s")
  case None
  then show ?thesis by (simp add: accounts_view_of_def Let_def sortAccounts_def)
next
  case (Some srt)
  then show ?thesis by (simp add: accounts_view_of_def Let_def sortAccounts_eq)
qed

text \<open>Going to a page changes nothing of the list but the page.\<close>

lemma filter_page [simp]: "filterAccounts accounts (s\<lparr>as_page := p\<rparr>) now = filterAccounts accounts s now"
proof -
  have "filter_is_set (s\<lparr>as_page := p\<rparr>) d = filter_is_set s d" "dimension_passes a (s\<lparr>as_page := p\<rparr>) now d = dimension_passes a s now d"
    for d a by (cases d; simp)+
  then have "filter_is_set (s\<lparr>as_page := p\<rparr>) = filter_is_set s" "dimension_passes a (s\<lparr>as_page := p\<rparr>) now = dimension_passes a s now"
    for a by blast+
  then show ?thesis by (simp add: filterAccounts_def Let_def)
qed

lemma view_desc_page [simp]: "view_desc (s\<lparr>as_page := p\<rparr>) = view_desc s"
  by (simp add: view_desc_def cong: option.case_cong)

lemma view_setPage:
  assumes "1 \<le> n" "n \<le> vw_pageCount (accounts_view_of lc s accounts now)"
  shows "vw_page (accounts_view_of lc (setPage n s) accounts now) = n"
    "vw_sorted (accounts_view_of lc (setPage n s) accounts now) = vw_sorted (accounts_view_of lc s accounts now)"
    "vw_pageSize (accounts_view_of lc (setPage n s) accounts now) = vw_pageSize (accounts_view_of lc s accounts now)"
  using assms by (auto simp: accounts_view_of_def setPage_def Let_def)

text \<open>The pages of the accounts list are the list: whatever is in the URL, the pages from the first to
  the last, one after the other, show the filtered accounts in their sorted order, each once; the page on
  screen exists (a page number past the end shows the last page) and is only empty when nothing matches, and
  it holds no more rows than the page size.\<close>

theorem account_pages_are_the_list:
  assumes "page_search_legal s"
  shows "concat (map (\<lambda>n. vw_rows (accounts_view_of lc (setPage n s) accounts now))
        [1..vw_pageCount (accounts_view_of lc s accounts now)]) = vw_sorted (accounts_view_of lc s accounts now) \<and>
    mset (vw_sorted (accounts_view_of lc s accounts now)) = mset (filterAccounts accounts s now) \<and>
    vw_page (accounts_view_of lc s accounts now) \<in> {1..vw_pageCount (accounts_view_of lc s accounts now)} \<and>
    (vw_rows (accounts_view_of lc s accounts now) = [] \<longleftrightarrow> filterAccounts accounts s now = []) \<and>
    int (length (vw_rows (accounts_view_of lc s accounts now))) \<le> vw_pageSize (accounts_view_of lc s accounts now)"
proof -
  let ?v = "accounts_view_of lc s accounts now"
  note pos = view_pageSize_pos [OF assms, of lc accounts now] and count = view_pageCount [OF assms, of lc accounts now]
    and range = view_page_range [OF assms, of lc accounts now]
  have each: "map (\<lambda>n. vw_rows (accounts_view_of lc (setPage n s) accounts now)) [1..vw_pageCount ?v] =
      map (\<lambda>n. slice_page (vw_sorted ?v) n (vw_pageSize ?v)) [1..vw_pageCount ?v]"
    by (rule map_cong [OF refl]) (simp add: view_rows [of lc "setPage _ s"] view_setPage)
  have "concat (map (\<lambda>n. vw_rows (accounts_view_of lc (setPage n s) accounts now)) [1..vw_pageCount ?v]) = vw_sorted ?v"
    unfolding each unfolding count by (rule slices_partition [OF pos])
  moreover have "vw_rows ?v = [] \<longleftrightarrow> vw_sorted ?v = []"
    using pager_info_exact(2) [OF pos, of "vw_page ?v" "vw_sorted ?v"] range count
    by (cases "vw_sorted ?v = []") (auto simp: view_rows [of lc s accounts now] slice_page_def)
  moreover have "int (length (vw_rows ?v)) \<le> vw_pageSize ?v"
    using slice_page_take [OF pos, of "vw_page ?v" "vw_sorted ?v"] range pos
    by (simp add: view_rows [of lc s accounts now])
  moreover have "vw_sorted ?v = [] \<longleftrightarrow> filterAccounts accounts s now = []"
    using view_sorted [of lc s accounts now] by (metis mset_zero_iff)
  ultimately show ?thesis using view_sorted range by simp
qed

theorem account_pages_are_the_list_witness:
  "vw_page (accounts_view_of textCompare (validateAccountsSearch [(''page'', jint 7)]) [sample_account] 0) \<in>
     {1..vw_pageCount (accounts_view_of textCompare (validateAccountsSearch [(''page'', jint 7)]) [sample_account] 0)}"
  using account_pages_are_the_list [OF legal_validated] by blast

text \<open>Every change of the filters, the order or the page size starts at page 1.\<close>

lemma changes_start_over:
  "as_page (setFilters p s) = None" "as_page (clearFilters s) = None" "as_page (setSort srt desc s) = None"
  "as_page (onPageSizeChange n s) = None"
  by (simp_all add: setFilters_def clearFilters_def setSort_def onPageSizeChange_def)

subsection \<open>Headers\<close>

lemma sort_names: "map_of ACCOUNT_SORTS (account_sort_name x) = Some x"
  by (cases x) (simp_all add: ACCOUNT_SORTS_def account_sort_name_def)

lemma sort_name_unique: "map_of ACCOUNT_SORTS column = Some x \<Longrightarrow> account_sort_name x = column"
  by (auto simp: ACCOUNT_SORTS_def account_sort_name_def split: if_splits)

text \<open>Clicking a header twice turns the order round; a column that does not sort changes nothing.\<close>

lemma header_twice:
  assumes "map_of ACCOUNT_SORTS column = Some x"
  shows "as_sort (header_clicked column s) = Some x"
    and "view_desc (header_clicked column (header_clicked column s)) = (\<not> view_desc (header_clicked column s))"
proof -
  note name = sort_name_unique [OF assms]
  have hit: "as_sort (header_clicked column s) = Some x" for s
    using assms by (auto simp: header_clicked_def sortBy_def setSort_def Let_def split: option.split)
  then show "as_sort (header_clicked column s) = Some x" .
  have "view_desc (header_clicked column s') = (\<not> view_desc s')" if "as_sort s' = Some x" for s'
    using assms that name by (simp add: header_clicked_def sortBy_def setSort_def Let_def view_desc_def)
  from this [OF hit] show "view_desc (header_clicked column (header_clicked column s)) = (\<not> view_desc (header_clicked column s))" .
qed

lemma header_other: "map_of ACCOUNT_SORTS column = None \<Longrightarrow> header_clicked column s = s"
  by (auto simp: header_clicked_def sortBy_def Let_def split: option.split)

subsection \<open>The toolbar tells the rows\<close>

lemma group_count_sum:
  "foldl (\<lambda>n opt. if P opt then n + opt_count opt else n) n options =
    n + sum_list (map opt_count (filter P options))"
  by (induction options arbitrary: n) auto

lemma options_counted:
  assumes "options_inv d now options accounts"
  shows "sum_list (map opt_count (filter (\<lambda>p. Q (opt_value p)) options)) =
    int (length (filter (\<lambda>a. Q (dimensionValue a d now)) accounts))"
proof -
  have dist: "distinct (map opt_value options)" and vals: "opt_value ` set options = (\<lambda>a. dimensionValue a d now) ` set accounts"
    and cnt: "\<And>p. p \<in> set options \<Longrightarrow> opt_count p = int (length (filter (\<lambda>a. dimensionValue a d now = opt_value p) accounts))"
    using assms by (auto simp: options_inv_def)
  define hits where "hits v = int (length (filter (\<lambda>a. dimensionValue a d now = v) accounts))" for v
  define vs where "vs = filter Q (map opt_value options)"
  have "map opt_count (filter (\<lambda>p. Q (opt_value p)) options) = map (\<lambda>p. hits (opt_value p)) (filter (\<lambda>p. Q (opt_value p)) options)"
    using cnt by (intro map_cong) (auto simp: hits_def)
  also have "\<dots> = map hits vs" by (simp add: vs_def filter_map comp_def)
  finally have "sum_list (map opt_count (filter (\<lambda>p. Q (opt_value p)) options)) = sum_list (map hits vs)" by simp
  moreover have "sum_list (map hits vs) = int (length (filter (\<lambda>a. dimensionValue a d now \<in> set vs) accounts))"
    if "distinct vs" for vs
    using that
  proof (induction vs)
    case (Cons v vs)
    have "length (filter (\<lambda>a. dimensionValue a d now \<in> set (v # vs)) accounts) =
        length (filter (\<lambda>a. dimensionValue a d now = v) accounts) + length (filter (\<lambda>a. dimensionValue a d now \<in> set vs) accounts)"
      using Cons.prems by (induction accounts) auto
    with Cons show ?case by (simp add: hits_def)
  qed simp
  moreover have "distinct vs" using dist by (simp add: vs_def)
  moreover have "filter (\<lambda>a. dimensionValue a d now \<in> set vs) accounts = filter (\<lambda>a. Q (dimensionValue a d now)) accounts"
    using vals by (intro filter_cong) (auto simp: vs_def)
  ultimately show ?thesis by simp
qed

lemma group_count_exact:
  "group_count (filterOptions lc accounts DStatus t now) g =
    int (length (filter (\<lambda>a. statusGroup (accountStatus a now) = g) accounts))"
proof -
  let ?Q = "\<lambda>v. map_option statusGroup (map_of ACCOUNT_STATUSES v) = Some g"
  have "group_count (filterOptions lc accounts DStatus t now) g =
      sum_list (map opt_count (filter (\<lambda>p. ?Q (opt_value p)) (filterOptions lc accounts DStatus t now)))"
    unfolding group_count_def group_count_sum by simp
  also have "\<dots> = int (length (filter (\<lambda>a. ?Q (dimensionValue a DStatus now)) accounts))"
    by (rule options_counted [OF filterOptions_inv])
  finally show ?thesis by simp
qed

lemma matches_group: "matchesStatus st (group_filter g) \<longleftrightarrow> statusGroup st = g"
  by (cases st; cases g) (simp_all add: matchesStatus_def group_filter_def statusGroup_def)

lemma clear_passes: "passes_rest a (setFilters (tab_picked tab) (clearFilters s)) now"
  by (simp add: passes_rest_def setFilters_def clearFilters_def tab_picked_def no_patch_def patched_def trim_def)

lemma tab_rows:
  "filterAccounts accounts (setFilters (tab_picked tab) (clearFilters s)) now =
    filter (\<lambda>a. case tab of TabAll \<Rightarrow> True | TabGroup g \<Rightarrow> statusGroup (accountStatus a now) = g) accounts"
proof -
  let ?s = "setFilters (tab_picked tab) (clearFilters s)"
  have "?s = ?s\<lparr>as_status := (case tab of TabAll \<Rightarrow> None | TabGroup g \<Rightarrow> Some (group_filter g))\<rparr>"
    by (simp add: setFilters_def tab_picked_def no_patch_def patched_def)
  then show ?thesis
    using filter_by_status [of accounts "case tab of TabAll \<Rightarrow> None | TabGroup g \<Rightarrow> Some (group_filter g)" ?s now]
    by (auto simp: clear_passes matches_group split: account_tab.split intro!: filter_cong)
qed

text \<open>The status tabs tell the truth: with no other filter, picking a tab shows as many rows as its
  badge counts and selects it, the three counts after All add up to All, and clearing the filters
  shows every account on All, with nothing left to clear.\<close>

theorem tab_counts_are_the_rows:
  shows "list_all (\<lambda>(tab, n). n = int (length (vw_sorted (accounts_view_of lc (setFilters (tab_picked tab) (clearFilters s)) accounts now))) \<and>
      current_tab (setFilters (tab_picked tab) (clearFilters s)) = tab)
    (status_tabs (filterOptions lc accounts DStatus t now) accounts) \<and>
    sum_list (map snd (tl (status_tabs (filterOptions lc accounts DStatus t now) accounts))) = int (length accounts) \<and>
    filterAccounts accounts (clearFilters s) now = accounts \<and> current_tab (clearFilters s) = TabAll \<and>
    \<not> account_filters_set (clearFilters s) \<and> \<not> refined (clearFilters s)"
proof -
  have len: "length (vw_sorted (accounts_view_of lc s' accounts now)) = length (filterAccounts accounts s' now)" for s'
    using view_sorted [of lc s' accounts now] by (rule mset_eq_length)
  have tab: "current_tab (setFilters (tab_picked tab) (clearFilters s)) = tab" for tab
    by (cases tab) (auto simp: current_tab_def setFilters_def tab_picked_def no_patch_def patched_def statusFilterGroup_def
        group_filter_def statusGroup_def split: status_group.split)
  have all: "length (filter (\<lambda>a. statusGroup (accountStatus a now) = GroupActive) xs) +
      length (filter (\<lambda>a. statusGroup (accountStatus a now) = GroupAttention) xs) +
      length (filter (\<lambda>a. statusGroup (accountStatus a now) = GroupDisabled) xs) = length xs" for xs
  proof (induction xs)
    case (Cons a xs)
    then show ?case by (cases "statusGroup (accountStatus a now)") auto
  qed simp
  have same: "setFilters (tab_picked TabAll) (clearFilters s) = clearFilters s"
    by (simp add: setFilters_def tab_picked_def clearFilters_def no_patch_def patched_def)
  have "filterAccounts accounts (clearFilters s) now = accounts"
    using tab_rows [of accounts TabAll s now] by (simp add: same)
  moreover have "current_tab (clearFilters s) = TabAll" using tab [of TabAll] by (simp add: same)
  moreover have "\<not> account_filters_set (clearFilters s)" "\<not> refined (clearFilters s)"
    by (simp_all add: account_filters_set_def search_is_set_def refined_def issue_of_def current_tab_def
        clearFilters_def setFilters_def patched_def FILTER_DIMENSIONS_def SELECT_DIMENSIONS_def statusFilterGroup_def)
  moreover have "sum_list (map snd (tl (status_tabs (filterOptions lc accounts DStatus t now) accounts))) = int (length accounts)"
    using all [of accounts] by (simp add: status_tabs_def STATUS_GROUPS_def group_count_exact)
  moreover have "list_all (\<lambda>(tab, n). n = int (length (vw_sorted (accounts_view_of lc (setFilters (tab_picked tab) (clearFilters s)) accounts now))) \<and>
      current_tab (setFilters (tab_picked tab) (clearFilters s)) = tab)
    (status_tabs (filterOptions lc accounts DStatus t now) accounts)"
    by (simp add: status_tabs_def STATUS_GROUPS_def group_count_exact len tab_rows tab)
  ultimately show ?thesis by simp
qed

text \<open>The toolbar reads a clock of its own: between the two readings a token can expire, and then a badge
  and the rows of its tab differ.\<close>

lemma toolbar_clock_differs:
  "group_count (filterOptions lc [sample_account\<lparr>acc_expiresAt := 9\<rparr>] DStatus t 10) GroupActive = 0"
  "length (filterAccounts [sample_account\<lparr>acc_expiresAt := 9\<rparr>] (setFilters (tab_picked (TabGroup GroupActive)) (clearFilters s)) 9) = 1"
  by (simp_all add: group_count_exact tab_rows sample_account_def accountStatus_def isBanned_def isHeld_def
      isOutOfCredits_def statusGroup_def DISABLED_BAN_STATUS_def)

subsection \<open>Dialog targets\<close>

lemma open_target_fresh:
  "open_target i current = Some c \<Longrightarrow> dt_id c = i \<and> dt_open c \<and> (\<forall>old. current = Some old \<longrightarrow> dt_session old < dt_session c)"
  by (auto simp: open_target_def split: option.splits)

lemma close_target_keeps:
  "close_target (Some c) = Some c' \<Longrightarrow> dt_id c' = dt_id c \<and> dt_session c' = dt_session c \<and> \<not> dt_open c'"
  by (auto simp: close_target_def)

end
