(* ===== verification/Confirm_Dialog.thy ===== *)
theory Confirm_Dialog
  imports Js_Strings
begin

text \<open>
  The confirm dialog (src/ui/src/components/shared/confirm-dialog.tsx): a question is asked with a
  promise, and the dialog settles that promise once. A question is named by the number of questions asked
  before it; settling is recorded in a list, in order.
\<close>

subsection \<open>The title\<close>

text \<open>The title in three parts when it holds the target: before, the target itself, after.\<close>

definition ConfirmTitle :: "string \<Rightarrow> string option \<Rightarrow> string \<times> string \<times> string" where
  "ConfirmTitle title target =
     (case target of
        None \<Rightarrow> (title, [], [])
      | Some t \<Rightarrow>
          (if t = [] then (title, [], [])
           else case indexOf title t of
               None \<Rightarrow> (title, [], [])
             | Some i \<Rightarrow> (slice 0 i title, t, slice_from (i + length t) title)))"

lemma confirm_title_whole: "ConfirmTitle title target = (a, b, c) \<Longrightarrow> a @ b @ c = title"
  by (auto simp: ConfirmTitle_def slice_def slice_from_def dest: indexOf_split split: option.splits if_splits)

subsection \<open>Options and input\<close>

datatype confirm_variant = VariantDefault | VariantDanger

record confirm_options =
  co_title :: string
  co_description :: "string option"
  co_confirmLabel :: string
  co_variant :: confirm_variant
  co_target :: "string option"

datatype last_input = ByKeyboard | ByPointer

text \<open>
  The state of the provider: the dialog and its content (kept after it closes), the resolver of the
  question on screen, and how the last input came and how the dialog was opened.
\<close>

record confirm_state =
  cd_open :: bool
  cd_options :: "confirm_options option"
  cd_resolver :: "nat option"
  cd_lastInput :: last_input
  cd_byKeyboard :: bool
  cd_asked :: nat
  cd_settled :: "(nat \<times> bool) list"

definition fresh_confirm :: confirm_state where
  "fresh_confirm =
     \<lparr>cd_open = False, cd_options = None, cd_resolver = None, cd_lastInput = ByPointer,
      cd_byKeyboard = False, cd_asked = 0, cd_settled = []\<rparr>"

definition input_seen :: "last_input \<Rightarrow> confirm_state \<Rightarrow> confirm_state" where
  "input_seen how c = c\<lparr>cd_lastInput := how\<rparr>"

text \<open>\<open>resolverRef.current?.(value)\<close>.\<close>

definition resolve_with :: "bool \<Rightarrow> confirm_state \<Rightarrow> confirm_state" where
  "resolve_with answer c =
     (case cd_resolver c of None \<Rightarrow> c | Some k \<Rightarrow> c\<lparr>cd_settled := cd_settled c @ [(k, answer)]\<rparr>)"

definition settle :: "bool \<Rightarrow> confirm_state \<Rightarrow> confirm_state" where
  "settle answer c = (resolve_with answer c)\<lparr>cd_resolver := None, cd_open := False\<rparr>"

definition confirm :: "confirm_options \<Rightarrow> confirm_state \<Rightarrow> nat \<times> confirm_state" where
  "confirm opts c =
     (cd_asked c,
      (resolve_with False c)
        \<lparr>cd_resolver := Some (cd_asked c), cd_byKeyboard := (cd_lastInput c = ByKeyboard),
         cd_options := Some opts, cd_open := True, cd_asked := cd_asked c + 1\<rparr>)"

definition confirm_unmount :: "confirm_state \<Rightarrow> confirm_state" where
  "confirm_unmount c = resolve_with False c"

text \<open>A click in the portal: outside the popup it cancels.\<close>

definition onPortalClick :: "bool \<Rightarrow> confirm_state \<Rightarrow> confirm_state" where
  "onPortalClick inPopup c = (if inPopup then c else settle False c)"

datatype confirm_focus = FocusCancel | FocusConfirm | FocusPopup

definition initialFocus :: "bool \<Rightarrow> confirm_state \<Rightarrow> confirm_focus option" where
  "initialFocus typeKeyboard c =
     map_option (\<lambda>opts.
       if typeKeyboard \<or> cd_byKeyboard c
       then (if co_variant opts = VariantDanger then FocusCancel else FocusConfirm)
       else FocusPopup) (cd_options c)"

text \<open>What the user does with the focus on a control: Enter or Space on it.\<close>

definition press_focused :: "confirm_focus \<Rightarrow> confirm_state \<Rightarrow> confirm_state" where
  "press_focused f c = (case f of FocusCancel \<Rightarrow> settle False c | FocusConfirm \<Rightarrow> settle True c | FocusPopup \<Rightarrow> c)"

subsection \<open>What can happen\<close>

inductive confirm_reach :: "confirm_state \<Rightarrow> bool" where
  confirm_start: "confirm_reach fresh_confirm"
| confirm_input: "confirm_reach c \<Longrightarrow> confirm_reach (input_seen how c)"
| confirm_ask: "confirm_reach c \<Longrightarrow> confirm_reach (snd (confirm opts c))"
| confirm_settle: "confirm_reach c \<Longrightarrow> confirm_reach (settle answer c)"
| confirm_portal: "confirm_reach c \<Longrightarrow> confirm_reach (onPortalClick inPopup c)"

text \<open>
  The questions settled so far and the one on screen are all the questions asked, each once and in the
  order they were asked; the dialog is open exactly while one is on screen.
\<close>

definition confirm_ok :: "confirm_state \<Rightarrow> bool" where
  "confirm_ok c \<longleftrightarrow>
     map fst (cd_settled c) @ (case cd_resolver c of None \<Rightarrow> [] | Some k \<Rightarrow> [k]) = [0..<cd_asked c] \<and>
     (cd_open c \<longleftrightarrow> cd_resolver c \<noteq> None) \<and> (cd_open c \<longrightarrow> cd_options c \<noteq> None)"

lemma confirm_ok_fresh: "confirm_ok fresh_confirm"
  by (simp add: confirm_ok_def fresh_confirm_def)

lemma confirm_ok_input: "confirm_ok c \<Longrightarrow> confirm_ok (input_seen how c)"
  by (simp add: confirm_ok_def input_seen_def)

lemma confirm_ok_ask: "confirm_ok c \<Longrightarrow> confirm_ok (snd (confirm opts c))"
  by (auto simp: confirm_ok_def confirm_def resolve_with_def split: option.splits)

lemma confirm_ok_settle: "confirm_ok c \<Longrightarrow> confirm_ok (settle answer c)"
  by (auto simp: confirm_ok_def settle_def resolve_with_def split: option.splits)

lemma confirm_reach_ok: "confirm_reach c \<Longrightarrow> confirm_ok c"
  by (induction rule: confirm_reach.induct)
    (simp_all add: confirm_ok_fresh confirm_ok_input confirm_ok_ask confirm_ok_settle onPortalClick_def)

text \<open>Every question gets exactly one answer: whatever is asked, pressed and clicked, in whatever
  order, the questions answered and the one on screen are the questions asked, each once; a question that
  another one replaces is answered with no, and leaving the app answers the last one.\<close>

theorem every_confirm_settles_once:
  assumes "confirm_reach c"
  shows "distinct (map fst (cd_settled c)) \<and>
    map fst (cd_settled (confirm_unmount c)) = [0..<cd_asked c] \<and>
    map fst (cd_settled (settle answer c)) = [0..<cd_asked c] \<and>
    cd_settled (snd (confirm opts c)) = cd_settled (confirm_unmount c) \<and>
    (cd_open c \<longleftrightarrow> cd_resolver c \<noteq> None)"
proof -
  have ok: "confirm_ok c" by (rule confirm_reach_ok [OF assms])
  then have all: "map fst (cd_settled (settle a c)) = [0..<cd_asked c]" for a
    by (auto simp: confirm_ok_def settle_def resolve_with_def split: option.splits)
  have "distinct (map fst (cd_settled c) @ (case cd_resolver c of None \<Rightarrow> [] | Some k \<Rightarrow> [k]))"
    using ok by (simp add: confirm_ok_def)
  then have "distinct (map fst (cd_settled c))" by simp
  then show ?thesis
    using ok all [of answer] all [of False]
    by (simp add: confirm_ok_def confirm_unmount_def settle_def confirm_def)
qed

definition two_questions :: confirm_state where
  "two_questions = snd (confirm \<lparr>co_title = ''Disable?'', co_description = None, co_confirmLabel = ''Disable'',
       co_variant = VariantDanger, co_target = None\<rparr>
     (snd (confirm \<lparr>co_title = ''Enable?'', co_description = None, co_confirmLabel = ''Enable'',
       co_variant = VariantDefault, co_target = None\<rparr> fresh_confirm)))"

theorem every_confirm_settles_once_witness:
  "map fst (cd_settled (settle True two_questions)) = [0, 1] \<and> cd_settled two_questions = [(0, False)]"
proof -
  have "confirm_reach two_questions"
    unfolding two_questions_def by (intro confirm_ask confirm_start)
  from every_confirm_settles_once [OF this, of True]
  show ?thesis by (simp add: two_questions_def confirm_def resolve_with_def fresh_confirm_def)
qed

text \<open>A dangerous action opened with the keyboard is never run by the key that follows.\<close>

lemma danger_needs_a_move:
  "co_variant opts = VariantDanger \<Longrightarrow> initialFocus typeKeyboard (snd (confirm opts c)) = Some f \<Longrightarrow>
    (cd_asked c, True) \<in> set (cd_settled (press_focused f (snd (confirm opts c)))) \<Longrightarrow>
    (cd_asked c, True) \<in> set (cd_settled c)"
  by (auto simp: initialFocus_def confirm_def press_focused_def settle_def resolve_with_def
      split: if_splits option.splits)

end
