(* ===== verification/Toasts.thy ===== *)
theory Toasts
  imports Js_Strings
begin

text \<open>The messages that pop up, \<open>lib/toast.ts\<close>: which message the manager of the toasts is given, how long it
  stays, and the table of the open toasts that point at a page, which is what closes them when the
  application goes there. The manager is the user-interface library's: what the module does to it is a list
  of calls, and its callback \<open>onRemove\<close> comes in as an event. The module's table is a JavaScript \<open>Map\<close> in
  insertion order from ids to entries; entries are compared by identity, which is a serial number here.\<close>

subsection \<open>Types\<close>

datatype toast_kind = ToastSuccess | ToastError | ToastWarning | ToastInfo | ToastLoading

datatype toast_look = LookError | LookWarning | LookLoading | LookPlain

record toast_options =
  to_description :: "string option"
  to_duration :: "int option"
  to_action :: "string option"
  to_id :: "string option"
  to_hide :: "string option"

record toast_message =
  tm_id :: string
  tm_look :: toast_look
  tm_title :: string
  tm_description :: "string option"
  tm_timeout :: int
  tm_high :: bool
  tm_action :: "string option"
  tm_entry :: "nat option"

datatype manager_call = ToastAdd toast_message | ToastUpdate string toast_message | ToastClose string

fun DEFAULT_DURATION :: "toast_kind \<Rightarrow> int" where
  "DEFAULT_DURATION ToastSuccess = 4000"
| "DEFAULT_DURATION ToastInfo = 4000"
| "DEFAULT_DURATION ToastWarning = 6000"
| "DEFAULT_DURATION ToastError = 8000"
| "DEFAULT_DURATION ToastLoading = 0"

fun toastType :: "toast_kind \<Rightarrow> toast_look" where
  "toastType ToastError = LookError"
| "toastType ToastWarning = LookWarning"
| "toastType ToastLoading = LookLoading"
| "toastType _ = LookPlain"

subsection \<open>Paths\<close>

text \<open>\<open>replace(/\/+$/, "")\<close> and \<open>endsWith\<close>.\<close>

definition strip_slashes :: "string \<Rightarrow> string" where
  "strip_slashes s = rev (dropWhile (\<lambda>c. c = CHR ''/'') (rev s))"

definition endsWith :: "string \<Rightarrow> string \<Rightarrow> bool" where
  "endsWith s t = startsWith (rev s) (rev t)"

definition isOnPath :: "string \<Rightarrow> string \<Rightarrow> bool" where
  "isOnPath pathname path =
     (let current = strip_slashes pathname; target = strip_slashes path
      in endsWith current target \<or> includesStr current (target @ ''/''))"

subsection \<open>The module\<close>

text \<open>The module's variables, with the serial of the next entry, and the calls made so far.\<close>

record toast_module =
  tt_seed :: nat
  tt_serial :: nat
  tt_paths :: "(string \<times> nat \<times> string) list"
  tt_calls :: "manager_call list"

definition fresh_module :: toast_module where
  "fresh_module = \<lparr>tt_seed = 0, tt_serial = 0, tt_paths = [], tt_calls = []\<rparr>"

definition call :: "manager_call \<Rightarrow> toast_module \<Rightarrow> toast_module" where
  "call c m = m\<lparr>tt_calls := tt_calls m @ [c]\<rparr>"

definition forget :: "string \<Rightarrow> toast_module \<Rightarrow> toast_module" where
  "forget i m = m\<lparr>tt_paths := filter (\<lambda>e. fst e \<noteq> i) (tt_paths m)\<rparr>"

definition sync_entry :: "string \<Rightarrow> toast_module \<Rightarrow> string \<times> nat \<times> string \<Rightarrow> toast_module" where
  "sync_entry pathname m e = (if isOnPath pathname (snd (snd e)) then call (ToastClose (fst e)) (forget (fst e) m) else m)"

definition syncToastPath :: "string \<Rightarrow> toast_module \<Rightarrow> toast_module" where
  "syncToastPath pathname m = foldl (sync_entry pathname) m (tt_paths m)"

definition generated_id :: "int \<Rightarrow> nat \<Rightarrow> string" where
  "generated_id nowMs seed = ''toast-'' @ string_of_int nowMs @ ''-'' @ string_of_nat seed"

definition make_message :: "string \<Rightarrow> toast_kind \<Rightarrow> string \<Rightarrow> toast_options \<Rightarrow> nat option \<Rightarrow> toast_message" where
  "make_message i kind title opts entry =
     \<lparr>tm_id = i, tm_look = toastType kind, tm_title = title, tm_description = to_description opts,
      tm_timeout = (case to_duration opts of None \<Rightarrow> DEFAULT_DURATION kind | Some d \<Rightarrow> d),
      tm_high = (kind = ToastError), tm_action = to_action opts, tm_entry = entry\<rparr>"

text \<open>The path option is read as JavaScript reads it: an empty one is as good as none.\<close>

definition hide_path :: "toast_options \<Rightarrow> string option" where
  "hide_path opts = (case to_hide opts of Some (c # cs) \<Rightarrow> Some (c # cs) | _ \<Rightarrow> None)"

text \<open>\<open>here\<close> is the path of the window and \<open>nowMs\<close> the clock.\<close>

definition show_toast ::
  "string \<Rightarrow> int \<Rightarrow> toast_kind \<Rightarrow> string \<Rightarrow> toast_options \<Rightarrow> toast_module \<Rightarrow> string \<times> toast_module" where
  "show_toast here nowMs kind title opts m =
     (let (i, m) = (case to_id opts of
            Some i \<Rightarrow> (i, m)
          | None \<Rightarrow> (generated_id nowMs (tt_seed m), m\<lparr>tt_seed := tt_seed m + 1\<rparr>))
      in (case hide_path opts of
           Some path \<Rightarrow>
             if isOnPath here path then (i, m)
             else (i, call (ToastAdd (make_message i kind title opts (Some (tt_serial m))))
                 ((forget i m)\<lparr>tt_paths := tt_paths (forget i m) @ [(i, tt_serial m, path)], tt_serial := tt_serial m + 1\<rparr>))
         | None \<Rightarrow> (i, call (ToastAdd (make_message i kind title opts None)) (forget i m))))"

definition update_toast :: "string \<Rightarrow> toast_kind \<Rightarrow> string \<Rightarrow> string option \<Rightarrow> int option \<Rightarrow> toast_module \<Rightarrow> toast_module" where
  "update_toast i kind title description duration m =
     call (ToastUpdate i (make_message i kind title
       \<lparr>to_description = description, to_duration = duration, to_action = None, to_id = None, to_hide = None\<rparr> None)) m"

definition dismiss_toast :: "string \<Rightarrow> toast_module \<Rightarrow> toast_module" where
  "dismiss_toast i m = call (ToastClose i) m"

text \<open>The callback of a toast that was added with the entry \<open>n\<close>, and a click on a toast's action after what it does.\<close>

definition toast_removed :: "string \<Rightarrow> nat \<Rightarrow> toast_module \<Rightarrow> toast_module" where
  "toast_removed i n m = (if map_option fst (map_of (tt_paths m) i) = Some n then forget i m else m)"

definition action_clicked :: "string \<Rightarrow> toast_module \<Rightarrow> toast_module" where
  "action_clicked i m = call (ToastClose i) m"

text \<open>What can happen: the application shows, settles and dismisses toasts and moves between pages, and the
  manager removes a toast it was given.\<close>

inductive toast_reach :: "toast_module \<Rightarrow> bool" where
  loaded_module: "toast_reach fresh_module"
| shown_toast: "toast_reach m \<Longrightarrow> toast_reach (snd (show_toast here nowMs kind title opts m))"
| updated_toast: "toast_reach m \<Longrightarrow> toast_reach (update_toast i kind title description duration m)"
| dismissed_toast: "toast_reach m \<Longrightarrow> toast_reach (dismiss_toast i m)"
| clicked_toast: "toast_reach m \<Longrightarrow> toast_reach (action_clicked i m)"
| removed_toast: "toast_reach m \<Longrightarrow> ToastAdd t \<in> set (tt_calls m) \<Longrightarrow> tm_entry t = Some n \<Longrightarrow>
    toast_reach (toast_removed (tm_id t) n m)"
| moved_page: "toast_reach m \<Longrightarrow> toast_reach (syncToastPath pathname m)"

subsection \<open>Paths and their toasts\<close>

text \<open>The entry of the newest toast that was given an id, if one was.\<close>

definition newest_entry :: "manager_call list \<Rightarrow> string \<Rightarrow> nat option option" where
  "newest_entry cs i = foldl (\<lambda>e c. case c of ToastAdd t \<Rightarrow> if tm_id t = i then Some (tm_entry t) else e | _ \<Rightarrow> e) None cs"

lemma newest_entry_append [simp]:
  "newest_entry (cs @ [ToastAdd t]) i = (if tm_id t = i then Some (tm_entry t) else newest_entry cs i)"
  "newest_entry (cs @ [ToastUpdate j t]) i = newest_entry cs i"
  "newest_entry (cs @ [ToastClose j]) i = newest_entry cs i"
  by (simp_all add: newest_entry_def)

lemma newest_entry_closes: "newest_entry (cs @ map (ToastClose \<circ> f) es) i = newest_entry cs i"
proof (induction es rule: rev_induct)
  case (snoc e es)
  then show ?case by (simp add: append_assoc [symmetric] del: append_assoc)
qed simp

lemma sync_entries:
  assumes "distinct (map fst es)"
  shows "foldl (sync_entry pathname) m es = m\<lparr>
    tt_paths := filter (\<lambda>e. fst e \<notin> fst ` set (filter (\<lambda>e. isOnPath pathname (snd (snd e))) es)) (tt_paths m),
    tt_calls := tt_calls m @ map (ToastClose \<circ> fst) (filter (\<lambda>e. isOnPath pathname (snd (snd e))) es)\<rparr>"
  using assms
proof (induction es arbitrary: m)
  case (Cons e es)
  have "filter (\<lambda>x. fst x \<notin> fst ` set (filter (\<lambda>e. isOnPath pathname (snd (snd e))) es)) (filter (\<lambda>x. fst x \<noteq> fst e) (tt_paths m)) =
    filter (\<lambda>x. fst x \<notin> insert (fst e) (fst ` set (filter (\<lambda>e. isOnPath pathname (snd (snd e))) es))) (tt_paths m)"
    by (auto intro: filter_cong)
  with Cons show ?case by (simp add: sync_entry_def call_def forget_def)
qed simp

lemma syncToastPath_exact:
  assumes "distinct (map fst (tt_paths m))"
  shows "syncToastPath pathname m = m\<lparr>tt_paths := filter (\<lambda>e. \<not> isOnPath pathname (snd (snd e))) (tt_paths m),
    tt_calls := tt_calls m @ map (ToastClose \<circ> fst) (filter (\<lambda>e. isOnPath pathname (snd (snd e))) (tt_paths m))\<rparr>"
proof -
  have "fst e \<notin> fst ` set (filter (\<lambda>e. isOnPath pathname (snd (snd e))) (tt_paths m)) \<longleftrightarrow> \<not> isOnPath pathname (snd (snd e))"
    if "e \<in> set (tt_paths m)" for e
  proof -
    have "e' = e" if "e' \<in> set (tt_paths m)" "fst e' = fst e" for e'
      using assms that \<open>e \<in> set (tt_paths m)\<close> by (auto simp: distinct_map inj_on_def)
    then show ?thesis using that by force
  qed
  then show ?thesis unfolding syncToastPath_def sync_entries [OF assms] by (simp cong: filter_cong)
qed

definition toasts_ok :: "toast_module \<Rightarrow> bool" where
  "toasts_ok m = (distinct (map fst (tt_paths m)) \<and>
     list_all (\<lambda>e. newest_entry (tt_calls m) (fst e) = Some (Some (fst (snd e)))) (tt_paths m))"

lemma toasts_ok_show: "toasts_ok m \<Longrightarrow> toasts_ok (snd (show_toast here nowMs kind title opts m))"
  by (auto simp: toasts_ok_def show_toast_def Let_def call_def forget_def make_message_def list_all_iff distinct_map_filter
    split: option.splits)

lemma toast_reach_ok: "toast_reach m \<Longrightarrow> toasts_ok m"
proof (induction rule: toast_reach.induct)
  case (moved_page m pathname)
  then have d: "distinct (map fst (tt_paths m))" by (simp add: toasts_ok_def)
  show ?case unfolding syncToastPath_exact [OF d] using moved_page.IH
    by (auto simp: toasts_ok_def newest_entry_closes list_all_iff distinct_map_filter)
qed (auto simp: toasts_ok_show, auto simp: toasts_ok_def fresh_module_def update_toast_def dismiss_toast_def action_clicked_def
    toast_removed_def call_def forget_def list_all_iff distinct_map_filter)

text \<open>C25: Going to a page closes its toasts and no others: at any time of the application's life, a move makes
  one call for each open entry whose page it is, in the order they were shown, and nothing else, and drops
  exactly those entries; each entry belongs to the newest toast of its id, so a toast that took over an
  id without a page, or with another one, is never closed for the old one, and the callback of an older
  toast of that id forgets nothing.\<close>

theorem move_closes_its_toasts:
  assumes "toast_reach m"
  shows "tt_calls (syncToastPath pathname m) =
      tt_calls m @ map (ToastClose \<circ> fst) (filter (\<lambda>e. isOnPath pathname (snd (snd e))) (tt_paths m)) \<and>
    tt_paths (syncToastPath pathname m) = filter (\<lambda>e. \<not> isOnPath pathname (snd (snd e))) (tt_paths m) \<and>
    list_all (\<lambda>e. newest_entry (tt_calls m) (fst e) = Some (Some (fst (snd e)))) (tt_paths m) \<and>
    (newest_entry (tt_calls m) i \<noteq> Some (Some n) \<longrightarrow> toast_removed i n m = m)"
proof -
  have ok: "toasts_ok m" using assms by (rule toast_reach_ok)
  then have d: "distinct (map fst (tt_paths m))" by (simp add: toasts_ok_def)
  have "newest_entry (tt_calls m) i = Some (Some n)" if "map_option fst (map_of (tt_paths m) i) = Some n"
    using ok that by (auto simp: toasts_ok_def list_all_iff dest!: map_of_SomeD)
  then show ?thesis using ok syncToastPath_exact [OF d, of pathname] by (auto simp: toasts_ok_def toast_removed_def)
qed

definition settings_hint :: toast_options where
  "settings_hint = \<lparr>to_description = None, to_duration = None, to_action = None, to_id = Some ''update'', to_hide = Some ''/settings''\<rparr>"

theorem move_closes_its_toasts_witness:
  "tt_calls (syncToastPath ''/admin/settings/'' (snd (show_toast ''/admin'' 0 ToastWarning ''New version'' settings_hint fresh_module))) =
    [ToastAdd (make_message ''update'' ToastWarning ''New version'' settings_hint (Some 0)), ToastClose ''update'']"
proof -
  let ?m = "snd (show_toast ''/admin'' 0 ToastWarning ''New version'' settings_hint fresh_module)"
  have "toast_reach ?m" by (intro shown_toast loaded_module)
  moreover have "tt_paths ?m = [(''update'', 0, ''/settings'')]"
    "tt_calls ?m = [ToastAdd (make_message ''update'' ToastWarning ''New version'' settings_hint (Some 0))]"
    "isOnPath ''/admin/settings/'' ''/settings''" unfolding settings_hint_def by code_simp+
  ultimately show ?thesis using move_closes_its_toasts [of ?m "''/admin/settings/''"] by simp
qed

lemma minus_not_digit: "CHR ''-'' \<notin> set (string_of_nat n)"
  using string_of_nat_digits [of "CHR ''-''" n] by (auto simp: is_digit_def code_def)

lemma generated_id_seed: "generated_id t i = generated_id t' j \<Longrightarrow> i = j"
proof -
  assume eq: "generated_id t i = generated_id t' j"
  have "takeWhile (\<lambda>c. c \<noteq> CHR ''-'') (rev (generated_id u k)) = rev (string_of_nat k)" for u k
  proof -
    have "rev (generated_id u k) = rev (string_of_nat k) @ CHR ''-'' # rev (''toast-'' @ string_of_int u)"
      by (simp add: generated_id_def)
    moreover have "takeWhile (\<lambda>c. c \<noteq> CHR ''-'') (rev (string_of_nat k) @ CHR ''-'' # r) = rev (string_of_nat k)" for r
      using minus_not_digit [of k] by (subst takeWhile_append2) auto
    ultimately show ?thesis by (simp only:)
  qed
  then have "rev (string_of_nat i) = rev (string_of_nat j)" using eq by metis
  then show "i = j" by simp
qed

lemma seed_grows: "tt_seed m \<le> tt_seed (snd (show_toast here nowMs kind title opts m)) \<and>
    (to_id opts = None \<longrightarrow> tt_seed (snd (show_toast here nowMs kind title opts m)) = tt_seed m + 1)"
  by (auto simp: show_toast_def Let_def call_def forget_def split: option.splits)

end
