(* ===== verification/Mock_Server.thy ===== *)
theory Mock_Server
  imports Wire_Types
begin

text \<open>
  The ground of the mock server the UI is developed and tested against: its store
  (src/ui/src/lib/mocks/db.ts), the shape of its answers and its auth guard
  (src/ui/src/lib/mocks/http.ts). A handler is a function from the request and the store to the
  reply, the new store and the events it published, in order; the clock (\<open>mockNowUnix\<close>,
  \<open>Date.now\<close>) and generated ids are arguments. A reply is an error (status, message, code) or a
  value. Network delays are left out: nothing in a handler depends on them. The variables the core
  handlers keep beside the store (\<open>lockedSince\<close>, \<open>observeSeq\<close>, \<open>tickState\<close>) are fields of it here;
  \<open>pending\<close>, which only the add-account handlers use, is left out.
\<close>

record api_failure =
  fail_status :: int
  fail_error :: string
  fail_code :: "string option"
  fail_index :: "int option"

type_synonym 'a reply = "api_failure + 'a"

type_synonym event = "admin_event_type \<times> string"

record tick_state =
  tick_minute :: int
  tick_enabled :: int
  tick_available :: int

record mock_db =
  db_adminPassword :: string
  db_firstRunPending :: bool
  db_failedLogins :: int
  db_lockedSince :: int
  db_accounts :: "account list"
  db_secrets :: "(string \<times> account_full) list"
  db_apiKeys :: "api_key list"
  db_requests :: "request_record list"
  db_errors :: "observe_error list"
  db_modelMix :: "model_mix_entry list"
  db_backups :: "backup_entry list"
  db_schedule :: backup_schedule
  db_settings :: settings
  db_thinking :: thinking_config
  db_modelMappings :: "model_mapping_rule list"
  db_endpoint :: endpoint_config
  db_proxy :: proxy_config
  db_promptFilter :: prompt_filter_config
  db_startedAt :: int
  db_version :: string
  db_remoteVersion :: "string \<times> string"
  db_observeSeq :: int
  db_tickState :: "tick_state option"

definition jsonError :: "int \<Rightarrow> string \<Rightarrow> string option \<Rightarrow> api_failure" where
  "jsonError status msg ecode = \<lparr>fail_status = status, fail_error = msg, fail_code = ecode, fail_index = None\<rparr>"

definition requireAuth :: "string \<Rightarrow> api_failure option" where
  "requireAuth token =
     (if startsWith token ''mock-'' then None else Some (jsonError 401 ''Unauthorized'' None))"

text \<open>
  The guard at the head of a handler, \<open>const denied = requireAuth(request); if (denied) return
  denied;\<close>: a denied request leaves the store alone and publishes nothing.
\<close>

definition guarded ::
  "string \<Rightarrow> (mock_db \<Rightarrow> 'a reply \<times> mock_db \<times> event list) \<Rightarrow> mock_db \<Rightarrow> 'a reply \<times> mock_db \<times> event list" where
  "guarded token handler db =
     (case requireAuth token of
        Some denied \<Rightarrow> (Inl denied, db, [])
      | None \<Rightarrow> handler db)"

definition refuse :: "int \<Rightarrow> string \<Rightarrow> string option \<Rightarrow> mock_db \<Rightarrow> 'a reply \<times> mock_db \<times> event list" where
  "refuse status msg ecode db = (Inl (jsonError status msg ecode), db, [])"

text \<open>
  \<open>claimMockPassword(password = mockDb.adminPassword)\<close>. The copy a browser keeps in local storage is
  outside the model.
\<close>

definition claimMockPassword :: "string option \<Rightarrow> mock_db \<Rightarrow> mock_db" where
  "claimMockPassword password db =
     db\<lparr>db_adminPassword := (case password of None \<Rightarrow> db_adminPassword db | Some p \<Rightarrow> p),
        db_firstRunPending := False\<rparr>"

text \<open>\<open>String(value)\<close>, as a template literal applies it.\<close>

fun js_text :: "json \<Rightarrow> string" where
  "js_text JUndef = ''undefined''"
| "js_text JNull = ''null''"
| "js_text (JBool b) = (if b then ''true'' else ''false'')"
| "js_text (JNum n) = num_text n"
| "js_text (JStr s) = s"
| "js_text (JArr vs) = join '','' (map (\<lambda>v. if v = JUndef \<or> v = JNull then [] else js_text v) vs)"
| "js_text (JObj fs) = ''[object Object]''"

lemma requireAuth_None [simp]: "requireAuth token = None \<longleftrightarrow> startsWith token ''mock-''"
  by (simp add: requireAuth_def)

lemma guarded_ok: "startsWith token ''mock-'' \<Longrightarrow> guarded token h db = h db"
  by (simp add: guarded_def requireAuth_def)

lemma guarded_denied:
  "\<not> startsWith token ''mock-'' \<Longrightarrow> guarded token h db = (Inl (jsonError 401 ''Unauthorized'' None), db, [])"
  by (simp add: guarded_def requireAuth_def)

text \<open>What holds of every outcome of a guarded handler once it holds of the handler and of a denial.\<close>

lemma guarded_invariant [inv_rules]:
  "I db \<Longrightarrow> I (fst (snd (h db))) \<Longrightarrow> I (fst (snd (guarded token h db)))"
  by (simp add: guarded_def split: option.split)

lemma refuse_simps [simp]:
  "fst (refuse st msg c db) = Inl (jsonError st msg c)" "snd (refuse st msg c db) = (db, [])"
  by (simp_all add: refuse_def)

text \<open>A refusal does nothing: the store is as before and no event goes out.\<close>

definition refusal_is_inert :: "mock_db \<Rightarrow> 'a reply \<times> mock_db \<times> event list \<Rightarrow> bool" where
  "refusal_is_inert db out = (case fst out of Inl _ \<Rightarrow> snd out = (db, []) | Inr _ \<Rightarrow> True)"

lemma inert_guarded: "refusal_is_inert db (h db) \<Longrightarrow> refusal_is_inert db (guarded token h db)"
  by (simp add: guarded_def refusal_is_inert_def split: option.split)

lemma inert_refuse [simp]: "refusal_is_inert db (refuse st msg c db)"
  by (simp add: refusal_is_inert_def)

lemma inert_simps [simp]: "refusal_is_inert db (Inr v, out)" "refusal_is_inert db (Inl e, db, [])"
  by (simp_all add: refusal_is_inert_def)

subsection \<open>A fresh install\<close>

text \<open>The defaults of src/ui/src/lib/mocks/fixtures.ts and the \<open>empty\<close> scenario's store.\<close>

definition defaultSettings :: settings where
  "defaultSettings =
     \<lparr>set_requireApiKey = False, set_port = 8080, set_host = ''0.0.0.0'', set_allowOverUsage = False,
      set_lenientStreamIntegrity = False, set_sessionAffinity = True, set_autoContinue = False,
      set_autoContinueMax = 3, set_structuredToolHistory = True\<rparr>"

definition defaultThinking :: thinking_config where
  "defaultThinking =
     \<lparr>th_suffix = ''-thinking'', th_openaiFormat = ''reasoning_content'', th_claudeFormat = ''thinking''\<rparr>"

definition defaultModelMappings :: "model_mapping_rule list" where
  "defaultModelMappings = map (\<lambda>(k, v). \<lparr>rule_key = k, rule_value = v\<rparr>)
     [(''claude-sonnet-4-20250514'', ''claude-sonnet-5''), (''claude-3-5-sonnet'', ''claude-sonnet-5''),
      (''claude-3-sonnet'', ''claude-sonnet-5''), (''claude-3-opus'', ''claude-opus-5''),
      (''claude-3-haiku'', ''claude-haiku-4.5''), (''gpt-5.4-mini'', ''claude-haiku-4.5''),
      (''gpt-5'', ''claude-opus-5''), (''gpt-4-turbo'', ''claude-sonnet-5''),
      (''gpt-3.5-turbo'', ''claude-sonnet-5'')]"

definition defaultEndpoint :: endpoint_config where
  "defaultEndpoint = \<lparr>ep_preferredEndpoint = ''auto'', ep_endpointFallback = True\<rparr>"

definition defaultPromptFilter :: prompt_filter_config where
  "defaultPromptFilter =
     \<lparr>pfc_filterClaudeCode = False, pfc_filterEnvNoise = False, pfc_filterStripBoundaries = False,
      pfc_rules = []\<rparr>"

definition empty_schedule :: backup_schedule where
  "empty_schedule =
     \<lparr>sch_enabled = None, sch_cadence = None, sch_keep = None, sch_lastRun = None, sch_nextRun = None\<rparr>"

definition seedEmptyDb :: "string \<Rightarrow> bool \<Rightarrow> int \<Rightarrow> mock_db" where
  "seedEmptyDb password firstRun now =
     \<lparr>db_adminPassword = password, db_firstRunPending = firstRun, db_failedLogins = 0, db_lockedSince = 0,
      db_accounts = [], db_secrets = [], db_apiKeys = [], db_requests = [], db_errors = [],
      db_modelMix = [], db_backups = [], db_schedule = empty_schedule, db_settings = defaultSettings,
      db_thinking = defaultThinking, db_modelMappings = [], db_endpoint = defaultEndpoint,
      db_proxy = \<lparr>px_proxyURL = []\<rparr>, db_promptFilter = defaultPromptFilter,
      db_startedAt = now - 42, db_version = ''2.1.0'', db_remoteVersion = (''2.1.0'', []), db_observeSeq = 0, db_tickState = None\<rparr>"

abbreviation sample_db :: mock_db where
  "sample_db \<equiv> seedEmptyDb ''12345678'' True 0"

end
