(* ===== verification/Dirty_Draft.thy ===== *)
theory Dirty_Draft
  imports Js_Values
begin

text \<open>
  The settings cards' local drafts (src/ui/src/features/settings/lib/dirty.ts): structural equality
  of JSON-like values and the state a card keeps on top of its server copy. The draft operations
  take the equality as a parameter, as the code does; the locale states what they need of it, and
  it is interpreted on \<open>isEqual\<close> for well-formed values (no property name twice in an object).
\<close>

subsection \<open>Structural equality\<close>

definition defined_fields :: "(string \<times> json) list \<Rightarrow> (string \<times> json) list" where
  "defined_fields fs = filter (\<lambda>(k, v). v \<noteq> JUndef) fs"

lemma size_defined_field:
  "(k, v) \<in> set (defined_fields fs) \<Longrightarrow> size v < Suc (size_list (size_prod (\<lambda>x. 0) size) fs)"
proof -
  assume "(k, v) \<in> set (defined_fields fs)"
  then have "(k, v) \<in> set fs" by (simp add: defined_fields_def)
  then have "size_prod (\<lambda>x. 0) size (k, v) \<le> size_list (size_prod (\<lambda>x. 0) size) fs"
    by (rule size_list_estimation') simp
  then show ?thesis by simp
qed

function (sequential) isEqual :: "json \<Rightarrow> json \<Rightarrow> bool" where
  "isEqual (JArr xs) (JArr ys) \<longleftrightarrow>
     length xs = length ys \<and> list_all (\<lambda>(x, y). isEqual x y) (zip xs ys)"
| "isEqual (JObj fs) (JObj gs) \<longleftrightarrow>
     length (defined_fields fs) = length (defined_fields gs) \<and>
     list_all (\<lambda>(k, v). isEqual v (own gs k)) (defined_fields fs)"
| "isEqual a b \<longleftrightarrow> a = b"
  by pat_completeness auto
termination
proof (relation "measure (\<lambda>(a, b). size a)", goal_cases)
  case (2 xs ys z x y)
  then have "x \<in> set xs" by (auto dest: set_zip_leftD)
  then have "size x \<le> size_list size xs" by (rule size_list_estimation') simp
  then show ?case by simp
next
  case (3 fs gs z k v)
  then show ?case using size_defined_field [of k v fs] by simp
qed simp

subsection \<open>Drafts\<close>

record 'a draft_state =
  ds_base :: 'a
  ds_draft :: 'a
  ds_seen :: 'a
  ds_serverChanged :: bool

definition initialDraftState :: "'a \<Rightarrow> 'a draft_state" where
  "initialDraftState server =
     \<lparr>ds_base = server, ds_draft = server, ds_seen = server, ds_serverChanged = False\<rparr>"

definition receiveServer :: "('a \<Rightarrow> 'a \<Rightarrow> bool) \<Rightarrow> 'a draft_state \<Rightarrow> 'a \<Rightarrow> 'a draft_state" where
  "receiveServer eq state server =
     (if eq (ds_seen state) server then state
      else if eq (ds_draft state) (ds_base state) then initialDraftState server
      else state\<lparr>ds_seen := server, ds_serverChanged := True\<rparr>)"

text \<open>What \<open>useDraft\<close> hands out: the callbacks on the state and the flags it derives from it.\<close>

definition draft_set :: "('a \<Rightarrow> 'a) \<Rightarrow> 'a draft_state \<Rightarrow> 'a draft_state" where
  "draft_set f state = state\<lparr>ds_draft := f (ds_draft state)\<rparr>"

definition draft_reload :: "'a draft_state \<Rightarrow> 'a draft_state" where
  "draft_reload state = initialDraftState (ds_seen state)"

definition draft_commit :: "'a \<Rightarrow> 'a draft_state \<Rightarrow> 'a draft_state" where
  "draft_commit saved state = state\<lparr>ds_base := saved, ds_draft := saved, ds_serverChanged := False\<rparr>"

definition draft_dirty :: "('a \<Rightarrow> 'a \<Rightarrow> bool) \<Rightarrow> 'a draft_state \<Rightarrow> bool" where
  "draft_dirty eq state \<longleftrightarrow> \<not> eq (ds_draft state) (ds_base state)"

definition draft_serverChanged :: "('a \<Rightarrow> 'a \<Rightarrow> bool) \<Rightarrow> 'a draft_state \<Rightarrow> bool" where
  "draft_serverChanged eq state \<longleftrightarrow> draft_dirty eq state \<and> ds_serverChanged state"

subsection \<open>What a draft relies on\<close>

text \<open>
  \<open>ok\<close> holds of the values a card ever sees. The lemmas: a render settles in one step, a dirty
  draft survives any number of refetches, a clean one follows the server.
\<close>

locale draft_equality =
  fixes eq :: "'a \<Rightarrow> 'a \<Rightarrow> bool" and ok :: "'a \<Rightarrow> bool"
  assumes eq_refl: "ok a \<Longrightarrow> eq a a"
    and eq_sym: "ok a \<Longrightarrow> ok b \<Longrightarrow> eq a b \<Longrightarrow> eq b a"
    and eq_trans: "ok a \<Longrightarrow> ok b \<Longrightarrow> ok c \<Longrightarrow> eq a b \<Longrightarrow> eq b c \<Longrightarrow> eq a c"
begin

lemma receive_settles: "ok v \<Longrightarrow> receiveServer eq (receiveServer eq s v) v = receiveServer eq s v"
  by (auto simp: receiveServer_def initialDraftState_def eq_refl)

lemma dirty_kept:
  "draft_dirty eq s \<Longrightarrow> ds_draft (foldl (receiveServer eq) s vs) = ds_draft s \<and>
    ds_base (foldl (receiveServer eq) s vs) = ds_base s \<and> draft_dirty eq (foldl (receiveServer eq) s vs)"
proof (induction vs arbitrary: s)
  case (Cons v vs)
  have "draft_dirty eq (receiveServer eq s v)" "ds_draft (receiveServer eq s v) = ds_draft s"
    "ds_base (receiveServer eq s v) = ds_base s"
    using Cons.prems by (auto simp: receiveServer_def draft_dirty_def)
  with Cons.IH [of "receiveServer eq s v"] show ?case by simp
qed simp

lemma change_flagged:
  "ok v \<Longrightarrow> draft_dirty eq s \<Longrightarrow> \<not> eq (ds_seen s) v \<Longrightarrow> draft_serverChanged eq (receiveServer eq s v)"
  by (auto simp: receiveServer_def draft_serverChanged_def draft_dirty_def)

lemma clean_follows:
  "ok v \<Longrightarrow> \<not> draft_dirty eq s \<Longrightarrow> \<not> eq (ds_seen s) v \<Longrightarrow> receiveServer eq s v = initialDraftState v"
  by (auto simp: receiveServer_def draft_dirty_def)

lemma commit_clean: "ok v \<Longrightarrow> \<not> draft_dirty eq (draft_commit v s)"
  by (simp add: draft_dirty_def draft_commit_def eq_refl)

lemma reload_clean: "ok (ds_seen s) \<Longrightarrow> \<not> draft_dirty eq (draft_reload s)"
  by (simp add: draft_dirty_def draft_reload_def initialDraftState_def eq_refl)

lemma seen_latest:
  "ok v \<Longrightarrow> ok (ds_seen s) \<Longrightarrow> eq (ds_seen (receiveServer eq s v)) v"
  by (auto simp: receiveServer_def initialDraftState_def eq_refl)

end

subsection \<open>isEqual is equality of what the values mean\<close>

text \<open>
  A value stripped of what equality ignores: an object is the map of its defined properties,
  without their order.
\<close>

datatype canon =
    CUndef | CNull | CBool bool | CNum jnum | CStr string
  | CArr "canon list" | CObj "string \<Rightarrow> canon option"

function canonical :: "json \<Rightarrow> canon" where
  "canonical JUndef = CUndef"
| "canonical JNull = CNull"
| "canonical (JBool b) = CBool b"
| "canonical (JNum n) = CNum n"
| "canonical (JStr s) = CStr s"
| "canonical (JArr vs) = CArr (map canonical vs)"
| "canonical (JObj fs) = CObj (map_of (map (\<lambda>(k, v). (k, canonical v)) (defined_fields fs)))"
  by pat_completeness auto
termination
proof (relation "measure size", goal_cases)
  case (2 vs v)
  then have "size v \<le> size_list size vs" by (rule size_list_estimation') simp
  then show ?case by simp
next
  case (3 fs z k v)
  then show ?case using size_defined_field [of k v fs] by simp
qed simp

fun wf_json :: "json \<Rightarrow> bool" where
  "wf_json (JArr vs) \<longleftrightarrow> (\<forall>v\<in>set vs. wf_json v)"
| "wf_json (JObj fs) \<longleftrightarrow> distinct (map fst fs) \<and> (\<forall>f\<in>set fs. wf_json (snd f))"
| "wf_json _ \<longleftrightarrow> True"

lemma own_in: "distinct (map fst fs) \<Longrightarrow> (k, v) \<in> set fs \<Longrightarrow> own fs k = v"
  by (simp add: own_def map_of_is_SomeI)

lemma own_defined: "own fs k \<noteq> JUndef \<Longrightarrow> (k, own fs k) \<in> set (defined_fields fs)"
  by (auto simp: own_def defined_fields_def dest: map_of_SomeD split: option.splits)

lemma canonical_undef [simp]: "canonical v = CUndef \<longleftrightarrow> v = JUndef"
  by (cases v) auto

lemma canonical_primitive [simp]:
  "canonical v = CNull \<longleftrightarrow> v = JNull" "canonical v = CBool b \<longleftrightarrow> v = JBool b"
  "canonical v = CNum n \<longleftrightarrow> v = JNum n" "canonical v = CStr s \<longleftrightarrow> v = JStr s"
  by (cases v; auto)+

lemmas canonical_primitive_sym [simp] =
  canonical_undef [THEN eq_iff_swap] canonical_primitive [THEN eq_iff_swap]

lemma map_of_canonical:
  "map_of (map (\<lambda>(k, v). (k, canonical v)) fs) k = map_option canonical (map_of fs k)"
  by (induction fs) auto

lemma map_of_defined:
  "distinct (map fst fs) \<Longrightarrow> map_of (defined_fields fs) k = (if own fs k = JUndef then None else Some (own fs k))"
proof (induction fs)
  case (Cons f fs)
  obtain j v where f: "f = (j, v)" by (cases f)
  with Cons.prems have "j \<notin> fst ` set fs" by simp
  then have "own fs j = JUndef" by (metis own_def map_of_eq_None_iff option.case(1))
  with Cons f show ?case by (auto simp: defined_fields_def)
qed (simp add: defined_fields_def)

lemma canonical_object:
  assumes "distinct (map fst fs)" "distinct (map fst gs)"
  shows "canonical (JObj fs) = canonical (JObj gs) \<longleftrightarrow> (\<forall>k. canonical (own fs k) = canonical (own gs k))"
proof -
  have "canonical (JObj hs) = CObj (\<lambda>k. if own hs k = JUndef then None else Some (canonical (own hs k)))"
    if "distinct (map fst hs)" for hs
    using map_of_defined [OF that] by (simp add: fun_eq_iff map_of_canonical)
  then show ?thesis using assms by (auto simp: fun_eq_iff split: if_splits) (metis canonical_undef)+
qed

lemma same_keys:
  assumes "distinct (map fst fs)" "distinct (map fst gs)"
    and "length (defined_fields fs) = length (defined_fields gs)"
    and "fst ` set (defined_fields fs) \<subseteq> fst ` set (defined_fields gs)"
  shows "fst ` set (defined_fields fs) = fst ` set (defined_fields gs)"
proof (rule card_subset_eq [OF _ assms(4)])
  have "card (fst ` set (defined_fields hs)) = length (defined_fields hs)" if "distinct (map fst hs)" for hs
    using distinct_card [of "map fst (defined_fields hs)"] distinct_map_filter [OF that]
    by (simp add: defined_fields_def)
  then show "card (fst ` set (defined_fields fs)) = card (fst ` set (defined_fields gs))"
    using assms by simp
qed simp

lemma isEqual_canonical: "wf_json a \<Longrightarrow> wf_json b \<Longrightarrow> isEqual a b \<longleftrightarrow> canonical a = canonical b"
proof (induction a b rule: isEqual.induct)
  case (1 xs ys)
  have "isEqual x y \<longleftrightarrow> canonical x = canonical y" if "(x, y) \<in> set (zip xs ys)" for x y
    using "1.IH" [OF that refl] "1.prems" set_zip_leftD [OF that] set_zip_rightD [OF that] by simp
  then have "list_all (\<lambda>(x, y). isEqual x y) (zip xs ys) \<longleftrightarrow>
      list_all (\<lambda>(x, y). canonical x = canonical y) (zip xs ys)"
    by (auto simp: list_all_iff)
  then show ?case by (auto simp: list_eq_iff_nth_eq list_all_length)
next
  case (2 fs gs)
  let ?F = "defined_fields fs" and ?G = "defined_fields gs"
  have d: "distinct (map fst fs)" "distinct (map fst gs)" using "2.prems" by simp_all
  have own_wf: "wf_json (own gs k)" for k
    using "2.prems"(2) by (auto simp: own_def dest: map_of_SomeD split: option.split)
  have IH: "isEqual v (own gs k) \<longleftrightarrow> canonical v = canonical (own gs k)" if "(k, v) \<in> set ?F" for k v
  proof (rule "2.IH" [OF that refl _ own_wf])
    show "wf_json v" using that "2.prems"(1) by (auto simp: defined_fields_def)
  qed
  have F: "(k, v) \<in> set ?F \<longleftrightarrow> own fs k = v \<and> v \<noteq> JUndef" for k v
    using own_in [OF d(1)] own_defined [of fs k] by (auto simp: defined_fields_def)
  have G: "(k, v) \<in> set ?G \<longleftrightarrow> own gs k = v \<and> v \<noteq> JUndef" for k v
    using own_in [OF d(2)] own_defined [of gs k] by (auto simp: defined_fields_def)
  have all: "list_all (\<lambda>(k, v). isEqual v (own gs k)) ?F \<longleftrightarrow>
      (\<forall>k. own fs k \<noteq> JUndef \<longrightarrow> canonical (own fs k) = canonical (own gs k))"
  proof -
    have "list_all (\<lambda>(k, v). isEqual v (own gs k)) ?F \<longleftrightarrow>
        (\<forall>k v. (k, v) \<in> set ?F \<longrightarrow> isEqual v (own gs k))" by (auto simp: list_all_iff)
    also have "\<dots> \<longleftrightarrow> (\<forall>k v. (k, v) \<in> set ?F \<longrightarrow> canonical v = canonical (own gs k))" using IH by blast
    finally show ?thesis by (simp add: F)
  qed
  have ex: "k \<in> fst ` set hs \<longleftrightarrow> (\<exists>v. (k, v) \<in> set hs)" for k and hs :: "(string \<times> json) list"
    by force
  have keysF: "k \<in> fst ` set ?F \<longleftrightarrow> own fs k \<noteq> JUndef" and keysG: "k \<in> fst ` set ?G \<longleftrightarrow> own gs k \<noteq> JUndef" for k
    by (simp_all add: ex F G)
  show ?case
  proof
    assume eq: "isEqual (JObj fs) (JObj gs)"
    then have pt: "own fs k \<noteq> JUndef \<Longrightarrow> canonical (own fs k) = canonical (own gs k)" for k
      using all by simp
    then have "fst ` set ?F \<subseteq> fst ` set ?G" using keysF keysG by (metis canonical_undef subsetI)
    then have "fst ` set ?F = fst ` set ?G" using same_keys [OF d] eq by simp
    then have undef: "own fs k = JUndef \<longleftrightarrow> own gs k = JUndef" for k
      using keysF [of k] keysG [of k] by metis
    have "canonical (own fs k) = canonical (own gs k)" for k
      using pt [of k] undef [of k] by (cases "own fs k = JUndef") simp_all
    then show "canonical (JObj fs) = canonical (JObj gs)" unfolding canonical_object [OF d] ..
  next
    assume "canonical (JObj fs) = canonical (JObj gs)"
    then have pt: "canonical (own fs k) = canonical (own gs k)" for k
      unfolding canonical_object [OF d] by blast
    then have "fst ` set ?F = fst ` set ?G" using keysF keysG by (metis canonical_undef set_eqI)
    moreover have "distinct (map fst ?F)" "distinct (map fst ?G)"
      using d by (simp_all add: defined_fields_def distinct_map_filter)
    ultimately have "length ?F = length ?G"
      by (metis distinct_card length_map list.set_map)
    then show "isEqual (JObj fs) (JObj gs)" using all pt by simp
  qed
qed (auto split: json.splits)

interpretation json_draft: draft_equality isEqual wf_json
  by unfold_locales (simp_all add: isEqual_canonical)

subsection \<open>Properties\<close>

text \<open>\<open>isEqual\<close> is structural equality: on JSON values it holds exactly when the two mean the same,
  objects being compared as maps without their undefined properties and in any order.\<close>

theorem is_equal_exact:
  assumes "wf_json a" and "wf_json b"
  shows "isEqual a b \<longleftrightarrow> canonical a = canonical b"
  using assms by (rule isEqual_canonical)

theorem is_equal_exact_witness:
  "isEqual (JObj [(''a'', JNull), (''b'', JUndef)]) (JObj [(''a'', JNull)]) \<longleftrightarrow>
    canonical (JObj [(''a'', JNull), (''b'', JUndef)]) = canonical (JObj [(''a'', JNull)])"
  by (rule is_equal_exact) simp_all

text \<open>C37: A refetch never overwrites local edits and a render settles: while a card's draft is dirty, any
  sequence of server copies leaves the draft and its base as they are; reading the same copy again
  changes nothing, so the state update made during rendering does not repeat; a changed copy is
  flagged on a dirty draft and replaces a clean one; and saving or reloading leaves the card clean.\<close>

theorem draft_survives_refetch:
  assumes "wf_json v" and "wf_json (ds_seen s)"
  shows "receiveServer isEqual (receiveServer isEqual s v) v = receiveServer isEqual s v \<and>
    (if draft_dirty isEqual s
     then ds_draft (foldl (receiveServer isEqual) s copies) = ds_draft s \<and>
       draft_dirty isEqual (foldl (receiveServer isEqual) s copies) \<and>
       (isEqual (ds_seen s) v \<or> draft_serverChanged isEqual (receiveServer isEqual s v))
     else isEqual (ds_seen s) v \<or> receiveServer isEqual s v = initialDraftState v) \<and>
    \<not> draft_dirty isEqual (draft_commit v s) \<and> \<not> draft_dirty isEqual (draft_reload s)"
proof (intro conjI)
  show "if draft_dirty isEqual s
     then ds_draft (foldl (receiveServer isEqual) s copies) = ds_draft s \<and>
       draft_dirty isEqual (foldl (receiveServer isEqual) s copies) \<and>
       (isEqual (ds_seen s) v \<or> draft_serverChanged isEqual (receiveServer isEqual s v))
     else isEqual (ds_seen s) v \<or> receiveServer isEqual s v = initialDraftState v"
    using json_draft.dirty_kept [of s copies] json_draft.change_flagged [OF assms(1)]
      json_draft.clean_follows [OF assms(1)] by (cases "draft_dirty isEqual s") (simp_all, blast+)
qed (use assms json_draft.receive_settles json_draft.commit_clean json_draft.reload_clean in blast)+

theorem draft_survives_refetch_witness:
  "ds_draft (foldl (receiveServer isEqual) (draft_set (\<lambda>_. jint 2) (initialDraftState (jint 1))) [jint 3, jint 4]) = jint 2"
  using draft_survives_refetch [of "jint 1" "draft_set (\<lambda>_. jint 2) (initialDraftState (jint 1))" "[jint 3, jint 4]"]
  by (simp add: jint_def draft_set_def initialDraftState_def draft_dirty_def)

end
