(* ===== verification/Model_Mappings.thy ===== *)
theory Model_Mappings
  imports Js_Values Wire_Types Dirty_Draft
begin

text \<open>
  The model-mapping editor (src/ui/src/features/settings/lib/model-mappings.ts): editable rows with
  local ids, the list to send, where a server error points, and moving a row. The module's id
  counter \<open>nextRowId\<close> is passed along.
\<close>

record mapping_row =
  row_id :: string
  row_key :: string
  row_value :: string

definition newRowId :: "nat \<Rightarrow> string \<times> nat" where
  "newRowId nextRowId = (''mapping-'' @ string_of_nat (nextRowId + 1), nextRowId + 1)"

text \<open>\<open>rows\<close> pairs each rule with \<open>previous[i]\<close>, \<open>None\<close> past its end.\<close>

definition same_rule :: "mapping_row option \<Rightarrow> model_mapping_rule \<Rightarrow> bool" where
  "same_rule before rule = (case before of
      None \<Rightarrow> False
    | Some b \<Rightarrow> toLowerCase (row_key b) = toLowerCase (rule_key rule) \<and> row_value b = rule_value rule)"

fun rows_from :: "(model_mapping_rule \<times> mapping_row option) list \<Rightarrow> nat \<Rightarrow> mapping_row list \<times> nat" where
  "rows_from [] n = ([], n)"
| "rows_from ((rule, before) # rest) n =
     (let (i, n') = (if same_rule before rule then (row_id (the before), n) else newRowId n);
          (rows, m) = rows_from rest n'
      in (\<lparr>row_id = i, row_key = rule_key rule, row_value = rule_value rule\<rparr> # rows, m))"

definition rowsFromRules ::
  "model_mapping_rule list \<Rightarrow> mapping_row list \<Rightarrow> nat \<Rightarrow> mapping_row list \<times> nat" where
  "rowsFromRules rules previous n =
     rows_from (map (\<lambda>i. (rules ! i, if i < length previous then Some (previous ! i) else None))
                  [0..<length rules]) n"

definition sameMappings :: "mapping_row list \<Rightarrow> mapping_row list \<Rightarrow> bool" where
  "sameMappings a b \<longleftrightarrow> length a = length b \<and>
     list_all (\<lambda>(x, y). row_key x = row_key y \<and> row_value x = row_value y) (zip a b)"

fun prepare_from :: "nat \<Rightarrow> mapping_row list \<Rightarrow> (model_mapping_rule \<times> nat) list" where
  "prepare_from index [] = []"
| "prepare_from index (row # rows) =
     (let key = trim (row_key row); v = trim (row_value row) in
      if key = [] \<and> v = [] then prepare_from (Suc index) rows
      else (\<lparr>rule_key = key, rule_value = v\<rparr>, index) # prepare_from (Suc index) rows)"

definition prepareMappings :: "mapping_row list \<Rightarrow> model_mapping_rule list \<times> nat list" where
  "prepareMappings rows = (map fst (prepare_from 0 rows), map snd (prepare_from 0 rows))"

definition localRowForServerIndex :: "nat list \<Rightarrow> int option \<Rightarrow> nat option" where
  "localRowForServerIndex rowIndexes index = (case index of
      None \<Rightarrow> None
    | Some i \<Rightarrow> if i < 0 \<or> i \<ge> int (length rowIndexes) then None else Some (rowIndexes ! nat i))"

text \<open>\<open>next.splice(from, 1)\<close>, then \<open>next.splice(to, 0, moved)\<close>.\<close>

definition moveRow :: "'a list \<Rightarrow> int \<Rightarrow> int \<Rightarrow> 'a list" where
  "moveRow rows from to =
     (if from = to \<or> from < 0 \<or> to < 0 \<or> from \<ge> int (length rows) \<or> to \<ge> int (length rows) then rows
      else
        (let moved = rows ! nat from; rest = take (nat from) rows @ drop (Suc (nat from)) rows
         in take (nat to) rest @ [moved] @ drop (nat to) rest))"

subsection \<open>Lemmas\<close>

lemma prepare_from_rows:
  "(m, i) \<in> set (prepare_from k rows) \<Longrightarrow> k \<le> i \<and> i < k + length rows \<and>
    rule_key m = trim (row_key (rows ! (i - k))) \<and> rule_value m = trim (row_value (rows ! (i - k))) \<and>
    (rule_key m \<noteq> [] \<or> rule_value m \<noteq> [])"
proof (induction rows arbitrary: k)
  case (Cons row rows)
  have "(m, i) = (\<lparr>rule_key = trim (row_key row), rule_value = trim (row_value row)\<rparr>, k) \<and>
      \<not> (trim (row_key row) = [] \<and> trim (row_value row) = []) \<or> (m, i) \<in> set (prepare_from (Suc k) rows)"
    using Cons.prems by (auto simp: Let_def split: if_splits)
  then show ?case
  proof
    assume "(m, i) \<in> set (prepare_from (Suc k) rows)"
    from Cons.IH [OF this] have s: "Suc k \<le> i" and *: "i < Suc k + length rows"
      "rule_key m = trim (row_key (rows ! (i - Suc k)))" "rule_value m = trim (row_value (rows ! (i - Suc k)))"
      "rule_key m \<noteq> [] \<or> rule_value m \<noteq> []" by auto
    obtain j where "i - k = Suc j" "i - Suc k = j" using s by (metis Suc_diff_Suc Suc_le_lessD)
    with * s show ?thesis by simp
  qed auto
qed simp

lemma prepare_from_sorted: "sorted_wrt (<) (map snd (prepare_from k rows))"
proof (induction rows arbitrary: k)
  case (Cons row rows)
  have "\<forall>i\<in>set (map snd (prepare_from (Suc k) rows)). k < i"
    using prepare_from_rows [of _ _ "Suc k" rows] by fastforce
  with Cons show ?case by (simp add: Let_def)
qed simp

text \<open>Every row that is not blank on both sides is sent.\<close>

lemma prepare_from_complete:
  "i < length rows \<Longrightarrow> trim (row_key (rows ! i)) \<noteq> [] \<or> trim (row_value (rows ! i)) \<noteq> [] \<Longrightarrow>
    k + i \<in> set (map snd (prepare_from k rows))"
proof (induction rows arbitrary: k i)
  case (Cons row rows)
  show ?case
  proof (cases i)
    case 0
    with Cons.prems show ?thesis by (auto simp: Let_def)
  next
    case (Suc j)
    with Cons.prems Cons.IH [of j "Suc k"] have "Suc k + j \<in> set (map snd (prepare_from (Suc k) rows))" by simp
    then show ?thesis by (auto simp: Let_def Suc)
  qed
qed simp

lemma sameMappings_iff:
  "sameMappings a b \<longleftrightarrow> map (\<lambda>r. (row_key r, row_value r)) a = map (\<lambda>r. (row_key r, row_value r)) b"
  by (auto simp: sameMappings_def list_eq_iff_nth_eq list_all_length)

interpretation mapping_draft: draft_equality sameMappings "\<lambda>_. True"
  by unfold_locales (simp_all add: sameMappings_iff)

text \<open>Ids: each row keeps its previous row's id or takes one above the counter.\<close>

definition local_id :: "nat \<Rightarrow> string" where
  "local_id n = ''mapping-'' @ string_of_nat n"

lemma local_id_inject [simp]: "local_id m = local_id n \<longleftrightarrow> m = n"
  by (simp add: local_id_def)

lemma newRowId_local: "newRowId n = (local_id (Suc n), Suc n)"
  by (simp add: newRowId_def local_id_def)

lemma rows_from_ids:
  assumes "rows_from ps n = (rows, m)"
    and "distinct (map row_id (List.map_filter snd ps))"
    and "row_id ` set (List.map_filter snd ps) \<subseteq> local_id ` {1..n}"
  shows "n \<le> m \<and> distinct (map row_id rows) \<and>
    row_id ` set rows \<subseteq> row_id ` set (List.map_filter snd ps) \<union> local_id ` {Suc n..m}"
  using assms
proof (induction ps n arbitrary: rows m rule: rows_from.induct)
  case (1 n)
  then show ?case by simp
next
  case (2 rule before rest n)
  let ?step = "if same_rule before rule then (row_id (the before), n) else newRowId n"
  obtain i n' where step: "?step = (i, n')" by (cases ?step) auto
  obtain rs where rest: "rows_from rest n' = (rs, m)"
    and rows: "rows = \<lparr>row_id = i, row_key = rule_key rule, row_value = rule_value rule\<rparr> # rs"
    using "2.prems"(1) step by (auto simp: Let_def split: prod.splits)
  let ?old = "row_id ` set (List.map_filter snd rest)"
  have n': "n \<le> n'" "n' \<le> Suc n"
    using step by (auto simp: newRowId_local split: if_splits)
  have d: "distinct (map row_id (List.map_filter snd rest))"
    and sub: "?old \<subseteq> local_id ` {1..n}"
    using "2.prems"(2,3) by (auto simp: List.map_filter_simps split: option.splits)
  then have sub': "?old \<subseteq> local_id ` {1..n'}" using n' by force
  have IH: "n' \<le> m" "distinct (map row_id rs)" "row_id ` set rs \<subseteq> ?old \<union> local_id ` {Suc n'..m}"
    using "2.IH" [OF step [symmetric] _ rest d sub'] by auto
  have fresh: "i \<notin> ?old \<union> local_id ` {Suc n'..m} \<and>
      (i \<in> row_id ` set (List.map_filter snd ((rule, before) # rest)) \<or> (i = local_id (Suc n) \<and> n' = Suc n))"
  proof (cases "same_rule before rule")
    case True
    then obtain b where b: "before = Some b" by (auto simp: same_rule_def split: option.splits)
    with True step have i: "i = row_id b" "n' = n" by auto
    then have "i \<in> local_id ` {1..n}" "i \<notin> ?old"
      using "2.prems"(2,3) b by (auto simp: List.map_filter_simps)
    then show ?thesis using i b by (auto simp: List.map_filter_simps)
  next
    case False
    with step have "i = local_id (Suc n)" "n' = Suc n" by (auto simp: newRowId_local)
    with sub show ?thesis by auto
  qed
  have old: "?old \<subseteq> row_id ` set (List.map_filter snd ((rule, before) # rest))"
    by (auto simp: List.map_filter_simps split: option.split)
  have more: "local_id ` {Suc n'..m} \<subseteq> local_id ` {Suc n..m}" using n' by auto
  define all where "all = row_id ` set (List.map_filter snd ((rule, before) # rest))"
  have "i = local_id (Suc n) \<and> n' = Suc n \<Longrightarrow> i \<in> local_id ` {Suc n..m}" using IH(1) by auto
  then have "i \<in> all \<union> local_id ` {Suc n..m}" using fresh unfolding all_def by blast
  moreover have "row_id ` set rs \<subseteq> all \<union> local_id ` {Suc n..m}"
    using IH(3) old more unfolding all_def by blast
  moreover have "i \<notin> row_id ` set rs" using fresh IH(3) by blast
  ultimately show ?case
    using IH(1,2) n' unfolding rows all_def [symmetric] by simp
qed

lemma moveRow_in_range:
  assumes "i < length rows" "j < length rows" "i \<noteq> j"
  shows "moveRow rows (int i) (int j) =
    (let rest = take i rows @ drop (Suc i) rows in take j rest @ [rows ! i] @ drop j rest)"
  using assms by (simp add: moveRow_def Let_def)

lemma mset_remove_nth: "i < length xs \<Longrightarrow> mset xs = add_mset (xs ! i) (mset (take i xs @ drop (Suc i) xs))"
  by (metis id_take_nth_drop mset_append mset.simps(2) union_mset_add_mset_right)

subsection \<open>Properties\<close>

text \<open>Editable rows have distinct ids: re-reading the server's rules over rows whose ids came from the
  counter gives one row per rule, in order and with its text, and no id twice, whichever rows could
  lend their id.\<close>

theorem row_ids_distinct:
  assumes "distinct (map row_id previous)" and "row_id ` set previous \<subseteq> local_id ` {1..n}"
  shows "map (\<lambda>r. (row_key r, row_value r)) (fst (rowsFromRules rules previous n)) =
      map (\<lambda>r. (rule_key r, rule_value r)) rules \<and>
    distinct (map row_id (fst (rowsFromRules rules previous n))) \<and>
    row_id ` set (fst (rowsFromRules rules previous n)) \<subseteq> local_id ` {1..snd (rowsFromRules rules previous n)}"
proof -
  let ?ps = "map (\<lambda>i. (rules ! i, if i < length previous then Some (previous ! i) else None)) [0..<length rules]"
  obtain rows m where r: "rows_from ?ps n = (rows, m)" by (cases "rows_from ?ps n") auto
  have fields_kept: "map (\<lambda>r. (row_key r, row_value r)) (fst (rows_from ps k)) =
      map (\<lambda>(rule, _). (rule_key rule, rule_value rule)) ps" for ps k
    by (induction ps k rule: rows_from.induct) (auto simp: Let_def split: prod.split)
  have keep: "List.map_filter snd (map (\<lambda>i. (rules ! i, if i < length previous then Some (previous ! i) else None))
      [0..<k]) = take k previous" for k
    by (induction k) (auto simp: List.map_filter_def take_Suc_conv_app_nth)
  have d: "distinct (map row_id (take (length rules) previous))"
    using assms(1) by (metis distinct_take take_map)
  have sub: "row_id ` set (take (length rules) previous) \<subseteq> local_id ` {1..n}"
    using assms(2) set_take_subset [of "length rules" previous] by blast
  note all = rows_from_ids [OF r, unfolded keep, OF d sub]
  note ids = all [THEN conjunct1] all [THEN conjunct2, THEN conjunct1] all [THEN conjunct2, THEN conjunct2]
  have "local_id ` {1..n} \<union> local_id ` {Suc n..m} \<subseteq> local_id ` {1..m}" using ids(1) by auto
  then have "row_id ` set rows \<subseteq> local_id ` {1..m}"
    using ids(3) sub by (meson Un_subset_iff Un_upper1 Un_upper2 order.trans sup.boundedI)
  moreover have "map (\<lambda>r. (row_key r, row_value r)) rows = map (\<lambda>r. (rule_key r, rule_value r)) rules"
  proof -
    have "map (\<lambda>(rule, _). (rule_key rule, rule_value rule)) ?ps = map (\<lambda>r. (rule_key r, rule_value r)) rules"
      by (rule nth_equalityI) simp_all
    then show ?thesis using fields_kept [of ?ps n] unfolding r by simp
  qed
  ultimately show ?thesis unfolding rowsFromRules_def r using ids(2) by simp
qed

theorem row_ids_distinct_witness:
  "distinct (map row_id (fst (rowsFromRules
     [\<lparr>rule_key = ''a'', rule_value = ''b''\<rparr>, \<lparr>rule_key = ''c'', rule_value = ''d''\<rparr>]
     [\<lparr>row_id = local_id 1, row_key = ''A'', row_value = ''b''\<rparr>] 1)))"
  using row_ids_distinct [of "[\<lparr>row_id = local_id 1, row_key = ''A'', row_value = ''b''\<rparr>]" 1
      "[\<lparr>rule_key = ''a'', rule_value = ''b''\<rparr>, \<lparr>rule_key = ''c'', rule_value = ''d''\<rparr>]"]
  by simp

text \<open>Moving a row is a rearrangement that can be undone: it keeps all rows, puts the moved one at its
  target, and moving it back restores the list; a move out of bounds changes nothing.\<close>

theorem move_row_inverse:
  shows "mset (moveRow rows i j) = mset rows \<and> length (moveRow rows i j) = length rows \<and>
    moveRow (moveRow rows i j) j i = rows \<and>
    (if 0 \<le> i \<and> 0 \<le> j \<and> i < int (length rows) \<and> j < int (length rows)
     then moveRow rows i j ! nat j = rows ! nat i else moveRow rows i j = rows)"
proof (cases "i = j \<or> i < 0 \<or> j < 0 \<or> i \<ge> int (length rows) \<or> j \<ge> int (length rows)")
  case True
  then show ?thesis by (auto simp: moveRow_def)
next
  case False
  then obtain a b where ab: "i = int a" "j = int b" "a < length rows" "b < length rows" "a \<noteq> b"
    by (metis int_nat_eq nat_int of_nat_less_iff not_le)
  define rest where "rest = take a rows @ drop (Suc a) rows"
  have len: "length rest = length rows - 1" "b \<le> length rest" "a \<le> length rest"
    using ab by (auto simp: rest_def)
  define moved where "moved = take b rest @ [rows ! a] @ drop b rest"
  have m: "moveRow rows i j = moved"
    using ab by (simp add: moveRow_in_range Let_def moved_def rest_def)
  have lm: "length moved = length rows" using len ab by (simp add: moved_def)
  have hit: "moved ! b = rows ! a" using len(2) by (simp add: moved_def nth_append)
  have removed: "take b moved @ drop (Suc b) moved = rest" using len(2) by (simp add: moved_def)
  have "moveRow moved j i = take a rest @ [moved ! b] @ drop a rest"
    using moveRow_in_range [of b moved a] ab lm removed by (simp add: Let_def)
  also have "\<dots> = rows"
    unfolding hit rest_def using ab(3) by (simp add: id_take_nth_drop [symmetric])
  finally have inv: "moveRow moved j i = rows" .
  have "mset moved = add_mset (rows ! a) (mset rest)"
    unfolding moved_def by (metis append_Cons append_Nil append_take_drop_id mset_append mset.simps(2)
      union_mset_add_mset_right)
  then have "mset moved = mset rows" using mset_remove_nth [OF ab(3)] by (simp add: rest_def)
  with lm hit inv ab show ?thesis unfolding m by simp
qed

end
