(* ===== verification/Settings_Server.thy ===== *)
theory Settings_Server
  imports Mock_Server Model_Mappings
begin

text \<open>
  The settings endpoints of the mock server (src/ui/src/features/settings/mocks.ts), which repeat
  the Go admin API's validation order, error texts and patch semantics: settings, thinking, model
  mappings, endpoint, proxy, prompt filter and the stats reset. A body is what the JSON decoder
  made of it (\<open>None\<close> when it failed); \<open>stringify\<close> is \<open>JSON.stringify\<close> of a string.
\<close>

definition MAX_AUTO_CONTINUE :: int where "MAX_AUTO_CONTINUE = 10"
definition MIN_PASSWORD_RUNES :: nat where "MIN_PASSWORD_RUNES = 8"
definition MAX_MAPPINGS :: nat where "MAX_MAPPINGS = 200"
definition MAX_MODEL_ID_BYTES :: nat where "MAX_MODEL_ID_BYTES = 256"

definition THINKING_FORMATS :: "string list" where
  "THINKING_FORMATS = [''reasoning_content'', ''thinking'', ''think'']"

definition PREFERRED_ENDPOINTS :: "string list" where
  "PREFERRED_ENDPOINTS = [''auto'', ''kiro'', ''codewhisperer'', ''amazonq'']"

definition PROXY_SCHEMES :: "string list" where
  "PROXY_SCHEMES = [''http://'', ''https://'', ''socks5://'', ''socks5h://'']"

text \<open>The outcome of \<open>saved()\<close>: a success and one \<open>settings_changed\<close>.\<close>

definition saved :: "mock_db \<Rightarrow> unit reply \<times> mock_db \<times> event list" where
  "saved db = (Inr (), db, [(Settings_changed, [])])"

definition invalidJson :: "mock_db \<Rightarrow> 'a reply \<times> mock_db \<times> event list" where
  "invalidJson db = refuse 400 ''Invalid JSON'' None db"

text \<open>An optional typed field: absent (or null), of the wrong type, or given.\<close>

datatype 'a field = Absent | Mistyped | Given 'a

definition optional :: "(string \<times> json) list \<Rightarrow> string \<Rightarrow> (json \<Rightarrow> 'a option) \<Rightarrow> 'a field" where
  "optional body key check = (case own body key of
      JUndef \<Rightarrow> Absent
    | JNull \<Rightarrow> Absent
    | v \<Rightarrow> (case check v of None \<Rightarrow> Mistyped | Some x \<Rightarrow> Given x))"

fun given :: "'a field \<Rightarrow> 'a option" where
  "given (Given x) = Some x"
| "given _ = None"

definition empty_patch :: settings_patch where
  "empty_patch =
     \<lparr>sp_requireApiKey = None, sp_password = None, sp_allowOverUsage = None,
      sp_lenientStreamIntegrity = None, sp_sessionAffinity = None, sp_autoContinue = None,
      sp_autoContinueMax = None, sp_structuredToolHistory = None\<rparr>"

definition readSettingsPatch :: "(string \<times> json) list \<Rightarrow> settings_patch option" where
  "readSettingsPatch body =
     (let bool = (\<lambda>k. optional body k as_bool);
          bools = map bool [''requireApiKey'', ''allowOverUsage'', ''lenientStreamIntegrity'',
            ''sessionAffinity'', ''autoContinue'', ''structuredToolHistory''];
          top = optional body ''autoContinueMax'' as_int;
          password = optional body ''password'' as_string
      in if Mistyped \<in> set bools \<or> top = Mistyped \<or> password = Mistyped then None
         else Some \<lparr>sp_requireApiKey = given (bool ''requireApiKey''), sp_password = given password,
           sp_allowOverUsage = given (bool ''allowOverUsage''),
           sp_lenientStreamIntegrity = given (bool ''lenientStreamIntegrity''),
           sp_sessionAffinity = given (bool ''sessionAffinity''),
           sp_autoContinue = given (bool ''autoContinue''), sp_autoContinueMax = given top,
           sp_structuredToolHistory = given (bool ''structuredToolHistory'')\<rparr>)"

definition read_object :: "json option \<Rightarrow> (string \<times> json) list option" where
  "read_object body = Option.bind body as_record"

text \<open>\<open>Object.assign(mockDb.settings, rest)\<close>.\<close>

definition keep_or :: "'a \<Rightarrow> 'a option \<Rightarrow> 'a" where
  "keep_or old new = (case new of None \<Rightarrow> old | Some v \<Rightarrow> v)"

definition assign_settings :: "settings_patch \<Rightarrow> settings \<Rightarrow> settings" where
  "assign_settings p s =
     s\<lparr>set_requireApiKey := keep_or (set_requireApiKey s) (sp_requireApiKey p),
       set_allowOverUsage := keep_or (set_allowOverUsage s) (sp_allowOverUsage p),
       set_lenientStreamIntegrity := keep_or (set_lenientStreamIntegrity s) (sp_lenientStreamIntegrity p),
       set_sessionAffinity := keep_or (set_sessionAffinity s) (sp_sessionAffinity p),
       set_autoContinue := keep_or (set_autoContinue s) (sp_autoContinue p),
       set_autoContinueMax := keep_or (set_autoContinueMax s) (sp_autoContinueMax p),
       set_structuredToolHistory := keep_or (set_structuredToolHistory s) (sp_structuredToolHistory p)\<rparr>"

definition given_text :: "string option \<Rightarrow> string option" where
  "given_text v = (case v of Some s \<Rightarrow> if s \<noteq> [] then Some s else None | None \<Rightarrow> None)"

definition post_settings ::
  "string \<Rightarrow> json option \<Rightarrow> mock_db \<Rightarrow> unit reply \<times> mock_db \<times> event list" where
  "post_settings token body = guarded token (\<lambda>db.
     (case Option.bind (read_object body) readSettingsPatch of
        None \<Rightarrow> invalidJson db
      | Some patch \<Rightarrow>
          if (case sp_autoContinueMax patch of None \<Rightarrow> False | Some n \<Rightarrow> n < 1 \<or> n > MAX_AUTO_CONTINUE) then
            refuse 400 ''autoContinueMax must be between 1 and 10'' None db
          else if (case given_text (sp_password patch) of None \<Rightarrow> False
                   | Some p \<Rightarrow> length p < MIN_PASSWORD_RUNES) then
            refuse 400 ''Password must be at least 8 characters'' None db
          else if sp_requireApiKey patch = Some True \<and> \<not> set_requireApiKey (db_settings db) \<and>
                  \<not> list_ex key_enabled (db_apiKeys db) then
            refuse 409 ''would lock out every client'' (Some ''api_key_lockout'') db
          else
            (let db' = (case given_text (sp_password patch) of
                   None \<Rightarrow> db
                 | Some p \<Rightarrow> claimMockPassword (Some p) db)
             in saved (db'\<lparr>db_settings := assign_settings patch (db_settings db')\<rparr>))))"

definition get_settings :: "string \<Rightarrow> mock_db \<Rightarrow> settings reply \<times> mock_db \<times> event list" where
  "get_settings token = guarded token (\<lambda>db. (Inr (db_settings db), db, []))"

subsection \<open>Thinking\<close>

definition or_default :: "string \<Rightarrow> string \<Rightarrow> string" where
  "or_default v d = (if v \<noteq> [] then v else d)"

definition get_thinking :: "string \<Rightarrow> mock_db \<Rightarrow> thinking_config reply \<times> mock_db \<times> event list" where
  "get_thinking token = guarded token (\<lambda>db.
     (let t = db_thinking db in
      (Inr \<lparr>th_suffix = or_default (th_suffix t) ''-thinking'',
            th_openaiFormat = or_default (th_openaiFormat t) ''reasoning_content'',
            th_claudeFormat = or_default (th_claudeFormat t) ''thinking''\<rparr>, db, [])))"

definition field_text :: "string field \<Rightarrow> string" where
  "field_text f = (case f of Given s \<Rightarrow> s | _ \<Rightarrow> [])"

definition bad_format :: "string field \<Rightarrow> bool" where
  "bad_format f \<longleftrightarrow> field_text f \<noteq> [] \<and> field_text f \<notin> set THINKING_FORMATS"

definition post_thinking ::
  "string \<Rightarrow> json option \<Rightarrow> mock_db \<Rightarrow> unit reply \<times> mock_db \<times> event list" where
  "post_thinking token body = guarded token (\<lambda>db.
     (case read_object body of
        None \<Rightarrow> invalidJson db
      | Some o' \<Rightarrow>
          (let suffix = optional o' ''suffix'' as_string;
               openai = optional o' ''openaiFormat'' as_string;
               claude = optional o' ''claudeFormat'' as_string
           in if suffix = Mistyped \<or> openai = Mistyped \<or> claude = Mistyped then invalidJson db
              else if bad_format openai then
                refuse 400 ''Invalid openaiFormat, must be: reasoning_content, thinking, or think'' None db
              else if bad_format claude then
                refuse 400 ''Invalid claudeFormat, must be: reasoning_content, thinking, or think'' None db
              else saved (db\<lparr>db_thinking :=
                \<lparr>th_suffix = field_text suffix, th_openaiFormat = field_text openai,
                 th_claudeFormat = field_text claude\<rparr>\<rparr>))))"

subsection \<open>Model mappings\<close>

definition utf8_length :: "string \<Rightarrow> nat" where
  "utf8_length s = sum_list (map (\<lambda>c. if code c < 128 then 1 else 2) s)"

definition is_control :: "char \<Rightarrow> bool" where
  "is_control c \<longleftrightarrow> code c < 32 \<or> (127 \<le> code c \<and> code c < 160)"

definition validateModelId :: "(string \<Rightarrow> string) \<Rightarrow> string \<Rightarrow> string option" where
  "validateModelId stringify i =
     (if utf8_length i > MAX_MODEL_ID_BYTES then
        Some (''model ID '' @ stringify (slice 0 32 i) @ ''... is longer than 256 bytes'')
      else if list_ex (\<lambda>c. is_space c \<or> is_control c) i then
        Some (''model ID '' @ stringify i @ '' contains whitespace or control characters'')
      else None)"

text \<open>One round of the first loop: the cleaned rule, or the error text.\<close>

definition clean_mapping ::
  "(string \<Rightarrow> string) \<Rightarrow> nat \<Rightarrow> model_mapping_rule list \<Rightarrow> model_mapping_rule \<Rightarrow> string + model_mapping_rule" where
  "clean_mapping stringify i cleaned m =
     (let key = toLowerCase (trim (rule_key m)); v = trim (rule_value m) in
      if key = [] \<and> v = [] then Inl (''model mapping '' @ string_of_nat (i + 1) @ '' is empty'')
      else if key = [] then Inl (''mapping to '' @ stringify v @ '' has no source model'')
      else if v = [] then Inl (''mapping '' @ stringify key @ '' has no target model'')
      else (case validateModelId stringify key of
          Some problem \<Rightarrow> Inl problem
        | None \<Rightarrow> (case validateModelId stringify v of
              Some problem \<Rightarrow> Inl problem
            | None \<Rightarrow>
                if key = toLowerCase v then Inl (''mapping '' @ stringify key @ '' points to itself'')
                else if list_ex (\<lambda>p. rule_key p = key) cleaned then
                  Inl (''source '' @ stringify key @ '' is mapped more than once'')
                else Inr \<lparr>rule_key = key, rule_value = v\<rparr>)))"

fun clean_mappings ::
  "(string \<Rightarrow> string) \<Rightarrow> nat \<Rightarrow> model_mapping_rule list \<Rightarrow> model_mapping_rule list \<Rightarrow>
   (string \<times> int) + model_mapping_rule list" where
  "clean_mappings stringify i cleaned [] = Inr cleaned"
| "clean_mappings stringify i cleaned (m # ms) = (case clean_mapping stringify i cleaned m of
      Inl problem \<Rightarrow> Inl (problem, int i)
    | Inr rule \<Rightarrow> clean_mappings stringify (i + 1) (cleaned @ [rule]) ms)"

definition is_source :: "model_mapping_rule list \<Rightarrow> string \<Rightarrow> bool" where
  "is_source cleaned v \<longleftrightarrow> list_ex (\<lambda>other. rule_key other = toLowerCase v) cleaned"

fun first_hop :: "model_mapping_rule list \<Rightarrow> nat \<Rightarrow> model_mapping_rule list \<Rightarrow> (nat \<times> string) option" where
  "first_hop cleaned i [] = None"
| "first_hop cleaned i (m # ms) =
     (if is_source cleaned (rule_value m) then Some (i, rule_value m) else first_hop cleaned (i + 1) ms)"

definition normalizeMappings ::
  "(string \<Rightarrow> string) \<Rightarrow> model_mapping_rule list \<Rightarrow> (string \<times> int) + model_mapping_rule list" where
  "normalizeMappings stringify input =
     (if length input > MAX_MAPPINGS then Inl (''at most 200 model mappings are allowed'', -1)
      else (case clean_mappings stringify 0 [] input of
          Inl e \<Rightarrow> Inl e
        | Inr cleaned \<Rightarrow> (case first_hop cleaned 0 cleaned of
              Some (i, v) \<Rightarrow> Inl (''target '' @ stringify v @
                '' is also a mapping source; mappings resolve in one hop'', int i)
            | None \<Rightarrow> Inr cleaned)))"

definition text_field :: "json \<Rightarrow> string option" where
  "text_field v = (case v of JUndef \<Rightarrow> Some [] | JNull \<Rightarrow> Some [] | JStr s \<Rightarrow> Some s | _ \<Rightarrow> None)"

fun read_items :: "json list \<Rightarrow> model_mapping_rule list option" where
  "read_items [] = Some []"
| "read_items (item # items) = (case as_record item of
      None \<Rightarrow> None
    | Some o' \<Rightarrow> (case (text_field (own o' ''key''), text_field (own o' ''value'')) of
          (Some k, Some v) \<Rightarrow>
            map_option (\<lambda>rs. \<lparr>rule_key = k, rule_value = v\<rparr> # rs) (read_items items)
        | _ \<Rightarrow> None))"

definition readMappings :: "(string \<times> json) list \<Rightarrow> model_mapping_rule list option" where
  "readMappings body = (case own body ''mappings'' of
      JUndef \<Rightarrow> Some []
    | JNull \<Rightarrow> Some []
    | JArr items \<Rightarrow> read_items items
    | _ \<Rightarrow> None)"

definition get_model_mappings ::
  "string \<Rightarrow> mock_db \<Rightarrow> (model_mapping_rule list \<times> model_mapping_rule list) reply \<times> mock_db \<times> event list" where
  "get_model_mappings token = guarded token (\<lambda>db. (Inr (db_modelMappings db, defaultModelMappings), db, []))"

definition post_model_mappings ::
  "(string \<Rightarrow> string) \<Rightarrow> string \<Rightarrow> json option \<Rightarrow> mock_db \<Rightarrow> unit reply \<times> mock_db \<times> event list" where
  "post_model_mappings stringify token body = guarded token (\<lambda>db.
     (case Option.bind (read_object body) readMappings of
        None \<Rightarrow> invalidJson db
      | Some input \<Rightarrow> (case normalizeMappings stringify input of
            Inl (problem, index) \<Rightarrow>
              (Inl \<lparr>fail_status = 400, fail_error = problem, fail_code = None, fail_index = Some index\<rparr>, db, [])
          | Inr rules \<Rightarrow> saved (db\<lparr>db_modelMappings := rules\<rparr>))))"

subsection \<open>Endpoint, proxy, prompt filter, stats\<close>

definition get_endpoint :: "string \<Rightarrow> mock_db \<Rightarrow> endpoint_config reply \<times> mock_db \<times> event list" where
  "get_endpoint token = guarded token (\<lambda>db. (Inr (db_endpoint db), db, []))"

definition post_endpoint :: "string \<Rightarrow> json option \<Rightarrow> mock_db \<Rightarrow> unit reply \<times> mock_db \<times> event list" where
  "post_endpoint token body = guarded token (\<lambda>db.
     (case read_object body of
        None \<Rightarrow> invalidJson db
      | Some o' \<Rightarrow>
          (let preferred = optional o' ''preferredEndpoint'' as_string;
               fallback = optional o' ''endpointFallback'' as_bool
           in if preferred = Mistyped \<or> fallback = Mistyped then invalidJson db
              else if field_text preferred = [] \<or> field_text preferred \<notin> set PREFERRED_ENDPOINTS then
                refuse 400 ''Invalid endpoint, must be: auto, kiro, codewhisperer, or amazonq'' None db
              else saved (db\<lparr>db_endpoint :=
                \<lparr>ep_preferredEndpoint = field_text preferred,
                 ep_endpointFallback = keep_or (ep_endpointFallback (db_endpoint db)) (given fallback)\<rparr>\<rparr>))))"

definition get_proxy :: "string \<Rightarrow> mock_db \<Rightarrow> proxy_config reply \<times> mock_db \<times> event list" where
  "get_proxy token = guarded token (\<lambda>db. (Inr (db_proxy db), db, []))"

definition post_proxy :: "string \<Rightarrow> json option \<Rightarrow> mock_db \<Rightarrow> unit reply \<times> mock_db \<times> event list" where
  "post_proxy token body = guarded token (\<lambda>db.
     (case read_object body of
        None \<Rightarrow> invalidJson db
      | Some o' \<Rightarrow>
          (let proxyURL = optional o' ''proxyURL'' as_string; url = trim (field_text proxyURL) in
           if proxyURL = Mistyped then invalidJson db
           else if url \<noteq> [] \<and> \<not> list_ex (startsWith url) PROXY_SCHEMES then
             refuse 400 ''proxyURL must start with http://, https://, socks5://, or socks5h://'' None db
           else saved (db\<lparr>db_proxy := \<lparr>px_proxyURL = url\<rparr>\<rparr>))))"

definition string_or_empty :: "json \<Rightarrow> string" where
  "string_or_empty v = (case as_string v of Some s \<Rightarrow> s | None \<Rightarrow> [])"

fun readRules :: "json list \<Rightarrow> prompt_filter_rule list option" where
  "readRules [] = Some []"
| "readRules (item # items) = (case as_record item of
      None \<Rightarrow> None
    | Some o' \<Rightarrow> map_option (\<lambda>rs.
        \<lparr>pf_id = string_or_empty (own o' ''id''), pf_name = string_or_empty (own o' ''name''),
         pf_type = string_or_empty (own o' ''type''), pf_match = string_or_empty (own o' ''match''),
         pf_replace = given_text (as_string (own o' ''replace'')),
         pf_enabled = (own o' ''enabled'' = JBool True)\<rparr> # rs) (readRules items))"

definition get_prompt_filter ::
  "string \<Rightarrow> mock_db \<Rightarrow> prompt_filter_config reply \<times> mock_db \<times> event list" where
  "get_prompt_filter token = guarded token (\<lambda>db. (Inr (db_promptFilter db), db, []))"

definition post_prompt_filter ::
  "string \<Rightarrow> json option \<Rightarrow> mock_db \<Rightarrow> unit reply \<times> mock_db \<times> event list" where
  "post_prompt_filter token body = guarded token (\<lambda>db.
     (case read_object body of
        None \<Rightarrow> invalidJson db
      | Some o' \<Rightarrow>
          (let old = db_promptFilter db;
               claude = optional o' ''filterClaudeCode'' as_bool;
               noise = optional o' ''filterEnvNoise'' as_bool;
               strip = optional o' ''filterStripBoundaries'' as_bool;
               rules = (case own o' ''rules'' of
                   JUndef \<Rightarrow> Given (pfc_rules old)
                 | JNull \<Rightarrow> Given (pfc_rules old)
                 | JArr items \<Rightarrow> (case readRules items of None \<Rightarrow> Mistyped | Some rs \<Rightarrow> Given rs)
                 | _ \<Rightarrow> Mistyped)
           in if claude = Mistyped \<or> noise = Mistyped \<or> strip = Mistyped \<or> rules = Mistyped then
                invalidJson db
              else saved (db\<lparr>db_promptFilter :=
                \<lparr>pfc_filterClaudeCode = keep_or (pfc_filterClaudeCode old) (given claude),
                 pfc_filterEnvNoise = keep_or (pfc_filterEnvNoise old) (given noise),
                 pfc_filterStripBoundaries = keep_or (pfc_filterStripBoundaries old) (given strip),
                 pfc_rules = keep_or [] (given rules)\<rparr>\<rparr>))))"

definition reset_stats :: "string \<Rightarrow> int \<Rightarrow> mock_db \<Rightarrow> unit reply \<times> mock_db \<times> event list" where
  "reset_stats token now = guarded token (\<lambda>db.
     (Inr (), db\<lparr>db_requests := [], db_errors := [], db_modelMix := [], db_startedAt := now\<rparr>, [(Stats_reset, [])]))"

subsection \<open>Lemmas\<close>

lemma saved_simps [simp]: "fst (saved db) = Inr ()" "snd (saved db) = (db, [(Settings_changed, [])])"
  by (simp_all add: saved_def)

lemma invalidJson_simps [simp]: "snd (invalidJson db) = (db, [])" "refusal_is_inert db (invalidJson db)"
  "refusal_is_inert db (saved db')"
  by (simp_all add: invalidJson_def refusal_is_inert_def)

text \<open>What a stored rule is: both sides there, in normal form, valid ids, not pointing to itself.\<close>

definition rule_ok :: "model_mapping_rule \<Rightarrow> bool" where
  "rule_ok m \<longleftrightarrow> rule_key m \<noteq> [] \<and> rule_value m \<noteq> [] \<and>
     toLowerCase (trim (rule_key m)) = rule_key m \<and> trim (rule_value m) = rule_value m \<and>
     validateModelId (\<lambda>s. s) (rule_key m) = None \<and> validateModelId (\<lambda>s. s) (rule_value m) = None \<and>
     rule_key m \<noteq> toLowerCase (rule_value m)"

lemma validateModelId_None: "validateModelId f i = None \<longleftrightarrow> validateModelId g i = None"
  by (simp add: validateModelId_def)

lemma clean_mapping_ok:
  assumes "clean_mapping f i cleaned m = Inr r"
  shows "rule_ok r \<and> rule_key r \<notin> rule_key ` set cleaned \<and>
    r = \<lparr>rule_key = toLowerCase (trim (rule_key m)), rule_value = trim (rule_value m)\<rparr>"
  using assms validateModelId_None [of f _ "\<lambda>s. s"]
  by (auto simp: clean_mapping_def rule_ok_def Let_def trim_toLowerCase list_ex_iff
      split: if_splits option.splits)

lemma clean_mapping_fixed:
  assumes "rule_ok m" "rule_key m \<notin> rule_key ` set cleaned"
  shows "clean_mapping f i cleaned m = Inr m"
proof -
  have "validateModelId f (rule_key m) = None" "validateModelId f (rule_value m) = None"
    using assms(1) validateModelId_None [of f _ "\<lambda>s. s"] by (simp_all add: rule_ok_def)
  with assms show ?thesis by (auto simp: clean_mapping_def rule_ok_def Let_def list_ex_iff image_iff)
qed

lemma clean_mappings_ok:
  "clean_mappings f i cleaned ms = Inr out \<Longrightarrow> distinct (map rule_key cleaned) \<Longrightarrow> list_all rule_ok cleaned \<Longrightarrow>
    distinct (map rule_key out) \<and> list_all rule_ok out \<and> length out = length cleaned + length ms"
proof (induction ms arbitrary: i cleaned)
  case (Cons m ms)
  then obtain r where r: "clean_mapping f i cleaned m = Inr r"
    and rest: "clean_mappings f (i + 1) (cleaned @ [r]) ms = Inr out" by (auto split: sum.splits)
  from clean_mapping_ok [OF r] Cons.prems have "distinct (map rule_key (cleaned @ [r]))" "list_all rule_ok (cleaned @ [r])"
    by auto
  with Cons.IH [OF rest] show ?case by simp
qed simp

lemma clean_mappings_fixed:
  "distinct (map rule_key (cleaned @ ms)) \<Longrightarrow> list_all rule_ok ms \<Longrightarrow>
    clean_mappings f i cleaned ms = Inr (cleaned @ ms)"
proof (induction ms arbitrary: i cleaned)
  case (Cons m ms)
  then have "clean_mapping f i cleaned m = Inr m" by (intro clean_mapping_fixed) auto
  with Cons show ?case by simp
qed simp

lemma clean_mappings_index:
  "clean_mappings f i cleaned ms = Inl (msg, n) \<Longrightarrow> int i \<le> n \<and> n < int (i + length ms)"
proof (induction ms arbitrary: i cleaned)
  case (Cons m ms)
  show ?case
  proof (cases "clean_mapping f i cleaned m")
    case (Inl a)
    with Cons.prems show ?thesis by simp
  next
    case (Inr r)
    with Cons.prems Cons.IH [of "i + 1" "cleaned @ [r]"] show ?thesis by simp
  qed
qed simp

lemma first_hop_None: "first_hop cleaned i ms = None \<longleftrightarrow> list_all (\<lambda>m. \<not> is_source cleaned (rule_value m)) ms"
  by (induction ms arbitrary: i) auto

lemma first_hop_index: "first_hop cleaned i ms = Some (n, v) \<Longrightarrow> i \<le> n \<and> n < i + length ms"
  by (induction ms arbitrary: i) (fastforce split: if_splits)+

definition mappings_ok :: "model_mapping_rule list \<Rightarrow> bool" where
  "mappings_ok rules \<longleftrightarrow> length rules \<le> 200 \<and> distinct (map rule_key rules) \<and> list_all rule_ok rules \<and>
     list_all (\<lambda>m. \<not> is_source rules (rule_value m)) rules"

lemma normalizeMappings_ok: "normalizeMappings f input = Inr rules \<Longrightarrow> mappings_ok rules \<and> length rules = length input"
  using clean_mappings_ok [of f 0 "[]" input rules]
  by (auto simp: normalizeMappings_def mappings_ok_def MAX_MAPPINGS_def first_hop_None
      split: if_splits sum.splits option.splits)

lemma normalizeMappings_fixed: "mappings_ok rules \<Longrightarrow> normalizeMappings f rules = Inr rules"
  using clean_mappings_fixed [of "[]" rules f 0] first_hop_None [of rules 0 rules]
  by (simp add: normalizeMappings_def mappings_ok_def MAX_MAPPINGS_def)

lemma normalizeMappings_index: "normalizeMappings f input = Inl (msg, n) \<Longrightarrow>
    (n = -1 \<and> length input > 200) \<or> (0 \<le> n \<and> n < int (length input))"
  using clean_mappings_index [of f 0 "[]" input] clean_mappings_ok [of f 0 "[]" input]
  by (auto simp: normalizeMappings_def MAX_MAPPINGS_def dest!: first_hop_index
      split: if_splits sum.splits option.splits)

text \<open>What every settings write keeps: values the GET endpoints may hand to any client.\<close>

definition thinking_ok :: "thinking_config \<Rightarrow> bool" where
  "thinking_ok t \<longleftrightarrow> th_openaiFormat t \<in> insert [] (set THINKING_FORMATS) \<and>
     th_claudeFormat t \<in> insert [] (set THINKING_FORMATS)"

definition proxy_ok :: "string \<Rightarrow> bool" where
  "proxy_ok url \<longleftrightarrow> trim url = url \<and> (url = [] \<or> list_ex (startsWith url) PROXY_SCHEMES)"

definition settings_ok :: "mock_db \<Rightarrow> bool" where
  "settings_ok db \<longleftrightarrow> set_autoContinueMax (db_settings db) \<in> {1..10} \<and> thinking_ok (db_thinking db) \<and>
     mappings_ok (db_modelMappings db) \<and> ep_preferredEndpoint (db_endpoint db) \<in> set PREFERRED_ENDPOINTS \<and>
     proxy_ok (px_proxyURL (db_proxy db))"

subsection \<open>Properties\<close>

text \<open>C13: The server stores only mapping lists that resolve in one hop: an accepted list has one rule per
  rule sent, distinct lower-case sources, both sides of every rule there and valid, no rule pointing
  to itself and no target that is a source; and sending the stored list back stores the same list.\<close>

theorem stored_mappings_one_hop:
  shows "case normalizeMappings stringify input of
      Inl _ \<Rightarrow> True
    | Inr rules \<Rightarrow> length rules = length input \<and> mappings_ok rules \<and>
        normalizeMappings stringify rules = Inr rules"
  using normalizeMappings_ok [of stringify input] normalizeMappings_fixed [of _ stringify]
  by (auto split: sum.split)

text \<open>A mapping error marks the row it is about: when the server refuses the list the editor sent, its
  index is either -1 (too many mappings, no row) or leads back to a local row that is not blank and
  whose trimmed text is the rule the server named.\<close>

theorem mapping_error_row:
  shows "case normalizeMappings stringify (fst (prepareMappings rows)) of
      Inr _ \<Rightarrow> True
    | Inl (_, index) \<Rightarrow>
        (case localRowForServerIndex (snd (prepareMappings rows)) (Some index) of
           None \<Rightarrow> index = -1 \<and> length rows > 200
         | Some r \<Rightarrow> r < length rows \<and> index \<ge> 0 \<and>
             fst (prepareMappings rows) ! nat index =
               \<lparr>rule_key = trim (row_key (rows ! r)), rule_value = trim (row_value (rows ! r))\<rparr> \<and>
             \<not> (trim (row_key (rows ! r)) = [] \<and> trim (row_value (rows ! r)) = []))"
proof (cases "normalizeMappings stringify (fst (prepareMappings rows))")
  case (Inl e)
  obtain msg n where e: "e = (msg, n)" by (cases e)
  let ?ps = "prepare_from 0 rows"
  have lens: "length (fst (prepareMappings rows)) = length ?ps" "length (snd (prepareMappings rows)) = length ?ps"
    by (simp_all add: prepareMappings_def)
  have le: "length ?ps \<le> length rows"
  proof -
    have "length (prepare_from k rows) \<le> length rows" for k
      by (induction rows arbitrary: k) (auto simp: Let_def le_SucI)
    then show ?thesis .
  qed
  consider "n = -1" "length ?ps > 200" | "0 \<le> n" "nat n < length ?ps"
    using normalizeMappings_index [OF Inl [unfolded e]] lens by fastforce
  then show ?thesis
  proof cases
    case 1
    then show ?thesis using Inl e le by (simp add: localRowForServerIndex_def)
  next
    case 2
    let ?m = "fst (?ps ! nat n)" and ?r = "snd (?ps ! nat n)"
    have "(?m, ?r) \<in> set ?ps" using 2 by simp
    from prepare_from_rows [OF this] have r: "?r < length rows" "rule_key ?m = trim (row_key (rows ! ?r))"
      "rule_value ?m = trim (row_value (rows ! ?r))" "rule_key ?m \<noteq> [] \<or> rule_value ?m \<noteq> []" by auto
    then have "?m = \<lparr>rule_key = trim (row_key (rows ! ?r)), rule_value = trim (row_value (rows ! ?r))\<rparr>" by simp
    with r 2 Inl e lens show ?thesis
      by (auto simp: localRowForServerIndex_def prepareMappings_def)
  qed
qed simp

text \<open>A refused settings request is inert: bad JSON, a value out of range, a short password, a lockout,
  an unknown format or endpoint, a mapping list with an error or a proxy of another scheme leaves the
  whole store as it was and publishes nothing.\<close>

theorem settings_refusals_inert:
  shows "refusal_is_inert db (post_settings token body db) \<and>
    refusal_is_inert db (post_thinking token body db) \<and>
    refusal_is_inert db (post_model_mappings stringify token body db) \<and>
    refusal_is_inert db (post_endpoint token body db) \<and>
    refusal_is_inert db (post_proxy token body db) \<and>
    refusal_is_inert db (post_prompt_filter token body db)"
proof (intro conjI)
  show "refusal_is_inert db (post_settings token body db)"
    unfolding post_settings_def Let_def by (rule inert_guarded) (simp split: option.split)
  show "refusal_is_inert db (post_thinking token body db)"
    unfolding post_thinking_def Let_def by (rule inert_guarded) (simp split: option.split)
  show "refusal_is_inert db (post_model_mappings stringify token body db)"
    unfolding post_model_mappings_def
    by (rule inert_guarded) (simp split: option.split sum.split prod.split)
  show "refusal_is_inert db (post_endpoint token body db)"
    unfolding post_endpoint_def Let_def by (rule inert_guarded) (simp split: option.split)
  show "refusal_is_inert db (post_proxy token body db)"
    unfolding post_proxy_def Let_def by (rule inert_guarded) (simp split: option.split)
  show "refusal_is_inert db (post_prompt_filter token body db)"
    unfolding post_prompt_filter_def Let_def by (rule inert_guarded) (simp split: option.split)
qed

lemma read_format:
  "f = [] \<or> f \<in> set THINKING_FORMATS \<Longrightarrow> or_default f ''reasoning_content'' \<in> set THINKING_FORMATS"
  "f = [] \<or> f \<in> set THINKING_FORMATS \<Longrightarrow> or_default f ''thinking'' \<in> set THINKING_FORMATS"
proof -
  have "''reasoning_content'' \<in> set THINKING_FORMATS" "''thinking'' \<in> set THINKING_FORMATS" by code_simp+
  then show "f = [] \<or> f \<in> set THINKING_FORMATS \<Longrightarrow> or_default f ''reasoning_content'' \<in> set THINKING_FORMATS"
    "f = [] \<or> f \<in> set THINKING_FORMATS \<Longrightarrow> or_default f ''thinking'' \<in> set THINKING_FORMATS"
    by (auto simp: or_default_def)
qed

text \<open>C14: The stored settings stay legal whatever is posted: the auto-continue limit is between 1 and 10, the
  endpoint is a known one, the proxy URL is empty or of an accepted scheme, and the mapping list is one
  the server would accept again. A thinking format is stored as a known one or, when it was omitted,
  empty; what the thinking settings read back is a known format always, an empty one as its default.\<close>

theorem settings_stay_legal:
  assumes "settings_ok db"
  shows "settings_ok (fst (snd (post_settings token body db))) \<and>
    settings_ok (fst (snd (post_thinking token body db))) \<and>
    settings_ok (fst (snd (post_model_mappings stringify token body db))) \<and>
    settings_ok (fst (snd (post_endpoint token body db))) \<and>
    settings_ok (fst (snd (post_proxy token body db))) \<and>
    settings_ok (fst (snd (post_prompt_filter token body db))) \<and>
    (case fst (get_thinking token db) of Inl e \<Rightarrow> requireAuth token \<noteq> None
     | Inr t \<Rightarrow> th_openaiFormat t \<in> set THINKING_FORMATS \<and> th_claudeFormat t \<in> set THINKING_FORMATS)"
proof (intro conjI)
  note inv = guarded_invariant [where I = settings_ok, OF assms]
  have patch: "settings_ok (db'\<lparr>db_settings := assign_settings p (db_settings db')\<rparr>)"
    if "settings_ok db'" "case sp_autoContinueMax p of None \<Rightarrow> True | Some n \<Rightarrow> 1 \<le> n \<and> n \<le> 10" for db' p
    using that by (auto simp: settings_ok_def assign_settings_def keep_or_def split: option.splits)
  have claim: "settings_ok (claimMockPassword p db)" for p
    using assms by (simp add: settings_ok_def claimMockPassword_def)
  show "settings_ok (fst (snd (post_settings token body db)))"
    unfolding post_settings_def Let_def
    by (rule inv) (auto simp: assms MAX_AUTO_CONTINUE_def split: option.split intro!: patch claim)
  show "settings_ok (fst (snd (post_thinking token body db)))"
    unfolding post_thinking_def Let_def
    by (rule inv) (use assms in \<open>auto simp: settings_ok_def thinking_ok_def bad_format_def split: option.split\<close>)
  show "settings_ok (fst (snd (post_model_mappings stringify token body db)))"
    unfolding post_model_mappings_def
    by (rule inv) (use assms in \<open>auto simp: settings_ok_def dest: normalizeMappings_ok
      split: option.split sum.split prod.split\<close>)
  show "settings_ok (fst (snd (post_endpoint token body db)))"
    unfolding post_endpoint_def Let_def
    by (rule inv) (use assms in \<open>auto simp: settings_ok_def split: option.split\<close>)
  show "settings_ok (fst (snd (post_proxy token body db)))"
    unfolding post_proxy_def Let_def
    by (rule inv) (use assms in \<open>auto simp: settings_ok_def proxy_ok_def split: option.split\<close>)
  show "settings_ok (fst (snd (post_prompt_filter token body db)))"
    unfolding post_prompt_filter_def Let_def
    by (rule inv) (use assms in \<open>auto simp: settings_ok_def split: option.split\<close>)
  show "case fst (get_thinking token db) of Inl e \<Rightarrow> requireAuth token \<noteq> None
     | Inr t \<Rightarrow> th_openaiFormat t \<in> set THINKING_FORMATS \<and> th_claudeFormat t \<in> set THINKING_FORMATS"
    using assms read_format by (cases "requireAuth token") (simp_all add: get_thinking_def guarded_def settings_ok_def thinking_ok_def requireAuth_def Let_def split: if_splits)
qed

theorem settings_stay_legal_witness:
  "settings_ok (fst (snd (post_thinking ''mock-1'' (Some (JObj [])) sample_db)))"
  by (rule settings_stay_legal [THEN conjunct2, THEN conjunct1])
    (simp add: settings_ok_def seedEmptyDb_def defaultSettings_def defaultThinking_def thinking_ok_def
      THINKING_FORMATS_def mappings_ok_def defaultEndpoint_def PREFERRED_ENDPOINTS_def proxy_ok_def)

end
