(* ===== verification/Mock_Random.thy ===== *)
theory Mock_Random
  imports Account_Model "HOL-Library.Word"
begin

text \<open>
  The seeded generator of the mock server and what is drawn from it (src/ui/src/lib/mocks/fixtures.ts):
  mulberry32, ranges, picks, hexadecimal and base64-like texts, UUIDs and the FNV-1a seed of a text.
  The generator's closure is its state, a 32-bit word: \<open>Math.imul\<close>, \<open>+\<close> before \<open>^\<close> or \<open>>>> 0\<close>, and
  the shifts are arithmetic modulo \<open>2^32\<close>. A draw is an exact rational in [0, 1); a range wider than
  \<open>2^21\<close> is rounded by JavaScript's doubles before the floor, which is outside the model.
\<close>

unbundle bit_operations_syntax

type_synonym rng = "32 word"

definition createRng :: "int \<Rightarrow> rng" where
  "createRng seed = word_of_int seed"

definition mulberry_out :: "32 word \<Rightarrow> 32 word" where
  "mulberry_out state =
     (let t = (state XOR drop_bit 15 state) * (state OR 1);
          t = t XOR (t + (t XOR drop_bit 7 t) * (t OR 61))
      in t XOR drop_bit 14 t)"

definition draw_word :: "rng \<Rightarrow> 32 word \<times> rng" where
  "draw_word rng = (let state = rng + 0x6d2b79f5 in (mulberry_out state, state))"

definition draw :: "rng \<Rightarrow> rat \<times> rng" where
  "draw rng = (let (w, rng) = draw_word rng in (of_nat (unat w) / 4294967296, rng))"

definition rng_int :: "rng \<Rightarrow> int \<Rightarrow> int \<Rightarrow> int \<times> rng" where
  "rng_int rng lo hi = (let (u, rng) = draw rng in (lo + \<lfloor>u * of_int (hi - lo + 1)\<rfloor>, rng))"

definition pick :: "rng \<Rightarrow> 'a list \<Rightarrow> 'a option \<times> rng" where
  "pick rng items =
     (let (u, rng) = draw rng; i = nat \<lfloor>u * of_nat (length items)\<rfloor>
      in (if i < length items then Some (items ! i) else None, rng))"

text \<open>The loop of \<open>weighted\<close>: the item whose weight takes the roll below zero, else the last one.\<close>

fun weighted_loop :: "rat \<Rightarrow> ('a \<times> rat) list \<Rightarrow> 'a option" where
  "weighted_loop roll [] = None"
| "weighted_loop roll ((item, weight) # rest) =
     (if roll - weight < 0 then Some item
      else if rest = [] then Some item
      else weighted_loop (roll - weight) rest)"

definition weighted :: "rng \<Rightarrow> ('a \<times> rat) list \<Rightarrow> 'a option \<times> rng" where
  "weighted rng items =
     (let (u, rng) = draw rng in (weighted_loop (u * sum_list (map snd items)) items, rng))"

definition HEX_DIGITS :: string where "HEX_DIGITS = ''0123456789abcdef''"

definition BASE64_ALPHABET :: string where
  "BASE64_ALPHABET = ''ABCDEFGHIJKLMNOPQRSTUVWXYZabcdefghijklmnopqrstuvwxyz0123456789-_''"

text \<open>A character per round: \<open>alphabet[Math.floor(rng() * alphabet.length)]\<close>.\<close>

fun draw_text :: "string \<Rightarrow> rng \<Rightarrow> nat \<Rightarrow> string \<times> rng" where
  "draw_text alphabet rng 0 = ([], rng)"
| "draw_text alphabet rng (Suc n) =
     (let (u, rng) = draw rng; (rest, rng) = draw_text alphabet rng n
      in (alphabet ! nat \<lfloor>u * of_nat (length alphabet)\<rfloor> # rest, rng))"

definition hex :: "rng \<Rightarrow> nat \<Rightarrow> string \<times> rng" where
  "hex rng n = draw_text HEX_DIGITS rng n"

definition base64ish :: "rng \<Rightarrow> nat \<Rightarrow> string \<times> rng" where
  "base64ish rng n = draw_text BASE64_ALPHABET rng n"

definition hex_number :: "char \<Rightarrow> nat" where
  "hex_number c = length (takeWhile (\<lambda>d. d \<noteq> c) HEX_DIGITS)"

definition uuid :: "rng \<Rightarrow> string \<times> rng" where
  "uuid rng =
     (let (h, rng) = hex rng 32;
          h = h[12 := CHR ''4''];
          h = h[16 := HEX_DIGITS ! ((hex_number (h ! 16) AND 3) OR 8)]
      in (take 8 h @ ''-'' @ take 4 (drop 8 h) @ ''-'' @ take 4 (drop 12 h) @ ''-'' @ take 4 (drop 16 h) @ ''-'' @ drop 20 h,
          rng))"

definition hashSeed :: "string \<Rightarrow> int" where
  "hashSeed text = uint (foldl (\<lambda>h c. (h XOR word_of_nat (code c)) * 0x01000193) (0x811c9dc5 :: 32 word) text)"

subsection \<open>Lemmas\<close>

lemma unat_word32: "unat (w :: 32 word) < 4294967296"
proof -
  have "unat w < 2 ^ LENGTH(32)" by (rule unsigned_less)
  then show ?thesis by simp
qed

lemma draw_bounds: "0 \<le> fst (draw rng) \<and> fst (draw rng) < 1"
proof -
  have "rat_of_nat (unat w) < rat_of_nat 4294967296" for w :: "32 word"
    unfolding of_nat_less_iff by (rule unat_word32)
  moreover have "0 \<le> rat_of_nat (unat w)" for w :: "32 word" by (rule of_nat_0_le_iff)
  ultimately show ?thesis by (simp add: draw_def draw_word_def Let_def)
qed

lemma floor_index: "0 \<le> u \<Longrightarrow> u < 1 \<Longrightarrow> 0 < n \<Longrightarrow> nat \<lfloor>u * of_nat n\<rfloor> < n" for u :: rat
proof -
  assume u: "0 \<le> u" "u < 1" "0 < n"
  have "u * of_nat n < 1 * of_nat n" using u by (intro mult_strict_right_mono) simp_all
  then have "\<lfloor>u * of_nat n\<rfloor> < int n" by (simp add: floor_less_iff)
  moreover have "0 \<le> \<lfloor>u * of_nat n\<rfloor>" using u by simp
  ultimately show ?thesis by linarith
qed

lemma draw_index: "0 < n \<Longrightarrow> nat \<lfloor>fst (draw rng) * of_nat n\<rfloor> < n"
  using draw_bounds floor_index by blast

lemma draw_text_spec:
  "length (fst (draw_text alphabet rng n)) = n \<and>
   (alphabet \<noteq> [] \<longrightarrow> set (fst (draw_text alphabet rng n)) \<subseteq> set alphabet)"
proof (induction n arbitrary: rng)
  case 0
  then show ?case by simp
next
  case (Suc n)
  have "alphabet ! nat \<lfloor>fst (draw rng) * of_nat (length alphabet)\<rfloor> \<in> set alphabet" if "alphabet \<noteq> []"
    using draw_index [of "length alphabet" rng] that by simp
  with Suc [of "snd (draw rng)"] show ?case by (auto simp: split_beta Let_def)
qed

lemma hex_spec: "length (fst (hex rng n)) = n" "set (fst (hex rng n)) \<subseteq> set HEX_DIGITS"
  using draw_text_spec [of HEX_DIGITS rng n] by (simp_all add: hex_def HEX_DIGITS_def)

text \<open>The generator's state is a counter with an odd step: after \<open>n\<close> draws it is the seed plus \<open>n\<close>
  steps, and it comes back only after all \<open>2^32\<close> states.\<close>

fun draws :: "nat \<Rightarrow> rng \<Rightarrow> rng" where
  "draws 0 rng = rng"
| "draws (Suc n) rng = draws n (snd (draw rng))"

lemma draws_state: "draws n rng = rng + of_nat n * 0x6d2b79f5"
  by (induction n arbitrary: rng) (simp_all add: draw_def draw_word_def Let_def algebra_simps)

lemma step_inverse: "(k :: 32 word) * 0x6d2b79f5 * 0xdc58aa5d = k"
proof -
  have "(0x6d2b79f5 :: 32 word) * 0xdc58aa5d = 1" by simp
  then show ?thesis unfolding mult.assoc by (simp only: mult_1_right)
qed

lemma hex_digits_are_hex: "c \<in> set HEX_DIGITS \<Longrightarrow> is_hex c"
  by (auto simp: HEX_DIGITS_def is_hex_def is_digit_def code_def)

lemma variant_digit: "(k AND 3) OR 8 \<in> {8, 9, 10, 11 :: nat}"
proof -
  have "k AND 3 = take_bit 2 k" by (simp add: take_bit_eq_mask mask_eq_exp_minus_1)
  then have "k AND 3 = k mod 4" by (simp add: take_bit_eq_mod)
  then have "k AND 3 < 4" by simp
  then consider "k AND 3 = 0" | "k AND 3 = 1" | "k AND 3 = 2" | "k AND 3 = 3" by linarith
  then show ?thesis by cases simp_all
qed

lemma list_all_index: "list_all (\<lambda>(i, c). P i c) (zip [0..<length s] s) \<longleftrightarrow> (\<forall>i<length s. P i (s ! i))"
  by (simp add: list_all_length)

text \<open>The text a UUID is cut from: 32 hexadecimal digits with the version and the variant put in.\<close>

lemma uuid_shape:
  fixes h :: string
  assumes "length h = 32"
  defines "s \<equiv> take 8 h @ ''-'' @ take 4 (drop 8 h) @ ''-'' @ take 4 (drop 12 h) @ ''-'' @ take 4 (drop 16 h) @ ''-'' @ drop 20 h"
  shows "length s = 36" and "s ! 14 = h ! 12" and "s ! 19 = h ! 16"
    and "i < 36 \<Longrightarrow> s ! i = CHR ''-'' \<and> i \<in> {8, 13, 18, 23} \<or> s ! i \<in> set h \<and> i \<notin> {8, 13, 18, 23}"
proof -
  show len: "length s = 36" using assms by simp
  have parts: "s = take 8 h @ CHR ''-'' # take 4 (drop 8 h) @ CHR ''-'' # take 4 (drop 12 h) @ CHR ''-'' #
      take 4 (drop 16 h) @ CHR ''-'' # drop 20 h" by (simp add: s_def)
  show "s ! 14 = h ! 12" "s ! 19 = h ! 16" using assms(1) by (simp_all add: parts nth_append nth_Cons')
  assume "i < 36"
  then show "s ! i = CHR ''-'' \<and> i \<in> {8, 13, 18, 23} \<or> s ! i \<in> set h \<and> i \<notin> {8, 13, 18, 23}"
    using assms(1) by (auto simp: parts nth_append nth_Cons')
qed

lemma weighted_loop_positive:
  assumes "0 \<le> roll" "roll < sum_list (map snd items)" "list_all (\<lambda>(_, w). 0 \<le> w) items"
  shows "\<exists>item w. weighted_loop roll items = Some item \<and> (item, w) \<in> set items \<and> 0 < w"
  using assms
proof (induction items arbitrary: roll)
  case Nil
  then show ?case by simp
next
  case (Cons p items)
  obtain x w where p: "p = (x, w)" by (cases p)
  show ?case
  proof (cases "roll - w < 0")
    case True
    with Cons.prems(1) p show ?thesis by (intro exI [of _ x] exI [of _ w]) simp
  next
    case False
    then have "items \<noteq> []" using Cons.prems(2) p by auto
    moreover have "\<exists>item v. weighted_loop (roll - w) items = Some item \<and> (item, v) \<in> set items \<and> 0 < v"
      using Cons.prems False p by (intro Cons.IH) simp_all
    ultimately show ?thesis using False p by auto
  qed
qed

subsection \<open>Properties\<close>

text \<open>C31: Every UUID the mock draws, from whatever state, has the form of a random UUID (36 characters,
  dashes in place, version 4, one of the four variants) and so passes the account form's check of a
  machine id.\<close>

theorem drawn_uuid_valid:
  shows "is_uuid (fst (uuid rng)) \<and> isValidMachineId (fst (uuid rng)) \<and>
    fst (uuid rng) ! 14 = CHR ''4'' \<and> fst (uuid rng) ! 19 \<in> set ''89ab''"
proof -
  define h where "h = (fst (hex rng 32))[12 := CHR ''4'']"
  define d where "d = HEX_DIGITS ! ((hex_number (h ! 16) AND 3) OR 8)"
  define g where "g = h[16 := d]"
  have len: "length h = 32" "length g = 32" by (simp_all add: g_def h_def hex_spec)
  have u: "fst (uuid rng) = take 8 g @ ''-'' @ take 4 (drop 8 g) @ ''-'' @ take 4 (drop 12 g) @ ''-'' @
      take 4 (drop 16 g) @ ''-'' @ drop 20 g"
    by (simp only: uuid_def Let_def split_beta fst_conv g_def h_def d_def)
  note shape = uuid_shape [OF len(2), folded u]
  have d: "d \<in> set ''89ab''" using variant_digit [of "hex_number (h ! 16)"] by (auto simp: d_def HEX_DIGITS_def)
  then have "d \<in> set HEX_DIGITS" by (auto simp: HEX_DIGITS_def)
  moreover have "CHR ''4'' \<in> set HEX_DIGITS" by (simp add: HEX_DIGITS_def)
  ultimately have "set g \<subseteq> set HEX_DIGITS"
    unfolding g_def h_def by (intro set_update_subsetI hex_spec)
  then have chars: "if i \<in> {8, 13, 18, 23} then fst (uuid rng) ! i = CHR ''-'' else is_hex (fst (uuid rng) ! i)"
    if "i < 36" for i
    using shape(4) [OF that] hex_digits_are_hex by (cases "i \<in> {8, 13, 18, 23}") auto
  have valid: "is_uuid (fst (uuid rng))"
    unfolding is_uuid_def shape(1) [symmetric] list_all_index using chars shape(1) by simp
  have "trim (fst (uuid rng)) = fst (uuid rng)"
  proof (rule trim_fix, rule disjI2)
    have "hd (fst (uuid rng)) = fst (uuid rng) ! 0" "last (fst (uuid rng)) = fst (uuid rng) ! 35"
      using shape(1) by (simp_all add: hd_conv_nth last_conv_nth flip: length_greater_0_conv)
    moreover have "is_hex (fst (uuid rng) ! 0)" "is_hex (fst (uuid rng) ! 35)"
      using chars [of 0] chars [of 35] by simp_all
    ultimately show "\<not> is_space (hd (fst (uuid rng))) \<and> \<not> is_space (last (fst (uuid rng)))"
      by (auto simp: is_hex_def is_digit_def is_space_def)
  qed
  with valid have "isValidMachineId (fst (uuid rng))" by (simp add: isValidMachineId_def)
  moreover have "fst (uuid rng) ! 14 = CHR ''4''" "fst (uuid rng) ! 19 = d"
    using shape(2,3) len by (simp_all add: g_def h_def hex_spec)
  ultimately show ?thesis using valid d by simp
qed

text \<open>The generator does not fall into a short cycle: two numbers of draws lead to the same state
  exactly when they differ by a multiple of \<open>2^32\<close>, whatever the seed.\<close>

theorem generator_full_period:
  shows "draws m rng = draws n rng \<longleftrightarrow> m mod 2 ^ 32 = n mod 2 ^ 32"
proof -
  have "draws m rng = draws n rng \<longleftrightarrow> (of_nat m :: 32 word) * 0x6d2b79f5 = of_nat n * 0x6d2b79f5"
    by (simp add: draws_state)
  also have "\<dots> \<longleftrightarrow> (of_nat m :: 32 word) = of_nat n" using step_inverse by metis
  also have "\<dots> \<longleftrightarrow> m mod 2 ^ LENGTH(32) = n mod 2 ^ LENGTH(32)"
    by (simp only: word_of_nat_eq_iff take_bit_eq_mod)
  finally show ?thesis by simp
qed

text \<open>Draws stay in range: a whole number drawn between two bounds lies between them, a pick from a
  list that is not empty is one of its items, and a weighted choice never returns an item of no weight.\<close>

theorem draws_in_range:
  assumes "lo \<le> hi" and "items \<noteq> []"
    and "list_all (\<lambda>(_, w). 0 \<le> w) weights" and "0 < sum_list (map snd weights)"
  shows "lo \<le> fst (rng_int rng lo hi) \<and> fst (rng_int rng lo hi) \<le> hi \<and>
    (\<exists>x\<in>set items. fst (pick rng items) = Some x) \<and>
    (\<exists>item w. fst (weighted rng weights) = Some item \<and> (item, w) \<in> set weights \<and> 0 < w)"
proof -
  let ?u = "fst (draw rng)"
  have "nat \<lfloor>?u * of_nat (nat (hi - lo + 1))\<rfloor> < nat (hi - lo + 1)" using assms(1) by (intro draw_index) simp
  moreover have "rat_of_nat (nat (hi - lo + 1)) = of_int (hi - lo + 1)" using assms(1) by simp
  ultimately have "nat \<lfloor>?u * of_int (hi - lo + 1)\<rfloor> < nat (hi - lo + 1)" by simp
  moreover have "0 \<le> \<lfloor>?u * of_int (hi - lo + 1)\<rfloor>" using draw_bounds [of rng] assms(1) by simp
  ultimately have "lo \<le> fst (rng_int rng lo hi) \<and> fst (rng_int rng lo hi) \<le> hi"
    by (simp add: rng_int_def split_beta Let_def)
  moreover have "\<exists>x\<in>set items. fst (pick rng items) = Some x"
    using draw_index [of "length items" rng] assms(2) by (simp add: pick_def split_beta Let_def)
  moreover have "\<exists>item w. weighted_loop (?u * sum_list (map snd weights)) weights = Some item \<and>
      (item, w) \<in> set weights \<and> 0 < w"
    using draw_bounds [of rng] assms(3,4) by (intro weighted_loop_positive) (simp_all add: mult_less_cancel_right1)
  ultimately show ?thesis by (simp add: weighted_def split_beta)
qed

theorem draws_in_range_witness:
  "38000 \<le> fst (rng_int (createRng 3003) 38000 62000) \<and> fst (rng_int (createRng 3003) 38000 62000) \<le> 62000 \<and>
   (\<exists>x\<in>set [''a'', ''b'']. fst (pick (createRng 1) [''a'', ''b'']) = Some x)"
  using draws_in_range [of 38000 62000 "[''a'', ''b'']" "[(''a'', 1)]" "createRng 3003"]
    draws_in_range [of 38000 62000 "[''a'', ''b'']" "[(''a'', 1)]" "createRng 1"] by simp

end
