(* ===== verification/Mock_Core.thy ===== *)
theory Mock_Core
  imports Mock_Server
begin

text \<open>
  The core handlers of the mock server (src/ui/src/lib/mocks/core-handlers.ts): signing in with its
  attempt limiter, tickets, first run, version, and the change counter behind the event stream
  (\<open>advanceObserveSeq\<close> and the stream's tick), with the account availability of fixtures.ts. Times of
  the limiter are milliseconds; the generated token is an argument.
\<close>

definition SESSION_TTL_MS :: "bool \<Rightarrow> int" where
  "SESSION_TTL_MS mocked = (if mocked then 30 * 24 else 12) * 3600 * 1000"

definition TICKET_TTL_MS :: int where "TICKET_TTL_MS = 30 * 1000"

definition LOGIN_FAILURE_LIMIT :: int where "LOGIN_FAILURE_LIMIT = 5"

definition LOGIN_LOCK_MS :: int where "LOGIN_LOCK_MS = 60 * 1000"

definition retryAfterSeconds :: "int \<Rightarrow> mock_db \<Rightarrow> int" where
  "retryAfterSeconds nowMs db = max 1 (js_ceil_div (db_lockedSince db + LOGIN_LOCK_MS - nowMs) 1000)"

text \<open>The password of the request: the body's, when it is a non-empty string, else the header's.\<close>

definition body_password :: "json option \<Rightarrow> string option \<Rightarrow> string" where
  "body_password body header =
     (let fromBody = (case body of
            Some (JObj fs) \<Rightarrow> (case as_string (own fs ''password'') of None \<Rightarrow> [] | Some p \<Rightarrow> p)
          | _ \<Rightarrow> [])
      in if fromBody \<noteq> [] then fromBody else (case header of None \<Rightarrow> [] | Some h \<Rightarrow> h))"

text \<open>\<open>POST /session\<close>. The second part of a failure is its \<open>Retry-After\<close> header.\<close>

definition post_session ::
  "bool \<Rightarrow> string \<Rightarrow> int \<Rightarrow> json option \<Rightarrow> string option \<Rightarrow> mock_db \<Rightarrow>
     (api_failure \<times> int option + session_create_response) \<times> mock_db" where
  "post_session mocked token nowMs body header db =
     (if db_failedLogins db \<ge> LOGIN_FAILURE_LIMIT \<and> nowMs - db_lockedSince db < LOGIN_LOCK_MS then
        (Inl (jsonError 429 ''Too many admin password attempts; try again later'' None,
              Some (retryAfterSeconds nowMs db)), db)
      else
        (let db = (if db_failedLogins db \<ge> LOGIN_FAILURE_LIMIT then db\<lparr>db_failedLogins := 0\<rparr> else db);
             password = body_password body header
         in if password = [] \<or> password \<noteq> db_adminPassword db then
              (Inl (jsonError 401 ''Unauthorized'' None, None),
               db\<lparr>db_failedLogins := db_failedLogins db + 1,
                  db_lockedSince := (if db_failedLogins db + 1 \<ge> LOGIN_FAILURE_LIMIT then nowMs
                                     else db_lockedSince db)\<rparr>)
            else
              (Inr \<lparr>scr_token = ''mock-'' @ token, scr_expiresAt = nowMs + SESSION_TTL_MS mocked\<rparr>,
               claimMockPassword None (db\<lparr>db_failedLogins := 0\<rparr>))))"

definition delete_session :: "string \<Rightarrow> mock_db \<Rightarrow> unit reply \<times> mock_db \<times> event list" where
  "delete_session token = guarded token (\<lambda>db. (Inr (), db, []))"

definition post_ticket ::
  "string \<Rightarrow> string \<Rightarrow> int \<Rightarrow> mock_db \<Rightarrow> (string \<times> int) reply \<times> mock_db \<times> event list" where
  "post_ticket token drawn nowMs =
     guarded token (\<lambda>db. (Inr (''mock-ticket-'' @ drawn, nowMs + TICKET_TTL_MS), db, []))"

definition get_first_run :: "mock_db \<Rightarrow> string" where
  "get_first_run db = (if db_firstRunPending db then db_adminPassword db else [])"

definition get_version :: "string \<Rightarrow> mock_db \<Rightarrow> string reply \<times> mock_db \<times> event list" where
  "get_version token = guarded token (\<lambda>db. (Inr (''v'' @ db_version db), db, []))"

definition get_remote_version :: "mock_db \<Rightarrow> remote_version_json" where
  "get_remote_version db =
     \<lparr>rv_version = fst (db_remoteVersion db), rv_changelog = Some (snd (db_remoteVersion db)),
      rv_download = Some ''https://github.com/tanu360/kiro-reverse-api''\<rparr>"

subsection \<open>The change counter\<close>

definition OBSERVE_MINUTE_SLOTS :: int where "OBSERVE_MINUTE_SLOTS = 1440"

definition TRAFFIC_EVERY_TICKS :: nat where "TRAFFIC_EVERY_TICKS = 20"

definition mock_isBanned :: "account \<Rightarrow> bool" where
  "mock_isBanned a \<longleftrightarrow> acc_banStatus a \<noteq> [] \<and> acc_banStatus a \<noteq> ''ACTIVE''"

definition isExhausted :: "account \<Rightarrow> bool" where
  "isExhausted a \<longleftrightarrow> acc_usageLimit a > 0 \<and> acc_usageCurrent a \<ge> acc_usageLimit a"

definition can_serve :: "bool \<Rightarrow> account \<Rightarrow> bool" where
  "can_serve allowOverUsage a \<longleftrightarrow>
     \<not> (acc_silent a \<or> mock_isBanned a) \<and>
     \<not> (isExhausted a \<and> \<not> allowOverUsage \<and> toUpperCase (acc_overageStatus a) \<noteq> ''ENABLED'')"

fun buildAvailability :: "account list \<Rightarrow> bool \<Rightarrow> int \<times> int" where
  "buildAvailability [] allow = (0, 0)"
| "buildAvailability (a # rest) allow =
     (let (enabled, available) = buildAvailability rest allow
      in if \<not> acc_enabled a then (enabled, available)
         else if \<not> can_serve allow a then (enabled + 1, available)
         else (enabled + 1, available + 1))"

definition availabilityNow :: "mock_db \<Rightarrow> int \<times> int" where
  "availabilityNow db = buildAvailability (db_accounts db) (set_allowOverUsage (db_settings db))"

definition recent_traffic :: "int \<Rightarrow> mock_db \<Rightarrow> bool" where
  "recent_traffic minute db \<longleftrightarrow> list_ex (\<lambda>r. rr_ts r \<ge> (minute - OBSERVE_MINUTE_SLOTS) * 60) (db_requests db)"

definition advanceObserveSeq :: "int \<Rightarrow> mock_db \<Rightarrow> mock_db" where
  "advanceObserveSeq now db =
     (let minute = now div 60; (enabled, available) = availabilityNow db
      in case db_tickState db of
           None \<Rightarrow> db\<lparr>db_tickState := Some \<lparr>tick_minute = minute, tick_enabled = enabled, tick_available = available\<rparr>\<rparr>
         | Some s \<Rightarrow>
             (let moved = (minute \<noteq> tick_minute s \<and> recent_traffic minute db);
                  counts = (enabled \<noteq> tick_enabled s \<or> available \<noteq> tick_available s)
              in db\<lparr>db_tickState := Some \<lparr>tick_minute = minute, tick_enabled = enabled, tick_available = available\<rparr>,
                    db_observeSeq := db_observeSeq db + (if moved then 1 else 0) + (if counts then 1 else 0)\<rparr>))"

record stream =
  str_open :: bool
  str_sentSeq :: int
  str_ticks :: nat

definition open_stream :: "int \<Rightarrow> mock_db \<Rightarrow> stream \<times> mock_db" where
  "open_stream now db =
     (let db' = advanceObserveSeq now db
      in (\<lparr>str_open = True, str_sentSeq = db_observeSeq db', str_ticks = 0\<rparr>, db'))"

text \<open>
  One tick of the stream's timer. \<open>traffic\<close> stands for the synthetic traffic (it draws random
  numbers): the requests it added and the store with them.
\<close>

definition stream_tick ::
  "(mock_db \<Rightarrow> nat \<times> mock_db) \<Rightarrow> int \<Rightarrow> stream \<times> mock_db \<Rightarrow> (stream \<times> mock_db) \<times> int option" where
  "stream_tick traffic now = (\<lambda>(st, db).
     if \<not> str_open st then ((st, db), None)
     else
       (let ticks = str_ticks st + 1;
            db1 = (if ticks mod TRAFFIC_EVERY_TICKS = 0
                   then (let (added, db') = traffic db
                         in if added > 0 then db'\<lparr>db_observeSeq := db_observeSeq db' + 1\<rparr> else db')
                   else db);
            db2 = advanceObserveSeq now db1
        in if db_observeSeq db2 = str_sentSeq st then ((st\<lparr>str_ticks := ticks\<rparr>, db2), None)
           else ((st\<lparr>str_ticks := ticks, str_sentSeq := db_observeSeq db2\<rparr>, db2), Some (db_observeSeq db2))))"

subsection \<open>Lemmas: the limiter\<close>

text \<open>Attempts in order: when, the body and the header; and which were checked against the password.\<close>

type_synonym attempt = "int \<times> json option \<times> string option"

fun checked :: "attempt list \<Rightarrow> mock_db \<Rightarrow> (int \<times> bool) list" where
  "checked [] db = []"
| "checked ((nowMs, body, header) # rest) db =
     (case post_session False [] nowMs body header db of
        (Inl (f, _), db') \<Rightarrow> (nowMs, fail_status f = 401) # checked rest db'
      | (Inr _, db') \<Rightarrow> (nowMs, True) # checked rest db')"

definition in_window :: "int \<Rightarrow> int \<times> bool \<Rightarrow> bool" where
  "in_window x p \<longleftrightarrow> snd p \<and> x \<le> fst p \<and> fst p < x + LOGIN_LOCK_MS"

definition guesses :: "int \<Rightarrow> (int \<times> bool) list \<Rightarrow> nat" where
  "guesses x ps = length (filter (in_window x) ps)"

definition wrong :: "mock_db \<Rightarrow> attempt \<Rightarrow> bool" where
  "wrong db a = (case a of (_, body, header) \<Rightarrow> body_password body header \<noteq> db_adminPassword db)"

lemma post_session_wrong:
  assumes "body_password body header \<noteq> db_adminPassword db"
  shows "post_session m tok nowMs body header db =
    (if db_failedLogins db \<ge> LOGIN_FAILURE_LIMIT \<and> nowMs - db_lockedSince db < LOGIN_LOCK_MS
     then (Inl (jsonError 429 ''Too many admin password attempts; try again later'' None,
             Some (retryAfterSeconds nowMs db)), db)
     else (let failed = (if db_failedLogins db \<ge> LOGIN_FAILURE_LIMIT then 0 else db_failedLogins db) + 1
           in (Inl (jsonError 401 ''Unauthorized'' None, None),
               db\<lparr>db_failedLogins := failed,
                  db_lockedSince := (if failed \<ge> LOGIN_FAILURE_LIMIT then nowMs else db_lockedSince db)\<rparr>)))"
  using assms by (auto simp: post_session_def Let_def)

definition after_attempt :: "int \<Rightarrow> mock_db \<Rightarrow> mock_db" where
  "after_attempt nowMs db =
    (if db_failedLogins db \<ge> LOGIN_FAILURE_LIMIT \<and> nowMs - db_lockedSince db < LOGIN_LOCK_MS then db
     else (let failed = (if db_failedLogins db \<ge> LOGIN_FAILURE_LIMIT then 0 else db_failedLogins db) + 1
           in db\<lparr>db_failedLogins := failed,
                 db_lockedSince := (if failed \<ge> LOGIN_FAILURE_LIMIT then nowMs else db_lockedSince db)\<rparr>))"

lemma checked_wrong:
  assumes "wrong db (nowMs, body, header)"
  shows "checked ((nowMs, body, header) # rest) db =
    (nowMs, \<not> (db_failedLogins db \<ge> LOGIN_FAILURE_LIMIT \<and> nowMs - db_lockedSince db < LOGIN_LOCK_MS))
      # checked rest (after_attempt nowMs db)"
  using assms by (simp add: wrong_def post_session_wrong after_attempt_def Let_def jsonError_def)

lemma wrong_after [simp]: "wrong (after_attempt nowMs db) = wrong db"
  by (rule ext) (simp add: wrong_def after_attempt_def Let_def)

lemma guesses_Nil [simp]: "guesses x [] = 0"
  by (simp add: guesses_def)

lemma guesses_Cons: "guesses x (p # ps) = (if in_window x p then 1 else 0) + guesses x ps"
  by (simp add: guesses_def)

lemma guesses_past:
  "list_all (\<lambda>a. x + LOGIN_LOCK_MS \<le> fst a) as \<Longrightarrow> list_all (wrong db) as \<Longrightarrow> guesses x (checked as db) = 0"
proof (induction as arbitrary: db)
  case (Cons a as)
  obtain t b h where a: "a = (t, b, h)" by (cases a) auto
  have "\<not> in_window x (t, c)" for c using Cons.prems a by (simp add: in_window_def)
  with Cons a show ?case by (simp add: checked_wrong guesses_Cons del: checked.simps(2))
qed simp

definition limiter_ok :: "mock_db \<Rightarrow> int \<Rightarrow> bool" where
  "limiter_ok db now \<longleftrightarrow> 0 \<le> db_failedLogins db \<and> db_failedLogins db \<le> 5 \<and>
     (db_failedLogins db = 5 \<longrightarrow> db_lockedSince db \<le> now)"

lemma limiter_after: "limiter_ok db t \<Longrightarrow> limiter_ok (after_attempt t db) t"
  by (auto simp: limiter_ok_def after_attempt_def Let_def LOGIN_FAILURE_LIMIT_def)

lemma limiter_later: "limiter_ok db t \<Longrightarrow> t \<le> u \<Longrightarrow> limiter_ok db u"
  by (auto simp: limiter_ok_def)

text \<open>
  The count in a window of one lock's length, from a store whose failures the window may or may not
  cover: at most five; at most what is left of the budget when the window reaches back before every
  attempt; none when it reaches back to the lock.
\<close>

lemma guesses_bound:
  assumes "list_all (wrong db) as" "sorted_wrt (\<le>) (map fst as)" "list_all (\<lambda>a. T \<le> fst a) as" "limiter_ok db T"
  shows "int (guesses x (checked as db)) \<le> 5
    \<and> (x \<le> T \<longrightarrow> db_failedLogins db < 5 \<longrightarrow> int (guesses x (checked as db)) \<le> 5 - db_failedLogins db)
    \<and> (db_failedLogins db = 5 \<longrightarrow> x \<le> db_lockedSince db \<longrightarrow> guesses x (checked as db) = 0)"
  using assms
proof (induction as arbitrary: db T)
  case Nil
  then show ?case by (simp add: limiter_ok_def)
next
  case (Cons a as)
  obtain t b h where a: "a = (t, b, h)" by (cases a) auto
  have t: "T \<le> t" "wrong db (t, b, h)" "list_all (wrong db) as" "limiter_ok db t"
    using Cons.prems a limiter_later by (auto intro: limiter_later)
  have later: "list_all (\<lambda>a. t \<le> fst a) as" "sorted_wrt (\<le>) (map fst as)"
    using Cons.prems(2) a by (auto simp: list_all_iff)
  let ?db = "after_attempt t db" and ?g = "guesses x (checked as (after_attempt t db))"
  let ?locked = "db_failedLogins db \<ge> LOGIN_FAILURE_LIMIT \<and> t - db_lockedSince db < LOGIN_LOCK_MS"
  have g: "guesses x (checked (a # as) db) = (if in_window x (t, \<not> ?locked) then 1 else 0) + ?g"
    unfolding a checked_wrong [OF t(2)] guesses_Cons ..
  note IH = Cons.IH [of ?db t, OF _ later(2) later(1) limiter_after [OF t(4)]]
  have IH: "int ?g \<le> 5" "x \<le> t \<Longrightarrow> db_failedLogins ?db < 5 \<Longrightarrow> int ?g \<le> 5 - db_failedLogins ?db"
    "db_failedLogins ?db = 5 \<Longrightarrow> x \<le> db_lockedSince ?db \<Longrightarrow> ?g = 0"
    using IH t(3) by simp_all
  have past: "?g = 0" if "x + LOGIN_LOCK_MS \<le> t"
  proof (rule guesses_past)
    show "list_all (\<lambda>a. x + LOGIN_LOCK_MS \<le> fst a) as"
      using later(1) that by (auto simp: list_all_iff intro: order_trans)
  qed (simp add: t(3))
  have fives: "db_failedLogins db \<ge> LOGIN_FAILURE_LIMIT \<longleftrightarrow> db_failedLogins db = 5" "0 \<le> db_failedLogins db"
    "db_failedLogins db \<le> 5"
    using t(4) by (auto simp: limiter_ok_def LOGIN_FAILURE_LIMIT_def)
  show ?case
  proof (cases ?locked)
    case True
    then have same: "?db = db" by (simp add: after_attempt_def)
    have "guesses x (checked (a # as) db) = ?g"
      using True by (simp add: g in_window_def)
    then show ?thesis using IH True fives by (simp add: same)
  next
    case False
    let ?f = "(if db_failedLogins db = 5 then 0 else db_failedLogins db) + 1"
    have db': "db_failedLogins ?db = ?f" "?f = 5 \<Longrightarrow> db_lockedSince ?db = t"
      using False fives by (auto simp: after_attempt_def Let_def LOGIN_FAILURE_LIMIT_def)
    have f: "1 \<le> ?f" "?f \<le> 5" using fives by auto
    have here: "x \<le> t \<Longrightarrow> int ?g \<le> 5 - ?f"
      using IH(2,3) db' f by (cases "?f = 5") auto
    have reset: "db_failedLogins db = 5 \<Longrightarrow> x \<le> db_lockedSince db \<Longrightarrow> x + LOGIN_LOCK_MS \<le> t"
      using False fives by auto
    show ?thesis
      using here past reset IH(1) f t(1) fives by (auto simp: g in_window_def False)
  qed
qed

subsection \<open>Lemmas: the change counter\<close>

lemma buildAvailability_counts: "buildAvailability as allow =
    (int (length (filter acc_enabled as)), int (length (filter (\<lambda>a. acc_enabled a \<and> can_serve allow a) as)))"
  by (induction as) (simp_all add: Let_def)

lemma availability_frame [simp]:
  "availabilityNow (db\<lparr>db_observeSeq := n\<rparr>) = availabilityNow db"
  "availabilityNow (db\<lparr>db_tickState := ts\<rparr>) = availabilityNow db"
  by (simp_all add: availabilityNow_def)

lemma recent_frame [simp]:
  "recent_traffic m (db\<lparr>db_observeSeq := n\<rparr>) = recent_traffic m db"
  "recent_traffic m (db\<lparr>db_tickState := ts\<rparr>) = recent_traffic m db"
  by (simp_all add: recent_traffic_def)

lemma advance_again: "advanceObserveSeq now (advanceObserveSeq now db) = advanceObserveSeq now db"
  by (cases "db_tickState db") (simp_all add: advanceObserveSeq_def Let_def split_beta)

lemma advance_monotone:
  "db_observeSeq db \<le> db_observeSeq (advanceObserveSeq now db)"
  "db_observeSeq (advanceObserveSeq now db) \<le> db_observeSeq db + 2"
  by (cases "db_tickState db"; simp add: advanceObserveSeq_def Let_def split_beta)+

subsection \<open>Properties\<close>

text \<open>
  C2: the sign-in limiter bounds guessing. However many wrong passwords arrive, at whatever times,
  any window of one minute holds at most five that are checked against the password; and while the lock
  holds, every attempt, with the right password too, is answered 429 with a wait of at least a second and
  changes nothing: neither the password nor the body is looked at, and the lock is not prolonged.
\<close>

theorem five_guesses_a_minute:
  assumes "list_all (wrong db) as" "sorted_wrt (\<le>) (map fst as)" "list_all (\<lambda>a. now \<le> fst a) as"
    and "limiter_ok db now"
  shows "guesses x (checked as db) \<le> 5 \<and>
    (\<forall>t. LOGIN_FAILURE_LIMIT \<le> db_failedLogins db \<and> t - db_lockedSince db < LOGIN_LOCK_MS \<longrightarrow>
      post_session m tok t body header db =
        (Inl (jsonError 429 ''Too many admin password attempts; try again later'' None, Some (retryAfterSeconds t db)), db) \<and>
      1 \<le> retryAfterSeconds t db)"
  using guesses_bound [OF assms, of x] by (simp add: retryAfterSeconds_def post_session_def)

definition burst :: "attempt list" where
  "burst = map (\<lambda>i. (int i, None, Some ''0000'')) [0..<9]"

theorem five_guesses_a_minute_witness:
  "guesses 0 (checked burst sample_db) \<le> 5 \<and>
   post_session True ''ab'' 31000 None (Some ''12345678'') (sample_db\<lparr>db_failedLogins := 5, db_lockedSince := 30000\<rparr>) =
     (Inl (jsonError 429 ''Too many admin password attempts; try again later'' None, Some 59),
      sample_db\<lparr>db_failedLogins := 5, db_lockedSince := 30000\<rparr>)"
proof -
  let ?db = "sample_db\<lparr>db_failedLogins := 5, db_lockedSince := 30000\<rparr>"
  have wrong: "list_all (wrong sample_db) burst"
    by (simp add: list_all_iff wrong_def body_password_def seedEmptyDb_def burst_def)
  moreover have "sorted_wrt (\<le>) (map fst burst)" by (simp add: burst_def sorted_wrt_map sorted_wrt_iff_nth_less)
  moreover have "list_all (\<lambda>a. 0 \<le> fst a) burst" by (simp add: burst_def list_all_iff)
  moreover have "limiter_ok sample_db 0" by (simp add: limiter_ok_def seedEmptyDb_def)
  ultimately have "guesses 0 (checked burst sample_db) \<le> 5"
    by (rule five_guesses_a_minute [THEN conjunct1])
  moreover have "limiter_ok ?db 30000" by (simp add: limiter_ok_def seedEmptyDb_def)
  then have "post_session True ''ab'' 31000 None (Some ''12345678'') ?db =
      (Inl (jsonError 429 ''Too many admin password attempts; try again later'' None, Some (retryAfterSeconds 31000 ?db)), ?db)"
    using five_guesses_a_minute [of ?db "[]" 30000, THEN conjunct2] by (simp add: LOGIN_LOCK_MS_def LOGIN_FAILURE_LIMIT_def)
  moreover have "retryAfterSeconds 31000 ?db = 59" by (simp add: retryAfterSeconds_def LOGIN_LOCK_MS_def js_ceil_div_def)
  ultimately show ?thesis by simp
qed

text \<open>
  The right password always gets in once the lock is over, refunds the failures and ends the
  first run: it answers a mock token with the session's expiry, the first-run page stops showing the
  password, and the budget is full again.
\<close>

theorem sign_in_claims_the_password:
  assumes "body_password body header = db_adminPassword db" "db_adminPassword db \<noteq> []"
    and "db_failedLogins db < LOGIN_FAILURE_LIMIT \<or> LOGIN_LOCK_MS \<le> nowMs - db_lockedSince db"
  shows "fst (post_session m tok nowMs body header db) =
      Inr \<lparr>scr_token = ''mock-'' @ tok, scr_expiresAt = nowMs + SESSION_TTL_MS m\<rparr>
    \<and> get_first_run (snd (post_session m tok nowMs body header db)) = []
    \<and> db_failedLogins (snd (post_session m tok nowMs body header db)) = 0
    \<and> requireAuth (''mock-'' @ tok) = None"
proof -
  have "post_session m tok nowMs body header db =
      (Inr \<lparr>scr_token = ''mock-'' @ tok, scr_expiresAt = nowMs + SESSION_TTL_MS m\<rparr>,
       claimMockPassword None (db\<lparr>db_failedLogins := 0\<rparr>))"
    using assms by (cases "db_failedLogins db < LOGIN_FAILURE_LIMIT") (simp_all add: post_session_def Let_def)
  then show ?thesis
    by (simp add: claimMockPassword_def get_first_run_def startsWith_def)
qed

theorem sign_in_claims_the_password_witness:
  "get_first_run (snd (post_session True ''ab'' 90000 None (Some ''12345678'') (sample_db\<lparr>db_failedLogins := 5, db_lockedSince := 30000\<rparr>))) = []"
  using sign_in_claims_the_password [of None "Some ''12345678''" "sample_db\<lparr>db_failedLogins := 5, db_lockedSince := 30000\<rparr>" 90000 True "''ab''"]
  by (simp add: body_password_def seedEmptyDb_def LOGIN_LOCK_MS_def)

text \<open>
  The event stream sends the change counter only when it moved. The counter never falls and
  rises by at most two per check; checking twice in one minute with the same accounts changes
  nothing; and a tick sends exactly when the counter differs from the last one sent, the new value.
\<close>

theorem stream_sends_changes_only:
  "db_observeSeq db \<le> db_observeSeq (advanceObserveSeq now db)
   \<and> db_observeSeq (advanceObserveSeq now db) \<le> db_observeSeq db + 2
   \<and> advanceObserveSeq now (advanceObserveSeq now db) = advanceObserveSeq now db
   \<and> availabilityNow db = (int (length (filter acc_enabled (db_accounts db))),
        int (length (filter (\<lambda>a. acc_enabled a \<and> can_serve (set_allowOverUsage (db_settings db)) a) (db_accounts db))))
   \<and> (case stream_tick traffic now (st, db) of
        ((st', db'), None) \<Rightarrow> str_sentSeq st' = str_sentSeq st
      | ((st', db'), Some n) \<Rightarrow> n = db_observeSeq db' \<and> n \<noteq> str_sentSeq st \<and> str_sentSeq st' = n)"
  using advance_monotone [where db = db and now = now]
  by (simp add: advance_again availabilityNow_def buildAvailability_counts stream_tick_def Let_def split_beta)

end
