(* ===== verification/Mock_Accounts.thy ===== *)
theory Mock_Accounts
  imports Settings_Server Mock_Random Mock_Core
begin

text \<open>
  The account endpoints of the mock server (src/ui/src/features/accounts/mocks.ts) with the factories
  they call (src/ui/src/lib/mocks/fixtures.ts): single and batch updates, refresh, models, overage,
  profiles, secrets, deletion and export. Handlers find an account by reference and change it in
  place: here the first row of that id is replaced. The id of a path is its decoded segment, and a
  body is what the JSON decoder made of it (\<open>None\<close> when it failed), its numbers finite.
\<close>

subsection \<open>Factories\<close>

definition mock_isApiKey :: "'a account_base_scheme \<Rightarrow> bool" where
  "mock_isApiKey a \<longleftrightarrow> acc_authMethod a = ''api_key'' \<or> acc_authMethod a = ''apikey''"

definition MODEL_CATALOG :: "(string \<times> string \<times> rat) list" where
  "MODEL_CATALOG =
     [(''claude-sonnet-5'', ''Claude Sonnet 5'', 13 / 10), (''claude-opus-5'', ''Claude Opus 5'', 22 / 10),
      (''claude-haiku-4.5'', ''Claude Haiku 4.5'', 4 / 10), (''claude-sonnet-4.6'', ''Claude Sonnet 4.6'', 1),
      (''claude-sonnet-4.5'', ''Claude Sonnet 4.5'', 1), (''claude-opus-4.6'', ''Claude Opus 4.6'', 22 / 10)]"

definition mock_modelRate :: "string \<Rightarrow> rat" where
  "mock_modelRate model = (case map_of MODEL_CATALOG model of None \<Rightarrow> 1 | Some (_, rate) \<Rightarrow> rate)"

text \<open>\<open>makeModelInfo({ modelId })\<close>: the override wins, so the id is the one asked for.\<close>

definition makeModelInfo :: "string \<Rightarrow> model_info" where
  "makeModelInfo modelId =
     (let (i, name, rate) = (case map_of MODEL_CATALOG modelId of
            Some (name, rate) \<Rightarrow> (modelId, name, rate)
          | None \<Rightarrow> if modelId \<noteq> [] then (modelId, modelId, 1) else hd MODEL_CATALOG)
      in \<lparr>mi_modelId = modelId, mi_modelName = name, mi_description = name @ '' on Kiro'',
          mi_supportedInputTypes = [''TEXT'', ''IMAGE''], mi_rateMultiplier = rate,
          mi_tokenLimits = Some (200000, if sublist ''opus'' i then 32000 else 64000)\<rparr>)"

definition makeCachedModelIds :: "string list" where
  "makeCachedModelIds = map fst MODEL_CATALOG"

definition MS_PROFILE_PRIMARY :: string where
  "MS_PROFILE_PRIMARY = ''arn:aws:codewhisperer:eu-central-1:381492027763:profile/QK7M2XRZ9PLA''"

definition MS_PROFILE_SANDBOX :: string where
  "MS_PROFILE_SANDBOX = ''arn:aws:codewhisperer:us-east-1:381492027763:profile/HV4N8TQW2JDE''"

definition DEFAULT_PROFILE :: string where
  "DEFAULT_PROFILE = ''arn:aws:codewhisperer:us-east-1:699475941385:profile/EHGA3GRVQMUK''"

definition or_text :: "string \<Rightarrow> string \<Rightarrow> string" where
  "or_text s fallback = (if s = [] then fallback else s)"

definition makeProfiles :: "account \<Rightarrow> account_profile list" where
  "makeProfiles a =
     (if mock_isApiKey a then []
      else if acc_authMethod a = ''external_idp'' then
        (let current = or_text (acc_profileArn a) MS_PROFILE_PRIMARY
         in [\<lparr>prof_arn = MS_PROFILE_PRIMARY, prof_name = ''Fabrikam Engineering'',
              prof_region = ''eu-central-1'', prof_current = (current = MS_PROFILE_PRIMARY)\<rparr>,
             \<lparr>prof_arn = MS_PROFILE_SANDBOX, prof_name = ''Fabrikam Sandbox'',
              prof_region = ''us-east-1'', prof_current = (current = MS_PROFILE_SANDBOX)\<rparr>])
      else [\<lparr>prof_arn = or_text (acc_profileArn a) DEFAULT_PROFILE, prof_name = [],
             prof_region = or_text (acc_activeRegion a) ''us-east-1'', prof_current = True\<rparr>])"

definition makeOverage :: "int \<Rightarrow> account \<Rightarrow> overage_response" where
  "makeOverage now a =
     \<lparr>ov_overageStatus = acc_overageStatus a, ov_overageCapability = acc_overageCapability a,
      ov_subscriptionTitle = acc_subscriptionTitle a, ov_overageCap = acc_overageCap a,
      ov_overageRate = acc_overageRate a, ov_currentOverages = acc_currentOverages a,
      ov_overageCheckedAt = now\<rparr>"

record test_account_response =
  tst_reply :: string
  tst_model :: string
  tst_stopReason :: string
  tst_reasoning :: string
  tst_inputTokens :: int
  tst_outputTokens :: int
  tst_credits :: rat
  tst_contextUsage :: rat

definition THINKING_SUFFIX :: string where "THINKING_SUFFIX = ''-thinking''"

definition is_thinking :: "string \<Rightarrow> bool" where
  "is_thinking model \<longleftrightarrow> suffix THINKING_SUFFIX model"

definition makeTestResult :: "string \<Rightarrow> test_account_response" where
  "makeTestResult model =
     (let thinking = is_thinking model;
          plain = (if thinking then take (length model - length THINKING_SUFFIX) model else model)
      in \<lparr>tst_reply = ''ok'', tst_model = model, tst_stopReason = ''end_turn'',
          tst_reasoning = (if thinking then ''The user asks for a one-word reply, so I answer ok.'' else []),
          tst_inputTokens = 13, tst_outputTokens = (if thinking then 24 else 2),
          tst_credits = of_int (js_round (18 / 10000 * mock_modelRate plain * 10 ^ 4)) / 10 ^ 4,
          tst_contextUsage = 1 / 100\<rparr>)"

text \<open>The secrets an account gets are drawn from the seed of its id.\<close>

definition MS_TENANT :: string where "MS_TENANT = ''6a1d3f52-90c4-4b7e-8f3a-2c9d1e7b5a40''"

definition makeAccountFull :: "account \<Rightarrow> account_full" where
  "makeAccountFull a =
     (let rng = createRng (hashSeed (acc_id a));
          apiKey = mock_isApiKey a;
          microsoft = (acc_authMethod a = ''external_idp'');
          idc = (acc_authMethod a = ''idc'');
          (key, rng) = (if apiKey then (let (t, r) = base64ish rng 44 in (''ksk_'' @ t, r)) else ([], rng));
          (access, rng) = (if apiKey then (key, rng)
             else if acc_hasToken a then (let (t, r) = base64ish rng 180 in (''aoaAAAAAG'' @ t, r)) else ([], rng));
          (refresh, rng) = (if apiKey \<or> \<not> acc_hasToken a then ([], rng)
             else (let (t, r) = base64ish rng 220 in (''aorAAAAAG'' @ t, r)));
          (client, rng) = (if idc \<or> microsoft then base64ish rng 22 else ([], rng));
          (secret, rng) = (if idc then (let (t, r) = base64ish rng 120 in (''eyJraWQiOiJrZXktMTU2'' @ t, r)) else ([], rng))
      in account_base.extend (account_base.truncate a)
           (account_full.fields access refresh key client secret
              (if microsoft then ''https://login.microsoftonline.com/'' @ MS_TENANT @ ''/oauth2/v2.0/token'' else [])
              (if microsoft then ''https://login.microsoftonline.com/'' @ MS_TENANT @ ''/v2.0'' else [])
              (if microsoft then ''openid profile offline_access api://kiro.dev/.default'' else [])))"

record export_account =
  exa_id :: string
  exa_email :: string
  exa_nickname :: "string option"
  exa_idp :: string
  exa_userId :: "string option"
  exa_profileArn :: "string option"
  exa_machineId :: "string option"
  exa_credentials :: export_credentials
  exa_subscription :: "string \<times> string option"
  exa_usage :: "rat \<times> rat \<times> rat \<times> int"
  exa_createdAt :: int
  exa_lastUsedAt :: int

record export_data =
  exd_version :: string
  exd_exportedAt :: int
  exd_accounts :: "export_account list"

definition exportSubscription :: "string \<Rightarrow> string" where
  "exportSubscription t =
     (if sublist ''PRO_PLUS'' t then ''Pro_Plus''
      else if sublist ''PRO'' t \<or> sublist ''POWER'' t then ''Pro'' else ''Free'')"

definition given_or_none :: "string \<Rightarrow> string option" where
  "given_or_none s = (if s = [] then None else Some s)"

definition export_of :: "int \<Rightarrow> account \<Rightarrow> export_account" where
  "export_of nowMs a =
     (let full = makeAccountFull a
      in \<lparr>exa_id = acc_id a, exa_email = acc_email a, exa_nickname = given_or_none (acc_nickname a),
          exa_idp = or_text (acc_provider a) (acc_authMethod a), exa_userId = given_or_none (acc_userId a),
          exa_profileArn = given_or_none (acc_profileArn a), exa_machineId = given_or_none (acc_machineId a),
          exa_credentials = \<lparr>exc_accessToken = full_accessToken full, exc_csrfToken = [],
            exc_refreshToken = full_refreshToken full, exc_kiroApiKey = given_or_none (full_kiroApiKey full),
            exc_clientId = given_or_none (full_clientId full), exc_clientSecret = given_or_none (full_clientSecret full),
            exc_region = Some (acc_region a), exc_expiresAt = acc_expiresAt a * 1000,
            exc_authMethod = Some (if acc_authMethod a = ''idc'' then ''IdC'' else acc_authMethod a),
            exc_provider = given_or_none (acc_provider a), exc_tokenEndpoint = given_or_none (full_tokenEndpoint full),
            exc_issuerUrl = given_or_none (full_issuerUrl full), exc_scopes = given_or_none (full_scopes full)\<rparr>,
          exa_subscription = (exportSubscription (acc_subscriptionType a), given_or_none (acc_subscriptionTitle a)),
          exa_usage = (acc_usageCurrent a, acc_usageLimit a,
            of_int (js_round (acc_usagePercent a * 100 * 10 ^ 2)) / 10 ^ 2, nowMs),
          exa_createdAt = nowMs, exa_lastUsedAt = nowMs\<rparr>)"

definition makeExport :: "int \<Rightarrow> account list \<Rightarrow> export_data" where
  "makeExport nowMs accounts =
     \<lparr>exd_version = ''2.1.0'', exd_exportedAt = nowMs, exd_accounts = map (export_of nowMs) accounts\<rparr>"

subsection \<open>Accounts of the store\<close>

definition accountsChanged :: "string \<Rightarrow> event list" where
  "accountsChanged i = [(Accounts_changed, i)]"

definition findAccount :: "mock_db \<Rightarrow> string \<Rightarrow> account option" where
  "findAccount db i = find_by acc_id (db_accounts db) i"

definition change_account :: "string \<Rightarrow> (account \<Rightarrow> account) \<Rightarrow> mock_db \<Rightarrow> mock_db" where
  "change_account i f db = db\<lparr>db_accounts := modify_by acc_id i f (db_accounts db)\<rparr>"

definition delete_account_row :: "string \<Rightarrow> mock_db \<Rightarrow> mock_db" where
  "delete_account_row i db =
     db\<lparr>db_accounts := remove_by acc_id i (db_accounts db), db_secrets := remove_by fst i (db_secrets db)\<rparr>"

text \<open>\<open>[...new Set(ids)]\<close>.\<close>

definition distinct_ids :: "string list \<Rightarrow> string list" where
  "distinct_ids ids = rev (remdups (rev ids))"

text \<open>What the callback of \<open>eachRequested\<close> does: a status for the result, and the changed store.\<close>

type_synonym account_act = "account \<Rightarrow> mock_db \<Rightarrow> action_status option \<times> mock_db"

fun each_id :: "account_act \<Rightarrow> string list \<Rightarrow> mock_db \<Rightarrow> account_action_result list \<times> mock_db" where
  "each_id act [] db = ([], db)"
| "each_id act (i # ids) db =
     (let (r, db) = (case findAccount db i of
            None \<Rightarrow> (\<lparr>res_id = i, res_ok = False, res_error = Some ''Account not found'', res_status = Some NotFound\<rparr>, db)
          | Some a \<Rightarrow> (case act a db of (st, db) \<Rightarrow>
              (\<lparr>res_id = i, res_ok = True, res_error = None, res_status = st\<rparr>, db)));
          (rs, db) = each_id act ids db
      in (r # rs, db))"

definition eachRequested :: "string list \<Rightarrow> account_act \<Rightarrow> mock_db \<Rightarrow> account_action_result list \<times> mock_db" where
  "eachRequested ids act db = each_id act (distinct_ids ids) db"

definition countOk :: "account_action_result list \<Rightarrow> int \<times> int" where
  "countOk results =
     (let n = int (length (filter res_ok results)) in (n, int (length results) - n))"

definition enableAccount :: "account \<Rightarrow> account" where
  "enableAccount a =
     (let a = (if mock_isBanned a
               then a\<lparr>acc_banStatus := ''ACTIVE'', acc_banReason := [], acc_banTime := 0,
                      acc_silent := False, acc_silentReason := [], acc_silentTime := 0\<rparr> else a)
      in a\<lparr>acc_enabled := True\<rparr>)"

definition unsilence :: "account \<Rightarrow> account" where
  "unsilence a = a\<lparr>acc_silent := False, acc_silentReason := [], acc_silentTime := 0\<rparr>"

definition silence :: "int \<Rightarrow> string \<Rightarrow> account \<Rightarrow> account" where
  "silence now reason a =
     a\<lparr>acc_enabled := False, acc_silent := True,
       acc_silentReason := or_text reason (or_text (acc_silentReason a) ''manual''),
       acc_silentTime := (if acc_silentTime a = 0 then now else acc_silentTime a)\<rparr>"

definition when_given :: "'a option \<Rightarrow> ('a \<Rightarrow> account \<Rightarrow> account) \<Rightarrow> account \<Rightarrow> account" where
  "when_given v f a = (case v of None \<Rightarrow> a | Some x \<Rightarrow> f x a)"

fun as_finite :: "json \<Rightarrow> rat option" where
  "as_finite (JNum (Fin r)) = Some r"
| "as_finite _ = None"

definition applyUpdate :: "int \<Rightarrow> (string \<times> json) list \<Rightarrow> account \<Rightarrow> account" where
  "applyUpdate now body a =
     (let a = when_given (as_bool (own body ''enabled''))
                (\<lambda>on a. if on then enableAccount a else a\<lparr>acc_enabled := False\<rparr>) a;
          a = when_given (as_string (own body ''nickname'')) (\<lambda>s a. a\<lparr>acc_nickname := s\<rparr>) a;
          a = when_given (as_string (own body ''machineId'')) (\<lambda>s a. a\<lparr>acc_machineId := s\<rparr>) a;
          a = when_given (as_finite (own body ''weight'')) (\<lambda>n a. a\<lparr>acc_weight := js_trunc n\<rparr>) a;
          a = when_given (as_string (own body ''proxyURL'')) (\<lambda>s a. a\<lparr>acc_proxyURL := s\<rparr>) a
      in when_given (as_bool (own body ''silent''))
           (\<lambda>on a. if on then silence now (case as_string (own body ''silentReason'') of
                None \<Rightarrow> [] | Some s \<Rightarrow> trim s) a else unsilence a) a)"

definition fullAccount :: "mock_db \<Rightarrow> account \<Rightarrow> account_full" where
  "fullAccount db a =
     (let secret = (\<lambda>f. case map_of (db_secrets db) (acc_id a) of None \<Rightarrow> [] | Some s \<Rightarrow> f s)
      in account_base.extend (account_base.truncate a)
           (account_full.fields (secret full_accessToken) (secret full_refreshToken) (secret full_kiroApiKey)
              (secret full_clientId) (secret full_clientSecret) (secret full_tokenEndpoint)
              (secret full_issuerUrl) (secret full_scopes)))"

definition accountInfo :: "account \<Rightarrow> account_info" where
  "accountInfo a =
     \<lparr>info_Email = acc_email a, info_UserId = acc_userId a, info_SubscriptionType = acc_subscriptionType a,
      info_SubscriptionTitle = acc_subscriptionTitle a, info_DaysRemaining = acc_daysRemaining a,
      info_UsageCurrent = acc_usageCurrent a, info_UsageLimit = acc_usageLimit a,
      info_UsagePercent = acc_usagePercent a, info_NextResetDate = acc_nextResetDate a,
      info_LastRefresh = acc_lastRefresh a, info_TrialUsageCurrent = acc_trialUsageCurrent a,
      info_TrialUsageLimit = acc_trialUsageLimit a, info_TrialUsagePercent = acc_trialUsagePercent a,
      info_TrialStatus = acc_trialStatus a, info_TrialExpiresAt = acc_trialExpiresAt a\<rparr>"

definition liveModels :: "model_info list" where
  "liveModels = map makeModelInfo makeCachedModelIds @
     [(makeModelInfo ''auto'')\<lparr>mi_modelName := ''Auto'', mi_description := ''Kiro picks a model per request'',
        mi_rateMultiplier := 1\<rparr>]"

subsection \<open>Handlers\<close>

definition get_accounts :: "string \<Rightarrow> mock_db \<Rightarrow> account list reply \<times> mock_db \<times> event list" where
  "get_accounts token = guarded token (\<lambda>db. (Inr (db_accounts db), db, []))"

definition BATCH_ACTIONS :: "(string \<times> batch_action) list" where
  "BATCH_ACTIONS = [(''enable'', ActEnable), (''disable'', ActDisable), (''refresh'', ActRefresh),
     (''refreshModels'', ActRefreshModels), (''delete'', ActDelete)]"

fun string_items :: "json \<Rightarrow> string list" where
  "string_items (JArr vs) = List.map_filter as_string vs"
| "string_items _ = []"

definition act_enable :: account_act where
  "act_enable a db = (None, change_account (acc_id a) (\<lambda>a. unsilence (enableAccount a)) db)"

definition act_disable :: account_act where
  "act_disable a db = (None, change_account (acc_id a) (\<lambda>a. a\<lparr>acc_enabled := False\<rparr>) db)"

definition act_refresh :: "int \<Rightarrow> account_act" where
  "act_refresh now a db =
     (if acc_banStatus a = ''SUSPENDED''
      then (Some SuspendedStatus, change_account (acc_id a) (\<lambda>a. a\<lparr>acc_enabled := False\<rparr>) db)
      else (None, change_account (acc_id a) (\<lambda>a. a\<lparr>acc_lastRefresh := now\<rparr>) db))"

definition act_refresh_models :: account_act where
  "act_refresh_models a db = (None, db)"

definition act_delete :: account_act where
  "act_delete a db = (None, delete_account_row (acc_id a) db)"

definition batch_run ::
  "int \<Rightarrow> string list \<Rightarrow> batch_action \<Rightarrow> mock_db \<Rightarrow> batch_accounts_response reply \<times> mock_db \<times> event list" where
  "batch_run now ids action db =
     (let run = (\<lambda>act. eachRequested ids act db)
      in case action of
           ActEnable \<Rightarrow> (let (rs, db) = run act_enable; (ok, failed) = countOk rs
             in (Inr (BatchEnableDisable ok failed rs), db, accountsChanged ''*''))
         | ActDisable \<Rightarrow> (let (rs, db) = run act_disable; (ok, failed) = countOk rs
             in (Inr (BatchEnableDisable ok failed rs), db, accountsChanged ''*''))
         | ActRefresh \<Rightarrow>
             (let (rs, db) = run (act_refresh now);
                  suspended = int (length (filter (\<lambda>r. res_status r = Some SuspendedStatus) rs));
                  (ok, failed) = countOk rs
              in (Inr (BatchRefresh (ok - suspended) suspended failed rs), db, accountsChanged ''*''))
         | ActRefreshModels \<Rightarrow>
             (let (rs, db) = run act_refresh_models; (ok, failed) = countOk rs
              in (Inr (BatchRefreshModels ok failed (int (length liveModels)) rs), db, []))
         | ActDelete \<Rightarrow>
             (let (rs, db) = run act_delete; (ok, failed) = countOk rs
              in (Inr (BatchDelete ok failed rs), db, accountsChanged ''*'')))"

definition post_batch ::
  "string \<Rightarrow> int \<Rightarrow> json option \<Rightarrow> mock_db \<Rightarrow> batch_accounts_response reply \<times> mock_db \<times> event list" where
  "post_batch token now body = guarded token (\<lambda>db.
     case read_object body of
       None \<Rightarrow> refuse 400 ''Invalid JSON'' None db
     | Some fs \<Rightarrow>
         (let ids = string_items (own fs ''ids'')
          in if ids = [] then refuse 400 ''No account IDs provided'' None db
             else case Option.bind (as_string (own fs ''action'')) (map_of BATCH_ACTIONS) of
                    None \<Rightarrow> refuse 400 (''Invalid action: '' @ js_text (own fs ''action'')) None db
                  | Some action \<Rightarrow> batch_run now ids action db))"

definition post_models_refresh_all ::
  "string \<Rightarrow> mock_db \<Rightarrow> (int \<times> account_action_result list) reply \<times> mock_db \<times> event list" where
  "post_models_refresh_all token = guarded token (\<lambda>db.
     (Inr (int (length liveModels), map (\<lambda>a. \<lparr>res_id = acc_id a, res_ok = True, res_error = None, res_status = None\<rparr>)
        (filter acc_enabled (db_accounts db))), db, []))"

text \<open>A handler of one account: 404 when the id names none.\<close>

definition with_account ::
  "string \<Rightarrow> mock_db \<Rightarrow> (account \<Rightarrow> 'a reply \<times> mock_db \<times> event list) \<Rightarrow> 'a reply \<times> mock_db \<times> event list" where
  "with_account i db handler =
     (case findAccount db i of None \<Rightarrow> refuse 404 ''Account not found'' None db | Some a \<Rightarrow> handler a)"

definition post_models_refresh :: "string \<Rightarrow> string \<Rightarrow> mock_db \<Rightarrow> int reply \<times> mock_db \<times> event list" where
  "post_models_refresh token i = guarded token (\<lambda>db. with_account i db (\<lambda>a. (Inr (int (length liveModels)), db, [])))"

definition post_refresh :: "string \<Rightarrow> int \<Rightarrow> string \<Rightarrow> mock_db \<Rightarrow> account_info option reply \<times> mock_db \<times> event list" where
  "post_refresh token now i = guarded token (\<lambda>db. with_account i db (\<lambda>a.
     if acc_banStatus a = ''SUSPENDED''
     then (Inr None, change_account i (\<lambda>a. a\<lparr>acc_enabled := False\<rparr>) db, accountsChanged (acc_id a))
     else (Inr (Some (accountInfo (a\<lparr>acc_lastRefresh := now\<rparr>))),
           change_account i (\<lambda>a. a\<lparr>acc_lastRefresh := now\<rparr>) db, accountsChanged (acc_id a))))"

definition post_test ::
  "string \<Rightarrow> string \<Rightarrow> json option \<Rightarrow> mock_db \<Rightarrow> test_account_response reply \<times> mock_db \<times> event list" where
  "post_test token i body = guarded token (\<lambda>db. with_account i db (\<lambda>a.
     if acc_banStatus a = ''BANNED''
     then refuse 500 ''AccessDeniedException: account access has been revoked (403)'' None db
     else (Inr (makeTestResult (case Option.bind (read_object body) (\<lambda>fs. as_string (own fs ''model'')) of
            None \<Rightarrow> ''claude-sonnet-5'' | Some m \<Rightarrow> or_text m ''claude-sonnet-5'')), db, [])))"

definition get_models_cached :: "string \<Rightarrow> string \<Rightarrow> mock_db \<Rightarrow> string list reply \<times> mock_db \<times> event list" where
  "get_models_cached token i = guarded token (\<lambda>db.
     (Inr (if findAccount db i = None then [] else rev makeCachedModelIds), db, []))"

definition get_models :: "string \<Rightarrow> string \<Rightarrow> mock_db \<Rightarrow> model_info list reply \<times> mock_db \<times> event list" where
  "get_models token i = guarded token (\<lambda>db. with_account i db (\<lambda>a. (Inr liveModels, db, [])))"

definition get_overage :: "string \<Rightarrow> int \<Rightarrow> string \<Rightarrow> mock_db \<Rightarrow> overage_response reply \<times> mock_db \<times> event list" where
  "get_overage token now i = guarded token (\<lambda>db. with_account i db (\<lambda>a.
     (Inr (makeOverage now a),
      change_account i (\<lambda>a. a\<lparr>acc_overageCheckedAt := ov_overageCheckedAt (makeOverage now a)\<rparr>) db, [])))"

definition post_overage ::
  "string \<Rightarrow> int \<Rightarrow> string \<Rightarrow> json option \<Rightarrow> mock_db \<Rightarrow> overage_response reply \<times> mock_db \<times> event list" where
  "post_overage token now i body = guarded token (\<lambda>db.
     case Option.bind (read_object body) (\<lambda>fs. as_bool (own fs ''enabled'')) of
       None \<Rightarrow> refuse 400 ''Invalid JSON'' None db
     | Some on \<Rightarrow> with_account i db (\<lambda>a.
         if on \<and> toUpperCase (acc_overageCapability a) = ''NOT_OVERAGE_CAPABLE''
         then refuse 400 ''Account is not overage capable'' None db
         else
           (let a = a\<lparr>acc_overageStatus := (if on then ''ENABLED'' else ''DISABLED'')\<rparr>; snapshot = makeOverage now a
            in (Inr snapshot,
                change_account i (\<lambda>a. a\<lparr>acc_overageStatus := (if on then ''ENABLED'' else ''DISABLED''),
                  acc_overageCheckedAt := ov_overageCheckedAt snapshot\<rparr>) db, []))))"

definition NO_PROFILE :: string where
  "NO_PROFILE = ''API key accounts have no Kiro profile; their region is set at import''"

definition get_profiles ::
  "string \<Rightarrow> string \<Rightarrow> mock_db \<Rightarrow> (account_profile list \<times> string \<times> string \<times> bool) reply \<times> mock_db \<times> event list" where
  "get_profiles token i = guarded token (\<lambda>db. with_account i db (\<lambda>a.
     if mock_isApiKey a then refuse 400 NO_PROFILE None db
     else (Inr (makeProfiles a, acc_profileArn a, acc_activeRegion a, acc_profileArnPinned a), db, [])))"

definition pick_profile ::
  "string \<Rightarrow> (string \<times> json) list \<Rightarrow> mock_db \<Rightarrow> account \<Rightarrow> (string \<times> string) option reply \<times> mock_db \<times> event list" where
  "pick_profile i fs db a =
     (if mock_isApiKey a then refuse 400 NO_PROFILE None db
      else
        (let arn = (case as_string (own fs ''profileArn'') of None \<Rightarrow> [] | Some s \<Rightarrow> trim s)
         in if arn = [] then (Inr None, change_account i (\<lambda>a. a\<lparr>acc_profileArnPinned := False\<rparr>) db, [])
            else if \<not> startsWith arn ''arn:aws:codewhisperer:'' then refuse 400 ''profileArn is invalid'' None db
            else case find_by prof_arn (makeProfiles a) arn of
              None \<Rightarrow> refuse 400 ''Selected Kiro profile is not available for this account'' None db
            | Some p \<Rightarrow>
                (Inr (Some (prof_arn p, prof_region p)),
                 change_account i (\<lambda>a. a\<lparr>acc_profileArn := prof_arn p, acc_profileArnPinned := True,
                   acc_activeRegion := prof_region p\<rparr>) db, [])))"

definition post_profile ::
  "string \<Rightarrow> string \<Rightarrow> json option \<Rightarrow> mock_db \<Rightarrow> (string \<times> string) option reply \<times> mock_db \<times> event list" where
  "post_profile token i body = guarded token (\<lambda>db.
     case read_object body of
       None \<Rightarrow> refuse 400 ''Invalid JSON'' None db
     | Some fs \<Rightarrow> with_account i db (pick_profile i fs db))"

definition get_full :: "string \<Rightarrow> string \<Rightarrow> mock_db \<Rightarrow> account_full reply \<times> mock_db \<times> event list" where
  "get_full token i = guarded token (\<lambda>db. with_account i db (\<lambda>a. (Inr (fullAccount db a), db, [])))"

definition put_account ::
  "string \<Rightarrow> int \<Rightarrow> string \<Rightarrow> json option \<Rightarrow> mock_db \<Rightarrow> unit reply \<times> mock_db \<times> event list" where
  "put_account token now i body = guarded token (\<lambda>db.
     case read_object body of
       None \<Rightarrow> refuse 400 ''Invalid JSON'' None db
     | Some fs \<Rightarrow> with_account i db (\<lambda>a.
         (Inr (), change_account i (applyUpdate now fs) db, accountsChanged (acc_id a))))"

definition delete_account :: "string \<Rightarrow> string \<Rightarrow> mock_db \<Rightarrow> unit reply \<times> mock_db \<times> event list" where
  "delete_account token i = guarded token (\<lambda>db. (Inr (), delete_account_row i db, accountsChanged i))"

fun export_ids :: "json \<Rightarrow> json list" where
  "export_ids (JArr vs) = vs"
| "export_ids _ = []"

definition post_export ::
  "string \<Rightarrow> int \<Rightarrow> json option \<Rightarrow> mock_db \<Rightarrow> export_data reply \<times> mock_db \<times> event list" where
  "post_export token nowMs body = guarded token (\<lambda>db.
     (let ids = (case read_object body of None \<Rightarrow> [] | Some fs \<Rightarrow> export_ids (own fs ''ids''));
          accounts = (if ids = [] then db_accounts db
            else filter (\<lambda>a. JStr (acc_id a) \<in> set ids) (db_accounts db))
      in (Inr (makeExport nowMs accounts), db, [])))"

subsection \<open>Lemmas\<close>

definition keeps_id :: "(account \<Rightarrow> account) \<Rightarrow> bool" where
  "keeps_id f \<longleftrightarrow> (\<forall>a. acc_id (f a) = acc_id a)"

interpretation accounts: row_table findAccount delete_account_row change_account keeps_id
  by unfold_locales (simp_all add: findAccount_def delete_account_row_def change_account_def keeps_id_def
      find_remove_by find_modify_by)

text \<open>What holds of every row: a silenced account has a reason and a time, and a pinned profile is one
  the server offers.\<close>

definition offered :: "account \<Rightarrow> bool" where
  "offered a \<longleftrightarrow> acc_profileArn a \<in> prof_arn ` set (makeProfiles a)"

definition row_ok :: "account \<Rightarrow> bool" where
  "row_ok a \<longleftrightarrow>
     (if acc_silent a then acc_silentReason a \<noteq> [] \<and> acc_silentTime a \<noteq> 0
      else acc_silentReason a = [] \<and> acc_silentTime a = 0) \<and>
     (acc_profileArnPinned a \<longrightarrow> offered a)"

definition accounts_ok :: "mock_db \<Rightarrow> bool" where
  "accounts_ok db \<longleftrightarrow> distinct (map acc_id (db_accounts db)) \<and>
     fst ` set (db_secrets db) \<subseteq> acc_id ` set (db_accounts db) \<and> list_all row_ok (db_accounts db)"

text \<open>Changes of one row: they keep its id and what holds of it.\<close>

definition sound_change :: "(account \<Rightarrow> account) \<Rightarrow> bool" where
  "sound_change f \<longleftrightarrow> keeps_id f \<and> (\<forall>a. row_ok a \<longrightarrow> row_ok (f a))"

lemma sound_change_keeps: "sound_change f \<Longrightarrow> keeps_id f"
  by (simp add: sound_change_def)

lemma makeProfiles_cong:
  "acc_authMethod b = acc_authMethod a \<Longrightarrow> acc_profileArn b = acc_profileArn a \<Longrightarrow>
    prof_arn ` set (makeProfiles b) = prof_arn ` set (makeProfiles a)"
  by (simp add: makeProfiles_def mock_isApiKey_def Let_def)

lemma offered_cong:
  "acc_authMethod b = acc_authMethod a \<Longrightarrow> acc_profileArn b = acc_profileArn a \<Longrightarrow> offered b = offered a"
  using makeProfiles_cong [of b a] by (simp add: offered_def)

lemma sound_comp: "sound_change f \<Longrightarrow> sound_change g \<Longrightarrow> sound_change (\<lambda>a. f (g a))"
  by (simp add: sound_change_def keeps_id_def)

lemma sound_if: "sound_change f \<Longrightarrow> sound_change g \<Longrightarrow> sound_change (if c then f else g)"
  by simp

lemma sound_when: "(\<And>x. sound_change (f x)) \<Longrightarrow> sound_change (when_given v f)"
  by (cases v) (simp_all add: when_given_def sound_change_def keeps_id_def)

lemma offered_simps [simp]:
  "offered (a\<lparr>acc_silent := on\<rparr>) = offered a" "offered (a\<lparr>acc_silentReason := t\<rparr>) = offered a"
  "offered (a\<lparr>acc_silentTime := n\<rparr>) = offered a" "offered (a\<lparr>acc_enabled := on\<rparr>) = offered a"
  "offered (a\<lparr>acc_banStatus := t\<rparr>) = offered a" "offered (a\<lparr>acc_banReason := t\<rparr>) = offered a"
  "offered (a\<lparr>acc_banTime := n\<rparr>) = offered a" "offered (a\<lparr>acc_nickname := t\<rparr>) = offered a"
  "offered (a\<lparr>acc_machineId := t\<rparr>) = offered a" "offered (a\<lparr>acc_weight := n\<rparr>) = offered a"
  "offered (a\<lparr>acc_proxyURL := t\<rparr>) = offered a" "offered (a\<lparr>acc_lastRefresh := n\<rparr>) = offered a"
  "offered (a\<lparr>acc_overageCheckedAt := n\<rparr>) = offered a" "offered (a\<lparr>acc_overageStatus := t\<rparr>) = offered a"
  "offered (a\<lparr>acc_profileArnPinned := on\<rparr>) = offered a"
  by (rule offered_cong; simp)+

lemma sound_updates [intro]:
  "sound_change (\<lambda>a. a\<lparr>acc_enabled := on\<rparr>)" "sound_change (\<lambda>a. a\<lparr>acc_nickname := t\<rparr>)"
  "sound_change (\<lambda>a. a\<lparr>acc_machineId := t\<rparr>)" "sound_change (\<lambda>a. a\<lparr>acc_weight := n\<rparr>)"
  "sound_change (\<lambda>a. a\<lparr>acc_proxyURL := t\<rparr>)" "sound_change (\<lambda>a. a\<lparr>acc_lastRefresh := n\<rparr>)"
  "sound_change (\<lambda>a. a\<lparr>acc_overageCheckedAt := n\<rparr>)" "sound_change (\<lambda>a. a\<lparr>acc_profileArnPinned := False\<rparr>)"
  "sound_change (\<lambda>a. a\<lparr>acc_overageStatus := t, acc_overageCheckedAt := n\<rparr>)"
  by (simp_all add: sound_change_def keeps_id_def row_ok_def)

lemma sound_enable [intro]: "sound_change enableAccount"
  by (auto simp: sound_change_def keeps_id_def row_ok_def enableAccount_def Let_def)

lemma sound_unsilence [intro]: "sound_change unsilence"
  by (auto simp: sound_change_def keeps_id_def row_ok_def unsilence_def)

lemma sound_silence [intro]: "now \<noteq> 0 \<Longrightarrow> sound_change (silence now reason)"
  by (auto simp: sound_change_def keeps_id_def row_ok_def silence_def or_text_def)

lemma sound_applyUpdate [intro]:
  assumes "now \<noteq> 0"
  shows "sound_change (applyUpdate now body)"
proof -
  let ?on = "\<lambda>on a. if on then enableAccount a else a\<lparr>acc_enabled := False\<rparr>"
  let ?off = "\<lambda>on a. if on then silence now (case as_string (own body ''silentReason'') of
      None \<Rightarrow> [] | Some s \<Rightarrow> trim s) a else unsilence a"
  have s1: "sound_change (when_given (as_bool (own body ''enabled'')) ?on)"
  proof (rule sound_when)
    fix on show "sound_change (?on on)" using sound_enable sound_updates(1) [of False] by (cases on) simp_all
  qed
  have s2: "sound_change (when_given (as_bool (own body ''silent'')) ?off)"
  proof (rule sound_when)
    fix on show "sound_change (?off on)" using sound_silence [OF assms] sound_unsilence by (cases on) simp_all
  qed
  have rest: "sound_change (when_given (as_string v) (\<lambda>s a. a\<lparr>acc_nickname := s\<rparr>))"
    "sound_change (when_given (as_string v) (\<lambda>s a. a\<lparr>acc_machineId := s\<rparr>))"
    "sound_change (when_given (as_finite v) (\<lambda>n a. a\<lparr>acc_weight := js_trunc n\<rparr>))"
    "sound_change (when_given (as_string v) (\<lambda>s a. a\<lparr>acc_proxyURL := s\<rparr>))" for v
    by (rule sound_when, rule sound_updates)+
  show ?thesis
    using s1 s2 rest unfolding sound_change_def keeps_id_def applyUpdate_def Let_def by presburger
qed

lemma modify_all: "list_all P rows \<Longrightarrow> (\<And>r. P r \<Longrightarrow> P (f r)) \<Longrightarrow> list_all P (modify_by key k f rows)"
  by (induction rows) auto

lemma change_account_ok: "sound_change f \<Longrightarrow> accounts_ok db \<Longrightarrow> accounts_ok (change_account i f db)"
proof -
  assume f: "sound_change f" and ok: "accounts_ok db"
  have "map acc_id (modify_by acc_id i f (db_accounts db)) = map acc_id (db_accounts db)"
    using f by (intro map_key_modify_by) (simp add: sound_change_def keeps_id_def)
  moreover from this have "acc_id ` set (modify_by acc_id i f (db_accounts db)) = acc_id ` set (db_accounts db)"
    by (metis set_map)
  ultimately show ?thesis
    using ok f by (simp add: accounts_ok_def change_account_def sound_change_def modify_all)
qed

lemma delete_account_row_ok: "accounts_ok db \<Longrightarrow> accounts_ok (delete_account_row i db)"
  using distinct_remove_by [of acc_id "db_accounts db" acc_id i]
  by (auto simp: accounts_ok_def delete_account_row_def set_remove_by list_all_iff)

lemma each_id_ok:
  assumes "\<And>a db. accounts_ok db \<Longrightarrow> accounts_ok (snd (act a db))"
  shows "accounts_ok db \<Longrightarrow> accounts_ok (snd (each_id act ids db))"
  by (induction ids arbitrary: db) (auto simp: Let_def split_beta assms split: option.split)

lemma pick_profile_sound:
  assumes "find_by prof_arn (makeProfiles a) arn = Some p" "row_ok a"
  shows "row_ok (a\<lparr>acc_profileArn := prof_arn p, acc_profileArnPinned := True, acc_activeRegion := prof_region p\<rparr>)"
proof -
  let ?b = "a\<lparr>acc_profileArn := prof_arn p, acc_profileArnPinned := True, acc_activeRegion := prof_region p\<rparr>"
  have p: "p \<in> set (makeProfiles a)" using find_by_Some [OF assms(1)] by simp
  have "prof_arn p \<in> prof_arn ` set (makeProfiles ?b)"
    using p by (auto simp: makeProfiles_def mock_isApiKey_def or_text_def Let_def split: if_splits)
  with assms(2) show ?thesis by (simp add: row_ok_def offered_def)
qed

lemma modify_found:
  "find_by key rows k = Some r \<Longrightarrow> list_all P rows \<Longrightarrow> P (f r) \<Longrightarrow> list_all P (modify_by key k f rows)"
  by (induction rows) (auto split: if_splits)

lemma change_found:
  assumes "accounts_ok db" "findAccount db i = Some a" "keeps_id f" "row_ok (f a)"
  shows "accounts_ok (change_account i f db)"
proof -
  have ids: "map acc_id (modify_by acc_id i f (db_accounts db)) = map acc_id (db_accounts db)"
    using assms(3) by (intro map_key_modify_by) (simp add: keeps_id_def)
  then have "acc_id ` set (modify_by acc_id i f (db_accounts db)) = acc_id ` set (db_accounts db)"
    by (metis set_map)
  with ids assms show ?thesis
    by (simp add: accounts_ok_def change_account_def findAccount_def modify_found)
qed

lemma guarded_accounts_ok: "accounts_ok db \<Longrightarrow> accounts_ok (fst (snd (h db))) \<Longrightarrow> accounts_ok (fst (snd (guarded token h db)))"
  by (rule guarded_invariant)

lemma with_account_ok:
  assumes "accounts_ok db" "\<And>a. findAccount db i = Some a \<Longrightarrow> accounts_ok (fst (snd (h a)))"
  shows "accounts_ok (fst (snd (with_account i db h)))"
  using assms by (simp add: with_account_def split: option.split)

lemma batch_acts_ok:
  "accounts_ok db \<Longrightarrow> accounts_ok (snd (act_enable a db))" "accounts_ok db \<Longrightarrow> accounts_ok (snd (act_disable a db))"
  "accounts_ok db \<Longrightarrow> accounts_ok (snd (act_refresh now a db))" "accounts_ok db \<Longrightarrow> accounts_ok (snd (act_refresh_models a db))"
  "accounts_ok db \<Longrightarrow> accounts_ok (snd (act_delete a db))"
  using change_account_ok [OF sound_comp [OF sound_unsilence sound_enable]]
  by (auto simp: act_enable_def act_disable_def act_refresh_def act_refresh_models_def act_delete_def
      intro: change_account_ok delete_account_row_ok)

lemma batch_run_ok: "accounts_ok db \<Longrightarrow> accounts_ok (fst (snd (batch_run now ids action db)))"
  by (cases action) (auto simp: batch_run_def eachRequested_def Let_def split_beta intro!: each_id_ok batch_acts_ok)

subsection \<open>Properties\<close>

text \<open>C4: The accounts table stays sound under every account endpoint: ids are unique, secrets belong to
  accounts of the list, an account is silenced exactly when a reason and a time are recorded, and a
  pinned profile is one the server offers for that account.\<close>

theorem accounts_stay_sound:
  assumes "accounts_ok db" and "now \<noteq> 0"
  shows "accounts_ok (fst (snd (put_account token now i body db))) \<and>
    accounts_ok (fst (snd (delete_account token i db))) \<and>
    accounts_ok (fst (snd (post_batch token now body db))) \<and>
    accounts_ok (fst (snd (post_refresh token now i db))) \<and>
    accounts_ok (fst (snd (get_overage token now i db))) \<and>
    accounts_ok (fst (snd (post_overage token now i body db))) \<and>
    accounts_ok (fst (snd (post_profile token i body db)))"
proof (intro conjI)
  note ok = assms(1)
  note changed = change_account_ok [OF _ ok]
  note upd = sound_updates [THEN changed]
  have update: "accounts_ok (change_account i (applyUpdate now fs) db)" for fs
    by (rule changed [OF sound_applyUpdate [OF assms(2)]])
  show "accounts_ok (fst (snd (put_account token now i body db)))"
    unfolding put_account_def
    by (rule guarded_accounts_ok [OF ok]) (simp add: ok update with_account_def split: option.split)
  show "accounts_ok (fst (snd (delete_account token i db)))"
    unfolding delete_account_def by (rule guarded_accounts_ok [OF ok]) (simp add: delete_account_row_ok ok)
  show "accounts_ok (fst (snd (post_batch token now body db)))"
    unfolding post_batch_def Let_def
    by (rule guarded_accounts_ok [OF ok]) (simp add: ok batch_run_ok split: option.split)
  show "accounts_ok (fst (snd (post_refresh token now i db)))"
    unfolding post_refresh_def by (rule guarded_accounts_ok [OF ok], rule with_account_ok [OF ok]) (simp add: upd)
  show "accounts_ok (fst (snd (get_overage token now i db)))"
    unfolding get_overage_def
    by (rule guarded_accounts_ok [OF ok], rule with_account_ok [OF ok]) (simp add: upd makeOverage_def)
  show "accounts_ok (fst (snd (post_overage token now i body db)))"
    unfolding post_overage_def Let_def
    by (rule guarded_accounts_ok [OF ok]) (simp add: ok upd with_account_def split: option.split)
  have picked: "accounts_ok (change_account i (\<lambda>a. a\<lparr>acc_profileArn := prof_arn p, acc_profileArnPinned := True,
      acc_activeRegion := prof_region p\<rparr>) db)"
    if "findAccount db i = Some a" "find_by prof_arn (makeProfiles a) arn = Some p" for a arn p
  proof (rule change_found [OF ok that(1)])
    have "a \<in> set (db_accounts db)" using find_by_Some [of acc_id "db_accounts db" i a] that(1) by (simp add: findAccount_def)
    then have "row_ok a" using ok by (simp add: accounts_ok_def list_all_iff)
    from pick_profile_sound [OF that(2) this]
    show "row_ok (a\<lparr>acc_profileArn := prof_arn p, acc_profileArnPinned := True, acc_activeRegion := prof_region p\<rparr>)" .
  qed (simp add: keeps_id_def)
  have pick: "accounts_ok (fst (snd (pick_profile i fs db a)))" if "findAccount db i = Some a" for fs a
  proof -
    let ?arn = "case as_string (own fs ''profileArn'') of None \<Rightarrow> [] | Some s \<Rightarrow> trim s"
    have "accounts_ok (change_account i (\<lambda>a. a\<lparr>acc_profileArnPinned := False\<rparr>) db)"
      using ok by (intro change_account_ok sound_updates)
    with picked [OF that] ok show ?thesis
      by (cases "find_by prof_arn (makeProfiles a) ?arn") (simp_all add: pick_profile_def Let_def)
  qed
  show "accounts_ok (fst (snd (post_profile token i body db)))"
    unfolding post_profile_def
    by (rule guarded_accounts_ok [OF ok]) (simp add: ok pick with_account_def split: option.split)
qed

definition sample_accounts_db :: mock_db where
  "sample_accounts_db = (seedEmptyDb ''pw'' False 0)\<lparr>db_accounts :=
     [sample_account, sample_account\<lparr>acc_id := ''a2'', acc_banStatus := ''BANNED'', acc_enabled := False\<rparr>]\<rparr>"

lemma sample_accounts_ok: "accounts_ok sample_accounts_db"
  by (simp add: accounts_ok_def sample_accounts_db_def seedEmptyDb_def sample_account_def row_ok_def)

theorem accounts_stay_sound_witness:
  "accounts_ok (fst (snd (put_account ''mock-t'' 7 ''a1'' (Some (JObj [(''silent'', JBool True)])) sample_accounts_db))) \<and>
   accounts_ok (fst (snd (delete_account ''mock-t'' ''a2'' sample_accounts_db)))"
  using accounts_stay_sound [OF sample_accounts_ok, of 7 "''mock-t''" "''a1''" "Some (JObj [(''silent'', JBool True)])"]
    accounts_stay_sound [OF sample_accounts_ok, of 7 "''mock-t''" "''a2''" None] by simp

text \<open>What a batch means: each account asked for is changed once, or taken out.\<close>

fun batch_effect :: "int \<Rightarrow> batch_action \<Rightarrow> account \<Rightarrow> account option" where
  "batch_effect now ActEnable a = Some (unsilence (enableAccount a))"
| "batch_effect now ActDisable a = Some (a\<lparr>acc_enabled := False\<rparr>)"
| "batch_effect now ActRefresh a =
     Some (if acc_banStatus a = ''SUSPENDED'' then a\<lparr>acc_enabled := False\<rparr> else a\<lparr>acc_lastRefresh := now\<rparr>)"
| "batch_effect now ActRefreshModels a = Some a"
| "batch_effect now ActDelete a = None"

fun batch_results :: "batch_accounts_response \<Rightarrow> account_action_result list" where
  "batch_results (BatchEnableDisable ok failed rs) = rs"
| "batch_results (BatchRefresh refreshed suspended failed rs) = rs"
| "batch_results (BatchRefreshModels ok failed models rs) = rs"
| "batch_results (BatchDelete ok failed rs) = rs"

fun batch_failed :: "batch_accounts_response \<Rightarrow> int" where
  "batch_failed (BatchEnableDisable ok failed rs) = failed"
| "batch_failed (BatchRefresh refreshed suspended failed rs) = failed"
| "batch_failed (BatchRefreshModels ok failed models rs) = failed"
| "batch_failed (BatchDelete ok failed rs) = failed"

fun batch_act :: "int \<Rightarrow> batch_action \<Rightarrow> account_act" where
  "batch_act now ActEnable = act_enable"
| "batch_act now ActDisable = act_disable"
| "batch_act now ActRefresh = act_refresh now"
| "batch_act now ActRefreshModels = act_refresh_models"
| "batch_act now ActDelete = act_delete"

fun touch :: "int \<Rightarrow> batch_action \<Rightarrow> string list \<Rightarrow> account list \<Rightarrow> account list" where
  "touch now action ids [] = []"
| "touch now action ids (a # rows) =
     (case if acc_id a \<in> set ids then batch_effect now action a else Some a of
        None \<Rightarrow> touch now action ids rows
      | Some b \<Rightarrow> b # touch now action ids rows)"

lemma batch_effect_id: "batch_effect now action a = Some b \<Longrightarrow> acc_id b = acc_id a"
  by (cases action) (auto simp: unsilence_def enableAccount_def Let_def)

lemma touch_ids: "acc_id ` set (touch now action ids rows) \<subseteq> acc_id ` set rows"
  by (induction rows) (auto dest: batch_effect_id split: option.splits if_splits)

lemma touch_nothing: "set ids \<inter> acc_id ` set rows = {} \<Longrightarrow> touch now action ids rows = rows"
  by (induction rows) auto

lemma touch_one:
  assumes "distinct (map acc_id rows)" "find_by acc_id rows i = Some a"
  shows "touch now action [i] rows =
    (case batch_effect now action a of None \<Rightarrow> remove_by acc_id i rows
     | Some b \<Rightarrow> modify_by acc_id i (\<lambda>_. b) rows)"
  using assms
proof (induction rows)
  case (Cons r rows)
  show ?case
  proof (cases "acc_id r = i")
    case True
    then have "touch now action [i] rows = rows" "remove_by acc_id i rows = rows"
      using Cons.prems(1) touch_nothing [of "[i]" rows] by (auto simp: remove_by_def image_iff filter_id_conv)
    with True Cons.prems show ?thesis by (simp add: remove_by_def split: option.split)
  next
    case False
    with Cons show ?thesis by (simp add: remove_by_def split: option.split)
  qed
qed simp

lemma touch_Cons: "i \<notin> set ids \<Longrightarrow> touch now action (i # ids) rows = touch now action ids (touch now action [i] rows)"
  by (induction rows) (auto dest: batch_effect_id split: option.split)

lemma touch_absent: "i \<notin> acc_id ` set rows \<Longrightarrow> touch now action (i # ids) rows = touch now action ids rows"
  by (induction rows) (auto split: option.split)

lemma touch_keeps: "j \<noteq> i \<Longrightarrow> j \<in> acc_id ` set (touch now action [i] rows) \<longleftrightarrow> j \<in> acc_id ` set rows"
  by (induction rows) (auto dest: batch_effect_id split: option.split)

lemma touch_distinct: "distinct (map acc_id rows) \<Longrightarrow> distinct (map acc_id (touch now action ids rows))"
proof (induction rows)
  case (Cons a rows)
  have "acc_id a \<notin> acc_id ` set (touch now action ids rows)"
    using Cons.prems touch_ids [of now action ids rows] by auto
  with Cons show ?case by (auto dest: batch_effect_id split: option.split if_split)
qed simp

text \<open>One act on the account found is one step of the batch's meaning.\<close>

lemma batch_act_touch:
  assumes "distinct (map acc_id (db_accounts db))" "findAccount db i = Some a"
  shows "db_accounts (snd (batch_act now action a db)) = touch now action [i] (db_accounts db)"
proof -
  have i: "acc_id a = i" using find_by_Some assms(2) by (fastforce simp: findAccount_def)
  have eq: "modify_by acc_id i f rows = modify_by acc_id i (\<lambda>_. f a) rows" if "find_by acc_id rows i = Some a" for f rows
    using that by (induction rows) (auto split: if_splits)
  note found = assms(2) [unfolded findAccount_def]
  have same: "modify_by acc_id i (\<lambda>_. a) rows = rows" if "find_by acc_id rows i = Some a" for rows
    using that by (induction rows) (auto split: if_splits)
  show ?thesis
    unfolding touch_one [OF assms(1) found]
    by (cases action)
      (auto simp: act_enable_def act_disable_def act_refresh_def act_refresh_models_def act_delete_def i
        change_account_def delete_account_row_def same [OF found] intro: eq [OF found])
qed

lemma each_id_batch:
  assumes "distinct ids" "distinct (map acc_id (db_accounts db))"
  shows "db_accounts (snd (each_id (batch_act now action) ids db)) = touch now action ids (db_accounts db) \<and>
    map res_id (fst (each_id (batch_act now action) ids db)) = ids \<and>
    list_all (\<lambda>r. res_ok r \<longleftrightarrow> res_id r \<in> acc_id ` set (db_accounts db)) (fst (each_id (batch_act now action) ids db))"
  using assms
proof (induction ids arbitrary: db)
  case Nil
  then show ?case using touch_nothing [of "[]" "db_accounts db"] by simp
next
  case (Cons i ids)
  show ?case
  proof (cases "findAccount db i")
    case None
    then have "i \<notin> acc_id ` set (db_accounts db)" by (simp add: findAccount_def find_by_None)
    with Cons None show ?thesis by (simp add: Let_def split_beta touch_absent)
  next
    case (Some a)
    define db1 where "db1 = snd (batch_act now action a db)"
    have acc: "db_accounts db1 = touch now action [i] (db_accounts db)"
      using batch_act_touch [OF Cons.prems(2) Some] by (simp add: db1_def)
    have IH: "db_accounts (snd (each_id (batch_act now action) ids db1)) = touch now action ids (db_accounts db1) \<and>
      map res_id (fst (each_id (batch_act now action) ids db1)) = ids \<and>
      list_all (\<lambda>r. res_ok r \<longleftrightarrow> res_id r \<in> acc_id ` set (db_accounts db1)) (fst (each_id (batch_act now action) ids db1))"
      using Cons.prems by (intro Cons.IH) (simp_all add: acc touch_distinct)
    have i: "i \<notin> set ids" using Cons.prems(1) by simp
    have "i \<in> acc_id ` set (db_accounts db)"
      using find_by_None [of acc_id "db_accounts db" i] Some by (simp add: findAccount_def)
    moreover have "list_all (\<lambda>r. res_ok r \<longleftrightarrow> res_id r \<in> acc_id ` set (db_accounts db)) (fst (each_id (batch_act now action) ids db1))"
      unfolding list_all_iff
    proof
      fix r assume r: "r \<in> set (fst (each_id (batch_act now action) ids db1))"
      then have "res_id r \<in> set (map res_id (fst (each_id (batch_act now action) ids db1)))" by simp
      with IH i have "res_id r \<noteq> i" by auto
      then have "res_id r \<in> acc_id ` set (db_accounts db1) \<longleftrightarrow> res_id r \<in> acc_id ` set (db_accounts db)"
        unfolding acc by (rule touch_keeps)
      then show "res_ok r \<longleftrightarrow> res_id r \<in> acc_id ` set (db_accounts db)" using IH r by (simp add: list_all_iff)
    qed
    moreover have "each_id (batch_act now action) (i # ids) db =
        (\<lparr>res_id = i, res_ok = True, res_error = None, res_status = fst (batch_act now action a db)\<rparr> #
           fst (each_id (batch_act now action) ids db1), snd (each_id (batch_act now action) ids db1))"
      by (simp add: Some db1_def split_beta Let_def)
    ultimately show ?thesis using IH by (simp add: acc touch_Cons [OF i])
  qed
qed

lemma distinct_ids_spec: "distinct (distinct_ids ids) \<and> set (distinct_ids ids) = set ids"
  by (simp add: distinct_ids_def)

lemma touch_cong: "set ids = set ids' \<Longrightarrow> touch now action ids rows = touch now action ids' rows"
  by (induction rows) (auto split: option.split)

lemma batch_run_each:
  assumes "batch_run now ids action db = (Inr reply, db', sent)"
  shows "db' = snd (each_id (batch_act now action) (distinct_ids ids) db)"
    and "batch_results reply = fst (each_id (batch_act now action) (distinct_ids ids) db)"
    and "batch_failed reply = snd (countOk (fst (each_id (batch_act now action) (distinct_ids ids) db)))"
  using assms by (cases action; auto simp: batch_run_def eachRequested_def Let_def split_beta)+

lemma batch_run_touch:
  assumes "distinct (map acc_id (db_accounts db))" and "batch_run now ids action db = (Inr reply, db', sent)"
  shows "db_accounts db' = touch now action ids (db_accounts db)"
  using each_id_batch [where ids = "distinct_ids ids" and now = now and action = action,
      OF conjunct1 [OF distinct_ids_spec] assms(1)]
    distinct_ids_spec [of ids] touch_cong [of "distinct_ids ids" ids now action]
  by (simp add: batch_run_each(1) [OF assms(2)])

lemma enabled_status:
  "accountStatus (unsilence (enableAccount a)) t \<notin> {Banned, Suspended, Disabled} \<and>
   acc_enabled (unsilence (enableAccount a)) \<and> \<not> acc_silent (unsilence (enableAccount a)) \<and>
   \<not> mock_isBanned (unsilence (enableAccount a))"
  by (simp add: accountStatus_def isBanned_def isHeld_def DISABLED_BAN_STATUS_def enableAccount_def
      unsilence_def mock_isBanned_def Let_def)

lemma touch_enabled: "list_all (\<lambda>b. acc_id b \<in> set ids \<longrightarrow> (\<exists>a. b = unsilence (enableAccount a)))
    (touch now ActEnable ids rows)"
proof (induction rows)
  case (Cons a rows)
  then show ?case by (cases "acc_id a \<in> set ids") auto
qed simp

text \<open>C12: A batch does what it says to each account once: whatever the action and however often an id is
  repeated, the accounts afterwards are the ones before with every account asked for changed by the
  action (or gone), the rest untouched and the order kept; there is one result per distinct id in the
  order of the request, successful exactly when the account existed, and the failures are counted.\<close>

theorem batch_exact:
  assumes "distinct (map acc_id (db_accounts db))"
    and "batch_run now ids action db = (Inr reply, db', sent)"
  shows "db_accounts db' = touch now action ids (db_accounts db) \<and>
    map res_id (batch_results reply) = distinct_ids ids \<and>
    list_all (\<lambda>r. res_ok r \<longleftrightarrow> res_id r \<in> acc_id ` set (db_accounts db)) (batch_results reply) \<and>
    batch_failed reply = int (card (set ids - acc_id ` set (db_accounts db)))"
proof -
  let ?out = "each_id (batch_act now action) (distinct_ids ids) db"
  note out = batch_run_each [OF assms(2)]
  note spec = each_id_batch [where ids = "distinct_ids ids" and now = now and action = action,
      OF conjunct1 [OF distinct_ids_spec] assms(1)]
  let ?rs = "fst ?out" and ?known = "acc_id ` set (db_accounts db)"
  have "snd (countOk ?rs) = int (length (filter (\<lambda>r. \<not> res_ok r) ?rs))"
    using sum_length_filter_compl [of res_ok ?rs] by (simp add: countOk_def Let_def)
  also have "filter (\<lambda>r. \<not> res_ok r) ?rs = filter (\<lambda>r. res_id r \<notin> ?known) ?rs"
    using spec by (intro filter_cong) (auto simp: list_all_iff)
  also have "length (filter (\<lambda>r. res_id r \<notin> ?known) ?rs) = length (filter (\<lambda>i. i \<notin> ?known) (map res_id ?rs))"
    by (simp add: filter_map comp_def)
  also have "\<dots> = card (set (filter (\<lambda>i. i \<notin> ?known) (distinct_ids ids)))"
    using spec distinct_ids_spec [of ids] distinct_card [of "filter (\<lambda>i. i \<notin> ?known) (distinct_ids ids)"]
    by (simp only: distinct_filter)
  also have "set (filter (\<lambda>i. i \<notin> ?known) (distinct_ids ids)) = set ids - ?known"
    using distinct_ids_spec [of ids] by auto
  finally have "batch_failed reply = int (card (set ids - ?known))" by (simp only: out(3))
  then show ?thesis
    using spec distinct_ids_spec [of ids] touch_cong [of "distinct_ids ids" ids now action] by (simp add: out)
qed

theorem batch_exact_witness:
  "map acc_id (db_accounts (fst (snd (batch_run 7 [''a2'', ''x'', ''a2''] ActDelete sample_accounts_db)))) = [''a1'']"
proof -
  have d: "distinct (map acc_id (db_accounts sample_accounts_db))"
    using sample_accounts_ok by (simp add: accounts_ok_def)
  obtain reply db' sent where b: "batch_run 7 [''a2'', ''x'', ''a2''] ActDelete sample_accounts_db = (Inr reply, db', sent)"
    by (simp add: batch_run_def Let_def split_beta)
  from batch_exact [OF d b] b show ?thesis
    by (simp add: sample_accounts_db_def seedEmptyDb_def sample_account_def)
qed

text \<open>Enabling lifts what held an account: after a batch enable, every account asked for is enabled,
  not silenced and not banned, counts as one the server may use as far as bans go, and the page shows
  it neither as banned, nor suspended, nor disabled, at any time.\<close>

theorem enabling_lifts_bans:
  assumes "distinct (map acc_id (db_accounts db))"
    and "batch_run now ids ActEnable db = (Inr reply, db', sent)"
  shows "list_all (\<lambda>b. acc_id b \<in> set ids \<longrightarrow> acc_enabled b \<and> \<not> acc_silent b \<and> \<not> mock_isBanned b \<and>
    accountStatus b t \<notin> {Banned, Suspended, Disabled}) (db_accounts db')"
  unfolding batch_run_touch [OF assms] list_all_iff
proof (intro ballI impI)
  fix b assume "b \<in> set (touch now ActEnable ids (db_accounts db))" "acc_id b \<in> set ids"
  with touch_enabled [of ids now "db_accounts db"] obtain a where "b = unsilence (enableAccount a)"
    unfolding list_all_iff by blast
  then show "acc_enabled b \<and> \<not> acc_silent b \<and> \<not> mock_isBanned b \<and> accountStatus b t \<notin> {Banned, Suspended, Disabled}"
    using enabled_status [of a t] by blast
qed

theorem enabling_lifts_bans_witness:
  "list_all (\<lambda>b. acc_id b = ''a2'' \<longrightarrow> acc_enabled b) (db_accounts (fst (snd (batch_run 7 [''a2''] ActEnable sample_accounts_db))))"
proof -
  have d: "distinct (map acc_id (db_accounts sample_accounts_db))"
    using sample_accounts_ok by (simp add: accounts_ok_def)
  obtain reply db' sent where b: "batch_run 7 [''a2''] ActEnable sample_accounts_db = (Inr reply, db', sent)"
    by (simp add: batch_run_def Let_def split_beta)
  from enabling_lifts_bans [OF d b, of 0] b show ?thesis by (simp add: list_all_iff)
qed

text \<open>A deleted account leaves nothing behind: its row and its secrets are gone, reading, changing or
  refreshing it answers 404 and changes nothing, no other account or secret is affected, and exactly
  one change is announced.\<close>

theorem deleted_account_gone:
  fixes token i j :: string and now :: int and db :: mock_db and fs :: "(string \<times> json) list"
  assumes "startsWith token ''mock-''"
  defines "db' \<equiv> fst (snd (delete_account token i db))"
  shows "findAccount db' i = None \<and> find_by fst (db_secrets db') i = None \<and>
    fst (get_full token i db') = Inl (jsonError 404 ''Account not found'' None) \<and>
    post_refresh token now i db' = (Inl (jsonError 404 ''Account not found'' None), db', []) \<and>
    put_account token now i (Some (JObj fs)) db' = (Inl (jsonError 404 ''Account not found'' None), db', []) \<and>
    (j = i \<or> findAccount db' j = findAccount db j \<and> find_by fst (db_secrets db') j = find_by fst (db_secrets db) j) \<and>
    snd (snd (delete_account token i db)) = [(Accounts_changed, i)]"
proof -
  have db': "db' = delete_account_row i db" by (simp add: db'_def delete_account_def guarded_ok assms(1))
  have "findAccount db' i = None" "j \<noteq> i \<Longrightarrow> findAccount db' j = findAccount db j"
    unfolding db' by (rule accounts.delete_gone, rule accounts.delete_frame)
  moreover have "find_by fst (db_secrets db') i = None"
    "j \<noteq> i \<Longrightarrow> find_by fst (db_secrets db') j = find_by fst (db_secrets db) j"
    by (simp_all add: db' delete_account_row_def find_remove_by)
  ultimately show ?thesis using assms(1)
    by (auto simp: get_full_def post_refresh_def put_account_def delete_account_def accountsChanged_def
        guarded_ok with_account_def refuse_def read_object_def)
qed

theorem deleted_account_gone_witness:
  "findAccount (fst (snd (delete_account ''mock-t'' ''a1'' sample_accounts_db))) ''a1'' = None"
  using deleted_account_gone [of "''mock-t''" "''a1''" sample_accounts_db 0 "[]" "''a2''"]
  by (simp add: startsWith_def)

text \<open>C40: A refused account request does nothing: whatever the token, the id and the body, an account endpoint
  that answers an error has left the store as it was and announced nothing; also the reading ones, of which the
  overage writes to the store when it is found.\<close>

theorem account_refusals_inert:
  shows "refusal_is_inert db (put_account token now i body db) \<and>
    refusal_is_inert db (delete_account token i db) \<and>
    refusal_is_inert db (post_batch token now body db) \<and>
    refusal_is_inert db (post_refresh token now i db) \<and>
    refusal_is_inert db (post_test token i body db) \<and>
    refusal_is_inert db (get_overage token now i db) \<and>
    refusal_is_inert db (post_overage token now i body db) \<and>
    refusal_is_inert db (get_profiles token i db) \<and>
    refusal_is_inert db (post_profile token i body db) \<and>
    refusal_is_inert db (get_accounts token db) \<and>
    refusal_is_inert db (post_models_refresh_all token db) \<and>
    refusal_is_inert db (post_models_refresh token i db) \<and>
    refusal_is_inert db (get_models_cached token i db) \<and>
    refusal_is_inert db (get_models token i db) \<and>
    refusal_is_inert db (get_full token i db) \<and>
    refusal_is_inert db (post_export token nowMs body db)"
proof -
  have found: "refusal_is_inert db (with_account i db h)" if "\<And>a. refusal_is_inert db (h a)" for h :: "account \<Rightarrow> 'b reply \<times> mock_db \<times> event list"
    using that by (simp add: with_account_def split: option.split)
  have batch: "refusal_is_inert db (batch_run now ids action db)" for ids action
    by (cases action) (simp_all add: batch_run_def Let_def split_beta)
  have pick: "refusal_is_inert db (pick_profile i fs db a)" for fs a
    by (simp add: pick_profile_def Let_def split: option.split)
  show ?thesis
    unfolding put_account_def delete_account_def post_batch_def post_refresh_def post_test_def
      get_overage_def post_overage_def get_profiles_def post_profile_def get_accounts_def post_models_refresh_all_def
      post_models_refresh_def get_models_cached_def get_models_def get_full_def post_export_def Let_def
    by (intro conjI inert_guarded) (auto simp: batch pick split: option.split intro!: found)
qed

text \<open>The overage switch changes the account and announces nothing, unlike every other account write.\<close>

theorem overage_write_unannounced:
  shows "snd (snd (post_overage token now i body db)) = [] \<and>
    fst (snd (post_overage ''mock-t'' 7 ''a1'' (Some (JObj [(''enabled'', JBool True)])) sample_accounts_db)) \<noteq>
      sample_accounts_db"
  by (simp add: post_overage_def guarded_def with_account_def requireAuth_def startsWith_def refuse_def Let_def
      sample_accounts_db_def seedEmptyDb_def sample_account_def findAccount_def change_account_def read_object_def
      own_def makeOverage_def toUpperCase_def split: option.split)

end
