(* ===== verification/Session_Store.thy ===== *)
theory Session_Store
  imports Js_Values
begin

text \<open>
  The admin session in the browser: guarded Web Storage (src/ui/src/lib/storage.ts) and the session
  kept in it (src/ui/src/lib/auth/session.ts). An area may be out of reach (its accessor throws) or
  full (\<open>setItem\<close> throws while reads and removals work). The world holds both areas, the module's
  snapshot, the notifications subscribers got, oldest first, and the ones queued as microtasks.
\<close>

record area =
  ar_items :: "(string \<times> string) list"
  ar_full :: bool

record session =
  ses_token :: string
  ses_expiresAt :: int
  ses_remember :: bool

datatype session_change = SignedIn | SignedOut | ExpiredSession | Restored | PasswordChanged

record world =
  w_session :: "area option"
  w_local :: "area option"
  w_snapshot :: "session option"
  w_notified :: "(session option \<times> session_change) list"
  w_queued :: "(session option \<times> session_change) list"

datatype storage_area = LocalArea | SessionArea

subsection \<open>Storage\<close>

definition getArea :: "storage_area \<Rightarrow> world \<Rightarrow> area option" where
  "getArea a w = (case a of SessionArea \<Rightarrow> w_session w | LocalArea \<Rightarrow> w_local w)"

definition putArea :: "storage_area \<Rightarrow> area option \<Rightarrow> world \<Rightarrow> world" where
  "putArea a s w = (case a of SessionArea \<Rightarrow> w\<lparr>w_session := s\<rparr> | LocalArea \<Rightarrow> w\<lparr>w_local := s\<rparr>)"

definition readStorage :: "string \<Rightarrow> storage_area \<Rightarrow> world \<Rightarrow> string option" where
  "readStorage key a w = (case getArea a w of None \<Rightarrow> None | Some s \<Rightarrow> map_of (ar_items s) key)"

definition store_item :: "string \<Rightarrow> string option \<Rightarrow> area \<Rightarrow> area" where
  "store_item key v s = (case v of
      None \<Rightarrow> s\<lparr>ar_items := filter (\<lambda>(k, _). k \<noteq> key) (ar_items s)\<rparr>
    | Some x \<Rightarrow> if ar_full s then s
        else s\<lparr>ar_items := (key, x) # filter (\<lambda>(k, _). k \<noteq> key) (ar_items s)\<rparr>)"

definition writeStorage :: "string \<Rightarrow> string option \<Rightarrow> storage_area \<Rightarrow> world \<Rightarrow> world" where
  "writeStorage key v a w = putArea a (map_option (store_item key v) (getArea a w)) w"

subsection \<open>The session\<close>

definition TOKEN_KEY :: string where "TOKEN_KEY = ''kiro_admin_token''"
definition TOKEN_EXP_KEY :: string where "TOKEN_EXP_KEY = ''kiro_admin_token_exp''"
definition REMEMBER_KEY :: string where "REMEMBER_KEY = ''kiro_remember''"

definition notify :: "session option \<Rightarrow> session_change \<Rightarrow> world \<Rightarrow> world" where
  "notify s reason w = w\<lparr>w_notified := w_notified w @ [(s, reason)]\<rparr>"

definition removeToken :: "storage_area \<Rightarrow> world \<Rightarrow> world" where
  "removeToken a w = writeStorage TOKEN_EXP_KEY None a (writeStorage TOKEN_KEY None a w)"

text \<open>One round of the loop of \<open>readStored\<close>: what the area holds, and whether it held an expired token.\<close>

definition read_area :: "storage_area \<Rightarrow> int \<Rightarrow> world \<Rightarrow> session option \<times> bool" where
  "read_area a now w = (case readStorage TOKEN_KEY a w of
      None \<Rightarrow> (None, False)
    | Some token \<Rightarrow>
        if token = [] then (None, False)
        else
          (let stored = (case readStorage TOKEN_EXP_KEY a w of None \<Rightarrow> ''0'' | Some s \<Rightarrow> s);
               expiresAt = (case parse_int stored of None \<Rightarrow> 0 | Some n \<Rightarrow> n)
           in if expiresAt \<noteq> 0 \<and> now \<ge> expiresAt then (None, True)
              else (Some \<lparr>ses_token = token, ses_expiresAt = expiresAt, ses_remember = (a = LocalArea)\<rparr>, False)))"

definition readStored :: "int \<Rightarrow> world \<Rightarrow> session option \<times> world" where
  "readStored now w =
     (let (s1, gone1) = read_area SessionArea now w;
          w1 = (if gone1 then removeToken SessionArea w else w)
      in case s1 of
           Some s \<Rightarrow> (Some s, w1)
         | None \<Rightarrow>
             (let (s2, gone2) = read_area LocalArea now w1;
                  w2 = (if gone2 then removeToken LocalArea w1 else w1);
                  w3 = (if (gone1 \<or> gone2) \<and> s2 = None
                        then w2\<lparr>w_queued := w_queued w2 @ [(None, ExpiredSession)]\<rparr> else w2)
              in (s2, w3)))"

definition getSession :: "int \<Rightarrow> world \<Rightarrow> session option \<times> world" where
  "getSession now w =
     (let (found, w') = readStored now w in
      if found \<noteq> None \<and> found = w_snapshot w' then (w_snapshot w', w')
      else (found, w'\<lparr>w_snapshot := found\<rparr>))"

definition getToken :: "int \<Rightarrow> world \<Rightarrow> string option \<times> world" where
  "getToken now w = (let (s, w') = getSession now w in (map_option ses_token s, w'))"

definition isAuthenticated :: "int \<Rightarrow> world \<Rightarrow> bool" where
  "isAuthenticated now w \<longleftrightarrow> fst (getSession now w) \<noteq> None"

definition getRememberPreference :: "world \<Rightarrow> bool" where
  "getRememberPreference w \<longleftrightarrow> readStorage REMEMBER_KEY LocalArea w = Some ''1''"

definition setSession :: "session \<Rightarrow> session_change \<Rightarrow> int \<Rightarrow> world \<Rightarrow> world" where
  "setSession s reason now w =
     (let a = (if ses_remember s then LocalArea else SessionArea);
          w1 = removeToken (if ses_remember s then SessionArea else LocalArea) w;
          w2 = writeStorage TOKEN_KEY (Some (ses_token s)) a w1;
          w3 = writeStorage TOKEN_EXP_KEY (Some (string_of_int (ses_expiresAt s))) a w2;
          w4 = writeStorage REMEMBER_KEY (if ses_remember s then Some ''1'' else None) LocalArea w3;
          (current, w5) = getSession now w4
      in notify current reason w5)"

definition clearSession :: "session_change \<Rightarrow> world \<Rightarrow> world" where
  "clearSession reason w =
     notify None reason ((removeToken LocalArea (removeToken SessionArea w))\<lparr>w_snapshot := None\<rparr>)"

text \<open>
  \<open>startSession\<close>: the answer of \<open>createSession\<close> (the token and expiry, \<open>Inl\<close> when it threw) is given.
\<close>

definition startSession ::
  "'e + (string \<times> int) \<Rightarrow> 'e \<Rightarrow> bool \<Rightarrow> session_change \<Rightarrow> int \<Rightarrow> world \<Rightarrow> ('e + unit) \<times> world" where
  "startSession answer unauthorized remember reason now w = (case answer of
      Inl e \<Rightarrow> (Inl e, w)
    | Inr (token, expiresAt) \<Rightarrow>
        if token = [] then (Inl unauthorized, w)
        else (Inr (), setSession \<lparr>ses_token = token, ses_expiresAt = expiresAt, ses_remember = remember\<rparr> reason now w))"

definition signIn ::
  "'e + (string \<times> int) \<Rightarrow> 'e \<Rightarrow> bool \<Rightarrow> int \<Rightarrow> world \<Rightarrow> ('e + unit) \<times> world" where
  "signIn answer unauthorized remember now w = startSession answer unauthorized remember SignedIn now w"

text \<open>The local half of \<open>signOut\<close>: the deletion on the server may fail, the session ends either way.\<close>

definition signOut :: "int \<Rightarrow> world \<Rightarrow> bool \<times> world" where
  "signOut now w =
     (let (token, w') = getToken now w
      in (case token of None \<Rightarrow> False | Some t \<Rightarrow> t \<noteq> [], clearSession SignedOut w'))"

definition reauthenticate ::
  "'e + (string \<times> int) \<Rightarrow> 'e \<Rightarrow> int \<Rightarrow> world \<Rightarrow> ('e + unit) \<times> world" where
  "reauthenticate answer unauthorized now w =
     (case startSession answer unauthorized (getRememberPreference w) PasswordChanged now w of
        (Inl e, w') \<Rightarrow> (Inl e, clearSession ExpiredSession w')
      | (Inr u, w') \<Rightarrow> (Inr u, w'))"

subsection \<open>Lemmas\<close>

lemma keys_differ [simp]: "TOKEN_KEY \<noteq> TOKEN_EXP_KEY" "TOKEN_EXP_KEY \<noteq> TOKEN_KEY"
  "TOKEN_KEY \<noteq> REMEMBER_KEY" "REMEMBER_KEY \<noteq> TOKEN_KEY" "TOKEN_EXP_KEY \<noteq> REMEMBER_KEY" "REMEMBER_KEY \<noteq> TOKEN_EXP_KEY"
  by (simp_all add: TOKEN_KEY_def TOKEN_EXP_KEY_def REMEMBER_KEY_def)

lemma get_put_area [simp]: "getArea a (putArea b s w) = (if a = b then s else getArea a w)"
  by (cases a; cases b) (simp_all add: getArea_def putArea_def)

lemma area_frames [simp]:
  "getArea a (w\<lparr>w_snapshot := x\<rparr>) = getArea a w" "getArea a (w\<lparr>w_notified := n\<rparr>) = getArea a w"
  "getArea a (w\<lparr>w_queued := n\<rparr>) = getArea a w" "getArea a (notify s r w) = getArea a w"
  by (cases a; simp add: getArea_def notify_def)+

definition writable :: "storage_area \<Rightarrow> world \<Rightarrow> bool" where
  "writable a w \<longleftrightarrow> (case getArea a w of None \<Rightarrow> False | Some s \<Rightarrow> \<not> ar_full s)"

lemma map_of_without: "map_of (filter (\<lambda>(k, _). k \<noteq> j) xs) i = (if i = j then None else map_of xs i)"
  by (induction xs) auto

lemma read_write:
  "readStorage k a (writeStorage j v b w) =
    (if a = b \<and> k = j \<and> (v = None \<or> writable b w) then v else readStorage k a w)"
  by (cases v; cases "getArea b w")
    (auto simp: readStorage_def writeStorage_def store_item_def map_of_without writable_def)

lemma writable_write [simp]: "writable a (writeStorage j v b w) = writable a w"
  by (cases v; cases "getArea b w") (auto simp: writable_def writeStorage_def store_item_def)

lemma read_frames [simp]:
  "readStorage k a (w\<lparr>w_snapshot := x\<rparr>) = readStorage k a w"
  "readStorage k a (w\<lparr>w_queued := n\<rparr>) = readStorage k a w"
  "readStorage k a (notify s r w) = readStorage k a w"
  by (simp_all add: readStorage_def)

lemma read_remove: "readStorage k a (removeToken b w) =
    (if a = b \<and> (k = TOKEN_KEY \<or> k = TOKEN_EXP_KEY) then None else readStorage k a w)"
  by (auto simp: removeToken_def read_write)

lemma writable_remove [simp]: "writable a (removeToken b w) = writable a w"
  by (simp add: removeToken_def)

lemma read_area_cong:
  "readStorage TOKEN_KEY a v = readStorage TOKEN_KEY a w \<Longrightarrow>
   readStorage TOKEN_EXP_KEY a v = readStorage TOKEN_EXP_KEY a w \<Longrightarrow> read_area a now v = read_area a now w"
  by (cases "readStorage TOKEN_KEY a w"; cases "readStorage TOKEN_EXP_KEY a w") (simp_all add: read_area_def)

lemma read_area_gone [simp]: "read_area a now (removeToken a w) = (None, False)"
  by (simp add: read_area_def read_remove)

lemma read_area_other: "a \<noteq> b \<Longrightarrow> read_area a now (removeToken b w) = read_area a now w"
  by (rule read_area_cong) (auto simp: read_remove)

lemma fst_getSession: "fst (getSession now w) = fst (readStored now w)"
  by (simp add: getSession_def Let_def split_beta)

lemma fst_readStored: "fst (readStored now w) =
    (case fst (read_area SessionArea now w) of Some s \<Rightarrow> Some s | None \<Rightarrow> fst (read_area LocalArea now w))"
  by (auto simp: readStored_def Let_def split_beta read_area_other split: option.split)

lemma read_area_live: "fst (read_area a now w) = Some s \<Longrightarrow>
    ses_token s \<noteq> [] \<and> (ses_expiresAt s = 0 \<or> now < ses_expiresAt s) \<and> ses_remember s = (a = LocalArea)"
  by (auto simp: read_area_def Let_def split: option.splits if_splits)

lemma parse_string_of_int: "0 \<le> n \<Longrightarrow> parse_int (string_of_int n) = Some n"
  using parse_int_of_nat [of "nat n"] by (simp add: string_of_int_def)

lemma read_area_stored:
  assumes "readStorage TOKEN_KEY a w = Some t" "readStorage TOKEN_EXP_KEY a w = Some (string_of_int n)"
    and "t \<noteq> []" "0 \<le> n" "n = 0 \<or> now < n"
  shows "read_area a now w = (Some \<lparr>ses_token = t, ses_expiresAt = n, ses_remember = (a = LocalArea)\<rparr>, False)"
  using assms by (auto simp: read_area_def parse_string_of_int)

lemma read_area_none: "readStorage TOKEN_KEY a w = None \<Longrightarrow> read_area a now w = (None, False)"
  by (simp add: read_area_def)

text \<open>A read drops at most an expired token; the rest of the storage stays.\<close>

lemma read_after_getSession:
  "readStorage k a (snd (getSession now w)) =
    (if (k = TOKEN_KEY \<or> k = TOKEN_EXP_KEY) \<and> snd (read_area a now w) \<and>
        (a = SessionArea \<or> fst (read_area SessionArea now w) = None)
     then None else readStorage k a w)"
  by (cases a)
    (auto simp: getSession_def readStored_def Let_def split_beta read_remove read_area_other
      split: option.splits)

lemma queued_writeStorage [simp]:
  "w_queued (writeStorage k v a w) = w_queued w" "w_snapshot (writeStorage k v a w) = w_snapshot w"
  "w_notified (writeStorage k v a w) = w_notified w"
  by (cases a; simp add: writeStorage_def putArea_def)+

lemma queued_removeToken [simp]:
  "w_queued (removeToken a w) = w_queued w" "w_snapshot (removeToken a w) = w_snapshot w"
  "w_notified (removeToken a w) = w_notified w"
  by (simp_all add: removeToken_def)

lemma snapshot_getSession: "w_snapshot (snd (getSession now w)) = fst (getSession now w)"
  by (auto simp: getSession_def Let_def split_beta)

lemma notified_getSession: "w_notified (snd (getSession now w)) = w_notified w"
  by (auto simp: getSession_def readStored_def Let_def split_beta split: option.split)

lemma queued_getSession: "w_queued (snd (getSession now w)) =
    w_queued w @ (if fst (getSession now w) = None \<and>
                     (snd (read_area SessionArea now w) \<or> snd (read_area LocalArea now w))
                  then [(None, ExpiredSession)] else [])"
  by (auto simp: getSession_def readStored_def Let_def split_beta read_area_other split: option.split)

lemma gone_means_none: "snd (read_area a now w) \<Longrightarrow> fst (read_area a now w) = None"
  by (auto simp: read_area_def Let_def split: option.splits if_splits)

lemma read_area_after_getSession:
  "read_area a now (snd (getSession now w)) =
    (if snd (read_area a now w) \<and> (a = SessionArea \<or> fst (read_area SessionArea now w) = None)
     then (None, False) else read_area a now w)"
proof (cases "snd (read_area a now w) \<and> (a = SessionArea \<or> fst (read_area SessionArea now w) = None)")
  case True
  then have "readStorage TOKEN_KEY a (snd (getSession now w)) = None"
    by (simp add: read_after_getSession)
  with True show ?thesis by (simp add: read_area_none)
next
  case False
  then show ?thesis by (auto intro!: read_area_cong simp: read_after_getSession)
qed

lemma readStored_quiet:
  "\<not> snd (read_area SessionArea now w) \<Longrightarrow>
   fst (read_area SessionArea now w) \<noteq> None \<or> \<not> snd (read_area LocalArea now w) \<Longrightarrow>
   snd (readStored now w) = w"
  by (auto simp: readStored_def Let_def split_beta split: option.split)

lemma getSession_again: "getSession now (snd (getSession now w)) = getSession now w"
proof -
  let ?v = "snd (getSession now w)"
  have quiet: "snd (readStored now ?v) = ?v"
    by (rule readStored_quiet) (auto simp: read_area_after_getSession gone_means_none)
  have same: "fst (readStored now ?v) = fst (getSession now w)"
    by (auto simp: fst_getSession fst_readStored read_area_after_getSession gone_means_none
        split: option.split)
  show ?thesis
    using quiet same snapshot_getSession [of now w]
    by (auto simp: getSession_def [of now ?v] Let_def split_beta intro!: prod_eqI)
qed

lemma live_getSession: "fst (getSession now w) = Some s \<Longrightarrow>
    ses_token s \<noteq> [] \<and> (ses_expiresAt s = 0 \<or> now < ses_expiresAt s)"
  by (auto simp: fst_getSession fst_readStored split: option.splits dest: read_area_live)

lemma getSession_cleared:
  "readStorage TOKEN_KEY SessionArea w = None \<Longrightarrow> readStorage TOKEN_KEY LocalArea w = None \<Longrightarrow>
   fst (getSession now w) = None"
  by (simp add: fst_getSession fst_readStored read_area_none)

lemma read_clearSession: "readStorage k a (clearSession r w) =
    (if k = TOKEN_KEY \<or> k = TOKEN_EXP_KEY then None else readStorage k a w)"
  by (cases a) (auto simp: clearSession_def read_remove)

lemma notified_clearSession: "w_notified (clearSession r w) = w_notified w @ [(None, r)]"
  by (simp add: clearSession_def notify_def)

subsection \<open>Properties\<close>

text \<open>
  C28: signing in survives the round trip through storage. After \<open>setSession\<close> with the chosen area
  writable, every read up to the expiry returns exactly that session, the other area no longer holds
  a token, the "Stay signed in" choice reads back as given, and subscribers are told once, with the
  session and the reason.
\<close>

theorem sign_in_roundtrip:
  assumes "writable (if ses_remember s then LocalArea else SessionArea) w"
    and "ses_token s \<noteq> []" "0 \<le> ses_expiresAt s"
    and "ses_expiresAt s = 0 \<or> later < ses_expiresAt s" "now \<le> later"
  shows "fst (getSession later (setSession s reason now w)) = Some s
    \<and> readStorage TOKEN_KEY (if ses_remember s then SessionArea else LocalArea) (setSession s reason now w) = None
    \<and> getRememberPreference (setSession s reason now w) = ses_remember s
    \<and> w_notified (setSession s reason now w) = w_notified w @ [(Some s, reason)]"
proof -
  define a where "a = (if ses_remember s then LocalArea else SessionArea)"
  define b where "b = (if ses_remember s then SessionArea else LocalArea)"
  have ab: "a \<noteq> b" "b \<noteq> a" by (simp_all add: a_def b_def)
  define w4 where "w4 = writeStorage REMEMBER_KEY (if ses_remember s then Some ''1'' else None) LocalArea
    (writeStorage TOKEN_EXP_KEY (Some (string_of_int (ses_expiresAt s))) a
      (writeStorage TOKEN_KEY (Some (ses_token s)) a (removeToken b w)))"
  have wa: "writable a w" using assms(1) by (simp add: a_def)
  have "readStorage TOKEN_KEY a w4 = Some (ses_token s)"
    "readStorage TOKEN_EXP_KEY a w4 = Some (string_of_int (ses_expiresAt s))"
    using wa by (simp_all add: w4_def read_write)
  moreover have "s = \<lparr>ses_token = ses_token s, ses_expiresAt = ses_expiresAt s, ses_remember = (a = LocalArea)\<rparr>"
    by (simp add: a_def)
  ultimately have here: "read_area a t w4 = (Some s, False)" if "t \<le> later" for t
    using read_area_stored [of a w4 "ses_token s" "ses_expiresAt s" t] assms(2-4) that by auto
  have gone: "readStorage TOKEN_KEY b w4 = None"
    using ab by (simp add: w4_def read_write read_remove)
  have found: "fst (getSession t v) = Some s"
    if "read_area a t v = (Some s, False)" "readStorage TOKEN_KEY b v = None" for t v
    using that by (cases "ses_remember s") (auto simp: fst_getSession fst_readStored a_def b_def read_area_none)
  have set: "setSession s reason now w = notify (Some s) reason (snd (getSession now w4))"
    using found [OF here [OF assms(5)] gone]
    by (simp add: setSession_def Let_def split_beta a_def b_def w4_def)
  have quiet: "readStorage k c (snd (getSession now w4)) = readStorage k c w4" for k c
    using here [OF assms(5)] read_area_none [OF gone] ab
    by (cases c; cases "ses_remember s") (simp_all add: read_after_getSession a_def b_def)
  have later: "read_area a later (setSession s reason now w) = (Some s, False)"
    using here [of later] read_area_cong [of a "setSession s reason now w" w4 later] by (simp add: set quiet)
  have remembered: "readStorage REMEMBER_KEY LocalArea w4 = Some ''1'' \<longleftrightarrow> ses_remember s"
    using wa by (auto simp: w4_def read_write a_def)
  have pref: "getRememberPreference (setSession s reason now w) = ses_remember s"
    using remembered by (simp add: set getRememberPreference_def quiet)
  have log: "w_notified (setSession s reason now w) = w_notified w @ [(Some s, reason)]"
    by (simp add: set notify_def notified_getSession w4_def)
  from found [OF later] gone pref log show ?thesis by (simp add: set quiet b_def)
qed

definition sample_world :: world where
  "sample_world = \<lparr>w_session = Some \<lparr>ar_items = [(''kiro_admin_token'', ''old'')], ar_full = True\<rparr>,
     w_local = Some \<lparr>ar_items = [], ar_full = False\<rparr>, w_snapshot = None, w_notified = [], w_queued = []\<rparr>"

theorem sign_in_roundtrip_witness:
  "fst (getSession 900 (setSession \<lparr>ses_token = ''abc'', ses_expiresAt = 1000, ses_remember = True\<rparr> SignedIn 100 sample_world))
     = Some \<lparr>ses_token = ''abc'', ses_expiresAt = 1000, ses_remember = True\<rparr>"
  using sign_in_roundtrip [of "\<lparr>ses_token = ''abc'', ses_expiresAt = 1000, ses_remember = True\<rparr>"
      sample_world 900 100 SignedIn]
  by (simp add: sample_world_def writable_def getArea_def)

text \<open>
  A read never hands out a dead session and is stable. Whatever the areas hold, \<open>getSession\<close>
  returns only a session with a non-empty token that has not expired; the value becomes the
  snapshot; reading again at the same time gives the same answer and changes nothing; and the loss
  of the session to its expiry is announced by one queued notification, exactly when an expired
  token was dropped and no other session was found.
\<close>

theorem session_reads_stable:
  "(case fst (getSession now w) of None \<Rightarrow> True
     | Some s \<Rightarrow> ses_token s \<noteq> [] \<and> (ses_expiresAt s = 0 \<or> now < ses_expiresAt s))
   \<and> w_snapshot (snd (getSession now w)) = fst (getSession now w)
   \<and> getSession now (snd (getSession now w)) = getSession now w
   \<and> w_queued (snd (getSession now w)) = w_queued w @
       (if fst (getSession now w) = None \<and>
           (snd (read_area SessionArea now w) \<or> snd (read_area LocalArea now w))
        then [(None, ExpiredSession)] else [])"
  using live_getSession [of now w]
  by (simp add: snapshot_getSession getSession_again queued_getSession split: option.split)

text \<open>
  Signing out works even when storage is full. After \<open>clearSession\<close>, \<open>signOut\<close> or a
  \<open>reauthenticate\<close> whose sign-in was refused, no later read finds a session, in either area; the
  "Stay signed in" preference is kept, and subscribers hear of it.
\<close>

theorem signed_out_for_good:
  "fst (getSession later (clearSession reason w)) = None
   \<and> fst (getSession later (snd (signOut now w))) = None
   \<and> fst (getSession later (snd (reauthenticate (Inl e) u now w))) = None
   \<and> getRememberPreference (clearSession reason w) = getRememberPreference w
   \<and> getRememberPreference (snd (signOut now w)) = getRememberPreference w
   \<and> w_notified (snd (signOut now w)) = w_notified w @ [(None, SignedOut)]"
proof -
  have out: "fst (getSession later (clearSession r v)) = None" for r v
    by (rule getSession_cleared) (simp_all add: read_clearSession)
  have keep: "getRememberPreference (clearSession r v) = getRememberPreference v" for r v
    by (simp add: getRememberPreference_def read_clearSession)
  have same: "getRememberPreference (snd (getSession now w)) = getRememberPreference w"
    by (simp add: getRememberPreference_def read_after_getSession)
  show ?thesis
    using out keep same notified_getSession [of now w]
    by (simp add: signOut_def getToken_def Let_def split_beta reauthenticate_def startSession_def
        notified_clearSession)
qed

end
