(* ===== verification/Api_Client.thy ===== *)
theory Api_Client
  imports Session_Store Mock_Server
begin

text \<open>
  The admin API client: building a request, reading the answer, errors and the end of a session on a
  401 (src/ui/src/lib/api/client.ts, errors.ts, session.ts), retries (src/ui/src/lib/query-client.ts),
  the wait after a 429 (src/ui/src/features/auth/rate-limit.ts) and the version check
  (src/ui/src/lib/api/system.ts). \<open>send\<close> is two steps, before and after the network: other requests
  and sign-ins may run in between. The platform's form encoding (\<open>serialize\<close>) and \<open>JSON.parse\<close>
  (\<open>parse\<close>, None when it throws) are parameters.
\<close>

record api_error =
  err_status :: int
  err_serverMessage :: string
  err_body :: json
  err_retryAfter :: "int option"
  err_index :: "jnum option"

datatype thrown = Aborted | ApiError api_error | OtherError

definition isApiError :: "thrown \<Rightarrow> bool" where
  "isApiError e = (case e of ApiError _ \<Rightarrow> True | _ \<Rightarrow> False)"

definition plain_error :: "int \<Rightarrow> string \<Rightarrow> api_error" where
  "plain_error status msg =
     \<lparr>err_status = status, err_serverMessage = msg, err_body = JNull, err_retryAfter = None, err_index = None\<rparr>"

definition API_BASE :: string where "API_BASE = ''/admin/api''"

datatype payload = NoBody | FormBody | JsonBody json

record request_options =
  ro_method :: string
  ro_body :: payload
  ro_query :: "(string \<times> json) list"
  ro_auth :: bool

record http_request =
  hr_method :: string
  hr_url :: string
  hr_token :: "string option"
  hr_contentType :: "string option"
  hr_payload :: payload

record http_response =
  rs_status :: int
  rs_statusText :: string
  rs_text :: "string option"
  rs_retryAfter :: "string option"

datatype fetch_result = FetchAborted | FetchFailed | Fetched http_response

subsection \<open>Before the network\<close>

definition query_pairs :: "(string \<times> json) list \<Rightarrow> (string \<times> string) list" where
  "query_pairs q = map (\<lambda>(k, v). (k, js_text v)) (filter (\<lambda>(_, v). v \<notin> {JUndef, JNull, JStr []}) q)"

definition buildUrl :: "((string \<times> string) list \<Rightarrow> string) \<Rightarrow> string \<Rightarrow> (string \<times> json) list \<Rightarrow> string" where
  "buildUrl serialize path query =
     (let search = serialize (query_pairs query)
      in if search = [] then API_BASE @ path else API_BASE @ path @ ''?'' @ search)"

definition send_start ::
  "((string \<times> string) list \<Rightarrow> string) \<Rightarrow> string \<Rightarrow> request_options \<Rightarrow> int \<Rightarrow> world \<Rightarrow> (thrown + http_request) \<times> world" where
  "send_start serialize path opts now w =
     (let (token, w') = (if ro_auth opts then getToken now w else (None, w));
          has = (case token of None \<Rightarrow> False | Some t \<Rightarrow> t \<noteq> [])
      in if ro_auth opts \<and> \<not> has then (Inl (ApiError (plain_error 401 ''Unauthorized'')), w')
         else (Inr \<lparr>hr_method = ro_method opts, hr_url = buildUrl serialize path (ro_query opts),
                 hr_token = (if has then token else None),
                 hr_contentType = (case ro_body opts of JsonBody _ \<Rightarrow> Some ''application/json'' | _ \<Rightarrow> None),
                 hr_payload = ro_body opts\<rparr>, w'))"

subsection \<open>After the network\<close>

definition parseJson :: "(string \<Rightarrow> json option) \<Rightarrow> string \<Rightarrow> json option" where
  "parseJson parse text = (if text = [] then None else parse text)"

definition parseRetryAfter :: "string option \<Rightarrow> int option" where
  "parseRetryAfter header = (case header of None \<Rightarrow> None | Some h \<Rightarrow> if h = [] then None else parse_int h)"

definition field_of :: "json \<Rightarrow> string \<Rightarrow> json" where
  "field_of body k = (case as_record body of None \<Rightarrow> JUndef | Some fs \<Rightarrow> own fs k)"

definition index_of :: "json \<Rightarrow> jnum option" where
  "index_of body = (case field_of body ''index'' of JNum n \<Rightarrow> Some n | _ \<Rightarrow> None)"

definition response_text :: "http_response \<Rightarrow> string" where
  "response_text r = (case rs_text r of None \<Rightarrow> [] | Some s \<Rightarrow> s)"

definition toApiError :: "(string \<Rightarrow> json option) \<Rightarrow> http_response \<Rightarrow> api_error" where
  "toApiError parse r =
     (let text = response_text r; parsed = parseJson parse text;
          body = (case parsed of None \<Rightarrow> JNull | Some v \<Rightarrow> v);
          fromBody = (case as_string (field_of body ''error'') of
              Some e \<Rightarrow> e
            | None \<Rightarrow> if parsed \<noteq> None then [] else trim text)
      in \<lparr>err_status = rs_status r,
          err_serverMessage = (if fromBody = [] then rs_statusText r else fromBody),
          err_body = (if body = JUndef then JNull else body),
          err_retryAfter = parseRetryAfter (rs_retryAfter r), err_index = index_of body\<rparr>)"

definition response_ok :: "http_response \<Rightarrow> bool" where
  "response_ok r \<longleftrightarrow> 200 \<le> rs_status r \<and> rs_status r \<le> 299"

definition send_finish ::
  "(string \<Rightarrow> json option) \<Rightarrow> string option \<Rightarrow> fetch_result \<Rightarrow> int \<Rightarrow> world \<Rightarrow> (thrown + http_response) \<times> world" where
  "send_finish parse token answer now w =
     (case answer of
        FetchAborted \<Rightarrow> (Inl Aborted, w)
      | FetchFailed \<Rightarrow> (Inl (ApiError (plain_error 0 ''network'')), w)
      | Fetched r \<Rightarrow>
          (let w' = (if rs_status r = 401 \<and> token \<noteq> None
                     then (let (current, v) = getToken now w
                           in if current = token then clearSession ExpiredSession v else v)
                     else w)
           in (if response_ok r then Inr r else Inl (ApiError (toApiError parse r)), w')))"

definition read_answer :: "(string \<Rightarrow> json option) \<Rightarrow> http_response \<Rightarrow> thrown + json" where
  "read_answer parse r =
     (let text = response_text r
      in if text = [] then Inr JUndef
         else (case parseJson parse text of
             None \<Rightarrow> Inr (JStr text)
           | Some v \<Rightarrow>
               if field_of v ''success'' = JBool False
               then Inl (ApiError \<lparr>err_status = rs_status r,
                      err_serverMessage = (case as_string (field_of v ''error'') of Some e \<Rightarrow> e | None \<Rightarrow> rs_statusText r),
                      err_body = v, err_retryAfter = None, err_index = index_of v\<rparr>)
               else Inr v))"

definition apiRequest_finish ::
  "(string \<Rightarrow> json option) \<Rightarrow> string option \<Rightarrow> fetch_result \<Rightarrow> int \<Rightarrow> world \<Rightarrow> (thrown + json) \<times> world" where
  "apiRequest_finish parse token answer now w =
     (case send_finish parse token answer now w of
        (Inl e, w') \<Rightarrow> (Inl e, w')
      | (Inr r, w') \<Rightarrow> (read_answer parse r, w'))"

subsection \<open>The session requests\<close>

definition session_options :: "string \<Rightarrow> payload \<Rightarrow> bool \<Rightarrow> request_options" where
  "session_options method body auth =
     \<lparr>ro_method = method, ro_body = body, ro_query = [], ro_auth = auth\<rparr>"

definition createSession :: "string \<Rightarrow> string \<times> request_options" where
  "createSession password =
     (''/session'', session_options ''POST'' (JsonBody (JObj [(''password'', JStr password)])) False)"

definition deleteSession :: "string \<times> request_options" where
  "deleteSession = (''/session'', session_options ''DELETE'' NoBody True)"

definition createTicket :: "string \<times> request_options" where
  "createTicket = (''/session/ticket'', session_options ''POST'' NoBody True)"

definition getFirstRun :: "string \<times> request_options" where
  "getFirstRun = (''/first-run'', session_options ''GET'' NoBody False)"

subsection \<open>Retries and waits\<close>

definition shouldRetry :: "nat \<Rightarrow> thrown \<Rightarrow> bool" where
  "shouldRetry failureCount e =
     (case e of
        ApiError a \<Rightarrow> if err_status a \<ge> 400 \<and> err_status a < 500 then False else failureCount < 2
      | _ \<Rightarrow> failureCount < 2)"

definition DEFAULT_RETRY_SECONDS :: int where "DEFAULT_RETRY_SECONDS = 60"

definition retrySeconds :: "api_error \<Rightarrow> int" where
  "retrySeconds e = (case err_retryAfter e of
      Some s \<Rightarrow> if s > 0 then s else DEFAULT_RETRY_SECONDS
    | None \<Rightarrow> DEFAULT_RETRY_SECONDS)"

definition remainingSeconds :: "int \<Rightarrow> int \<Rightarrow> int" where
  "remainingSeconds until now = max 0 (js_ceil_div (until - now) 1000)"

subsection \<open>The version check\<close>

definition strip_v :: "string \<Rightarrow> string" where
  "strip_v s = (case s of [] \<Rightarrow> [] | c # r \<Rightarrow> if c = CHR ''v'' \<or> c = CHR ''V'' then r else s)"

definition versionParts :: "string \<Rightarrow> int list" where
  "versionParts value =
     map (\<lambda>part. case parse_int part of None \<Rightarrow> 0 | Some n \<Rightarrow> n)
       (split_char (CHR ''.'') (strip_v (trim value)))"

definition head_part :: "int list \<Rightarrow> int" where
  "head_part xs = (case xs of [] \<Rightarrow> 0 | x # _ \<Rightarrow> x)"

text \<open>The loop of \<open>compareVersions\<close>; the shorter list reads as 0 past its end.\<close>

fun compare_parts :: "nat \<Rightarrow> int list \<Rightarrow> int list \<Rightarrow> int" where
  "compare_parts 0 xs ys = 0"
| "compare_parts (Suc n) xs ys =
     (let diff = head_part xs - head_part ys
      in if diff \<noteq> 0 then if diff < 0 then -1 else 1 else compare_parts n (tl xs) (tl ys))"

definition compareVersions :: "string \<Rightarrow> string \<Rightarrow> int" where
  "compareVersions a b =
     (let left = versionParts a; right = versionParts b
      in compare_parts (max (length left) (length right)) left right)"

datatype remote_answer = RemoteFailed | RemoteAnswered int string json

definition fetchRemoteVersion :: "remote_answer \<Rightarrow> thrown + remote_version_json" where
  "fetchRemoteVersion answer = (case answer of
      RemoteFailed \<Rightarrow> Inl (ApiError (plain_error 0 ''network''))
    | RemoteAnswered status statusText data \<Rightarrow>
        if \<not> (200 \<le> status \<and> status \<le> 299) then Inl (ApiError (plain_error status statusText))
        else (case as_string (field_of data ''version'') of
            None \<Rightarrow> Inl (ApiError ((plain_error status ''invalid version.json'')\<lparr>err_body := data\<rparr>))
          | Some v \<Rightarrow> Inr \<lparr>rv_version = v, rv_changelog = as_string (field_of data ''changelog''),
                          rv_download = as_string (field_of data ''download'')\<rparr>))"

subsection \<open>Lemmas\<close>

lemma fst_getToken: "fst (getToken now w) = map_option ses_token (fst (getSession now w))"
  and snd_getToken: "snd (getToken now w) = snd (getSession now w)"
  by (simp_all add: getToken_def Let_def split_beta)

lemma token_nonempty: "fst (getSession now w) = Some s \<Longrightarrow> ses_token s \<noteq> []"
  using live_getSession by blast

lemma read_area_dies: "fst (read_area a t w) = None \<Longrightarrow> t \<le> u \<Longrightarrow> fst (read_area a u w) = None"
  by (cases "readStorage TOKEN_KEY a w") (auto simp: read_area_def Let_def split: if_splits)

lemma read_area_lasts:
  "fst (read_area a t w) = Some s \<Longrightarrow> ses_expiresAt s = 0 \<or> u < ses_expiresAt s \<Longrightarrow>
   read_area a u w = (Some s, False)"
  by (cases "readStorage TOKEN_KEY a w") (auto simp: read_area_def Let_def split: if_splits)

text \<open>A session found once is found until it expires, also after the reads of others in between.\<close>

lemma session_lasts:
  assumes "fst (getSession t w) = Some s" "t \<le> u" "ses_expiresAt s = 0 \<or> u < ses_expiresAt s"
  shows "fst (getSession u w) = Some s"
proof (cases "fst (read_area SessionArea t w)")
  case None
  with assms(1) have "fst (read_area LocalArea t w) = Some s"
    by (simp add: fst_getSession fst_readStored)
  with read_area_lasts [OF this assms(3)] read_area_dies [OF None assms(2)] show ?thesis
    by (simp add: fst_getSession fst_readStored)
next
  case (Some x)
  with assms(1) have "fst (read_area SessionArea t w) = Some s"
    by (simp add: fst_getSession fst_readStored)
  with read_area_lasts [OF this assms(3)] show ?thesis
    by (simp add: fst_getSession fst_readStored)
qed

lemma read_area_quiet: "\<not> snd (read_area a u w) \<Longrightarrow> read_area a t (snd (getSession u w)) = read_area a t w"
  by (rule read_area_cong) (simp_all add: read_after_getSession)

lemma read_area_none_stays:
  assumes "fst (read_area a t w) = None"
  shows "fst (read_area a t (snd (getSession u w))) = None"
proof (cases "readStorage TOKEN_KEY a (snd (getSession u w))")
  case None
  then show ?thesis by (simp add: read_area_none)
next
  case (Some x)
  then have "read_area a t (snd (getSession u w)) = read_area a t w"
    by (intro read_area_cong) (auto simp: read_after_getSession split: if_splits)
  with assms show ?thesis by simp
qed

lemma session_survives_read:
  assumes "fst (getSession t w) = Some s" "ses_expiresAt s = 0 \<or> u < ses_expiresAt s"
  shows "fst (getSession t (snd (getSession u w))) = Some s"
proof (cases "fst (read_area SessionArea t w)")
  case None
  with assms(1) have "fst (read_area LocalArea t w) = Some s"
    by (simp add: fst_getSession fst_readStored)
  moreover from read_area_lasts [OF this assms(2)] have "\<not> snd (read_area LocalArea u w)" by simp
  ultimately show ?thesis
    using read_area_none_stays [OF None, of u]
    by (simp add: fst_getSession [of t] fst_readStored read_area_quiet)
next
  case (Some x)
  with assms(1) have "fst (read_area SessionArea t w) = Some s"
    by (simp add: fst_getSession fst_readStored)
  moreover from read_area_lasts [OF this assms(2)] have "\<not> snd (read_area SessionArea u w)" by simp
  ultimately show ?thesis
    by (simp add: fst_getSession [of t] fst_readStored read_area_quiet)
qed

definition no_token :: "world \<Rightarrow> bool" where
  "no_token w \<longleftrightarrow> readStorage TOKEN_KEY SessionArea w = None \<and> readStorage TOKEN_KEY LocalArea w = None"

lemma no_token_session: "no_token w \<Longrightarrow> fst (getSession t w) = None"
  by (simp add: no_token_def getSession_cleared)

lemma no_token_read: "no_token w \<Longrightarrow> no_token (snd (getSession t w))"
  by (simp add: no_token_def read_after_getSession)

lemma no_token_clear [simp]: "no_token (clearSession r w)"
  by (simp add: no_token_def read_clearSession)

text \<open>The answers of requests in flight, in the order they arrive: the token each carried and when.\<close>

fun finish_all ::
  "(string \<Rightarrow> json option) \<Rightarrow> (string \<times> http_response \<times> int) list \<Rightarrow> world \<Rightarrow> world" where
  "finish_all parse [] w = w"
| "finish_all parse ((token, r, now) # rest) w =
     finish_all parse rest (snd (send_finish parse (Some token) (Fetched r) now w))"

definition ends :: "session \<Rightarrow> string \<times> http_response \<times> int \<Rightarrow> bool" where
  "ends s ans = (case ans of (token, r, _) \<Rightarrow> rs_status r = 401 \<and> token = ses_token s)"

lemma send_finish_world:
  "snd (send_finish parse (Some token) (Fetched r) now w) =
     (if rs_status r = 401
      then if map_option ses_token (fst (getSession now w)) = Some token
           then clearSession ExpiredSession (snd (getSession now w)) else snd (getSession now w)
      else w)"
  by (simp add: send_finish_def Let_def split_beta fst_getToken snd_getToken)

lemma finish_all_no_token:
  "no_token w \<Longrightarrow> no_token (finish_all parse as w) \<and> w_notified (finish_all parse as w) = w_notified w"
  by (induction parse as w rule: finish_all.induct)
    (simp_all add: send_finish_world no_token_session no_token_read notified_getSession)

lemma finish_all_session:
  assumes "fst (getSession t w) = Some s"
    and "list_all (\<lambda>(_, _, now). t \<le> now \<and> (ses_expiresAt s = 0 \<or> now < ses_expiresAt s)) as"
  shows "if list_ex (ends s) as
         then no_token (finish_all parse as w) \<and>
              w_notified (finish_all parse as w) = w_notified w @ [(None, ExpiredSession)]
         else fst (getSession t (finish_all parse as w)) = Some s \<and>
              w_notified (finish_all parse as w) = w_notified w"
  using assms
proof (induction parse as w rule: finish_all.induct)
  case (2 parse token r now rest w)
  have now: "t \<le> now" "ses_expiresAt s = 0 \<or> now < ses_expiresAt s"
    using "2.prems"(2) by simp_all
  have found: "fst (getSession now w) = Some s"
    by (rule session_lasts [OF "2.prems"(1) now])
  show ?case
  proof (cases "ends s (token, r, now)")
    case True
    then have "snd (send_finish parse (Some token) (Fetched r) now w) =
        clearSession ExpiredSession (snd (getSession now w))"
      by (simp add: ends_def send_finish_world found)
    then show ?thesis
      using True finish_all_no_token [OF no_token_clear]
      by (simp add: notified_clearSession notified_getSession)
  next
    case False
    let ?v = "snd (send_finish parse (Some token) (Fetched r) now w)"
    have v: "?v = w \<or> ?v = snd (getSession now w)"
      using False found by (auto simp: ends_def send_finish_world)
    have "fst (getSession t ?v) = Some s"
      using v session_survives_read [OF "2.prems"(1) now(2)] "2.prems"(1) by metis
    moreover have "w_notified ?v = w_notified w"
      using v notified_getSession by metis
    ultimately show ?thesis
      using "2.IH" "2.prems"(2) False by simp
  qed
qed simp

lemma compare_parts_spec:
  "compare_parts n xs ys =
    (if \<forall>i<n. at0 i xs = at0 i ys then 0
     else if \<exists>i<n. at0 i xs < at0 i ys \<and> (\<forall>j<i. at0 j xs = at0 j ys) then -1 else 1)"
  if "at0 = (\<lambda>i zs. if i < length zs then zs ! i else (0::int))"
proof (induction n arbitrary: xs ys)
  case (Suc n)
  have at0: "at0 0 zs = head_part zs" "at0 (Suc i) zs = at0 i (tl zs)" for i zs
    by (cases zs; simp add: that head_part_def)+
  have all: "(\<forall>i<Suc n. Q i) \<longleftrightarrow> Q 0 \<and> (\<forall>i<n. Q (Suc i))" for Q
    by (metis Suc_less_eq gr0_conv_Suc less_Suc_eq_0_disj)
  have ex: "(\<exists>i<Suc n. Q i) \<longleftrightarrow> Q 0 \<or> (\<exists>i<n. Q (Suc i))" for Q
    using all [of "\<lambda>i. \<not> Q i"] by blast
  have allj: "(\<forall>j<Suc i. Q j) \<longleftrightarrow> Q 0 \<and> (\<forall>j<i. Q (Suc j))" for Q i
    by (metis Suc_less_eq gr0_conv_Suc less_Suc_eq_0_disj)
  show ?case
    unfolding all ex allj at0 compare_parts.simps Let_def Suc.IH by auto
qed simp

text \<open>Part \<open>i\<close> of a version, 0 past its end, and the order these sequences compare in.\<close>

definition part_at :: "string \<Rightarrow> nat \<Rightarrow> int" where
  "part_at v i = (if i < length (versionParts v) then versionParts v ! i else 0)"

definition below :: "(nat \<Rightarrow> int) \<Rightarrow> (nat \<Rightarrow> int) \<Rightarrow> bool" where
  "below f g \<longleftrightarrow> (\<exists>i. f i < g i \<and> (\<forall>j<i. f j = g j))"

lemma below_cases: "f = g \<or> below f g \<or> below g f"
proof (cases "f = g")
  case False
  then obtain i where i: "f i \<noteq> g i" by blast
  define k where "k = (LEAST i. f i \<noteq> g i)"
  have k: "f k \<noteq> g k" unfolding k_def using i by (rule LeastI)
  have "\<forall>j<k. f j = g j" unfolding k_def using not_less_Least by blast
  moreover have "f k < g k \<or> g k < f k" using k by linarith
  ultimately show ?thesis unfolding below_def by auto
qed simp

lemma below_irrefl: "\<not> below f f"
  by (simp add: below_def)

lemma below_trans: "below f g \<Longrightarrow> below g h \<Longrightarrow> below f h"
proof -
  assume "below f g" "below g h"
  then obtain i k where i: "f i < g i" "\<forall>j<i. f j = g j" and k: "g k < h k" "\<forall>j<k. g j = h j"
    unfolding below_def by blast
  have "f (min i k) < h (min i k) \<and> (\<forall>j<min i k. f j = h j)"
    using i k by (cases i k rule: linorder_cases) (auto simp: min_def)
  then show "below f h" unfolding below_def by blast
qed

lemma compareVersions_spec:
  "compareVersions a b =
    (if part_at a = part_at b then 0 else if below (part_at a) (part_at b) then -1 else 1)"
proof -
  let ?n = "max (length (versionParts a)) (length (versionParts b))"
  define at0 where "at0 = (\<lambda>i zs. if i < length zs then zs ! i else (0::int))"
  have part: "at0 i (versionParts v) = part_at v i" for i v
    by (simp add: at0_def part_at_def)
  have past: "part_at a i = part_at b i" if "\<not> i < ?n" for i
    using that by (simp add: part_at_def less_max_iff_disj)
  have eq: "(\<forall>i<?n. part_at a i = part_at b i) \<longleftrightarrow> part_at a = part_at b"
    using past by (auto simp: fun_eq_iff)
  have lt: "(\<exists>i<?n. part_at a i < part_at b i \<and> (\<forall>j<i. part_at a j = part_at b j)) \<longleftrightarrow>
      below (part_at a) (part_at b)"
    unfolding below_def using past by (metis less_irrefl)
  show ?thesis
    unfolding compareVersions_def Let_def compare_parts_spec [OF at0_def] part eq lt ..
qed

lemma compareVersions_neg: "compareVersions a b < 0 \<longleftrightarrow> below (part_at a) (part_at b)"
  using below_irrefl [of "part_at b"] by (simp add: compareVersions_spec)

lemma compareVersions_pos: "0 < compareVersions a b \<longleftrightarrow> below (part_at b) (part_at a)"
  using below_cases [of "part_at a" "part_at b"] below_irrefl [of "part_at a"]
    below_trans [of "part_at a" "part_at b" "part_at a"]
  by (auto simp: compareVersions_spec)

interpretation version_order: comparator compareVersions "\<lambda>_. True"
proof
  show "0 < compareVersions a b \<longleftrightarrow> compareVersions b a < 0" for a b
    unfolding compareVersions_pos compareVersions_neg ..
next
  fix a b c
  assume "compareVersions a b \<le> 0" "compareVersions b c \<le> 0"
  then have "\<not> below (part_at b) (part_at a)" "\<not> below (part_at c) (part_at b)"
    by (simp_all flip: compareVersions_pos)
  then have "part_at a = part_at b \<or> below (part_at a) (part_at b)"
    "part_at b = part_at c \<or> below (part_at b) (part_at c)"
    using below_cases by blast+
  then have "\<not> below (part_at c) (part_at a)"
    using below_trans below_irrefl by metis
  then show "compareVersions a c \<le> 0"
    by (simp flip: compareVersions_pos not_less)
qed

subsection \<open>Properties\<close>

text \<open>
  C1: parallel answers end the session once, and only for its own token. Let requests in flight come
  back in any order while a session is stored and not yet expired. If some answer is a 401 to a
  request that carried the session's token, then after all of them nobody is signed in and
  subscribers heard of it exactly once, as an expiry; if every 401 was for another (older) token,
  the session is still the one found and nobody was notified.
\<close>

theorem late_answers_spare_new_session:
  assumes "fst (getSession t w) = Some s"
    and "list_all (\<lambda>(_, _, now). t \<le> now \<and> (ses_expiresAt s = 0 \<or> now < ses_expiresAt s)) as"
  shows "fst (getSession t (finish_all parse as w)) = (if list_ex (ends s) as then None else Some s)
    \<and> w_notified (finish_all parse as w) =
        w_notified w @ (if list_ex (ends s) as then [(None, ExpiredSession)] else [])"
  using finish_all_session [OF assms, of parse] no_token_session by (auto split: if_splits)

definition two_sessions :: world where
  "two_sessions = \<lparr>w_session = None,
     w_local = Some \<lparr>ar_items = [(''kiro_admin_token'', ''new'')], ar_full = False\<rparr>,
     w_snapshot = None, w_notified = [], w_queued = []\<rparr>"

definition unauthorized :: http_response where
  "unauthorized = \<lparr>rs_status = 401, rs_statusText = ''Unauthorized'', rs_text = None, rs_retryAfter = None\<rparr>"

theorem late_answers_spare_new_session_witness:
  "fst (getSession 5 (finish_all (\<lambda>_. None) [(''old'', unauthorized, 7), (''old'', unauthorized, 6)] two_sessions))
     = Some \<lparr>ses_token = ''new'', ses_expiresAt = 0, ses_remember = True\<rparr>"
proof -
  have found: "fst (getSession 5 two_sessions) = Some \<lparr>ses_token = ''new'', ses_expiresAt = 0, ses_remember = True\<rparr>"
    by code_simp
  show ?thesis
    using late_answers_spare_new_session [OF found,
        of "[(''old'', unauthorized, 7), (''old'', unauthorized, 6)]" "\<lambda>_. None"]
    by (simp add: ends_def)
qed

text \<open>
  Nothing goes out without a session, and a token goes only where it should. An authenticated
  request is sent exactly when a live session is found, with that session's token; without one it
  fails as a 401 before the network. A request with \<open>auth: false\<close>, such as the sign-in that carries
  the password, goes out with no token and does not touch the session.
\<close>

theorem requests_carry_the_session_token:
  "send_start serialize path opts now w =
     (if ro_auth opts
      then (case fst (getSession now w) of
          None \<Rightarrow> (Inl (ApiError (plain_error 401 ''Unauthorized'')), snd (getSession now w))
        | Some s \<Rightarrow> (Inr \<lparr>hr_method = ro_method opts, hr_url = buildUrl serialize path (ro_query opts),
              hr_token = Some (ses_token s),
              hr_contentType = (case ro_body opts of JsonBody _ \<Rightarrow> Some ''application/json'' | _ \<Rightarrow> None),
              hr_payload = ro_body opts\<rparr>, snd (getSession now w)))
      else (Inr \<lparr>hr_method = ro_method opts, hr_url = buildUrl serialize path (ro_query opts),
              hr_token = None,
              hr_contentType = (case ro_body opts of JsonBody _ \<Rightarrow> Some ''application/json'' | _ \<Rightarrow> None),
              hr_payload = ro_body opts\<rparr>, w))
   \<and> \<not> ro_auth (snd (createSession password))
   \<and> ro_body (snd (createSession password)) = JsonBody (JObj [(''password'', JStr password)])"
  using token_nonempty [of now w]
  by (auto simp: send_start_def Let_def split_beta fst_getToken snd_getToken createSession_def
      session_options_def split: option.split)

text \<open>
  The update check orders versions by their numeric parts. The comparison is 0 exactly when all
  parts agree, a missing part counting as 0 (so "v1.2" and "1.2.0" are the same version), and
  positive exactly when, at the first part where they differ, the left one is larger; it is thereby
  a total preorder, antisymmetric in its arguments.
\<close>

theorem versions_compare_by_parts:
  "(compareVersions a b = 0 \<longleftrightarrow> part_at a = part_at b)
   \<and> (0 < compareVersions a b \<longleftrightarrow> below (part_at b) (part_at a))
   \<and> (0 < compareVersions a b \<longleftrightarrow> compareVersions b a < 0)
   \<and> compareVersions a b \<in> {-1, 0, 1}"
  using version_order.cmp_flip [of a b]
  by (simp add: compareVersions_pos) (simp add: compareVersions_spec)

end
