(* ===== verification/Accounts_Actions.thy ===== *)
theory Accounts_Actions
  imports Accounts_Page Confirm_Dialog Toasts Mock_Accounts Api_Client
begin

text \<open>
  What the accounts page does (src/ui/src/features/accounts/accounts-page.tsx, batch-bar.tsx and
  use-account-actions.ts) as one transition system: the fetched list, the selection and the batch bar, the
  questions asked in the confirm dialog and what runs once they are answered with yes, the requests in
  flight with the toasts that report them, and the dialogs of the page. The account's display name and the
  text of an error are parameters (\<open>shown\<close>, \<open>say\<close>); the clocks and the path of the window come with each
  step. Buttons the page disables for a moment (a row's refresh while it runs, the export of a running bar on
  wide screens) can be pressed here, so what holds here holds of fewer presses too.
\<close>

subsection \<open>Texts\<close>

definition confirm_key :: "batch_action \<Rightarrow> string" where
  "confirm_key action =
     (case action of ActEnable \<Rightarrow> ''batch.confirmEnable'' | ActDisable \<Rightarrow> ''batch.confirmDisable''
      | ActRefresh \<Rightarrow> ''batch.confirmRefresh'' | ActRefreshModels \<Rightarrow> ''batch.confirmRefreshModels''
      | ActDelete \<Rightarrow> ''batch.confirmDelete'')"

definition action_text :: "batch_action \<Rightarrow> string" where
  "action_text action =
     (case action of ActEnable \<Rightarrow> ''enable'' | ActDisable \<Rightarrow> ''disable'' | ActRefresh \<Rightarrow> ''refresh''
      | ActRefreshModels \<Rightarrow> ''refreshModels'' | ActDelete \<Rightarrow> ''delete'')"

definition batch_question :: "tfun \<Rightarrow> batch_action \<Rightarrow> string list \<Rightarrow> confirm_options" where
  "batch_question t action ids =
     \<lparr>co_title = t (confirm_key action) [(''count'', TNum (int (length ids)))],
      co_description = (if action = ActDelete then Some (t ''confirmDelete.body'' []) else None),
      co_confirmLabel = t (''batch.verb.'' @ action_text action) [],
      co_variant = (if action = ActDisable \<or> action = ActDelete then VariantDanger else VariantDefault),
      co_target = None\<rparr>"

definition loading_text :: "tfun \<Rightarrow> batch_action \<Rightarrow> string" where
  "loading_text t action =
     (if action = ActDelete then t ''batch.deleting'' []
      else if action = ActRefreshModels then t ''detail.refreshingModels'' []
      else t ''batch.processing'' [])"

definition nameOf :: "(string \<Rightarrow> string \<Rightarrow> string) \<Rightarrow> account list \<Rightarrow> string \<Rightarrow> string" where
  "nameOf shown accounts i =
     (case find_by acc_id accounts i of Some a \<Rightarrow> shown (acc_email a) (acc_id a) | None \<Rightarrow> i)"

text \<open>The fields of a batch answer as the code reads them: 0 where the answer has none.\<close>

definition refreshed_of :: "batch_accounts_response \<Rightarrow> int" where
  "refreshed_of r = (case r of BatchRefresh n s f rs \<Rightarrow> n | BatchRefreshModels n f m rs \<Rightarrow> n | _ \<Rightarrow> 0)"

definition suspended_of :: "batch_accounts_response \<Rightarrow> int" where
  "suspended_of r = (case r of BatchRefresh n s f rs \<Rightarrow> s | _ \<Rightarrow> 0)"

definition deleted_of :: "batch_accounts_response \<Rightarrow> int" where
  "deleted_of r = (case r of BatchDelete n f rs \<Rightarrow> n | _ \<Rightarrow> 0)"

definition batch_count :: "batch_accounts_response \<Rightarrow> int" where
  "batch_count r = (case r of BatchEnableDisable n f rs \<Rightarrow> n | _ \<Rightarrow> 0)"

definition failures_text :: "account_action_result list option \<Rightarrow> (string \<Rightarrow> string) \<Rightarrow> tfun \<Rightarrow> string option" where
  "failures_text results name t =
     (let d = describeFailures results name t in if d = [] then None else Some d)"

definition resultToast ::
  "batch_action \<Rightarrow> batch_accounts_response \<Rightarrow> (string \<Rightarrow> string) \<Rightarrow> tfun \<Rightarrow> toast_kind \<times> string \<times> string option" where
  "resultToast action result name t =
     (let failed = batch_failed result;
          description = failures_text (Some (batch_results result)) name t;
          kind = (if 0 < failed then ToastWarning else ToastSuccess)
      in (kind,
          (case action of
             ActRefresh \<Rightarrow>
               if 0 < suspended_of result
               then t ''batch.refreshSuspendedResult''
                 [(''count'', TNum (refreshed_of result)), (''suspended'', TNum (suspended_of result)), (''failed'', TNum failed)]
               else t ''batch.refreshResult'' [(''count'', TNum (refreshed_of result)), (''failed'', TNum failed)]
           | ActRefreshModels \<Rightarrow>
               t ''batch.refreshModelsResult'' [(''count'', TNum (refreshed_of result)), (''failed'', TNum failed)]
           | ActDelete \<Rightarrow>
               t ''batch.deleteResult'' [(''count'', TNum (deleted_of result)), (''failed'', TNum failed)]
           | ActEnable \<Rightarrow> t ''batch.enableResult'' [(''count'', TNum (batch_count result))]
           | ActDisable \<Rightarrow> t ''batch.disableResult'' [(''count'', TNum (batch_count result))]),
          description))"

record refresh_all_answer =
  ra_models :: "int option"
  ra_failed :: "int option"
  ra_results :: "account_action_result list option"

definition refreshAllToast :: "refresh_all_answer \<Rightarrow> (string \<Rightarrow> string) \<Rightarrow> tfun \<Rightarrow> toast_kind \<times> string \<times> string option" where
  "refreshAllToast result name t =
     (let failed = (case ra_failed result of None \<Rightarrow> 0 | Some n \<Rightarrow> n);
          models = (case ra_models result of None \<Rightarrow> 0 | Some n \<Rightarrow> n)
      in (if 0 < failed then ToastWarning else ToastSuccess,
          if 0 < failed then t ''models.refreshAllPartial'' [(''count'', TNum models), (''failed'', TNum failed)]
          else t ''models.refreshAllDone'' [(''count'', TNum models)],
          failures_text (ra_results result) name t))"

subsection \<open>State\<close>

text \<open>A question carries what runs after a yes: the batch of a bar, with the accounts that name its failures.\<close>

datatype page_question =
    AskBatch nat batch_action "string list" "account list"
  | AskRefreshAll "account list"
  | AskDelete string

datatype switch_place = InTable | InCard | InSheet

datatype page_request =
    SendBatch batch_action "string list"
  | SendRefreshAll
  | SendDelete string
  | SendEnabled switch_place string bool
  | SendRefresh string

record page_call =
  pc_request :: page_request
  pc_toast :: "string option"
  pc_bar :: "nat option"
  pc_names :: "account list"

datatype page_answer =
    BatchAnswer batch_accounts_response
  | RefreshAllAnswer refresh_all_answer
  | DoneAnswer
  | RefusedAnswer thrown

record accounts_page =
  ap_data :: "account list option"
  ap_failed :: bool
  ap_search :: accounts_search
  ap_selected :: "string list"
  ap_bar :: "(nat \<times> batch_action option) option"
  ap_bars :: nat
  ap_export :: "bool \<times> string list option"
  ap_detail :: "dialog_target option"
  ap_test :: "dialog_target option"
  ap_confirm :: confirm_state
  ap_questions :: "page_question list"
  ap_calls :: "page_call list"
  ap_toasts :: toast_module
  ap_sent :: "page_request list"
  ap_refetches :: "bool list"

definition opened_page :: "accounts_search \<Rightarrow> accounts_page" where
  "opened_page s =
     \<lparr>ap_data = None, ap_failed = False, ap_search = s, ap_selected = [], ap_bar = None, ap_bars = 0,
      ap_export = (False, None), ap_detail = None, ap_test = None, ap_confirm = fresh_confirm,
      ap_questions = [], ap_calls = [], ap_toasts = fresh_module, ap_sent = [], ap_refetches = []\<rparr>"

record page_env =
  en_here :: string
  en_nowMs :: int
  en_nowSec :: int

definition loaded :: "accounts_page \<Rightarrow> account list" where
  "loaded p = (case ap_data p of None \<Rightarrow> [] | Some accounts \<Rightarrow> accounts)"

definition row_ids :: "(string \<Rightarrow> string \<Rightarrow> int) \<Rightarrow> page_env \<Rightarrow> accounts_page \<Rightarrow> string list" where
  "row_ids lc e p = map acc_id (vw_rows (accounts_view_of lc (ap_search p) (loaded p) (en_nowSec e)))"

subsection \<open>Selection, bar and list\<close>

text \<open>The bar is on screen while something is selected; a bar that comes back is a new one.\<close>

definition sync_bar :: "accounts_page \<Rightarrow> accounts_page" where
  "sync_bar p =
     (if ap_selected p = [] then p\<lparr>ap_bar := None\<rparr>
      else if ap_bar p = None then p\<lparr>ap_bar := Some (ap_bars p, None), ap_bars := ap_bars p + 1\<rparr>
      else p)"

definition set_selected :: "string list \<Rightarrow> accounts_page \<Rightarrow> accounts_page" where
  "set_selected ids p = sync_bar (p\<lparr>ap_selected := ids\<rparr>)"

definition data_arrived :: "account list \<Rightarrow> accounts_page \<Rightarrow> accounts_page" where
  "data_arrived accounts p =
     set_selected (filter (\<lambda>i. i \<in> acc_id ` set accounts) (ap_selected p))
       (p\<lparr>ap_data := Some accounts, ap_failed := False\<rparr>)"

definition invalidate :: "bool \<Rightarrow> accounts_page \<Rightarrow> accounts_page" where
  "invalidate withStatus p = p\<lparr>ap_refetches := ap_refetches p @ [withStatus]\<rparr>"

text \<open>\<open>setQueryData\<close> of a switch: only a list that is there changes.\<close>

definition setEnabled :: "string \<Rightarrow> bool \<Rightarrow> accounts_page \<Rightarrow> accounts_page" where
  "setEnabled i on p =
     p\<lparr>ap_data := map_option (map (\<lambda>a. if acc_id a = i then a\<lparr>acc_enabled := on\<rparr> else a)) (ap_data p)\<rparr>"

subsection \<open>Toasts\<close>

definition plain_toast :: toast_options where
  "plain_toast = \<lparr>to_description = None, to_duration = None, to_action = None, to_id = None, to_hide = None\<rparr>"

definition toast_plain :: "page_env \<Rightarrow> toast_kind \<Rightarrow> string \<Rightarrow> accounts_page \<Rightarrow> accounts_page" where
  "toast_plain e kind title p =
     p\<lparr>ap_toasts := snd (show_toast (en_here e) (en_nowMs e) kind title plain_toast (ap_toasts p))\<rparr>"

definition toast_settle :: "string option \<Rightarrow> toast_kind \<times> string \<times> string option \<Rightarrow> accounts_page \<Rightarrow> accounts_page" where
  "toast_settle i msg p =
     (case i of
        None \<Rightarrow> p
      | Some i \<Rightarrow> p\<lparr>ap_toasts := update_toast i (fst msg) (fst (snd msg)) (snd (snd msg)) None (ap_toasts p)\<rparr>)"

subsection \<open>Questions\<close>

definition ask_page :: "confirm_options \<Rightarrow> page_question \<Rightarrow> accounts_page \<Rightarrow> accounts_page" where
  "ask_page opts q p =
     p\<lparr>ap_confirm := snd (confirm opts (ap_confirm p)), ap_questions := ap_questions p @ [q]\<rparr>"

definition run_batch :: "tfun \<Rightarrow> batch_action \<Rightarrow> accounts_page \<Rightarrow> accounts_page" where
  "run_batch t action p =
     (case ap_bar p of
        None \<Rightarrow> p
      | Some (b, running) \<Rightarrow>
          if running \<noteq> None \<or> length (ap_selected p) = 0 then p
          else ask_page (batch_question t action (ap_selected p)) (AskBatch b action (ap_selected p) (loaded p)) p)"

definition onRefreshAllModels :: "tfun \<Rightarrow> accounts_page \<Rightarrow> accounts_page" where
  "onRefreshAllModels t p =
     ask_page \<lparr>co_title = t ''models.refreshAll'' [], co_description = Some (t ''models.confirmRefreshAll'' []),
        co_confirmLabel = t ''models.refreshAll'' [], co_variant = VariantDefault, co_target = None\<rparr>
       (AskRefreshAll (loaded p)) p"

definition delete_row :: "(string \<Rightarrow> string \<Rightarrow> string) \<Rightarrow> tfun \<Rightarrow> account \<Rightarrow> accounts_page \<Rightarrow> accounts_page" where
  "delete_row shown t a p =
     ask_page \<lparr>co_title = t ''confirmDelete.title'' [(''email'', TStr (shown (acc_email a) (acc_id a)))],
        co_description = Some (t ''confirmDelete.body'' []), co_confirmLabel = t ''confirmDelete.confirm'' [],
        co_variant = VariantDanger, co_target = None\<rparr>
       (AskDelete (acc_id a)) p"

text \<open>A request leaves: it is in flight with the toast and the bar that wait for it.\<close>

definition send :: "page_call \<Rightarrow> accounts_page \<Rightarrow> accounts_page" where
  "send c p = p\<lparr>ap_calls := ap_calls p @ [c], ap_sent := ap_sent p @ [pc_request c]\<rparr>"

definition set_running :: "nat \<Rightarrow> batch_action option \<Rightarrow> accounts_page \<Rightarrow> accounts_page" where
  "set_running b running p =
     (case ap_bar p of Some (b', r) \<Rightarrow> if b' = b then p\<lparr>ap_bar := Some (b', running)\<rparr> else p | None \<Rightarrow> p)"

definition send_loading ::
  "page_env \<Rightarrow> string \<Rightarrow> page_request \<Rightarrow> nat option \<Rightarrow> account list \<Rightarrow> accounts_page \<Rightarrow> accounts_page" where
  "send_loading e title r b names p =
     (let (i, m) = show_toast (en_here e) (en_nowMs e) ToastLoading title plain_toast (ap_toasts p)
      in send \<lparr>pc_request = r, pc_toast = Some i, pc_bar = b, pc_names = names\<rparr> (p\<lparr>ap_toasts := m\<rparr>))"

definition proceed :: "tfun \<Rightarrow> page_env \<Rightarrow> page_question \<Rightarrow> accounts_page \<Rightarrow> accounts_page" where
  "proceed t e q p =
     (case q of
        AskBatch b action ids names \<Rightarrow>
          send_loading e (loading_text t action) (SendBatch action ids) (Some b) names (set_running b (Some action) p)
      | AskRefreshAll names \<Rightarrow> send_loading e (t ''models.refreshing'' []) SendRefreshAll None names p
      | AskDelete i \<Rightarrow> send \<lparr>pc_request = SendDelete i, pc_toast = None, pc_bar = None, pc_names = []\<rparr> p)"

definition answer_question :: "tfun \<Rightarrow> page_env \<Rightarrow> bool \<Rightarrow> accounts_page \<Rightarrow> accounts_page" where
  "answer_question t e yes p =
     (let p' = p\<lparr>ap_confirm := settle yes (ap_confirm p)\<rparr>
      in case cd_resolver (ap_confirm p) of
           None \<Rightarrow> p'
         | Some k \<Rightarrow> if yes then proceed t e (ap_questions p ! k) p' else p')"

subsection \<open>Answers\<close>

definition drop_nth :: "nat \<Rightarrow> 'a list \<Rightarrow> 'a list" where
  "drop_nth n xs = take n xs @ drop (Suc n) xs"

definition batch_answered ::
  "tfun \<Rightarrow> (thrown \<Rightarrow> string) \<Rightarrow> (string \<Rightarrow> string \<Rightarrow> string) \<Rightarrow> batch_action \<Rightarrow> page_call \<Rightarrow> page_answer \<Rightarrow> accounts_page \<Rightarrow> accounts_page" where
  "batch_answered t say shown action c answer p =
     (let p = (case answer of
            BatchAnswer result \<Rightarrow>
              set_selected [] (toast_settle (pc_toast c) (resultToast action result (nameOf shown (pc_names c)) t) p)
          | RefusedAnswer why \<Rightarrow> toast_settle (pc_toast c) (ToastError, say why, None) p
          | _ \<Rightarrow> p);
          p = (case pc_bar c of None \<Rightarrow> p | Some b \<Rightarrow> set_running b None p)
      in invalidate True p)"

definition refresh_all_answered ::
  "tfun \<Rightarrow> (thrown \<Rightarrow> string) \<Rightarrow> (string \<Rightarrow> string \<Rightarrow> string) \<Rightarrow> page_call \<Rightarrow> page_answer \<Rightarrow> accounts_page \<Rightarrow> accounts_page" where
  "refresh_all_answered t say shown c answer p =
     (case answer of
        RefreshAllAnswer result \<Rightarrow> toast_settle (pc_toast c) (refreshAllToast result (nameOf shown (pc_names c)) t) p
      | RefusedAnswer why \<Rightarrow> toast_settle (pc_toast c) (ToastError, say why, None) p
      | _ \<Rightarrow> p)"

definition page_answered ::
  "tfun \<Rightarrow> (thrown \<Rightarrow> string) \<Rightarrow> (string \<Rightarrow> string \<Rightarrow> string) \<Rightarrow> page_env \<Rightarrow> page_call \<Rightarrow> page_answer \<Rightarrow> accounts_page \<Rightarrow> accounts_page" where
  "page_answered t say shown e c answer p =
     (case pc_request c of
        SendBatch action ids \<Rightarrow> batch_answered t say shown action c answer p
      | SendRefreshAll \<Rightarrow> refresh_all_answered t say shown c answer p
      | SendDelete i \<Rightarrow>
          invalidate True
            (case answer of
               RefusedAnswer why \<Rightarrow> toast_plain e ToastError (say why) p
             | _ \<Rightarrow> toast_plain e ToastSuccess (t ''deleteSuccess'' []) p)
      | SendEnabled place i on \<Rightarrow>
          invalidate True
            (case answer of
               RefusedAnswer why \<Rightarrow> toast_plain e ToastError (say why) (setEnabled i (\<not> on) p)
             | _ \<Rightarrow> p)
      | SendRefresh i \<Rightarrow>
          (case answer of
             RefusedAnswer why \<Rightarrow> toast_plain e ToastError (t ''refreshFailed'' [(''reason'', TStr (say why))]) p
           | _ \<Rightarrow> invalidate False (toast_plain e ToastSuccess (t ''refreshSuccess'' []) p)))"

text \<open>An answer fits its request: a success has the type the endpoint declares.\<close>

definition answer_fits :: "page_request \<Rightarrow> page_answer \<Rightarrow> bool" where
  "answer_fits r answer =
     (case answer of
        RefusedAnswer why \<Rightarrow> True
      | BatchAnswer result \<Rightarrow> (case r of SendBatch action ids \<Rightarrow> True | _ \<Rightarrow> False)
      | RefreshAllAnswer result \<Rightarrow> r = SendRefreshAll
      | DoneAnswer \<Rightarrow> (case r of SendBatch action ids \<Rightarrow> False | SendRefreshAll \<Rightarrow> False | _ \<Rightarrow> True))"

subsection \<open>Steps\<close>

datatype page_event =
    SelectAll
  | SelectRow string
  | ClearSelection
  | RunBatch batch_action
  | RefreshAllModels
  | DeleteRow account
  | ToggleEnabled switch_place string bool
  | RefreshRow string
  | AnswerQuestion bool
  | ExportAll
  | ExportSelection
  | CloseExport
  | OpenDetail string
  | CloseDetail
  | OpenTest string
  | CloseTest
  | ChangeSearch accounts_search
  | Fetched "account list"
  | FetchFailed
  | Answered nat page_answer

definition onExport :: "tfun \<Rightarrow> page_env \<Rightarrow> string list option \<Rightarrow> accounts_page \<Rightarrow> accounts_page" where
  "onExport t e ids p =
     (if length (loaded p) = 0 then toast_plain e ToastWarning (t ''empty.title'' []) p
      else p\<lparr>ap_export := (True, ids)\<rparr>)"

definition toggle_enabled :: "switch_place \<Rightarrow> string \<Rightarrow> bool \<Rightarrow> accounts_page \<Rightarrow> accounts_page" where
  "toggle_enabled place i on p =
     (let pending = list_ex (\<lambda>c. case pc_request c of SendEnabled place' i' on' \<Rightarrow> place' = place \<and> i' = i | _ \<Rightarrow> False) (ap_calls p)
      in case find_by acc_id (loaded p) i of
           None \<Rightarrow> p
         | Some a \<Rightarrow>
             if isBanned a \<or> pending then p
             else send \<lparr>pc_request = SendEnabled place i on, pc_toast = None, pc_bar = None, pc_names = []\<rparr> (setEnabled i on p))"

definition page_step ::
  "(string \<Rightarrow> string \<Rightarrow> int) \<Rightarrow> tfun \<Rightarrow> (thrown \<Rightarrow> string) \<Rightarrow> (string \<Rightarrow> string \<Rightarrow> string) \<Rightarrow> page_env \<Rightarrow> page_event \<Rightarrow> accounts_page \<Rightarrow> accounts_page" where
  "page_step lc t say shown e event p =
     (case event of
        SelectAll \<Rightarrow> set_selected (toggleAll (row_ids lc e p) (ap_selected p)) p
      | SelectRow i \<Rightarrow> if i \<in> set (row_ids lc e p) then set_selected (toggleOne i (ap_selected p)) p else p
      | ClearSelection \<Rightarrow>
          (case ap_bar p of Some (b, None) \<Rightarrow> set_selected [] p | _ \<Rightarrow> p)
      | RunBatch action \<Rightarrow> run_batch t action p
      | RefreshAllModels \<Rightarrow> onRefreshAllModels t p
      | DeleteRow a \<Rightarrow> delete_row shown t a p
      | ToggleEnabled place i on \<Rightarrow> toggle_enabled place i on p
      | RefreshRow i \<Rightarrow> send \<lparr>pc_request = SendRefresh i, pc_toast = None, pc_bar = None, pc_names = []\<rparr> p
      | AnswerQuestion yes \<Rightarrow> answer_question t e yes p
      | ExportAll \<Rightarrow> onExport t e None p
      | ExportSelection \<Rightarrow> (if ap_bar p = None then p else onExport t e (Some (ap_selected p)) p)
      | CloseExport \<Rightarrow> p\<lparr>ap_export := (False, snd (ap_export p))\<rparr>
      | OpenDetail i \<Rightarrow> p\<lparr>ap_detail := open_target i (ap_detail p)\<rparr>
      | CloseDetail \<Rightarrow> p\<lparr>ap_detail := close_target (ap_detail p)\<rparr>
      | OpenTest i \<Rightarrow> p\<lparr>ap_test := open_target i (ap_test p)\<rparr>
      | CloseTest \<Rightarrow> p\<lparr>ap_test := close_target (ap_test p)\<rparr>
      | ChangeSearch s \<Rightarrow> p\<lparr>ap_search := s\<rparr>
      | Fetched accounts \<Rightarrow> data_arrived accounts p
      | FetchFailed \<Rightarrow> p\<lparr>ap_failed := True\<rparr>
      | Answered n answer \<Rightarrow>
          (if n < length (ap_calls p) \<and> answer_fits (pc_request (ap_calls p ! n)) answer
           then page_answered t say shown e (ap_calls p ! n) answer (p\<lparr>ap_calls := drop_nth n (ap_calls p)\<rparr>)
           else p))"

inductive page_reach ::
  "(string \<Rightarrow> string \<Rightarrow> int) \<Rightarrow> tfun \<Rightarrow> (thrown \<Rightarrow> string) \<Rightarrow> (string \<Rightarrow> string \<Rightarrow> string) \<Rightarrow> accounts_page \<Rightarrow> bool"
  for lc t say shown where
  page_opened: "page_reach lc t say shown (opened_page s)"
| page_stepped: "page_reach lc t say shown p \<Longrightarrow> page_reach lc t say shown (page_step lc t say shown e event p)"

end
