(* ===== verification/Accounts_Promises.thy ===== *)
theory Accounts_Promises
  imports Accounts_Actions
begin

text \<open>
  What always holds of the accounts page: the selection and its bar, the questions and the requests they
  allow, the toasts of the requests in flight, and how a batch shows on the page what the server did.
\<close>

subsection \<open>Lists of calls\<close>

lemma drop_nth_split:
  assumes "n < length xs"
  obtains us vs where "xs = us @ xs ! n # vs" "drop_nth n xs = us @ vs"
  using id_take_nth_drop [OF assms] that by (auto simp: drop_nth_def)

subsection \<open>The selection\<close>

definition selection_ok :: "accounts_page \<Rightarrow> bool" where
  "selection_ok p \<longleftrightarrow>
     distinct (ap_selected p) \<and> set (ap_selected p) \<subseteq> acc_id ` set (loaded p) \<and>
     (ap_bar p = None \<longleftrightarrow> ap_selected p = [])"

lemma loaded_simps [simp]:
  "loaded (p\<lparr>ap_failed := b\<rparr>) = loaded p" "loaded (p\<lparr>ap_search := s\<rparr>) = loaded p"
  "loaded (p\<lparr>ap_selected := ids\<rparr>) = loaded p" "loaded (p\<lparr>ap_bar := bar\<rparr>) = loaded p"
  "loaded (p\<lparr>ap_bars := n\<rparr>) = loaded p" "loaded (p\<lparr>ap_export := x\<rparr>) = loaded p"
  "loaded (p\<lparr>ap_detail := d\<rparr>) = loaded p" "loaded (p\<lparr>ap_test := d\<rparr>) = loaded p"
  "loaded (p\<lparr>ap_confirm := c\<rparr>) = loaded p" "loaded (p\<lparr>ap_questions := qs\<rparr>) = loaded p"
  "loaded (p\<lparr>ap_calls := cs\<rparr>) = loaded p" "loaded (p\<lparr>ap_toasts := m\<rparr>) = loaded p"
  "loaded (p\<lparr>ap_sent := rs\<rparr>) = loaded p" "loaded (p\<lparr>ap_refetches := bs\<rparr>) = loaded p"
  "loaded (p\<lparr>ap_data := Some accounts\<rparr>) = accounts"
  by (simp_all add: loaded_def)

lemma set_selected_ok:
  "distinct ids \<Longrightarrow> set ids \<subseteq> acc_id ` set (loaded p) \<Longrightarrow> selection_ok (set_selected ids p)"
  by (auto simp: selection_ok_def set_selected_def sync_bar_def)

lemma loaded_set_selected [simp]: "loaded (set_selected ids p) = loaded p"
  by (simp add: set_selected_def sync_bar_def)

lemma row_ids_loaded: "set (row_ids lc e p) \<subseteq> acc_id ` set (loaded p)"
proof -
  let ?v = "accounts_view_of lc (ap_search p) (loaded p) (en_nowSec e)"
  have "set (vw_rows ?v) \<subseteq> set (vw_sorted ?v)"
    by (auto simp: view_rows [of lc "ap_search p"] slice_page_def dest!: in_set_takeD in_set_dropD)
  also have "set (vw_sorted ?v) = set (filterAccounts (loaded p) (ap_search p) (en_nowSec e))"
    using view_sorted [of lc "ap_search p" "loaded p" "en_nowSec e"] by (metis set_mset_mset)
  also have "\<dots> \<subseteq> set (loaded p)" by (auto simp: filterAccounts_def Let_def)
  finally show ?thesis by (auto simp: row_ids_def)
qed

text \<open>Steps that leave the list, the selection and the bar alone, or only tell the bar that it runs.\<close>

definition same_selection :: "accounts_page \<Rightarrow> accounts_page \<Rightarrow> bool" where
  "same_selection p p' \<longleftrightarrow>
     map acc_id (loaded p') = map acc_id (loaded p) \<and> ap_selected p' = ap_selected p \<and>
     (ap_bar p' = None \<longleftrightarrow> ap_bar p = None)"

lemma same_selection_ok: "same_selection p p' \<Longrightarrow> selection_ok p \<Longrightarrow> selection_ok p'"
proof -
  assume same: "same_selection p p'" and ok: "selection_ok p"
  then have "acc_id ` set (loaded p') = acc_id ` set (loaded p)" by (metis same_selection_def set_map)
  with same ok show ?thesis by (simp add: selection_ok_def same_selection_def)
qed

lemma same_refl [simp]: "same_selection p p"
  by (simp add: same_selection_def)

lemma same_trans: "same_selection p q \<Longrightarrow> same_selection q r \<Longrightarrow> same_selection p r"
  by (simp add: same_selection_def)

lemma same_ops [simp]:
  "same_selection p (invalidate w p)" "same_selection p (toast_plain e kind title p)"
  "same_selection p (toast_settle i msg p)" "same_selection p (ask_page opts q p)"
  "same_selection p (send c p)" "same_selection p (set_running b r p)"
  "same_selection p (setEnabled k on p)"
  by (auto simp: same_selection_def invalidate_def toast_plain_def toast_settle_def ask_page_def send_def
      set_running_def setEnabled_def loaded_def split: option.split)

lemma same_send_loading: "same_selection p (send_loading e title r b names p)"
  by (simp add: same_selection_def send_loading_def send_def split_beta)

lemma same_proceed: "same_selection p (proceed t e q p)"
  using same_trans [OF same_ops(6) same_send_loading]
  by (auto simp: proceed_def same_send_loading split: page_question.split)

lemma answer_question_same: "same_selection p (answer_question t e yes p)"
proof -
  have "same_selection p (p\<lparr>ap_confirm := settle yes (ap_confirm p)\<rparr>)" by (simp add: same_selection_def)
  then show ?thesis
    using same_trans [OF _ same_proceed] by (auto simp: answer_question_def Let_def split: option.split)
qed

lemma answered_selection:
  assumes "selection_ok p"
  shows "selection_ok (page_answered t say shown e c answer p)"
proof -
  have two: "selection_ok (invalidate w (f p'))" if "selection_ok p'" "\<And>q. same_selection q (f q)" for w f p'
    using that by (meson same_selection_ok same_ops(1))
  have clear: "selection_ok (set_selected [] p')" for p' by (simp add: set_selected_ok)
  have settled: "selection_ok (toast_settle i msg p)" for i msg using same_selection_ok [OF same_ops(3) assms] .
  have "selection_ok (batch_answered t say shown action c answer p)" for action
    using two [OF clear, where f = "\<lambda>q. q"] two [OF clear, where f = "set_running _ None"]
      two [OF settled, where f = "\<lambda>q. q"] two [OF settled, where f = "set_running _ None"]
      two [OF assms, where f = "\<lambda>q. q"] two [OF assms, where f = "set_running _ None"]
    by (auto simp: batch_answered_def Let_def split: page_answer.split option.split)
  moreover have "selection_ok (refresh_all_answered t say shown c answer p)"
    using settled assms by (auto simp: refresh_all_answered_def split: page_answer.split)
  moreover have "selection_ok (toast_plain e kind title p)" for kind title using same_selection_ok [OF same_ops(2) assms] .
  moreover have "selection_ok (invalidate w (toast_plain e kind title p))" for w kind title
    by (rule two [OF assms]) simp
  moreover have "selection_ok (invalidate w (toast_plain e kind title (setEnabled i on p)))" for w kind title i on
    by (rule two [OF same_selection_ok [OF same_ops(7) assms]]) simp
  moreover have "selection_ok (invalidate w p)" for w using same_selection_ok [OF same_ops(1) assms] .
  ultimately show ?thesis
    by (auto simp: page_answered_def split: page_request.split page_answer.split)
qed

lemma selection_step: "selection_ok p \<Longrightarrow> selection_ok (page_step lc t say shown e event p)"
proof -
  assume ok: "selection_ok p"
  then have dist: "distinct (ap_selected p)" and sub: "set (ap_selected p) \<subseteq> acc_id ` set (loaded p)"
    by (simp_all add: selection_ok_def)
  note same = same_selection_ok [OF _ ok]
  show ?thesis
  proof (cases event)
    case SelectAll
    with dist sub row_ids_loaded [of lc e p] show ?thesis
      by (auto simp: page_step_def toggleAll_set toggleAll_distinct intro!: set_selected_ok split: if_splits)
  next
    case (SelectRow i)
    with dist sub row_ids_loaded [of lc e p] ok show ?thesis
      by (auto simp: page_step_def toggleOne_set toggleOne_distinct intro!: set_selected_ok split: if_splits)
  next
    case ClearSelection
    with ok show ?thesis by (auto simp: page_step_def set_selected_ok split: option.split)
  next
    case (RunBatch action)
    then show ?thesis using same [OF same_ops(4)] ok by (auto simp: page_step_def run_batch_def split: option.split)
  next
    case RefreshAllModels
    then show ?thesis using same [OF same_ops(4)] by (simp add: page_step_def onRefreshAllModels_def)
  next
    case (DeleteRow a)
    then show ?thesis using same [OF same_ops(4)] by (simp add: page_step_def delete_row_def)
  next
    case (ToggleEnabled place i on)
    then show ?thesis using same [OF same_trans [OF same_ops(7) same_ops(5)]] ok
      by (auto simp: page_step_def toggle_enabled_def Let_def split: option.split)
  next
    case (RefreshRow i)
    then show ?thesis using same [OF same_ops(5)] by (simp add: page_step_def)
  next
    case (AnswerQuestion yes)
    then show ?thesis using same [OF answer_question_same] by (simp add: page_step_def)
  next
    case ExportAll
    then show ?thesis using same [OF same_ops(2)] ok by (simp add: page_step_def onExport_def selection_ok_def)
  next
    case ExportSelection
    then show ?thesis using same [OF same_ops(2)] ok by (simp add: page_step_def onExport_def selection_ok_def)
  next
    case (Fetched accounts)
    with dist show ?thesis by (auto simp: page_step_def data_arrived_def intro!: set_selected_ok)
  next
    case (Answered n answer)
    have "selection_ok (p\<lparr>ap_calls := drop_nth n (ap_calls p)\<rparr>)" by (rule same) (simp add: same_selection_def)
    with Answered ok show ?thesis by (auto simp: page_step_def intro: answered_selection)
  qed (use ok in \<open>simp_all add: page_step_def selection_ok_def\<close>)
qed

text \<open>The selection is always of accounts on the list: whatever is selected, filtered, deleted,
  refetched and answered, in whatever order, the selected ids are distinct ids of the loaded accounts, and
  the batch bar is on screen exactly while something is selected.\<close>

theorem selection_is_loaded:
  assumes "page_reach lc t say shown p"
  shows "distinct (ap_selected p) \<and> set (ap_selected p) \<subseteq> acc_id ` set (loaded p) \<and>
    (ap_bar p = None \<longleftrightarrow> ap_selected p = [])"
proof -
  from assms have "selection_ok p"
    by induction (simp_all add: selection_step, simp add: selection_ok_def opened_page_def loaded_def)
  then show ?thesis by (simp add: selection_ok_def)
qed

definition no_filters :: accounts_search where
  "no_filters = validateAccountsSearch []"

definition some_env :: page_env where
  "some_env = \<lparr>en_here = ''/admin/accounts'', en_nowMs = 7000, en_nowSec = 7\<rparr>"

definition run_page ::
  "tfun \<Rightarrow> (thrown \<Rightarrow> string) \<Rightarrow> page_event list \<Rightarrow> accounts_page" where
  "run_page t say events = foldl (\<lambda>p ev. page_step textCompare t say (\<lambda>email i. email) some_env ev p) (opened_page no_filters) events"

lemma run_page_reach: "page_reach textCompare t say (\<lambda>email i. email) (run_page t say events)"
proof (induction events rule: rev_induct)
  case Nil
  show ?case by (simp add: run_page_def page_opened)
next
  case (snoc ev events)
  from page_stepped [OF this] show ?case by (simp add: run_page_def)
qed

definition second_account :: account where
  "second_account = sample_account\<lparr>acc_id := ''a2'', acc_email := ''bob@example.com''\<rparr>"

theorem selection_is_loaded_witness:
  "set (ap_selected (run_page (\<lambda>k ps. k) (\<lambda>w. ''failed'')
      [Fetched [sample_account, second_account], SelectAll, Fetched [second_account]])) \<subseteq> {''a2''}"
proof -
  let ?p = "run_page (\<lambda>k ps. k) (\<lambda>w. ''failed'') [Fetched [sample_account, second_account], SelectAll, Fetched [second_account]]"
  have "loaded ?p = [second_account]"
    by (simp add: run_page_def page_step_def data_arrived_def)
  with selection_is_loaded [OF run_page_reach, of "\<lambda>k ps. k" "\<lambda>w. ''failed''"
      "[Fetched [sample_account, second_account], SelectAll, Fetched [second_account]]"]
  show ?thesis by (simp add: second_account_def)
qed

subsection \<open>Questions and requests\<close>

definition question_request :: "page_question \<Rightarrow> page_request" where
  "question_request q =
     (case q of AskBatch b action ids names \<Rightarrow> SendBatch action ids | AskRefreshAll names \<Rightarrow> SendRefreshAll
      | AskDelete i \<Rightarrow> SendDelete i)"

definition needs_yes :: "page_request \<Rightarrow> bool" where
  "needs_yes r = (case r of SendEnabled place i on \<Rightarrow> False | SendRefresh i \<Rightarrow> False | _ \<Rightarrow> True)"

definition yes_questions :: "accounts_page \<Rightarrow> page_question list" where
  "yes_questions p = map (\<lambda>s. ap_questions p ! fst s) (filter snd (cd_settled (ap_confirm p)))"

definition asked_ok :: "accounts_page \<Rightarrow> bool" where
  "asked_ok p \<longleftrightarrow>
     confirm_ok (ap_confirm p) \<and> length (ap_questions p) = cd_asked (ap_confirm p) \<and>
     filter needs_yes (ap_sent p) = map question_request (yes_questions p)"

definition same_asked :: "accounts_page \<Rightarrow> accounts_page \<Rightarrow> bool" where
  "same_asked p p' \<longleftrightarrow>
     ap_confirm p' = ap_confirm p \<and> ap_questions p' = ap_questions p \<and>
     filter needs_yes (ap_sent p') = filter needs_yes (ap_sent p)"

lemma same_asked_ok: "same_asked p p' \<Longrightarrow> asked_ok p \<Longrightarrow> asked_ok p'"
  by (simp add: same_asked_def asked_ok_def yes_questions_def)

lemma needs_question: "needs_yes (question_request q)"
  by (cases q) (simp_all add: question_request_def needs_yes_def)

lemma confirm_indices:
  assumes "confirm_ok c"
  shows "s \<in> set (cd_settled c) \<Longrightarrow> fst s < cd_asked c" "cd_resolver c = Some k \<Longrightarrow> k < cd_asked c"
proof -
  have all: "set (map fst (cd_settled c) @ (case cd_resolver c of None \<Rightarrow> [] | Some k \<Rightarrow> [k])) = {0..<cd_asked c}"
    using assms by (simp only: confirm_ok_def set_upt)
  show "s \<in> set (cd_settled c) \<Longrightarrow> fst s < cd_asked c" using all by force
  show "cd_resolver c = Some k \<Longrightarrow> k < cd_asked c" using all by auto
qed

lemma ask_page_asked:
  assumes "asked_ok p"
  shows "asked_ok (ask_page opts q p)"
proof -
  let ?c = "ap_confirm p"
  have ok: "confirm_ok ?c" and len: "length (ap_questions p) = cd_asked ?c" using assms by (simp_all add: asked_ok_def)
  have "filter snd (cd_settled (snd (confirm opts ?c))) = filter snd (cd_settled ?c)"
    by (auto simp: confirm_def resolve_with_def split: option.split)
  then have "yes_questions (ask_page opts q p) = yes_questions p"
    using confirm_indices(1) [OF ok] len by (auto simp: yes_questions_def ask_page_def nth_append)
  then show ?thesis
    using assms confirm_ok_ask [OF ok, of opts] by (simp add: asked_ok_def) (simp add: ask_page_def confirm_def)
qed

lemma proceed_sent:
  "ap_sent (proceed t e q p) = ap_sent p @ [question_request q]"
  "ap_confirm (proceed t e q p) = ap_confirm p" "ap_questions (proceed t e q p) = ap_questions p"
  by (auto simp: proceed_def send_loading_def send_def set_running_def question_request_def split_beta
      split: page_question.split option.split)

lemma answer_question_asked:
  assumes "asked_ok p"
  shows "asked_ok (answer_question t e yes p)"
proof -
  let ?c = "ap_confirm p" and ?p = "p\<lparr>ap_confirm := settle yes (ap_confirm p)\<rparr>"
  have ok: "confirm_ok ?c" and len: "length (ap_questions p) = cd_asked ?c"
    and sent: "filter needs_yes (ap_sent p) = map question_request (yes_questions p)"
    using assms by (simp_all add: asked_ok_def)
  have ok': "confirm_ok (settle yes ?c)" by (rule confirm_ok_settle [OF ok])
  have asked: "cd_asked (settle yes ?c) = cd_asked ?c"
    by (simp add: settle_def resolve_with_def split: option.split)
  show ?thesis
  proof (cases "cd_resolver ?c")
    case None
    then have "yes_questions ?p = yes_questions p" by (simp add: yes_questions_def settle_def resolve_with_def)
    with None ok' asked len sent show ?thesis by (simp add: answer_question_def asked_ok_def Let_def)
  next
    case (Some k)
    then have "yes_questions ?p = yes_questions p @ (if yes then [ap_questions p ! k] else [])"
      by (simp add: yes_questions_def settle_def resolve_with_def)
    moreover have "yes_questions (proceed t e q ?p) = yes_questions ?p" for q
      by (simp add: yes_questions_def proceed_sent)
    ultimately show ?thesis
      using Some ok' asked len sent
      by (cases yes) (simp_all add: answer_question_def asked_ok_def Let_def proceed_sent needs_question)
  qed
qed

lemma same_asked_refl [simp]: "same_asked p p"
  by (simp add: same_asked_def)

lemma same_asked_trans: "same_asked p q \<Longrightarrow> same_asked q r \<Longrightarrow> same_asked p r"
  by (simp add: same_asked_def)

lemma same_asked_ops [simp]:
  "same_asked p (invalidate w q) = same_asked p q" "same_asked p (toast_plain e kind title q) = same_asked p q"
  "same_asked p (toast_settle i msg q) = same_asked p q" "same_asked p (set_running b r q) = same_asked p q"
  "same_asked p (setEnabled k on q) = same_asked p q" "same_asked p (set_selected ids q) = same_asked p q"
  by (auto simp: same_asked_def invalidate_def toast_plain_def toast_settle_def set_running_def setEnabled_def
      set_selected_def sync_bar_def split: option.split)

lemma same_asked_send: "\<not> needs_yes (pc_request c) \<Longrightarrow> same_asked p (send c p)"
  by (simp add: same_asked_def send_def)

lemma same_asked_answered: "same_asked p (page_answered t say shown e c answer p)"
proof -
  have "same_asked p (batch_answered t say shown action c answer p)" for action
    by (auto simp: batch_answered_def Let_def split: page_answer.split option.split)
  then show ?thesis
    by (auto simp: page_answered_def refresh_all_answered_def split: page_request.split page_answer.split)
qed

lemma asked_step: "asked_ok p \<Longrightarrow> asked_ok (page_step lc t say shown e event p)"
proof -
  assume ok: "asked_ok p"
  note same = same_asked_ok [OF _ ok] and asks = ask_page_asked [OF ok] answer_question_asked [OF ok]
  show ?thesis
  proof (cases event)
    case (ToggleEnabled place i on)
    have "same_asked p (send \<lparr>pc_request = SendEnabled place i on, pc_toast = None, pc_bar = None, pc_names = []\<rparr> (setEnabled i on p))"
      by (rule same_asked_trans [OF _ same_asked_send]) (simp_all add: needs_yes_def)
    with ToggleEnabled ok show ?thesis
      by (auto simp: page_step_def toggle_enabled_def Let_def intro: same split: option.split)
  next
    case (RefreshRow i)
    then show ?thesis using same [OF same_asked_send] by (simp add: page_step_def needs_yes_def)
  next
    case (Fetched accounts)
    have "same_asked p (data_arrived accounts p)"
      by (simp add: same_asked_def data_arrived_def set_selected_def sync_bar_def)
    with Fetched show ?thesis by (simp add: page_step_def same)
  next
    case (Answered n answer)
    have "asked_ok (p\<lparr>ap_calls := drop_nth n (ap_calls p)\<rparr>)" by (rule same) (simp add: same_asked_def)
    with Answered ok show ?thesis
      by (auto simp: page_step_def intro: same_asked_ok [OF same_asked_answered])
  qed (use ok asks same [of "set_selected _ p"] same [of "toast_plain _ _ _ p"] in
      \<open>auto simp: page_step_def run_batch_def onRefreshAllModels_def delete_row_def onExport_def asked_ok_def
        yes_questions_def split: option.split\<close>)
qed

lemma asked_opened: "asked_ok (opened_page s)"
  using confirm_ok_fresh by (simp add: asked_ok_def opened_page_def yes_questions_def fresh_confirm_def)

lemma asked_reach: "page_reach lc t say shown p \<Longrightarrow> asked_ok p"
  by (induction rule: page_reach.induct) (simp_all add: asked_step asked_opened)

text \<open>What the dialog says while a question is on screen: the words of that very question.\<close>

definition worded :: "tfun \<Rightarrow> (string \<Rightarrow> string \<Rightarrow> string) \<Rightarrow> page_question \<Rightarrow> confirm_options \<Rightarrow> bool" where
  "worded t shown q opts \<longleftrightarrow>
     (case q of
        AskBatch b action ids names \<Rightarrow>
          ids \<noteq> [] \<and>
          co_title opts = t (''batch.confirm'' @ (case action of ActEnable \<Rightarrow> ''Enable'' | ActDisable \<Rightarrow> ''Disable''
            | ActRefresh \<Rightarrow> ''Refresh'' | ActRefreshModels \<Rightarrow> ''RefreshModels'' | ActDelete \<Rightarrow> ''Delete''))
            [(''count'', TNum (int (length ids)))] \<and>
          (co_variant opts = VariantDanger \<longleftrightarrow> action \<in> {ActDisable, ActDelete})
      | AskRefreshAll names \<Rightarrow> co_title opts = t ''models.refreshAll'' [] \<and> co_variant opts = VariantDefault
      | AskDelete i \<Rightarrow>
          (\<exists>email. co_title opts = t ''confirmDelete.title'' [(''email'', TStr (shown email i))]) \<and>
          co_variant opts = VariantDanger)"

definition on_screen_ok :: "tfun \<Rightarrow> (string \<Rightarrow> string \<Rightarrow> string) \<Rightarrow> accounts_page \<Rightarrow> bool" where
  "on_screen_ok t shown p \<longleftrightarrow>
     (\<forall>k. cd_resolver (ap_confirm p) = Some k \<longrightarrow>
        (\<exists>opts. cd_options (ap_confirm p) = Some opts \<and> worded t shown (ap_questions p ! k) opts))"

lemma same_on_screen: "same_asked p p' \<Longrightarrow> on_screen_ok t shown p \<Longrightarrow> on_screen_ok t shown p'"
  by (simp add: same_asked_def on_screen_ok_def)

lemma ask_page_on_screen:
  "asked_ok p \<Longrightarrow> worded t shown q opts \<Longrightarrow> on_screen_ok t shown (ask_page opts q p)"
  by (simp add: on_screen_ok_def asked_ok_def ask_page_def confirm_def nth_append)

lemma run_batch_on_screen:
  "asked_ok p \<Longrightarrow> on_screen_ok t shown p \<Longrightarrow> on_screen_ok t shown (run_batch t action p)"
  by (cases action)
    (auto simp: run_batch_def worded_def batch_question_def confirm_key_def intro!: ask_page_on_screen split: option.split)

lemma answer_question_on_screen: "on_screen_ok t shown (answer_question t e yes p)"
proof -
  have "cd_resolver (ap_confirm (answer_question t e yes p)) = None"
    by (simp add: answer_question_def Let_def proceed_sent settle_def split: option.split)
  then show ?thesis by (simp add: on_screen_ok_def)
qed

lemma on_screen_step:
  assumes "asked_ok p" "on_screen_ok t shown p"
  shows "on_screen_ok t shown (page_step lc t say shown e event p)"
proof -
  note same = same_on_screen [OF _ assms(2)]
  have kept: "on_screen_ok t shown p'" if "ap_confirm p' = ap_confirm p" "ap_questions p' = ap_questions p" for p'
    using assms(2) that by (simp add: on_screen_ok_def)
  show ?thesis
  proof (cases event)
    case (RunBatch action)
    then show ?thesis using run_batch_on_screen [OF assms] by (simp add: page_step_def)
  next
    case RefreshAllModels
    then show ?thesis
      by (simp add: page_step_def onRefreshAllModels_def ask_page_on_screen [OF assms(1)] worded_def)
  next
    case (DeleteRow a)
    have "on_screen_ok t shown (delete_row shown t a p)"
      unfolding delete_row_def by (rule ask_page_on_screen [OF assms(1)]) (auto simp: worded_def)
    with DeleteRow show ?thesis by (simp add: page_step_def)
  next
    case (AnswerQuestion yes)
    then show ?thesis by (simp add: page_step_def answer_question_on_screen)
  next
    case (ToggleEnabled place i on)
    have "same_asked p (send \<lparr>pc_request = SendEnabled place i on, pc_toast = None, pc_bar = None, pc_names = []\<rparr> (setEnabled i on p))"
      by (rule same_asked_trans [OF _ same_asked_send]) (simp_all add: needs_yes_def)
    with ToggleEnabled assms(2) show ?thesis
      by (auto simp: page_step_def toggle_enabled_def Let_def intro: same split: option.split)
  next
    case (RefreshRow i)
    then show ?thesis using same [OF same_asked_send] by (simp add: page_step_def needs_yes_def)
  next
    case (Fetched accounts)
    have "same_asked p (data_arrived accounts p)"
      by (simp add: same_asked_def data_arrived_def set_selected_def sync_bar_def)
    with Fetched show ?thesis by (simp add: page_step_def same)
  next
    case (Answered n answer)
    have "on_screen_ok t shown (p\<lparr>ap_calls := drop_nth n (ap_calls p)\<rparr>)" by (rule kept) simp_all
    with Answered assms(2) show ?thesis
      by (auto simp: page_step_def intro: same_on_screen [OF same_asked_answered])
  qed (use assms(2) same [of "set_selected _ p"] same [of "toast_plain _ _ _ p"] in
      \<open>auto simp: page_step_def onExport_def intro: kept split: option.split\<close>)
qed

lemma on_screen_reach: "page_reach lc t say shown p \<Longrightarrow> on_screen_ok t shown p"
  by (induction rule: page_reach.induct)
    (simp_all add: on_screen_step asked_reach, simp add: on_screen_ok_def opened_page_def fresh_confirm_def)


text \<open>A deletion asked for twice, the first time answered with no, and a batch that is still asked for.\<close>

definition asking :: "page_event list" where
  "asking = [Fetched [sample_account], SelectAll, DeleteRow sample_account, AnswerQuestion False,
     DeleteRow sample_account, AnswerQuestion True, RunBatch ActDisable]"


end
