(* ===== verification/Accounts_Calls.thy ===== *)
theory Accounts_Calls
  imports Accounts_Promises
begin

text \<open>
  The requests of the accounts page that are in flight: each batch and each refresh of all models has one
  loading toast for as long as it takes, a batch bar runs one batch at a time, and a batch that the server
  carries out shows on the page as what it did.
\<close>

subsection \<open>Loading toasts\<close>

text \<open>The toasts that spin after the calls of the toast manager.\<close>

fun spin_step :: "string list \<Rightarrow> manager_call \<Rightarrow> string list" where
  "spin_step s (ToastAdd m) = (let s = filter (\<lambda>i. i \<noteq> tm_id m) s in if tm_look m = LookLoading then s @ [tm_id m] else s)"
| "spin_step s (ToastUpdate i m) = (if tm_look m = LookLoading then s else filter (\<lambda>j. j \<noteq> i) s)"
| "spin_step s (ToastClose i) = s"

definition spinning :: "toast_module \<Rightarrow> string list" where
  "spinning m = foldl spin_step [] (tt_calls m)"

definition seeded :: "toast_module \<Rightarrow> bool" where
  "seeded m \<longleftrightarrow> distinct (spinning m) \<and> list_all (\<lambda>i. \<exists>ms k. k < tt_seed m \<and> i = generated_id ms k) (spinning m)"

lemma made_id_seed: "generated_id ms k = generated_id ms' k' \<Longrightarrow> k = k'"
proof -
  have tail: "takeWhile (\<lambda>c. c \<noteq> CHR ''-'') (rev (generated_id ms k)) = rev (string_of_nat k)" for ms k
  proof -
    have "c \<noteq> CHR ''-''" if "c \<in> set (string_of_nat k)" for c
      using string_of_nat_digits [OF that] by (auto simp: is_digit_def code_def)
    then have "takeWhile (\<lambda>c. c \<noteq> CHR ''-'') (rev (string_of_nat k) @ ''-'' @ tl) = rev (string_of_nat k) @ takeWhile (\<lambda>c. c \<noteq> CHR ''-'') (''-'' @ tl)" for tl
      by (intro takeWhile_append2) auto
    then show ?thesis by (simp add: generated_id_def)
  qed
  assume "generated_id ms k = generated_id ms' k'"
  then have "string_of_nat k = string_of_nat k'" using tail by (metis rev_rev_ident)
  then show "k = k'" by simp
qed

lemma look_loading: "toastType kind = LookLoading \<longleftrightarrow> kind = ToastLoading"
  by (cases kind) simp_all

lemma spinning_show:
  assumes "seeded m" "show_toast here now kind title plain_toast m = (i, m')"
  shows "spinning m' = spinning m @ (if kind = ToastLoading then [i] else [])" "i \<notin> set (spinning m)" "seeded m'"
proof -
  have i: "i = generated_id now (tt_seed m)" and seed: "tt_seed m' = Suc (tt_seed m)"
    and calls: "tt_calls m' = tt_calls m @ [ToastAdd (make_message i kind title plain_toast None)]"
    using assms(2) by (auto simp: show_toast_def plain_toast_def hide_path_def call_def forget_def)
  show new: "i \<notin> set (spinning m)"
  proof
    assume "i \<in> set (spinning m)"
    then obtain ms k where "k < tt_seed m" "i = generated_id ms k" using assms(1) by (auto simp: seeded_def list_all_iff)
    with made_id_seed i show False by blast
  qed
  then have same: "filter (\<lambda>j. j \<noteq> i) (spinning m) = spinning m" by (auto simp: filter_id_conv)
  have "tm_id (make_message i k title plain_toast None) = i" "tm_look (make_message i k title plain_toast None) = toastType k" for k
    by (simp_all add: make_message_def)
  note msg = this
  show sp: "spinning m' = spinning m @ (if kind = ToastLoading then [i] else [])"
    using same by (simp add: spinning_def calls look_loading msg)
  have "list_all (\<lambda>i. \<exists>ms k. k < tt_seed m' \<and> i = generated_id ms k) (spinning m)"
    using assms(1) unfolding seeded_def list_all_iff seed by (meson less_SucI)
  moreover have "\<exists>ms k. k < tt_seed m' \<and> i = generated_id ms k" using i seed by (intro exI [of _ now] exI [of _ "tt_seed m"]) simp
  ultimately show "seeded m'" using assms(1) new by (auto simp: seeded_def sp)
qed

lemma spinning_update:
  "kind \<noteq> ToastLoading \<Longrightarrow> spinning (update_toast i kind title d n m) = filter (\<lambda>j. j \<noteq> i) (spinning m)"
  by (simp add: spinning_def update_toast_def call_def make_message_def look_loading)

lemma seeded_update: "kind \<noteq> ToastLoading \<Longrightarrow> seeded m \<Longrightarrow> seeded (update_toast i kind title d n m)"
  by (auto simp: seeded_def spinning_update list_all_iff) (simp_all add: update_toast_def call_def)

subsection \<open>Each slow request has its toast\<close>

definition spins :: "page_request \<Rightarrow> bool" where
  "spins r = (case r of SendBatch action ids \<Rightarrow> True | SendRefreshAll \<Rightarrow> True | _ \<Rightarrow> False)"

definition call_toasts :: "page_call list \<Rightarrow> string list" where
  "call_toasts cs = List.map_filter pc_toast cs"

lemma call_toasts_simps [simp]:
  "call_toasts [] = []" "call_toasts (c # cs) = (case pc_toast c of None \<Rightarrow> [] | Some i \<Rightarrow> [i]) @ call_toasts cs"
  "call_toasts (cs @ ds) = call_toasts cs @ call_toasts ds"
  by (auto simp: call_toasts_def List.map_filter_def split: option.split)

definition toasts_fit :: "accounts_page \<Rightarrow> bool" where
  "toasts_fit p \<longleftrightarrow> seeded (ap_toasts p) \<and> spinning (ap_toasts p) = call_toasts (ap_calls p) \<and>
     list_all (\<lambda>c. pc_toast c \<noteq> None \<longleftrightarrow> spins (pc_request c)) (ap_calls p)"

text \<open>Steps that leave the toasts and the calls alone, and the step of a plain toast.\<close>

definition same_toasts :: "accounts_page \<Rightarrow> accounts_page \<Rightarrow> bool" where
  "same_toasts p p' \<longleftrightarrow> ap_toasts p' = ap_toasts p \<and> ap_calls p' = ap_calls p"

lemma same_toasts_ops [simp]:
  "same_toasts p p" "same_toasts p (invalidate w q) = same_toasts p q" "same_toasts p (set_running b r q) = same_toasts p q"
  "same_toasts p (setEnabled k on q) = same_toasts p q" "same_toasts p (set_selected ids q) = same_toasts p q"
  "same_toasts p (ask_page opts x q) = same_toasts p q"
  by (auto simp: same_toasts_def invalidate_def set_running_def setEnabled_def set_selected_def sync_bar_def
      ask_page_def split: option.split)

lemma same_toasts_fit: "same_toasts p p' \<Longrightarrow> toasts_fit p \<Longrightarrow> toasts_fit p'"
  by (simp add: same_toasts_def toasts_fit_def)

lemma fit_ops [simp]:
  "toasts_fit (invalidate w q) = toasts_fit q" "toasts_fit (set_running b r q) = toasts_fit q"
  "toasts_fit (setEnabled k on q) = toasts_fit q" "toasts_fit (set_selected ids q) = toasts_fit q"
  "toasts_fit (ask_page opts x q) = toasts_fit q" "toasts_fit (q\<lparr>ap_confirm := cs\<rparr>) = toasts_fit q"
  by (auto simp: toasts_fit_def invalidate_def set_running_def setEnabled_def set_selected_def sync_bar_def
      ask_page_def split: option.split)

lemma fit_plain:
  assumes "toasts_fit p" "kind \<noteq> ToastLoading"
  shows "toasts_fit (toast_plain e kind title p)"
proof -
  obtain i m where shown: "show_toast (en_here e) (en_nowMs e) kind title plain_toast (ap_toasts p) = (i, m)" by fastforce
  then show ?thesis
    using spinning_show [OF _ shown] assms by (simp add: toasts_fit_def toast_plain_def)
qed

lemma fit_send: "toasts_fit p \<Longrightarrow> pc_toast c = None \<Longrightarrow> \<not> spins (pc_request c) \<Longrightarrow> toasts_fit (send c p)"
  by (simp add: toasts_fit_def send_def)

lemma fit_send_loading:
  assumes "toasts_fit p" "spins r"
  shows "toasts_fit (send_loading e title r b names p)"
proof -
  obtain i m where shown: "show_toast (en_here e) (en_nowMs e) ToastLoading title plain_toast (ap_toasts p) = (i, m)" by fastforce
  then show ?thesis
    using spinning_show [OF _ shown] assms by (simp add: toasts_fit_def send_loading_def send_def)
qed

lemma fit_proceed: "toasts_fit p \<Longrightarrow> toasts_fit (proceed t e q p)"
  by (auto simp: proceed_def spins_def intro!: fit_send_loading fit_send split: page_question.split)

text \<open>A state from which one call has been taken out, with its toast still spinning.\<close>

definition fit_but :: "page_call \<Rightarrow> page_call list \<Rightarrow> page_call list \<Rightarrow> accounts_page \<Rightarrow> bool" where
  "fit_but c us vs p \<longleftrightarrow> seeded (ap_toasts p) \<and> ap_calls p = us @ vs \<and>
     spinning (ap_toasts p) = call_toasts (us @ c # vs) \<and>
     list_all (\<lambda>c. pc_toast c \<noteq> None \<longleftrightarrow> spins (pc_request c)) (us @ c # vs)"

lemma fit_settle:
  assumes "fit_but c us vs p" "spins (pc_request c)" "fst msg \<noteq> ToastLoading"
  shows "toasts_fit (toast_settle (pc_toast c) msg p)"
proof -
  obtain i where i: "pc_toast c = Some i" using assms(1,2) by (auto simp: fit_but_def)
  have spin: "spinning (ap_toasts p) = call_toasts us @ i # call_toasts vs"
    and dist: "distinct (spinning (ap_toasts p))" using assms(1) i by (auto simp: fit_but_def seeded_def)
  then have "filter (\<lambda>j. j \<noteq> i) (call_toasts us) = call_toasts us" "filter (\<lambda>j. j \<noteq> i) (call_toasts vs) = call_toasts vs"
    by (auto intro!: filter_True)
  with spin have "filter (\<lambda>j. j \<noteq> i) (spinning (ap_toasts p)) = call_toasts us @ call_toasts vs" by simp
  then show ?thesis
    using assms(1,3) i by (simp add: toast_settle_def toasts_fit_def fit_but_def spinning_update seeded_update)
qed

lemma fit_quiet: "fit_but c us vs p \<Longrightarrow> \<not> spins (pc_request c) \<Longrightarrow> toasts_fit p"
  by (auto simp: fit_but_def toasts_fit_def)

lemma result_kind: "fst (resultToast action result name t) \<noteq> ToastLoading" "fst (refreshAllToast r name t) \<noteq> ToastLoading"
  by (simp_all add: resultToast_def refreshAllToast_def Let_def)

lemma fit_answered:
  assumes "fit_but c us vs p" "answer_fits (pc_request c) answer"
  shows "toasts_fit (page_answered t say shown e c answer p)"
proof (cases "spins (pc_request c)")
  case True
  note settle = fit_settle [OF assms(1) True]
  from True assms(2) show ?thesis
    by (auto simp: page_answered_def batch_answered_def refresh_all_answered_def spins_def answer_fits_def Let_def
        result_kind intro!: settle split: page_request.splits page_answer.splits option.split)
next
  case False
  note quiet = fit_quiet [OF assms(1) False]
  from False show ?thesis
    by (auto simp: page_answered_def spins_def quiet intro!: fit_plain split: page_request.splits page_answer.split)
qed

lemma toasts_step: "toasts_fit p \<Longrightarrow> toasts_fit (page_step lc t say shown e event p)"
proof -
  assume ok: "toasts_fit p"
  show ?thesis
  proof (cases event)
    case (ToggleEnabled place i on)
    have "toasts_fit (send \<lparr>pc_request = SendEnabled place i on, pc_toast = None, pc_bar = None, pc_names = []\<rparr> (setEnabled i on p))"
      by (rule fit_send) (simp_all add: ok spins_def)
    with ToggleEnabled ok show ?thesis by (simp add: page_step_def toggle_enabled_def Let_def split: option.split)
  next
    case (RefreshRow i)
    then show ?thesis using fit_send [OF ok] by (simp add: page_step_def spins_def)
  next
    case (AnswerQuestion yes)
    then show ?thesis using ok by (auto simp: page_step_def answer_question_def Let_def intro!: fit_proceed split: option.split)
  next
    case (Fetched accounts)
    have "toasts_fit (p\<lparr>ap_data := Some accounts, ap_failed := False\<rparr>)" using ok by (simp add: toasts_fit_def)
    with Fetched show ?thesis by (simp add: page_step_def data_arrived_def)
  next
    case (Answered n answer)
    show ?thesis
    proof (cases "n < length (ap_calls p) \<and> answer_fits (pc_request (ap_calls p ! n)) answer")
      case True
      obtain us vs where "ap_calls p = us @ ap_calls p ! n # vs" "drop_nth n (ap_calls p) = us @ vs"
        using drop_nth_split True by metis
      with ok have "fit_but (ap_calls p ! n) us vs (p\<lparr>ap_calls := drop_nth n (ap_calls p)\<rparr>)"
        unfolding fit_but_def toasts_fit_def by (metis accounts_page.select_convs(12,13) accounts_page.surjective accounts_page.update_convs(12))
      with True Answered show ?thesis by (simp add: page_step_def fit_answered)
    next
      case False
      with Answered ok show ?thesis by (auto simp: page_step_def)
    qed
  qed (use ok fit_plain in \<open>auto simp: page_step_def run_batch_def onRefreshAllModels_def delete_row_def onExport_def
        toasts_fit_def [of "p\<lparr>ap_export := _\<rparr>"] toasts_fit_def [of "p\<lparr>ap_detail := _\<rparr>"] toasts_fit_def [of "p\<lparr>ap_test := _\<rparr>"]
        toasts_fit_def [of "p\<lparr>ap_search := _\<rparr>"] toasts_fit_def [of "p\<lparr>ap_failed := _\<rparr>"] toasts_fit_def [of p] split: option.split\<close>)
qed

text \<open>A toast spins exactly as long as its request is in flight: at every moment the loading toasts
  are those of the batches and of the refreshes of all models that have not been answered, in the order
  they were sent, each with a toast of its own; so once every request is answered nothing spins.\<close>

theorem toasts_spin_with_requests:
  assumes "page_reach lc t say shown p"
  shows "spinning (ap_toasts p) = call_toasts (ap_calls p) \<and> distinct (spinning (ap_toasts p)) \<and>
    length (spinning (ap_toasts p)) = length (filter (\<lambda>c. spins (pc_request c)) (ap_calls p))"
proof -
  from assms have ok: "toasts_fit p"
    by induction (simp_all add: toasts_step, simp add: toasts_fit_def opened_page_def seeded_def spinning_def fresh_module_def)
  have "length (call_toasts cs) = length (filter (\<lambda>c. spins (pc_request c)) cs)"
    if "list_all (\<lambda>c. pc_toast c \<noteq> None \<longleftrightarrow> spins (pc_request c)) cs" for cs
    using that by (induction cs) (auto split: option.splits)
  with ok show ?thesis unfolding toasts_fit_def seeded_def by metis
qed

theorem toasts_spin_with_requests_witness:
  "length (spinning (ap_toasts (run_page (\<lambda>k ps. k) (\<lambda>w. ''failed'') [RefreshAllModels, AnswerQuestion True]))) = 1"
proof -
  let ?p = "run_page (\<lambda>k ps. k) (\<lambda>w. ''failed'') [RefreshAllModels, AnswerQuestion True]"
  have "map pc_request (ap_calls ?p) = [SendRefreshAll]"
    by (simp add: run_page_def page_step_def onRefreshAllModels_def ask_page_def answer_question_def confirm_def
        resolve_with_def opened_page_def fresh_confirm_def proceed_def send_loading_def send_def split_beta)
  then have "length (filter (\<lambda>c. spins (pc_request c)) (ap_calls ?p)) = 1"
    by (cases "ap_calls ?p") (simp_all add: spins_def)
  with toasts_spin_with_requests [OF run_page_reach, of "\<lambda>k ps. k" "\<lambda>w. ''failed''" "[RefreshAllModels, AnswerQuestion True]"]
  show ?thesis by metis
qed

subsection \<open>One batch at a time per bar\<close>

text \<open>The batches in flight with the bars that wait for them.\<close>

definition bar_calls :: "page_call list \<Rightarrow> (nat \<times> page_request) list" where
  "bar_calls cs = List.map_filter (\<lambda>c. map_option (\<lambda>b. (b, pc_request c)) (pc_bar c)) cs"

lemma bar_calls_simps [simp]:
  "bar_calls [] = []"
  "bar_calls (c # cs) = (case pc_bar c of None \<Rightarrow> [] | Some b \<Rightarrow> [(b, pc_request c)]) @ bar_calls cs"
  "bar_calls (cs @ ds) = bar_calls cs @ bar_calls ds"
  by (auto simp: bar_calls_def List.map_filter_def split: option.split)

definition question_bar :: "page_question \<Rightarrow> nat option" where
  "question_bar q = (case q of AskBatch b action ids names \<Rightarrow> Some b | _ \<Rightarrow> None)"

definition pending_bar :: "accounts_page \<Rightarrow> nat option" where
  "pending_bar p = Option.bind (cd_resolver (ap_confirm p)) (\<lambda>k. question_bar (ap_questions p ! k))"

definition bar_fits :: "(nat \<times> batch_action option) option \<Rightarrow> (nat \<times> page_request) list \<Rightarrow> bool" where
  "bar_fits bar cs =
     (case bar of
        None \<Rightarrow> True
      | Some (b, None) \<Rightarrow> b \<notin> fst ` set cs
      | Some (b, Some action) \<Rightarrow> \<exists>ids. (b, SendBatch action ids) \<in> set cs)"

definition bars_ok :: "accounts_page \<Rightarrow> bool" where
  "bars_ok p \<longleftrightarrow>
     distinct (map fst (bar_calls (ap_calls p))) \<and>
     list_all (\<lambda>x. \<exists>action ids. snd x = SendBatch action ids) (bar_calls (ap_calls p)) \<and>
     fst ` set (bar_calls (ap_calls p)) \<union> set_option (map_option fst (ap_bar p)) \<union> set_option (pending_bar p) \<subseteq> {0..<ap_bars p} \<and>
     bar_fits (ap_bar p) (bar_calls (ap_calls p)) \<and>
     set_option (pending_bar p) \<inter> fst ` set (bar_calls (ap_calls p)) = {}"

text \<open>Steps that leave all of this alone.\<close>

definition same_bars :: "accounts_page \<Rightarrow> accounts_page \<Rightarrow> bool" where
  "same_bars p p' \<longleftrightarrow>
     bar_calls (ap_calls p') = bar_calls (ap_calls p) \<and> ap_bar p' = ap_bar p \<and> ap_bars p' = ap_bars p \<and>
     pending_bar p' = pending_bar p"

lemma same_bars_ok: "same_bars p p' \<Longrightarrow> bars_ok p \<Longrightarrow> bars_ok p'"
  by (simp add: same_bars_def bars_ok_def)

lemma same_bars_ops [simp]:
  "same_bars p p" "same_bars p (invalidate w q) = same_bars p q" "same_bars p (toast_plain e kind title q) = same_bars p q"
  "same_bars p (toast_settle i msg q) = same_bars p q" "same_bars p (setEnabled k on q) = same_bars p q"
  "same_bars p (q\<lparr>ap_toasts := m\<rparr>) = same_bars p q"
  by (auto simp: same_bars_def pending_bar_def invalidate_def toast_plain_def toast_settle_def setEnabled_def
      split: option.split)

lemma same_bars_send: "pc_bar c = None \<Longrightarrow> same_bars p (send c p)"
  by (simp add: same_bars_def send_def pending_bar_def)

lemma set_selected_bars:
  assumes "bars_ok p"
  shows "bars_ok (set_selected ids p)"
proof -
  have fresh: "ap_bars p \<notin> fst ` set (bar_calls (ap_calls p))" using assms by (auto simp: bars_ok_def)
  have "pending_bar (set_selected ids p) = pending_bar p"
    by (simp add: set_selected_def sync_bar_def pending_bar_def)
  with assms fresh show ?thesis
    by (auto simp: bars_ok_def set_selected_def sync_bar_def bar_fits_def)
qed

lemma pending_none: "cd_resolver (ap_confirm p) = None \<Longrightarrow> pending_bar p = None"
  by (simp add: pending_bar_def)

lemma ask_page_bars:
  assumes "bars_ok p" "asked_ok p"
    and "set_option (question_bar q) \<subseteq> {0..<ap_bars p} - fst ` set (bar_calls (ap_calls p))"
  shows "bars_ok (ask_page opts q p)"
proof -
  have "pending_bar (ask_page opts q p) = question_bar q"
    using assms(2) by (simp add: pending_bar_def ask_page_def confirm_def asked_ok_def nth_append)
  with assms(1,3) show ?thesis
    by (auto simp: bars_ok_def ask_page_def)
qed

lemma set_running_fits:
  assumes "bar_fits bar cs" "b \<notin> fst ` set cs"
  shows "bar_fits (case bar of Some (b', r) \<Rightarrow> if b' = b then Some (b', Some action) else bar | None \<Rightarrow> bar)
    (cs @ [(b, SendBatch action ids)])"
  using assms by (auto simp: bar_fits_def split: option.splits)

lemma set_running_bar:
  "ap_bar (set_running b r p) = (case ap_bar p of Some (b', x) \<Rightarrow> if b' = b then Some (b', r) else ap_bar p | None \<Rightarrow> None)"
  by (auto simp: set_running_def split: option.split)

lemma set_running_other:
  "ap_bars (set_running b r p) = ap_bars p" "ap_calls (set_running b r p) = ap_calls p"
  "ap_confirm (set_running b r p) = ap_confirm p" "ap_questions (set_running b r p) = ap_questions p"
  by (auto simp: set_running_def split: option.split)

lemma send_loading_fields:
  "ap_bar (send_loading e title r b names p) = ap_bar p" "ap_bars (send_loading e title r b names p) = ap_bars p"
  "ap_confirm (send_loading e title r b names p) = ap_confirm p" "ap_questions (send_loading e title r b names p) = ap_questions p"
  "bar_calls (ap_calls (send_loading e title r b names p)) =
     bar_calls (ap_calls p) @ (case b of None \<Rightarrow> [] | Some b \<Rightarrow> [(b, r)])"
  by (auto simp: send_loading_def send_def split_beta split: option.split)

lemma proceed_bars:
  assumes "bars_ok p" "cd_resolver (ap_confirm p) = None"
    and "set_option (question_bar q) \<subseteq> {0..<ap_bars p} - fst ` set (bar_calls (ap_calls p))"
  shows "bars_ok (proceed t e q p)"
proof (cases q)
  case (AskBatch b action ids names)
  let ?p = "proceed t e q p"
  have b: "b < ap_bars p" "b \<notin> fst ` set (bar_calls (ap_calls p))" using assms(3) AskBatch by (simp_all add: question_bar_def)
  have calls: "bar_calls (ap_calls ?p) = bar_calls (ap_calls p) @ [(b, SendBatch action ids)]"
    and bars: "ap_bars ?p = ap_bars p" and none: "pending_bar ?p = None"
    and bar: "ap_bar ?p = (case ap_bar p of Some (b', r) \<Rightarrow> if b' = b then Some (b', Some action) else ap_bar p | None \<Rightarrow> ap_bar p)"
    using assms(2) by (auto simp: AskBatch proceed_def send_loading_fields set_running_other set_running_bar pending_none split: option.split)
  have "bar_fits (ap_bar ?p) (bar_calls (ap_calls ?p))"
    unfolding bar calls using assms(1) b(2) by (intro set_running_fits) (simp_all add: bars_ok_def)
  moreover have "set_option (map_option fst (ap_bar ?p)) = set_option (map_option fst (ap_bar p))"
    by (auto simp: bar split: option.split)
  ultimately show ?thesis using assms(1) b by (auto simp: bars_ok_def calls bars none)
next
  case (AskRefreshAll names)
  have "same_bars p (proceed t e q p)"
    by (simp add: AskRefreshAll proceed_def same_bars_def send_loading_fields pending_bar_def)
  then show ?thesis using assms(1) by (rule same_bars_ok)
next
  case (AskDelete i)
  then show ?thesis using same_bars_ok [OF same_bars_send assms(1)] by (simp add: proceed_def)
qed

lemma answer_question_bars:
  assumes "bars_ok p"
  shows "bars_ok (answer_question t e yes p)"
proof -
  let ?p = "p\<lparr>ap_confirm := settle yes (ap_confirm p)\<rparr>"
  have none: "cd_resolver (ap_confirm ?p) = None" by (simp add: settle_def)
  have ok: "bars_ok ?p" using assms by (simp add: bars_ok_def pending_none [OF none])
  show ?thesis
  proof (cases "cd_resolver (ap_confirm p)")
    case None
    then show ?thesis using ok by (simp add: answer_question_def Let_def)
  next
    case (Some k)
    then have "pending_bar p = question_bar (ap_questions p ! k)" by (simp add: pending_bar_def)
    then have "set_option (question_bar (ap_questions p ! k)) \<subseteq> {0..<ap_bars ?p} - fst ` set (bar_calls (ap_calls ?p))"
      using assms by (auto simp: bars_ok_def)
    with Some ok proceed_bars [OF ok none] show ?thesis by (cases yes) (simp_all add: answer_question_def Let_def)
  qed
qed

text \<open>An answer: its call is out, and its bar, if it is still there, no longer runs.\<close>

lemma dropped_bars:
  assumes "bars_ok p" "ap_calls p = us @ c # vs" "pc_bar c = Some b"
  shows "bars_ok (set_running b None (p\<lparr>ap_calls := us @ vs\<rparr>))"
proof -
  let ?p = "set_running b None (p\<lparr>ap_calls := us @ vs\<rparr>)" and ?cs = "bar_calls us @ bar_calls vs"
  have calls: "bar_calls (ap_calls p) = bar_calls us @ (b, pc_request c) # bar_calls vs" using assms(2,3) by simp
  then have out: "b \<notin> fst ` set ?cs" and keep: "set (bar_calls (ap_calls p)) = insert (b, pc_request c) (set ?cs)"
    using assms(1) by (auto simp: bars_ok_def)
  have "bar_fits (ap_bar ?p) ?cs"
  proof (cases "ap_bar p")
    case (Some br)
    obtain b' r where br: "br = (b', r)" by fastforce
    show ?thesis
    proof (cases "b' = b")
      case True
      with Some br out show ?thesis by (simp add: set_running_bar bar_fits_def)
    next
      case False
      have "bar_fits (ap_bar p) (bar_calls (ap_calls p))" using assms(1) by (simp add: bars_ok_def)
      then show ?thesis using False Some br keep by (auto simp: set_running_bar bar_fits_def split: option.splits)
    qed
  qed (simp add: set_running_bar bar_fits_def)
  moreover have "pending_bar ?p = pending_bar p" by (simp add: pending_bar_def set_running_other)
  moreover have "set_option (map_option fst (ap_bar ?p)) = set_option (map_option fst (ap_bar p))"
    by (auto simp: set_running_bar split: option.split)
  ultimately show ?thesis
    using assms(1) unfolding bars_ok_def calls by (auto simp: set_running_other split: option.splits)
qed

lemma set_running_commute:
  "set_running b r (set_selected [] p) = set_selected [] (set_running b r p)"
  "set_running b r (toast_settle i msg p) = toast_settle i msg (set_running b r p)"
  by (auto simp: set_running_def set_selected_def sync_bar_def toast_settle_def split: option.split)

lemma answered_bars:
  assumes "bars_ok p" "ap_calls p = us @ c # vs"
  shows "bars_ok (page_answered t say shown e c answer (p\<lparr>ap_calls := us @ vs\<rparr>))"
proof -
  let ?p = "p\<lparr>ap_calls := us @ vs\<rparr>"
  have still: "bars_ok (toast_settle i msg q) = bars_ok q" "bars_ok (invalidate w q) = bars_ok q"
    "bars_ok (toast_plain e kind title q) = bars_ok q" "bars_ok (setEnabled k on q) = bars_ok q" for i msg w q kind title k on
    by (auto simp: bars_ok_def pending_bar_def toast_settle_def invalidate_def toast_plain_def setEnabled_def split: option.splits)
  show ?thesis
  proof (cases "pc_bar c")
    case (Some b)
    have ok: "bars_ok (set_running b None ?p)" by (rule dropped_bars [OF assms Some])
    obtain action ids where r: "pc_request c = SendBatch action ids" using assms Some by (auto simp: bars_ok_def)
    show ?thesis
      using ok Some r
      by (auto simp: page_answered_def batch_answered_def Let_def still set_running_commute set_selected_bars
          split: page_answer.split)
  next
    case None
    then have "bars_ok ?p" using assms by (auto simp: bars_ok_def pending_bar_def)
    with None show ?thesis
      by (auto simp: page_answered_def batch_answered_def refresh_all_answered_def Let_def still set_selected_bars
          split: page_request.split page_answer.split)
  qed
qed

lemma in_fst_set: "(a, b) \<in> set xs \<Longrightarrow> a \<in> fst ` set xs"
  by force

lemma bars_step:
  assumes "bars_ok p" "asked_ok p"
  shows "bars_ok (page_step lc t say shown e event p)"
proof -
  note same = same_bars_ok [OF _ assms(1)]
  have ask: "bars_ok (ask_page opts q p)" if "question_bar q = None" for opts q
    using that by (intro ask_page_bars assms) simp
  show ?thesis
  proof (cases event)
    case (RunBatch action)
    have "b < ap_bars p \<and> b \<notin> fst ` set (bar_calls (ap_calls p))" if "ap_bar p = Some (b, None)" for b
      using assms(1) that by (auto simp: bars_ok_def bar_fits_def)
    then show ?thesis
      using assms(1) RunBatch
      by (auto simp: page_step_def run_batch_def question_bar_def intro!: ask_page_bars [OF assms] dest: in_fst_set split: option.split)
  next
    case (ToggleEnabled place i on)
    have "same_bars p (send \<lparr>pc_request = SendEnabled place i on, pc_toast = None, pc_bar = None, pc_names = []\<rparr> (setEnabled i on p))"
      by (simp add: same_bars_def send_def setEnabled_def pending_bar_def)
    with ToggleEnabled assms(1) show ?thesis
      by (auto simp: page_step_def toggle_enabled_def Let_def intro: same split: option.split)
  next
    case (RefreshRow i)
    then show ?thesis using same [OF same_bars_send] by (simp add: page_step_def)
  next
    case (Fetched accounts)
    have "bars_ok (p\<lparr>ap_data := Some accounts, ap_failed := False\<rparr>)" by (rule same) (simp add: same_bars_def pending_bar_def)
    with Fetched show ?thesis by (simp add: page_step_def data_arrived_def set_selected_bars)
  next
    case (Answered n answer)
    show ?thesis
    proof (cases "n < length (ap_calls p) \<and> answer_fits (pc_request (ap_calls p ! n)) answer")
      case True
      obtain us vs where "ap_calls p = us @ ap_calls p ! n # vs" "drop_nth n (ap_calls p) = us @ vs"
        using drop_nth_split True by metis
      with True Answered answered_bars [OF assms(1)] show ?thesis by (simp add: page_step_def)
    next
      case False
      with Answered assms(1) show ?thesis by (auto simp: page_step_def)
    qed
  next
    case ExportAll
    then show ?thesis by (auto simp: page_step_def onExport_def intro: same) (rule same, simp add: same_bars_def pending_bar_def)
  next
    case ExportSelection
    have "bars_ok (onExport t e ids p)" for ids
      by (auto simp: onExport_def intro: same) (rule same, simp add: same_bars_def pending_bar_def)
    with ExportSelection assms(1) show ?thesis by (simp add: page_step_def)
  qed (use assms(1) in \<open>auto simp: page_step_def onRefreshAllModels_def delete_row_def question_bar_def same_bars_def
      pending_bar_def set_selected_bars answer_question_bars intro!: ask intro: same split: option.split\<close>)
qed

lemma bars_reach: "page_reach lc t say shown p \<Longrightarrow> bars_ok p"
  by (induction rule: page_reach.induct)
    (simp_all add: bars_step asked_reach, simp add: bars_ok_def opened_page_def fresh_confirm_def pending_bar_def bar_fits_def)

text \<open>A batch bar runs one batch at a time and knows it: whatever happens, no bar ever has two batches
  in flight, the bar on screen shows an action as running exactly while its own batch of that action is in
  flight, and while it runs the bar asks for nothing else.\<close>

theorem one_batch_per_bar:
  assumes "page_reach lc t say shown p"
  shows "distinct (map fst (bar_calls (ap_calls p))) \<and>
    (case ap_bar p of
       None \<Rightarrow> True
     | Some (b, None) \<Rightarrow> b \<notin> fst ` set (bar_calls (ap_calls p))
     | Some (b, Some action) \<Rightarrow> (\<exists>ids. (b, SendBatch action ids) \<in> set (bar_calls (ap_calls p))) \<and>
         run_batch t other p = p)"
  using bars_reach [OF assms]
  by (auto simp: bars_ok_def bar_fits_def run_batch_def dest: in_fst_set split: option.splits)

text \<open>The page with everything selected and a batch of its bar under way.\<close>

definition disabling_both :: "page_event list" where
  "disabling_both = [Fetched [sample_account, second_account], SelectRow ''a1'', RunBatch ActDisable, AnswerQuestion True]"

lemma row_ids_plain:
  "ap_search p = no_filters \<Longrightarrow> loaded p = [sample_account, second_account] \<Longrightarrow> row_ids lc some_env p = [''a1'', ''a2'']"
proof -
  assume "ap_search p = no_filters" "loaded p = [sample_account, second_account]"
  moreover have "filterAccounts [sample_account, second_account] no_filters 7 = [sample_account, second_account]"
    by (simp add: filterAccounts_def no_filters_def validateAccountsSearch_def FILTER_DIMENSIONS_def oneOf_def text_param_def Let_def trim_def)
  ultimately show ?thesis
    by (simp add: row_ids_def accounts_view_of_def some_env_def sortAccounts_def no_filters_def validateAccountsSearch_def
        oneOf_def pageNumber_def pageSize_def integer_param_def Let_def ACCOUNT_DEFAULT_PAGE_SIZE_def slice_page_def
        js_ceil_div_def second_account_def sample_account_def)
qed

lemma run_page_append: "run_page t say (xs @ ys) = foldl (\<lambda>p ev. page_step textCompare t say (\<lambda>email i. email) some_env ev p) (run_page t say xs) ys"
  by (simp add: run_page_def)

lemma disabling_runs:
  "ap_search (run_page t say disabling_both) = no_filters"
  "ap_data (run_page t say disabling_both) = Some [sample_account, second_account]"
  "ap_selected (run_page t say disabling_both) = [''a1'']"
  "ap_bar (run_page t say disabling_both) = Some (0, Some ActDisable)" "ap_bars (run_page t say disabling_both) = 1"
  "map pc_request (ap_calls (run_page t say disabling_both)) = [SendBatch ActDisable [''a1'']]"
  "cd_resolver (ap_confirm (run_page t say disabling_both)) = None" "cd_asked (ap_confirm (run_page t say disabling_both)) = 1"
  "length (ap_questions (run_page t say disabling_both)) = 1"
  by (simp_all add: run_page_def disabling_both_def page_step_def data_arrived_def set_selected_def sync_bar_def
      opened_page_def row_ids_plain loaded_def toggleOne_def set_insert_def run_batch_def ask_page_def answer_question_def
      confirm_def resolve_with_def settle_def fresh_confirm_def proceed_def send_loading_def send_def set_running_def split_beta)

text \<open>The bar forgets what it runs when the selection empties: unselecting the row and selecting another one
  brings up a new bar, which sends a second batch while the first is in flight.\<close>

lemma second_bar_runs_too:
  "map pc_request (ap_calls (run_page t say (disabling_both @ [SelectRow ''a1'', SelectRow ''a2'', RunBatch ActDelete, AnswerQuestion True]))) =
    [SendBatch ActDisable [''a1''], SendBatch ActDelete [''a2'']]"
  unfolding run_page_append
  using disabling_runs [of t say]
  by (simp add: page_step_def set_selected_def sync_bar_def row_ids_plain loaded_def toggleOne_def set_insert_def
      set_remove_def run_batch_def ask_page_def answer_question_def confirm_def resolve_with_def settle_def
      proceed_def send_loading_def send_def set_running_def split_beta Let_def nth_append)

subsection \<open>A batch tells the truth\<close>

lemma length_filter_ids:
  assumes "distinct (map res_id rs)"
  shows "length (filter (\<lambda>r. P (res_id r)) rs) = card {i \<in> res_id ` set rs. P i}"
proof -
  have "length (filter (\<lambda>r. P (res_id r)) rs) = length (filter P (map res_id rs))" by (simp add: filter_map comp_def)
  also have "\<dots> = card (set (filter P (map res_id rs)))" using assms by (simp only: distinct_filter distinct_card)
  also have "set (filter P (map res_id rs)) = {i \<in> res_id ` set rs. P i}" by auto
  finally show ?thesis .
qed

definition done_count :: "batch_accounts_response \<Rightarrow> int" where
  "done_count r = batch_count r + refreshed_of r + suspended_of r + deleted_of r"

lemma batch_run_done: "batch_run now ids action db = (Inr reply, db', sent) \<Longrightarrow>
    done_count reply + batch_failed reply = int (length (batch_results reply)) \<and>
    done_count reply = int (length (filter res_ok (batch_results reply)))"
  by (cases action)
    (auto simp: batch_run_def eachRequested_def Let_def split_beta countOk_def done_count_def batch_count_def
      refreshed_of_def suspended_of_def deleted_of_def)

lemma batch_counts:
  assumes "distinct (map acc_id (db_accounts db))" "batch_run now ids action db = (Inr reply, db', sent)"
  shows "done_count reply = int (card (set ids \<inter> acc_id ` set (db_accounts db)))"
    and "batch_failed reply = int (card (set ids - acc_id ` set (db_accounts db)))"
proof -
  let ?rs = "batch_results reply" and ?known = "acc_id ` set (db_accounts db)"
  have spec: "map res_id ?rs = distinct_ids ids" "list_all (\<lambda>r. res_ok r \<longleftrightarrow> res_id r \<in> ?known) ?rs"
    using each_id_batch [where ids = "distinct_ids ids" and now = now and action = action,
      OF conjunct1 [OF distinct_ids_spec] assms(1)] batch_run_each(2) [OF assms(2)] by simp_all
  have ids: "distinct (map res_id ?rs)" "res_id ` set ?rs = set ids"
    using spec(1) distinct_ids_spec [of ids] by (simp, metis list.set_map)
  have "filter res_ok ?rs = filter (\<lambda>r. res_id r \<in> ?known) ?rs"
    using spec(2) by (intro filter_cong) (auto simp: list_all_iff)
  then have hits: "length (filter res_ok ?rs) = card (set ids \<inter> ?known)"
    using length_filter_ids [OF ids(1), of "\<lambda>i. i \<in> ?known"] by (simp add: ids(2) Int_def)
  then show "done_count reply = int (card (set ids \<inter> ?known))" using batch_run_done [OF assms(2)] by simp
  have "length ?rs = card (set ids)" using ids distinct_card [OF ids(1)] by simp
  also have "\<dots> = card (set ids \<inter> ?known) + card (set ids - ?known)"
    by (rule card_Int_Diff) simp
  finally show "batch_failed reply = int (card (set ids - ?known))" using batch_run_done [OF assms(2)] hits by simp
qed

text \<open>What the page does after a yes to a batch, its answer and the refetch.\<close>

lemma batch_round_trip:
  assumes "cd_resolver (ap_confirm p) = Some k" "ap_questions p ! k = AskBatch b action ids names"
  shows "\<exists>i. let p' = page_step lc t say shown e (Fetched accounts)
        (page_step lc t say shown e (Answered (length (ap_calls p)) (BatchAnswer reply))
          (page_step lc t say shown e (AnswerQuestion True) p))
      in ap_selected p' = [] \<and> ap_data p' = Some accounts \<and> ap_calls p' = ap_calls p \<and>
         last (tt_calls (ap_toasts p')) =
           ToastUpdate i (make_message i (fst (resultToast action reply (nameOf shown names) t))
             (fst (snd (resultToast action reply (nameOf shown names) t)))
             (plain_toast\<lparr>to_description := snd (snd (resultToast action reply (nameOf shown names) t))\<rparr>) None)"
proof -
  define p1 where "p1 = page_step lc t say shown e (AnswerQuestion True) p"
  obtain i where calls: "ap_calls p1 = ap_calls p @ [\<lparr>pc_request = SendBatch action ids, pc_toast = Some i, pc_bar = Some b, pc_names = names\<rparr>]"
    using assms by (auto simp: p1_def page_step_def answer_question_def Let_def proceed_def send_loading_def send_def
        set_running_other split_beta)
  let ?msg = "resultToast action reply (nameOf shown names) t"
  have p2: "page_step lc t say shown e (Answered (length (ap_calls p)) (BatchAnswer reply)) p1 =
      invalidate True (set_running b None (set_selected [] (toast_settle (Some i) ?msg (p1\<lparr>ap_calls := ap_calls p\<rparr>))))"
    by (simp add: page_step_def calls answer_fits_def drop_nth_def page_answered_def batch_answered_def)
  show ?thesis
    unfolding p1_def [symmetric] p2
    by (intro exI [of _ i])
      (simp add: page_step_def data_arrived_def set_selected_def sync_bar_def invalidate_def set_running_def Let_def
        toast_settle_def update_toast_def call_def plain_toast_def)
qed

text \<open>A confirmed batch shows on the page what it did on the server: after the yes, the answer of the
  server and the refetch, the list is the accounts with every account asked for changed once (or gone) and
  the others untouched, nothing is selected, and the loading toast has become a success exactly when
  every account asked for existed and a warning otherwise; the counts it reports are the accounts the
  action was carried out on and the ids that named none.\<close>

theorem batch_shows_what_it_did:
  assumes "distinct (map acc_id (db_accounts db))" "batch_run now ids action db = (Inr reply, db', sent)"
    and "cd_resolver (ap_confirm p) = Some k" "ap_questions p ! k = AskBatch b action ids names"
  shows "(\<exists>i. let p' = page_step lc t say shown e (Fetched (db_accounts db'))
        (page_step lc t say shown e (Answered (length (ap_calls p)) (BatchAnswer reply))
          (page_step lc t say shown e (AnswerQuestion True) p))
      in ap_selected p' = [] \<and> ap_data p' = Some (touch now action ids (db_accounts db)) \<and> ap_calls p' = ap_calls p \<and>
         last (tt_calls (ap_toasts p')) =
           ToastUpdate i (make_message i
             (if set ids \<subseteq> acc_id ` set (db_accounts db) then ToastSuccess else ToastWarning)
             (fst (snd (resultToast action reply (nameOf shown names) t)))
             (plain_toast\<lparr>to_description := snd (snd (resultToast action reply (nameOf shown names) t))\<rparr>) None)) \<and>
    done_count reply = int (card (set ids \<inter> acc_id ` set (db_accounts db))) \<and>
    batch_failed reply = int (card (set ids - acc_id ` set (db_accounts db)))"
proof -
  note counts = batch_counts [OF assms(1,2)]
  have "0 < batch_failed reply \<longleftrightarrow> \<not> set ids \<subseteq> acc_id ` set (db_accounts db)"
    unfolding counts(2) by (simp add: card_gt_0_iff)
  then have "fst (resultToast action reply (nameOf shown names) t) =
      (if set ids \<subseteq> acc_id ` set (db_accounts db) then ToastSuccess else ToastWarning)"
    by (simp add: resultToast_def Let_def)
  with batch_round_trip [OF assms(3,4), of lc t say shown e "db_accounts db'" reply] counts
    batch_run_touch [OF assms(1,2)] show ?thesis by simp
qed

definition deleting :: accounts_page where
  "deleting = (opened_page no_filters)
     \<lparr>ap_confirm := snd (confirm (batch_question (\<lambda>k ps. k) ActDelete [''a1'']) fresh_confirm),
      ap_questions := [AskBatch 0 ActDelete [''a1''] (db_accounts sample_accounts_db)]\<rparr>"

theorem batch_shows_what_it_did_witness:
  "ap_data (page_step textCompare (\<lambda>k ps. k) (\<lambda>w. ''failed'') (\<lambda>email i. email) some_env
       (Fetched (db_accounts (fst (snd (batch_run 7 [''a1''] ActDelete sample_accounts_db)))))
     (page_step textCompare (\<lambda>k ps. k) (\<lambda>w. ''failed'') (\<lambda>email i. email) some_env
       (Answered 0 (BatchAnswer (BatchDelete 1 0 [\<lparr>res_id = ''a1'', res_ok = True, res_error = None, res_status = None\<rparr>])))
     (page_step textCompare (\<lambda>k ps. k) (\<lambda>w. ''failed'') (\<lambda>email i. email) some_env (AnswerQuestion True) deleting))) =
   Some [sample_account\<lparr>acc_id := ''a2'', acc_banStatus := ''BANNED'', acc_enabled := False\<rparr>]"
proof -
  let ?reply = "BatchDelete 1 0 [\<lparr>res_id = ''a1'', res_ok = True, res_error = None, res_status = None\<rparr>]"
  let ?db' = "fst (snd (batch_run 7 [''a1''] ActDelete sample_accounts_db))"
  have run: "batch_run 7 [''a1''] ActDelete sample_accounts_db = (Inr ?reply, ?db', accountsChanged ''*'')"
    by (simp add: batch_run_def eachRequested_def distinct_ids_def sample_accounts_db_def seedEmptyDb_def findAccount_def
        sample_account_def act_delete_def countOk_def)
  have dist: "distinct (map acc_id (db_accounts sample_accounts_db))"
    using sample_accounts_ok by (simp add: accounts_ok_def)
  have pending: "cd_resolver (ap_confirm deleting) = Some 0"
    "ap_questions deleting ! 0 = AskBatch 0 ActDelete [''a1''] (db_accounts sample_accounts_db)"
    by (simp_all add: deleting_def confirm_def fresh_confirm_def)
  have calls: "ap_calls deleting = []" by (simp add: deleting_def opened_page_def)
  have "touch 7 ActDelete [''a1''] (db_accounts sample_accounts_db) =
      [sample_account\<lparr>acc_id := ''a2'', acc_banStatus := ''BANNED'', acc_enabled := False\<rparr>]"
    by (simp add: sample_accounts_db_def sample_account_def)
  with batch_shows_what_it_did [OF dist run pending, of textCompare "\<lambda>k ps. k" "\<lambda>w. ''failed''" "\<lambda>email i. email" some_env]
  show ?thesis by (simp add: calls Let_def)
qed

end
