(* ===== verification/Admin_Events.thy ===== *)
theory Admin_Events
  imports Wire_Types "HOL-Library.Sublist"
begin

text \<open>
  The live event stream of the UI (src/ui/src/lib/events/admin-events.tsx) with the query keys it
  refetches (src/ui/src/lib/api/query-keys.ts). One run of the provider's effect, from its first
  \<open>connect()\<close> to its cleanup, is a transition system: the closure's variables are the state, and
  each callback the platform may fire (a ticket arriving or failing, the source opening, failing or
  delivering an event, a timer) is a step. The run's outputs, the invalidations and the events handed
  to the registered handlers, are logged in order. Timer delays only order the steps, so any
  interleaving is allowed.
\<close>

subsection \<open>Query keys\<close>

datatype key_part = KText string | KInt int | KShape "(string \<times> json) list"

type_synonym query_key = "key_part list"

definition key_status :: query_key where "key_status = [KText ''status'']"
definition key_accounts_all :: query_key where "key_accounts_all = [KText ''accounts'']"
definition key_accounts_list :: query_key where "key_accounts_list = [KText ''accounts'', KText ''list'']"
definition key_profiles :: "string \<Rightarrow> query_key" where
  "key_profiles i = [KText ''accounts'', KText ''detail'', KText i, KText ''profiles'']"
definition key_models :: "string \<Rightarrow> query_key" where
  "key_models i = [KText ''accounts'', KText ''detail'', KText i, KText ''models'']"
definition key_modelsCached :: "string \<Rightarrow> query_key" where
  "key_modelsCached i = [KText ''accounts'', KText ''detail'', KText i, KText ''models-cached'']"
definition key_observe_all :: query_key where "key_observe_all = [KText ''observe'']"
definition key_overview :: query_key where "key_overview = [KText ''observe'', KText ''overview'']"
definition key_requests_all :: query_key where "key_requests_all = [KText ''requests'']"
definition key_apiKeys_all :: query_key where "key_apiKeys_all = [KText ''api-keys'']"
definition key_settings_all :: query_key where "key_settings_all = [KText ''settings'']"
definition key_backups_all :: query_key where "key_backups_all = [KText ''backups'']"

definition heatmap_shape :: "bool \<Rightarrow> int option \<Rightarrow> int option \<Rightarrow> (string \<times> json) list" where
  "heatmap_shape globalOnly busiest bucketMin =
     (if globalOnly then [(''scope'', JStr ''global'')] else []) @
     (case busiest of None \<Rightarrow> [] | Some n \<Rightarrow> if n > 0 then [(''top'', jint n)] else []) @
     (case bucketMin of None \<Rightarrow> [] | Some n \<Rightarrow> if n > 1 then [(''bucketMin'', jint n)] else [])"

definition key_heatmap :: "int \<Rightarrow> bool \<Rightarrow> int option \<Rightarrow> int option \<Rightarrow> query_key" where
  "key_heatmap windowMin globalOnly busiest bucketMin =
     (let shape = heatmap_shape globalOnly busiest bucketMin
      in [KText ''observe'', KText ''heatmap'', KInt windowMin] @ (if shape \<noteq> [] then [KShape shape] else []))"

subsection \<open>The run's state\<close>

datatype change_type = ChBackupDeleted | ChAccounts | ChApiKeys | ChSettings | ChStatsReset

definition change_of :: "admin_event_type \<Rightarrow> change_type option" where
  "change_of e = (case e of
      Backup_deleted \<Rightarrow> Some ChBackupDeleted | Accounts_changed \<Rightarrow> Some ChAccounts
    | Api_keys_changed \<Rightarrow> Some ChApiKeys | Settings_changed \<Rightarrow> Some ChSettings
    | Stats_reset \<Rightarrow> Some ChStatsReset | _ \<Rightarrow> None)"

definition CHANGE_INVALIDATIONS :: "change_type \<Rightarrow> query_key list" where
  "CHANGE_INVALIDATIONS c = (case c of
      ChAccounts \<Rightarrow> [key_accounts_list, key_status, key_overview]
    | ChApiKeys \<Rightarrow> [key_apiKeys_all]
    | ChSettings \<Rightarrow> [key_settings_all, key_overview]
    | ChStatsReset \<Rightarrow> [key_status, key_observe_all, key_requests_all]
    | ChBackupDeleted \<Rightarrow> [key_backups_all])"

datatype events_status = Connecting | Open | Closed

datatype refetch = Every | ActiveOnly | ActiveLive

datatype effect = Invalidate query_key refetch | Deliver admin_event_type "string option"

record conn =
  cn_disposed :: bool
  cn_source :: "nat option"
  cn_sources :: "nat list"
  cn_nextSource :: nat
  cn_fetching :: nat
  cn_reconnect :: bool
  cn_observe :: bool
  cn_changes :: "change_type list"
  cn_observeSeq :: "string option"
  cn_status :: events_status
  cn_effects :: "effect list"

definition emit :: "effect list \<Rightarrow> conn \<Rightarrow> conn" where
  "emit es c = c\<lparr>cn_effects := cn_effects c @ es\<rparr>"

subsection \<open>The callbacks\<close>

definition connect :: "conn \<Rightarrow> conn" where
  "connect c = (if cn_disposed c then c
                else c\<lparr>cn_status := Connecting, cn_fetching := cn_fetching c + 1\<rparr>)"

definition initial :: conn where
  "initial = connect \<lparr>cn_disposed = False, cn_source = None, cn_sources = [], cn_nextSource = 0,
     cn_fetching = 0, cn_reconnect = False, cn_observe = False, cn_changes = [], cn_observeSeq = None,
     cn_status = Closed, cn_effects = []\<rparr>"

definition scheduleReconnect :: "conn \<Rightarrow> conn" where
  "scheduleReconnect c = (if cn_disposed c \<or> cn_reconnect c then c else c\<lparr>cn_reconnect := True\<rparr>)"

definition ticket_failed :: "conn \<Rightarrow> conn" where
  "ticket_failed c =
     (let c = c\<lparr>cn_fetching := cn_fetching c - 1\<rparr>
      in if cn_disposed c then c else scheduleReconnect (c\<lparr>cn_status := Closed\<rparr>))"

text \<open>\<open>cn_sources\<close> are the event sources created and not closed; the newest gets a fresh number.\<close>

definition ticket_arrived :: "conn \<Rightarrow> conn" where
  "ticket_arrived c =
     (let c = c\<lparr>cn_fetching := cn_fetching c - 1\<rparr>
      in if cn_disposed c then c
         else c\<lparr>cn_source := Some (cn_nextSource c), cn_sources := cn_nextSource c # cn_sources c,
                cn_nextSource := cn_nextSource c + 1, cn_observeSeq := None\<rparr>)"

definition source_opened :: "nat \<Rightarrow> conn \<Rightarrow> conn" where
  "source_opened es c = (if cn_source c = Some es then c\<lparr>cn_status := Open\<rparr> else c)"

definition source_failed :: "nat \<Rightarrow> conn \<Rightarrow> conn" where
  "source_failed es c =
     (let c = c\<lparr>cn_sources := removeAll es (cn_sources c)\<rparr>
      in if cn_source c \<noteq> Some es then c
         else scheduleReconnect (c\<lparr>cn_source := None, cn_status := Closed\<rparr>))"

definition note_change :: "admin_event_type \<Rightarrow> conn \<Rightarrow> conn" where
  "note_change e c = (case change_of e of
      None \<Rightarrow> c
    | Some t \<Rightarrow> if t \<in> set (cn_changes c) then c else c\<lparr>cn_changes := cn_changes c @ [t]\<rparr>)"

definition handle_event :: "admin_event_type \<Rightarrow> conn \<Rightarrow> conn" where
  "handle_event e c = (case e of
      Hello \<Rightarrow> c\<lparr>cn_status := Open\<rparr>
    | Observe_tick \<Rightarrow> if cn_observe c then c else c\<lparr>cn_observe := True\<rparr>
    | Backup_created \<Rightarrow> emit [Invalidate key_backups_all ActiveOnly] c
    | Backup_restored \<Rightarrow> emit (map (\<lambda>k. Invalidate k Every)
        [key_accounts_all, key_settings_all, key_backups_all, key_status]) c
    | _ \<Rightarrow> c)"

definition react :: "admin_event_type \<Rightarrow> string option \<Rightarrow> conn \<Rightarrow> conn" where
  "react e payload c =
     (let c = note_change e c
      in if e = Observe_tick \<and> payload \<noteq> None \<and> payload = cn_observeSeq c then c
         else (let c = (if e = Observe_tick \<and> payload \<noteq> None then c\<lparr>cn_observeSeq := payload\<rparr> else c)
               in emit [Deliver e payload] (handle_event e c)))"

definition source_event :: "nat \<Rightarrow> admin_event_type \<Rightarrow> string option \<Rightarrow> conn \<Rightarrow> conn" where
  "source_event es e payload c = (if cn_source c = Some es then react e payload c else c)"

definition change_timer :: "change_type \<Rightarrow> conn \<Rightarrow> conn" where
  "change_timer t c =
     emit (map (\<lambda>k. Invalidate k Every) (CHANGE_INVALIDATIONS t)) (c\<lparr>cn_changes := removeAll t (cn_changes c)\<rparr>)"

definition observe_timer :: "conn \<Rightarrow> conn" where
  "observe_timer c = emit [Invalidate key_observe_all ActiveLive] (c\<lparr>cn_observe := False\<rparr>)"

definition reconnect_timer :: "conn \<Rightarrow> conn" where
  "reconnect_timer c = connect (c\<lparr>cn_reconnect := False\<rparr>)"

definition dispose :: "conn \<Rightarrow> conn" where
  "dispose c = c\<lparr>cn_disposed := True, cn_reconnect := False, cn_observe := False, cn_changes := [],
     cn_sources := (case cn_source c of None \<Rightarrow> cn_sources c | Some es \<Rightarrow> removeAll es (cn_sources c)),
     cn_source := None\<rparr>"

text \<open>\<open>parsePayload\<close>: \<open>parse\<close> is \<open>JSON.parse\<close>, None when it throws.\<close>

definition parsePayload :: "(string \<Rightarrow> json option) \<Rightarrow> json \<Rightarrow> string option" where
  "parsePayload parse data = (case data of
      JStr s \<Rightarrow>
        if s = [] then None
        else (case parse s of
            Some (JObj fs) \<Rightarrow> (case own fs ''payload'' of
                JStr p \<Rightarrow> if p = [] then None else Some p
              | _ \<Rightarrow> None)
          | _ \<Rightarrow> None)
    | _ \<Rightarrow> None)"

subsection \<open>The transition system\<close>

inductive step :: "conn \<Rightarrow> conn \<Rightarrow> bool" where
  TicketFailed: "0 < cn_fetching c \<Longrightarrow> step c (ticket_failed c)"
| TicketArrived: "0 < cn_fetching c \<Longrightarrow> step c (ticket_arrived c)"
| SourceOpened: "es < cn_nextSource c \<Longrightarrow> step c (source_opened es c)"
| SourceFailed: "es < cn_nextSource c \<Longrightarrow> step c (source_failed es c)"
| SourceEvent: "es < cn_nextSource c \<Longrightarrow> step c (source_event es e payload c)"
| ChangeTimer: "t \<in> set (cn_changes c) \<Longrightarrow> step c (change_timer t c)"
| ObserveTimer: "cn_observe c \<Longrightarrow> step c (observe_timer c)"
| ReconnectTimer: "cn_reconnect c \<Longrightarrow> step c (reconnect_timer c)"
| Dispose: "\<not> cn_disposed c \<Longrightarrow> step c (dispose c)"

inductive_cases stepE: "step c d"

inductive reachable :: "conn \<Rightarrow> bool" where
  reach_init: "reachable initial"
| reach_step: "reachable c \<Longrightarrow> step c d \<Longrightarrow> reachable d"

named_theorems conn_defs \<open>the callbacks, unfolded to the fields they set\<close>

declare connect_def [conn_defs] scheduleReconnect_def [conn_defs] ticket_failed_def [conn_defs]
  ticket_arrived_def [conn_defs] source_opened_def [conn_defs] source_failed_def [conn_defs]
  note_change_def [conn_defs] handle_event_def [conn_defs] react_def [conn_defs]
  source_event_def [conn_defs] change_timer_def [conn_defs] observe_timer_def [conn_defs]
  reconnect_timer_def [conn_defs] dispose_def [conn_defs] emit_def [conn_defs] Let_def [conn_defs]

subsection \<open>Lemmas\<close>

text \<open>
  The invariant of a run: while it lives, exactly one of a ticket request, a reconnect timer and an
  event source exists, that source is the only one not closed, and the status is open only with a
  source; once disposed nothing is left but at most a ticket request that will be dropped.
\<close>

definition conn_inv :: "conn \<Rightarrow> bool" where
  "conn_inv c \<longleftrightarrow>
     (if cn_disposed c
      then cn_source c = None \<and> cn_sources c = [] \<and> \<not> cn_reconnect c \<and> \<not> cn_observe c \<and> cn_changes c = [] \<and>
           cn_fetching c \<le> 1
      else cn_fetching c + (if cn_reconnect c then 1 else 0) + (if cn_source c \<noteq> None then 1 else 0) = 1 \<and>
           (case cn_source c of None \<Rightarrow> cn_sources c = [] | Some es \<Rightarrow> cn_sources c = [es] \<and> es < cn_nextSource c) \<and>
           distinct (cn_changes c) \<and> (cn_status c = Open \<longrightarrow> cn_source c \<noteq> None))"

lemma inv_initial: "conn_inv initial"
  by (simp add: initial_def conn_inv_def connect_def)

lemma inv_ticket:
  "conn_inv c \<Longrightarrow> 0 < cn_fetching c \<Longrightarrow> conn_inv (ticket_failed c)"
  "conn_inv c \<Longrightarrow> 0 < cn_fetching c \<Longrightarrow> conn_inv (ticket_arrived c)"
  by (auto simp: conn_inv_def conn_defs split: if_splits option.splits)

lemma inv_source:
  "conn_inv c \<Longrightarrow> conn_inv (source_opened es c)" "conn_inv c \<Longrightarrow> conn_inv (source_failed es c)"
  by (auto simp: conn_inv_def conn_defs split: if_splits option.splits)

lemma react_frame [simp]:
  "cn_disposed (react e p c) = cn_disposed c" "cn_source (react e p c) = cn_source c"
  "cn_sources (react e p c) = cn_sources c" "cn_nextSource (react e p c) = cn_nextSource c"
  "cn_fetching (react e p c) = cn_fetching c" "cn_reconnect (react e p c) = cn_reconnect c"
  by (simp_all add: conn_defs split: option.split admin_event_type.split)

lemma react_changes: "cn_changes (react e p c) =
    (case change_of e of None \<Rightarrow> cn_changes c
     | Some t \<Rightarrow> if t \<in> set (cn_changes c) then cn_changes c else cn_changes c @ [t])"
  by (simp add: conn_defs split: option.split admin_event_type.split)

lemma inv_event: "conn_inv c \<Longrightarrow> conn_inv (source_event es e p c)"
  by (auto simp: conn_inv_def source_event_def react_changes split: if_splits option.splits)

lemma inv_timers:
  "conn_inv c \<Longrightarrow> t \<in> set (cn_changes c) \<Longrightarrow> conn_inv (change_timer t c)"
  "conn_inv c \<Longrightarrow> cn_observe c \<Longrightarrow> conn_inv (observe_timer c)"
  "conn_inv c \<Longrightarrow> cn_reconnect c \<Longrightarrow> conn_inv (reconnect_timer c)"
  by (auto simp: conn_inv_def conn_defs distinct_removeAll split: if_splits option.splits)

lemma inv_dispose: "conn_inv c \<Longrightarrow> \<not> cn_disposed c \<Longrightarrow> conn_inv (dispose c)"
  by (auto simp: conn_inv_def conn_defs split: if_splits option.splits)

lemmas inv_callbacks = inv_ticket inv_source inv_event inv_timers inv_dispose

lemma step_inv: "step c d \<Longrightarrow> conn_inv c \<Longrightarrow> conn_inv d"
  by (erule stepE) (simp_all add: inv_callbacks)

lemma reachable_inv: "reachable c \<Longrightarrow> conn_inv c"
  by (induction rule: reachable.induct) (auto simp: inv_initial step_inv)

text \<open>After the cleanup, every step is silent.\<close>

lemma disposed_step:
  "step c d \<Longrightarrow> conn_inv c \<Longrightarrow> cn_disposed c \<Longrightarrow>
   cn_disposed d \<and> cn_effects d = cn_effects c \<and> cn_status d = cn_status c"
  by (erule stepE) (auto simp: conn_inv_def conn_defs)

lemma disposed_steps:
  "step\<^sup>*\<^sup>* c d \<Longrightarrow> conn_inv c \<Longrightarrow> cn_disposed c \<Longrightarrow>
   cn_disposed d \<and> cn_effects d = cn_effects c \<and> cn_status d = cn_status c \<and> conn_inv d"
proof (induction rule: rtranclp_induct)
  case (step y z)
  then show ?case using disposed_step [of y z] step_inv [of y z] by simp
qed simp

text \<open>The log only grows.\<close>

lemma react_effects: "\<exists>es. cn_effects (react e p c) = cn_effects c @ es"
  by (simp add: conn_defs split: option.split admin_event_type.split)

lemma step_effects: "step c d \<Longrightarrow> \<exists>es. cn_effects d = cn_effects c @ es"
  by (erule stepE) (auto simp: react_effects source_event_def simp: ticket_failed_def ticket_arrived_def
      source_opened_def source_failed_def change_timer_def observe_timer_def reconnect_timer_def connect_def
      scheduleReconnect_def dispose_def emit_def Let_def)

text \<open>What a pending change waits for: its own timer, or the cleanup.\<close>

lemma step_pending:
  "step c d \<Longrightarrow> t \<in> set (cn_changes c) \<Longrightarrow>
   t \<in> set (cn_changes d) \<or> cn_disposed d \<or>
   cn_effects d = cn_effects c @ map (\<lambda>k. Invalidate k Every) (CHANGE_INVALIDATIONS t)"
  by (erule stepE) (auto simp: source_event_def react_changes ticket_failed_def ticket_arrived_def
      source_opened_def source_failed_def change_timer_def observe_timer_def reconnect_timer_def connect_def
      scheduleReconnect_def dispose_def emit_def Let_def split: option.split)

lemma disposed_stays: "step c d \<Longrightarrow> cn_disposed c \<Longrightarrow> cn_disposed d"
  by (erule stepE) (auto simp: source_event_def ticket_failed_def ticket_arrived_def
      source_opened_def source_failed_def change_timer_def observe_timer_def reconnect_timer_def connect_def
      scheduleReconnect_def dispose_def emit_def Let_def)

definition refetched :: "change_type \<Rightarrow> effect list \<Rightarrow> bool" where
  "refetched t es \<longleftrightarrow> sublist (map (\<lambda>k. Invalidate k Every) (CHANGE_INVALIDATIONS t)) es"

lemma refetched_append: "refetched t es \<Longrightarrow> refetched t (es @ fs)"
  unfolding refetched_def by (rule sublist_order.order_trans [OF _ sublist_append_rightI])

lemma steps_effects: "step\<^sup>*\<^sup>* c d \<Longrightarrow> \<exists>es. cn_effects d = cn_effects c @ es"
proof (induction rule: rtranclp_induct)
  case (step y z)
  then show ?case using step_effects [of y z] by auto
qed simp

lemma pending_steps:
  "step\<^sup>*\<^sup>* c d \<Longrightarrow> t \<in> set (cn_changes c) \<Longrightarrow>
   t \<in> set (cn_changes d) \<or> cn_disposed d \<or> (\<exists>es. cn_effects d = cn_effects c @ es \<and> refetched t es)"
proof (induction rule: rtranclp_induct)
  case (step y z)
  obtain es where es: "cn_effects y = cn_effects c @ es" using steps_effects step.hyps(1) by blast
  obtain es' where es': "cn_effects z = cn_effects y @ es'" using step_effects [OF step.hyps(2)] by blast
  consider (pending) "t \<in> set (cn_changes y)" | (gone) "cn_disposed y"
    | (fetched) es where "cn_effects y = cn_effects c @ es" "refetched t es"
    using step by blast
  then show ?case
  proof cases
    case pending
    then consider "t \<in> set (cn_changes z)" | "cn_disposed z"
      | "cn_effects z = cn_effects c @ es @ map (\<lambda>k. Invalidate k Every) (CHANGE_INVALIDATIONS t)"
      using step_pending [OF step.hyps(2)] es by fastforce
    then show ?thesis
      by cases (auto simp: refetched_def)
  next
    case gone
    with disposed_stays step.hyps(2) show ?thesis by blast
  next
    case (fetched es)
    then have "cn_effects z = cn_effects c @ es @ es' \<and> refetched t (es @ es')"
      using es' refetched_append by simp
    then show ?thesis by blast
  qed
qed simp

subsection \<open>Properties\<close>

text \<open>
  C15: at most one connection. In every reachable state of a run at most one event source is open and
  it is the current one; while the run lives, exactly one of a ticket request, a reconnect timer and
  that source exists, so a failure never leads to two reconnects and a live run never gets stuck
  without one; at most one refetch timer waits per kind of change; and after the cleanup no source
  and no timer is left.
\<close>

theorem one_connection_at_a_time:
  assumes "reachable c"
  shows "cn_sources c = (case cn_source c of None \<Rightarrow> [] | Some es \<Rightarrow> [es])
    \<and> distinct (cn_changes c)
    \<and> (if cn_disposed c
       then cn_source c = None \<and> \<not> cn_reconnect c \<and> \<not> cn_observe c \<and> cn_changes c = []
       else cn_fetching c + (if cn_reconnect c then 1 else 0) + (if cn_source c = None then 0 else 1) = 1)"
  using reachable_inv [OF assms] by (auto simp: conn_inv_def split: if_splits option.splits)

theorem one_connection_at_a_time_witness:
  "cn_sources (ticket_arrived initial) = [0]"
proof -
  have "reachable (ticket_arrived initial)"
    by (rule reach_step [OF reach_init]) (rule step.TicketArrived, simp add: initial_def connect_def)
  then show ?thesis
    using one_connection_at_a_time [of "ticket_arrived initial"]
    by (simp add: ticket_arrived_def initial_def connect_def)
qed

text \<open>
  C17: the cleanup is final. Once a run is disposed (the session ended or the token changed), nothing
  that was in flight has an effect any more: whatever callbacks still fire, no query is refetched, no
  handler hears an event, the status is not touched and no new source is opened.
\<close>

theorem cleanup_is_final:
  assumes "reachable c" "\<not> cn_disposed c" "step\<^sup>*\<^sup>* (dispose c) d"
  shows "cn_effects d = cn_effects c \<and> cn_status d = cn_status c \<and> cn_sources d = []"
proof -
  have "conn_inv (dispose c)" by (rule inv_dispose [OF reachable_inv]) (rule assms)+
  moreover have "cn_disposed (dispose c)" by (simp add: dispose_def)
  ultimately have "cn_disposed d \<and> cn_effects d = cn_effects (dispose c) \<and>
      cn_status d = cn_status (dispose c) \<and> conn_inv d"
    using disposed_steps [OF assms(3)] by blast
  then show ?thesis by (simp add: dispose_def conn_inv_def)
qed

theorem cleanup_is_final_witness:
  "cn_sources (ticket_arrived (dispose initial)) = []"
proof -
  have "step\<^sup>*\<^sup>* (dispose initial) (ticket_arrived (dispose initial))"
    by (rule r_into_rtranclp, rule step.TicketArrived) (simp add: initial_def connect_def dispose_def)
  then show ?thesis
    using cleanup_is_final [of initial "ticket_arrived (dispose initial)"] reach_init
    by (simp add: initial_def connect_def)
qed

text \<open>
  C16: no change is lost. After a change event on the current source, in every later state its refetch
  is still pending, or it has been done in full after the event (every query key of its kind
  invalidated), or the run was disposed; a burst of the same kind waits on one timer.
\<close>

theorem changes_are_refetched:
  assumes "reachable c" "cn_source c = Some es" "change_of e = Some t" "step\<^sup>*\<^sup>* (source_event es e p c) d"
  shows "t \<in> set (cn_changes d) \<or> cn_disposed d
    \<or> (\<exists>log. cn_effects d = cn_effects (source_event es e p c) @ log \<and> refetched t log)"
  using pending_steps [OF assms(4), of t] assms(2,3) by (simp add: source_event_def react_changes)

definition connected :: conn where
  "connected = ticket_arrived initial"

theorem changes_are_refetched_witness:
  "ChApiKeys \<in> set (cn_changes (source_event 0 Api_keys_changed (Some ''k1'') connected))"
proof -
  have "reachable connected"
    unfolding connected_def
    by (rule reach_step [OF reach_init]) (rule step.TicketArrived, simp add: initial_def connect_def)
  moreover have "cn_source connected = Some 0"
    by (simp add: connected_def ticket_arrived_def initial_def connect_def)
  moreover have "change_of Api_keys_changed = Some ChApiKeys" by (simp add: change_of_def)
  ultimately show ?thesis
    using changes_are_refetched [of connected 0 Api_keys_changed ChApiKeys "Some ''k1''"
        "source_event 0 Api_keys_changed (Some ''k1'') connected"]
    by (auto simp: refetched_def CHANGE_INVALIDATIONS_def source_event_def connected_def
        ticket_arrived_def initial_def connect_def)
qed

text \<open>
  An observe tick with a counter already seen changes nothing, while the same counter after a
  reconnect counts as new; and a background sweep over the accounts refetches the list, the status
  and the overview but never a per-account query that calls AWS.
\<close>

theorem ticks_deduplicated:
  "react Observe_tick (Some n) (react Observe_tick (Some n) c) = react Observe_tick (Some n) c
   \<and> (cn_disposed c \<or> cn_observeSeq (ticket_arrived c) = None)
   \<and> \<not> list_ex (\<lambda>k. prefix k (key_profiles i) \<or> prefix k (key_models i) \<or> prefix k (key_modelsCached i))
        (CHANGE_INVALIDATIONS ChAccounts)"
  by (auto simp: conn_defs change_of_def CHANGE_INVALIDATIONS_def key_profiles_def key_models_def
      key_modelsCached_def key_accounts_list_def key_status_def key_overview_def)

end
