(* ===== verification/Aggregate.thy ===== *)
theory Aggregate
  imports Search_Params
begin

text \<open>
  The overview's aggregation (src/ui/src/features/overview/aggregate.ts) and the shaping of the
  heatmap response (src/ui/src/lib/api/observe.ts): sparse rows made dense, per-minute cells cut
  into buckets, bars and merged cells, the window before, hour deltas and model slices. Minutes,
  counts and Unix times are \<open>int\<close> (the callers pass whole numbers, so \<open>Math.floor\<close> of a size is
  the size); rates, bars and credits are exact rationals. A \<open>Date\<close> is its milliseconds.
\<close>

definition RANGE_WINDOWS :: "overview_range \<Rightarrow> int \<times> int" where
  "RANGE_WINDOWS r = (case r of Range1h \<Rightarrow> (60, 2) | Range6h \<Rightarrow> (360, 5) | Range24h \<Rightarrow> (1440, 15))"

definition HOUR_PAIR_WINDOW :: int where
  "HOUR_PAIR_WINDOW = 120"

definition HOUR :: int where
  "HOUR = 60"

subsection \<open>Sparse rows made dense\<close>

definition empty_cell :: "int \<Rightarrow> heatmap_cell" where
  "empty_cell offset =
     \<lparr>cell_offset = offset, cell_reqs = 0, cell_failures = 0, cell_retries = None, cell_credits = None\<rparr>"

definition place_cell :: "int \<Rightarrow> heatmap_cell list \<Rightarrow> heatmap_cell \<Rightarrow> heatmap_cell list" where
  "place_cell buckets dense c =
     (if 0 \<le> cell_offset c \<and> cell_offset c < buckets then dense[nat (cell_offset c) := c] else dense)"

definition densify :: "heatmap_cell list \<Rightarrow> int \<Rightarrow> heatmap_cell list" where
  "densify cells buckets =
     foldl (place_cell buckets) (map (\<lambda>i. empty_cell (int i)) [0..<nat buckets]) cells"

record heatmap_data =
  hd_windowMin :: int
  hd_bucketMin :: int
  hd_nowUnix :: int
  hd_global :: account_heatmap
  hd_accounts :: "account_heatmap list"
  hd_restCount :: "int option"

definition shapeHeatmap :: "heatmap_response \<Rightarrow> heatmap_data" where
  "shapeHeatmap res =
     (let bucketMin = max 1 (case hr_bucketMin res of None \<Rightarrow> 1 | Some b \<Rightarrow> b);
          buckets = js_ceil_div (hr_windowMin res) bucketMin;
          dense = (\<lambda>row. row\<lparr>hm_cells := densify (hm_cells row) buckets\<rparr>)
      in \<lparr>hd_windowMin = hr_windowMin res, hd_bucketMin = bucketMin, hd_nowUnix = hr_nowUnix res,
          hd_global = dense (hr_global res),
          hd_accounts = map dense (case hr_accounts res of None \<Rightarrow> [] | Some rows \<Rightarrow> rows),
          hd_restCount = hr_restCount res\<rparr>)"

subsection \<open>Buckets\<close>

record traffic_point =
  tp_date :: int
  tp_succeeded :: int
  tp_failed :: int
  tp_previous :: "int option"

definition bucket_count :: "int \<Rightarrow> int \<Rightarrow> int" where
  "bucket_count windowMin width = js_ceil_div (max 0 windowMin) width"

definition empty_point :: "int \<Rightarrow> int \<Rightarrow> int \<Rightarrow> int \<Rightarrow> traffic_point" where
  "empty_point nowUnix width buckets index =
     (let oldestOffset = (buckets - index) * width - 1
      in \<lparr>tp_date = (nowUnix - oldestOffset * 60) * 1000, tp_succeeded = 0, tp_failed = 0,
          tp_previous = None\<rparr>)"

definition add_cell :: "int \<Rightarrow> int \<Rightarrow> traffic_point list \<Rightarrow> heatmap_cell \<Rightarrow> traffic_point list" where
  "add_cell width buckets points c =
     (let bucket = cell_offset c div width in
      if cell_offset c < 0 \<or> bucket \<ge> buckets then points
      else
        (let i = nat (buckets - 1 - bucket); p = points ! i
         in points[i := p\<lparr>tp_failed := tp_failed p + cell_failures c,
                          tp_succeeded := tp_succeeded p + max 0 (cell_reqs c - cell_failures c)\<rparr>]))"

definition bucketGlobal :: "heatmap_cell list \<Rightarrow> int \<Rightarrow> int \<Rightarrow> int option \<Rightarrow> traffic_point list" where
  "bucketGlobal cells nowUnix bucketMin window =
     (let windowMin = (case window of None \<Rightarrow> int (length cells) | Some w \<Rightarrow> w);
          width = max 1 bucketMin;
          buckets = bucket_count windowMin width;
          points = map (\<lambda>i. empty_point nowUnix width buckets (int i)) [0..<nat buckets]
      in foldl (add_cell width buckets) points cells)"

definition earlier_cells :: "heatmap_cell list \<Rightarrow> int \<Rightarrow> heatmap_cell list" where
  "earlier_cells cells windowMin =
     map (\<lambda>c. c\<lparr>cell_offset := cell_offset c - windowMin\<rparr>)
       (filter (\<lambda>c. cell_offset c \<ge> windowMin \<and> cell_offset c < 2 * windowMin) cells)"

definition withPreviousWindow :: "heatmap_cell list \<Rightarrow> int \<Rightarrow> int \<Rightarrow> int \<Rightarrow> traffic_point list" where
  "withPreviousWindow cells nowUnix bucketMin windowMin =
     (let current = bucketGlobal cells nowUnix bucketMin (Some windowMin);
          previous = bucketGlobal (earlier_cells cells windowMin) nowUnix bucketMin (Some windowMin)
      in map (\<lambda>(p, i). p\<lparr>tp_previous :=
                Some (if i < length previous then tp_succeeded (previous ! i) else 0)\<rparr>)
           (zip current [0..<length current]))"

definition peakCount :: "traffic_point list \<Rightarrow> int" where
  "peakCount points =
     foldl (\<lambda>top p. max (max (max top (tp_succeeded p)) (tp_failed p))
                      (case tp_previous p of None \<Rightarrow> 0 | Some v \<Rightarrow> v)) 0 points"

subsection \<open>Hour deltas\<close>

record hour_delta =
  hdl_current :: rat
  hdl_previous :: rat
  hdl_delta :: "rat option"

definition hour_step :: "(heatmap_cell \<Rightarrow> rat) \<Rightarrow> rat \<times> rat \<Rightarrow> heatmap_cell \<Rightarrow> rat \<times> rat" where
  "hour_step value acc c = (case acc of (cur, prev) \<Rightarrow>
     if cell_offset c < 0 then (cur, prev)
     else if cell_offset c < HOUR then (cur + value c, prev)
     else if cell_offset c < 2 * HOUR then (cur, prev + value c)
     else (cur, prev))"

definition hourDelta :: "heatmap_cell list \<Rightarrow> (heatmap_cell \<Rightarrow> rat) \<Rightarrow> hour_delta" where
  "hourDelta cells value =
     (case foldl (hour_step value) (0, 0) cells of (cur, prev) \<Rightarrow>
        \<lparr>hdl_current = cur, hdl_previous = prev,
         hdl_delta = (if prev = 0 then None else Some ((cur - prev) / prev))\<rparr>)"

subsection \<open>Bars\<close>

definition SERIES_MINUTES :: nat where
  "SERIES_MINUTES = 30"

definition BAR_MINUTES :: nat where
  "BAR_MINUTES = 2"

text \<open>
  The loop \<open>for (let end = n; end > 0; end -= step)\<close> that unshifts one result per round: the
  half-open ranges it visits, in the order the results end up (oldest first).
\<close>

fun cuts :: "nat \<Rightarrow> nat \<Rightarrow> (nat \<times> nat) list" where
  "cuts step n = (if n = 0 then [] else cuts step (n - max 1 step) @ [(n - max 1 step, n)])"

declare cuts.simps [simp del]

definition sumBars :: "rat list \<Rightarrow> rat list" where
  "sumBars values =
     (let n = max (length values) SERIES_MINUTES;
          missing = n - length values
      in map (\<lambda>(start, stop).
               sum_list (map (\<lambda>i. if i < missing then 0 else values ! (i - missing)) [start..<stop]))
           (cuts BAR_MINUTES n))"

definition rate_at :: "rat list \<Rightarrow> nat \<Rightarrow> rat" where
  "rate_at errRate i = (if i < length errRate then errRate ! i else 0)"

definition map_index :: "('a \<Rightarrow> nat \<Rightarrow> 'b) \<Rightarrow> 'a list \<Rightarrow> 'b list" where
  "map_index f xs = map (\<lambda>(x, i). f x i) (zip xs [0..<length xs])"

definition failuresPerMinute :: "rat list \<Rightarrow> rat list \<Rightarrow> rat list" where
  "failuresPerMinute rpm errRate =
     map_index (\<lambda>reqs i. min reqs (of_int (js_round (reqs * rate_at errRate i)))) rpm"

definition rateBars :: "rat list \<Rightarrow> rat list \<Rightarrow> rat list" where
  "rateBars rpm errRate =
     (let requests = sumBars rpm;
          failures = sumBars (map_index (\<lambda>reqs i. reqs * rate_at errRate i) rpm)
      in map_index (\<lambda>bar i. if bar > 0 then failures ! i / bar else 0) requests)"

record outcome_bars =
  ob_requests :: "rat list"
  ob_succeeded :: "rat list"
  ob_failed :: "rat list"

definition outcomeBars :: "rat list \<Rightarrow> rat list \<Rightarrow> outcome_bars" where
  "outcomeBars rpm errRate =
     (let failed = failuresPerMinute rpm errRate
      in \<lparr>ob_requests = sumBars rpm,
          ob_succeeded = sumBars (map_index (\<lambda>reqs i. max 0 (reqs - failed ! i)) rpm),
          ob_failed = sumBars failed\<rparr>)"

subsection \<open>Model slices\<close>

datatype slice_metric = MetricCredits | MetricReqs

record model_slice =
  sl_label :: string
  sl_value :: rat
  sl_maxValue :: rat

definition metric_of :: "slice_metric \<Rightarrow> model_mix_entry \<Rightarrow> rat" where
  "metric_of metric m = (case metric of MetricCredits \<Rightarrow> mix_credits m | MetricReqs \<Rightarrow> of_int (mix_reqs m))"

definition modelSlices ::
  "model_mix_entry list \<Rightarrow> nat \<Rightarrow> string \<Rightarrow> model_slice list \<times> rat \<times> slice_metric" where
  "modelSlices models limit otherLabel =
     (let totalCredits = sum_list (map mix_credits models);
          metric = (if totalCredits > 0 then MetricCredits else MetricReqs);
          metricOf = metric_of metric;
          sorted = sort_cmp (\<lambda>a b. cmp_num (metricOf b) (metricOf a)) models;
          total = (case metric of MetricCredits \<Rightarrow> totalCredits
                   | MetricReqs \<Rightarrow> of_int (sum_list (map mix_reqs models)));
          slices = map (\<lambda>m. \<lparr>sl_label = mix_model m, sl_value = metricOf m, sl_maxValue = total\<rparr>)
                     (take limit sorted);
          rest = sum_list (map metricOf (drop limit sorted))
      in (if length sorted > limit
          then slices @ [\<lparr>sl_label = otherLabel, sl_value = rest, sl_maxValue = total\<rparr>] else slices,
          total, metric))"

subsection \<open>The account heatmap\<close>

definition busyAccounts :: "account_heatmap list \<Rightarrow> int \<Rightarrow> int \<Rightarrow> account_heatmap list" where
  "busyAccounts accounts windowMin limit =
     take (nat (max 0 limit))
       (filter (\<lambda>a. list_ex (\<lambda>c. cell_offset c < windowMin \<and>
                 (cell_reqs c > 0 \<or> (case cell_retries c of None \<Rightarrow> 0 | Some r \<Rightarrow> r) > 0)) (hm_cells a))
          accounts)"

text \<open>\<open>new Map(cells.map((cell) => [cell.offset, cell]))\<close>: the last cell of an offset wins.\<close>

definition cell_at :: "heatmap_cell list \<Rightarrow> int \<Rightarrow> heatmap_cell option" where
  "cell_at cells offset = find_by cell_offset (rev cells) offset"

definition retries_of :: "heatmap_cell \<Rightarrow> int" where
  "retries_of c = (case cell_retries c of None \<Rightarrow> 0 | Some r \<Rightarrow> r)"

definition windowCells :: "heatmap_cell list \<Rightarrow> int \<Rightarrow> heatmap_cell list" where
  "windowCells cells windowMin =
     map (\<lambda>i. let offset = windowMin - 1 - int i; cell = cell_at cells offset
              in \<lparr>cell_offset = offset,
                  cell_reqs = (case cell of None \<Rightarrow> 0 | Some c \<Rightarrow> cell_reqs c),
                  cell_failures = (case cell of None \<Rightarrow> 0 | Some c \<Rightarrow> cell_failures c),
                  cell_retries = Some (case cell of None \<Rightarrow> 0 | Some c \<Rightarrow> retries_of c),
                  cell_credits = None\<rparr>)
       [0..<nat windowMin]"

definition merge_group :: "heatmap_cell list \<Rightarrow> heatmap_cell" where
  "merge_group cells =
     \<lparr>cell_offset = Min (cell_offset ` set cells),
      cell_reqs = sum_list (map cell_reqs cells),
      cell_failures = sum_list (map cell_failures cells),
      cell_retries = Some (sum_list (map retries_of cells)),
      cell_credits = None\<rparr>"

definition mergeCells :: "heatmap_cell list \<Rightarrow> int \<Rightarrow> heatmap_cell list" where
  "mergeCells cells width =
     map (\<lambda>(start, stop). merge_group (take (stop - start) (drop start cells))) (cuts (nat (max 1 width)) (length cells))"

subsection \<open>Lemmas\<close>

text \<open>Buckets: what the accumulation loop adds to the point of one bucket.\<close>

definition in_bucket :: "int \<Rightarrow> int \<Rightarrow> nat \<Rightarrow> heatmap_cell \<Rightarrow> bool" where
  "in_bucket width buckets i c \<longleftrightarrow> 0 \<le> cell_offset c \<and> cell_offset c div width = buckets - 1 - int i"

definition succeeded_of :: "heatmap_cell \<Rightarrow> int" where
  "succeeded_of c = max 0 (cell_reqs c - cell_failures c)"

lemma length_add_cell [simp]: "length (add_cell width n ps c) = length ps"
  by (simp add: add_cell_def Let_def)

lemma length_foldl_add_cell [simp]: "length (foldl (add_cell width n) ps cells) = length ps"
  by (induction cells arbitrary: ps) auto

lemma add_cell_nth:
  assumes "0 < width" "i < length ps" "int (length ps) = n"
  shows "add_cell width n ps c ! i =
    (if in_bucket width n i c then (ps ! i)\<lparr>tp_failed := tp_failed (ps ! i) + cell_failures c,
       tp_succeeded := tp_succeeded (ps ! i) + succeeded_of c\<rparr> else ps ! i)"
proof -
  have pos: "0 \<le> cell_offset c div width" if "0 \<le> cell_offset c"
    using that assms(1) by (simp add: pos_imp_zdiv_nonneg_iff)
  show ?thesis
    using assms pos by (auto simp: add_cell_def in_bucket_def succeeded_of_def Let_def nth_list_update nat_eq_iff)
qed

lemma foldl_add_cell_nth:
  assumes "0 < width" "i < length ps" "int (length ps) = n"
  shows "foldl (add_cell width n) ps cells ! i =
    (ps ! i)\<lparr>tp_failed := tp_failed (ps ! i) + sum_list (map cell_failures (filter (in_bucket width n i) cells)),
      tp_succeeded := tp_succeeded (ps ! i) + sum_list (map succeeded_of (filter (in_bucket width n i) cells))\<rparr>"
  using assms
proof (induction cells arbitrary: ps)
  case (Cons c cells)
  from Cons.IH [of "add_cell width n ps c"] Cons.prems add_cell_nth [OF Cons.prems, of c]
  show ?case by simp
qed simp

lemma bucket_count_nonneg [simp]: "0 < width \<Longrightarrow> 0 \<le> bucket_count w width"
  by (simp add: bucket_count_def js_ceil_div_nonneg)

lemma length_bucketGlobal: "length (bucketGlobal cells now b w) =
    nat (bucket_count (case w of None \<Rightarrow> int (length cells) | Some m \<Rightarrow> m) (max 1 b))"
  by (simp add: bucketGlobal_def Let_def)

lemma bucketGlobal_nth:
  assumes "i < length (bucketGlobal cells now b (Some w))"
  shows "bucketGlobal cells now b (Some w) ! i =
    \<lparr>tp_date = (now - ((bucket_count w (max 1 b) - int i) * max 1 b - 1) * 60) * 1000,
     tp_succeeded = sum_list (map succeeded_of (filter (in_bucket (max 1 b) (bucket_count w (max 1 b)) i) cells)),
     tp_failed = sum_list (map cell_failures (filter (in_bucket (max 1 b) (bucket_count w (max 1 b)) i) cells)),
     tp_previous = None\<rparr>"
proof -
  let ?n = "bucket_count w (max 1 b)"
  let ?ps = "map (\<lambda>i. empty_point now (max 1 b) ?n (int i)) [0..<nat ?n]"
  have i: "i < nat ?n" using assms by (simp add: length_bucketGlobal)
  have "foldl (add_cell (max 1 b) ?n) ?ps cells ! i = (?ps ! i)\<lparr>tp_failed := tp_failed (?ps ! i) +
      sum_list (map cell_failures (filter (in_bucket (max 1 b) ?n i) cells)), tp_succeeded := tp_succeeded (?ps ! i) +
      sum_list (map succeeded_of (filter (in_bucket (max 1 b) ?n i) cells))\<rparr>"
    by (rule foldl_add_cell_nth) (use i in simp_all)
  then show ?thesis using i by (simp add: bucketGlobal_def Let_def empty_point_def)
qed

text \<open>Cells: each one is in exactly one bucket of the window, or outside it.\<close>

lemma sum_buckets:
  assumes "0 < width" "0 \<le> n"
  shows "(\<Sum>i<nat n. sum_list (map f (filter (in_bucket width n i) cells))) =
    sum_list (map f (filter (\<lambda>c. 0 \<le> cell_offset c \<and> cell_offset c < n * width) cells) :: int list)"
proof (induction cells)
  case (Cons c cells)
  let ?in = "0 \<le> cell_offset c \<and> cell_offset c < n * width"
  have "(\<Sum>i<nat n. if in_bucket width n i c then f c else 0) = (if ?in then f c else 0)"
  proof (cases ?in)
    case True
    let ?k = "nat (n - 1 - cell_offset c div width)"
    have "cell_offset c div width < n"
      using True assms(1) by (simp add: int_div_less_iff)
    moreover have "0 \<le> cell_offset c div width"
      using True assms(1) by (simp add: pos_imp_zdiv_nonneg_iff)
    ultimately have "in_bucket width n i c \<longleftrightarrow> i = ?k" "?k < nat n" for i
      using True by (auto simp: in_bucket_def)
    with True show ?thesis by simp
  next
    case False
    have "\<not> in_bucket width n i c" if "i < nat n" for i
    proof
      assume b: "in_bucket width n i c"
      then have "cell_offset c div width < n" "0 \<le> cell_offset c" by (auto simp: in_bucket_def)
      then show False using False assms(1) by (simp add: int_div_less_iff)
    qed
    then have "(\<Sum>i<nat n. if in_bucket width n i c then f c else 0) = (\<Sum>i<nat n. 0)"
      by (intro sum.cong) auto
    with False show ?thesis by auto
  qed
  moreover have "(\<Sum>i<nat n. sum_list (map f (filter (in_bucket width n i) (c # cells)))) =
      (\<Sum>i<nat n. if in_bucket width n i c then f c else 0) +
      (\<Sum>i<nat n. sum_list (map f (filter (in_bucket width n i) cells)))"
    unfolding sum.distrib [symmetric] by (intro sum.cong) auto
  ultimately show ?case using Cons by auto
qed simp

text \<open>The ranges of the loop from the newest end tile the list.\<close>

lemma cuts_concat: "concat (map (\<lambda>(a, b). [a..<b]) (cuts step n)) = [0..<n]"
proof (induction n rule: cuts.induct [of _ step])
  case (1 step n)
  show ?case
  proof (cases "n = 0")
    case False
    have "[0..<n - max 1 step] @ [n - max 1 step..<n] = [0..<n]"
      by (metis diff_le_self le_add_diff_inverse upt_add_eq_append zero_le)
    with 1 False show ?thesis by (subst cuts.simps) simp
  qed (simp add: cuts.simps)
qed

lemma cuts_range: "(a, b) \<in> set (cuts step n) \<Longrightarrow> a < b \<and> b \<le> n \<and> b - a \<le> max 1 step"
proof (induction n rule: cuts.induct [of _ step])
  case (1 step n)
  then have "n \<noteq> 0" by (cases "n = 0") (simp_all add: cuts.simps [of step 0])
  with 1(2) have "(a, b) \<in> set (cuts step (n - max 1 step)) \<or> (a, b) = (n - max 1 step, n)"
    by (subst (asm) cuts.simps) auto
  with 1(1) \<open>n \<noteq> 0\<close> show ?case by fastforce
qed

lemma length_cuts: "0 < step \<Longrightarrow> length (cuts step n) = (n + step - 1) div step"
proof (induction n rule: cuts.induct [of _ step])
  case (1 step n)
  show ?case
  proof (cases "n = 0")
    case True
    then show ?thesis using 1 by (simp add: cuts.simps)
  next
    case False
    have "length (cuts step n) = Suc ((n - step + step - 1) div step)"
      using 1 False by (subst cuts.simps) simp
    also have "\<dots> = (n + step - 1) div step"
    proof (cases "n < step")
      case True
      with False have "(n + step - 1) div step = 1" by (intro div_nat_eqI) auto
      with True show ?thesis using 1(2) by simp
    next
      case le: False
      then have "n + step - 1 = (n - step + step - 1) + step" using 1(2) by simp
      then show ?thesis using 1(2) by (metis Suc_eq_plus1 div_add_self2 less_numeral_extra(3))
    qed
    finally show ?thesis .
  qed
qed

lemma sum_list_concat_map:
  "sum_list (map f (concat xss)) = sum_list (map (\<lambda>xs. sum_list (map f xs)) xss)"
  by (induction xss) auto

lemma sum_cuts:
  "sum_list (map (\<lambda>(a, b). sum_list (map f [a..<b])) (cuts step n)) =
    (sum_list (map f [0..<n]) :: 'a::comm_monoid_add)"
proof -
  have "sum_list (map f [0..<n]) = sum_list (map f (concat (map (\<lambda>(a, b). [a..<b]) (cuts step n))))"
    by (simp add: cuts_concat)
  then show ?thesis by (simp add: sum_list_concat_map comp_def case_prod_unfold)
qed

text \<open>A bar is the sum of its minutes of the padded series.\<close>

definition padded :: "rat list \<Rightarrow> rat list" where
  "padded values = replicate (max (length values) SERIES_MINUTES - length values) 0 @ values"

lemma sumBars_padded:
  "sumBars values = map (\<lambda>(a, b). sum_list (map (\<lambda>i. padded values ! i) [a..<b]))
    (cuts BAR_MINUTES (max (length values) SERIES_MINUTES))"
proof -
  have "(if i < m then 0 else values ! (i - m)) = (replicate m 0 @ values) ! i" for i m
    by (simp add: nth_append)
  then show ?thesis by (simp add: sumBars_def padded_def Let_def)
qed

lemma length_sumBars: "length (sumBars values) = (max (length values) 30 + 1) div 2"
  by (simp add: sumBars_def Let_def length_cuts BAR_MINUTES_def SERIES_MINUTES_def)

lemma sum_sumBars: "sum_list (sumBars values) = sum_list values"
proof -
  have "sum_list (sumBars values) =
      sum_list (map ((!) (padded values)) [0..<max (length values) SERIES_MINUTES])"
    unfolding sumBars_padded sum_cuts ..
  also have "max (length values) SERIES_MINUTES = length (padded values)" by (simp add: padded_def)
  also have "map ((!) (padded values)) [0..<length (padded values)] = padded values" by (rule map_nth)
  finally show ?thesis by (simp add: padded_def sum_list_replicate)
qed

lemma padded_split:
  assumes "length xs = length zs" "length ys = length zs"
    and "\<And>i. i < length zs \<Longrightarrow> zs ! i = xs ! i + ys ! i"
  shows "padded zs = map2 (+) (padded xs) (padded ys)"
  using assms by (intro nth_equalityI) (auto simp: padded_def nth_append)

lemma sumBars_split:
  assumes "length xs = length zs" "length ys = length zs"
    and "\<And>i. i < length zs \<Longrightarrow> zs ! i = xs ! i + ys ! i"
  shows "sumBars zs = map2 (+) (sumBars xs) (sumBars ys)"
proof -
  let ?n = "max (length zs) SERIES_MINUTES"
  have n: "length (padded xs) = ?n" "length (padded ys) = ?n"
    using assms(1,2) by (simp_all add: padded_def)
  have one: "sum_list (map ((!) (padded zs)) [a..<b]) =
      sum_list (map ((!) (padded xs)) [a..<b]) + sum_list (map ((!) (padded ys)) [a..<b])"
    if "(a, b) \<in> set (cuts BAR_MINUTES ?n)" for a b
  proof -
    have "b \<le> ?n" using cuts_range [OF that] by simp
    then have "map ((!) (padded zs)) [a..<b] = map (\<lambda>i. padded xs ! i + padded ys ! i) [a..<b]"
      using n by (simp add: padded_split [OF assms])
    then show ?thesis by (simp only: sum_list_addf)
  qed
  have "sumBars zs = map (\<lambda>(a, b). sum_list (map ((!) (padded xs)) [a..<b]) +
      sum_list (map ((!) (padded ys)) [a..<b])) (cuts BAR_MINUTES ?n)"
    unfolding sumBars_padded using one by (intro map_cong) auto
  then show ?thesis
    using assms(1,2) by (simp add: sumBars_padded map2_map_map zip_map_map case_prod_unfold comp_def zip_same_conv_map)
qed

text \<open>Dense rows and windows read the last cell of each offset.\<close>

lemma cell_at_snoc: "cell_at (cells @ [c]) k = (if cell_offset c = k then Some c else cell_at cells k)"
  by (simp add: cell_at_def)

lemma length_place_cell [simp]: "length (place_cell n ds c) = length ds"
  by (simp add: place_cell_def)

lemma length_densify [simp]: "length (densify cells n) = nat n"
proof -
  have "length (foldl (place_cell n) ds cells) = length ds" for ds
    by (induction cells arbitrary: ds) simp_all
  then show ?thesis by (simp add: densify_def)
qed

lemma densify_nth:
  assumes "i < nat n"
  shows "densify cells n ! i = (case cell_at cells (int i) of None \<Rightarrow> empty_cell (int i) | Some c \<Rightarrow> c)"
  using assms
proof (induction cells rule: rev_induct)
  case Nil
  then show ?case by (simp add: densify_def cell_at_def)
next
  case (snoc c cells)
  have "densify (cells @ [c]) n = place_cell n (densify cells n) c" by (simp add: densify_def)
  with snoc show ?case
    by (auto simp: place_cell_def cell_at_snoc nth_list_update nat_eq_iff)
qed

lemma cell_at_offset: "cell_at cells k = Some c \<Longrightarrow> cell_offset c = k"
  by (auto simp: cell_at_def dest: find_by_Some)

lemma densify_offset: "i < nat n \<Longrightarrow> cell_offset (densify cells n ! i) = int i"
  by (auto simp: densify_nth empty_cell_def dest: cell_at_offset split: option.splits)

lemma cell_at_densify:
  assumes "0 \<le> k" "k < n"
  shows "cell_at (densify cells n) k = Some (densify cells n ! nat k)"
proof -
  let ?d = "densify cells n"
  have keys: "map cell_offset ?d = map int [0..<nat n]"
    by (rule nth_equalityI) (simp_all add: densify_offset)
  have "distinct (map cell_offset (rev ?d))"
    unfolding rev_map [symmetric] keys by (simp add: distinct_map)
  moreover have "?d ! nat k \<in> set (rev ?d)" using assms by simp
  moreover have "cell_offset (?d ! nat k) = k" using assms densify_offset [of "nat k" n cells] by simp
  ultimately show ?thesis unfolding cell_at_def by (metis find_by_unique)
qed

lemma Min_sum_groups: "sum_list (map (f :: 'a \<Rightarrow> int) (take n xs)) =
    sum_list (map (\<lambda>(a, b). sum_list (map f (take (b - a) (drop a xs)))) (cuts step n))"
  if "n \<le> length xs"
proof -
  have seg: "take (b - a) (drop a xs) = map ((!) xs) [a..<b]" if "b \<le> n" "a < b" for a b
    using that \<open>n \<le> length xs\<close> by (intro nth_equalityI) auto
  have "sum_list (map (\<lambda>(a, b). sum_list (map f (take (b - a) (drop a xs)))) (cuts step n)) =
      sum_list (map (\<lambda>(a, b). sum_list (map (\<lambda>i. f (xs ! i)) [a..<b])) (cuts step n))"
    using cuts_range [of _ _ step n] by (intro arg_cong [of _ _ sum_list] map_cong) (auto simp: seg comp_def)
  also have "\<dots> = sum_list (map (\<lambda>i. f (xs ! i)) [0..<n])" by (rule sum_cuts)
  also have "map (\<lambda>i. f (xs ! i)) [0..<n] = map f (take n xs)"
    using that by (intro nth_equalityI) auto
  finally show ?thesis by simp
qed

lemma sorted_slices:
  "sorted_wrt (\<lambda>a b. metric_of m b \<le> metric_of m a)
    (sort_cmp (\<lambda>a b. cmp_num (metric_of m b) (metric_of m a)) models)"
proof -
  have c: "comparator (\<lambda>a b. cmp_num (metric_of m b) (metric_of m a)) (\<lambda>_. True)"
    by unfold_locales auto
  have "sorted_wrt (\<lambda>a b. cmp_num (metric_of m b) (metric_of m a) \<le> 0)
      (sort_cmp (\<lambda>a b. cmp_num (metric_of m b) (metric_of m a)) models)"
    by (rule comparator.sorted_sort_cmp [OF c]) (simp add: list_all_iff)
  then show ?thesis by simp
qed

subsection \<open>Properties\<close>

text \<open>C36: Traffic buckets are exact and lose nothing: there are \<open>ceil(windowMin / size)\<close> of them,
  each dated at the start of its oldest minute and holding precisely the failed and the succeeded
  requests of the cells in its minutes, and together they count every cell of the window once.\<close>

theorem buckets_exact:
  fixes cells :: "heatmap_cell list" and now b w :: int
  defines "points \<equiv> bucketGlobal cells now b (Some w)"
    and "width \<equiv> max 1 b" and "n \<equiv> bucket_count w (max 1 b)"
  shows "length points = nat n \<and> 0 \<le> n \<and> max 0 w \<le> width * n \<and> width * n < max 0 w + width \<and>
    list_all (\<lambda>i. points ! i =
      \<lparr>tp_date = (now - ((n - int i) * width - 1) * 60) * 1000,
       tp_succeeded = sum_list (map succeeded_of (filter (in_bucket width n i) cells)),
       tp_failed = sum_list (map cell_failures (filter (in_bucket width n i) cells)),
       tp_previous = None\<rparr>) [0..<length points] \<and>
    sum_list (map tp_failed points) = sum_list (map cell_failures
      (filter (\<lambda>c. 0 \<le> cell_offset c \<and> cell_offset c < n * width) cells)) \<and>
    sum_list (map tp_succeeded points) = sum_list (map succeeded_of
      (filter (\<lambda>c. 0 \<le> cell_offset c \<and> cell_offset c < n * width) cells))"
proof -
  have len: "length points = nat n" by (simp add: points_def n_def length_bucketGlobal)
  have nth: "points ! i = \<lparr>tp_date = (now - ((n - int i) * width - 1) * 60) * 1000,
       tp_succeeded = sum_list (map succeeded_of (filter (in_bucket width n i) cells)),
       tp_failed = sum_list (map cell_failures (filter (in_bucket width n i) cells)),
       tp_previous = None\<rparr>" if "i < length points" for i
    using bucketGlobal_nth [of i cells now b w] that by (simp add: points_def n_def width_def)
  have n: "0 \<le> n" "0 < width" by (simp_all add: n_def width_def)
  have sums: "sum_list (map g points) = (\<Sum>i<nat n. g (points ! i))" for g :: "traffic_point \<Rightarrow> int"
    by (simp add: sum_list_sum_nth len atLeast0LessThan)
  note ceil = js_ceil_div_bounds [of width "max 0 w"]
  show ?thesis
    using nth len n ceil sum_buckets [OF n(2,1)]
    by (simp add: sums list_all_iff bucket_count_def [symmetric] n_def width_def)
qed

text \<open>The dashed comparison is the same bucket one window earlier: each point keeps its own
  counts and its \<open>previous\<close> is the succeeded requests of exactly the cells \<open>windowMin\<close> minutes
  before those of the point.\<close>

theorem previous_window_exact:
  fixes cells :: "heatmap_cell list" and now b w :: int
  shows "withPreviousWindow cells now b w =
    map (\<lambda>i. (bucketGlobal cells now b (Some w) ! i)\<lparr>tp_previous :=
        Some (sum_list (map succeeded_of (filter
          (\<lambda>c. w \<le> cell_offset c \<and> cell_offset c < 2 * w \<and>
            (cell_offset c - w) div max 1 b = bucket_count w (max 1 b) - 1 - int i) cells)))\<rparr>)
      [0..<length (bucketGlobal cells now b (Some w))]"
proof -
  have shift: "map succeeded_of (filter P (earlier_cells cells w)) = map succeeded_of
      (filter (\<lambda>c. w \<le> cell_offset c \<and> cell_offset c < 2 * w \<and>
        P (c\<lparr>cell_offset := cell_offset c - w\<rparr>)) cells)" for P
    by (induction cells) (auto simp: earlier_cells_def succeeded_of_def)
  have len: "length (bucketGlobal (earlier_cells cells w) now b (Some w)) = length (bucketGlobal cells now b (Some w))"
    by (simp add: length_bucketGlobal)
  show ?thesis
    by (rule nth_equalityI)
      (auto simp: withPreviousWindow_def Let_def len bucketGlobal_nth shift in_bucket_def
        intro!: arg_cong [of _ _ sum_list] arg_cong [of _ _ "map succeeded_of"] filter_cong)
qed

text \<open>Sparse rows lose nothing: a window read from the rows as the client makes them dense is the
  window read from the sparse rows on the wire, and a dense row has one cell per bucket, offset 0
  first.\<close>

theorem dense_rows_equal_sparse:
  shows "windowCells (densify cells w) w = windowCells cells w \<and>
    map cell_offset (densify cells w) = map int [0..<nat w]"
proof
  show "map cell_offset (densify cells w) = map int [0..<nat w]"
    by (rule nth_equalityI) (simp_all add: densify_offset)
  have "(case cell_at (densify cells w) k of None \<Rightarrow> 0 | Some c \<Rightarrow> g c) =
      (case cell_at cells k of None \<Rightarrow> 0 | Some c \<Rightarrow> g c)"
    if "0 \<le> k" "k < w" "g (empty_cell k) = 0" for k and g :: "heatmap_cell \<Rightarrow> int"
    using that by (simp add: cell_at_densify densify_nth split: option.split)
  then show "windowCells (densify cells w) w = windowCells cells w"
    by (auto simp: windowCells_def Let_def empty_cell_def retries_of_def)
qed

text \<open>Merging cells keeps every count: requests, failures and retries of the merged row sum to
  those of the row, there are \<open>ceil(length / size)\<close> merged cells, and none of them merges more than
  \<open>size\<close>.\<close>

theorem merge_cells_conserve:
  shows "sum_list (map cell_reqs (mergeCells cells width)) = sum_list (map cell_reqs cells) \<and>
    sum_list (map cell_failures (mergeCells cells width)) = sum_list (map cell_failures cells) \<and>
    sum_list (map retries_of (mergeCells cells width)) = sum_list (map retries_of cells) \<and>
    length (mergeCells cells width) = (length cells + nat (max 1 width) - 1) div nat (max 1 width)"
proof -
  let ?s = "nat (max 1 width)"
  note sums = Min_sum_groups [OF order_refl, of _ cells ?s]
  show ?thesis
    using sums [of cell_reqs] sums [of cell_failures] sums [of retries_of]
    by (simp add: mergeCells_def length_cuts merge_group_def retries_of_def comp_def case_prod_unfold)
qed

text \<open>The strip's bars agree with each other: for any live series there are as many succeeded
  and failed bars as request bars (15 for a series of up to half an hour), every bar splits into
  its succeeded and failed requests exactly, and the bars sum to the series.\<close>

theorem outcome_bars_split:
  shows "ob_requests (outcomeBars rpm errRate) =
      map2 (+) (ob_succeeded (outcomeBars rpm errRate)) (ob_failed (outcomeBars rpm errRate)) \<and>
    length (ob_failed (outcomeBars rpm errRate)) = length (ob_requests (outcomeBars rpm errRate)) \<and>
    length (ob_requests (outcomeBars rpm errRate)) = (max (length rpm) 30 + 1) div 2 \<and>
    sum_list (ob_requests (outcomeBars rpm errRate)) = sum_list rpm"
proof -
  let ?f = "failuresPerMinute rpm errRate"
  let ?s = "map_index (\<lambda>reqs i. max 0 (reqs - ?f ! i)) rpm"
  have len: "length ?f = length rpm" "length ?s = length rpm"
    by (simp_all add: failuresPerMinute_def map_index_def)
  have "rpm ! i = ?s ! i + ?f ! i" if "i < length rpm" for i
  proof -
    have "?f ! i \<le> rpm ! i" using that by (simp add: failuresPerMinute_def map_index_def)
    with that show ?thesis by (simp add: map_index_def)
  qed
  note split = sumBars_split [OF len(2,1) this]
  show ?thesis
    unfolding outcomeBars_def Let_def outcome_bars.select_convs
    by (intro conjI, rule split) (simp_all add: length_sumBars sum_sumBars len)
qed

text \<open>The model ring adds up: whichever metric is in use, the slices (with Other for the rest)
  sum to the total, there are at most \<open>limit\<close> models in it, and no model left to Other has more than
  one that is shown.\<close>

theorem model_slices_total:
  fixes models :: "model_mix_entry list" and limit :: nat and other :: string
  defines "result \<equiv> modelSlices models limit other"
  shows "(case result of (slices, tot, metric) \<Rightarrow>
      sum_list (map sl_value slices) = tot \<and>
      tot = sum_list (map (metric_of metric) models) \<and>
      length slices = min (length models) (Suc limit) \<and>
      (\<exists>shown rest. mset models = mset (shown @ rest) \<and>
        take limit (map sl_label slices) = map mix_model shown \<and>
        list_all (\<lambda>r. list_all (\<lambda>s. metric_of metric r \<le> metric_of metric s) shown) rest))"
proof -
  obtain slices tot metric where r: "result = (slices, tot, metric)" by (cases result) auto
  let ?sorted = "sort_cmp (\<lambda>a b. cmp_num (metric_of metric b) (metric_of metric a)) models"
  have m: "metric = (if sum_list (map mix_credits models) > 0 then MetricCredits else MetricReqs)"
    using r by (auto simp: result_def modelSlices_def Let_def)
  have reqs: "of_int (sum_list (map mix_reqs models)) = sum_list (map (metric_of MetricReqs) models)"
    by (induction models) (simp_all add: metric_of_def)
  have creds: "metric_of MetricCredits = mix_credits" by (rule ext) (simp add: metric_of_def)
  have t: "tot = sum_list (map (metric_of metric) models)"
    using r m by (auto simp: result_def modelSlices_def Let_def reqs creds)
  have s: "slices = map (\<lambda>m. \<lparr>sl_label = mix_model m, sl_value = metric_of metric m, sl_maxValue = tot\<rparr>)
        (take limit ?sorted) @ (if length models > limit then
          [\<lparr>sl_label = other, sl_value = sum_list (map (metric_of metric) (drop limit ?sorted)),
            sl_maxValue = tot\<rparr>] else [])"
    using r m by (auto simp: result_def modelSlices_def Let_def)
  have "sum_list (map (metric_of metric) ?sorted) = sum_list (map (metric_of metric) (take limit ?sorted)) +
      sum_list (map (metric_of metric) (drop limit ?sorted))"
    by (metis append_take_drop_id map_append sum_list_append)
  then have sum: "sum_list (map sl_value slices) = tot"
    using t by (auto simp: s comp_def)
  have "sorted_wrt (\<lambda>a b. metric_of metric b \<le> metric_of metric a)
      (take limit ?sorted @ drop limit ?sorted)"
    using sorted_slices [of metric models] by simp
  then have ord: "list_all (\<lambda>r. list_all (\<lambda>s. metric_of metric r \<le> metric_of metric s) (take limit ?sorted))
      (drop limit ?sorted)"
    unfolding sorted_wrt_append list_all_iff by blast
  have lab: "take limit (map sl_label slices) = map mix_model (take limit ?sorted)"
    by (simp add: s comp_def)
  have perm: "mset models = mset (take limit ?sorted @ drop limit ?sorted)" by simp
  have len: "length slices = min (length models) (Suc limit)" by (auto simp: s)
  show ?thesis
    unfolding r prod.case using sum t len perm lab ord by blast
qed

end
