(* ===== verification/Js_Doubles.thy ===== *)
theory Js_Doubles
  imports Js_Strings
begin

text \<open>
  The arithmetic of JavaScript's numbers where its rounding shows: a result is the exact value rounded to
  53 bits, to the nearest and to even between two. Only the range of normal numbers is covered: neither
  infinities nor numbers below \<open>2^-1022\<close> come up where these functions are used. An integer is printed with the
  fewest digits that are read back as the same number, \<open>Number::toString\<close>.
\<close>

subsection \<open>Rounding\<close>

definition round_even :: "rat \<Rightarrow> int" where
  "round_even x =
     (let f = \<lfloor>x\<rfloor>; r = x - of_int f
      in if r < 1 / 2 then f else if r > 1 / 2 then f + 1 else if even f then f else f + 1)"

text \<open>The number of digits of a whole number, to base 2 and to base 10.\<close>

function bit_count :: "int \<Rightarrow> nat" where
  "bit_count n = (if n \<le> 0 then 0 else Suc (bit_count (n div 2)))"
  by pat_completeness auto
termination by (relation "measure nat") auto

function digit_count :: "int \<Rightarrow> nat" where
  "digit_count n = (if n < 10 then 1 else Suc (digit_count (n div 10)))"
  by pat_completeness auto
termination by (relation "measure nat") auto

declare bit_count.simps [simp del] digit_count.simps [simp del]

text \<open>The exponent of a positive number: the greatest \<open>e\<close> with \<open>2^e \<le> x\<close>.\<close>

definition exponent_of :: "rat \<Rightarrow> int" where
  "exponent_of x =
     (if 1 \<le> x then int (bit_count \<lfloor>x\<rfloor>) - 1 else - int (bit_count (\<lceil>1 / x\<rceil> - 1)))"

definition ulp_of :: "rat \<Rightarrow> rat" where
  "ulp_of x = 2 powi (exponent_of x - 52)"

definition fl :: "rat \<Rightarrow> rat" where
  "fl x =
     (if x = 0 then 0
      else if x < 0 then - (of_int (round_even (- x / ulp_of (- x))) * ulp_of (- x))
      else of_int (round_even (x / ulp_of x)) * ulp_of x)"

subsection \<open>Nearest integers\<close>

lemma round_even_bound: "\<bar>of_int (round_even x) - x\<bar> \<le> 1 / 2"
proof -
  have "0 \<le> x - of_int \<lfloor>x\<rfloor>" "x - of_int \<lfloor>x\<rfloor> < 1" by linarith+
  then show ?thesis by (simp add: round_even_def Let_def abs_le_iff) linarith?
qed

lemma round_even_int [simp]: "round_even (of_int k) = k"
  by (simp add: round_even_def)

lemma round_even_near:
  assumes "\<bar>x - of_int k\<bar> < 1 / 2"
  shows "round_even x = k"
proof -
  have "\<bar>of_int (round_even x - k) :: rat\<bar> < 1"
    using round_even_bound [of x] assms unfolding of_int_diff by linarith
  then show ?thesis by linarith
qed

lemma round_even_ge:
  assumes "of_int k - 1 / 2 < x"
  shows "k \<le> round_even x"
proof -
  have "(of_int k :: rat) < of_int (round_even x + 1)"
    using round_even_bound [of x] assms unfolding abs_le_iff of_int_add of_int_1 by linarith
  then show ?thesis by (simp only: of_int_less_iff)
qed

lemma round_even_mono: "x \<le> y \<Longrightarrow> round_even x \<le> round_even y"
proof (rule ccontr)
  assume xy: "x \<le> y" and "\<not> round_even x \<le> round_even y"
  then have less: "of_int (round_even y) + 1 \<le> (of_int (round_even x) :: rat)" by linarith
  then have eq: "x = y" "x = of_int (round_even x) - 1 / 2" "y = of_int (round_even y) + 1 / 2"
    using round_even_bound [of x] round_even_bound [of y] xy by (simp_all add: abs_le_iff)
  then show False using less by simp
qed

lemma round_even_half:
  assumes "even k"
  shows "round_even (of_int k - 1 / 2) = k" "round_even (of_int k + 1 / 2) = k"
proof -
  have "\<lfloor>of_int k - 1 / 2 :: rat\<rfloor> = k - 1" "\<lfloor>of_int k + 1 / 2 :: rat\<rfloor> = k" by linarith+
  then show "round_even (of_int k - 1 / 2) = k" "round_even (of_int k + 1 / 2) = k"
    using assms by (simp_all add: round_even_def)
qed

lemma round_even_half_even: "round_even (of_int k - 1 / 2) = k \<Longrightarrow> even k"
proof -
  assume r: "round_even (of_int k - 1 / 2) = k"
  have "\<lfloor>of_int k - 1 / 2 :: rat\<rfloor> = k - 1" by linarith
  then show ?thesis using r by (simp add: round_even_def Let_def split: if_splits)
qed

subsection \<open>Exponents\<close>

lemma bit_count_bounds:
  "0 < n \<Longrightarrow> 0 < bit_count n \<and> 2 ^ (bit_count n - 1) \<le> n \<and> n < 2 ^ bit_count n"
proof (induction n rule: bit_count.induct)
  case (1 n)
  show ?case
  proof (cases "n = 1")
    case True
    then show ?thesis by (simp add: bit_count.simps)
  next
    case False
    then have ih: "0 < bit_count (n div 2)" "2 ^ (bit_count (n div 2) - 1) \<le> n div 2" "n div 2 < 2 ^ bit_count (n div 2)"
      using 1 by auto
    obtain b where b: "bit_count (n div 2) = Suc b" using ih(1) gr0_implies_Suc by blast
    have "2 * 2 ^ b \<le> n" "n < 2 * (2 * 2 ^ b)" using ih(2,3) unfolding b by simp_all
    then show ?thesis using 1(2) by (subst (1 2 3) bit_count.simps) (simp add: b)
  qed
qed

lemma exponent_bounds:
  assumes "1 \<le> x"
  obtains e :: nat where "exponent_of x = int e" "2 ^ e \<le> x" "x < 2 ^ Suc e"
proof -
  have n: "0 < \<lfloor>x\<rfloor>" using assms by simp
  obtain e where e: "bit_count \<lfloor>x\<rfloor> = Suc e" "2 ^ e \<le> \<lfloor>x\<rfloor>" "\<lfloor>x\<rfloor> < 2 ^ Suc e"
    using bit_count_bounds [OF n] by (cases "bit_count \<lfloor>x\<rfloor>") auto
  have "of_int (2 ^ e) \<le> x" using e(2) by (simp only: le_floor_iff)
  moreover have "x < of_int (2 ^ Suc e)" using e(3) by (simp only: floor_less_iff)
  ultimately show ?thesis using assms e(1) by (intro that [of e]) (simp_all add: exponent_of_def)
qed

lemma exponent_unique:
  assumes "2 ^ e \<le> x" "x < (2 :: rat) ^ Suc e"
  shows "exponent_of x = int e"
proof -
  have one: "1 \<le> x" using assms(1) by (meson dual_order.trans one_le_numeral one_le_power)
  obtain e' where e': "exponent_of x = int e'" "2 ^ e' \<le> x" "x < 2 ^ Suc e'" by (rule exponent_bounds [OF one])
  have "(2 :: rat) ^ e < 2 ^ Suc e'" "(2 :: rat) ^ e' < 2 ^ Suc e" using assms e' by linarith+
  then have "e < Suc e'" "e' < Suc e" by (simp_all only: power_strict_increasing_iff)
  then show ?thesis using e'(1) by simp
qed

lemma ulp_pos [simp]: "0 < ulp_of x"
  by (simp add: ulp_of_def zero_less_power_int)

lemma ulp_nonzero [simp]: "ulp_of x \<noteq> 0"
  using ulp_pos [of x] by (metis less_irrefl)

text \<open>Within a binade.\<close>

lemma ulp_binade:
  assumes "exponent_of x = int e"
  shows "2 ^ e / ulp_of x = of_int (2 ^ 52)" "2 ^ Suc e / ulp_of x = of_int (2 ^ 53)"
proof -
  have "ulp_of x * 2 ^ 52 = 2 ^ e"
    by (simp add: ulp_of_def assms power_int_diff)
  then show "2 ^ e / ulp_of x = of_int (2 ^ 52)" by (simp add: field_simps)
  then show "2 ^ Suc e / ulp_of x = of_int (2 ^ 53)" by simp
qed

lemma ulp_whole:
  assumes "exponent_of x = int e" "e \<le> 52"
  shows "1 / ulp_of x = of_int (2 ^ (52 - e))"
proof -
  have "ulp_of x * (2 ^ 52 / 2 ^ e) = 1" by (simp add: ulp_of_def assms(1) power_int_diff)
  moreover have "(2 :: rat) ^ 52 / 2 ^ e = 2 ^ (52 - e)" using assms(2) by (simp add: power_diff)
  ultimately show ?thesis by (simp add: field_simps)
qed

lemma fl_pos: "0 < x \<Longrightarrow> fl x = of_int (round_even (x / ulp_of x)) * ulp_of x"
  by (simp add: fl_def)

text \<open>What is on the grid of a number's binade separates its neighbours.\<close>

lemma fl_below:
  assumes "0 < x" "x \<le> k" "k / ulp_of x = of_int i"
  shows "fl x \<le> k"
proof -
  have "x / ulp_of x \<le> of_int i" using assms(2,3) by (metis divide_right_mono less_imp_le ulp_pos)
  then have "round_even (x / ulp_of x) \<le> i" using round_even_mono by (metis round_even_int)
  then have "of_int (round_even (x / ulp_of x)) * ulp_of x \<le> of_int i * ulp_of x" by (simp add: mult_right_mono)
  also have "of_int i * ulp_of x = k" using assms(3) ulp_pos [of x] by (simp add: field_simps)
  finally show ?thesis using assms(1) by (simp add: fl_pos)
qed

lemma fl_above:
  assumes "0 < x" "k \<le> x" "k / ulp_of x = of_int i"
  shows "k \<le> fl x"
proof -
  have "of_int i \<le> x / ulp_of x" using assms(2,3) by (metis divide_right_mono less_imp_le ulp_pos)
  then have "i \<le> round_even (x / ulp_of x)" using round_even_mono by (metis round_even_int)
  then have "of_int i * ulp_of x \<le> of_int (round_even (x / ulp_of x)) * ulp_of x" by (simp add: mult_right_mono)
  moreover have "of_int i * ulp_of x = k" using assms(3) ulp_pos [of x] by (simp add: field_simps)
  ultimately show ?thesis using assms(1) by (simp add: fl_pos)
qed

lemma fl_mono:
  assumes "1 \<le> x" "x \<le> y"
  shows "fl x \<le> fl y"
proof -
  obtain e where e: "exponent_of x = int e" "2 ^ e \<le> x" "x < 2 ^ Suc e" by (rule exponent_bounds [OF assms(1)])
  obtain e' where e': "exponent_of y = int e'" "2 ^ e' \<le> y" "y < 2 ^ Suc e'"
    by (rule exponent_bounds [of y]) (use assms in auto)
  have pos: "0 < x" "0 < y" using assms by auto
  have "(2 :: rat) ^ e < 2 ^ Suc e'" using e(2) e'(3) assms(2) by linarith
  then have "e \<le> e'" by (simp only: power_strict_increasing_iff)
  then consider "e = e'" | "Suc e \<le> e'" by linarith
  then show ?thesis
  proof cases
    case 1
    then have u: "ulp_of y = ulp_of x" using e(1) e'(1) by (simp add: ulp_of_def)
    have "x / ulp_of x \<le> y / ulp_of x" using assms(2) by (simp add: divide_right_mono less_imp_le)
    from round_even_mono [OF this] show ?thesis using pos u
      by (simp add: fl_pos mult_right_mono)
  next
    case 2
    have "fl x \<le> 2 ^ Suc e" using e pos ulp_binade(2) [OF e(1)] by (intro fl_below) auto
    also have "(2 :: rat) ^ Suc e \<le> 2 ^ e'" using 2 by (simp only: power_increasing_iff)
    also have "2 ^ e' \<le> fl y" using e' pos ulp_binade(1) [OF e'(1)] by (intro fl_above) auto
    finally show ?thesis .
  qed
qed

text \<open>Whole numbers below \<open>2^53\<close> and half ones below \<open>2^52\<close> are numbers.\<close>

lemma fl_whole:
  assumes "1 \<le> i" "i < 2 ^ 53"
  shows "fl (of_int i) = of_int i"
proof -
  let ?x = "of_int i :: rat"
  have one: "1 \<le> ?x" using assms(1) by simp
  obtain e where e: "exponent_of ?x = int e" "2 ^ e \<le> ?x" "?x < 2 ^ Suc e" by (rule exponent_bounds [OF one])
  have "of_int (2 ^ e) \<le> ?x" using e(2) by simp
  then have "(2 :: int) ^ e < 2 ^ 53" using assms(2) by (simp only: of_int_le_iff)
  then have "e \<le> 52" by (simp only: power_strict_increasing_iff)
  from ulp_whole [OF e(1) this] have grid: "?x / ulp_of ?x = of_int (i * 2 ^ (52 - e))" by (simp add: field_simps)
  show ?thesis using fl_below [OF _ order_refl grid] fl_above [OF _ order_refl grid] one by (intro antisym) auto
qed

lemma fl_half:
  assumes "2 \<le> i" "i < 2 ^ 53"
  shows "fl (of_int i / 2) = of_int i / 2"
proof -
  let ?x = "of_int i / 2 :: rat"
  have one: "1 \<le> ?x" using assms(1) by simp
  obtain e where e: "exponent_of ?x = int e" "2 ^ e \<le> ?x" "?x < 2 ^ Suc e" by (rule exponent_bounds [OF one])
  have "of_int (2 ^ Suc e) \<le> (of_int i :: rat)" using e(2) by simp
  then have "(2 :: int) ^ Suc e < 2 ^ 53" using assms(2) by (simp only: of_int_le_iff)
  then have "Suc e \<le> 52" by (simp only: power_strict_increasing_iff)
  then have split: "52 - e = Suc (52 - Suc e)" "e \<le> 52" by simp_all
  from ulp_whole [OF e(1) split(2)] have grid: "?x / ulp_of ?x = of_int (i * 2 ^ (52 - Suc e))" unfolding split(1) by (simp add: field_simps)
  show ?thesis using fl_below [OF _ order_refl grid] fl_above [OF _ order_refl grid] one by (intro antisym) auto
qed

lemma fl_error:
  assumes "1 \<le> x"
  shows "\<bar>fl x - x\<bar> \<le> x / 2 ^ 53"
proof -
  obtain e where e: "exponent_of x = int e" "2 ^ e \<le> x" "x < 2 ^ Suc e" by (rule exponent_bounds [OF assms])
  have u: "ulp_of x = 2 ^ e / 2 ^ 52" by (simp add: ulp_of_def e(1) power_int_diff)
  have "fl x - x = (of_int (round_even (x / ulp_of x)) - x / ulp_of x) * ulp_of x"
    using assms ulp_pos [of x] by (simp add: fl_pos field_simps)
  then have "\<bar>fl x - x\<bar> = \<bar>of_int (round_even (x / ulp_of x)) - x / ulp_of x\<bar> * ulp_of x"
    using ulp_pos [of x] by (simp only: abs_mult abs_of_pos)
  also have "\<dots> \<le> 1 / 2 * ulp_of x" using round_even_bound [of "x / ulp_of x"] by (intro mult_right_mono) (simp_all add: less_imp_le)
  also have "\<dots> \<le> x / 2 ^ 53" using e(2) by (simp add: u field_simps)
  finally show ?thesis .
qed

text \<open>Rounding keeps a distance of one between the whole parts.\<close>

lemma quotient_ge:
  assumes "0 < c" "a * c \<le> b"
  shows "of_int a \<le> (of_int b / of_int c :: rat)"
proof -
  have "(of_int (a * c) :: rat) \<le> of_int b" using assms(2) by (simp only: of_int_le_iff)
  then show ?thesis using assms(1) by (simp add: pos_le_divide_eq)
qed

lemma fl_next:
  assumes "1 \<le> x" "x < of_int n" "of_int n \<le> fl x" "n < 2 ^ 52"
  shows "of_int n + 1 \<le> fl (x + 1)"
proof -
  obtain e where e: "exponent_of x = int e" "2 ^ e \<le> x" "x < 2 ^ Suc e" by (rule exponent_bounds [OF assms(1)])
  have "(2 :: rat) ^ e < of_int (2 ^ 52)" using e(2) assms(2,4) by (metis less_le_trans linorder_not_less of_int_le_iff order.strict_trans1 order_less_imp_le)
  then have "(2 :: rat) ^ e < 2 ^ 52" by simp
  then have "e < 52" by (simp only: power_strict_increasing_iff)
  then have e52: "e \<le> 52" "52 - e = Suc (51 - e)" by simp_all
  define c where "c = (2 :: int) ^ (52 - e)"
  have c: "1 / ulp_of x = of_int c" "even c" "0 < c" using ulp_whole [OF e(1) e52(1)] e52(2) by (simp_all add: c_def)
  have u: "ulp_of x = 1 / of_int c" using c(1) by (metis divide_divide_eq_right mult.right_neutral nonzero_mult_div_cancel_left one_neq_zero mult_1 div_by_1)
  have flx: "fl x = of_int (round_even (x * of_int c)) / of_int c" using assms(1) by (simp add: fl_pos u)
  then have "n * c \<le> round_even (x * of_int c)"
    using assms(3) c(3) by (simp add: pos_le_divide_eq flip: of_int_mult)
  moreover have "x * of_int c < of_int (n * c)" using assms(2) c(3) by (simp add: mult_strict_right_mono)
  ultimately have exact: "round_even (x * of_int c) = n * c"
    using round_even_mono [of "x * of_int c" "of_int (n * c)"] round_even_int [of "n * c"] by linarith
  have "of_int (n * c) - 1 / 2 \<le> x * of_int c"
    using round_even_bound [of "x * of_int c"] unfolding exact abs_le_iff by linarith
  note near = this exact
  let ?z = "x + 1"
  have z1: "1 \<le> ?z" using assms(1) by simp
  obtain f where f: "exponent_of ?z = int f" "2 ^ f \<le> ?z" "?z < 2 ^ Suc f" by (rule exponent_bounds [OF z1])
  have zc: "?z * of_int c = x * of_int c + of_int c" by (simp add: algebra_simps)
  have "(2 :: rat) ^ e < 2 ^ Suc f" using e(2) f(3) by linarith
  then have "e \<le> f" by (simp only: power_strict_increasing_iff)
  moreover have "x + 1 < 2 ^ Suc (Suc e)" using e(3) one_le_power [of "2 :: rat" "Suc e"] by simp
  then have "(2 :: rat) ^ f < 2 ^ Suc (Suc e)" using f(2) by linarith
  then have "f \<le> Suc e" by (simp only: power_strict_increasing_iff)
  ultimately consider "f = e" | "f = Suc e" by linarith
  then show ?thesis
  proof cases
    case 1
    then have "fl ?z = of_int (round_even (?z * of_int c)) / of_int c"
      using z1 u by (simp add: fl_pos ulp_of_def f(1) e(1))
    moreover have "(n + 1) * c \<le> round_even (?z * of_int c)"
    proof (cases "of_int (n * c) - 1 / 2 = x * of_int c")
      case True
      then have "even (n * c)" using near(2) round_even_half_even by metis
      then have "even ((n + 1) * c)" using c(2) by simp
      moreover have "?z * of_int c = of_int ((n + 1) * c) - 1 / 2" unfolding zc True [symmetric] by (simp add: algebra_simps)
      ultimately show ?thesis using round_even_half(1) [of "(n + 1) * c"] by (simp only: order_refl)
    next
      case False
      then have "of_int ((n + 1) * c) - 1 / 2 < ?z * of_int c" using near(1) unfolding zc by (simp add: algebra_simps)
      then show ?thesis by (rule round_even_ge)
    qed
    ultimately show ?thesis using quotient_ge [OF c(3), of "n + 1"] by (simp only: of_int_add of_int_1)
  next
    case 2
    define h where "h = c div 2"
    have h: "c = 2 * h" "0 < h" using c(2,3) by (auto simp: h_def elim!: evenE)
    have "ulp_of ?z = 2 * ulp_of x" using 2 f(1) e(1) by (simp add: ulp_of_def power_int_add power_int_diff)
    then have "ulp_of ?z = 1 / of_int h" using h by (simp add: u)
    then have "fl ?z = of_int (round_even (?z * of_int h)) / of_int h" using z1 by (simp add: fl_pos)
    moreover have "of_int ((n + 1) * h) - 1 / 4 \<le> ?z * of_int h"
      using near(1) unfolding h(1) by (simp add: algebra_simps)
    then have "(n + 1) * h \<le> round_even (?z * of_int h)" by (intro round_even_ge) linarith
    ultimately show ?thesis using quotient_ge [OF h(2), of "n + 1"] by (simp only: of_int_add of_int_1)
  qed
qed

lemma floor_fl_step:
  assumes "1 \<le> x" "x + 1 \<le> y" "x + 1 < 2 ^ 52"
  shows "\<lfloor>fl x\<rfloor> < \<lfloor>fl y\<rfloor>"
proof -
  define n where "n = \<lfloor>fl x\<rfloor>"
  have n: "of_int n \<le> fl x" "fl x < of_int n + 1" unfolding n_def by linarith+
  have big: "n < 2 ^ 52"
  proof -
    have "fl x \<le> x + x / 2 ^ 53" using fl_error [OF assms(1)] by linarith
    also have "\<dots> < 2 ^ 52" using assms(3) by simp
    finally have "of_int n < (of_int (2 ^ 52) :: rat)" using n(1) by simp
    then show ?thesis by (simp only: of_int_less_iff)
  qed
  have one: "1 \<le> n"
  proof -
    have "fl (of_int 1) \<le> fl x" using assms(1) by (intro fl_mono) auto
    then have "1 \<le> fl x" using fl_whole [of 1] by simp
    then show ?thesis by (simp add: n_def)
  qed
  have "of_int n + 1 \<le> fl (x + 1)"
  proof (cases "of_int n \<le> x")
    case True
    have "fl (of_int (n + 1)) \<le> fl (x + 1)" using True one by (intro fl_mono) auto
    then show ?thesis using fl_whole [of "n + 1"] one big by simp
  next
    case False
    then show ?thesis using fl_next [OF assms(1) _ n(1) big] by simp
  qed
  also have "fl (x + 1) \<le> fl y" using assms by (intro fl_mono) auto
  finally have "n + 1 \<le> \<lfloor>fl y\<rfloor>" by (simp add: le_floor_iff)
  then show ?thesis by (simp add: n_def)
qed

subsection \<open>Printing whole numbers\<close>

text \<open>The number nearest to an integer; what \<open>Number\<close> makes of its decimal text.\<close>

definition js_integer :: "int \<Rightarrow> int" where
  "js_integer n = \<lfloor>fl (of_int n)\<rfloor>"

lemma js_integer_safe: "1 \<le> n \<Longrightarrow> n < 2 ^ 53 \<Longrightarrow> js_integer n = n"
  using fl_whole [of n] by (simp add: js_integer_def)

text \<open>The decimal numbers with \<open>k\<close> leading digits next to \<open>n\<close>, the nearer one first.\<close>

definition digit_neighbours :: "int \<Rightarrow> nat \<Rightarrow> int list" where
  "digit_neighbours n k =
     (let p = 10 ^ (digit_count n - k); lo = n div p * p
      in if 2 * (n - lo) \<le> p then [lo, lo + p] else [lo + p, lo])"

fun first_value :: "int \<Rightarrow> nat list \<Rightarrow> int" where
  "first_value n [] = n"
| "first_value n (k # ks) = (case List.find (\<lambda>d. js_integer d = n) (digit_neighbours n k) of
     Some d \<Rightarrow> d | None \<Rightarrow> first_value n ks)"

definition shortest_value :: "int \<Rightarrow> int" where
  "shortest_value n = first_value n [1..<Suc (digit_count n)]"

definition exponent_text :: "string \<Rightarrow> string" where
  "exponent_text ds =
     (let m = rev (dropWhile (\<lambda>c. c = CHR ''0'') (rev (tl ds)))
      in hd ds # (if m = [] then [] else ''.'' @ m) @ ''e+'' @ string_of_nat (length ds - 1))"

definition int_text :: "int \<Rightarrow> string" where
  "int_text n =
     (if n < 0 then ''-'' else []) @
     (let ds = string_of_nat (nat (shortest_value \<bar>n\<bar>)) in if length ds \<le> 21 then ds else exponent_text ds)"

lemma shortest_value_number:
  assumes "js_integer n = n"
  shows "js_integer (shortest_value n) = n"
proof -
  have "js_integer (first_value n ks) = n" for ks
    using assms by (induction ks) (auto simp: find_Some_iff split: option.split)
  then show ?thesis by (simp add: shortest_value_def)
qed

lemma length_string_of_nat: "length (string_of_nat n) \<le> k \<longleftrightarrow> k \<noteq> 0 \<and> n < 10 ^ k"
proof (induction n arbitrary: k rule: string_of_nat.induct)
  case (1 n)
  show ?case
  proof (cases "n < 10")
    case True
    then show ?thesis by (cases k) (auto simp: string_of_nat.simps [of n] intro: order.strict_trans2 [of n 10])
  next
    case False
    show ?thesis
    proof (cases k)
      case (Suc j)
      then show ?thesis using False 1 [OF False, of j]
        by (auto simp: string_of_nat.simps [of n] div_less_iff_less_mult)
    qed (use False in \<open>simp add: string_of_nat.simps [of n]\<close>)
  qed
qed

text \<open>Below \<open>10^21\<close> a number is printed in digits, from there on with an exponent.\<close>

lemma js_integer_mono: "1 \<le> a \<Longrightarrow> a \<le> b \<Longrightarrow> js_integer a \<le> js_integer b"
  using fl_mono [of "of_int a" "of_int b"] by (simp add: js_integer_def floor_mono)

lemma js_integer_limit: "js_integer (10 ^ 21) = 10 ^ 21"
  by code_simp

lemma js_integer_nonpos: "n \<le> 0 \<Longrightarrow> js_integer n \<le> 0"
proof -
  assume n: "n \<le> 0"
  have "0 \<le> of_int (round_even (- of_int n / ulp_of (- of_int n))) * ulp_of (- of_int n)" if "n < 0"
  proof -
    have "0 \<le> - of_int n / ulp_of (- of_int n)" using that by (intro divide_nonneg_nonneg) (auto simp: less_imp_le)
    then have "0 \<le> round_even (- of_int n / ulp_of (- of_int n))" by (intro round_even_ge) linarith
    then show ?thesis by (simp add: less_imp_le)
  qed
  then show ?thesis using n by (cases "n = 0") (auto simp: js_integer_def fl_def floor_le_iff)
qed

lemma shortest_value_pos: "0 < n \<Longrightarrow> js_integer n = n \<Longrightarrow> 0 < shortest_value n"
  using shortest_value_number [of n] js_integer_nonpos [of "shortest_value n"] by linarith

lemma shortest_value_limit: "shortest_value (10 ^ 21) = 10 ^ 21"
  by code_simp

lemma shortest_value_below:
  assumes "0 < n" "js_integer n = n"
  shows "shortest_value n < 10 ^ 21 \<longleftrightarrow> n < 10 ^ 21"
proof
  let ?d = "shortest_value n"
  have d: "js_integer ?d = n" "1 \<le> ?d" using shortest_value_number [OF assms(2)] shortest_value_pos [OF assms] by auto
  show "n < 10 ^ 21" if "?d < 10 ^ 21"
  proof (rule ccontr)
    assume "\<not> n < 10 ^ 21"
    moreover have "n \<le> 10 ^ 21"
      using js_integer_mono [OF d(2), of "10 ^ 21"] d that unfolding js_integer_limit by linarith
    ultimately have "n = 10 ^ 21" by linarith
    then show False using that shortest_value_limit by simp
  qed
  show "?d < 10 ^ 21" if "n < 10 ^ 21"
  proof (rule ccontr)
    assume "\<not> ?d < 10 ^ 21"
    then have "10 ^ 21 \<le> ?d" by linarith
    from js_integer_mono [OF _ this] show False using d that unfolding js_integer_limit by simp
  qed
qed

lemma printed_length:
  assumes "0 < n" "js_integer n = n"
  shows "length (string_of_nat (nat (shortest_value n))) \<le> 21 \<longleftrightarrow> n < 10 ^ 21"
proof -
  have "nat (shortest_value n) < 10 ^ 21 \<longleftrightarrow> shortest_value n < 10 ^ 21"
    using shortest_value_pos [OF assms] by (simp add: nat_less_iff)
  then show ?thesis using shortest_value_below [OF assms] length_string_of_nat [of "nat (shortest_value n)" 21] by simp
qed

lemma int_text_digits:
  assumes "0 < n" "js_integer n = n" "n < 10 ^ 21"
  shows "int_text n = string_of_nat (nat (shortest_value n))"
  using assms(1) printed_length [OF assms(1,2)] assms(3) by (simp add: int_text_def Let_def)

lemma int_text_exponent:
  assumes "js_integer n = n" "10 ^ 21 \<le> n"
  shows "CHR ''e'' \<in> set (int_text n)" "is_digit (hd (int_text n))" "c \<in> set (int_text n) \<Longrightarrow> \<not> is_space c"
proof -
  let ?ds = "string_of_nat (nat (shortest_value n))"
  have "0 < n" using assms(2) by simp
  then have shown: "int_text n = exponent_text ?ds"
    using printed_length [OF _ assms(1)] assms(2) by (simp add: int_text_def Let_def)
  then show "CHR ''e'' \<in> set (int_text n)" by (simp add: exponent_text_def Let_def)
  have "?ds \<noteq> []" by simp
  then have "is_digit (hd ?ds)" using string_of_nat_digits [of "hd ?ds"] by (metis hd_in_set)
  moreover have "hd (int_text n) = hd ?ds" by (simp add: shown exponent_text_def Let_def)
  ultimately show "is_digit (hd (int_text n))" by simp
  have mark: "\<not> is_space (CHR ''.'')" "\<not> is_space (CHR ''e'')" "\<not> is_space (CHR ''+'')" by code_simp+
  have digit: "\<not> is_space d" if "d \<in> set (string_of_nat k)" for d k
    using string_of_nat_digits [OF that] by (auto simp: is_digit_def is_space_def)
  have "set (rev (dropWhile (\<lambda>c. c = CHR ''0'') (rev (tl ?ds)))) \<subseteq> set ?ds"
    using set_dropWhileD list.set_sel(2) [OF \<open>?ds \<noteq> []\<close>] by fastforce
  moreover have "hd ?ds \<in> set ?ds" by simp
  ultimately have "set (exponent_text ?ds) \<subseteq> set ?ds \<union> {CHR ''.'', CHR ''e'', CHR ''+''} \<union> set (string_of_nat (length ?ds - 1))"
    unfolding exponent_text_def Let_def by (simp split: if_split) blast
  then show "c \<in> set (int_text n) \<Longrightarrow> \<not> is_space c" unfolding shown using mark digit by blast
qed

lemma int_text_nonempty [simp]: "int_text n \<noteq> []"
  by (simp add: int_text_def exponent_text_def Let_def)

lemma shortest_samples:
  "shortest_value (2 ^ 60) = 1152921504606847000" "shortest_value (10 ^ 23 - 8388608) = 10 ^ 23" "shortest_value 25 = 25"
  by code_simp+

end
