(* ===== verification/Request_Model.thy ===== *)
theory Request_Model
  imports Search_Params Mock_Server Js_Doubles
begin

text \<open>
  The Requests page and its endpoint: URL state to API parameters, masking and tones
  (src/ui/src/features/requests/request-model.ts, the sender in src/ui/src/lib/api/requests.ts)
  and the server's query normalisation, search, sort and paging
  (src/ui/src/features/requests/mocks.ts, which repeats proxy/observe.go). A query string is the
  list of its decoded pairs.
\<close>

subsection \<open>The page\<close>

definition DEFAULT_PAGE :: int where "DEFAULT_PAGE = 1"
definition DEFAULT_PAGE_SIZE :: int where "DEFAULT_PAGE_SIZE = 25"
definition DEFAULT_SORT :: request_sort where "DEFAULT_SORT = ByTime"
definition DEFAULT_ORDER :: sort_order where "DEFAULT_ORDER = Desc"

definition ERROR_TYPES :: "(string \<times> request_error_type) list" where
  "ERROR_TYPES =
     [(''client_closed'', Client_closed), (''api_key_limit'', Api_key_limit), (''overage'', Overage),
      (''quota'', Quota), (''suspended'', Suspended_err), (''profile'', Profile), (''auth'', Auth),
      (''stream'', Stream_err), (''no_accounts'', No_accounts), (''invalid_request'', Invalid_request),
      (''rate_limit'', Rate_limit), (''timeout'', Timeout), (''upstream'', Upstream),
      (''unknown'', Unknown)]"

definition ENDPOINTS :: "(string \<times> request_endpoint) list" where
  "ENDPOINTS = [(''claude'', Claude), (''openai'', Openai), (''responses'', Responses)]"

datatype error_tone = Muted | Warning | Destructive

definition MUTED_TYPES :: "string list" where
  "MUTED_TYPES = [''client_closed'', ''invalid_request'', ''api_key_limit'']"

definition WARNING_TYPES :: "string list" where
  "WARNING_TYPES = [''stream'', ''timeout'', ''rate_limit'', ''upstream'', ''unknown'']"

definition errorTypeTone :: "string option \<Rightarrow> error_tone" where
  "errorTypeTone type = (case type of
      None \<Rightarrow> Destructive
    | Some e \<Rightarrow> if e \<in> set MUTED_TYPES then Muted
        else if e \<in> set WARNING_TYPES then Warning else Destructive)"

definition isKnownErrorType :: "string option \<Rightarrow> bool" where
  "isKnownErrorType type = (case type of None \<Rightarrow> False | Some e \<Rightarrow> e \<in> fst ` set ERROR_TYPES)"

definition isKnownEndpoint :: "string option \<Rightarrow> bool" where
  "isKnownEndpoint ep = (case ep of None \<Rightarrow> False | Some e \<Rightarrow> e \<in> fst ` set ENDPOINTS)"

definition normalizeApiKeyMask :: "string option \<Rightarrow> string" where
  "normalizeApiKeyMask v = (case v of
      None \<Rightarrow> []
    | Some key \<Rightarrow>
        if key = [] then []
        else if includesStr key ''****'' \<or> length key \<le> 10 then key
        else slice 0 6 key @ ''****'' @ slice_last 4 key)"

text \<open>The server's own mask (fixtures.ts).\<close>

definition maskKey :: "string \<Rightarrow> string" where
  "maskKey key = (if length key > 10 then slice 0 6 key @ ''****'' @ slice_last 4 key else key)"

definition rowKey :: "request_record \<Rightarrow> nat \<Rightarrow> string" where
  "rowKey r index = (case rr_id r of
      None \<Rightarrow> string_of_int (rr_ts r) @ ''-'' @ string_of_nat index
    | Some i \<Rightarrow> string_of_int i)"

definition trimmed_text :: "string option \<Rightarrow> string option" where
  "trimmed_text s = (case s of None \<Rightarrow> None | Some x \<Rightarrow> if trim x \<noteq> [] then Some (trim x) else None)"

definition toQueryParams :: "requests_search \<Rightarrow> recent_requests_params" where
  "toQueryParams s =
     \<lparr>rp_page = Some (case qs_page s of None \<Rightarrow> DEFAULT_PAGE | Some p \<Rightarrow> p),
      rp_pageSize = Some (case qs_pageSize s of None \<Rightarrow> DEFAULT_PAGE_SIZE | Some n \<Rightarrow> n),
      rp_search = trimmed_text (qs_search s),
      rp_status = qs_status s,
      rp_sort = Some (case qs_sort s of None \<Rightarrow> DEFAULT_SORT | Some x \<Rightarrow> x),
      rp_order = Some (case qs_order s of None \<Rightarrow> DEFAULT_ORDER | Some x \<Rightarrow> x)\<rparr>"

definition cleanSearch :: "requests_search \<Rightarrow> requests_search" where
  "cleanSearch s =
     (let srt = (case qs_sort s of None \<Rightarrow> DEFAULT_SORT | Some x \<Rightarrow> x);
          ord = (case qs_order s of None \<Rightarrow> DEFAULT_ORDER | Some x \<Rightarrow> x);
          changed = (srt \<noteq> DEFAULT_SORT \<or> ord \<noteq> DEFAULT_ORDER)
      in \<lparr>qs_page = (if qs_page s = Some DEFAULT_PAGE then None else qs_page s),
          qs_pageSize = (if qs_pageSize s = Some DEFAULT_PAGE_SIZE then None else qs_pageSize s),
          qs_search = trimmed_text (qs_search s),
          qs_status = qs_status s,
          qs_sort = (if changed then Some srt else None),
          qs_order = (if changed then Some ord else None)\<rparr>)"

definition defaultSortDesc :: "string \<Rightarrow> bool" where
  "defaultSortDesc columnId \<longleftrightarrow> columnId = ''time''"

definition hasFilters :: "requests_search \<Rightarrow> bool" where
  "hasFilters s \<longleftrightarrow> trimmed_text (qs_search s) \<noteq> None \<or> qs_status s \<noteq> None"

subsection \<open>On the wire\<close>

definition sort_text :: "request_sort \<Rightarrow> string" where
  "sort_text s = (case s of ByTime \<Rightarrow> ''time'' | ByStatus \<Rightarrow> ''status'' | ByAccount \<Rightarrow> ''account''
    | ByApiKey \<Rightarrow> ''api_key'' | ByModel \<Rightarrow> ''model'' | ByTokens \<Rightarrow> ''tokens'' | ByCredits \<Rightarrow> ''credits''
    | ByDuration \<Rightarrow> ''duration'')"

definition order_text :: "sort_order \<Rightarrow> string" where
  "order_text o' = (case o' of Asc \<Rightarrow> ''asc'' | Desc \<Rightarrow> ''desc'')"

definition status_param :: "request_status \<Rightarrow> string" where
  "status_param s = (case s of Success \<Rightarrow> ''success'' | Failed \<Rightarrow> ''failed'')"

text \<open>The \<open>query\<close> of \<open>getRecentRequests\<close> as \<open>buildUrl\<close> appends it: undefined and empty values are skipped.\<close>

definition append_param :: "string \<Rightarrow> string option \<Rightarrow> (string \<times> string) list" where
  "append_param k v = (case v of None \<Rightarrow> [] | Some s \<Rightarrow> if s = [] then [] else [(k, s)])"

definition requestsQuery :: "recent_requests_params \<Rightarrow> (string \<times> string) list" where
  "requestsQuery p =
     append_param ''page'' (map_option int_text (rp_page p)) @
     append_param ''pageSize'' (map_option int_text (rp_pageSize p)) @
     append_param ''search'' (map_option trim (rp_search p)) @
     append_param ''status'' (map_option status_param (rp_status p)) @
     append_param ''sort'' (map_option sort_text (rp_sort p)) @
     append_param ''order'' (map_option order_text (rp_order p))"

subsection \<open>The server's query\<close>

definition MEMORY_RING_SIZE :: nat where
  "MEMORY_RING_SIZE = 200"

record normalized_query =
  nq_page :: int
  nq_pageSize :: int
  nq_search :: string
  nq_status :: "request_status option"
  nq_sort :: request_sort
  nq_order :: sort_order

text \<open>\<open>Number\<close> of the text: the number nearest to its digits (texts of a number too large for a double aside).\<close>

definition positiveInt :: "string option \<Rightarrow> int option" where
  "positiveInt v = (case v of
      None \<Rightarrow> None
    | Some s \<Rightarrow>
        (let (neg, ds) = signed (trim s);
             n = js_integer (if neg then - int (nat_of_digits ds) else int (nat_of_digits ds))
         in if ds = [] \<or> \<not> list_all is_digit ds then None else if n > 0 then Some n else None))"

definition query_text :: "(string \<times> string) list \<Rightarrow> string \<Rightarrow> string" where
  "query_text q k = (case map_of q k of None \<Rightarrow> [] | Some v \<Rightarrow> v)"

definition normalizeQuery :: "(string \<times> string) list \<Rightarrow> normalized_query" where
  "normalizeQuery q =
     (let status = toLowerCase (trim (query_text q ''status''));
          srt = toLowerCase (trim (query_text q ''sort''));
          ord = toLowerCase (trim (query_text q ''order''))
      in \<lparr>nq_page = (case positiveInt (map_of q ''page'') of Some p \<Rightarrow> p | None \<Rightarrow> 1),
          nq_pageSize = min 200 (case positiveInt (map_of q ''pageSize'') of
              Some n \<Rightarrow> n
            | None \<Rightarrow> (case positiveInt (map_of q ''limit'') of Some n \<Rightarrow> n | None \<Rightarrow> 25)),
          nq_search = trim (query_text q ''search''),
          nq_status = (if status = ''success'' then Some Success
                       else if status = ''failed'' then Some Failed else None),
          nq_sort = (case map_of REQUEST_SORTS srt of Some s \<Rightarrow> s | None \<Rightarrow> ByTime),
          nq_order = (if ord = ''asc'' then Asc else Desc)\<rparr>)"

subsection \<open>Search, sort, page\<close>

definition opt_text :: "string option \<Rightarrow> string" where
  "opt_text v = (case v of None \<Rightarrow> [] | Some s \<Rightarrow> s)"

text \<open>\<open>keyIndex\<close>: the raw keys by id, the last row of an id winning as in \<open>new Map\<close>.\<close>

definition rawKey :: "api_key list \<Rightarrow> request_record \<Rightarrow> string" where
  "rawKey keys r = (case rr_apiKeyId r of
      None \<Rightarrow> []
    | Some i \<Rightarrow> if i = [] then []
        else (case find_by key_id (rev keys) i of None \<Rightarrow> [] | Some k \<Rightarrow> opt_text (key_key k)))"

definition matches :: "api_key list \<Rightarrow> request_record \<Rightarrow> normalized_query \<Rightarrow> bool" where
  "matches keys r q \<longleftrightarrow>
     \<not> (nq_status q = Some Success \<and> \<not> rr_success r) \<and>
     \<not> (nq_status q = Some Failed \<and> rr_success r) \<and>
     (nq_search q = [] \<or>
      list_ex (\<lambda>field. includesStr (toLowerCase field) (toLowerCase (nq_search q)))
        [opt_text (rr_email r), rr_accountId r, opt_text (rr_apiKeyId r), rawKey keys r, rr_model r,
         opt_text (rr_message r), opt_text (rr_endpoint r), opt_text (rr_errorType r)])"

fun primaryCompare :: "api_key list \<Rightarrow> request_sort \<Rightarrow> request_record \<Rightarrow> request_record \<Rightarrow> int" where
  "primaryCompare keys ByStatus a b = cmp_num (of_bool (rr_success a) :: int) (of_bool (rr_success b))"
| "primaryCompare keys ByAccount a b =
     textCompare (toLowerCase (opt_text (rr_email a) @ rr_accountId a))
                 (toLowerCase (opt_text (rr_email b) @ rr_accountId b))"
| "primaryCompare keys ByApiKey a b =
     textCompare (toLowerCase (rawKey keys a @ opt_text (rr_apiKeyId a)))
                 (toLowerCase (rawKey keys b @ opt_text (rr_apiKeyId b)))"
| "primaryCompare keys ByModel a b = textCompare (rr_model a) (rr_model b)"
| "primaryCompare keys ByTokens a b = cmp_num (rr_totalTokens a) (rr_totalTokens b)"
| "primaryCompare keys ByCredits a b = cmp_num (rr_credits a) (rr_credits b)"
| "primaryCompare keys ByDuration a b =
     cmp_num (case rr_durationMs a of None \<Rightarrow> 0 | Some d \<Rightarrow> d) (case rr_durationMs b of None \<Rightarrow> 0 | Some d \<Rightarrow> d)"
| "primaryCompare keys ByTime a b = cmp_num (rr_ts a) (rr_ts b)"

definition record_compare ::
  "api_key list \<Rightarrow> normalized_query \<Rightarrow> (request_record \<Rightarrow> request_record \<Rightarrow> int) \<Rightarrow>
   request_record \<Rightarrow> request_record \<Rightarrow> int" where
  "record_compare keys q tieBreak a b =
     (let p = primaryCompare keys (nq_sort q) a b; c = (if p \<noteq> 0 then p else tieBreak a b)
      in if nq_order q = Asc then c else - c)"

definition sortRecords ::
  "api_key list \<Rightarrow> request_record list \<Rightarrow> normalized_query \<Rightarrow>
   (request_record \<Rightarrow> request_record \<Rightarrow> int) \<Rightarrow> request_record list" where
  "sortRecords keys rows q tieBreak = sort_cmp (record_compare keys q tieBreak) rows"

definition page_body :: "request_record list \<Rightarrow> normalized_query \<Rightarrow> bool \<Rightarrow> recent_requests_response" where
  "page_body rows q persistent =
     (let start = min ((nq_page q - 1) * nq_pageSize q) (int (length rows))
      in \<lparr>rs_requests = take (nat (nq_pageSize q)) (drop (nat start) rows),
          rs_total = int (length rows), rs_page = nq_page q, rs_pageSize = nq_pageSize q,
          rs_sort = nq_sort q, rs_order = nq_order q, rs_persistent = persistent\<rparr>)"

definition by_id :: "request_record \<Rightarrow> request_record \<Rightarrow> int" where
  "by_id a b = cmp_num (case rr_id a of None \<Rightarrow> 0 | Some i \<Rightarrow> i) (case rr_id b of None \<Rightarrow> 0 | Some i \<Rightarrow> i)"

definition by_time :: "request_record \<Rightarrow> request_record \<Rightarrow> int" where
  "by_time a b = cmp_num (rr_ts a) (rr_ts b)"

definition sorted_matches :: "mock_db \<Rightarrow> normalized_query \<Rightarrow> request_record list" where
  "sorted_matches db q =
     sortRecords (db_apiKeys db) (filter (\<lambda>r. matches (db_apiKeys db) r q) (db_requests db)) q by_id"

definition memory_matches :: "mock_db \<Rightarrow> normalized_query \<Rightarrow> request_record list" where
  "memory_matches db q =
     sortRecords (db_apiKeys db)
       (filter (\<lambda>r. matches (db_apiKeys db) r q)
          (map (\<lambda>r. r\<lparr>rr_id := None\<rparr>) (take MEMORY_RING_SIZE (db_requests db)))) q by_time"

definition get_recent_requests ::
  "string \<Rightarrow> (string \<times> string) list \<Rightarrow> mock_db \<Rightarrow> recent_requests_response reply \<times> mock_db \<times> event list" where
  "get_recent_requests token url_query = guarded token (\<lambda>db.
     (let q = normalizeQuery url_query in (Inr (page_body (sorted_matches db q) q True), db, [])))"

definition inMemoryRequestsHandler ::
  "string \<Rightarrow> (string \<times> string) list \<Rightarrow> mock_db \<Rightarrow> recent_requests_response reply \<times> mock_db \<times> event list" where
  "inMemoryRequestsHandler token url_query = guarded token (\<lambda>db.
     (let q = normalizeQuery url_query in (Inr (page_body (memory_matches db q) q False), db, [])))"

subsection \<open>Lemmas\<close>

lemma trimmed_text_idem [simp]: "trimmed_text (trimmed_text s) = trimmed_text s"
  by (auto simp: trimmed_text_def split: option.splits)

lemma trimmed_text_Some: "trimmed_text s = Some x \<Longrightarrow> x \<noteq> [] \<and> trim x = x"
  by (auto simp: trimmed_text_def split: option.splits if_splits)

lemma signed_digits: "list_all is_digit s \<Longrightarrow> signed s = (False, s)"
  by (cases s) (auto simp: signed_def is_digit_def code_def)

lemma positiveInt_digits: "positiveInt (Some (string_of_nat n)) = (if 0 < js_integer (int n) then Some (js_integer (int n)) else None)"
proof -
  let ?s = "string_of_nat n"
  have d: "list_all is_digit ?s" using string_of_nat_digits by (auto simp: list_all_iff)
  have "\<not> is_space c" if "c \<in> set ?s" for c
    using string_of_nat_digits [OF that] by (auto simp: is_digit_def is_space_def)
  then have "trim ?s = ?s" by (intro trim_fix) simp
  with d show ?thesis
    by (simp add: positiveInt_def signed_digits nat_of_string_of_nat)
qed

text \<open>A number of the page is read back by the server, unless it is printed with an exponent.\<close>

lemma positiveInt_text:
  assumes "0 < n" "js_integer n = n"
  shows "positiveInt (Some (int_text n)) = (if n < 10 ^ 21 then Some n else None)"
proof (cases "n < 10 ^ 21")
  case True
  then show ?thesis
    using int_text_digits [OF assms True] shortest_value_pos [OF assms] shortest_value_number [OF assms(2)] assms(1)
    by (simp add: positiveInt_digits)
next
  case False
  then have e: "CHR ''e'' \<in> set (int_text n)" "is_digit (hd (int_text n))" using int_text_exponent [OF assms(2)] by simp_all
  then obtain c r where t: "int_text n = c # r" "is_digit c" by (cases "int_text n") auto
  have "\<not> is_digit (CHR ''e'')" by code_simp
  have "trim (int_text n) = int_text n"
    using int_text_exponent(3) [OF assms(2)] False by (intro trim_fix) (auto dest: hd_in_set last_in_set)
  moreover have "signed (int_text n) = (False, int_text n)"
    using t by (auto simp: signed_def is_digit_def code_def)
  ultimately have "CHR ''e'' \<in> set (snd (signed (trim (int_text n))))" using e(1) by simp
  then have "\<not> list_all is_digit (snd (signed (trim (int_text n))))" using \<open>\<not> is_digit (CHR ''e'')\<close> by (auto simp: list_all_iff)
  then show ?thesis using False by (simp add: positiveInt_def split_beta Let_def)
qed

lemma positiveInt_pos: "positiveInt v = Some n \<Longrightarrow> 0 < n"
  by (auto simp: positiveInt_def Let_def split: option.splits prod.splits if_splits)

lemma normalizeQuery_sizes: "1 \<le> nq_page (normalizeQuery q) \<and> 1 \<le> nq_pageSize (normalizeQuery q) \<and>
    nq_pageSize (normalizeQuery q) \<le> 200"
proof -
  have "positiveInt v = Some n \<Longrightarrow> 1 \<le> n" for v n using positiveInt_pos [of v n] by simp
  then show ?thesis by (auto simp: normalizeQuery_def Let_def split: option.split)
qed

lemma primaryCompare_abs:
  "primaryCompare keys ByStatus =
    (\<lambda>a b. cmp_num (of_bool (rr_success a) :: int) (of_bool (rr_success b)))"
  "primaryCompare keys ByAccount =
    (\<lambda>a b. textCompare (toLowerCase (opt_text (rr_email a) @ rr_accountId a))
      (toLowerCase (opt_text (rr_email b) @ rr_accountId b)))"
  "primaryCompare keys ByApiKey =
    (\<lambda>a b. textCompare (toLowerCase (rawKey keys a @ opt_text (rr_apiKeyId a)))
      (toLowerCase (rawKey keys b @ opt_text (rr_apiKeyId b))))"
  "primaryCompare keys ByModel = (\<lambda>a b. textCompare (rr_model a) (rr_model b))"
  "primaryCompare keys ByTokens = (\<lambda>a b. cmp_num (rr_totalTokens a) (rr_totalTokens b))"
  "primaryCompare keys ByCredits = (\<lambda>a b. cmp_num (rr_credits a) (rr_credits b))"
  "primaryCompare keys ByDuration =
    (\<lambda>a b. cmp_num (case rr_durationMs a of None \<Rightarrow> 0 | Some d \<Rightarrow> d)
      (case rr_durationMs b of None \<Rightarrow> 0 | Some d \<Rightarrow> d))"
  "primaryCompare keys ByTime = (\<lambda>a b. cmp_num (rr_ts a) (rr_ts b))"
  by (simp_all add: fun_eq_iff)

lemma comparator_record:
  assumes "comparator tie (\<lambda>_. True)"
  shows "comparator (record_compare keys q tie) (\<lambda>_. True)"
proof -
  have "comparator (primaryCompare keys s) (\<lambda>_. True)" for s
    by (cases s) (simp_all add: primaryCompare_abs comparator_num comparator_map [OF text_order.comparator_axioms])
  from comparator_lex [OF this assms]
  have "comparator (\<lambda>a b. if primaryCompare keys (nq_sort q) a b \<noteq> 0
      then primaryCompare keys (nq_sort q) a b else tie a b) (\<lambda>_. True)" .
  then show ?thesis
    using comparator_reverse
    by (cases "nq_order q") (simp_all add: record_compare_def [abs_def] Let_def)
qed

lemma pages_concat:
  assumes "0 < n"
  shows "concat (map (\<lambda>p. take n (drop (p * n) xs)) [0..<k]) = take (k * n) xs"
proof (induction k)
  case (Suc k)
  have "take (k * n) xs @ take n (drop (k * n) xs) = take (k * n + n) xs" by (rule take_add [symmetric])
  with Suc show ?case by (simp add: add.commute)
qed simp

lemma map_of_append_param: "map_of (append_param k v @ rest) j =
    (if j = k \<and> v \<noteq> None \<and> v \<noteq> Some [] then v else map_of rest j)"
  by (auto simp: append_param_def split: option.split)

lemma string_of_int_nonempty [simp]: "string_of_int i \<noteq> []"
  by (simp add: string_of_int_def)

text \<open>The names on the wire are lower case, trimmed and in the server's tables.\<close>

lemma wire_names:
  "toLowerCase (trim (sort_text s)) = sort_text s" "map_of REQUEST_SORTS (sort_text s) = Some s"
  "toLowerCase (trim (order_text d)) = order_text d" "toLowerCase (trim (status_param u)) = status_param u"
  "sort_text s \<noteq> []" "order_text d \<noteq> []" "status_param u \<noteq> []"
     apply (cases s; simp add: sort_text_def; code_simp)
    apply (cases s; simp add: sort_text_def REQUEST_SORTS_def)
   apply (cases d; simp add: order_text_def; code_simp)
  apply (cases u; simp add: status_param_def; code_simp)
  by (simp_all add: sort_text_def order_text_def status_param_def split: request_sort.split sort_order.split request_status.split)

lemma map_of_requestsQuery:
  "map_of (requestsQuery p) ''page'' = map_option int_text (rp_page p)"
  "map_of (requestsQuery p) ''pageSize'' = map_option int_text (rp_pageSize p)"
  "map_of (requestsQuery p) ''status'' = map_option status_param (rp_status p)"
  "map_of (requestsQuery p) ''sort'' = map_option sort_text (rp_sort p)"
  "map_of (requestsQuery p) ''order'' = map_option order_text (rp_order p)"
  "query_text (requestsQuery p) ''search'' = (case rp_search p of None \<Rightarrow> [] | Some x \<Rightarrow> trim x)"
  unfolding requestsQuery_def query_text_def map_of_append_param
  by (auto simp: append_param_def wire_names split: option.split)

subsection \<open>Properties\<close>

text \<open>C32: The server reads a query as the page meant it: for every URL, the search the page validates from
  it arrives at the server with the same page size, status, sort and order, and with the trimmed search
  text, and none of them is replaced by a default. The page number arrives unchanged while it
  is below \<open>10^21\<close>; from there on it is sent with an exponent, the server does not read it and answers page 1.\<close>

theorem query_survives_wire:
  assumes "\<forall>i. pageNumber (own input ''page'') = Some i \<longrightarrow> js_integer i = i"
  shows "let s = validateRequestsSearch input; p = toQueryParams s; q = normalizeQuery (requestsQuery p);
      page = (case rp_page p of Some n \<Rightarrow> n | None \<Rightarrow> 1)
    in rp_page p \<noteq> None \<and> nq_page q = (if page < 10 ^ 21 then page else 1) \<and> Some (nq_pageSize q) = rp_pageSize p \<and>
       nq_status q = rp_status p \<and> Some (nq_sort q) = rp_sort p \<and> Some (nq_order q) = rp_order p \<and>
       nq_search q = (case rp_search p of None \<Rightarrow> [] | Some x \<Rightarrow> x)"
proof -
  let ?s = "validateRequestsSearch input"
  let ?p = "toQueryParams ?s"
  have safe: "js_integer n = n" if "1 \<le> n" "n \<le> 200" for n using that by (intro js_integer_safe) auto
  obtain page where page: "rp_page ?p = Some page" "1 \<le> page" "js_integer page = page"
    using assms safe [of 1] by (cases "pageNumber (own input ''page'')")
      (auto simp: toQueryParams_def validateRequestsSearch_def DEFAULT_PAGE_def dest: pageNumber_Some)
  obtain len where len: "rp_pageSize ?p = Some len" "1 \<le> len" "len \<le> 200"
    by (cases "pageSize (own input ''pageSize'')")
      (auto simp: toQueryParams_def validateRequestsSearch_def DEFAULT_PAGE_SIZE_def PAGE_SIZES_def
        dest!: pageSize_Some)
  obtain srt ord where so: "rp_sort ?p = Some srt" "rp_order ?p = Some ord"
    by (simp add: toQueryParams_def)
  have search: "rp_search ?p = None \<or> (\<exists>x. rp_search ?p = Some x \<and> trim x = x)"
    using trimmed_text_Some by (cases "rp_search ?p") (auto simp: toQueryParams_def)
  have texts: "query_text (requestsQuery ?p) ''status'' = (case rp_status ?p of None \<Rightarrow> [] | Some u \<Rightarrow> status_param u)"
    "query_text (requestsQuery ?p) ''sort'' = sort_text srt" "query_text (requestsQuery ?p) ''order'' = order_text ord"
    using so by (auto simp: query_text_def map_of_requestsQuery split: option.split)
  have status: "status_param u = ''success'' \<longleftrightarrow> u = Success" "status_param u = ''failed'' \<longleftrightarrow> u = Failed" for u
    by (cases u; simp add: status_param_def)+
  have ord': "(if order_text ord = ''asc'' then Asc else Desc) = ord"
    by (cases ord) (simp_all add: order_text_def)
  have numbers: "positiveInt (Some (int_text page)) = (if page < 10 ^ 21 then Some page else None)"
    "positiveInt (Some (int_text len)) = Some len"
    using positiveInt_text [of page] positiveInt_text [of len] page(2,3) len(2,3) safe [of len] by simp_all
  show ?thesis
    using page(1) len so search ord'
    by (cases "rp_status ?p"; cases "the (rp_status ?p)")
      (auto simp: Let_def normalizeQuery_def map_of_requestsQuery numbers texts wire_names status split: if_splits intro: request_status.exhaust)
qed

theorem query_survives_wire_witness:
  "(let p = toQueryParams (validateRequestsSearch [(''page'', JNum (Fin 3))])
    in rp_page p = Some 3 \<and> nq_page (normalizeQuery (requestsQuery p)) = 3) \<and>
   (let p = toQueryParams (validateRequestsSearch [(''page'', JNum (Fin (10 ^ 21)))])
    in rp_page p = Some (10 ^ 21) \<and> nq_page (normalizeQuery (requestsQuery p)) = 1)"
proof -
  have pages: "pageNumber (own [(''page'', JNum (Fin 3))] ''page'') = Some 3"
    "pageNumber (own [(''page'', JNum (Fin (10 ^ 21)))] ''page'') = Some (10 ^ 21)" by code_simp+
  then have params: "rp_page (toQueryParams (validateRequestsSearch [(''page'', JNum (Fin 3))])) = Some 3"
    "rp_page (toQueryParams (validateRequestsSearch [(''page'', JNum (Fin (10 ^ 21)))])) = Some (10 ^ 21)"
    by (simp_all add: toQueryParams_def validateRequestsSearch_def)
  have "js_integer 3 = 3" by (rule js_integer_safe) simp_all
  then show ?thesis
    using query_survives_wire [of "[(''page'', JNum (Fin 3))]"] query_survives_wire [of "[(''page'', JNum (Fin (10 ^ 21)))]"]
      pages params js_integer_limit by (simp add: Let_def)
qed

text \<open>Cleaning the URL changes nothing that is asked: the shortened search sends the same request,
  and cleaning it again drops nothing more.\<close>

theorem clean_search_faithful:
  shows "toQueryParams (cleanSearch s) = toQueryParams s \<and> cleanSearch (cleanSearch s) = cleanSearch s \<and>
    hasFilters (cleanSearch s) = hasFilters s"
  by (auto simp: toQueryParams_def cleanSearch_def hasFilters_def Let_def)

text \<open>C33: The pages of the request log are exactly the matching rows, each once: for every query, the
  pages 1 to ceil(total / pageSize) laid end to end are the matches in the order asked for, that list
  is a rearrangement of the matching rows, and it is sorted by the column and then by id.\<close>

theorem pages_partition:
  fixes db :: mock_db and url :: "(string \<times> string) list"
  shows "let q = normalizeQuery url; rows = sorted_matches db q;
      pages = nat (js_ceil_div (int (length rows)) (nq_pageSize q))
    in concat (map (\<lambda>p. rs_requests (page_body rows (q\<lparr>nq_page := int p + 1\<rparr>) True)) [0..<pages]) = rows \<and>
       mset rows = mset (filter (\<lambda>r. matches (db_apiKeys db) r q) (db_requests db)) \<and>
       sorted_wrt (\<lambda>a b. record_compare (db_apiKeys db) q by_id a b \<le> 0) rows"
proof -
  let ?q = "normalizeQuery url"
  let ?rows = "sorted_matches db ?q"
  let ?n = "nq_pageSize ?q"
  let ?pages = "nat (js_ceil_div (int (length ?rows)) ?n)"
  have n: "0 < ?n" using normalizeQuery_sizes [of url] by simp
  have body: "rs_requests (page_body ?rows (?q\<lparr>nq_page := int p + 1\<rparr>) True) =
      take (nat ?n) (drop (p * nat ?n) ?rows)" for p
  proof -
    have e: "nat (int p * ?n) = p * nat ?n" using n by (simp add: nat_mult_distrib)
    show ?thesis
    proof (cases "int p * ?n \<le> int (length ?rows)")
      case True
      then show ?thesis by (simp add: page_body_def Let_def e min_def)
    next
      case False
      then have "length ?rows \<le> p * nat ?n" using e by linarith
      with False show ?thesis by (simp add: page_body_def Let_def min_def)
    qed
  qed
  have "int (length ?rows) \<le> ?n * js_ceil_div (int (length ?rows)) ?n"
    using js_ceil_div_bounds [OF n] by simp
  then have "nat (int (length ?rows)) \<le> nat (?n * js_ceil_div (int (length ?rows)) ?n)" by (rule nat_mono)
  then have cover: "length ?rows \<le> ?pages * nat ?n"
    using n by (simp add: nat_mult_distrib mult.commute)
  have "concat (map (\<lambda>p. rs_requests (page_body ?rows (?q\<lparr>nq_page := int p + 1\<rparr>) True)) [0..<?pages]) =
      take (?pages * nat ?n) ?rows"
    unfolding body using n by (intro pages_concat) simp
  moreover have "sorted_wrt (\<lambda>a b. record_compare (db_apiKeys db) ?q by_id a b \<le> 0) ?rows"
    unfolding sorted_matches_def sortRecords_def
    by (rule comparator.sorted_sort_cmp [OF comparator_record])
      (simp_all add: by_id_def [abs_def] comparator_num list_all_iff)
  ultimately show ?thesis using cover by (simp add: Let_def sorted_matches_def sortRecords_def)
qed

text \<open>A key is never shown in full: masking what the server masked changes nothing, masking twice is
  masking once, and a key of more than ten characters without a mask comes out as its first six and
  last four characters.\<close>

theorem key_mask_stable:
  shows "(case key of None \<Rightarrow> True | Some k \<Rightarrow> normalizeApiKeyMask (Some (maskKey k)) = maskKey k) \<and>
    normalizeApiKeyMask (Some (normalizeApiKeyMask key)) = normalizeApiKeyMask key \<and>
    (length (normalizeApiKeyMask key) \<le> 14 \<or> includesStr (normalizeApiKeyMask key) ''****'')"
proof -
  have inc: "includesStr (p @ ''****'' @ r) ''****''" for p r
    unfolding includesStr_def indexOf_None
    by (metis append_eq_conv_conj le_add1 length_append startsWith_append)
  show ?thesis
    using inc [of "slice 0 6 _" "slice_last 4 _"]
    by (auto simp: normalizeApiKeyMask_def maskKey_def split: option.split)
qed

end
