(* ===== verification/Api_Keys.thy ===== *)
theory Api_Keys
  imports Settings_Server Request_Model
begin

text \<open>
  API keys, both sides: the form rules of the API page (src/ui/src/features/api/api-key-form.ts) and
  the key endpoints of the mock server (src/ui/src/features/api/mocks.ts), as
  proxy/admin_apikeys.go answers them. A generated id and a generated key, which the server draws,
  are arguments of the create handler. \<open>maskKey\<close> is \<open>Request_Model.maskKey\<close>; the two sources agree.
\<close>

subsection \<open>The form\<close>

record api_key_form =
  akf_name :: string
  akf_key :: string
  akf_tokenLimit :: "jnum option"
  akf_creditLimit :: "jnum option"

record api_key_data =
  akd_name :: string
  akd_key :: string
  akd_tokenLimit :: int
  akd_creditLimit :: rat

datatype limit_field = TokenLimit | CreditLimit

definition EMPTY_API_KEY_FORM :: api_key_form where
  "EMPTY_API_KEY_FORM =
     \<lparr>akf_name = [], akf_key = [], akf_tokenLimit = Some (Fin 0), akf_creditLimit = Some (Fin 0)\<rparr>"

definition or_zero :: "'a::zero option \<Rightarrow> 'a" where
  "or_zero v = (case v of None \<Rightarrow> 0 | Some x \<Rightarrow> x)"

definition formValuesFromKey :: "api_key \<Rightarrow> api_key_form" where
  "formValuesFromKey k =
     \<lparr>akf_name = opt_text (key_name k), akf_key = [],
      akf_tokenLimit = Some (Fin (of_int (or_zero (key_tokenLimit k)))),
      akf_creditLimit = Some (Fin (or_zero (key_creditLimit k)))\<rparr>"

definition parseApiKeyForm :: "api_key_form \<Rightarrow> limit_field + api_key_data" where
  "parseApiKeyForm v =
     (let tokens = (case akf_tokenLimit v of None \<Rightarrow> Fin 0 | Some n \<Rightarrow> n);
          credits = (case akf_creditLimit v of None \<Rightarrow> Fin 0 | Some n \<Rightarrow> n)
      in case as_integer tokens of
           None \<Rightarrow> Inl TokenLimit
         | Some t \<Rightarrow>
             if t < 0 then Inl TokenLimit
             else (case credits of
                 Fin c \<Rightarrow>
                   if c < 0 then Inl CreditLimit
                   else Inr \<lparr>akd_name = trim (akf_name v), akd_key = trim (akf_key v),
                             akd_tokenLimit = t, akd_creditLimit = c\<rparr>
               | _ \<Rightarrow> Inl CreditLimit))"

definition buildCreateRequest :: "api_key_data \<Rightarrow> api_key_create_request" where
  "buildCreateRequest d =
     \<lparr>kcr_name = Some (akd_name d), kcr_key = (if akd_key d \<noteq> [] then Some (akd_key d) else None),
      kcr_enabled = Some True, kcr_tokenLimit = Some (Fin (of_int (akd_tokenLimit d))),
      kcr_creditLimit = Some (Fin (akd_creditLimit d))\<rparr>"

definition buildUpdateRequest :: "api_key_data \<Rightarrow> api_key_update_request" where
  "buildUpdateRequest d =
     \<lparr>kur_name = Some (akd_name d), kur_key = Some (akd_key d), kur_enabled = None,
      kur_tokenLimit = Some (Fin (of_int (akd_tokenLimit d))), kur_creditLimit = Some (Fin (akd_creditLimit d))\<rparr>"

definition isLimitReached :: "api_key \<Rightarrow> bool" where
  "isLimitReached k \<longleftrightarrow>
     (or_zero (key_tokenLimit k) > 0 \<and> key_tokensUsed k \<ge> or_zero (key_tokenLimit k)) \<or>
     (or_zero (key_creditLimit k) > 0 \<and> key_creditsUsed k \<ge> or_zero (key_creditLimit k))"

definition countEnabledKeys :: "api_key list \<Rightarrow> nat" where
  "countEnabledKeys keys = length (filter key_enabled keys)"

definition wouldLockOutClients :: "api_key list \<Rightarrow> string \<Rightarrow> bool \<Rightarrow> bool" where
  "wouldLockOutClients keys i requireApiKey \<longleftrightarrow>
     requireApiKey \<and>
     (case find_by key_id keys i of None \<Rightarrow> False | Some target \<Rightarrow> key_enabled target) \<and>
     countEnabledKeys keys = 1"

subsection \<open>The server\<close>

definition nonzero :: "'a::zero option \<Rightarrow> 'a option" where
  "nonzero v = (case v of Some x \<Rightarrow> if x \<noteq> 0 then Some x else None | None \<Rightarrow> None)"

definition view :: "api_key \<Rightarrow> api_key" where
  "view k = k\<lparr>key_key := None, key_name := given_text (key_name k), key_tokenLimit := nonzero (key_tokenLimit k),
              key_creditLimit := nonzero (key_creditLimit k), key_lastUsedAt := nonzero (key_lastUsedAt k)\<rparr>"

definition is_given :: "json \<Rightarrow> bool" where
  "is_given v \<longleftrightarrow> v \<noteq> JUndef"

fun is_number :: "json \<Rightarrow> bool" where
  "is_number (JNum _) = True"
| "is_number _ = False"

definition badTypes :: "(string \<times> json) list \<Rightarrow> bool" where
  "badTypes body \<longleftrightarrow>
     (is_given (own body ''name'') \<and> as_string (own body ''name'') = None) \<or>
     (is_given (own body ''key'') \<and> as_string (own body ''key'') = None) \<or>
     (is_given (own body ''enabled'') \<and> as_bool (own body ''enabled'') = None) \<or>
     (is_given (own body ''tokenLimit'') \<and> as_int (own body ''tokenLimit'') = None) \<or>
     (is_given (own body ''creditLimit'') \<and> \<not> is_number (own body ''creditLimit''))"

text \<open>A JSON number is finite; a non-finite credit limit cannot arrive.\<close>

fun as_rat :: "json \<Rightarrow> rat option" where
  "as_rat (JNum (Fin r)) = Some r"
| "as_rat _ = None"

definition negative :: "'a::{zero,ord} option \<Rightarrow> bool" where
  "negative v = (case v of None \<Rightarrow> False | Some x \<Rightarrow> x < 0)"

definition limitError :: "(string \<times> json) list \<Rightarrow> string option" where
  "limitError body =
     (if negative (as_int (own body ''tokenLimit'')) then Some ''token limit must be zero or positive''
      else if negative (as_rat (own body ''creditLimit'')) then Some ''credit limit must be zero or positive''
      else None)"

definition findKey :: "mock_db \<Rightarrow> string \<Rightarrow> api_key option" where
  "findKey db i = find_by key_id (db_apiKeys db) i"

definition removingLocksOut :: "mock_db \<Rightarrow> api_key option \<Rightarrow> bool" where
  "removingLocksOut db stored = (case stored of
      None \<Rightarrow> False
    | Some k \<Rightarrow> key_enabled k \<and> set_requireApiKey (db_settings db) \<and>
        length (filter key_enabled (db_apiKeys db)) \<le> 1)"

definition lockout :: "mock_db \<Rightarrow> 'a reply \<times> mock_db \<times> event list" where
  "lockout db = refuse 409 ''would lock out every client'' (Some ''api_key_lockout'') db"

definition get_api_keys :: "string \<Rightarrow> mock_db \<Rightarrow> api_key list reply \<times> mock_db \<times> event list" where
  "get_api_keys token = guarded token (\<lambda>db. (Inr (map view (db_apiKeys db)), db, []))"

definition get_api_key :: "string \<Rightarrow> string \<Rightarrow> mock_db \<Rightarrow> api_key reply \<times> mock_db \<times> event list" where
  "get_api_key token i = guarded token (\<lambda>db. (case findKey db i of
      None \<Rightarrow> refuse 404 ''API key not found'' None db
    | Some stored \<Rightarrow> (Inr ((view stored)\<lparr>key_key := key_key stored\<rparr>), db, [])))"

record key_draw =
  kd_id :: string
  kd_key :: string

definition new_key :: "key_draw \<Rightarrow> int \<Rightarrow> string \<Rightarrow> (string \<times> json) list \<Rightarrow> api_key" where
  "new_key d now key body =
     \<lparr>key_id = kd_id d, key_name = map_option trim (as_string (own body ''name'')), key_key = Some key,
      key_masked = maskKey key, key_enabled = (own body ''enabled'' \<noteq> JBool False), key_createdAt = now,
      key_lastUsedAt = None, key_tokenLimit = Some (or_zero (as_int (own body ''tokenLimit''))),
      key_creditLimit = Some (or_zero (as_rat (own body ''creditLimit''))), key_tokensUsed = 0,
      key_creditsUsed = 0, key_requestsCount = 0\<rparr>"

definition post_api_key ::
  "string \<Rightarrow> key_draw \<Rightarrow> int \<Rightarrow> json option \<Rightarrow> mock_db \<Rightarrow> (string \<times> string \<times> api_key) reply \<times> mock_db \<times> event list" where
  "post_api_key token d now body = guarded token (\<lambda>db.
     (case read_object body of
        None \<Rightarrow> refuse 400 ''Invalid JSON'' None db
      | Some o' \<Rightarrow>
          (let raw = string_or_empty (own o' ''key''); custom = trim raw;
               key = (if custom \<noteq> [] then custom else kd_key d); stored = new_key d now key o'
           in if badTypes o' then refuse 400 ''Invalid JSON'' None db
              else if raw \<noteq> [] \<and> custom = [] then refuse 400 ''api key value must not be empty'' None db
              else (case limitError o' of
                  Some msg \<Rightarrow> refuse 400 msg None db
                | None \<Rightarrow>
                    if list_ex (\<lambda>k. key_key k = Some key) (db_apiKeys db) then
                      refuse 400 ''api key already exists'' None db
                    else (Inr (kd_id d, key, view stored), db\<lparr>db_apiKeys := db_apiKeys db @ [stored]\<rparr>,
                          [(Api_keys_changed, kd_id d)])))))"

definition patch_key :: "(string \<times> json) list \<Rightarrow> string \<Rightarrow> api_key \<Rightarrow> api_key" where
  "patch_key body nextKey k =
     k\<lparr>key_name := (case as_string (own body ''name'') of Some n \<Rightarrow> given_text (Some (trim n)) | None \<Rightarrow> key_name k),
       key_enabled := keep_or (key_enabled k) (as_bool (own body ''enabled'')),
       key_tokenLimit := (case as_int (own body ''tokenLimit'') of Some n \<Rightarrow> Some n | None \<Rightarrow> key_tokenLimit k),
       key_creditLimit := (case as_rat (own body ''creditLimit'') of Some n \<Rightarrow> Some n | None \<Rightarrow> key_creditLimit k),
       key_key := Some nextKey, key_masked := maskKey nextKey\<rparr>"

definition put_api_key ::
  "string \<Rightarrow> string \<Rightarrow> json option \<Rightarrow> mock_db \<Rightarrow> api_key reply \<times> mock_db \<times> event list" where
  "put_api_key token i body = guarded token (\<lambda>db. (case findKey db i of
      None \<Rightarrow> refuse 404 ''API key not found'' None db
    | Some stored \<Rightarrow> (case read_object body of
          None \<Rightarrow> refuse 400 ''Invalid JSON'' None db
        | Some o' \<Rightarrow>
            if badTypes o' then refuse 400 ''Invalid JSON'' None db
            else (case limitError o' of
                Some msg \<Rightarrow> refuse 400 msg None db
              | None \<Rightarrow>
                  (let given = string_or_empty (own o' ''key'');
                       nextKey = (if given \<noteq> [] then trim given else opt_text (key_key stored))
                   in if given \<noteq> [] \<and> nextKey = [] then
                        refuse 400 ''api key value must not be empty'' None db
                      else if given \<noteq> [] \<and>
                          list_ex (\<lambda>k. key_id k \<noteq> key_id stored \<and> key_key k = Some nextKey) (db_apiKeys db) then
                        refuse 400 ''api key value collides with existing entry'' None db
                      else if own o' ''enabled'' = JBool False \<and> removingLocksOut db (Some stored) then lockout db
                      else (Inr (view (patch_key o' nextKey stored)),
                            db\<lparr>db_apiKeys := modify_by key_id i (patch_key o' nextKey) (db_apiKeys db)\<rparr>,
                            [(Api_keys_changed, i)]))))))"

definition delete_api_key :: "string \<Rightarrow> string \<Rightarrow> mock_db \<Rightarrow> unit reply \<times> mock_db \<times> event list" where
  "delete_api_key token i = guarded token (\<lambda>db.
     (if removingLocksOut db (findKey db i) then lockout db
      else (Inr (), db\<lparr>db_apiKeys := remove_by key_id i (db_apiKeys db)\<rparr>, [(Api_keys_changed, i)])))"

definition zero_usage :: "api_key \<Rightarrow> api_key" where
  "zero_usage k = k\<lparr>key_tokensUsed := 0, key_creditsUsed := 0, key_requestsCount := 0\<rparr>"

definition reset_api_key_usage ::
  "string \<Rightarrow> string \<Rightarrow> mock_db \<Rightarrow> api_key reply \<times> mock_db \<times> event list" where
  "reset_api_key_usage token i = guarded token (\<lambda>db. (case findKey db i of
      None \<Rightarrow> refuse 404 ''api key not found'' None db
    | Some stored \<Rightarrow>
        (Inr (view (zero_usage stored)), db\<lparr>db_apiKeys := modify_by key_id i zero_usage (db_apiKeys db)\<rparr>,
         [(Api_keys_changed, i)])))"

subsection \<open>Lemmas\<close>

interpretation key_table: row_table findKey
  "\<lambda>i db. db\<lparr>db_apiKeys := remove_by key_id i (db_apiKeys db)\<rparr>"
  "\<lambda>i f db. db\<lparr>db_apiKeys := modify_by key_id i f (db_apiKeys db)\<rparr>"
  "\<lambda>f. \<forall>r. key_id (f r) = key_id r"
  by unfold_locales (simp_all add: findKey_def find_remove_by find_modify_by)

lemma key_ids [simp]: "key_id (patch_key b n k) = key_id k" "key_id (zero_usage k) = key_id k"
  "key_id (view k) = key_id k" "key_enabled (view k) = key_enabled k" "key_enabled (zero_usage k) = key_enabled k"
  "key_key (zero_usage k) = key_key k" "key_masked (zero_usage k) = key_masked k"
  by (simp_all add: patch_key_def zero_usage_def view_def)

text \<open>No client is ever locked out: while keys are required, some key is enabled.\<close>

definition not_locked_out :: "mock_db \<Rightarrow> bool" where
  "not_locked_out db \<longleftrightarrow> \<not> set_requireApiKey (db_settings db) \<or> list_ex key_enabled (db_apiKeys db)"

text \<open>The key table: ids and secrets are unique, every key has a secret that is not blank and its mask.\<close>

definition keys_ok :: "mock_db \<Rightarrow> bool" where
  "keys_ok db \<longleftrightarrow> distinct (map key_id (db_apiKeys db)) \<and> distinct (map key_key (db_apiKeys db)) \<and>
     list_all (\<lambda>k. case key_key k of None \<Rightarrow> False | Some s \<Rightarrow> s \<noteq> [] \<and> key_masked k = maskKey s) (db_apiKeys db)"

lemma remove_absent: "i \<notin> key ` set rows \<Longrightarrow> remove_by key i rows = rows"
  by (induction rows) (auto simp: remove_by_def)

lemma enabled_survives:
  "distinct (map key_id keys) \<Longrightarrow>
    length (filter key_enabled keys) \<le> Suc (length (filter key_enabled (remove_by key_id i keys)))"
proof (induction keys)
  case (Cons k keys)
  show ?case
  proof (cases "key_id k = i")
    case True
    with Cons.prems have "remove_by key_id i keys = keys" by (intro remove_absent) simp
    with True show ?thesis by (simp add: remove_by_def)
  next
    case False
    with Cons show ?thesis by (simp add: remove_by_def)
  qed
qed simp

lemma some_enabled: "list_ex key_enabled keys \<longleftrightarrow> 0 < length (filter key_enabled keys)"
  by (induction keys) auto

lemma enabled_modify:
  assumes "\<And>k. key_id (f k) = key_id k"
  shows "list_ex key_enabled keys \<Longrightarrow> (\<And>k. find_by key_id keys i = Some k \<Longrightarrow> key_enabled k \<Longrightarrow> key_enabled (f k)) \<Longrightarrow>
    list_ex key_enabled (modify_by key_id i f keys)"
  by (induction keys) auto

text \<open>A changed row keeps the secrets distinct when its new secret is no other row's.\<close>

lemma distinct_modify:
  assumes "distinct (map key_id rows)" "distinct (map g rows)"
    and "\<And>r. r \<in> set rows \<Longrightarrow> key_id r \<noteq> i \<Longrightarrow> g r \<noteq> v" and "\<And>r. key_id r = i \<Longrightarrow> g (f r) = v"
  shows "distinct (map g (modify_by key_id i f rows))"
  using assms(1-3)
proof (induction rows)
  case (Cons r rows)
  show ?case
  proof (cases "key_id r = i")
    case True
    have "g x \<noteq> v" if "x \<in> set rows" for x
    proof (rule Cons.prems(3))
      show "x \<in> set (r # rows)" using that by simp
      show "key_id x \<noteq> i" using that True Cons.prems(1) by (metis distinct.simps(2) imageI list.simps(9) list.set_map)
    qed
    then have "v \<notin> g ` set rows" by (metis imageE)
    with True Cons.prems assms(4) show ?thesis by simp
  next
    case False
    have "g r \<notin> g ` set (modify_by key_id i f rows)"
    proof
      assume "g r \<in> g ` set (modify_by key_id i f rows)"
      then obtain x where x: "x \<in> set (modify_by key_id i f rows)" "g r = g x" by auto
      have "x \<in> set rows \<or> g x = v"
        using x(1) assms(4) by (induction rows) (auto split: if_splits)
      then show False
        using x(2) Cons.prems(2) Cons.prems(3) [of r] False by (metis distinct.simps(2) imageI list.set_intros(1) list.set_map list.simps(9))
    qed
    with False Cons show ?thesis by simp
  qed
qed simp

lemma one_disabled: "length (filter key_enabled keys) \<le> Suc (length (filter key_enabled (modify_by key_id i f keys)))"
  by (induction keys) auto

lemma find_map_view: "find_by key_id (map view keys) i = map_option view (find_by key_id keys i)"
  by (induction keys) auto

lemma enabled_view [simp]: "key_enabled \<circ> view = key_enabled"
  by (rule ext) simp

lemma filter_map_view: "length (filter key_enabled (map view keys)) = length (filter key_enabled keys)"
  by (induction keys) auto

text \<open>The JSON body of a create request; an undefined key is left out.\<close>

definition create_body :: "api_key_create_request \<Rightarrow> json" where
  "create_body r = JObj
     ((case kcr_key r of None \<Rightarrow> [] | Some k \<Rightarrow> [(''key'', JStr k)]) @
      [(''name'', JStr (opt_text (kcr_name r))), (''enabled'', JBool (kcr_enabled r = Some True)),
       (''tokenLimit'', JNum (case kcr_tokenLimit r of None \<Rightarrow> NaN | Some n \<Rightarrow> n)),
       (''creditLimit'', JNum (case kcr_creditLimit r of None \<Rightarrow> NaN | Some n \<Rightarrow> n))])"

lemma post_keeps_lockout: "not_locked_out db \<Longrightarrow> not_locked_out (fst (snd (post_api_key token d now body db)))"
  unfolding post_api_key_def Let_def
  by (rule guarded_invariant [where I = not_locked_out], assumption)
    (auto simp: not_locked_out_def split: option.split)

text \<open>A patch is refused without effect, or applied with a secret that is the old one or a new one that
  is neither blank nor another key's.\<close>

definition put_accepts :: "mock_db \<Rightarrow> string \<Rightarrow> (string \<times> json) list \<Rightarrow> api_key \<Rightarrow> string \<Rightarrow> bool" where
  "put_accepts db i o' stored n \<longleftrightarrow> findKey db i = Some stored \<and>
     \<not> (own o' ''enabled'' = JBool False \<and> removingLocksOut db (Some stored)) \<and>
     (n = opt_text (key_key stored) \<or>
      (n \<noteq> [] \<and> \<not> list_ex (\<lambda>k. key_id k \<noteq> key_id stored \<and> key_key k = Some n) (db_apiKeys db)))"

lemma put_outcome:
  "snd (put_api_key token i body db) = (db, []) \<or>
   (\<exists>o' stored n. put_accepts db i o' stored n \<and> fst (snd (put_api_key token i body db)) =
      db\<lparr>db_apiKeys := modify_by key_id i (patch_key o' n) (db_apiKeys db)\<rparr>)"
proof (cases "startsWith token ''mock-''")
  case False
  then show ?thesis by (simp add: put_api_key_def guarded_denied)
next
  case True
  note run = put_api_key_def guarded_ok [OF True]
  show ?thesis
  proof (cases "findKey db i")
    case None
    then show ?thesis by (simp add: run)
  next
    case (Some stored)
    note found = Some
    show ?thesis
    proof (cases "read_object body")
      case None
      with found show ?thesis by (simp add: run)
    next
      case (Some o')
      define n where "n = (if string_or_empty (own o' ''key'') \<noteq> [] then trim (string_or_empty (own o' ''key''))
        else opt_text (key_key stored))"
      show ?thesis
      proof (cases "badTypes o' \<or> limitError o' \<noteq> None \<or> (string_or_empty (own o' ''key'') \<noteq> [] \<and> n = []) \<or>
          (string_or_empty (own o' ''key'') \<noteq> [] \<and>
           list_ex (\<lambda>k. key_id k \<noteq> key_id stored \<and> key_key k = Some n) (db_apiKeys db)) \<or>
          (own o' ''enabled'' = JBool False \<and> removingLocksOut db (Some stored))")
        case True
        then show ?thesis using found Some
          by (auto simp: run Let_def lockout_def simp flip: n_def split: option.split)
      next
        case False
        then have ok: "put_accepts db i o' stored n"
          using found by (auto simp: put_accepts_def n_def)
        have "limitError o' = None" using False by simp
        with False found Some have "fst (snd (put_api_key token i body db)) =
            db\<lparr>db_apiKeys := modify_by key_id i (patch_key o' n) (db_apiKeys db)\<rparr>"
          by (auto simp: run Let_def simp flip: n_def)
        with ok show ?thesis by blast
      qed
    qed
  qed
qed

lemma put_keeps_lockout:
  assumes ok: "not_locked_out db"
  shows "not_locked_out (fst (snd (put_api_key token i body db)))"
proof -
  have patched: "not_locked_out (db\<lparr>db_apiKeys := modify_by key_id i (patch_key o' n) (db_apiKeys db)\<rparr>)"
    if acc: "put_accepts db i o' stored n" for stored o' n
  proof (cases "set_requireApiKey (db_settings db) \<and> own o' ''enabled'' = JBool False \<and> key_enabled stored")
    case True
    with acc have "1 < length (filter key_enabled (db_apiKeys db))"
      by (simp add: removingLocksOut_def put_accepts_def)
    with one_disabled [of "db_apiKeys db" i "patch_key o' n"]
    have "0 < length (filter key_enabled (modify_by key_id i (patch_key o' n) (db_apiKeys db)))" by linarith
    then show ?thesis by (simp add: not_locked_out_def some_enabled)
  next
    case False
    have "list_ex key_enabled (modify_by key_id i (patch_key o' n) (db_apiKeys db))"
      if "set_requireApiKey (db_settings db)"
    proof (rule enabled_modify)
      show "list_ex key_enabled (db_apiKeys db)" using ok that by (simp add: not_locked_out_def)
      fix k assume "find_by key_id (db_apiKeys db) i = Some k" "key_enabled k"
      then show "key_enabled (patch_key o' n k)"
        using False acc that
        by (auto simp: findKey_def put_accepts_def patch_key_def keep_or_def split: option.splits)
    qed simp
    then show ?thesis by (auto simp: not_locked_out_def)
  qed
  then show ?thesis using put_outcome [of token i body db] ok by auto
qed

lemma delete_keeps_lockout:
  assumes "not_locked_out db" "distinct (map key_id (db_apiKeys db))"
  shows "not_locked_out (fst (snd (delete_api_key token i db)))"
proof -
  have "list_ex key_enabled (remove_by key_id i (db_apiKeys db))"
    if req: "set_requireApiKey (db_settings db)" and "\<not> removingLocksOut db (findKey db i)"
  proof (cases "find_by key_id (db_apiKeys db) i")
    case None
    then show ?thesis using assms(1) req by (simp add: find_by_None remove_absent not_locked_out_def)
  next
    case (Some k)
    show ?thesis
    proof (cases "key_enabled k")
      case True
      with that Some have "1 < length (filter key_enabled (db_apiKeys db))"
        by (simp add: removingLocksOut_def findKey_def)
      with enabled_survives [OF assms(2), of i] show ?thesis unfolding some_enabled by linarith
    next
      case False
      obtain e where e: "e \<in> set (db_apiKeys db)" "key_enabled e"
        using assms(1) req by (auto simp: not_locked_out_def list_ex_iff)
      then have "key_id e \<noteq> i"
        using find_by_unique [OF assms(2) e(1)] Some False by auto
      with e show ?thesis by (auto simp: list_ex_iff remove_by_def)
    qed
  qed
  then show ?thesis unfolding delete_api_key_def
    by (intro guarded_invariant [where I = not_locked_out] assms(1))
      (use assms(1) in \<open>auto simp: lockout_def not_locked_out_def\<close>)
qed

lemma settings_keeps_lockout:
  assumes "not_locked_out db"
  shows "not_locked_out (fst (snd (post_settings token body db)))"
  unfolding post_settings_def Let_def
  by (rule guarded_invariant [where I = not_locked_out, OF assms])
    (use assms in \<open>auto simp: not_locked_out_def assign_settings_def keep_or_def claimMockPassword_def
      split: option.splits\<close>)

lemma reset_keeps_lockout:
  "not_locked_out db \<Longrightarrow> not_locked_out (fst (snd (reset_api_key_usage token i db)))"
  unfolding reset_api_key_usage_def
  by (rule guarded_invariant [where I = not_locked_out])
    (auto simp: not_locked_out_def intro: enabled_modify split: option.split)

lemma key_secret: "keys_ok db \<Longrightarrow> k \<in> set (db_apiKeys db) \<Longrightarrow>
    \<exists>s. key_key k = Some s \<and> s \<noteq> [] \<and> key_masked k = maskKey s"
  by (auto simp: keys_ok_def list_all_iff split: option.splits dest!: bspec [of _ _ k])

lemma put_keeps_keys:
  assumes ok: "keys_ok db" and acc: "put_accepts db i o' stored n"
  shows "keys_ok (db\<lparr>db_apiKeys := modify_by key_id i (patch_key o' n) (db_apiKeys db)\<rparr>)"
proof -
  let ?rows = "db_apiKeys db" and ?f = "patch_key o' n"
  have d: "distinct (map key_id ?rows)" "distinct (map key_key ?rows)" using ok by (simp_all add: keys_ok_def)
  have stored: "stored \<in> set ?rows" "key_id stored = i"
    using acc by (auto simp: put_accepts_def findKey_def dest: find_by_Some)
  obtain s where s: "key_key stored = Some s" "s \<noteq> []" using key_secret [OF ok stored(1)] by blast
  have inj: "inj_on key_key (set ?rows)" using d(2) by (simp add: distinct_map)
  have n: "n \<noteq> []" using acc s by (auto simp: put_accepts_def opt_text_def)
  have other: "key_key r \<noteq> Some n" if "r \<in> set ?rows" "key_id r \<noteq> i" for r
  proof (cases "n = opt_text (key_key stored)")
    case True
    then have "key_key stored = Some n" using s by (simp add: opt_text_def)
    then show ?thesis using inj_onD [OF inj, of r stored] that stored by auto
  next
    case False
    then show ?thesis using acc that stored(2) by (auto simp: put_accepts_def list_ex_iff)
  qed
  have "distinct (map key_key (modify_by key_id i ?f ?rows))"
    by (rule distinct_modify [OF d, where v = "Some n"]) (use other in \<open>simp_all add: patch_key_def\<close>)
  moreover have "distinct (map key_id (modify_by key_id i ?f ?rows))"
    using d(1) by (simp add: map_key_modify_by)
  moreover have "list_all (\<lambda>k. case key_key k of None \<Rightarrow> False | Some s \<Rightarrow> s \<noteq> [] \<and> key_masked k = maskKey s)
      (modify_by key_id i ?f ?rows)"
    using ok set_modify_by [of key_id i ?f ?rows] n
    by (auto simp: keys_ok_def list_all_iff patch_key_def)
  ultimately show ?thesis by (simp add: keys_ok_def)
qed

subsection \<open>Properties\<close>

text \<open>C3: No request locks every client out: while API keys are required some key stays enabled, through
  creating, changing, disabling, deleting and resetting keys and through turning the requirement on.\<close>

theorem never_locked_out:
  assumes "not_locked_out db" and "keys_ok db"
  shows "not_locked_out (fst (snd (post_api_key token d now body db))) \<and>
    not_locked_out (fst (snd (put_api_key token i body db))) \<and>
    not_locked_out (fst (snd (delete_api_key token i db))) \<and>
    not_locked_out (fst (snd (reset_api_key_usage token i db))) \<and>
    not_locked_out (fst (snd (post_settings token body db)))"
  using assms post_keeps_lockout put_keeps_lockout delete_keeps_lockout reset_keeps_lockout settings_keeps_lockout
  by (simp add: keys_ok_def)

theorem never_locked_out_witness:
  "not_locked_out (fst (snd (post_settings ''mock-1'' (Some (JObj [(''requireApiKey'', JBool True)])) sample_db)))"
  by (rule never_locked_out [THEN conjunct2, THEN conjunct2, THEN conjunct2, THEN conjunct2])
    (simp_all add: not_locked_out_def keys_ok_def seedEmptyDb_def defaultSettings_def)

text \<open>The key table stays sound: ids and secrets unique, every secret there and shown by its own mask,
  whatever is created, patched, deleted or reset, when a drawn id is fresh and a drawn key not empty.\<close>

theorem key_table_sound:
  assumes "keys_ok db" and "kd_id d \<notin> key_id ` set (db_apiKeys db)" and "kd_key d \<noteq> []"
  shows "keys_ok (fst (snd (post_api_key token d now body db))) \<and>
    keys_ok (fst (snd (put_api_key token i body db))) \<and>
    keys_ok (fst (snd (delete_api_key token i db))) \<and>
    keys_ok (fst (snd (reset_api_key_usage token i db)))"
proof (intro conjI)
  note inv = guarded_invariant [where I = keys_ok, OF assms(1)]
  have add: "keys_ok (db\<lparr>db_apiKeys := db_apiKeys db @ [new_key d now key o']\<rparr>)"
    if "\<not> list_ex (\<lambda>k. key_key k = Some key) (db_apiKeys db)" "key \<noteq> []" for key o'
    using assms that by (auto simp: keys_ok_def new_key_def list_ex_iff)
  show "keys_ok (fst (snd (post_api_key token d now body db)))"
    unfolding post_api_key_def Let_def
    by (rule inv) (use assms(1,3) add in \<open>auto split: option.split\<close>)
  show "keys_ok (fst (snd (put_api_key token i body db)))"
    using put_outcome [of token i body db] put_keeps_keys [OF assms(1)] assms(1) by auto
  show "keys_ok (fst (snd (delete_api_key token i db)))"
    unfolding delete_api_key_def
    by (rule inv) (use assms(1) in \<open>auto simp: lockout_def keys_ok_def remove_by_def distinct_map_filter list_all_iff\<close>)
  have "map key_key (modify_by key_id i zero_usage rows) = map key_key rows" for rows
    by (induction rows) auto
  moreover have "list_all (\<lambda>k. case key_key k of None \<Rightarrow> False | Some s \<Rightarrow> s \<noteq> [] \<and> key_masked k = maskKey s)
      (modify_by key_id i zero_usage rows) =
    list_all (\<lambda>k. case key_key k of None \<Rightarrow> False | Some s \<Rightarrow> s \<noteq> [] \<and> key_masked k = maskKey s) rows" for rows
    by (induction rows) (auto cong: option.case_cong)
  ultimately have "keys_ok (db\<lparr>db_apiKeys := modify_by key_id i zero_usage (db_apiKeys db)\<rparr>)"
    using assms(1) by (simp add: keys_ok_def map_key_modify_by)
  then show "keys_ok (fst (snd (reset_api_key_usage token i db)))"
    unfolding reset_api_key_usage_def by (intro inv) (use assms(1) in \<open>auto split: option.split\<close>)
qed

theorem key_table_sound_witness:
  "keys_ok (fst (snd (post_api_key ''mock-1'' \<lparr>kd_id = ''k1'', kd_key = ''sk-1''\<rparr> 0 (Some (JObj [])) sample_db)))"
  by (rule key_table_sound [THEN conjunct1]) (simp_all add: keys_ok_def seedEmptyDb_def)

text \<open>The page warns exactly when the server would refuse: for the keys as the page sees them,
  \<open>wouldLockOutClients\<close> is true if and only if the server answers a deletion with the lockout error,
  and the list the page sees holds no secret.\<close>

theorem lockout_warning_exact:
  shows "wouldLockOutClients (map view (db_apiKeys db)) i (set_requireApiKey (db_settings db)) \<longleftrightarrow>
      fst (delete_api_key (''mock-'' @ token) i db) =
        Inl (jsonError 409 ''would lock out every client'' (Some ''api_key_lockout''))"
proof -
  have pos: "0 < length (filter key_enabled (db_apiKeys db))"
    if "find_by key_id (db_apiKeys db) i = Some k" "key_enabled k" for k
    using find_by_Some [OF that(1)] that(2) by (metis filter_empty_conv length_greater_0_conv)
  have "wouldLockOutClients (map view (db_apiKeys db)) i (set_requireApiKey (db_settings db)) \<longleftrightarrow>
      removingLocksOut db (findKey db i)"
    using pos by (auto simp: wouldLockOutClients_def removingLocksOut_def findKey_def find_map_view
        countEnabledKeys_def filter_map_view le_Suc_eq split: option.split)
  then show ?thesis
    by (simp add: delete_api_key_def guarded_ok lockout_def)
qed

text \<open>What the form lets through the server takes: a filled form that passes \<open>parseApiKeyForm\<close> creates a
  key with the trimmed name and the limits entered, and the only error left is a key that already
  exists; a form the page turns down has a limit that is negative or not a number it may be.\<close>

theorem form_accepted_by_server:
  assumes "kd_key d \<noteq> []"
  shows "case parseApiKeyForm v of
      Inl TokenLimit \<Rightarrow> (case akf_tokenLimit v of None \<Rightarrow> False
        | Some n \<Rightarrow> as_integer n = None \<or> the (as_integer n) < 0)
    | Inl CreditLimit \<Rightarrow> (case akf_creditLimit v of None \<Rightarrow> False
        | Some (Fin r) \<Rightarrow> r < 0 | Some _ \<Rightarrow> True)
    | Inr data \<Rightarrow>
        (case fst (post_api_key (''mock-'' @ token) d now (Some (create_body (buildCreateRequest data))) db) of
           Inl e \<Rightarrow> fail_error e = ''api key already exists''
         | Inr (i, key, shown) \<Rightarrow> i = kd_id d \<and> key = (if trim (akf_key v) = [] then kd_key d else trim (akf_key v)) \<and>
             key_name shown = given_text (Some (trim (akf_name v))) \<and> key_enabled shown \<and> key_key shown = None \<and>
             or_zero (key_tokenLimit shown) = akd_tokenLimit data \<and>
             or_zero (key_creditLimit shown) = akd_creditLimit data)"
proof (cases "parseApiKeyForm v")
  case (Inl e)
  then show ?thesis
    by (cases "akf_tokenLimit v"; cases "akf_creditLimit v")
      (auto simp: parseApiKeyForm_def Let_def split: option.splits if_splits jnum.splits limit_field.splits)
next
  case (Inr data)
  then have dat: "akd_name data = trim (akf_name v)" "akd_key data = trim (akf_key v)"
      "0 \<le> akd_tokenLimit data" "0 \<le> akd_creditLimit data"
    by (auto simp: parseApiKeyForm_def Let_def split: option.splits if_splits jnum.splits)
  let ?o = "(case kcr_key (buildCreateRequest data) of None \<Rightarrow> [] | Some k \<Rightarrow> [(''key'', JStr k)]) @
      [(''name'', JStr (trim (akf_name v))), (''enabled'', JBool True),
       (''tokenLimit'', JNum (Fin (of_int (akd_tokenLimit data)))), (''creditLimit'', JNum (Fin (akd_creditLimit data)))]"
  have body: "create_body (buildCreateRequest data) = JObj ?o"
    by (simp add: create_body_def buildCreateRequest_def opt_text_def dat)
  have own_o: "own ?o ''key'' = (if trim (akf_key v) = [] then JUndef else JStr (trim (akf_key v)))"
      "own ?o ''name'' = JStr (trim (akf_name v))" "own ?o ''enabled'' = JBool True"
      "own ?o ''tokenLimit'' = JNum (Fin (of_int (akd_tokenLimit data)))"
      "own ?o ''creditLimit'' = JNum (Fin (akd_creditLimit data))"
    by (auto simp: buildCreateRequest_def dat)
  have bad: "\<not> badTypes ?o" "limitError ?o = None"
    using dat by (simp_all add: badTypes_def limitError_def own_o is_given_def negative_def del: append.simps)
  have lims: "or_zero (nonzero (Some x)) = x" for x :: "'b::zero"
    by (simp add: or_zero_def nonzero_def)
  show ?thesis
    using bad assms unfolding Inr sum.case body post_api_key_def
    by (auto simp: guarded_ok read_object_def Let_def own_o string_or_empty_def view_def new_key_def
        refuse_def jsonError_def lims or_zero_def nonzero_def simp del: append.simps)
qed

theorem form_accepted_by_server_witness:
  "case parseApiKeyForm EMPTY_API_KEY_FORM of Inl _ \<Rightarrow> True
    | Inr data \<Rightarrow> (case fst (post_api_key (''mock-'' @ ''1'') \<lparr>kd_id = ''k1'', kd_key = ''sk-1''\<rparr> 0
        (Some (create_body (buildCreateRequest data))) sample_db) of
           Inl e \<Rightarrow> fail_error e = ''api key already exists''
         | Inr (i, _) \<Rightarrow> i = ''k1'')"
  using form_accepted_by_server [of "\<lparr>kd_id = ''k1'', kd_key = ''sk-1''\<rparr>" EMPTY_API_KEY_FORM "''1''" 0 sample_db]
  by (auto split: sum.splits)

end
