(* ===== verification/Backup_Model.thy ===== *)
theory Backup_Model
  imports Mock_Server
begin

text \<open>
  Backups, both sides: the rules of the Backups page
  (src/ui/src/features/backups/backup-model.ts) and the backup endpoints of the mock server
  (src/ui/src/features/backups/mocks.ts), which repeat the Go server's checks. Intl formatting
  (\<open>formatNumber\<close>, \<open>formatBytes\<close>), the translation function and \<open>JSON.parse\<close> (its result is the
  request's \<open>json option\<close>) are parameters; the id, size and digest of a new backup, which the
  server draws, are arguments of the handlers that create one.
\<close>

subsection \<open>The page's rules\<close>

definition MAX_UPLOAD_BYTES :: int where
  "MAX_UPLOAD_BYTES = 32 * 1024 * 1024"

definition KEEP_MIN :: int where "KEEP_MIN = 1"
definition KEEP_MAX :: int where "KEEP_MAX = 200"
definition KEEP_DEFAULT :: int where "KEEP_DEFAULT = 50"

definition CADENCES :: "(string \<times> backup_cadence) list" where
  "CADENCES = [(''hourly'', Hourly), (''daily'', Daily), (''weekly'', Weekly)]"

definition UPLOAD_PREFIX :: string where "UPLOAD_PREFIX = ''upload ''"
definition RESTORE_PREFIX :: string where "RESTORE_PREFIX = ''auto before restore ''"

definition SCHEDULED_NOTE :: "string \<Rightarrow> string option" where
  "SCHEDULED_NOTE note =
     (if note \<in> {''auto-hourly'', ''auto-daily'', ''auto-weekly''} then Some (drop 5 note) else None)"

datatype backup_tone = TonePrimary | ToneNeutral | ToneWarn

record schedule_form =
  sf_enabled :: bool
  sf_cadence :: backup_cadence
  sf_keep :: int

definition pad :: "int \<Rightarrow> string" where
  "pad v = padStart 2 (CHR ''0'') (string_of_int v)"

text \<open>Year, month (from 0), day, hours, minutes and seconds of a local time.\<close>

definition manualNote :: "int \<times> int \<times> int \<times> int \<times> int \<times> int \<Rightarrow> string" where
  "manualNote date = (case date of (y, mo, d, h, mi, s) \<Rightarrow>
     ''manual backup '' @ string_of_int y @ ''-'' @ pad (mo + 1) @ ''-'' @ pad d @ '' '' @
     pad h @ '':'' @ pad mi @ '':'' @ pad s)"

definition clampKeep :: "jnum \<Rightarrow> int \<Rightarrow> int" where
  "clampKeep v stored = (case v of
      Fin r \<Rightarrow>
        (let whole = js_round r
         in if whole = stored then stored else min KEEP_MAX (max KEEP_MIN whole))
    | _ \<Rightarrow> stored)"

definition keepMax :: "int \<Rightarrow> int" where
  "keepMax stored = max KEEP_MAX stored"

definition scheduleForm :: "backup_schedule \<Rightarrow> schedule_form" where
  "scheduleForm s =
     \<lparr>sf_enabled = (sch_enabled s = Some True),
      sf_cadence = (case sch_cadence s of
          Some c \<Rightarrow> (case map_of CADENCES c of Some cad \<Rightarrow> cad | None \<Rightarrow> Daily)
        | None \<Rightarrow> Daily),
      sf_keep = (case sch_keep s of Some k \<Rightarrow> if k > 0 then k else KEEP_DEFAULT | None \<Rightarrow> KEEP_DEFAULT)\<rparr>"

definition scheduleDirty ::
  "schedule_form \<Rightarrow> bool \<Rightarrow> backup_cadence \<Rightarrow> jnum option \<Rightarrow> bool" where
  "scheduleDirty initial enabled cadence keep = (case keep of
      None \<Rightarrow> True
    | Some k \<Rightarrow> enabled \<noteq> sf_enabled initial \<or> cadence \<noteq> sf_cadence initial \<or>
        clampKeep k (sf_keep initial) \<noteq> sf_keep initial)"

definition KIND_KEYS :: "(string \<times> string) list" where
  "KIND_KEYS =
     [(''manual'', ''kindManual''), (''scheduled'', ''kindScheduled''), (''auto'', ''kindAuto''),
      (''pre-restore'', ''kindPreRestore'')]"

definition kindLabel :: "string \<Rightarrow> tfun \<Rightarrow> string" where
  "kindLabel kind t = (case map_of KIND_KEYS kind of
      Some key \<Rightarrow> t key []
    | None \<Rightarrow> if kind \<noteq> [] then kind else EMPTY)"

definition kindTone :: "string \<Rightarrow> backup_tone" where
  "kindTone kind =
     (if kind = ''manual'' then TonePrimary
      else if kind = ''pre-restore'' then ToneWarn
      else ToneNeutral)"

definition listMeta :: "backup_entry list \<Rightarrow> tfun \<Rightarrow> (int \<Rightarrow> string) \<Rightarrow> (int \<Rightarrow> string) \<Rightarrow> string" where
  "listMeta rows t formatNumber formatBytes =
     (let total = sum_list (map bk_size rows)
      in t ''list.meta''
           [(''count'', TNum (int (length rows))), (''n'', TStr (formatNumber (int (length rows)))),
            (''size'', TStr (formatBytes total))])"

definition noteText :: "backup_entry \<Rightarrow> tfun \<Rightarrow> (string \<Rightarrow> string) \<Rightarrow> string" where
  "noteText e t hide =
     (let note = trim (case bk_note e of None \<Rightarrow> [] | Some n \<Rightarrow> n);
          plain = (if hide note \<noteq> [] then hide note else EMPTY)
      in if note = [] then EMPTY
         else if bk_kind e = ''pre-restore'' \<and> startsWith note UPLOAD_PREFIX then
           t ''noteBeforeUpload'' [(''name'', TStr (hide (drop (length UPLOAD_PREFIX) note)))]
         else if bk_kind e = ''pre-restore'' \<and> startsWith note RESTORE_PREFIX then
           t ''noteBeforeRestore'' [(''id'', TStr (hide (drop (length RESTORE_PREFIX) note)))]
         else if bk_kind e = ''scheduled'' then
           (case SCHEDULED_NOTE note of
              Some cadence \<Rightarrow> t ''noteScheduled'' [(''cadence'', TStr (t cadence []))]
            | None \<Rightarrow> plain)
         else plain)"

definition accountsCell ::
  "backup_entry \<Rightarrow> tfun \<Rightarrow> (int \<Rightarrow> string) \<Rightarrow> string \<times> string option" where
  "accountsCell e t formatNumber =
     (case (bk_kind e = ''pre-restore'', bk_restoredAccountCnt e) of
        (True, Some restored) \<Rightarrow>
          (let saved = (case bk_accountCnt e of None \<Rightarrow> 0 | Some n \<Rightarrow> n)
           in (t ''restoredAccountCount''
                 [(''count'', TNum restored), (''n'', TStr (formatNumber restored))],
               Some (t ''preRestoreSavedHint''
                 [(''count'', TNum saved), (''n'', TStr (formatNumber saved))])))
      | _ \<Rightarrow> (case bk_accountCnt e of
            None \<Rightarrow> (EMPTY, None)
          | Some n \<Rightarrow> (formatNumber n, None)))"

text \<open>
  The patterns of \<open>NOT_A_BACKUP\<close>, all case-insensitive: a whole message, a prefix that ends at a
  word boundary, and \<open>credential \d+ missing id\<close>.
\<close>

definition is_word :: "char \<Rightarrow> bool" where
  "is_word c \<longleftrightarrow> is_digit c \<or> is_lower_az c \<or> is_upper_az c \<or> c = CHR ''_''"

definition whole_message :: "string \<Rightarrow> string \<Rightarrow> bool" where
  "whole_message p msg \<longleftrightarrow> toLowerCase msg = p"

definition prefix_word :: "string \<Rightarrow> string \<Rightarrow> bool" where
  "prefix_word p msg \<longleftrightarrow> startsWith (toLowerCase msg) p \<and>
     (drop (length p) msg = [] \<or> \<not> is_word (hd (drop (length p) msg)))"

definition credential_missing :: "string \<Rightarrow> bool" where
  "credential_missing msg =
     (let low = toLowerCase msg; rest = drop (length ''credential '') low; n = takeWhile is_digit rest
      in startsWith low ''credential '' \<and> n \<noteq> [] \<and> dropWhile is_digit rest = '' missing id'')"

definition isNotABackupMessage :: "string \<Rightarrow> bool" where
  "isNotABackupMessage message =
     (let msg = trim message
      in whole_message ''backup content is not valid json'' msg \<or>
         prefix_word ''backup json parse failed'' msg \<or>
         prefix_word ''unsupported backup format'' msg \<or>
         prefix_word ''backup envelope parse failed'' msg \<or>
         prefix_word ''unsupported backup version'' msg \<or>
         prefix_word ''backup schema mismatch'' msg \<or>
         credential_missing msg)"

definition MARKER :: char where
  "MARKER = CHR 0x00"

definition messageParts ::
  "tfun \<Rightarrow> string \<Rightarrow> string \<Rightarrow> (string \<times> tparam) list \<Rightarrow> string \<times> string" where
  "messageParts t key name params =
     (case split_char MARKER (t key (filter (\<lambda>(k, _). k \<noteq> name) params @ [(name, TStr [MARKER])])) of
        [] \<Rightarrow> ([], [])
      | [before] \<Rightarrow> (before, [])
      | before # after # _ \<Rightarrow> (before, after))"

subsection \<open>The schedule on the server\<close>

definition BACKUP_FORMAT :: string where
  "BACKUP_FORMAT = ''kiro-proxy-backup''"

definition BODY_LIMIT :: int where
  "BODY_LIMIT = 32 * 1024 * 1024"

definition TICK_SECONDS :: int where
  "TICK_SECONDS = 300"

definition INTERVAL_SECONDS :: "(string \<times> int) list" where
  "INTERVAL_SECONDS = [(''hourly'', 3600), (''daily'', 86400), (''weekly'', 604800)]"

definition set_count :: "int option \<Rightarrow> int option" where
  "set_count v = (case v of Some n \<Rightarrow> if n \<noteq> 0 then Some n else None | None \<Rightarrow> None)"

definition nextRun :: "backup_schedule \<Rightarrow> int \<Rightarrow> int option" where
  "nextRun s now =
     (if sch_enabled s \<noteq> Some True then None
      else case sch_cadence s of
        None \<Rightarrow> None
      | Some c \<Rightarrow> (case map_of INTERVAL_SECONDS c of
            None \<Rightarrow> None
          | Some interval \<Rightarrow>
              (let due = (case set_count (sch_lastRun s) of
                     Some prev \<Rightarrow> max (prev + interval) now
                   | None \<Rightarrow> now)
               in Some (js_ceil_div due TICK_SECONDS * TICK_SECONDS))))"

definition wireSchedule :: "backup_schedule \<Rightarrow> int \<Rightarrow> backup_schedule" where
  "wireSchedule s now =
     \<lparr>sch_enabled = (if sch_enabled s = Some True then Some True else None),
      sch_cadence = (case sch_cadence s of Some c \<Rightarrow> if c \<noteq> [] then Some c else None | None \<Rightarrow> None),
      sch_keep = Some (case set_count (sch_keep s) of Some k \<Rightarrow> k | None \<Rightarrow> KEEP_DEFAULT),
      sch_lastRun = set_count (sch_lastRun s),
      sch_nextRun = set_count (nextRun s now)\<rparr>"

subsection \<open>The list on the server\<close>

text \<open>Two rows of one id never compare as equal in the code; the list never holds such rows.\<close>

definition backup_cmp :: "backup_entry \<Rightarrow> backup_entry \<Rightarrow> int" where
  "backup_cmp a b =
     (let order = bk_createdAt b - bk_createdAt a
      in if order \<noteq> 0 then order else if textCompare (bk_id a) (bk_id b) < 0 then 1 else -1)"

definition sortBackups :: "backup_entry list \<Rightarrow> backup_entry list" where
  "sortBackups rows = sort_cmp backup_cmp rows"

text \<open>\<open>rows.filter((row) => !drop.has(row.id))\<close> and \<open>drop.size\<close> of a set of ids.\<close>

definition pruneScheduled :: "int \<Rightarrow> backup_entry list \<Rightarrow> backup_entry list \<times> nat" where
  "pruneScheduled keep rows =
     (let scheduled = sortBackups (filter (\<lambda>r. bk_kind r = ''scheduled'') rows);
          dropped = remdups (map bk_id (drop (nat keep) scheduled))
      in (filter (\<lambda>r. bk_id r \<notin> set dropped) rows, length dropped))"

definition findBackup :: "mock_db \<Rightarrow> string \<Rightarrow> backup_entry option" where
  "findBackup db i = find_by bk_id (db_backups db) i"

record backup_draw =
  draw_id :: string
  draw_size :: int
  draw_sha256 :: string

definition makeBackupEntry ::
  "backup_draw \<Rightarrow> int \<Rightarrow> string \<Rightarrow> string option \<Rightarrow> int option \<Rightarrow> int option \<Rightarrow> backup_entry" where
  "makeBackupEntry d createdAt kind note accountCnt restored =
     \<lparr>bk_id = draw_id d, bk_createdAt = createdAt, bk_kind = kind, bk_note = note,
      bk_file = draw_id d @ ''.json'', bk_size = draw_size d, bk_sha256 = draw_sha256 d,
      bk_accountCnt = accountCnt, bk_restoredAccountCnt = restored, bk_version = Some ''2.1.0'',
      bk_format = Some BACKUP_FORMAT, bk_includesCredentials = Some True\<rparr>"

definition addBackup ::
  "backup_draw \<Rightarrow> int \<Rightarrow> string \<Rightarrow> string option \<Rightarrow> int option \<Rightarrow> mock_db \<Rightarrow> backup_entry \<times> mock_db" where
  "addBackup d now kind note restored db =
     (let n = int (length (db_accounts db));
          backup = makeBackupEntry d now kind note (if n \<noteq> 0 then Some n else None) restored
      in (backup, db\<lparr>db_backups := sortBackups (backup # db_backups db)\<rparr>))"

definition notFound :: "string \<Rightarrow> mock_db \<Rightarrow> 'a reply \<times> mock_db \<times> event list" where
  "notFound i db = refuse 404 (''backup not found: '' @ i) (Some ''backup_not_found'') db"

definition parseBackup :: "json option \<Rightarrow> (string \<times> string) + nat" where
  "parseBackup parsed = (case parsed of
      None \<Rightarrow> Inl (''backup content is not valid JSON'', ''backup_invalid_json'')
    | Some v \<Rightarrow> (case as_record v of
          None \<Rightarrow> Inl (''unsupported backup format: expected '' @ BACKUP_FORMAT, ''backup_unsupported_format'')
        | Some d \<Rightarrow>
            if own d ''format'' \<noteq> JStr BACKUP_FORMAT then
              Inl (''unsupported backup format: expected '' @ BACKUP_FORMAT, ''backup_unsupported_format'')
            else if own d ''version'' \<noteq> jint 1 then
              Inl (''unsupported backup version: '' @ js_text (own d ''version''),
                   ''backup_unsupported_version'')
            else (case as_record (own d ''config'') of
                None \<Rightarrow> Inl (''backup schema mismatch: missing password'', ''backup_schema_mismatch'')
              | Some config \<Rightarrow>
                  if \<not> truthy (own config ''password'') then
                    Inl (''backup schema mismatch: missing password'', ''backup_schema_mismatch'')
                  else Inr (case own d ''credentials'' of
                      JArr cs \<Rightarrow> length cs
                    | _ \<Rightarrow> (case own config ''accounts'' of JArr as \<Rightarrow> length as | _ \<Rightarrow> 0)))))"

definition restoreFrom :: "backup_draw \<Rightarrow> int \<Rightarrow> string \<Rightarrow> int \<Rightarrow> mock_db \<Rightarrow> mock_db" where
  "restoreFrom d now note restored db =
     claimMockPassword None (snd (addBackup d now ''pre-restore'' (Some note) (Some restored) db))"

subsection \<open>Handlers\<close>

definition get_schedule ::
  "string \<Rightarrow> int \<Rightarrow> mock_db \<Rightarrow> backup_schedule reply \<times> mock_db \<times> event list" where
  "get_schedule token now =
     guarded token (\<lambda>db. (Inr (wireSchedule (db_schedule db) now), db, []))"

definition valid_keep :: "json \<Rightarrow> int option \<Rightarrow> int option" where
  "valid_keep keep stored = (case as_int keep of
      None \<Rightarrow> None
    | Some k \<Rightarrow>
        (let legacyKeep = (k > KEEP_MAX \<and> stored = Some k)
         in if (k < KEEP_MIN \<or> k > KEEP_MAX) \<and> \<not> legacyKeep then None else Some k))"

definition post_schedule ::
  "string \<Rightarrow> int \<Rightarrow> json option \<Rightarrow> mock_db \<Rightarrow> backup_schedule reply \<times> mock_db \<times> event list" where
  "post_schedule token now body = guarded token (\<lambda>db.
     (case Option.bind body as_record of
        None \<Rightarrow> refuse 400 ''Invalid JSON'' None db
      | Some update \<Rightarrow>
          (case as_string (own update ''cadence'') of
             None \<Rightarrow> refuse 400 ''cadence must be hourly, daily or weekly'' (Some ''invalid_cadence'') db
           | Some cadence \<Rightarrow>
               if map_of INTERVAL_SECONDS cadence = None then
                 refuse 400 ''cadence must be hourly, daily or weekly'' (Some ''invalid_cadence'') db
               else (case valid_keep (own update ''keep'') (sch_keep (db_schedule db)) of
                   None \<Rightarrow> refuse 400 ''keep must be between 1 and 200'' (Some ''invalid_keep'') db
                 | Some keep \<Rightarrow>
                     (let enabled = truthy (own update ''enabled'');
                          saved = db\<lparr>db_schedule :=
                            \<lparr>sch_enabled = Some enabled, sch_cadence = Some cadence, sch_keep = Some keep,
                             sch_lastRun = sch_lastRun (db_schedule db), sch_nextRun = None\<rparr>\<rparr>;
                          (rows, gone) = (if enabled then pruneScheduled keep (db_backups saved)
                                          else (db_backups saved, 0));
                          pruned = saved\<lparr>db_backups := rows\<rparr>
                      in (Inr (wireSchedule (db_schedule pruned) now), pruned,
                          if gone > 0 then [(Backup_deleted, ''*'')] else []))))))"

datatype restore_body =
    RawBody "json option"
  | BrokenMultipart
  | NoFile
  | UploadedFile string int "json option"

definition post_restore ::
  "string \<Rightarrow> backup_draw \<Rightarrow> int \<Rightarrow> restore_body \<Rightarrow> mock_db \<Rightarrow> unit reply \<times> mock_db \<times> event list" where
  "post_restore token d now body = guarded token (\<lambda>db.
     (let run = (\<lambda>note parsed. (case parseBackup parsed of
            Inl (msg, ecode) \<Rightarrow> refuse 400 msg (Some ecode) db
          | Inr accounts \<Rightarrow>
              (Inr (), restoreFrom d now note (int accounts) db, [(Backup_restored, ''upload'')])))
      in case body of
           BrokenMultipart \<Rightarrow> refuse 400 ''Failed to parse multipart'' None db
         | NoFile \<Rightarrow> refuse 400 ''No file uploaded'' None db
         | UploadedFile name bytes parsed \<Rightarrow>
             if bytes > BODY_LIMIT then refuse 413 ''request body exceeds 32 MiB limit'' None db
             else run (''upload '' @ name) parsed
         | RawBody parsed \<Rightarrow> run ''upload uploaded'' parsed))"

definition get_backups ::
  "string \<Rightarrow> bool \<Rightarrow> mock_db \<Rightarrow> backup_entry list option reply \<times> mock_db \<times> event list" where
  "get_backups token autoInclude = guarded token (\<lambda>db.
     (let rows = filter (\<lambda>r. autoInclude \<or> bk_kind r \<noteq> ''auto'') (sortBackups (db_backups db))
      in (Inr (if rows = [] then None else Some rows), db, [])))"

definition text_or :: "json \<Rightarrow> string option" where
  "text_or v = (case as_string v of Some s \<Rightarrow> if s \<noteq> [] then Some s else None | None \<Rightarrow> None)"

definition post_backups ::
  "string \<Rightarrow> backup_draw \<Rightarrow> int \<Rightarrow> json option \<Rightarrow> mock_db \<Rightarrow> backup_entry reply \<times> mock_db \<times> event list" where
  "post_backups token d now body = guarded token (\<lambda>db.
     (case Option.bind body as_record of
        None \<Rightarrow> refuse 400 ''Invalid JSON'' None db
      | Some obj \<Rightarrow>
          (let (backup, db') = addBackup d now
                 (case text_or (own obj ''kind'') of Some k \<Rightarrow> k | None \<Rightarrow> ''manual'')
                 (text_or (own obj ''note'')) None db
           in (Inr backup, db', [(Backup_created, bk_id backup)]))))"

definition restore_backup ::
  "string \<Rightarrow> backup_draw \<Rightarrow> int \<Rightarrow> string \<Rightarrow> mock_db \<Rightarrow> unit reply \<times> mock_db \<times> event list" where
  "restore_backup token d now i = guarded token (\<lambda>db.
     (case findBackup db i of
        None \<Rightarrow> notFound i db
      | Some backup \<Rightarrow>
          (Inr (), restoreFrom d now (''auto before restore '' @ i)
             (case bk_accountCnt backup of None \<Rightarrow> 0 | Some n \<Rightarrow> n) db,
           [(Backup_restored, i)])))"

definition delete_backup ::
  "string \<Rightarrow> string \<Rightarrow> mock_db \<Rightarrow> unit reply \<times> mock_db \<times> event list" where
  "delete_backup token i = guarded token (\<lambda>db.
     (case findBackup db i of
        None \<Rightarrow> notFound i db
      | Some _ \<Rightarrow>
          (Inr (), db\<lparr>db_backups := remove_by bk_id i (db_backups db)\<rparr>, [(Backup_deleted, i)])))"

subsection \<open>Lemmas\<close>

text \<open>The list's order as a proper comparator: newest first, then by id, descending.\<close>

definition backup_order :: "backup_entry \<Rightarrow> backup_entry \<Rightarrow> int" where
  "backup_order a b =
     (if bk_createdAt a \<noteq> bk_createdAt b then bk_createdAt b - bk_createdAt a
      else textCompare (bk_id b) (bk_id a))"

interpretation backup_list: comparator backup_order "\<lambda>_. True"
proof unfold_locales
  fix a b show "(0 < backup_order a b) = (backup_order b a < 0)"
    using textCompare_flip [of "bk_id a" "bk_id b"] by (auto simp: backup_order_def)
next
  fix a b c assume "backup_order a b \<le> 0" "backup_order b c \<le> 0"
  then show "backup_order a c \<le> 0"
    using textCompare_trans [of "bk_id c" "bk_id b" "bk_id a"]
    by (auto simp: backup_order_def split: if_splits)
qed

lemma backup_cmp_order: "backup_cmp a b \<le> 0 \<longleftrightarrow> backup_order a b \<le> 0"
proof -
  have "textCompare (bk_id b) (bk_id a) \<le> 0 \<longleftrightarrow> \<not> textCompare (bk_id a) (bk_id b) < 0"
    using textCompare_flip [of "bk_id b" "bk_id a"] by linarith
  then show ?thesis by (auto simp: backup_cmp_def backup_order_def Let_def)
qed

lemma sortBackups_order: "sortBackups rows = sort_cmp backup_order rows"
  unfolding sortBackups_def by (rule sort_cmp_agree) (simp add: backup_cmp_order sorted_wrt_iff_nth_less)

definition newest_first :: "backup_entry list \<Rightarrow> bool" where
  "newest_first rows \<longleftrightarrow> sorted_wrt (\<lambda>a b. backup_order a b \<le> 0) rows"

definition backups_ok :: "mock_db \<Rightarrow> bool" where
  "backups_ok db \<longleftrightarrow> distinct (map bk_id (db_backups db)) \<and> newest_first (db_backups db)"

lemma newest_sortBackups [simp]: "newest_first (sortBackups rows)"
  unfolding newest_first_def sortBackups_order by (rule backup_list.sorted_sort_cmp) (simp add: list_all_iff)

lemma sortBackups_fixed: "newest_first rows \<Longrightarrow> sortBackups rows = rows"
  unfolding newest_first_def sortBackups_order by (rule backup_list.sort_cmp_sorted)

lemma mset_sortBackups [simp]: "mset (sortBackups rows) = mset rows"
  by (simp add: sortBackups_def)

lemma set_sortBackups [simp]: "set (sortBackups rows) = set rows"
  by (simp add: sortBackups_def)

lemma distinct_sortBackups [simp]: "distinct (map f (sortBackups rows)) = distinct (map f rows)"
  by (simp add: sortBackups_def)

lemma newest_filter: "newest_first rows \<Longrightarrow> newest_first (filter P rows)"
  by (simp add: newest_first_def sorted_wrt_filter)

interpretation backup_table: row_table findBackup
  "\<lambda>i db. db\<lparr>db_backups := remove_by bk_id i (db_backups db)\<rparr>"
  "\<lambda>i f db. db\<lparr>db_backups := modify_by bk_id i f (db_backups db)\<rparr>"
  "\<lambda>f. \<forall>r. bk_id (f r) = bk_id r"
  by unfold_locales (simp_all add: findBackup_def find_remove_by find_modify_by)

text \<open>Pruning, in terms of the sorted scheduled backups.\<close>

lemma prune_split:
  assumes "distinct (map bk_id rows)"
  defines "s \<equiv> sortBackups (filter (\<lambda>r. bk_kind r = ''scheduled'') rows)"
  shows "r \<in> set (fst (pruneScheduled keep rows)) \<longleftrightarrow>
      r \<in> set rows \<and> (bk_kind r = ''scheduled'' \<longrightarrow> r \<in> set (take (nat keep) s))"
    and "snd (pruneScheduled keep rows) = length (drop (nat keep) s)"
proof -
  have inj: "inj_on bk_id (set rows)" using assms(1) by (simp add: distinct_map)
  have S: "set s = {r \<in> set rows. bk_kind r = ''scheduled''}" by (auto simp: s_def)
  have "distinct (map bk_id s)"
    using assms(1) by (simp add: s_def distinct_map_filter)
  then have dist: "distinct (map bk_id (take (nat keep) s @ drop (nat keep) s))" by simp
  then have disj: "set (take (nat keep) s) \<inter> set (drop (nat keep) s) = {}"
    by (metis distinct_append distinct_map)
  have split: "set s = set (take (nat keep) s) \<union> set (drop (nat keep) s)"
    by (metis append_take_drop_id set_append)
  have D: "bk_id r \<in> bk_id ` set (drop (nat keep) s) \<longleftrightarrow> r \<in> set (drop (nat keep) s)" if "r \<in> set rows"
    using inj_on_image_mem_iff [OF inj that, of "set (drop (nat keep) s)"] S split by blast
  show "r \<in> set (fst (pruneScheduled keep rows)) \<longleftrightarrow>
      r \<in> set rows \<and> (bk_kind r = ''scheduled'' \<longrightarrow> r \<in> set (take (nat keep) s))"
    using D S split disj by (auto simp: pruneScheduled_def Let_def simp flip: s_def)
  have "distinct (map bk_id (drop (nat keep) s))" using dist by (metis distinct_append map_append)
  then show "snd (pruneScheduled keep rows) = length (drop (nat keep) s)"
    by (simp add: pruneScheduled_def Let_def distinct_remdups_id drop_map flip: s_def)
qed

lemma pruned_filter: "fst (pruneScheduled keep rows) =
    filter (\<lambda>r. bk_id r \<notin> bk_id ` set (drop (nat keep)
      (sortBackups (filter (\<lambda>r. bk_kind r = ''scheduled'') rows)))) rows"
  by (simp add: pruneScheduled_def Let_def)

lemma trim_prefix:
  assumes "p \<noteq> []" "\<not> is_space (hd p)" "\<not> is_space (last p)"
  shows "\<exists>r. trim (p @ q) = p @ r"
proof -
  have "dropWhile is_space (p @ q) = p @ q" using assms(1,2) by (cases p) auto
  moreover have "dropWhile is_space (rev p) = rev p"
    using assms(1,3) by (cases p rule: rev_cases) auto
  ultimately have "trim (p @ q) = p @ (if \<forall>c\<in>set q. is_space c then [] else rev (dropWhile is_space (rev q)))"
    by (auto simp: trim_def dropWhile_append)
  then show ?thesis ..
qed

definition cadence_text :: "backup_cadence \<Rightarrow> string" where
  "cadence_text c = (case c of Hourly \<Rightarrow> ''hourly'' | Daily \<Rightarrow> ''daily'' | Weekly \<Rightarrow> ''weekly'')"

lemma cadence_tables [simp]:
  "map_of CADENCES (cadence_text c) = Some c" "map_of INTERVAL_SECONDS (cadence_text c) \<noteq> None"
  "cadence_text c \<noteq> []"
  by (cases c; simp add: cadence_text_def CADENCES_def INTERVAL_SECONDS_def)+

lemma clampKeep_range: "clampKeep v stored = stored \<or> (1 \<le> clampKeep v stored \<and> clampKeep v stored \<le> 200)"
  by (auto simp: clampKeep_def Let_def KEEP_MIN_def KEEP_MAX_def split: jnum.split)

lemma clampKeep_fixed [simp]: "clampKeep (Fin (of_int stored)) stored = stored"
  by (simp add: clampKeep_def)

lemma post_schedule_accepts:
  assumes "own obj ''enabled'' = JBool enabled" "own obj ''cadence'' = JStr cadence"
    "map_of INTERVAL_SECONDS cadence \<noteq> None"
    "valid_keep (own obj ''keep'') (sch_keep (db_schedule db)) = Some keep"
  shows "fst (post_schedule (''mock-'' @ token) now (Some (JObj obj)) db) =
    Inr (wireSchedule \<lparr>sch_enabled = Some enabled, sch_cadence = Some cadence, sch_keep = Some keep,
      sch_lastRun = sch_lastRun (db_schedule db), sch_nextRun = None\<rparr> now)"
  using assms(3) by (simp add: post_schedule_def guarded_ok assms(1,2,4) Let_def split: prod.split)

lemma form_of_saved:
  "0 < keep \<Longrightarrow> scheduleForm (wireSchedule \<lparr>sch_enabled = Some enabled,
      sch_cadence = Some (cadence_text cadence), sch_keep = Some keep, sch_lastRun = l,
      sch_nextRun = n\<rparr> now) = \<lparr>sf_enabled = enabled, sf_cadence = cadence, sf_keep = keep\<rparr>"
  by (simp add: scheduleForm_def wireSchedule_def set_count_def)

subsection \<open>Properties\<close>

text \<open>What the page saves, the server takes: for any stored schedule (a legacy keep above 200
  included) and anything typed into the Keep field, not a number too, the form built from the
  server's answer sends a schedule the server accepts, the answer shows exactly what was sent, and
  the form is clean again.\<close>

theorem saved_schedule_accepted:
  fixes db :: mock_db and now :: int and typed :: jnum and enabled :: bool and cadence :: backup_cadence
  shows "let keep = clampKeep typed (sf_keep (scheduleForm (wireSchedule (db_schedule db) now)));
      reply = fst (post_schedule (''mock-'' @ token) now
        (Some (JObj [(''enabled'', JBool enabled), (''cadence'', JStr (cadence_text cadence)),
                     (''keep'', jint keep)])) db)
    in (case reply of
        Inl _ \<Rightarrow> False
      | Inr s \<Rightarrow> scheduleForm s = \<lparr>sf_enabled = enabled, sf_cadence = cadence, sf_keep = keep\<rparr> \<and>
          \<not> scheduleDirty (scheduleForm s) enabled cadence (Some (Fin (of_int keep))))"
proof -
  let ?stored = "sf_keep (scheduleForm (wireSchedule (db_schedule db) now))"
  let ?keep = "clampKeep typed ?stored"
  have stored: "?stored > 0 \<and> (?stored > 200 \<longrightarrow> sch_keep (db_schedule db) = Some ?stored)"
    by (auto simp: scheduleForm_def wireSchedule_def set_count_def KEEP_DEFAULT_def split: option.splits)
  then have keep: "?keep > 0" "?keep > 200 \<longrightarrow> sch_keep (db_schedule db) = Some ?keep"
    using clampKeep_range [of typed ?stored] by auto
  then have valid: "valid_keep (jint ?keep) (sch_keep (db_schedule db)) = Some ?keep"
    by (auto simp: valid_keep_def jint_def KEEP_MIN_def KEEP_MAX_def Let_def)
  have "fst (post_schedule (''mock-'' @ token) now
        (Some (JObj [(''enabled'', JBool enabled), (''cadence'', JStr (cadence_text cadence)),
                     (''keep'', jint ?keep)])) db) =
      Inr (wireSchedule \<lparr>sch_enabled = Some enabled, sch_cadence = Some (cadence_text cadence),
        sch_keep = Some ?keep, sch_lastRun = sch_lastRun (db_schedule db), sch_nextRun = None\<rparr> now)"
    by (rule post_schedule_accepts) (use valid in simp_all)
  moreover note form_of_saved [OF keep(1), of enabled cadence "sch_lastRun (db_schedule db)" None now]
  ultimately show ?thesis
    by (simp add: Let_def scheduleDirty_def)
qed

text \<open>The next automatic backup is due on a scheduler tick: while the schedule is on, \<open>nextRun\<close> is a
  multiple of five minutes, not in the past, not before one interval after the last run, and less
  than one tick later than that.\<close>

theorem next_run_on_tick:
  shows "case nextRun s now of
      None \<Rightarrow> sch_enabled s \<noteq> Some True \<or> sch_cadence s = None \<or>
        map_of INTERVAL_SECONDS (the (sch_cadence s)) = None
    | Some t \<Rightarrow>
        (let interval = the (map_of INTERVAL_SECONDS (the (sch_cadence s)));
             due = (case set_count (sch_lastRun s) of None \<Rightarrow> now | Some l \<Rightarrow> max (l + interval) now)
         in 300 dvd t \<and> now \<le> t \<and> due \<le> t \<and> t < due + 300)"
proof -
  have tick: "300 dvd js_ceil_div a 300 * 300 \<and> a \<le> js_ceil_div a 300 * 300 \<and> js_ceil_div a 300 * 300 < a + 300" for a
    using js_ceil_div_bounds [of 300 a] by (simp add: mult.commute)
  show ?thesis
    using tick [of now] tick [of "max _ now"]
    by (auto simp: nextRun_def Let_def TICK_SECONDS_def split: option.splits)
qed

text \<open>C19: Pruning keeps the newest \<open>keep\<close> scheduled backups and nothing else is touched: backups of
  other kinds stay, the dropped ones are all scheduled and no newer than any scheduled one kept,
  and the count answered is the number of rows gone.\<close>

theorem prune_keeps_newest:
  assumes "distinct (map bk_id rows)"
  shows "filter (\<lambda>r. bk_kind r \<noteq> ''scheduled'') (fst (pruneScheduled keep rows)) =
      filter (\<lambda>r. bk_kind r \<noteq> ''scheduled'') rows \<and>
    length (filter (\<lambda>r. bk_kind r = ''scheduled'') (fst (pruneScheduled keep rows))) =
      min (nat keep) (length (filter (\<lambda>r. bk_kind r = ''scheduled'') rows)) \<and>
    snd (pruneScheduled keep rows) = length rows - length (fst (pruneScheduled keep rows)) \<and>
    (\<forall>gone\<in>set rows - set (fst (pruneScheduled keep rows)).
      bk_kind gone = ''scheduled'' \<and>
      (\<forall>r\<in>set (fst (pruneScheduled keep rows)). bk_kind r = ''scheduled'' \<longrightarrow>
        backup_order r gone \<le> 0))"
proof -
  let ?sched = "\<lambda>r. bk_kind r = ''scheduled''"
  let ?kept = "fst (pruneScheduled keep rows)"
  let ?s = "sortBackups (filter ?sched rows)"
  note split = prune_split [OF assms, where keep = keep]
  obtain P where P: "?kept = filter P rows" using pruned_filter by blast
  have "filter (\<lambda>r. \<not> ?sched r) ?kept = filter (\<lambda>r. \<not> ?sched r) rows"
    using split(1) unfolding P by (auto intro!: filter_cong)
  moreover have len: "length (filter ?sched ?kept) = min (nat keep) (length (filter ?sched rows))"
  proof -
    have d: "distinct rows" using assms by (simp add: distinct_map)
    have ss: "set ?s = {r \<in> set rows. ?sched r}" by auto
    have "set (filter ?sched ?kept) = set (take (nat keep) ?s)"
      using split(1) ss set_take_subset [of "nat keep" ?s] by auto
    moreover have "distinct (filter ?sched ?kept)" unfolding P using d by simp
    moreover have "distinct ?s" using d by (metis mset_eq_imp_distinct_iff mset_sortBackups distinct_filter)
    ultimately have "length (filter ?sched ?kept) = length (take (nat keep) ?s)"
      using distinct_card [of "filter ?sched ?kept"] distinct_card [of "take (nat keep) ?s"]
      by (simp only: distinct_take)
    then show ?thesis by (simp add: sortBackups_def)
  qed
  moreover have "snd (pruneScheduled keep rows) = length rows - length ?kept"
  proof -
    have "length ?kept = length (filter ?sched ?kept) + length (filter (\<lambda>r. \<not> ?sched r) ?kept)"
      "length rows = length (filter ?sched rows) + length (filter (\<lambda>r. \<not> ?sched r) rows)"
      by (simp_all add: sum_length_filter_compl)
    moreover have "length (filter (\<lambda>r. \<not> ?sched r) ?kept) = length (filter (\<lambda>r. \<not> ?sched r) rows)"
      using calculation(1) \<open>filter (\<lambda>r. \<not> ?sched r) ?kept = filter (\<lambda>r. \<not> ?sched r) rows\<close> by simp
    ultimately show ?thesis using len split(2) by (simp add: sortBackups_def min_def)
  qed
  moreover have "?sched gone \<and> (\<forall>r\<in>set ?kept. ?sched r \<longrightarrow> backup_order r gone \<le> 0)"
    if gone: "gone \<in> set rows - set ?kept" for gone
  proof -
    from gone split(1) have g: "?sched gone" "gone \<notin> set (take (nat keep) ?s)" by auto
    with gone have "gone \<in> set ?s" by auto
    with g(2) have "gone \<in> set (drop (nat keep) ?s)" by (metis UnE append_take_drop_id set_append)
    moreover have "sorted_wrt (\<lambda>a b. backup_order a b \<le> 0) (take (nat keep) ?s @ drop (nat keep) ?s)"
      using newest_sortBackups by (simp add: newest_first_def)
    ultimately show ?thesis using g(1) split(1) unfolding sorted_wrt_append by blast
  qed
  ultimately show ?thesis by blast
qed

definition sample_backup :: "string \<Rightarrow> int \<Rightarrow> backup_entry" where
  "sample_backup i stamp =
     makeBackupEntry \<lparr>draw_id = i, draw_size = 1, draw_sha256 = []\<rparr> stamp ''scheduled'' None None None"

theorem prune_keeps_newest_witness:
  "length (filter (\<lambda>r. bk_kind r = ''scheduled'')
      (fst (pruneScheduled 1 [sample_backup ''a'' 5, sample_backup ''b'' 9]))) = 1"
  using prune_keeps_newest [of "[sample_backup ''a'' 5, sample_backup ''b'' 9]" 1]
  by (simp add: sample_backup_def makeBackupEntry_def)

text \<open>A refused backup request is inert: whichever backup endpoint answers an error (a missing
  session, bad JSON, an unknown id, an oversized or foreign file, an invalid schedule), the store is
  as before and no event goes out.\<close>

theorem backup_refusals_inert:
  shows "refusal_is_inert db (post_schedule token now body db) \<and>
    refusal_is_inert db (post_restore token d now upload db) \<and>
    refusal_is_inert db (post_backups token d now body db) \<and>
    refusal_is_inert db (restore_backup token d now i db) \<and>
    refusal_is_inert db (delete_backup token i db) \<and>
    refusal_is_inert db (get_backups token auto db) \<and>
    refusal_is_inert db (get_schedule token now db)"
  unfolding post_schedule_def post_restore_def post_backups_def restore_backup_def delete_backup_def
    get_backups_def get_schedule_def notFound_def Let_def
  by (intro conjI inert_guarded) (simp_all split: option.split prod.split restore_body.split sum.split)

text \<open>C18: The list of backups stays sorted newest first with distinct ids: every handler that changes it,
  a schedule save that prunes included, keeps it so when the new id is fresh.\<close>

theorem backups_stay_sorted:
  assumes "backups_ok db" and "draw_id d \<notin> bk_id ` set (db_backups db)"
  shows "backups_ok (fst (snd (post_schedule token now body db))) \<and>
    backups_ok (fst (snd (post_restore token d now upload db))) \<and>
    backups_ok (fst (snd (post_backups token d now body db))) \<and>
    backups_ok (fst (snd (restore_backup token d now i db))) \<and>
    backups_ok (fst (snd (delete_backup token i db)))"
proof -
  have add: "backups_ok (snd (addBackup d now kind memo restored db))" for kind memo restored
    using assms by (simp add: backups_ok_def addBackup_def Let_def makeBackupEntry_def)
  then have restore: "backups_ok (restoreFrom d now memo n db)" for memo n
    by (simp add: restoreFrom_def claimMockPassword_def backups_ok_def)
  have prune: "distinct (map bk_id (fst (pruneScheduled k (db_backups db)))) \<and>
      newest_first (fst (pruneScheduled k (db_backups db)))" for k
    using assms(1) unfolding pruned_filter backups_ok_def by (simp add: newest_filter distinct_map_filter)
  have del: "backups_ok (db\<lparr>db_backups := remove_by bk_id i (db_backups db)\<rparr>)"
    using assms(1) by (simp add: backups_ok_def remove_by_def newest_filter distinct_map_filter)
  have sched: "backups_ok (db\<lparr>db_schedule := s, db_backups := fst (pruneScheduled k (db_backups db))\<rparr>)"
    "backups_ok (db\<lparr>db_schedule := s\<rparr>)" for s k
    using prune [of k] assms(1) by (simp_all add: backups_ok_def)
  show ?thesis
  proof (intro conjI)
    show "backups_ok (fst (snd (post_schedule token now body db)))"
      unfolding post_schedule_def Let_def
      by (rule guarded_invariant [where I = backups_ok, OF assms(1)])
        (simp add: sched assms(1) split_beta split: option.split)
    show "backups_ok (fst (snd (post_restore token d now upload db)))"
      unfolding post_restore_def Let_def
      by (rule guarded_invariant [where I = backups_ok, OF assms(1)])
        (simp add: restore assms(1) split_beta split: restore_body.split sum.split)
    show "backups_ok (fst (snd (post_backups token d now body db)))"
      unfolding post_backups_def Let_def
      by (rule guarded_invariant [where I = backups_ok, OF assms(1)]) (simp add: add assms(1) split_beta split: option.split)
    show "backups_ok (fst (snd (restore_backup token d now i db)))"
      unfolding restore_backup_def notFound_def
      by (rule guarded_invariant [where I = backups_ok, OF assms(1)]) (simp add: restore assms(1) split: option.split)
    show "backups_ok (fst (snd (delete_backup token i db)))"
      unfolding delete_backup_def notFound_def
      by (rule guarded_invariant [where I = backups_ok, OF assms(1)]) (simp add: del assms(1) split: option.split)
  qed
qed

definition two_backups :: mock_db where
  "two_backups = sample_db\<lparr>db_backups := [sample_backup ''b'' 9, sample_backup ''a'' 5]\<rparr>"

theorem backups_stay_sorted_witness:
  "backups_ok two_backups \<and> backups_ok (fst (snd (post_backups ''mock-1'' \<lparr>draw_id = ''c'', draw_size = 1, draw_sha256 = []\<rparr> 7
     (Some (JObj [])) two_backups))) \<and>
   map bk_id (db_backups (fst (snd (post_backups ''mock-1'' \<lparr>draw_id = ''c'', draw_size = 1, draw_sha256 = []\<rparr> 7
     (Some (JObj [])) two_backups)))) = [''b'', ''c'', ''a'']"
proof -
  have ok: "backups_ok two_backups" "''c'' \<notin> bk_id ` set (db_backups two_backups)"
    unfolding backups_ok_def newest_first_def by code_simp+
  have "map bk_id (db_backups (fst (snd (post_backups ''mock-1'' \<lparr>draw_id = ''c'', draw_size = 1, draw_sha256 = []\<rparr> 7
     (Some (JObj [])) two_backups)))) = [''b'', ''c'', ''a'']" by code_simp
  then show ?thesis
    using ok(1) backups_stay_sorted [OF ok(1), of "\<lparr>draw_id = ''c'', draw_size = 1, draw_sha256 = []\<rparr>" "''mock-1''" 7
      "Some (JObj [])"] ok(2) by simp
qed

text \<open>Every reason the server gives for turning a backup file down is one the page recognises as
  \<open>not a backup\<close>, whatever the file holds.\<close>

theorem foreign_file_recognised:
  shows "case parseBackup parsed of Inl (msg, _) \<Rightarrow> isNotABackupMessage msg | Inr _ \<Rightarrow> True"
proof -
  have "isNotABackupMessage (''unsupported backup version: '' @ v)" for v
  proof -
    obtain r where "trim (''unsupported backup version:'' @ '' '' @ v) = ''unsupported backup version:'' @ r"
      using trim_prefix [of "''unsupported backup version:''" "'' '' @ v"] by (auto simp: is_space_def code_def)
    then have "trim (''unsupported backup version: '' @ v) = ''unsupported backup version:'' @ r" by simp
    then show ?thesis
      by (simp add: isNotABackupMessage_def Let_def prefix_word_def toLowerCase_def lower_char_def
          cased_upper_def code_def is_word_def is_digit_def is_lower_az_def is_upper_az_def)
  qed
  moreover have "isNotABackupMessage ''backup content is not valid JSON''"
    "isNotABackupMessage ''backup schema mismatch: missing password''"
    "isNotABackupMessage (''unsupported backup format: expected '' @ BACKUP_FORMAT)"
    by code_simp+
  ultimately show ?thesis
    unfolding parseBackup_def by (auto split: option.split)
qed

end
