(* ===== verification/Chart_Domains.thy ===== *)
theory Chart_Domains
  imports Js_Values
begin

text \<open>
  The value axes of the charts (src/ui/src/components/charts): the numeric extents of rows, the domains of
  lines, areas and bars with their padding (y-domain-utils.ts), series grouped by axis (y-axis-scales.ts,
  band-config.ts) and projections that extend a domain (projection-utils.ts, projection-config.ts).
  Numbers are exact rationals, so 1.1 and 0.05 are 11/10 and 1/20. d3's \<open>nice\<close> is a parameter.
\<close>

type_synonym data_row = "(string \<times> json) list"

type_synonym y_domain = "rat \<times> rat"

text \<open>\<open>typeof value === "number"\<close>; rows hold finite numbers.\<close>

fun as_finite_num :: "json \<Rightarrow> rat option" where
  "as_finite_num (JNum (Fin r)) = Some r"
| "as_finite_num _ = None"

text \<open>\<open>v ?? d\<close>\<close>

definition coalesce :: "'a option \<Rightarrow> 'a \<Rightarrow> 'a" where
  "coalesce v d = (case v of None \<Rightarrow> d | Some x \<Rightarrow> x)"

definition num_field :: "data_row \<Rightarrow> string \<Rightarrow> rat option" where
  "num_field d key = as_finite_num (own d key)"

subsection \<open>Extents\<close>

text \<open>The running minimum and maximum; \<open>None\<close> is the pair of infinities.\<close>

fun widen :: "(rat \<times> rat) option \<Rightarrow> rat \<Rightarrow> (rat \<times> rat) option" where
  "widen None v = Some (v, v)"
| "widen (Some (mn, mx)) v = Some (if v < mn then v else mn, if v > mx then v else mx)"

definition row_values :: "string list \<Rightarrow> data_row \<Rightarrow> rat list" where
  "row_values dataKeys d = List.map_filter (num_field d) dataKeys"

definition collectNumericExtents :: "data_row list \<Rightarrow> string list \<Rightarrow> rat \<times> rat" where
  "collectNumericExtents data dataKeys =
     (case foldl widen None (concat (map (row_values dataKeys) data)) of None \<Rightarrow> (0, 100) | Some e \<Rightarrow> e)"

text \<open>\<open>x || 1\<close> on a number.\<close>

definition or_one :: "rat \<Rightarrow> rat" where "or_one x = (if x = 0 then 1 else x)"

definition resolveTimeSeriesYDomain :: "data_row list \<Rightarrow> string list \<Rightarrow> rat option \<Rightarrow> y_domain" where
  "resolveTimeSeriesYDomain data dataKeys yScaleDomainMax =
     (if (case yScaleDomainMax of None \<Rightarrow> False | Some m \<Rightarrow> m > 0) then (0, the yScaleDomainMax * (11 / 10))
      else (let (mn, mx) = collectNumericExtents data dataKeys in
        if mn \<ge> 0 then (0, if mx \<le> 0 then 100 else mx * (11 / 10))
        else (let padding = or_one ((mx - mn) * (1 / 20)) in (mn - padding, mx + padding))))"

text \<open>Stacked bars: every running total counts.\<close>

definition stack_step :: "rat \<times> rat \<times> rat \<Rightarrow> rat \<Rightarrow> rat \<times> rat \<times> rat" where
  "stack_step s v = (case s of (t, mn, mx) \<Rightarrow> (t + v, min mn (t + v), max mx (t + v)))"

definition stack_row :: "string list \<Rightarrow> rat \<times> rat \<Rightarrow> data_row \<Rightarrow> rat \<times> rat" where
  "stack_row dataKeys e d = snd (foldl stack_step (0, e) (row_values dataKeys d))"

definition collectBarValueExtents :: "data_row list \<Rightarrow> string list \<Rightarrow> bool \<Rightarrow> rat \<times> rat" where
  "collectBarValueExtents data dataKeys stacked =
     (if \<not> stacked then collectNumericExtents data dataKeys else foldl (stack_row dataKeys) (0, 0) data)"

definition resolveBarValueDomain :: "rat \<times> rat \<Rightarrow> y_domain" where
  "resolveBarValueDomain e = (case e of (mn, mx) \<Rightarrow>
     if mn \<ge> 0 then (0, (if mx > 0 then mx else 100) * (11 / 10))
     else (let padding = or_one ((mx - mn) * (1 / 20)) in (min 0 (mn - padding), max 0 (mx + padding))))"

subsection \<open>Projections\<close>

definition projectionValueExtents :: "(int \<times> rat) list list \<Rightarrow> (rat \<times> rat) option" where
  "projectionValueExtents paths = foldl widen None (map snd (concat paths))"

definition projectionDateExtents :: "(int \<times> rat) list list \<Rightarrow> (rat \<times> rat) option" where
  "projectionDateExtents paths = foldl widen None (map (\<lambda>p. of_int (fst p)) (concat paths))"

type_synonym projection_config = "string \<times> (int \<times> rat) list"

definition mergeProjectionYDomain :: "y_domain \<Rightarrow> projection_config list \<Rightarrow> string \<Rightarrow> y_domain" where
  "mergeProjectionYDomain domain configs yAxisId =
     (case projectionValueExtents (map snd (filter (\<lambda>c. fst c = yAxisId) configs)) of
        None \<Rightarrow> domain
      | Some (lo, hi) \<Rightarrow>
          (let (mn, mx) = domain; nextMin = min mn lo; nextMax = max mx hi
           in if nextMin \<ge> 0 \<and> mn \<ge> 0 then (0, if nextMax \<le> 0 then 100 else nextMax * (11 / 10))
              else (let padding = or_one ((nextMax - nextMin) * (1 / 20)) in (nextMin - padding, nextMax + padding))))"

definition mergeProjectionXDomainMax :: "rat \<Rightarrow> projection_config list \<Rightarrow> rat" where
  "mergeProjectionXDomainMax maxTime configs =
     (case projectionDateExtents (map snd configs) of None \<Rightarrow> maxTime | Some (mn, mx) \<Rightarrow> max maxTime mx)"

subsection \<open>Axes\<close>

definition DEFAULT_Y_AXIS_ID :: string where "DEFAULT_Y_AXIS_ID = ''left''"

definition normalizeYAxisId :: "string option \<Rightarrow> string" where
  "normalizeYAxisId i = (case i of None \<Rightarrow> DEFAULT_Y_AXIS_ID | Some s \<Rightarrow> if s = [] then DEFAULT_Y_AXIS_ID else s)"

text \<open>A map in insertion order: the value of a key replaced in place, or a new key at the end.\<close>

fun put_key :: "string \<Rightarrow> 'v \<Rightarrow> (string \<times> 'v) list \<Rightarrow> (string \<times> 'v) list" where
  "put_key k v [] = [(k, v)]"
| "put_key k v ((j, w) # m) = (if j = k then (k, v) # m else (j, w) # put_key k v m)"

definition get_key :: "string \<Rightarrow> (string \<times> 'v list) list \<Rightarrow> 'v list" where
  "get_key k m = (case map_of m k of None \<Rightarrow> [] | Some v \<Rightarrow> v)"

text \<open>A line of a chart: its data key and its axis.\<close>

type_synonym line_config = "string \<times> string option"

definition groupLinesByYAxisId :: "line_config list \<Rightarrow> (string \<times> line_config list) list" where
  "groupLinesByYAxisId lines = foldl (\<lambda>groups line.
     let axisId = normalizeYAxisId (snd line) in put_key axisId (get_key axisId groups @ [line]) groups) [] lines"

record band_config =
  bd_yAxisId :: string
  bd_upperKey :: string
  bd_lowerKey :: string

definition bandKeysByAxis :: "band_config list \<Rightarrow> (string \<times> string list) list" where
  "bandKeysByAxis configs = foldl (\<lambda>byAxis config.
     let keys = get_key (bd_yAxisId config) byAxis;
         keys = (if bd_upperKey config \<in> set keys then keys else keys @ [bd_upperKey config]);
         keys = (if bd_lowerKey config \<in> set keys then keys else keys @ [bd_lowerKey config])
     in put_key (bd_yAxisId config) keys byAxis) [] configs"

definition add_extra_keys :: "(string \<times> string list) list \<Rightarrow> string \<times> string list \<Rightarrow> (string \<times> string list) list" where
  "add_extra_keys keysByAxis extra = (let axisId = normalizeYAxisId (Some (fst extra)); keys = get_key axisId keysByAxis
     in put_key axisId (keys @ filter (\<lambda>key. key \<notin> set keys) (snd extra)) keysByAxis)"

definition keys_by_axis :: "line_config list \<Rightarrow> (string \<times> string list) list \<Rightarrow> (string \<times> string list) list" where
  "keys_by_axis lines extraKeysByAxis = foldl add_extra_keys
     (foldl (\<lambda>m (axisId, ls). put_key (normalizeYAxisId (Some axisId)) (map fst ls) m) [] (groupLinesByYAxisId lines))
     extraKeysByAxis"

definition computeYDomainsByAxis ::
  "(y_domain \<Rightarrow> y_domain) \<Rightarrow> (string list \<Rightarrow> y_domain) \<Rightarrow> line_config list \<Rightarrow> (string \<times> string list) list \<Rightarrow>
    (string \<times> y_domain) list" where
  "computeYDomainsByAxis nice resolveDomain lines extraKeysByAxis =
     (let domains = foldl (\<lambda>m (axisId, dataKeys). put_key axisId (nice (resolveDomain dataKeys)) m) [] (keys_by_axis lines extraKeysByAxis)
      in if map_of domains DEFAULT_Y_AXIS_ID = None then put_key DEFAULT_Y_AXIS_ID (nice (0, 100)) domains else domains)"

definition Y_DOMAIN_TWEEN_SKIP_THRESHOLD :: rat where "Y_DOMAIN_TWEEN_SKIP_THRESHOLD = 2 / 100"

definition shouldTweenYDomain :: "y_domain \<Rightarrow> y_domain \<Rightarrow> bool" where
  "shouldTweenYDomain from_d to_d =
     (let span = max (max \<bar>snd to_d - fst to_d\<bar> \<bar>snd from_d - fst from_d\<bar>) 1
      in \<bar>fst to_d - fst from_d\<bar> / span \<ge> Y_DOMAIN_TWEEN_SKIP_THRESHOLD \<or>
         \<bar>snd to_d - snd from_d\<bar> / span \<ge> Y_DOMAIN_TWEEN_SKIP_THRESHOLD)"

definition domainsEqual :: "(string \<times> y_domain) list \<Rightarrow> (string \<times> y_domain) list \<Rightarrow> bool" where
  "domainsEqual l r \<longleftrightarrow> length l = length r \<and>
     list_all (\<lambda>(axisId, d). map_of r axisId = Some d) l"

subsection \<open>Lemmas\<close>

text \<open>What moves from one value to another stays between them.\<close>

lemma between_frames:
  fixes a b t :: rat
  assumes "0 \<le> t" "t \<le> 1"
  shows "min a b \<le> a + (b - a) * t \<and> a + (b - a) * t \<le> max a b"
proof (cases "a \<le> b")
  case True
  then have "0 \<le> (b - a) * t" "(b - a) * t \<le> (b - a) * 1" using assms by (simp, intro mult_left_mono) auto
  then show ?thesis using True by simp
next
  case False
  then have "0 \<le> (a - b) * t" "(a - b) * t \<le> (a - b) * 1" using assms by (simp, intro mult_left_mono) auto
  then show ?thesis using False by (simp add: algebra_simps)
qed

lemma widen_spec:
  "foldl widen None vs = None \<longleftrightarrow> vs = []"
  "foldl widen None vs = Some (mn, mx) \<Longrightarrow> mn \<le> mx \<and> (\<forall>v\<in>set vs. mn \<le> v \<and> v \<le> mx)"
proof -
  have both: "(foldl widen None vs = None \<longleftrightarrow> vs = []) \<and> (\<forall>mn mx. foldl widen None vs = Some (mn, mx) \<longrightarrow>
    mn \<le> mx \<and> (\<forall>v\<in>set vs. mn \<le> v \<and> v \<le> mx))"
  proof (induction vs rule: rev_induct)
    case (snoc v vs)
    show ?case
    proof (cases "foldl widen None vs")
      case None
      with snoc show ?thesis by auto
    next
      case (Some e)
      then obtain a b where "foldl widen None vs = Some (a, b)" by (cases e) auto
      with snoc show ?thesis by (auto simp: less_imp_le intro: order_trans)
    qed
  qed simp
  show "foldl widen None vs = None \<longleftrightarrow> vs = []" by (rule conjunct1 [OF both])
  show "foldl widen None vs = Some (mn, mx) \<Longrightarrow> mn \<le> mx \<and> (\<forall>v\<in>set vs. mn \<le> v \<and> v \<le> mx)"
    using conjunct2 [OF both] by simp
qed

lemma extents_cover:
  assumes "collectNumericExtents data keys = (mn, mx)"
  shows "mn \<le> mx" and "d \<in> set data \<Longrightarrow> key \<in> set keys \<Longrightarrow> num_field d key = Some v \<Longrightarrow> mn \<le> v \<and> v \<le> mx"
proof -
  let ?vs = "concat (map (row_values keys) data)"
  have mem: "v \<in> set ?vs" if "d \<in> set data" "key \<in> set keys" "num_field d key = Some v"
    using that by (force simp: row_values_def List.map_filter_def)
  show "mn \<le> mx" using assms widen_spec(2) [of ?vs]
    by (auto simp: collectNumericExtents_def split: option.splits)
  assume v: "d \<in> set data" "key \<in> set keys" "num_field d key = Some v"
  then have "foldl widen None ?vs \<noteq> None" using mem widen_spec(1) [of ?vs] by fastforce
  with assms have "foldl widen None ?vs = Some (mn, mx)" by (auto simp: collectNumericExtents_def)
  then show "mn \<le> v \<and> v \<le> mx" using widen_spec(2) mem v by blast
qed

lemma or_one_pos: "0 \<le> x \<Longrightarrow> 0 < or_one x" by (simp add: or_one_def)

lemma stack_step_simp [simp]: "stack_step (t, mn, mx) v = (t + v, min mn (t + v), max mx (t + v))"
  by (simp add: stack_step_def)

lemma stack_row_spec:
  assumes "foldl stack_step (t, mn, mx) vs = (t', mn', mx')"
  shows "mn' \<le> mn \<and> mx \<le> mx' \<and> t' = t + sum_list vs \<and>
    (\<forall>i\<le>length vs. 0 < i \<longrightarrow> mn' \<le> t + sum_list (take i vs) \<and> t + sum_list (take i vs) \<le> mx')"
  using assms
proof (induction vs arbitrary: t mn mx)
  case (Cons v vs)
  let ?mn = "min mn (t + v)" and ?mx = "max mx (t + v)"
  have "foldl stack_step (t + v, ?mn, ?mx) vs = (t', mn', mx')" using Cons.prems by simp
  note IH = Cons.IH [OF this]
  have "mn' \<le> t + sum_list (take i (v # vs)) \<and> t + sum_list (take i (v # vs)) \<le> mx'" if i: "i \<le> Suc (length vs)" "0 < i" for i
  proof (cases "i = 1")
    case True
    then show ?thesis using IH by auto
  next
    case False
    then obtain j where "i = Suc j" "0 < j" using i by (cases i) auto
    then show ?thesis using IH i by (auto simp: add.assoc)
  qed
  then show ?case using IH by (auto simp: add.assoc)
qed simp

lemma stack_rows_spec:
  "foldl (stack_row keys) (mn, mx) data = (mn', mx') \<Longrightarrow> mn' \<le> mn \<and> mx \<le> mx' \<and>
    (\<forall>d\<in>set data. \<forall>i\<le>length (row_values keys d). 0 < i \<longrightarrow>
      mn' \<le> sum_list (take i (row_values keys d)) \<and> sum_list (take i (row_values keys d)) \<le> mx')"
proof (induction data arbitrary: mn mx)
  case (Cons d data)
  obtain t a b where f: "foldl stack_step (0, mn, mx) (row_values keys d) = (t, a, b)" by (metis prod_cases3)
  note s = stack_row_spec [OF f]
  have "stack_row keys (mn, mx) d = (a, b)" by (simp add: stack_row_def f)
  then have "foldl (stack_row keys) (a, b) data = (mn', mx')" using Cons.prems by simp
  note IH = Cons.IH [OF this]
  then show ?case using s by (fastforce intro: order_trans)
qed simp

lemma padded:
  fixes mn mx :: rat
  assumes "mn \<le> mx"
  defines "p \<equiv> or_one ((mx - mn) * (1 / 20))"
  shows "mn - p < mn" "mx < mx + p"
  using or_one_pos [of "(mx - mn) * (1 / 20)"] assms by (simp_all add: p_def)

lemma line_domain_covers_lemma:
  assumes "d \<in> set data" "key \<in> set keys" "num_field d key = Some v" "resolveTimeSeriesYDomain data keys None = (lo, hi)"
  shows "lo \<le> v \<and> v \<le> hi"
proof -
  obtain mn mx where e: "collectNumericExtents data keys = (mn, mx)" by fastforce
  have "mn \<le> v \<and> v \<le> mx" "mn \<le> mx" using extents_cover [OF e] assms by blast+
  then show ?thesis using assms(4) padded [of mn mx] by (auto simp: resolveTimeSeriesYDomain_def e Let_def split: if_splits)
qed

lemma line_domain_proper: "resolveTimeSeriesYDomain data keys m = (lo, hi) \<Longrightarrow> lo < hi"
proof -
  obtain mn mx where e: "collectNumericExtents data keys = (mn, mx)" by fastforce
  then have "mn \<le> mx" by (rule extents_cover)
  then show "resolveTimeSeriesYDomain data keys m = (lo, hi) \<Longrightarrow> lo < hi"
    using padded [of mn mx] by (auto simp: resolveTimeSeriesYDomain_def e Let_def split: if_splits option.splits)
qed

text \<open>C23: Nothing is drawn outside the value axis: the domain of a bar chart is not empty, reaches from at
  or below zero to at or above it, and holds every value of grouped bars and every running total of
  stacked ones, so every segment of a stack ends inside; the domain of lines and areas is not empty and
  holds every value too.\<close>

theorem domains_cover_data:
  fixes keys :: "string list" and data :: "data_row list"
  assumes "d \<in> set data"
  defines "bars \<equiv> \<lambda>stacked. resolveBarValueDomain (collectBarValueExtents data keys stacked)"
    and "lines \<equiv> resolveTimeSeriesYDomain data keys None"
  shows "fst (bars stacked) \<le> 0 \<and> 0 \<le> snd (bars stacked) \<and> fst (bars stacked) < snd (bars stacked) \<and> fst lines < snd lines \<and>
    (\<forall>key v. key \<in> set keys \<and> num_field d key = Some v \<longrightarrow>
      fst (bars False) \<le> v \<and> v \<le> snd (bars False) \<and> fst lines \<le> v \<and> v \<le> snd lines) \<and>
    (\<forall>i\<le>length (row_values keys d). fst (bars True) \<le> sum_list (take i (row_values keys d)) \<and>
      sum_list (take i (row_values keys d)) \<le> snd (bars True))"
proof -
  have wide: "fst (resolveBarValueDomain (mn, mx)) \<le> mn \<and> mx \<le> snd (resolveBarValueDomain (mn, mx)) \<and>
    fst (resolveBarValueDomain (mn, mx)) \<le> 0 \<and> 0 \<le> snd (resolveBarValueDomain (mn, mx)) \<and>
    fst (resolveBarValueDomain (mn, mx)) < snd (resolveBarValueDomain (mn, mx))" if "mn \<le> mx" for mn mx
    using padded [OF that] by (auto simp: resolveBarValueDomain_def Let_def min_def max_def)
  obtain a b where grouped: "collectNumericExtents data keys = (a, b)" by fastforce
  obtain p q where stack: "foldl (stack_row keys) (0, 0) data = (p, q)" by fastforce
  note s = stack_rows_spec [OF stack]
  have ab: "a \<le> b" and pq: "p \<le> 0" "0 \<le> q" using extents_cover(1) [OF grouped] s by auto
  have "p \<le> q" using pq by simp
  have bF: "bars False = resolveBarValueDomain (a, b)" and bT: "bars True = resolveBarValueDomain (p, q)"
    by (simp_all add: bars_def collectBarValueExtents_def grouped stack)
  have "fst (bars stacked) \<le> 0 \<and> 0 \<le> snd (bars stacked) \<and> fst (bars stacked) < snd (bars stacked)"
    using wide [OF ab] wide [OF \<open>p \<le> q\<close>] bF bT by (cases stacked) simp_all
  moreover have "fst lines < snd lines" using line_domain_proper [of data keys None "fst lines" "snd lines"] by (simp add: lines_def)
  moreover have "fst (bars False) \<le> v \<and> v \<le> snd (bars False) \<and> fst lines \<le> v \<and> v \<le> snd lines"
    if "key \<in> set keys" "num_field d key = Some v" for key v
    using extents_cover(2) [OF grouped assms(1) that] wide [OF ab] bF
      line_domain_covers_lemma [OF assms(1) that, of "fst lines" "snd lines"] by (simp add: lines_def)
  moreover have "fst (bars True) \<le> sum_list (take i (row_values keys d)) \<and> sum_list (take i (row_values keys d)) \<le> snd (bars True)"
    if "i \<le> length (row_values keys d)" for i
  proof (cases "i = 0")
    case True
    then show ?thesis using wide [OF \<open>p \<le> q\<close>] bT by simp
  next
    case False
    then have "p \<le> sum_list (take i (row_values keys d)) \<and> sum_list (take i (row_values keys d)) \<le> q"
      using s assms(1) that by blast
    then show ?thesis using wide [OF \<open>p \<le> q\<close>] bT by (simp; linarith)
  qed
  ultimately show ?thesis by blast
qed

theorem domains_cover_data_witness:
  "num_field [(''ok'', JNum (Fin 3)), (''bad'', JNum (Fin (-5)))] ''bad'' = Some (-5) \<and>
   fst (resolveBarValueDomain (collectBarValueExtents [[(''ok'', JNum (Fin 3)), (''bad'', JNum (Fin (-5)))]] [''ok'', ''bad''] False)) \<le> -5"
proof -
  have "num_field [(''ok'', JNum (Fin 3)), (''bad'', JNum (Fin (-5)))] ''bad'' = Some (-5)" by (simp add: num_field_def)
  with domains_cover_data [of "[(''ok'', JNum (Fin 3)), (''bad'', JNum (Fin (-5)))]" "[[(''ok'', JNum (Fin 3)), (''bad'', JNum (Fin (-5)))]]"
    "[''ok'', ''bad'']" False] show ?thesis by fastforce
qed

end
