(* ===== verification/Chart_Layout.thy ===== *)
theory Chart_Layout
  imports Chart_Domains Js_Doubles
begin

text \<open>
  The layout arithmetic of the charts (src/ui/src/components/charts): thinning a long series
  (decimate-time-series.ts), value labels that keep apart (area-value-label-layout.ts,
  bar-value-label-layout.ts), bars and stacks of squares (series-bar-layout.ts, bar-squares-layout.ts),
  the hovered segment (highlight-segment-bounds.ts). Pixels and values are exact
  rationals; only the edges of the buckets, where rounding decides what is drawn, are computed in doubles.
\<close>

subsection \<open>Thinning a series\<close>

fun first_number :: "data_row \<Rightarrow> rat option" where
  "first_number [] = None"
| "first_number ((k, v) # fs) = (case as_finite_num v of Some r \<Rightarrow> Some r | None \<Rightarrow> first_number fs)"

definition point_y :: "string list \<Rightarrow> data_row \<Rightarrow> nat \<Rightarrow> rat" where
  "point_y valueKeys point index =
     (if valueKeys = [] then (case first_number point of Some v \<Rightarrow> v | None \<Rightarrow> of_nat index)
      else (let vs = row_values valueKeys point
            in if vs \<noteq> [] then sum_list vs / of_nat (length vs) else of_nat index))"

text \<open>\<open>Math.floor(k * bucketSize) + 1\<close>: the quotient is rounded, and so is the product.\<close>

definition bucket_edge :: "nat \<Rightarrow> nat \<Rightarrow> nat \<Rightarrow> nat" where
  "bucket_edge len maxPoints k = nat \<lfloor>fl (of_nat k * fl (of_nat (len - 2) / of_nat (maxPoints - 2)))\<rfloor> + 1"

definition bucket_average :: "string list \<Rightarrow> data_row list \<Rightarrow> nat \<Rightarrow> nat \<Rightarrow> rat \<times> rat" where
  "bucket_average keys data lo hi =
     (let len = length data in
      if lo < hi then
        (sum_list (map of_nat [lo..<hi]) / of_nat (hi - lo),
         sum_list (map (\<lambda>j. point_y keys (data ! j) j) [lo..<hi]) / of_nat (hi - lo))
      else (of_nat (len - 1), point_y keys (data ! (len - 1)) (len - 1)))"

definition triangle :: "string list \<Rightarrow> data_row list \<Rightarrow> nat \<Rightarrow> rat \<times> rat \<Rightarrow> nat \<Rightarrow> rat" where
  "triangle keys data a avg j =
     (let ax = of_nat a; ay = point_y keys (data ! a) a
      in \<bar>(ax - fst avg) * (point_y keys (data ! j) j - ay) - (ax - of_nat j) * (snd avg - ay)\<bar> * (1 / 2))"

definition widest :: "(nat \<Rightarrow> rat) \<Rightarrow> rat \<times> nat \<Rightarrow> nat \<Rightarrow> rat \<times> nat" where
  "widest area best j = (if area j > fst best then (area j, j) else best)"

definition pick_index :: "string list \<Rightarrow> data_row list \<Rightarrow> nat \<Rightarrow> nat \<Rightarrow> nat \<Rightarrow> nat" where
  "pick_index keys data maxPoints previous i =
     (let len = length data; edge = bucket_edge len maxPoints;
          avg = bucket_average keys data (edge (i + 2)) (min (edge (i + 3)) len)
      in snd (foldl (widest (triangle keys data previous avg)) (- 1, edge (i + 1))
           [edge (i + 1)..<min (edge (i + 2)) (len - 1)]))"

fun pick_all :: "string list \<Rightarrow> data_row list \<Rightarrow> nat \<Rightarrow> nat \<Rightarrow> nat list \<Rightarrow> nat list" where
  "pick_all keys data maxPoints previous [] = []"
| "pick_all keys data maxPoints previous (i # is) =
     (let p = pick_index keys data maxPoints previous i in p # pick_all keys data maxPoints p is)"

definition sampled_indices :: "string list \<Rightarrow> data_row list \<Rightarrow> nat \<Rightarrow> nat list" where
  "sampled_indices keys data maxPoints =
     0 # pick_all keys data maxPoints 0 [0..<maxPoints - 2] @ [length data - 1]"

definition decimateTimeSeries :: "string list \<Rightarrow> data_row list \<Rightarrow> nat \<Rightarrow> data_row list" where
  "decimateTimeSeries valueKeys data maxPoints =
     (if maxPoints \<ge> length data \<or> maxPoints < 3 then data
      else map (\<lambda>i. data ! i) (sampled_indices valueKeys data maxPoints))"

definition maxRenderPointsForWidth :: "rat \<Rightarrow> int" where
  "maxRenderPointsForWidth innerWidth = max 64 \<lceil>innerWidth * (3 / 2)\<rceil>"

subsection \<open>Value labels\<close>

record label_box =
  lb_index :: int
  lb_x :: rat
  lb_y :: rat
  lb_width :: rat
  lb_height :: rat

definition label_padding :: rat where "label_padding = 4"
definition label_gap :: rat where "label_gap = 6"

definition label_fits :: "rat \<Rightarrow> rat \<Rightarrow> label_box \<Rightarrow> bool" where
  "label_fits w h b \<longleftrightarrow> lb_x b \<ge> 0 \<and> lb_x b \<le> w \<and> lb_y b \<ge> 0 \<and> lb_y b \<le> h \<and> lb_width b > 0 \<and> lb_height b > 0 \<and>
     lb_width b + label_padding * 2 \<le> w \<and> lb_height b + label_padding * 2 \<le> h"

definition label_edge :: "int \<Rightarrow> int \<Rightarrow> int \<Rightarrow> int" where
  "label_edge first last_i index = (if index = first \<or> index = last_i then 0 else 1)"

text \<open>\<open>edge(a) - edge(b) || a.x - b.x || a.y - b.y\<close>, by its sign.\<close>

definition label_compare :: "int \<Rightarrow> int \<Rightarrow> label_box \<times> nat \<Rightarrow> label_box \<times> nat \<Rightarrow> int" where
  "label_compare first last_i p q =
     (let e = cmp_num (label_edge first last_i (lb_index (fst p))) (label_edge first last_i (lb_index (fst q)));
          x = cmp_num (lb_x (fst p)) (lb_x (fst q))
      in if e \<noteq> 0 then e else if x \<noteq> 0 then x else cmp_num (lb_y (fst p)) (lb_y (fst q)))"

definition collides :: "label_box \<Rightarrow> rat \<Rightarrow> rat \<Rightarrow> label_box \<Rightarrow> bool" where
  "collides b x y other \<longleftrightarrow> \<bar>x - lb_x other\<bar> < (lb_width b + lb_width other) / 2 + label_gap \<and>
     \<bar>y - lb_y other\<bar> < (lb_height b + lb_height other) / 2 + label_gap"

definition label_free :: "rat \<Rightarrow> label_box \<Rightarrow> rat \<Rightarrow> (label_box \<times> nat) list \<Rightarrow> rat \<Rightarrow> bool" where
  "label_free h b x placed y \<longleftrightarrow>
     \<not> (y - lb_height b / 2 < label_padding \<or> y + lb_height b / 2 > h - label_padding) \<and>
     \<not> list_ex (\<lambda>other. collides b x y (fst other)) placed"

definition place_label :: "rat \<Rightarrow> rat \<Rightarrow> (label_box \<times> nat) list \<Rightarrow> label_box \<times> nat \<Rightarrow> (label_box \<times> nat) list" where
  "place_label w h placed p =
     (let b = fst p; x = max (label_padding + lb_width b / 2) (min (w - label_padding - lb_width b / 2) (lb_x b));
          offset = lb_height b / 2 + label_gap
      in case List.find (label_free h b x placed) [lb_y b - offset, lb_y b + offset] of
           None \<Rightarrow> placed
         | Some y \<Rightarrow> placed @ [(b\<lparr>lb_x := x, lb_y := y\<rparr>, snd p)])"

definition layoutAreaValueLabels :: "label_box list \<Rightarrow> rat \<Rightarrow> rat \<Rightarrow> (label_box \<times> nat) list" where
  "layoutAreaValueLabels boxes w h =
     (let visible = filter (\<lambda>p. label_fits w h (fst p)) (zip boxes [0..<length boxes]);
          indices = map (\<lambda>p. lb_index (fst p)) visible
      in if visible = [] then []
         else foldl (place_label w h) [] (sort_cmp (label_compare (Min (set indices)) (Max (set indices))) visible))"

definition resolveAreaValueLabelCount :: "int \<Rightarrow> rat \<Rightarrow> rat \<Rightarrow> rat option \<Rightarrow> int" where
  "resolveAreaValueLabelCount len w mn mx =
     (let minimum = max 0 \<lfloor>mn\<rfloor>; maximum = (case mx of None \<Rightarrow> len | Some m \<Rightarrow> max 0 \<lfloor>m\<rfloor>)
      in min (min len maximum) (max minimum \<lfloor>max 0 w / 48\<rfloor>))"

definition resolveSharedAreaValueLabelCount :: "int list \<Rightarrow> int" where
  "resolveSharedAreaValueLabelCount counts =
     (let enabled = filter (\<lambda>c. c > 0) counts in if enabled = [] then 0 else Min (set enabled))"

definition evenlySpacedLabelIndices :: "nat \<Rightarrow> rat \<Rightarrow> int list" where
  "evenlySpacedLabelIndices len amount =
     (let visibleCount = min (nat (max 0 \<lfloor>amount\<rfloor>)) len
      in if visibleCount = 0 then [] else if visibleCount = 1 then [0]
         else map (\<lambda>i. js_round (of_nat (i * (len - 1)) / of_nat (visibleCount - 1))) [0..<visibleCount])"

subsection \<open>What thinning keeps\<close>

text \<open>An array has fewer than \<open>2^32\<close> elements.\<close>

lemma array_small:
  assumes "len < 2 ^ 32"
  shows "(of_nat (len - 2) :: rat) \<le> 2 ^ 32"
proof -
  have "len - 2 \<le> 2 ^ 32" using assms by simp
  then have "(of_nat (len - 2) :: rat) \<le> of_nat (2 ^ 32)" by (simp only: of_nat_le_iff)
  then show ?thesis by simp
qed

lemma bucket_size:
  assumes "3 \<le> m" "m < len" "len < 2 ^ 32"
  defines "r \<equiv> of_nat (len - 2) / of_nat (m - 2) :: rat"
  shows "1 \<le> fl r" and "\<bar>of_nat (m - 2) * fl r - of_nat (len - 2)\<bar> \<le> 1 / 2" and "fl r \<le> 2 ^ 33"
proof -
  have pos: "0 < (of_nat (m - 2) :: rat)" using assms by simp
  have "(of_nat (m - 2) :: rat) \<le> of_nat (len - 2)" using assms by simp
  then have r: "1 \<le> r" using pos by (simp add: r_def le_divide_eq)
  then have "fl (of_int 1) \<le> fl r" by (intro fl_mono) auto
  then show "1 \<le> fl r" using fl_whole [of 1] by simp
  have whole: "of_nat (m - 2) * r = of_nat (len - 2)" using pos by (simp add: r_def)
  have big: "(of_nat (len - 2) :: rat) \<le> 2 ^ 32" by (rule array_small [OF assms(3)])
  have err: "\<bar>fl r - r\<bar> \<le> r / 2 ^ 53" by (rule fl_error [OF r])
  have "of_nat (m - 2) * fl r - of_nat (len - 2) = of_nat (m - 2) * (fl r - r)"
    unfolding right_diff_distrib whole ..
  then have "\<bar>of_nat (m - 2) * fl r - of_nat (len - 2)\<bar> = of_nat (m - 2) * \<bar>fl r - r\<bar>"
    using pos by (simp only: abs_mult abs_of_pos)
  also have "\<dots> \<le> of_nat (m - 2) * (r / 2 ^ 53)" using err pos by (intro mult_left_mono) auto
  also have "\<dots> = of_nat (len - 2) / 2 ^ 53" using whole by simp
  also have "\<dots> \<le> 1 / 2" using big by simp
  finally show "\<bar>of_nat (m - 2) * fl r - of_nat (len - 2)\<bar> \<le> 1 / 2" .
  have "1 \<le> (of_nat (m - 2) :: rat)" using assms(1) by simp
  from mult_right_mono [OF this, of r] have "r \<le> of_nat (m - 2) * r" using r by simp
  then have "r \<le> 2 ^ 32" using whole big by simp
  moreover from this have "r / 2 ^ 53 \<le> 2 ^ 32 / 2 ^ 53" by (intro divide_right_mono) auto
  ultimately have "fl r \<le> 2 ^ 32 + 2 ^ 32 / 2 ^ 53" using err unfolding abs_le_iff by linarith
  then show "fl r \<le> 2 ^ 33" by simp
qed

lemma bucket_edge_step:
  assumes "3 \<le> m" "m < len" "len < 2 ^ 32" "k \<le> m"
  shows "bucket_edge len m k < bucket_edge len m (Suc k)"
proof -
  define b where "b = fl (of_nat (len - 2) / of_nat (m - 2))"
  note b = bucket_size [OF assms(1-3), folded b_def]
  have next_eq: "of_nat (Suc k) * b = of_nat k * b + b" by (simp add: algebra_simps)
  have "\<lfloor>fl (of_nat k * b)\<rfloor> < \<lfloor>fl (of_nat (Suc k) * b)\<rfloor> \<and> 0 \<le> \<lfloor>fl (of_nat k * b)\<rfloor>"
  proof (cases k)
    case 0
    have "fl (of_int 1) \<le> fl b" using b(1) by (intro fl_mono) auto
    then show ?thesis using 0 fl_whole [of 1] by (simp add: fl_def [of 0])
  next
    case (Suc k')
    then have k: "1 \<le> (of_nat k :: rat)" by simp
    have one: "1 \<le> of_nat k * b" using mult_mono [OF k b(1)] by simp
    have "(of_nat k :: rat) \<le> of_nat m" using assms(4) by simp
    also have "(of_nat m :: rat) = of_nat (m - 2) + 2" using assms(1) by (simp flip: of_nat_add)
    finally have "of_nat k * b \<le> (of_nat (m - 2) + 2) * b" using b(1) by (intro mult_right_mono) auto
    also have "\<dots> = of_nat (m - 2) * b + 2 * b" by (simp add: algebra_simps)
    finally have "of_nat k * b \<le> of_nat (len - 2) + 1 / 2 + 2 * 2 ^ 33" using b(2,3) unfolding abs_le_iff by linarith
    moreover have "(of_nat (len - 2) :: rat) \<le> 2 ^ 32" by (rule array_small [OF assms(3)])
    ultimately have small: "of_nat k * b + 1 < 2 ^ 52" by simp
    have "fl (of_int 1) \<le> fl (of_nat k * b)" using one by (intro fl_mono) auto
    then have "0 \<le> \<lfloor>fl (of_nat k * b)\<rfloor>" using fl_whole [of 1] by simp
    then show ?thesis using floor_fl_step [OF one _ small, of "of_nat (Suc k) * b"] b(1) unfolding next_eq by simp
  qed
  then show ?thesis unfolding bucket_edge_def b_def [symmetric] by linarith
qed

lemma bucket_edge_mono:
  assumes "3 \<le> m" "m < len" "len < 2 ^ 32" "i < j" "j \<le> Suc m"
  shows "bucket_edge len m i < bucket_edge len m j"
  using assms(4,5)
proof (induction j)
  case (Suc j)
  then have "bucket_edge len m j < bucket_edge len m (Suc j)" by (intro bucket_edge_step assms) simp
  then show ?case using Suc by (cases "i = j") auto
qed simp

text \<open>The edge of the last bucket taken: the end of the series, or one before it when a rounding went down.\<close>

lemma bucket_edge_last:
  assumes "3 \<le> m" "m < len" "len < 2 ^ 32"
  shows "bucket_edge len m (m - 2) = len - 1 \<or> bucket_edge len m (m - 2) = len - 2"
proof -
  define x where "x = of_nat (m - 2) * fl (of_nat (len - 2) / of_nat (m - 2))"
  define n where "n = int (len - 2)"
  have n: "2 \<le> n" "2 * n + 1 < 2 ^ 53" "(of_nat (len - 2) :: rat) = of_int n" using assms by (simp_all add: n_def)
  have "of_int n - 1 / 2 \<le> x" "x \<le> of_int n + 1 / 2"
    using bucket_size(2) [OF assms] unfolding x_def [symmetric] unfolding n(3) abs_le_iff by linarith+
  then have x: "of_int (2 * n - 1) / 2 \<le> x" "x \<le> of_int (2 * n + 1) / 2" by simp_all
  have one: "1 \<le> x" using x(1) n(1) by (simp add: field_simps)
  have "fl (of_int (2 * n - 1) / 2) \<le> fl x" using x(1) n(1) by (intro fl_mono) (simp_all add: field_simps)
  moreover have "fl x \<le> fl (of_int (2 * n + 1) / 2)" using x(2) one by (intro fl_mono)
  ultimately have "of_int (2 * n - 1) / 2 \<le> fl x" "fl x \<le> of_int (2 * n + 1) / 2"
    using fl_half [of "2 * n - 1"] fl_half [of "2 * n + 1"] n(1,2) by simp_all
  then have "\<lfloor>fl x\<rfloor> = n \<or> \<lfloor>fl x\<rfloor> = n - 1" by (simp add: field_simps) linarith
  then show ?thesis unfolding bucket_edge_def x_def [symmetric] n_def using assms by auto
qed

lemma bucket_edge_first [simp]: "bucket_edge len m 0 = 1"
  by (simp add: bucket_edge_def fl_def)

lemma widest_picks: "snd (foldl (widest area) best js) \<in> insert (snd best) (set js)"
proof (induction js arbitrary: best)
  case (Cons j js)
  have "snd (foldl (widest area) (widest area best j) js) \<in> insert (snd (widest area best j)) (set js)" by (rule Cons)
  moreover have "snd (widest area best j) \<in> {snd best, j}" by (simp add: widest_def)
  ultimately show ?case by auto
qed simp

definition in_thin_bucket :: "nat \<Rightarrow> nat \<Rightarrow> nat \<Rightarrow> nat \<Rightarrow> bool" where
  "in_thin_bucket len m i p \<longleftrightarrow> (if i = m - 3 then p = bucket_edge len m (m - 2)
     else bucket_edge len m (i + 1) \<le> p \<and> p < bucket_edge len m (i + 2))"

lemma pick_index_in:
  assumes "3 \<le> m" "m < length data" "length data < 2 ^ 32" "i < m - 2"
  shows "in_thin_bucket (length data) m i (pick_index keys data m a i)"
proof -
  let ?e = "bucket_edge (length data) m"
  have "pick_index keys data m a i \<in> insert (?e (i + 1)) (set [?e (i + 1)..<min (?e (i + 2)) (length data - 1)])"
  proof -
    have "snd (foldl (widest area) (- 1, n) js) \<in> insert n (set js)" for area n js
      using widest_picks [of area "(- 1, n)" js] by simp
    then show ?thesis unfolding pick_index_def Let_def by this
  qed
  moreover have "?e (i + 1) < ?e (i + 2)" using bucket_edge_mono [OF assms(1-3)] assms(4) by simp
  moreover have "i + 1 = m - 2" if "i = m - 3" using that assms(1) by simp
  moreover have "length data - Suc 0 = Suc (length data - 2)" using assms(1,2) by simp
  ultimately show ?thesis using bucket_edge_last [OF assms(1-3)] by (auto simp: in_thin_bucket_def min_def split: if_splits)
qed

lemma pick_all_in:
  "3 \<le> m \<Longrightarrow> m < length data \<Longrightarrow> length data < 2 ^ 32 \<Longrightarrow> list_all (\<lambda>i. i < m - 2) is \<Longrightarrow>
    list_all2 (in_thin_bucket (length data) m) is (pick_all keys data m a is)"
  by (induction "is" arbitrary: a) (simp_all add: Let_def pick_index_in)

lemma sampled_nth:
  fixes keys :: "string list" and data :: "data_row list"
  assumes "3 \<le> m" "m < length data" "length data < 2 ^ 32"
  defines "ps \<equiv> sampled_indices keys data m" and "e \<equiv> bucket_edge (length data) m"
  shows "length ps = m" "ps ! 0 = 0" "ps ! (m - 1) = length data - 1" "ps ! (m - 2) = e (m - 2)"
    and "i < m - 3 \<Longrightarrow> e (i + 1) \<le> ps ! (i + 1) \<and> ps ! (i + 1) < e (i + 2)"
proof -
  let ?q = "pick_all keys data m 0 [0..<m - 2]"
  have q: "list_all2 (in_thin_bucket (length data) m) [0..<m - 2] ?q"
    by (rule pick_all_in) (use assms in \<open>simp_all add: list_all_iff\<close>)
  have len: "length ?q = m - 2" using list_all2_lengthD [OF q] by simp
  have nth: "in_thin_bucket (length data) m i (?q ! i)" if "i < m - 2" for i
    using list_all2_nthD [OF q, of i] that by simp
  have ps: "ps = 0 # ?q @ [length data - 1]" by (simp add: ps_def sampled_indices_def)
  show "length ps = m" using len assms(1) by (simp add: ps)
  show "ps ! 0 = 0" by (simp add: ps)
  have last: "ps ! Suc (m - 2) = length data - 1" by (simp add: ps nth_append len)
  moreover have "Suc (m - 2) = m - 1" using assms(1) by simp
  ultimately show "ps ! (m - 1) = length data - 1" by simp
  have inner: "ps ! Suc j = ?q ! j" if "j < m - 2" for j using that len by (simp add: ps nth_append)
  have "ps ! Suc (m - 3) = e (m - 2)" using inner [of "m - 3"] nth [of "m - 3"] assms(1) by (simp add: in_thin_bucket_def e_def)
  moreover have "Suc (m - 3) = m - 2" using assms(1) by simp
  ultimately show "ps ! (m - 2) = e (m - 2)" by simp
  show "e (i + 1) \<le> ps ! (i + 1) \<and> ps ! (i + 1) < e (i + 2)" if "i < m - 3"
    using inner [of i] nth [of i] that by (simp add: in_thin_bucket_def e_def)
qed

text \<open>C24: A thinned series keeps its ends and its order: for a series longer than the limit, exactly
  \<open>maxPoints\<close> points remain, the first is the first and the last the last, the positions grow strictly
  up to the last but one, and each of the buckets between gives one point. But the buckets are taken one
  too far: the first bucket gives none, and the last one starts at the end of the series, so that the last
  point is there twice, or, where the edge computed in doubles is rounded down, one before it.\<close>

theorem thinning_keeps_ends:
  fixes keys :: "string list" and data :: "data_row list"
  assumes "3 \<le> m" "m < length data" "length data < 2 ^ 32"
  defines "ps \<equiv> sampled_indices keys data m" and "edge \<equiv> bucket_edge (length data) m"
  shows "decimateTimeSeries keys data m = map (\<lambda>i. data ! i) ps \<and> length ps = m \<and> ps ! 0 = 0 \<and>
    (\<forall>i<m - 2. ps ! i < ps ! (i + 1)) \<and> (\<forall>i<m. ps ! i < length data) \<and>
    (\<forall>i<m - 3. edge (i + 1) \<le> ps ! (i + 1) \<and> ps ! (i + 1) < edge (i + 2)) \<and>
    (ps ! (m - 2) = length data - 1 \<or> ps ! (m - 2) = length data - 2) \<and> ps ! (m - 2) = edge (m - 2) \<and>
    ps ! (m - 1) = length data - 1"
proof -
  note s = sampled_nth [OF assms(1-3), where keys = keys, folded ps_def edge_def]
  have mono: "edge i < edge j" if "i < j" "j \<le> m" for i j
    using bucket_edge_mono [OF assms(1-3) that(1)] that(2) by (simp add: edge_def)
  have ends: "edge (m - 2) = length data - 1 \<or> edge (m - 2) = length data - 2"
    unfolding edge_def by (rule bucket_edge_last [OF assms(1-3)])
  have step: "ps ! i < ps ! (i + 1)" if i: "i < m - 2" for i
  proof -
    consider "i = 0" "m = 3" | "i = 0" "0 < m - 3" | j where "i = Suc j" "Suc j < m - 3" | j where "i = Suc j" "j < m - 3" "i + 1 = m - 2"
      using i assms(1) by (cases i; cases "i + 1 = m - 2"; cases "m = 3") auto
    then show ?thesis
    proof cases
      case 1
      then show ?thesis using s(2,4) assms ends by auto
    next
      case 2
      then show ?thesis using s(2) s(5) [of 0] mono [of 0 1] by simp
    next
      case 3
      then show ?thesis using s(5) [of j] s(5) [of "Suc j"] by simp
    next
      case 4
      then have "ps ! i < edge (m - 2)" using s(5) [of j] by simp
      then show ?thesis using s(4) 4(3) by simp
    qed
  qed
  have "ps ! i < length data" if i: "i < m" for i
  proof -
    consider "i = 0" | j where "i = Suc j" "j < m - 3" | "i = m - 2" | "i = m - 1" using i assms(1) by (cases i; cases "i = m - 2"; cases "i = m - 1") auto
    then show ?thesis
    proof cases
      case 2
      then have "ps ! i < edge (j + 2)" using s(5) [of j] by simp
      also have "edge (j + 2) \<le> edge (m - 2)"
        using mono [of "j + 2" "m - 2"] 2 by (cases "j + 2 = m - 2") (auto simp: less_imp_le)
      finally show ?thesis using ends by auto
    qed (use s assms ends in auto)
  qed
  then show ?thesis using s step assms(1,2) ends by (simp add: decimateTimeSeries_def ps_def)
qed

theorem thinning_keeps_ends_witness:
  "sampled_indices [] (replicate 9 []) 5 ! 3 = 8 \<and> sampled_indices [] (replicate 9 []) 5 ! 4 = 8 \<and>
   sampled_indices [] (replicate 63 []) 9 ! 7 = 61 \<and> sampled_indices [] (replicate 63 []) 9 ! 8 = 62"
proof -
  have "bucket_edge 9 5 3 = 8" "bucket_edge 63 9 7 = 61" by code_simp+
  then show ?thesis
    using thinning_keeps_ends [of 5 "replicate 9 []" "[]"] thinning_keeps_ends [of 9 "replicate 63 []" "[]"] by simp
qed

subsection \<open>Labels that keep apart\<close>

definition apart :: "label_box \<Rightarrow> label_box \<Rightarrow> bool" where
  "apart a b \<longleftrightarrow> \<not> collides a (lb_x a) (lb_y a) b"

lemma apart_sym: "apart a b \<longleftrightarrow> apart b a"
  by (simp add: apart_def collides_def abs_minus_commute add.commute)

definition label_inside :: "rat \<Rightarrow> rat \<Rightarrow> label_box \<Rightarrow> bool" where
  "label_inside w h b \<longleftrightarrow> label_padding \<le> lb_x b - lb_width b / 2 \<and> lb_x b + lb_width b / 2 \<le> w - label_padding \<and>
     label_padding \<le> lb_y b - lb_height b / 2 \<and> lb_y b + lb_height b / 2 \<le> h - label_padding"

text \<open>A label stands above or below its point, at the size asked for.\<close>

definition label_of :: "label_box \<Rightarrow> label_box \<Rightarrow> bool" where
  "label_of b p \<longleftrightarrow> lb_index p = lb_index b \<and> lb_width p = lb_width b \<and> lb_height p = lb_height b \<and>
     \<bar>lb_y p - lb_y b\<bar> = lb_height b / 2 + label_gap"

definition labels_ok :: "rat \<Rightarrow> rat \<Rightarrow> (label_box \<times> nat) list \<Rightarrow> (label_box \<times> nat) list \<Rightarrow> bool" where
  "labels_ok w h seen placed \<longleftrightarrow> sorted_wrt (\<lambda>p q. apart (fst p) (fst q)) placed \<and>
     list_all (\<lambda>p. label_inside w h (fst p) \<and> (\<exists>b. (b, snd p) \<in> set seen \<and> label_of b (fst p))) placed \<and>
     distinct (map snd placed)"

lemma find_Some: "List.find P xs = Some y \<Longrightarrow> y \<in> set xs \<and> P y"
  by (auto simp: find_Some_iff)

lemma place_label_ok:
  assumes ok: "labels_ok w h seen placed" and fits: "label_fits w h b" and new: "s \<notin> snd ` set seen"
  shows "labels_ok w h (seen @ [(b, s)]) (place_label w h placed (b, s))"
proof -
  let ?x = "max (label_padding + lb_width b / 2) (min (w - label_padding - lb_width b / 2) (lb_x b))"
  let ?offset = "lb_height b / 2 + label_gap"
  have keep: "labels_ok w h (seen @ [(b, s)]) placed" using ok by (fastforce simp: labels_ok_def list_all_iff)
  show ?thesis
  proof (cases "List.find (label_free h b ?x placed) [lb_y b - ?offset, lb_y b + ?offset]")
    case None
    then show ?thesis using keep by (simp add: place_label_def Let_def)
  next
    case (Some y)
    let ?p = "b\<lparr>lb_x := ?x, lb_y := y\<rparr>"
    have y: "y = lb_y b - ?offset \<or> y = lb_y b + ?offset" "label_free h b ?x placed y"
      using find_Some [OF Some] by auto
    have free: "apart (fst q) ?p" if "q \<in> set placed" for q
      using y(2) that unfolding apart_sym [of "fst q"] by (auto simp: label_free_def list_ex_iff apart_def collides_def)
    have inside: "label_inside w h ?p"
      using y(2) fits by (auto simp: label_free_def label_inside_def label_fits_def label_padding_def max_def min_def)
    have of_b: "label_of b ?p" using y(1) fits by (auto simp: label_of_def label_fits_def label_gap_def)
    have "s \<notin> snd ` set placed" using new ok by (force simp: labels_ok_def list_all_iff)
    then have "distinct (map snd (placed @ [(?p, s)]))" using ok by (auto simp: labels_ok_def)
    moreover have "sorted_wrt (\<lambda>p q. apart (fst p) (fst q)) (placed @ [(?p, s)])"
      using ok free by (auto simp: labels_ok_def sorted_wrt_append)
    moreover have "list_all (\<lambda>p. label_inside w h (fst p) \<and> (\<exists>b'. (b', snd p) \<in> set (seen @ [(b, s)]) \<and> label_of b' (fst p))) (placed @ [(?p, s)])"
      using keep inside of_b by (auto simp: labels_ok_def)
    moreover have "place_label w h placed (b, s) = placed @ [(?p, s)]" using Some by (simp add: place_label_def Let_def)
    ultimately show ?thesis unfolding labels_ok_def by presburger
  qed
qed

lemma place_all_ok:
  assumes "list_all (\<lambda>p. label_fits w h (fst p)) ps" "distinct (map snd ps)"
  shows "labels_ok w h ps (foldl (place_label w h) [] ps)"
  using assms
proof (induction ps rule: rev_induct)
  case (snoc p ps)
  then show ?case using place_label_ok [of w h ps "foldl (place_label w h) [] ps" "fst p" "snd p"] by auto
qed (simp add: labels_ok_def)

text \<open>Value labels keep apart: whatever boxes are asked for, the labels that are placed lie inside the
  chart with its padding, any two of them are separated by the gap in one direction at least, each
  stands just above or just below the point it belongs to at its own size, and no box gets two.\<close>

theorem labels_never_overlap:
  fixes boxes :: "label_box list" and w h :: rat
  defines "placed \<equiv> layoutAreaValueLabels boxes w h"
  shows "sorted_wrt (\<lambda>p q. (lb_width (fst p) + lb_width (fst q)) / 2 + 6 \<le> \<bar>lb_x (fst p) - lb_x (fst q)\<bar> \<or>
      (lb_height (fst p) + lb_height (fst q)) / 2 + 6 \<le> \<bar>lb_y (fst p) - lb_y (fst q)\<bar>) placed \<and>
    (\<forall>p\<in>set placed. label_inside w h (fst p) \<and> snd p < length boxes \<and> label_of (boxes ! snd p) (fst p)) \<and>
    distinct (map snd placed)"
proof -
  let ?visible = "filter (\<lambda>p. label_fits w h (fst p)) (zip boxes [0..<length boxes])"
  define ps where "ps = sort_cmp (label_compare (Min (set (map (\<lambda>p. lb_index (fst p)) ?visible))) (Max (set (map (\<lambda>p. lb_index (fst p)) ?visible)))) ?visible"
  have set_ps: "set ps = set ?visible" by (simp add: ps_def set_sort_cmp)
  have "distinct (map snd (zip boxes [0..<length boxes]))" by simp
  then have "distinct (map snd ?visible)" by (rule distinct_map_filter)
  then have "distinct (map snd ps)" unfolding ps_def by (simp add: distinct_map_sort_cmp)
  moreover have "list_all (\<lambda>p. label_fits w h (fst p)) ps" using set_ps by (simp add: list_all_iff)
  ultimately have ok: "labels_ok w h ps (foldl (place_label w h) [] ps)" by (intro place_all_ok)
  have placed: "placed = foldl (place_label w h) [] ps"
    by (cases "?visible = []") (simp_all add: placed_def layoutAreaValueLabels_def Let_def ps_def)
  have "boxes ! snd q = fst q \<and> snd q < length boxes" if "q \<in> set ps" for q
    using that set_ps by (auto simp: in_set_zip)
  then have "\<forall>p\<in>set placed. label_inside w h (fst p) \<and> snd p < length boxes \<and> label_of (boxes ! snd p) (fst p)"
    using ok unfolding placed labels_ok_def list_all_iff by fastforce
  moreover have "sorted_wrt (\<lambda>p q. (lb_width (fst p) + lb_width (fst q)) / 2 + 6 \<le> \<bar>lb_x (fst p) - lb_x (fst q)\<bar> \<or>
      (lb_height (fst p) + lb_height (fst q)) / 2 + 6 \<le> \<bar>lb_y (fst p) - lb_y (fst q)\<bar>) placed"
    using ok unfolding placed labels_ok_def apart_def collides_def label_gap_def by (simp add: not_less)
  ultimately show ?thesis using ok unfolding placed labels_ok_def by blast
qed

subsection \<open>Bars, squares, segments\<close>

datatype label_orientation = OrientAuto | OrientHorizontal | OrientVertical

datatype label_position = PosTop | PosCenter | PosBottom

definition LABEL_LINE_HEIGHT :: rat where "LABEL_LINE_HEIGHT = 12"
definition LABEL_INSET :: rat where "LABEL_INSET = 6"
definition MIN_CROSS_SIZE :: rat where "MIN_CROSS_SIZE = LABEL_LINE_HEIGHT + 6"

record bar_label =
  bl_fits :: bool
  bl_rotated :: bool
  bl_x :: rat
  bl_y :: rat

definition getBarValueLabelLayout ::
  "rat \<Rightarrow> rat \<Rightarrow> rat \<Rightarrow> rat \<Rightarrow> rat \<Rightarrow> bool \<Rightarrow> label_orientation \<Rightarrow> label_position \<Rightarrow> bar_label" where
  "getBarValueLabelLayout x y width height labelWidth isHorizontal orientation position =
     (let normalFits = (width \<ge> labelWidth + 10 \<and> height \<ge> MIN_CROSS_SIZE);
          rotatedFits = (height \<ge> labelWidth + 10 \<and> width \<ge> MIN_CROSS_SIZE);
          fits = (case orientation of OrientHorizontal \<Rightarrow> normalFits | OrientVertical \<Rightarrow> rotatedFits
                  | OrientAuto \<Rightarrow> normalFits \<or> rotatedFits);
          rotated = (fits \<and> (orientation = OrientVertical \<or> (orientation = OrientAuto \<and> \<not> normalFits)));
          extentX = (if rotated then LABEL_LINE_HEIGHT else labelWidth);
          extentY = (if rotated then labelWidth else LABEL_LINE_HEIGHT);
          labelX = (if isHorizontal then
              (case position of PosTop \<Rightarrow> x + width - LABEL_INSET - extentX / 2
               | PosBottom \<Rightarrow> x + LABEL_INSET + extentX / 2 | PosCenter \<Rightarrow> x + width / 2)
            else x + width / 2);
          labelY = (if isHorizontal then y + height / 2
            else (case position of PosTop \<Rightarrow> y + LABEL_INSET + extentY / 2
               | PosBottom \<Rightarrow> y + height - LABEL_INSET - extentY / 2 | PosCenter \<Rightarrow> y + height / 2))
      in \<lparr>bl_fits = fits, bl_rotated = rotated, bl_x = labelX, bl_y = labelY\<rparr>)"

record square_column =
  sq_count :: int
  sq_positions :: "rat list"
  sq_height :: rat
  sq_size :: rat
  sq_gap :: rat

definition computeSquareColumn :: "rat \<Rightarrow> rat \<Rightarrow> rat \<Rightarrow> bool \<Rightarrow> square_column" where
  "computeSquareColumn barLengthPx squareSize gap fit =
     (if barLengthPx \<le> 0 \<or> squareSize \<le> 0
      then \<lparr>sq_count = 0, sq_positions = [], sq_height = 0, sq_size = squareSize, sq_gap = gap\<rparr>
      else if fit then
        (let n = max 1 \<lfloor>(barLengthPx + gap) / (squareSize + gap)\<rfloor>;
             effectiveGap = (if n > 1 then max 0 ((barLengthPx - of_int n * squareSize) / of_int (n - 1)) else 0);
             step = squareSize + effectiveGap
         in \<lparr>sq_count = n, sq_positions = map (\<lambda>i. barLengthPx - squareSize - of_nat i * step) [0..<nat n],
              sq_height = barLengthPx, sq_size = squareSize, sq_gap = effectiveGap\<rparr>)
      else
        (let step = squareSize + gap; n = max 1 (js_round (barLengthPx / step));
             columnHeight = of_int n * squareSize + of_int (max 0 (n - 1)) * gap
         in \<lparr>sq_count = n, sq_positions = map (\<lambda>i. columnHeight - squareSize - of_nat i * step) [0..<nat n],
              sq_height = columnHeight, sq_size = squareSize, sq_gap = gap\<rparr>))"

definition topSquareCenterY :: "rat \<Rightarrow> rat \<Rightarrow> rat \<Rightarrow> rat \<Rightarrow> bool \<Rightarrow> rat" where
  "topSquareCenterY baselineY barLengthPx squareSize gap fit =
     (let c = computeSquareColumn barLengthPx squareSize gap fit
      in if sq_count c = 0 then baselineY else (baselineY - sq_height c) + sq_size c / 2)"

record bar_width_input =
  bw_innerWidth :: rat
  bw_dataLength :: nat
  bw_columnWidth :: rat
  bw_seriesCount :: int
  bw_barSize :: "rat option"
  bw_maxBarSize :: "rat option"
  bw_gap :: "rat option"
  bw_stacked :: bool

definition bar_slot :: "bar_width_input \<Rightarrow> rat" where
  "bar_slot b = (if bw_columnWidth b \<le> 0
     then (if bw_dataLength b < 2 then bw_innerWidth b else bw_innerWidth b / of_nat (bw_dataLength b - 1))
     else bw_columnWidth b)"

definition at_most :: "rat option \<Rightarrow> rat \<Rightarrow> rat" where
  "at_most m w = (case m of None \<Rightarrow> w | Some k \<Rightarrow> min w k)"

definition computeSeriesBarWidth :: "bar_width_input \<Rightarrow> rat" where
  "computeSeriesBarWidth b =
     (let gap = coalesce (bw_gap b) 4; groupCount = (if bw_stacked b then 1 else max 1 (bw_seriesCount b));
          slot = bar_slot b;
          width = at_most (bw_maxBarSize b) (coalesce (bw_barSize b) (at_most (bw_maxBarSize b) (slot * (88 / 100))));
          maxGroup = slot * (92 / 100);
          needed = of_int groupCount * width + of_int (groupCount - 1) * gap;
          width = (if groupCount > 1 \<and> needed > maxGroup \<and> maxGroup > 0
            then max 4 ((maxGroup - of_int (groupCount - 1) * gap) / of_int groupCount) else width)
      in max 2 width)"

definition computeSeriesBarRevealClipPadding :: "rat \<Rightarrow> int \<Rightarrow> rat option \<Rightarrow> bool \<Rightarrow> int" where
  "computeSeriesBarRevealClipPadding barWidth seriesCount gap stacked =
     (if stacked \<or> seriesCount \<le> 1 then \<lceil>barWidth / 2\<rceil>
      else \<lceil>(of_int seriesCount * barWidth + of_int (seriesCount - 1) * coalesce gap 4) / 2\<rceil>)"

record segment_bounds =
  sb_x :: rat
  sb_width :: rat
  sb_active :: bool

definition INACTIVE_SEGMENT :: segment_bounds where
  "INACTIVE_SEGMENT = \<lparr>sb_x = 0, sb_width = 0, sb_active = False\<rparr>"

text \<open>The scale of the position of a data point, \<open>xScale(xAccessor(point)) ?? 0\<close>, is an argument; the
  selection is \<open>(active, startX, endX)\<close>.\<close>

definition computeSegmentBounds ::
  "'d list \<Rightarrow> ('d \<Rightarrow> rat option) \<Rightarrow> int option \<Rightarrow> (bool \<times> rat \<times> rat) option \<Rightarrow> rat \<Rightarrow> segment_bounds" where
  "computeSegmentBounds data xOf hovered selection spread =
     (if data = [] then INACTIVE_SEGMENT
      else case selection of
        Some (True, startX, endX) \<Rightarrow> \<lparr>sb_x = min startX endX, sb_width = \<bar>endX - startX\<bar>, sb_active = True\<rparr>
      | _ \<Rightarrow> (case hovered of
            None \<Rightarrow> INACTIVE_SEGMENT
          | Some idx \<Rightarrow>
              (let reach = max 1 (js_round spread); startIdx = max 0 (idx - reach);
                   endIdx = min (int (length data) - 1) (idx + reach)
               in if startIdx < int (length data) \<and> 0 \<le> endIdx then
                    (let startX = coalesce (xOf (data ! nat startIdx)) 0; endX = coalesce (xOf (data ! nat endIdx)) 0
                     in \<lparr>sb_x = startX, sb_width = max 0 (endX - startX), sb_active = True\<rparr>)
                  else INACTIVE_SEGMENT)))"

text \<open>How many labels: a number, or the numbers of \<open>ResponsiveChartLabelCount\<close> from \<open>base\<close> to \<open>xl\<close>.\<close>

datatype label_count =
    FixedLabels rat
  | LabelsByWidth "rat option" "rat option" "rat option" "rat option" "rat option"

fun resolveResponsiveChartLabelCount :: "label_count \<Rightarrow> rat \<Rightarrow> rat \<Rightarrow> rat" where
  "resolveResponsiveChartLabelCount (FixedLabels n) containerWidth fallback = n"
| "resolveResponsiveChartLabelCount (LabelsByWidth base sm md lg xl) containerWidth fallback =
     (case List.find (\<lambda>c. containerWidth \<ge> fst c \<and> snd c \<noteq> None)
        [(1280, xl), (1024, lg), (768, md), (640, sm), (0, base)] of
        Some (w, Some n) \<Rightarrow> n | _ \<Rightarrow> fallback)"

text \<open>A bar's label stays inside its bar: when the layout says it fits, the label with its own extent, and
  turned when it is turned, lies within the bar on both sides and above and below, for every orientation,
  position and direction of bars.\<close>

theorem bar_label_inside_bar:
  fixes x y width height labelWidth :: rat and isHorizontal :: bool and orientation position
  assumes "0 \<le> labelWidth"
  defines "l \<equiv> getBarValueLabelLayout x y width height labelWidth isHorizontal orientation position"
  defines "ex \<equiv> (if bl_rotated l then 12 else labelWidth) / 2" and "ey \<equiv> (if bl_rotated l then labelWidth else 12) / 2"
  assumes "bl_fits l"
  shows "x \<le> bl_x l - ex \<and> bl_x l + ex \<le> x + width \<and> y \<le> bl_y l - ey \<and> bl_y l + ey \<le> y + height"
proof -
  let ?N = "labelWidth + 10 \<le> width \<and> 18 \<le> height" and ?R = "labelWidth + 10 \<le> height \<and> 18 \<le> width"
  have fits: "bl_fits l \<longleftrightarrow> (case orientation of OrientHorizontal \<Rightarrow> ?N | OrientVertical \<Rightarrow> ?R | OrientAuto \<Rightarrow> ?N \<or> ?R)"
    and turned: "bl_rotated l \<longleftrightarrow> bl_fits l \<and> (orientation = OrientVertical \<or> (orientation = OrientAuto \<and> \<not> ?N))"
    by (simp_all add: l_def getBarValueLabelLayout_def Let_def MIN_CROSS_SIZE_def LABEL_LINE_HEIGHT_def)
  have "(if bl_rotated l then 12 else labelWidth) + 6 \<le> width" and "(if bl_rotated l then labelWidth else 12) + 6 \<le> height"
    using assms(1,5) turned unfolding fits by (cases orientation; auto)+
  then have "2 * ex + 6 \<le> width" "2 * ey + 6 \<le> height" by (simp_all add: ex_def ey_def)
  moreover have "bl_x l = (if isHorizontal then (case position of PosTop \<Rightarrow> x + width - 6 - ex | PosBottom \<Rightarrow> x + 6 + ex
      | PosCenter \<Rightarrow> x + width / 2) else x + width / 2)"
    "bl_y l = (if isHorizontal then y + height / 2 else (case position of PosTop \<Rightarrow> y + 6 + ey
      | PosBottom \<Rightarrow> y + height - 6 - ey | PosCenter \<Rightarrow> y + height / 2))"
    unfolding l_def ex_def ey_def getBarValueLabelLayout_def Let_def LABEL_LINE_HEIGHT_def LABEL_INSET_def bar_label.select_convs
    by (rule refl)+
  ultimately show ?thesis by (cases position; cases isHorizontal) (simp_all add: field_simps)
qed

theorem bar_label_inside_bar_witness:
  "bl_rotated (getBarValueLabelLayout 0 0 20 60 40 False OrientAuto PosTop) \<and>
    20 \<le> bl_y (getBarValueLabelLayout 0 0 20 60 40 False OrientAuto PosTop)"
proof -
  have l: "getBarValueLabelLayout 0 0 20 60 40 False OrientAuto PosTop = \<lparr>bl_fits = True, bl_rotated = True, bl_x = 10, bl_y = 26\<rparr>"
    unfolding getBarValueLabelLayout_def LABEL_LINE_HEIGHT_def LABEL_INSET_def MIN_CROSS_SIZE_def by simp
  show ?thesis using bar_label_inside_bar [of 40 0 0 20 60 False OrientAuto PosTop] unfolding l by simp
qed

text \<open>The index of the \<open>i\<close>-th of \<open>k + 1\<close> labels spread over points \<open>0\<close> to \<open>m\<close>.\<close>

lemma spread_step:
  assumes "0 < k" "k \<le> m"
  shows "js_round (of_nat (i * m) / of_nat k) < js_round (of_nat (Suc i * m) / of_nat k)"
proof -
  have "of_nat (Suc i * m) = (of_nat (i * m) + of_nat m :: rat)" by (simp only: mult_Suc of_nat_add add.commute)
  then have "(of_nat (Suc i * m) / of_nat k :: rat) = of_nat (i * m) / of_nat k + of_nat m / of_nat k"
    by (simp only: add_divide_distrib)
  moreover have "(1 :: rat) \<le> of_nat m / of_nat k" using assms by (simp add: le_divide_eq)
  ultimately have "of_nat (i * m) / of_nat k + 1 \<le> (of_nat (Suc i * m) / of_nat k :: rat)" by linarith
  then have "js_round (of_nat (i * m) / of_nat k + 1) \<le> js_round (of_nat (Suc i * m) / of_nat k)" by (rule js_round_mono)
  moreover have "js_round (of_nat (i * m) / of_nat k + 1) = js_round (of_nat (i * m) / of_nat k) + 1"
    unfolding js_round_def one_add_floor by (simp add: ac_simps)
  ultimately show ?thesis by linarith
qed

lemma spread_sorted:
  assumes "0 < k" "k \<le> m"
  shows "sorted_wrt (<) (map (\<lambda>i. js_round (of_nat (i * m) / of_nat k)) [0..<n])"
proof -
  have "js_round (of_nat (i * m) / of_nat k) < js_round (of_nat (j * m) / of_nat k)" if "i < j" for i j
    using that spread_step [OF assms] by (rule lift_Suc_mono_less [rotated])
  then show ?thesis by (simp add: sorted_wrt_map sorted_wrt_iff_nth_less)
qed

lemma sorted_between:
  fixes xs :: "int list"
  assumes "sorted_wrt (<) xs" "xs \<noteq> []"
  shows "set xs \<subseteq> {hd xs..last xs}"
proof -
  have "hd xs \<le> xs ! i \<and> xs ! i \<le> last xs" if "i < length xs" for i
    using assms that sorted_nth_mono [of xs 0 i] sorted_nth_mono [of xs i "length xs - 1"]
    by (simp add: hd_conv_nth last_conv_nth strict_sorted_imp_sorted)
  then show ?thesis by (auto simp: in_set_conv_nth)
qed

lemma spread_labels:
  fixes n len :: nat
  assumes "2 \<le> n" "n \<le> len"
  defines "xs \<equiv> map (\<lambda>i. js_round (of_nat (i * (len - 1)) / of_nat (n - 1))) [0..<n]"
  shows "length xs = n \<and> sorted_wrt (<) xs \<and> set xs \<subseteq> {0..<int len} \<and> hd xs = 0 \<and> last xs = int len - 1"
proof -
  have "(of_nat ((n - 1) * (len - 1)) / of_nat (n - 1) :: rat) = of_int (int len - 1)" using assms(1,2) by (simp add: of_nat_diff)
  then have "js_round (of_nat ((n - 1) * (len - 1)) / of_nat (n - 1)) = int len - 1" by (simp only: js_round_of_int)
  moreover have "last [0..<n] = n - 1" "[0..<n] \<noteq> []" using assms(1) by simp_all
  ultimately have "last xs = int len - 1" and ne: "xs \<noteq> []" by (simp_all only: xs_def last_map map_is_Nil_conv not_False_eq_True)
  moreover have "hd xs = 0" using js_round_of_int [of 0] assms(1) by (simp add: xs_def hd_map)
  moreover have sorted: "sorted_wrt (<) xs" unfolding xs_def by (rule spread_sorted) (use assms(1,2) in linarith)+
  moreover have "set xs \<subseteq> {0..<int len}" using sorted_between [OF sorted ne] calculation by auto
  moreover have "length xs = n" by (simp add: xs_def)
  ultimately show ?thesis by blast
qed

text \<open>Labels are spread evenly: asked for some number of labels on a series, the indices are as many as
  asked (or as points there are), grow strictly, so no point gets two, stay on the series, and include both
  ends when there are at least two.\<close>

theorem label_indices_spread:
  fixes len :: nat and amount :: rat
  defines "is \<equiv> evenlySpacedLabelIndices len amount"
  shows "length is = min (nat \<lfloor>amount\<rfloor>) len \<and> sorted_wrt (<) is \<and> set is \<subseteq> {0..<int len} \<and>
    (2 \<le> length is \<longrightarrow> hd is = 0 \<and> last is = int len - 1)"
proof -
  define n where "n = min (nat (max 0 \<lfloor>amount\<rfloor>)) len"
  have n: "n = min (nat \<lfloor>amount\<rfloor>) len" and le: "n \<le> len" by (simp_all add: n_def)
  have "is = (if n = 0 then [] else if n = 1 then [0] else map (\<lambda>i. js_round (of_nat (i * (len - 1)) / of_nat (n - 1))) [0..<n])"
    by (simp only: is_def evenlySpacedLabelIndices_def Let_def n_def)
  moreover consider "n = 0" | "n = 1" | "2 \<le> n" by linarith
  ultimately show ?thesis unfolding n [symmetric] using le spread_labels [of n len] by cases auto
qed

theorem label_indices_spread_witness:
  "length (evenlySpacedLabelIndices 10 4) = 4 \<and> last (evenlySpacedLabelIndices 10 4) = 9"
proof -
  have "length (evenlySpacedLabelIndices 10 4) = 4" using label_indices_spread [of 10 4] by simp
  with label_indices_spread [of 10 4] show ?thesis by simp
qed

text \<open>Squares fill their bar: in fit mode the squares of a bar at least one square long stand on its
  base, never overlap and are at least the asked gap apart, the topmost ends exactly at the bar's end when
  there is more than one, and one more square would not have fitted.\<close>

theorem squares_fill_bar:
  fixes len side gap :: rat
  assumes "0 < side" "side \<le> len" "0 \<le> gap"
  defines "c \<equiv> computeSquareColumn len side gap True"
  shows "length (sq_positions c) = nat (sq_count c) \<and> 1 \<le> sq_count c \<and> sq_positions c ! 0 = len - side \<and>
    (\<forall>i. Suc i < length (sq_positions c) \<longrightarrow> sq_positions c ! Suc i + side + gap \<le> sq_positions c ! i) \<and>
    (1 < sq_count c \<longrightarrow> last (sq_positions c) = 0) \<and> len < of_int (sq_count c + 1) * side + of_int (sq_count c) * gap"
proof -
  let ?q = "(len + gap) / (side + gap)"
  have sg: "0 < side + gap" using assms by linarith
  have "1 \<le> ?q" using assms sg by (simp add: le_divide_eq)
  then have "1 \<le> \<lfloor>?q\<rfloor>" by simp
  then obtain n where n: "\<lfloor>?q\<rfloor> = int n" using zero_le_imp_eq_int [of "\<lfloor>?q\<rfloor>"] by auto
  with \<open>1 \<le> \<lfloor>?q\<rfloor>\<close> have one: "1 \<le> n" by simp
  have "of_int (int n) \<le> ?q" "?q < of_int (int n) + 1" using n by linarith+
  then have low: "of_nat n * (side + gap) \<le> len + gap" and high: "len + gap < (of_nat n + 1) * (side + gap)"
    using sg by (simp_all add: le_divide_eq divide_less_eq)
  let ?g = "if int n > 1 then max 0 ((len - of_int (int n) * side) / of_int (int n - 1)) else 0"
  have c: "c = \<lparr>sq_count = int n, sq_positions = map (\<lambda>i. len - side - of_nat i * (side + ?g)) [0..<n], sq_height = len, sq_size = side, sq_gap = ?g\<rparr>"
    using assms n one by (simp add: c_def computeSquareColumn_def Let_def)
  have g: "gap \<le> ?g \<and> of_nat (n - 1) * ?g = len - of_nat n * side" if "1 < n"
  proof -
    have pos: "0 < (of_nat (n - 1) :: rat)" using that by simp
    have nn: "(of_nat n :: rat) = of_nat (n - 1) + 1" using that by (simp add: of_nat_diff)
    have "of_nat (n - 1) * gap \<le> len - of_nat n * side" using low unfolding nn by (simp add: algebra_simps)
    then have "gap \<le> (len - of_nat n * side) / of_nat (n - 1)" using pos by (simp add: le_divide_eq mult.commute)
    moreover have "of_int (int n - 1) = (of_nat (n - 1) :: rat)" using that by (simp add: of_nat_diff)
    ultimately have "?g = (len - of_nat n * side) / of_nat (n - 1)" using that assms(3) by simp
    then show ?thesis using \<open>gap \<le> (len - of_nat n * side) / of_nat (n - 1)\<close> pos by simp
  qed
  have apart_squares: "sq_positions c ! Suc i + side + gap \<le> sq_positions c ! i" if "Suc i < length (sq_positions c)" for i
  proof -
    have "1 < n" "Suc i < n" using that by (simp_all add: c)
    then show ?thesis using g by (simp add: c algebra_simps)
  qed
  have top: "last (sq_positions c) = 0" if "1 < sq_count c"
  proof -
    have "1 < n" using that by (simp add: c)
    moreover have "(of_nat n :: rat) = of_nat (n - 1) + 1" using one by (simp add: of_nat_diff)
    ultimately have "len - side - of_nat (n - 1) * (side + ?g) = 0" using g by (simp add: algebra_simps)
    moreover have "last (sq_positions c) = len - side - of_nat (n - 1) * (side + ?g)" using one by (simp add: c last_map)
    ultimately show ?thesis by simp
  qed
  have "sq_positions c ! 0 = len - side" using one by (simp add: c)
  moreover have "len < of_int (sq_count c + 1) * side + of_int (sq_count c) * gap" using high by (simp add: c algebra_simps)
  ultimately show ?thesis using apart_squares top one by (simp add: c)
qed

theorem squares_fill_bar_witness:
  "length (sq_positions (computeSquareColumn 25 6 2 True)) = 3 \<and> last (sq_positions (computeSquareColumn 25 6 2 True)) = 0"
proof -
  have "\<lfloor>27 / 8 :: rat\<rfloor> = 3" by (simp add: floor_eq_iff)
  then have n: "sq_count (computeSquareColumn 25 6 2 True) = 3" by (simp add: computeSquareColumn_def Let_def)
  from squares_fill_bar [of 6 25 2] show ?thesis by (simp add: n)
qed

end
