(* ===== verification/Chart_Paths.thy ===== *)
theory Chart_Paths
  imports Js_Values
begin

text \<open>The text the charts write: the path of a shape, \<open>components/charts/fast-path.ts\<close>, whose coordinates are
  built from the rounded integer instead of formatting a fraction; the labels of a long series, formatted
  when they are first read (\<open>lazyLabels\<close> in \<open>chart-formatters.ts\<close>); and the React keys of lists that have no
  ids (\<open>keyByText\<close> and \<open>placeholderKeys\<close> in \<open>lib/utils.ts\<close>). Coordinates are exact numbers or one of the
  values a chart without data computes (\<open>NaN\<close>, an infinity).\<close>

subsection \<open>Coordinates\<close>

definition round_coordinate :: "jnum \<Rightarrow> jnum" where
  "round_coordinate v = (case v of Fin r \<Rightarrow> Fin (of_int (js_round (r * 1000)) / 1000) | x \<Rightarrow> x)"

definition formatCoordinate :: "jnum \<Rightarrow> string" where
  "formatCoordinate value = (case value of
     Fin r \<Rightarrow>
       (let scaled = js_round (r * 1000)
        in if \<not> (scaled > - (10 ^ 12) \<and> scaled < 10 ^ 12) then num_text (Fin (of_int scaled / 1000))
           else if scaled = 0 then ''0''
           else (let negative = scaled < 0; a = nat \<bar>scaled\<bar>; whole = a div 1000; fraction = a - whole * 1000;
                     head = (if negative then ''-'' else []) @ string_of_nat whole
                 in if fraction = 0 then head
                    else if fraction mod 100 = 0 then head @ ''.'' @ string_of_nat (fraction div 100)
                    else if fraction mod 10 = 0 then
                      head @ ''.'' @ (if fraction < 100 then ''0'' else []) @ string_of_nat (fraction div 10)
                    else (let pad = (if fraction < 10 then ''00'' else if fraction < 100 then ''0'' else [])
                          in head @ ''.'' @ pad @ string_of_nat fraction)))
   | x \<Rightarrow> num_text x)"

subsection \<open>Paths\<close>

text \<open>What a d3 shape calls on its context.\<close>

datatype path_call =
    PathMove jnum jnum
  | PathLine jnum jnum
  | PathClose
  | PathQuadratic jnum jnum jnum jnum
  | PathBezier jnum jnum jnum jnum jnum jnum
  | PathArcTo | PathArc | PathRect

record fast_path =
  fp_d :: string
  fp_unsupported :: bool
  fp_open :: bool

definition new_path :: fast_path where
  "new_path = \<lparr>fp_d = [], fp_unsupported = False, fp_open = False\<rparr>"

definition coords :: "jnum list \<Rightarrow> string" where
  "coords xs = join '','' (map formatCoordinate xs)"

fun run_call :: "fast_path \<Rightarrow> path_call \<Rightarrow> fast_path" where
  "run_call p (PathMove x y) = p\<lparr>fp_d := fp_d p @ ''M'' @ coords [x, y], fp_open := True\<rparr>"
| "run_call p (PathLine x y) = p\<lparr>fp_d := fp_d p @ ''L'' @ coords [x, y], fp_open := True\<rparr>"
| "run_call p PathClose = (if fp_open p then p\<lparr>fp_d := fp_d p @ ''Z''\<rparr> else p)"
| "run_call p (PathQuadratic x1 y1 x y) = p\<lparr>fp_d := fp_d p @ ''Q'' @ coords [x1, y1, x, y], fp_open := True\<rparr>"
| "run_call p (PathBezier x1 y1 x2 y2 x y) =
     p\<lparr>fp_d := fp_d p @ ''C'' @ coords [x1, y1, x2, y2, x, y], fp_open := True\<rparr>"
| "run_call p PathArcTo = p\<lparr>fp_unsupported := True\<rparr>"
| "run_call p PathArc = p\<lparr>fp_unsupported := True\<rparr>"
| "run_call p PathRect = p\<lparr>fp_unsupported := True\<rparr>"

text \<open>A generator is d3's: here it is the calls it makes on a context it is given and the text it returns by
  itself, \<open>None\<close> for null.\<close>

definition fastShapePath :: "path_call list \<Rightarrow> string option \<Rightarrow> string" where
  "fastShapePath calls own_text =
     (let context = foldl run_call new_path calls
      in if fp_unsupported context then (case own_text of None \<Rightarrow> [] | Some d \<Rightarrow> d) else fp_d context)"

subsection \<open>Labels read when needed\<close>

definition EAGER_LABEL_LIMIT :: nat where "EAGER_LABEL_LIMIT = 64"

text \<open>\<open>prop\<close> as an array index below \<open>length\<close>.\<close>

definition toArrayIndex :: "string \<Rightarrow> nat \<Rightarrow> nat option" where
  "toArrayIndex p len =
     (if p = [] then None
      else if code (hd p) < 48 \<or> code (hd p) > 57 then None
      else (case as_integer (js_number p) of
          Some i \<Rightarrow> if i < int len \<and> string_of_int i = p then Some (nat i) else None
        | None \<Rightarrow> None))"

text \<open>The labels: all of them at once for a short series; else an array of holes, filled as labels are read.
  A read of a property gives the value, the array and whether the label was formatted now; a property that
  is no index is the array's own, \<open>None\<close> here.\<close>

definition lazy_labels :: "nat \<Rightarrow> (nat \<Rightarrow> string) \<Rightarrow> string option list" where
  "lazy_labels len format = (if len \<le> EAGER_LABEL_LIMIT then map (\<lambda>i. Some (format i)) [0..<len] else replicate len None)"

definition read_label :: "(nat \<Rightarrow> string) \<Rightarrow> string option list \<Rightarrow> string \<Rightarrow> string option \<times> string option list" where
  "read_label format cache p = (case toArrayIndex p (length cache) of
     None \<Rightarrow> (None, cache)
   | Some i \<Rightarrow> (case cache ! i of
         Some label \<Rightarrow> (Some label, cache)
       | None \<Rightarrow> (Some (format i), cache[i := Some (format i)])))"

definition has_label :: "string option list \<Rightarrow> string \<Rightarrow> bool" where
  "has_label cache p = (toArrayIndex p (length cache) \<noteq> None)"

fun read_labels :: "(nat \<Rightarrow> string) \<Rightarrow> string option list \<Rightarrow> string list \<Rightarrow> string option list" where
  "read_labels format cache [] = []"
| "read_labels format cache (p # ps) = (let (v, cache') = read_label format cache p in v # read_labels format cache' ps)"

subsection \<open>Keys\<close>

fun key_texts :: "string list \<Rightarrow> string list \<Rightarrow> string list" where
  "key_texts seen [] = []"
| "key_texts seen (s # ss) = (string_of_nat (length (filter ((=) s) seen)) @ '':'' @ s) # key_texts (seen @ [s]) ss"

definition keyByText :: "'a list \<Rightarrow> ('a \<Rightarrow> string) \<Rightarrow> (string \<times> 'a) list" where
  "keyByText items textOf = zip (key_texts [] (map textOf items)) items"

definition placeholderKeys :: "string \<Rightarrow> nat \<Rightarrow> string list" where
  "placeholderKeys name n = map (\<lambda>i. name @ ''-'' @ string_of_nat (i + 1)) [0..<n]"

subsection \<open>The short form of a coordinate\<close>

lemma frac_digits_step:
  assumes "f < 10 ^ Suc k"
  shows "frac_digits (Suc n) (of_nat f / 10 ^ Suc k) =
    (if f = 0 then [] else digit_char (f div 10 ^ k) # frac_digits n (of_nat (f mod 10 ^ k) / 10 ^ k))"
proof -
  have ten: "10 * (of_nat f / 10 ^ Suc k :: rat) = of_nat f / 10 ^ k" by simp
  have split: "(of_nat f :: rat) = of_nat (f div 10 ^ k) * 10 ^ k + of_nat (f mod 10 ^ k)"
  proof -
    have "of_nat f = (of_nat (f div 10 ^ k * 10 ^ k + f mod 10 ^ k) :: rat)" by (simp only: div_mult_mod_eq)
    then show ?thesis by (simp only: of_nat_add of_nat_mult of_nat_power of_nat_numeral)
  qed
  have "of_nat f / 10 ^ k = (of_nat (f div 10 ^ k) + of_nat (f mod 10 ^ k) / 10 ^ k :: rat)"
    unfolding split by (simp add: add_divide_distrib)
  moreover have "0 \<le> (of_nat (f mod 10 ^ k) / 10 ^ k :: rat)" "of_nat (f mod 10 ^ k) / 10 ^ k < (1 :: rat)"
    by (simp_all add: divide_less_eq)
  ultimately have fl: "\<lfloor>of_nat f / 10 ^ k :: rat\<rfloor> = int (f div 10 ^ k)" and
    rest: "of_nat f / 10 ^ k - of_int (int (f div 10 ^ k)) = (of_nat (f mod 10 ^ k) / 10 ^ k :: rat)"
    by (simp_all add: floor_eq_iff)
  show ?thesis by (simp only: frac_digits.simps(2) ten fl rest) (simp add: rest)
qed

lemma string_of_nat_1: "n < 10 \<Longrightarrow> string_of_nat n = [digit_char n]"
  by (simp add: string_of_nat.simps [of n])

lemma string_of_nat_2: "10 \<le> n \<Longrightarrow> n < 100 \<Longrightarrow> string_of_nat n = [digit_char (n div 10), digit_char (n mod 10)]"
  by (subst string_of_nat.simps) (simp add: string_of_nat_1)

lemma string_of_nat_3:
  "100 \<le> n \<Longrightarrow> n < 1000 \<Longrightarrow> string_of_nat n = [digit_char (n div 100), digit_char (n div 10 mod 10), digit_char (n mod 10)]"
  by (subst string_of_nat.simps) (simp add: string_of_nat_2 div_mult2_eq [symmetric])

lemma digit_char_0: "digit_char 0 = CHR ''0''"
  unfolding digit_char_def by code_simp

lemma frac_digits_zero [simp]: "frac_digits n 0 = []"
  by (cases n) simp_all

text \<open>The three decimals, without the zeros at their end.\<close>

definition decimals :: "nat \<Rightarrow> string" where
  "decimals f = (if f mod 100 = 0 then string_of_nat (f div 100)
     else if f mod 10 = 0 then (if f < 100 then ''0'' else []) @ string_of_nat (f div 10)
     else (if f < 10 then ''00'' else if f < 100 then ''0'' else []) @ string_of_nat f)"

lemma decimal_join:
  "(if f = 0 then h
    else if f mod 100 = 0 then h @ ''.'' @ string_of_nat (f div 100)
    else if f mod 10 = 0 then h @ ''.'' @ (if f < 100 then ''0'' else []) @ string_of_nat (f div 10)
    else h @ ''.'' @ (if f < 10 then ''00'' else if f < 100 then ''0'' else []) @ string_of_nat f) =
   h @ (if f = 0 then [] else ''.'' @ decimals f)"
  by (simp add: decimals_def)

lemma frac_digits_decimals:
  assumes "0 < f" "f < 1000"
  shows "frac_digits 21 (of_nat f / 1000) = decimals f"
proof -
  have n: "(21 :: nat) = Suc (Suc (Suc 18))" by simp
  have p: "(1000 :: rat) = 10 ^ Suc 2" "(1000 :: nat) = 10 ^ Suc 2" by simp_all
  have "frac_digits 21 (of_nat f / 1000) = digit_char (f div 100) # frac_digits (Suc (Suc 18)) (of_nat (f mod 100) / 10 ^ 2)"
    using frac_digits_step [of f 2 "Suc (Suc 18)"] assms unfolding n p by simp
  also have "frac_digits (Suc (Suc 18)) (of_nat (f mod 100) / 10 ^ 2) =
      (if f mod 100 = 0 then [] else digit_char (f mod 100 div 10) # frac_digits (Suc 18) (of_nat (f mod 100 mod 10) / 10 ^ 1))"
    using frac_digits_step [of "f mod 100" 1 "Suc 18"] by (simp add: numeral_2_eq_2)
  also have "frac_digits (Suc 18) (of_nat (f mod 100 mod 10) / 10 ^ 1) =
      (if f mod 10 = 0 then [] else [digit_char (f mod 10)])"
    using frac_digits_step [of "f mod 100 mod 10" 0 18] by (simp add: mod_mod_cancel)
  finally have eq: "frac_digits 21 (of_nat f / 1000) = digit_char (f div 100) # (if f mod 100 = 0 then []
      else digit_char (f mod 100 div 10) # (if f mod 10 = 0 then [] else [digit_char (f mod 10)]))" .
  have tens: "f mod 100 div 10 = f div 10 mod 10" using mod_mult2_eq [of f 10 10] by simp
  consider "f mod 100 = 0" | "f mod 100 \<noteq> 0" "f mod 10 = 0" "f < 100" | "f mod 100 \<noteq> 0" "f mod 10 = 0" "100 \<le> f"
    | "f mod 10 \<noteq> 0" "f < 10" | "f mod 10 \<noteq> 0" "10 \<le> f" "f < 100" | "f mod 10 \<noteq> 0" "100 \<le> f" by linarith
  then show ?thesis
  proof cases
    case 1
    then show ?thesis using assms by (simp add: eq decimals_def string_of_nat_1)
  next
    case 2
    then show ?thesis by (simp add: eq decimals_def string_of_nat_1 digit_char_0)
  next
    case 3
    then show ?thesis using assms by (simp add: eq decimals_def string_of_nat_2 tens div_mult2_eq [symmetric])
  next
    case 4
    then have "f mod 100 \<noteq> 0" by simp
    then show ?thesis using 4 by (simp add: eq decimals_def string_of_nat_1 digit_char_0)
  next
    case 5
    then have "f mod 100 \<noteq> 0" by simp
    then show ?thesis using 5 by (simp add: eq decimals_def string_of_nat_2 digit_char_0)
  next
    case 6
    then have "f mod 100 \<noteq> 0" by presburger
    then show ?thesis using 6 assms by (simp add: eq decimals_def string_of_nat_3 tens)
  qed
qed

lemma formatCoordinate_short: "formatCoordinate v = num_text (round_coordinate v)"
proof (cases v)
  case (Fin r)
  define s where "s = js_round (r * 1000)"
  define a where "a = nat \<bar>s\<bar>"
  have abs: "\<bar>of_int s / 1000 :: rat\<bar> = of_nat a / 1000" by (simp add: a_def abs_divide of_nat_nat)
  have split: "(of_nat a / 1000 :: rat) = of_nat (a div 1000) + of_nat (a mod 1000) / 1000"
  proof -
    have "of_nat a = (of_nat (a div 1000 * 1000 + a mod 1000) :: rat)" by (simp only: div_mult_mod_eq)
    then show ?thesis by (simp only: of_nat_add of_nat_mult of_nat_numeral add_divide_distrib)
  qed
  have small: "0 \<le> (of_nat (a mod 1000) / 1000 :: rat)" "of_nat (a mod 1000) / 1000 < (1 :: rat)" by (simp_all add: divide_less_eq)
  have fl: "\<lfloor>of_nat a / 1000 :: rat\<rfloor> = int (a div 1000)" unfolding split using small by (simp add: floor_eq_iff)
  have rest: "of_nat a / 1000 - of_int (int (a div 1000)) = (of_nat (a mod 1000) / 1000 :: rat)" unfolding split by simp
  have shown: "rat_text (of_int s / 1000) = (if s < 0 then ''-'' else []) @ string_of_nat (a div 1000) @
      (if a mod 1000 = 0 then [] else ''.'' @ decimals (a mod 1000))"
    using frac_digits_decimals [of "a mod 1000"] unfolding rat_text_def abs fl rest Let_def by (simp add: divide_less_0_iff)
  have frac: "a - a div 1000 * 1000 = a mod 1000" by (simp add: minus_div_mult_eq_mod)
  show ?thesis
  proof (cases "s = 0")
    case True
    then show ?thesis using Fin by (simp add: formatCoordinate_def round_coordinate_def s_def [symmetric] rat_text_def string_of_nat_1 digit_char_0)
  next
    case False
    have fast: "formatCoordinate v = (if \<not> (s > - (10 ^ 12) \<and> s < 10 ^ 12) then rat_text (of_int s / 1000)
      else ((if s < 0 then ''-'' else []) @ string_of_nat (a div 1000)) @ (if a mod 1000 = 0 then [] else ''.'' @ decimals (a mod 1000)))"
      unfolding formatCoordinate_def Fin jnum.simps s_def [symmetric] num_text.simps
      using False by (simp only: Let_def a_def [symmetric] frac decimal_join if_False)
    show ?thesis unfolding fast unfolding Fin round_coordinate_def jnum.simps s_def [symmetric] num_text.simps shown by (simp only: append_assoc if_cancel)
  qed
qed (simp_all add: formatCoordinate_def round_coordinate_def)

text \<open>So each coordinate of a path is the short text of the number rounded to three decimals, \<open>NaN\<close> and the infinities
  included.\<close>

lemma coords_rounded: "coords xs = join '','' (map (num_text \<circ> round_coordinate) xs)"
  unfolding coords_def by (rule arg_cong [where f = "join '',''"], rule map_cong) (simp_all add: formatCoordinate_short)

subsection \<open>Labels and keys\<close>

lemma toArrayIndex_Some: "toArrayIndex p n = Some i \<Longrightarrow> i < n \<and> p = string_of_nat i"
  by (auto simp: toArrayIndex_def string_of_int_def code_def split: if_splits option.splits)

text \<open>The array a series' labels are read from: each label it holds is the formatted one.\<close>

definition labels_sound :: "nat \<Rightarrow> (nat \<Rightarrow> string) \<Rightarrow> string option list \<Rightarrow> bool" where
  "labels_sound n format cache = (length cache = n \<and> list_all (\<lambda>i. cache ! i = None \<or> cache ! i = Some (format i)) [0..<n])"

lemma lazy_labels_sound: "labels_sound n format (lazy_labels n format)"
  by (simp add: labels_sound_def lazy_labels_def list_all_iff)

lemma read_label_sound:
  assumes "labels_sound n format cache"
  shows "fst (read_label format cache p) = map_option format (toArrayIndex p n) \<and>
    labels_sound n format (snd (read_label format cache p))"
proof (cases "toArrayIndex p n")
  case (Some i)
  then have i: "i < length cache" "cache ! i = None \<or> cache ! i = Some (format i)"
    using assms toArrayIndex_Some [OF Some] by (auto simp: labels_sound_def list_all_iff)
  from i(2) show ?thesis
    by (elim disjE) (use assms Some i(1) in \<open>auto simp: labels_sound_def read_label_def list_all_iff nth_list_update\<close>)
qed (use assms in \<open>simp add: labels_sound_def read_label_def\<close>)

lemma read_labels_format:
  "labels_sound n format cache \<Longrightarrow> read_labels format cache ps = map (\<lambda>p. map_option format (toArrayIndex p n)) ps"
proof (induction ps arbitrary: cache)
  case (Cons p ps)
  then show ?case using read_label_sound [OF Cons.prems, of p] by (simp add: case_prod_unfold Let_def)
qed simp

lemma digits_value_10:
  assumes "s \<noteq> []" "\<forall>c\<in>set s. is_digit c"
  shows "digits_value 10 s = Some (nat_of_digits s)"
proof -
  have "foldl (\<lambda>n c. 10 * n + (if is_digit c then code c - 48 else if 97 \<le> code c \<and> code c \<le> 122 then code c - 87
      else if 65 \<le> code c \<and> code c \<le> 90 then code c - 55 else 99)) 0 s = foldl (\<lambda>n c. 10 * n + (code c - 48)) 0 s"
    using assms(2) by (intro foldl_cong) simp_all
  moreover have "\<not> (\<exists>c\<in>set s. 10 \<le> (if is_digit c then code c - 48 else if 97 \<le> code c \<and> code c \<le> 122 then code c - 87
      else if 65 \<le> code c \<and> code c \<le> 90 then code c - 55 else 99))"
    using assms(2) by (auto simp: is_digit_def)
  ultimately show ?thesis using assms(1) by (simp add: digits_value_def nat_of_digits_def Let_def)
qed

lemma takeWhile_fits: "(\<And>c. c \<in> set s \<Longrightarrow> P c) \<Longrightarrow> takeWhile P s = s \<and> dropWhile P s = []"
  by (simp add: takeWhile_eq_all_conv)

lemma js_number_of_nat: "js_number (string_of_nat n) = Fin (of_nat n)"
proof -
  let ?s = "string_of_nat n"
  have d: "\<forall>c\<in>set ?s. is_digit c" using string_of_nat_digits by blast
  have non: "c \<in> set ?s \<Longrightarrow> c \<noteq> CHR ''e'' \<and> c \<noteq> CHR ''E'' \<and> c \<noteq> CHR ''.'' \<and> c \<noteq> CHR ''x'' \<and> c \<noteq> CHR ''X'' \<and>
      c \<noteq> CHR ''o'' \<and> c \<noteq> CHR ''O'' \<and> c \<noteq> CHR ''b'' \<and> c \<noteq> CHR ''B'' \<and> c \<noteq> CHR ''I'' \<and> c \<noteq> CHR ''-'' \<and> c \<noteq> CHR ''+'' \<and> \<not> is_space c" for c
    using d by (auto simp: is_digit_def is_space_def code_def)
  obtain c r where s: "?s = c # r" by (cases ?s) simp_all
  have tr: "trim ?s = ?s" using non by (intro trim_fix) (auto dest: hd_in_set last_in_set)
  have sg: "signed ?s = (False, ?s)" using non [of c] by (simp add: s signed_def)
  have e: "split_first (\<lambda>c. c = CHR ''e'' \<or> c = CHR ''E'') ?s = (?s, None)" "split_first (\<lambda>c. c = CHR ''.'') ?s = (?s, None)"
    using takeWhile_fits [of ?s] non by (simp_all add: split_first_def)
  have "decimal_value ?s = Some (of_nat n)"
    using digits_value_10 [of ?s] d by (simp add: decimal_value_def e nat_of_string_of_nat)
  moreover have "?s \<noteq> ''Infinity''" using non [of "CHR ''I''"] by (metis list.set_intros(1))
  moreover have "\<not> startsWith ?s [CHR ''0'', x]" if "x \<in> {CHR ''x'', CHR ''X'', CHR ''o'', CHR ''O'', CHR ''b'', CHR ''B''}" for x
    using non [of x] that by (auto simp: startsWith_iff)
  ultimately show ?thesis by (simp add: js_number_def tr sg Let_def)
qed

lemma toArrayIndex_nat: "i < n \<Longrightarrow> toArrayIndex (string_of_nat i) n = Some i"
proof -
  assume "i < n"
  obtain c r where s: "string_of_nat i = c # r" by (cases "string_of_nat i") simp_all
  have "is_digit c" using string_of_nat_digits [of c i] by (simp add: s)
  moreover have "as_integer (Fin (of_nat i)) = Some (int i)" using as_integer_of_int [of "int i"] by simp
  ultimately show ?thesis using \<open>i < n\<close> js_number_of_nat [of i]
    by (simp add: toArrayIndex_def s [symmetric] string_of_int_def) (simp add: s is_digit_def)
qed

text \<open>Labels read late are the labels: whatever the properties read and in whatever order, a series of any
  length gives for each index the label formatted for it, for every other property nothing of its own,
  and an index's text is exactly its decimal form.\<close>

theorem labels_when_read:
  "read_labels format (lazy_labels n format) ps = map (\<lambda>p. map_option format (toArrayIndex p n)) ps \<and>
    toArrayIndex p n = (if \<exists>i<n. p = string_of_nat i then Some (nat_of_digits p) else None)"
  using read_labels_format [OF lazy_labels_sound] toArrayIndex_nat toArrayIndex_Some [of p n]
  by (cases "toArrayIndex p n") (auto simp: nat_of_string_of_nat)

lemma key_texts_length [simp]: "length (key_texts seen ss) = length ss"
  by (induction ss arbitrary: seen) simp_all

lemma key_texts_nth:
  "i < length ss \<Longrightarrow> key_texts seen ss ! i = string_of_nat (length (filter ((=) (ss ! i)) (seen @ take i ss))) @ '':'' @ ss ! i"
proof (induction ss arbitrary: seen i)
  case (Cons s ss)
  then show ?case by (cases i) simp_all
qed simp

lemma colon_key:
  assumes "string_of_nat m @ '':'' @ s = string_of_nat n @ '':'' @ t"
  shows "m = n \<and> s = t"
proof -
  have "CHR '':'' \<notin> set (string_of_nat k)" for k
    using string_of_nat_digits [of "CHR '':''" k] by (auto simp: is_digit_def code_def)
  then have "takeWhile (\<lambda>c. c \<noteq> CHR '':'') (string_of_nat k @ '':'' @ u) = string_of_nat k" for k u
    by (subst takeWhile_append2) auto
  then have "string_of_nat m = string_of_nat n" using assms by metis
  then show ?thesis using assms by simp
qed

text \<open>Lists without ids get keys: every item keeps its place, no two items of a list get the same key however
  often their texts repeat, and a list's keys depend on nothing but its texts; placeholders too have
  keys of their own.\<close>

theorem list_keys_unique:
  "map snd (keyByText items textOf) = items \<and> distinct (map fst (keyByText items textOf)) \<and> distinct (placeholderKeys name k)"
proof -
  let ?ss = "map textOf items"
  have "key_texts [] ?ss ! i \<noteq> key_texts [] ?ss ! j" if "i < j" "j < length items" for i j
  proof
    assume eq: "key_texts [] ?ss ! i = key_texts [] ?ss ! j"
    have "string_of_nat (length (filter ((=) (?ss ! i)) (take i ?ss))) @ '':'' @ ?ss ! i =
      string_of_nat (length (filter ((=) (?ss ! j)) (take j ?ss))) @ '':'' @ ?ss ! j"
      using eq that by (simp add: key_texts_nth)
    from colon_key [OF this] have same: "?ss ! i = ?ss ! j"
      and n: "length (filter ((=) (?ss ! i)) (take i ?ss)) = length (filter ((=) (?ss ! j)) (take j ?ss))" by (rule conjunct2, rule conjunct1)
    then have count: "length (filter ((=) (?ss ! i)) (take i ?ss)) = length (filter ((=) (?ss ! i)) (take j ?ss))" by (simp only:)
    have whole: "take j ?ss = take i (take j ?ss) @ take j ?ss ! i # drop (Suc i) (take j ?ss)"
      by (rule id_take_nth_drop) (use that in simp)
    have parts: "take i (take j ?ss) = take i ?ss" "take j ?ss ! i = ?ss ! i" using that by simp_all
    from arg_cong [OF whole [unfolded parts], of "\<lambda>xs. length (filter ((=) (?ss ! i)) xs)"] count show False
      by (simp only: filter_append length_append filter.simps refl if_True length_Cons)
  qed
  then have "distinct (key_texts [] ?ss)" unfolding distinct_conv_nth by (metis key_texts_length length_map linorder_neqE_nat)
  moreover have "distinct (placeholderKeys name k)"
    by (auto simp: placeholderKeys_def distinct_map intro!: inj_onI)
  ultimately show ?thesis by (simp add: keyByText_def)
qed

end
