(* ===== verification/Chart_Phases.thy ===== *)
theory Chart_Phases
  imports Chart_Domains
begin

text \<open>The life of a time-series chart, \<open>components/charts/use-chart-phase-orchestrator.ts\<close> and
  \<open>chart-phase.ts\<close>: a chart loads, its skeleton leaves, the grid moves to the new spacing, the series is
  revealed, and back. The hook keeps five pieces of React state; status flips and motion replays are applied
  while rendering, with the inputs of the last render kept in state, and the ends of animations come in as
  functional updates. \<open>hook_render\<close> is one call of the hook, \<open>hook_step\<close> an event followed by the renders
  React makes until no render sets state. Durations are milliseconds. The timer of the reveal is running
  exactly while the phase is \<open>revealing\<close>: the effect starts it there and its clean-up stops it. The phases
  also choose what is plotted, the y-domains and the chrome (\<open>y-domain-utils.ts\<close>), and
  \<open>use-animated-y-domains.ts\<close> decides what moves and what snaps.\<close>

subsection \<open>Phases\<close>

datatype chart_status = StatusLoading | StatusReady

datatype chart_phase =
  PhLoading | PhExiting | PhGridTweenReady | PhRevealing | PhReady | PhExitingReady | PhGridTweenLoading | PhRevealingLoading

fun resolveRestingChartPhase :: "chart_status \<Rightarrow> chart_phase" where
  "resolveRestingChartPhase StatusLoading = PhLoading"
| "resolveRestingChartPhase StatusReady = PhReady"

definition isChartInteractionPhase :: "chart_phase \<Rightarrow> bool" where
  "isChartInteractionPhase p = (p = PhReady)"

definition isLoadingChromePhase :: "chart_phase \<Rightarrow> bool" where
  "isLoadingChromePhase p = (p = PhLoading \<or> p = PhRevealingLoading)"

definition isLoadingGridChromePhase :: "chart_phase \<Rightarrow> bool" where
  "isLoadingGridChromePhase p = (p = PhLoading \<or> p = PhExiting \<or> p = PhGridTweenLoading)"

definition isYDomainTweenPhase :: "chart_phase \<Rightarrow> bool" where
  "isYDomainTweenPhase p = (p = PhGridTweenLoading \<or> p = PhGridTweenReady)"

fun resolveAnimatedYDestinationDomains :: "chart_phase \<Rightarrow> 'd \<Rightarrow> 'd \<Rightarrow> 'd" where
  "resolveAnimatedYDestinationDomains PhLoading skeleton target = skeleton"
| "resolveAnimatedYDestinationDomains PhExiting skeleton target = skeleton"
| "resolveAnimatedYDestinationDomains PhGridTweenLoading skeleton target = skeleton"
| "resolveAnimatedYDestinationDomains PhExitingReady skeleton target = target"
| "resolveAnimatedYDestinationDomains PhGridTweenReady skeleton target = target"
| "resolveAnimatedYDestinationDomains PhRevealing skeleton target = target"
| "resolveAnimatedYDestinationDomains PhReady skeleton target = target"
| "resolveAnimatedYDestinationDomains PhRevealingLoading skeleton target = target"

definition resolvePlotData :: "chart_phase \<Rightarrow> chart_status \<Rightarrow> 'd \<Rightarrow> 'd \<Rightarrow> 'd" where
  "resolvePlotData chartPhase chartStatus skeletonData targetData =
     (if chartPhase = PhExiting then skeletonData
      else if chartPhase = PhLoading \<and> chartStatus = StatusLoading then skeletonData
      else targetData)"

subsection \<open>The hook\<close>

text \<open>The options the hook is called with, less the data.\<close>

record chart_props =
  cp_status :: chart_status
  cp_duration :: int
  cp_tween :: int
  cp_signature :: string
  cp_skip :: bool

record phase_inputs =
  pi_status :: chart_status
  pi_phase :: chart_phase
  pi_duration :: int
  pi_signature :: string
  pi_skip :: bool

record phase_transition =
  pt_next :: chart_phase
  pt_resetLoaded :: bool
  pt_bumpConceal :: bool
  pt_bumpReveal :: bool

record phase_hook =
  ph_phase :: chart_phase
  ph_reveal :: nat
  ph_conceal :: nat
  ph_loaded :: bool
  ph_prev :: phase_inputs

definition resolveInitialChartPhase :: "chart_status \<Rightarrow> bool \<Rightarrow> int \<Rightarrow> chart_phase" where
  "resolveInitialChartPhase chartStatus skipEnterReveal animationDuration =
     (if chartStatus = StatusReady \<and> \<not> skipEnterReveal \<and> animationDuration > 0 then PhRevealing
      else resolveRestingChartPhase chartStatus)"

definition phaseInputsEqual :: "phase_inputs \<Rightarrow> phase_inputs \<Rightarrow> bool" where
  "phaseInputsEqual a b = (pi_status a = pi_status b \<and> pi_phase a = pi_phase b \<and> pi_duration a = pi_duration b \<and>
     pi_signature a = pi_signature b \<and> pi_skip a = pi_skip b)"

definition resolveStatusTransition :: "chart_status \<Rightarrow> chart_status \<Rightarrow> int \<Rightarrow> int \<Rightarrow> (chart_phase \<times> bool) option" where
  "resolveStatusTransition prevStatus chartStatus animationDuration yDomainTweenDuration =
     (if chartStatus = StatusReady \<and> prevStatus = StatusLoading then
        (if animationDuration > 0 then Some (PhExiting, False)
         else Some (if yDomainTweenDuration \<le> 0 then PhRevealing else PhGridTweenReady, False))
      else if chartStatus = StatusLoading \<and> prevStatus = StatusReady then
        (if animationDuration > 0 then Some (PhExitingReady, True)
         else Some (if yDomainTweenDuration \<le> 0 then PhLoading else PhGridTweenLoading, False))
      else None)"

definition shouldReplayReveal :: "phase_inputs \<Rightarrow> phase_inputs \<Rightarrow> bool" where
  "shouldReplayReveal old new =
     (if pi_skip new \<or> pi_status new \<noteq> StatusReady then False
      else if pi_phase new \<noteq> PhReady then False
      else pi_duration old \<noteq> pi_duration new \<or> pi_signature old \<noteq> pi_signature new \<or> pi_skip old \<noteq> pi_skip new)"

definition resolvePhaseTransition :: "phase_inputs \<Rightarrow> phase_inputs \<Rightarrow> int \<Rightarrow> phase_transition" where
  "resolvePhaseTransition old new yDomainTweenDuration =
     (let (nextPhase, resetLoaded, bumpConceal) =
        (if pi_status old = pi_status new then
           (if shouldReplayReveal old new then (PhRevealing, True, False) else (pi_phase new, False, False))
         else (case resolveStatusTransition (pi_status old) (pi_status new) (pi_duration new) yDomainTweenDuration of
             Some (phase, conceal) \<Rightarrow> (phase, True, conceal)
           | None \<Rightarrow> (pi_phase new, False, False)))
      in \<lparr>pt_next = nextPhase, pt_resetLoaded = resetLoaded, pt_bumpConceal = bumpConceal,
          pt_bumpReveal = (nextPhase = PhRevealing \<and>
            (pi_phase old \<noteq> PhRevealing \<or> nextPhase \<noteq> pi_phase new \<or> pi_duration old \<noteq> pi_duration new))\<rparr>)"

definition inputs_of :: "chart_props \<Rightarrow> chart_phase \<Rightarrow> phase_inputs" where
  "inputs_of p phase = \<lparr>pi_status = cp_status p, pi_phase = phase, pi_duration = cp_duration p,
     pi_signature = cp_signature p, pi_skip = cp_skip p\<rparr>"

definition hook_init :: "chart_props \<Rightarrow> phase_hook" where
  "hook_init p =
     (let phase = resolveInitialChartPhase (cp_status p) (cp_skip p) (cp_duration p)
      in \<lparr>ph_phase = phase,
          ph_reveal = (if cp_status p = StatusReady \<and> \<not> cp_skip p then 1 else 0),
          ph_conceal = 0,
          ph_loaded = (cp_status p = StatusReady \<and> (cp_skip p \<or> cp_duration p \<le> 0)),
          ph_prev = inputs_of p phase\<rparr>)"

text \<open>One call of the hook: the state it leaves, equal to what it was when the inputs have not changed.\<close>

definition hook_render :: "chart_props \<Rightarrow> phase_hook \<Rightarrow> phase_hook" where
  "hook_render p h =
     (let current = inputs_of p (ph_phase h)
      in if phaseInputsEqual (ph_prev h) current then h
         else (let t = resolvePhaseTransition (ph_prev h) current (cp_tween p)
           in h\<lparr>ph_loaded := (if pt_resetLoaded t then False else ph_loaded h),
                ph_conceal := (if pt_bumpConceal t then ph_conceal h + 1 else ph_conceal h),
                ph_reveal := (if pt_bumpReveal t then ph_reveal h + 1 else ph_reveal h),
                ph_phase := pt_next t,
                ph_prev := current\<lparr>pi_phase := pt_next t\<rparr>\<rparr>))"

definition notifyLoadingPulseComplete :: "phase_hook \<Rightarrow> phase_hook" where
  "notifyLoadingPulseComplete h = h\<lparr>ph_phase := (if ph_phase h = PhExiting then PhGridTweenReady else ph_phase h)\<rparr>"

definition notifyRevealConcealComplete :: "phase_hook \<Rightarrow> phase_hook" where
  "notifyRevealConcealComplete h = h\<lparr>ph_phase := (if ph_phase h = PhExitingReady then PhGridTweenLoading else ph_phase h)\<rparr>"

definition notifyYDomainTweenComplete :: "phase_hook \<Rightarrow> phase_hook" where
  "notifyYDomainTweenComplete h = h\<lparr>ph_phase :=
     (if ph_phase h = PhGridTweenLoading then PhLoading
      else if ph_phase h = PhGridTweenReady then PhRevealing else ph_phase h)\<rparr>"

text \<open>The timer of the reveal, which runs while the committed phase is \<open>revealing\<close>.\<close>

definition reveal_timer :: "phase_hook \<Rightarrow> phase_hook" where
  "reveal_timer h = h\<lparr>ph_phase := PhReady, ph_loaded := True\<rparr>"

datatype phase_notice = PulseDone | ConcealDone | TweenDone | TimerFired

fun hook_notice :: "chart_phase \<Rightarrow> phase_notice \<Rightarrow> phase_hook \<Rightarrow> phase_hook" where
  "hook_notice committed PulseDone h = notifyLoadingPulseComplete h"
| "hook_notice committed ConcealDone h = notifyRevealConcealComplete h"
| "hook_notice committed TweenDone h = notifyYDomainTweenComplete h"
| "hook_notice committed TimerFired h = (if committed = PhRevealing then reveal_timer h else h)"

text \<open>React batches: the notices that came in since the last commit are applied in order, then the hook is
  called with the options of that moment, which may be new ones. A render that set state is followed by
  another one; \<open>render_settles\<close> below shows that the second never changes anything.\<close>

definition hook_step :: "phase_notice list \<Rightarrow> chart_props \<Rightarrow> phase_hook \<Rightarrow> phase_hook" where
  "hook_step ns p h = hook_render p (hook_render p (foldl (\<lambda>g n. hook_notice (ph_phase h) n g) h ns))"

inductive chart_reach :: "chart_props \<Rightarrow> phase_hook \<Rightarrow> bool" where
  mounted: "chart_reach p (hook_render p (hook_init p))"
| committed: "chart_reach p h \<Longrightarrow> chart_reach q (hook_step ns q h)"

subsection \<open>The moving y-domains\<close>

type_synonym axis_domains = "(string \<times> y_domain) list"

definition lerpDomain :: "y_domain \<Rightarrow> y_domain \<Rightarrow> rat \<Rightarrow> y_domain" where
  "lerpDomain from_d to_d progress =
     (fst from_d + (fst to_d - fst from_d) * progress, snd from_d + (snd to_d - snd from_d) * progress)"

text \<open>What \<open>tweenDomains\<close> does to the domains on screen: nothing when they are there already, a snap, or an
  animation from where each axis stands; the animation's library is outside the source, its progress is the
  argument of a frame.\<close>

datatype tween_plan = AlreadyThere | SnapTo axis_domains | AnimateFrom axis_domains

definition axis_from :: "axis_domains \<Rightarrow> string \<Rightarrow> y_domain \<Rightarrow> y_domain" where
  "axis_from snapshot axisId to_d = (case map_of snapshot axisId of Some d \<Rightarrow> d | None \<Rightarrow> to_d)"

definition tweenDomains :: "axis_domains \<Rightarrow> axis_domains \<Rightarrow> bool \<Rightarrow> bool \<Rightarrow> tween_plan" where
  "tweenDomains current destination enabled reducedMotion =
     (if domainsEqual current destination then AlreadyThere
      else if \<not> enabled \<or> reducedMotion then SnapTo destination
      else if list_ex (\<lambda>(axisId, to_d). shouldTweenYDomain (axis_from current axisId to_d) to_d) destination
        then AnimateFrom (map (\<lambda>(axisId, to_d). (axisId, axis_from current axisId to_d)) destination)
      else SnapTo destination)"

definition tween_frame :: "axis_domains \<Rightarrow> axis_domains \<Rightarrow> rat \<Rightarrow> axis_domains" where
  "tween_frame destination fromByAxis progress = map (\<lambda>(axisId, to_d).
     (axisId, let from_d = axis_from fromByAxis axisId to_d
              in if shouldTweenYDomain from_d to_d then lerpDomain from_d to_d progress else to_d)) destination"

text \<open>The domains when the plan is over, which is when \<open>onSettled\<close> is called.\<close>

fun settled_domains :: "axis_domains \<Rightarrow> axis_domains \<Rightarrow> tween_plan \<Rightarrow> axis_domains" where
  "settled_domains current destination AlreadyThere = current"
| "settled_domains current destination (SnapTo d) = d"
| "settled_domains current destination (AnimateFrom f) = destination"

text \<open>The effect of a phase change: the domains it snaps to, when it does.\<close>

fun phase_snap :: "chart_phase \<Rightarrow> 'd \<Rightarrow> 'd \<Rightarrow> 'd option" where
  "phase_snap PhExiting skeleton target = Some skeleton"
| "phase_snap PhExitingReady skeleton target = Some target"
| "phase_snap PhLoading skeleton target = Some skeleton"
| "phase_snap PhRevealing skeleton target = Some target"
| "phase_snap PhReady skeleton target = Some target"
| "phase_snap _ skeleton target = None"

definition may_tween :: "chart_phase \<Rightarrow> bool \<Rightarrow> bool \<Rightarrow> bool \<Rightarrow> bool" where
  "may_tween chartPhase tweenOnTargetChange enabled reducedMotion =
     (isYDomainTweenPhase chartPhase \<or> (tweenOnTargetChange \<and> chartPhase = PhReady \<and> enabled \<and> \<not> reducedMotion))"

subsection \<open>The phases of a chart's life\<close>

definition phase_of_status :: "chart_status \<Rightarrow> chart_phase \<Rightarrow> bool" where
  "phase_of_status st ph = (case st of
     StatusLoading \<Rightarrow> ph \<in> {PhLoading, PhExitingReady, PhGridTweenLoading}
   | StatusReady \<Rightarrow> ph \<in> {PhExiting, PhGridTweenReady, PhRevealing, PhReady})"

definition hook_ok :: "chart_props \<Rightarrow> phase_hook \<Rightarrow> bool" where
  "hook_ok p h = (ph_prev h = inputs_of p (ph_phase h) \<and> phase_of_status (cp_status p) (ph_phase h) \<and>
     ph_loaded h = (ph_phase h = PhReady))"

lemma inputs_equal: "phaseInputsEqual a b \<longleftrightarrow> a = (b :: phase_inputs)"
  by (cases a; cases b) (auto simp: phaseInputsEqual_def)

lemma inputs_phase: "(inputs_of p x)\<lparr>pi_phase := y\<rparr> = inputs_of p y"
  by (simp add: inputs_of_def)

lemma render_settles: "hook_render p (hook_render p h) = hook_render p h"
  by (simp add: hook_render_def Let_def inputs_equal inputs_phase)

lemma render_prev: "ph_prev (hook_render p h) = inputs_of p (ph_phase (hook_render p h))"
  by (simp add: hook_render_def Let_def inputs_equal inputs_phase)

lemma resolve_same:
  assumes "pi_status a = pi_status b"
  shows "resolvePhaseTransition a b tw =
    (let r = shouldReplayReveal a b; n = (if r then PhRevealing else pi_phase b)
     in \<lparr>pt_next = n, pt_resetLoaded = r, pt_bumpConceal = False,
         pt_bumpReveal = (n = PhRevealing \<and> (pi_phase a \<noteq> PhRevealing \<or> n \<noteq> pi_phase b \<or> pi_duration a \<noteq> pi_duration b))\<rparr>)"
  using assms by (simp add: resolvePhaseTransition_def Let_def)

text \<open>The notices of a batch: the phase they leave fits the status still, and the chart counts as loaded when
  it got to \<open>ready\<close>.\<close>

lemma notice_keeps:
  assumes "phase_of_status st (ph_phase h)" "ph_loaded h = (ph_phase h = PhReady)" "committed = PhRevealing \<Longrightarrow> ph_phase h \<in> {PhRevealing, PhReady}"
  shows "phase_of_status st (ph_phase (hook_notice committed n h)) \<and>
    ph_loaded (hook_notice committed n h) = (ph_phase (hook_notice committed n h) = PhReady) \<and>
    (committed = PhRevealing \<longrightarrow> ph_phase (hook_notice committed n h) \<in> {PhRevealing, PhReady}) \<and>
    ph_prev (hook_notice committed n h) = ph_prev h"
  using assms by (cases n; cases st)
    (auto simp: phase_of_status_def notifyLoadingPulseComplete_def notifyRevealConcealComplete_def
      notifyYDomainTweenComplete_def reveal_timer_def)

lemma notices_keep:
  assumes "phase_of_status st (ph_phase h)" "ph_loaded h = (ph_phase h = PhReady)" "committed = PhRevealing \<Longrightarrow> ph_phase h \<in> {PhRevealing, PhReady}"
  shows "phase_of_status st (ph_phase (foldl (\<lambda>g n. hook_notice committed n g) h ns)) \<and>
    ph_loaded (foldl (\<lambda>g n. hook_notice committed n g) h ns) = (ph_phase (foldl (\<lambda>g n. hook_notice committed n g) h ns) = PhReady) \<and>
    ph_prev (foldl (\<lambda>g n. hook_notice committed n g) h ns) = ph_prev h"
  using assms
proof (induction ns arbitrary: h)
  case (Cons n ns)
  from notice_keeps [of st h committed n] Cons.prems Cons.IH [of "hook_notice committed n h"] show ?case by simp
qed simp

lemma render_keeps:
  assumes "phase_of_status st (ph_phase g)" "ph_loaded g = (ph_phase g = PhReady)" "pi_status (ph_prev g) = st"
  shows "phase_of_status (cp_status q) (ph_phase (hook_render q g)) \<and>
    ph_loaded (hook_render q g) = (ph_phase (hook_render q g) = PhReady)"
proof (cases "st = cp_status q")
  case True
  then have same: "pi_status (ph_prev g) = pi_status (inputs_of q (ph_phase g))" using assms(3) by (simp add: inputs_of_def)
  show ?thesis
    using assms True unfolding hook_render_def resolve_same [OF same] Let_def
    by (auto simp: phase_of_status_def shouldReplayReveal_def inputs_of_def split: chart_status.splits)
next
  case False
  then show ?thesis using assms
    by (cases "cp_status q"; cases st)
      (auto simp: hook_render_def Let_def inputs_equal inputs_of_def resolvePhaseTransition_def resolveStatusTransition_def
        phase_of_status_def)
qed

lemma hook_ok_step: "hook_ok p h \<Longrightarrow> hook_ok q (hook_step ns q h)"
  using notices_keep [of "cp_status p" h "ph_phase h" ns]
    render_keeps [of "cp_status p" "foldl (\<lambda>g n. hook_notice (ph_phase h) n g) h ns" q]
  unfolding hook_ok_def hook_step_def render_settles render_prev by (auto simp: inputs_of_def)

lemma hook_ok_init: "hook_ok p (hook_init p) \<and> hook_render p (hook_init p) = hook_init p"
  by (cases "cp_status p") (auto simp: hook_ok_def hook_init_def Let_def hook_render_def inputs_equal phase_of_status_def resolveInitialChartPhase_def)

lemma reach_ok: "chart_reach p h \<Longrightarrow> hook_ok p h"
  by (induction rule: chart_reach.induct) (simp_all add: hook_ok_init hook_ok_step)

text \<open>C21: The life of a chart keeps in step with its status: whatever animations end and whatever options it
  is given in whatever order and batches, a loading chart is loading or on its way there, a ready chart is
  ready or on its way there (the phase \<open>revealingLoading\<close> is never entered), it counts as loaded and takes
  the pointer exactly when it has come to rest as ready, the skeleton is plotted only on the skeleton's
  domains, and the hook settles after one render.\<close>

theorem chart_life:
  assumes "chart_reach p h"
  shows "(case cp_status p of
      StatusLoading \<Rightarrow> ph_phase h \<in> {PhLoading, PhExitingReady, PhGridTweenLoading}
    | StatusReady \<Rightarrow> ph_phase h \<in> {PhExiting, PhGridTweenReady, PhRevealing, PhReady}) \<and>
    ph_loaded h = (ph_phase h = resolveRestingChartPhase StatusReady) \<and> isChartInteractionPhase (ph_phase h) = ph_loaded h \<and>
    (resolvePlotData (ph_phase h) (cp_status p) True False \<longrightarrow> resolveAnimatedYDestinationDomains (ph_phase h) True False) \<and>
    hook_render p h = h"
  using reach_ok [OF assms]
  by (auto simp: hook_ok_def phase_of_status_def isChartInteractionPhase_def resolvePlotData_def hook_render_def
    inputs_equal split: chart_status.splits if_splits)

definition slow_chart :: chart_props where
  "slow_chart = \<lparr>cp_status = StatusLoading, cp_duration = 1100, cp_tween = 500, cp_signature = '''', cp_skip = False\<rparr>"

lemma slow_chart_reach:
  "chart_reach (slow_chart\<lparr>cp_status := StatusReady\<rparr>)
    (hook_step [] (slow_chart\<lparr>cp_status := StatusReady\<rparr>) (hook_render slow_chart (hook_init slow_chart)))"
  by (rule committed [OF mounted])

lemma slow_chart_exits:
  "hook_step [] (slow_chart\<lparr>cp_status := StatusReady\<rparr>) (hook_render slow_chart (hook_init slow_chart)) =
    \<lparr>ph_phase = PhExiting, ph_reveal = 0, ph_conceal = 0, ph_loaded = False,
     ph_prev = inputs_of (slow_chart\<lparr>cp_status := StatusReady\<rparr>) PhExiting\<rparr>"
  unfolding slow_chart_def by code_simp

theorem chart_life_witness:
  "\<not> isChartInteractionPhase (ph_phase (hook_step [] (slow_chart\<lparr>cp_status := StatusReady\<rparr>) (hook_render slow_chart (hook_init slow_chart))))"
  using chart_life [OF slow_chart_reach] by (simp add: slow_chart_exits)

text \<open>C22: No chart is stuck: from any state the hook can be in, with any options, one end of each of its
  animations in the order they come, the pulse's or the conceal's, the grid's, the reveal's, brings it to rest
  in the phase of its status, loaded exactly when it is ready.\<close>

theorem chart_comes_to_rest:
  assumes "chart_reach p h"
  shows "ph_phase (foldl (\<lambda>g n. hook_step [n] p g) h [PulseDone, ConcealDone, TweenDone, TimerFired]) =
      resolveRestingChartPhase (cp_status p) \<and>
    ph_loaded (foldl (\<lambda>g n. hook_step [n] p g) h [PulseDone, ConcealDone, TweenDone, TimerFired]) = (cp_status p = StatusReady)"
proof -
  have same: "ph_phase (hook_step [n] p g) = ph_phase (hook_notice (ph_phase g) n g)" if "hook_ok p g" for n g
  proof -
    let ?g = "hook_notice (ph_phase g) n g"
    have prev: "ph_prev ?g = inputs_of p (ph_phase g)" using that by (cases n) (simp_all add: hook_ok_def
      notifyLoadingPulseComplete_def notifyRevealConcealComplete_def notifyYDomainTweenComplete_def reveal_timer_def)
    then have "pi_status (ph_prev ?g) = pi_status (inputs_of p (ph_phase ?g))" by (simp add: inputs_of_def)
    from resolve_same [OF this] show ?thesis
      by (simp add: hook_step_def render_settles Let_def hook_render_def inputs_equal prev shouldReplayReveal_def inputs_of_def)
  qed
  let ?h1 = "hook_step [PulseDone] p h" and ?h2 = "hook_step [ConcealDone] p (hook_step [PulseDone] p h)"
  let ?h3 = "hook_step [TweenDone] p ?h2"
  have ok: "hook_ok p h" "hook_ok p ?h1" "hook_ok p ?h2" "hook_ok p ?h3" "hook_ok p (hook_step [TimerFired] p ?h3)"
    using reach_ok [OF assms] by (simp_all add: hook_ok_step [of p _ p])
  have "ph_phase ?h1 = (if ph_phase h = PhExiting then PhGridTweenReady else ph_phase h)"
    unfolding same [OF ok(1)] by (simp add: notifyLoadingPulseComplete_def Let_def)
  moreover have "ph_phase ?h2 = (if ph_phase ?h1 = PhExitingReady then PhGridTweenLoading else ph_phase ?h1)"
    unfolding same [OF ok(2)] by (simp add: notifyRevealConcealComplete_def Let_def)
  moreover have "ph_phase ?h3 = (if ph_phase ?h2 = PhGridTweenLoading then PhLoading
      else if ph_phase ?h2 = PhGridTweenReady then PhRevealing else ph_phase ?h2)"
    unfolding same [OF ok(3)] by (simp add: notifyYDomainTweenComplete_def Let_def)
  moreover have "ph_phase (hook_step [TimerFired] p ?h3) = (if ph_phase ?h3 = PhRevealing then PhReady else ph_phase ?h3)"
    unfolding same [OF ok(4)] by (simp add: reveal_timer_def Let_def)
  ultimately have rest: "ph_phase (hook_step [TimerFired] p ?h3) = resolveRestingChartPhase (cp_status p)"
    using ok(1) by (cases "cp_status p") (auto simp: hook_ok_def phase_of_status_def)
  moreover have "ph_loaded (hook_step [TimerFired] p ?h3) = (cp_status p = StatusReady)"
    using ok(5) rest by (cases "cp_status p") (simp_all add: hook_ok_def)
  ultimately show ?thesis by simp
qed

theorem chart_comes_to_rest_witness:
  "ph_phase (foldl (\<lambda>g n. hook_step [n] (slow_chart\<lparr>cp_status := StatusReady\<rparr>) g)
    (hook_step [] (slow_chart\<lparr>cp_status := StatusReady\<rparr>) (hook_render slow_chart (hook_init slow_chart)))
    [PulseDone, ConcealDone, TweenDone, TimerFired]) = PhReady"
  using chart_comes_to_rest [OF slow_chart_reach] by (simp add: slow_chart_def)

lemma notice_reveal:
  "ph_reveal (hook_notice committed n h) = ph_reveal h" "ph_conceal (hook_notice committed n h) = ph_conceal h"
  "ph_phase h \<in> {PhRevealing, PhReady} \<Longrightarrow>
    ph_phase (hook_notice PhRevealing n h) = (if n = TimerFired then PhReady else ph_phase h)"
  by (cases n; auto simp: notifyLoadingPulseComplete_def notifyRevealConcealComplete_def notifyYDomainTweenComplete_def
      reveal_timer_def)+

lemma notices_reveal:
  "ph_reveal (foldl (\<lambda>g n. hook_notice committed n g) h ns) = ph_reveal h"
  "ph_conceal (foldl (\<lambda>g n. hook_notice committed n g) h ns) = ph_conceal h"
  "ph_phase h \<in> {PhRevealing, PhReady} \<Longrightarrow>
    ph_phase (foldl (\<lambda>g n. hook_notice PhRevealing n g) h ns) = (if TimerFired \<in> set ns then PhReady else ph_phase h)"
proof -
  show "ph_reveal (foldl (\<lambda>g n. hook_notice committed n g) h ns) = ph_reveal h"
    "ph_conceal (foldl (\<lambda>g n. hook_notice committed n g) h ns) = ph_conceal h"
    by (induction ns arbitrary: h) (simp_all add: notice_reveal)
  show "ph_phase h \<in> {PhRevealing, PhReady} \<Longrightarrow>
    ph_phase (foldl (\<lambda>g n. hook_notice PhRevealing n g) h ns) = (if TimerFired \<in> set ns then PhReady else ph_phase h)"
  proof (induction ns arbitrary: h)
    case (Cons n ns)
    have "ph_phase (hook_notice PhRevealing n h) \<in> {PhRevealing, PhReady}"
      using notice_reveal(3) [OF Cons.prems, of n] Cons.prems by simp
    from Cons.IH [OF this] show ?case using notice_reveal(3) [OF Cons.prems, of n] by auto
  qed simp
qed

text \<open>The epochs after one render of a hook whose last commit was in order.\<close>

lemma render_epochs:
  assumes "ph_prev g = inputs_of p ph" "phase_of_status (cp_status p) ph" "phase_of_status (cp_status p) (ph_phase g)"
  shows "ph_reveal (hook_render q g) = ph_reveal g + (if ph_phase (hook_render q g) = PhRevealing \<and>
      (ph \<noteq> PhRevealing \<or> ph_phase g \<noteq> PhRevealing \<or> cp_duration p \<noteq> cp_duration q) then 1 else 0) \<and>
    ph_conceal (hook_render q g) = ph_conceal g +
      (if ph_phase (hook_render q g) = PhExitingReady \<and> cp_status p = StatusReady then 1 else 0)"
proof (cases "cp_status p = cp_status q")
  case True
  then have same: "pi_status (ph_prev g) = pi_status (inputs_of q (ph_phase g))" using assms(1) by (simp add: inputs_of_def)
  have live: "\<not> shouldReplayReveal (ph_prev g) (inputs_of q (ph_phase g))" if "ph_phase g = PhExitingReady \<or> ph_phase g = PhRevealing"
    using that by (auto simp: shouldReplayReveal_def inputs_of_def)
  have kept: "ph_phase g \<noteq> PhExitingReady" if "cp_status p = StatusReady" using assms(3) that by (auto simp: phase_of_status_def)
  show ?thesis
  proof (cases "ph_prev g = inputs_of q (ph_phase g)")
    case True
    then show ?thesis using assms(1) kept by (auto simp: hook_render_def inputs_equal inputs_of_def)
  next
    case False
    have new: "pi_phase (inputs_of q x) = x" "pi_duration (inputs_of q x) = cp_duration q" for x by (simp_all add: inputs_of_def)
    have old: "pi_phase (ph_prev g) = ph" "pi_duration (ph_prev g) = cp_duration p" using assms(1) by (simp_all add: inputs_of_def)
    show ?thesis
    proof (cases "shouldReplayReveal (ph_prev g) (inputs_of q (ph_phase g))")
      case True
      then have rdy: "ph_phase g = PhReady" by (simp add: shouldReplayReveal_def inputs_of_def split: if_splits)
      have "ph_phase (hook_render q g) = PhRevealing" "ph_conceal (hook_render q g) = ph_conceal g"
        "ph_reveal (hook_render q g) = (if ph \<noteq> PhRevealing \<or> PhRevealing \<noteq> ph_phase g \<or> cp_duration p \<noteq> cp_duration q
          then ph_reveal g + 1 else ph_reveal g)"
        using True False by (simp_all add: hook_render_def resolve_same [OF same] Let_def inputs_equal old new)
      then show ?thesis using rdy by simp
    next
      case no: False
      have "ph_phase (hook_render q g) = ph_phase g" "ph_conceal (hook_render q g) = ph_conceal g"
        "ph_reveal (hook_render q g) = (if ph_phase g = PhRevealing \<and> (ph \<noteq> PhRevealing \<or> cp_duration p \<noteq> cp_duration q)
          then ph_reveal g + 1 else ph_reveal g)"
        using no False by (simp_all add: hook_render_def resolve_same [OF same] Let_def inputs_equal old new)
      then show ?thesis using kept by auto
    qed
  qed
next
  case False
  then have ne: "\<not> phaseInputsEqual (ph_prev g) (inputs_of q (ph_phase g))"
    using assms(1) by (simp add: phaseInputsEqual_def inputs_of_def)
  from False consider "cp_status p = StatusLoading" "cp_status q = StatusReady" | "cp_status p = StatusReady" "cp_status q = StatusLoading"
    by (cases "cp_status p"; cases "cp_status q") simp_all
  then show ?thesis
  proof cases
    case 1
    moreover have "ph \<noteq> PhRevealing" using assms(2) 1 by (auto simp: phase_of_status_def)
    ultimately show ?thesis using assms(1) ne
      by (simp add: hook_render_def Let_def inputs_of_def resolvePhaseTransition_def resolveStatusTransition_def)
  next
    case 2
    then show ?thesis using assms(1) ne
      by (simp add: hook_render_def Let_def inputs_of_def resolvePhaseTransition_def resolveStatusTransition_def)
  qed
qed

text \<open>Every reveal is counted once: a commit raises the reveal epoch by one when it enters the reveal, starts
  it over or changes how long it takes, and not otherwise, and the conceal epoch by one exactly when a
  ready chart starts to leave.\<close>

theorem epochs_count_reveals:
  assumes "chart_reach p h"
  shows "ph_reveal (hook_step ns q h) = ph_reveal h + (if ph_phase (hook_step ns q h) = PhRevealing \<and>
      (ph_phase h \<noteq> PhRevealing \<or> TimerFired \<in> set ns \<or> cp_duration p \<noteq> cp_duration q) then 1 else 0) \<and>
    ph_conceal (hook_step ns q h) = ph_conceal h +
      (if ph_phase (hook_step ns q h) = PhExitingReady \<and> cp_status p = StatusReady then 1 else 0)"
proof -
  let ?g = "foldl (\<lambda>g n. hook_notice (ph_phase h) n g) h ns"
  have ok: "hook_ok p h" using assms by (rule reach_ok)
  then have g: "phase_of_status (cp_status p) (ph_phase ?g)" "ph_prev ?g = inputs_of p (ph_phase h)"
    using notices_keep [of "cp_status p" h "ph_phase h" ns] by (simp_all add: hook_ok_def)
  have timer: "ph_phase ?g = (if TimerFired \<in> set ns then PhReady else PhRevealing)" if "ph_phase h = PhRevealing"
    using notices_reveal(3) [of h ns] that by simp
  have "phase_of_status (cp_status p) (ph_phase h)" using ok by (simp add: hook_ok_def)
  from render_epochs [OF g(2) this g(1), of q] show ?thesis
    using timer unfolding hook_step_def render_settles notices_reveal(1,2) by (auto split: if_splits)
qed

theorem epochs_count_reveals_witness:
  "ph_reveal (hook_step [TweenDone] (slow_chart\<lparr>cp_status := StatusReady\<rparr>)
    (hook_step [PulseDone] (slow_chart\<lparr>cp_status := StatusReady\<rparr>)
      (hook_step [] (slow_chart\<lparr>cp_status := StatusReady\<rparr>) (hook_render slow_chart (hook_init slow_chart))))) = 1"
proof -
  let ?p = "slow_chart\<lparr>cp_status := StatusReady\<rparr>"
  let ?h = "hook_step [PulseDone] ?p (hook_step [] ?p (hook_render slow_chart (hook_init slow_chart)))"
  have "chart_reach ?p ?h" using slow_chart_reach by (rule committed)
  moreover have "ph_phase ?h = PhGridTweenReady" "ph_reveal ?h = 0" "ph_phase (hook_step [TweenDone] ?p ?h) = PhRevealing"
    unfolding slow_chart_exits unfolding slow_chart_def by code_simp+
  ultimately show ?thesis using epochs_count_reveals [of ?p ?h "[TweenDone]" ?p] by simp
qed

subsection \<open>The domains on their way\<close>

lemma lerp_ends: "lerpDomain f t 0 = f" "lerpDomain f t 1 = t"
  by (simp_all add: lerpDomain_def)

lemma lerp_between:
  assumes "0 \<le> x" "x \<le> 1"
  shows "min (fst f) (fst t) \<le> fst (lerpDomain f t x) \<and> fst (lerpDomain f t x) \<le> max (fst f) (fst t) \<and>
    min (snd f) (snd t) \<le> snd (lerpDomain f t x) \<and> snd (lerpDomain f t x) \<le> max (snd f) (snd t)"
  using between_frames [OF assms] by (simp add: lerpDomain_def)

lemma domainsEqual_refl: "distinct (map fst d) \<Longrightarrow> domainsEqual d d"
  by (auto simp: domainsEqual_def list_all_iff)

text \<open>A domain on the way from one to another.\<close>

definition on_way :: "y_domain \<Rightarrow> y_domain \<Rightarrow> y_domain \<Rightarrow> bool" where
  "on_way f t now = (min (fst f) (fst t) \<le> fst now \<and> fst now \<le> max (fst f) (fst t) \<and>
     min (snd f) (snd t) \<le> snd now \<and> snd now \<le> max (snd f) (snd t))"

lemma frame_from:
  assumes "distinct (map fst destination)" "(axisId, t) \<in> set destination"
  shows "axis_from (map (\<lambda>(axisId, to_d). (axisId, axis_from current axisId to_d)) destination) axisId t = axis_from current axisId t"
proof -
  have "map_of (map (\<lambda>(axisId, to_d). (axisId, axis_from current axisId to_d)) destination) axisId = Some (axis_from current axisId t)"
    using assms by (intro map_of_is_SomeI) (auto simp: comp_def case_prod_unfold image_iff intro: bexI [where x = "(axisId, t)"])
  then show ?thesis by (simp add: axis_from_def)
qed

lemma frame_steps:
  fixes current destination :: axis_domains and x :: rat
  assumes "distinct (map fst destination)" "0 \<le> x" "x \<le> 1"
  defines "f \<equiv> map (\<lambda>(axisId, to_d). (axisId, axis_from current axisId to_d)) destination"
  shows "tween_frame destination f 1 = destination"
    and "list_all2 (\<lambda>(axisId, t) (axisId', now). axisId' = axisId \<and> on_way (axis_from current axisId t) t now)
      destination (tween_frame destination f x)"
proof -
  show "tween_frame destination f 1 = destination"
    unfolding tween_frame_def by (rule map_idI) (auto simp: lerp_ends Let_def)
  have "on_way (axis_from current axisId t) t (if shouldTweenYDomain (axis_from f axisId t) t
      then lerpDomain (axis_from f axisId t) t x else t)" if "(axisId, t) \<in> set destination" for axisId t
    using frame_from [OF assms(1) that, of current] lerp_between [OF assms(2,3)] by (simp add: on_way_def f_def)
  then show "list_all2 (\<lambda>(axisId, t) (axisId', now). axisId' = axisId \<and> on_way (axis_from current axisId t) t now)
      destination (tween_frame destination f x)"
    unfolding tween_frame_def list_all2_map2 by (auto simp: list_all2_same Let_def)
qed

text \<open>The y-axes arrive: whatever is on screen and whether or not motion is wanted, when a move is over the
  domains are the destination's; without motion nothing is animated; and a move that is animated has
  every axis of the destination in every frame, each between where it stood and where it goes, and ends
  on the destination.\<close>

theorem y_axes_arrive:
  fixes current destination :: axis_domains and x :: rat and enabled reduced :: bool
  assumes "distinct (map fst destination)" "0 \<le> x" "x \<le> 1"
  defines "plan \<equiv> tweenDomains current destination enabled reduced"
  shows "domainsEqual (settled_domains current destination plan) destination \<and>
    (\<not> enabled \<or> reduced \<longrightarrow> plan = AlreadyThere \<or> plan = SnapTo destination) \<and>
    (\<forall>f. plan = AnimateFrom f \<longrightarrow> tween_frame destination f 1 = destination \<and>
      list_all2 (\<lambda>(axisId, t) (axisId', now). axisId' = axisId \<and> on_way (axis_from current axisId t) t now)
        destination (tween_frame destination f x))"
  using frame_steps [OF assms(1-3), of current] domainsEqual_refl [OF assms(1)]
  unfolding plan_def tweenDomains_def by auto

theorem y_axes_arrive_witness:
  "tween_frame [(''left'', (0, 50))] [(''left'', (0, 100))] (1 / 2) = [(''left'', (0, 75))] \<and>
    domainsEqual (settled_domains [(''left'', (0, 100))] [(''left'', (0, 50))]
      (tweenDomains [(''left'', (0, 100))] [(''left'', (0, 50))] True False)) [(''left'', (0, 50))]"
  using y_axes_arrive [of "[(''left'', (0, 50))]" "1 / 2" "[(''left'', (0, 100))]" True False]
  by (simp add: tween_frame_def axis_from_def shouldTweenYDomain_def lerpDomain_def Y_DOMAIN_TWEEN_SKIP_THRESHOLD_def Let_def)

end
