(* ===== verification/Chart_Pointer.thy ===== *)
theory Chart_Pointer
  imports Chart_Domains
begin

text \<open>The pointer over a time-series chart: \<open>components/charts/use-chart-interaction.ts\<close>, the updates of the
  tooltip once a frame, \<open>use-scheduled-tooltip.ts\<close>, and the store both write to (\<open>createChartHoverStore\<close> in
  \<open>chart-context.tsx\<close>). A chart's scales and the binary search are d3's: what they compute is an argument,
  and the search's documented contract, that its result splits the rows into those before the time asked
  for and the others, a named hypothesis. Events carry what the handlers read of them: the positions of
  the pointer or of the fingers inside the plot, \<open>None\<close> where the browser gives none.\<close>

subsection \<open>A chart and what is under a pixel\<close>

type_synonym bisect = "rat list \<Rightarrow> rat \<Rightarrow> nat \<Rightarrow> nat"

record chart_env =
  ce_rows :: "data_row list"
  ce_time :: "data_row \<Rightarrow> rat"
  ce_invert :: "rat \<Rightarrow> rat"
  ce_x :: "rat \<Rightarrow> rat option"
  ce_lines :: "line_config list"
  ce_bands :: "(band_config \<times> bool) list"
  ce_yScales :: "string \<Rightarrow> (rat \<Rightarrow> rat option) option"
  ce_yScale :: "rat \<Rightarrow> rat option"
  ce_canInteract :: bool

record tooltip_data =
  td_point :: data_row
  td_index :: nat
  td_x :: rat
  td_y :: "(string \<times> rat) list"

definition place_y :: "chart_env \<Rightarrow> data_row \<Rightarrow> (string \<times> rat) list \<Rightarrow> string \<Rightarrow> string option \<Rightarrow> (string \<times> rat) list" where
  "place_y env d ys key yAxisId = (case num_field d key of
     None \<Rightarrow> ys
   | Some v \<Rightarrow> (let scale = (case ce_yScales env (normalizeYAxisId yAxisId) of Some s \<Rightarrow> s | None \<Rightarrow> ce_yScale env)
       in put_key key (coalesce (scale v) 0) ys))"

definition resolveYPositions :: "chart_env \<Rightarrow> data_row \<Rightarrow> (string \<times> rat) list" where
  "resolveYPositions env d =
     (let ys = foldl (\<lambda>ys (band, showInTooltip). if showInTooltip
              then place_y env d (place_y env d ys (bd_upperKey band) (Some (bd_yAxisId band))) (bd_lowerKey band) (Some (bd_yAxisId band))
              else ys) [] (ce_bands env)
      in foldl (\<lambda>ys line. place_y env d ys (fst line) (snd line)) ys (ce_lines env))"

definition env_times :: "chart_env \<Rightarrow> rat list" where
  "env_times env = map (ce_time env) (ce_rows env)"

definition row_at :: "chart_env \<Rightarrow> int \<Rightarrow> data_row option" where
  "row_at env i = (if 0 \<le> i \<and> i < int (length (ce_rows env)) then Some (ce_rows env ! nat i) else None)"

definition resolveTooltipFromX :: "bisect \<Rightarrow> chart_env \<Rightarrow> rat \<Rightarrow> tooltip_data option" where
  "resolveTooltipFromX bisect env pixelX =
     (let x0 = ce_invert env pixelX; index = bisect (env_times env) x0 1
      in case row_at env (int index - 1) of
           None \<Rightarrow> None
         | Some d0 \<Rightarrow>
             (let (d, finalIndex) = (case row_at env (int index) of
                  Some d1 \<Rightarrow> if x0 - ce_time env d0 > ce_time env d1 - x0 then (d1, index) else (d0, index - 1)
                | None \<Rightarrow> (d0, index - 1))
              in Some \<lparr>td_point = d, td_index = finalIndex, td_x = coalesce (ce_x env (ce_time env d)) 0,
                       td_y = resolveYPositions env d\<rparr>))"

definition resolveIndexFromX :: "bisect \<Rightarrow> chart_env \<Rightarrow> rat \<Rightarrow> nat" where
  "resolveIndexFromX bisect env pixelX =
     (let x0 = ce_invert env pixelX; index = bisect (env_times env) x0 1
      in case row_at env (int index - 1) of
           None \<Rightarrow> 0
         | Some d0 \<Rightarrow> (case row_at env (int index) of
               Some d1 \<Rightarrow> if x0 - ce_time env d0 > ce_time env d1 - x0 then index else index - 1
             | None \<Rightarrow> index - 1))"

subsection \<open>The tooltip, once a frame\<close>

record chart_selection =
  cs_startX :: rat
  cs_endX :: rat
  cs_startIndex :: nat
  cs_endIndex :: nat

record pointer_state =
  ps_tooltip :: "tooltip_data option"
  ps_selection :: "chart_selection option"
  ps_lastKey :: "string option"
  ps_pending :: "(tooltip_data \<times> string) option"
  ps_frame :: bool
  ps_dragging :: bool
  ps_dragStart :: rat
  ps_lastX :: "rat option"
  ps_touched :: bool

definition fresh_pointer :: pointer_state where
  "fresh_pointer = \<lparr>ps_tooltip = None, ps_selection = None, ps_lastKey = None, ps_pending = None, ps_frame = False,
     ps_dragging = False, ps_dragStart = 0, ps_lastX = None, ps_touched = False\<rparr>"

definition defaultDedupeKey :: "tooltip_data \<Rightarrow> string" where
  "defaultDedupeKey t = string_of_nat (td_index t) @ '':'' @ string_of_int (js_round (td_x t))"

definition scheduleTooltip :: "tooltip_data \<Rightarrow> pointer_state \<Rightarrow> pointer_state" where
  "scheduleTooltip t s =
     (let key = defaultDedupeKey t; s = s\<lparr>ps_pending := Some (t, key)\<rparr>
      in if Some key = ps_lastKey s then s else if ps_frame s then s else s\<lparr>ps_frame := True\<rparr>)"

definition commitTooltip :: "tooltip_data \<Rightarrow> string \<Rightarrow> pointer_state \<Rightarrow> pointer_state" where
  "commitTooltip t key s = (if Some key = ps_lastKey s then s else s\<lparr>ps_lastKey := Some key, ps_tooltip := Some t\<rparr>)"

definition run_frame :: "pointer_state \<Rightarrow> pointer_state" where
  "run_frame s = (if ps_frame s then
     (let s = s\<lparr>ps_frame := False\<rparr> in case ps_pending s of Some (t, key) \<Rightarrow> commitTooltip t key s | None \<Rightarrow> s) else s)"

definition clearTooltip :: "pointer_state \<Rightarrow> pointer_state" where
  "clearTooltip s = s\<lparr>ps_frame := False, ps_pending := None, ps_lastKey := None, ps_tooltip := None\<rparr>"

definition resetTooltipDedupe :: "pointer_state \<Rightarrow> pointer_state" where
  "resetTooltipDedupe s = s\<lparr>ps_lastKey := None\<rparr>"

subsection \<open>The handlers\<close>

definition select_between :: "bisect \<Rightarrow> chart_env \<Rightarrow> rat \<Rightarrow> rat \<Rightarrow> chart_selection" where
  "select_between bisect env a b = (let startX = min a b; endX = max a b
     in \<lparr>cs_startX = startX, cs_endX = endX, cs_startIndex = resolveIndexFromX bisect env startX,
         cs_endIndex = resolveIndexFromX bisect env endX\<rparr>)"

definition hover_at :: "bisect \<Rightarrow> chart_env \<Rightarrow> rat \<Rightarrow> pointer_state \<Rightarrow> pointer_state" where
  "hover_at bisect env chartX s = (let s = s\<lparr>ps_lastX := Some chartX\<rparr>
     in case resolveTooltipFromX bisect env chartX of Some t \<Rightarrow> scheduleTooltip t s | None \<Rightarrow> s)"

definition handleMouseMove :: "bisect \<Rightarrow> chart_env \<Rightarrow> rat option \<Rightarrow> pointer_state \<Rightarrow> pointer_state" where
  "handleMouseMove bisect env point s = (case point of
     None \<Rightarrow> s
   | Some chartX \<Rightarrow>
       if ps_dragging s then s\<lparr>ps_selection := Some (select_between bisect env (ps_dragStart s) chartX)\<rparr>
       else hover_at bisect env chartX s)"

definition handleMouseLeave :: "pointer_state \<Rightarrow> pointer_state" where
  "handleMouseLeave s = (clearTooltip (s\<lparr>ps_lastX := None\<rparr>))\<lparr>ps_dragging := False, ps_selection := None\<rparr>"

definition handleMouseDown :: "rat option \<Rightarrow> pointer_state \<Rightarrow> pointer_state" where
  "handleMouseDown point s = (case point of
     None \<Rightarrow> s
   | Some chartX \<Rightarrow> (clearTooltip (s\<lparr>ps_dragging := True, ps_dragStart := chartX\<rparr>))\<lparr>ps_selection := None\<rparr>)"

definition handleMouseUp :: "pointer_state \<Rightarrow> pointer_state" where
  "handleMouseUp s = s\<lparr>ps_dragging := False, ps_selection := None\<rparr>"

definition handleTouchMove :: "bisect \<Rightarrow> chart_env \<Rightarrow> rat option list \<Rightarrow> pointer_state \<Rightarrow> pointer_state" where
  "handleTouchMove bisect env touches s = (case touches of
     [Some chartX] \<Rightarrow> hover_at bisect env chartX s
   | [Some x0, Some x1] \<Rightarrow> s\<lparr>ps_selection := Some (select_between bisect env x0 x1)\<rparr>
   | _ \<Rightarrow> s)"

definition handleTouchStart :: "bisect \<Rightarrow> chart_env \<Rightarrow> rat option list \<Rightarrow> pointer_state \<Rightarrow> pointer_state" where
  "handleTouchStart bisect env touches s =
     (let s = s\<lparr>ps_touched := True\<rparr>
      in handleTouchMove bisect env touches
           (if length touches = 2 then clearTooltip (resetTooltipDedupe s) else s))"

definition handleTouchEnd :: "pointer_state \<Rightarrow> pointer_state" where
  "handleTouchEnd s = s\<lparr>ps_selection := None\<rparr>"

text \<open>A pointer goes down anywhere in the document: \<open>mouse\<close> tells a mouse, \<open>inside\<close> the plot last touched.\<close>

definition onPointerDown :: "bool \<Rightarrow> bool \<Rightarrow> pointer_state \<Rightarrow> pointer_state" where
  "onPointerDown mouse inside s =
     (if mouse \<or> \<not> ps_touched s then s
      else if inside then s
      else clearTooltip (s\<lparr>ps_touched := False, ps_lastX := None\<rparr>))"

text \<open>The effect that runs when the scales or the rows have changed.\<close>

definition reanchor :: "bisect \<Rightarrow> chart_env \<Rightarrow> pointer_state \<Rightarrow> pointer_state" where
  "reanchor bisect env s =
     (if \<not> ce_canInteract env then s
      else (case ps_lastX s of
          None \<Rightarrow> s
        | Some x \<Rightarrow> (case resolveTooltipFromX bisect env x of Some t \<Rightarrow> scheduleTooltip t s | None \<Rightarrow> clearTooltip s)))"

datatype pointer_event =
    MouseMoved "rat option" | MouseLeft | MousePressed "rat option" | MouseReleased
  | TouchStarted "rat option list" | TouchMoved "rat option list" | TouchEnded
  | PointerDown bool bool | AnimationFrame

text \<open>The handlers and the listener are attached only while the chart can be interacted with; a frame runs anyway.\<close>

fun pointer_step :: "bisect \<Rightarrow> chart_env \<Rightarrow> pointer_event \<Rightarrow> pointer_state \<Rightarrow> pointer_state" where
  "pointer_step bisect env AnimationFrame s = run_frame s"
| "pointer_step bisect env (MouseMoved p) s = (if ce_canInteract env then handleMouseMove bisect env p s else s)"
| "pointer_step bisect env MouseLeft s = (if ce_canInteract env then handleMouseLeave s else s)"
| "pointer_step bisect env (MousePressed p) s = (if ce_canInteract env then handleMouseDown p s else s)"
| "pointer_step bisect env MouseReleased s = (if ce_canInteract env then handleMouseUp s else s)"
| "pointer_step bisect env (TouchStarted ps) s = (if ce_canInteract env then handleTouchStart bisect env ps s else s)"
| "pointer_step bisect env (TouchMoved ps) s = (if ce_canInteract env then handleTouchMove bisect env ps s else s)"
| "pointer_step bisect env TouchEnded s = (if ce_canInteract env then handleTouchEnd s else s)"
| "pointer_step bisect env (PointerDown mouse inside) s = (if ce_canInteract env then onPointerDown mouse inside s else s)"

inductive pointer_reach :: "bisect \<Rightarrow> chart_env \<Rightarrow> pointer_state \<Rightarrow> bool" for bisect where
  mounted_chart: "pointer_reach bisect env fresh_pointer"
| pointed: "pointer_reach bisect env s \<Longrightarrow> pointer_reach bisect env (pointer_step bisect env e s)"
| rerendered: "pointer_reach bisect env s \<Longrightarrow> pointer_reach bisect env' (reanchor bisect env' s)"

subsection \<open>The nearest row\<close>

text \<open>The contract of d3's \<open>bisector(...).left\<close>: the result is at or after the start and at most the length, the
  elements from the start to it are below the value and the others are not.\<close>

definition bisects :: "bisect \<Rightarrow> bool" where
  "bisects bisect \<longleftrightarrow> (\<forall>ts x lo. sorted ts \<longrightarrow> lo \<le> bisect ts x lo \<and> (lo \<le> length ts \<longrightarrow> bisect ts x lo \<le> length ts) \<and>
     (\<forall>i. lo \<le> i \<and> i < bisect ts x lo \<and> i < length ts \<longrightarrow> ts ! i < x) \<and>
     (\<forall>i. bisect ts x lo \<le> i \<and> i < length ts \<longrightarrow> x \<le> ts ! i))"

lemma bisects_at:
  assumes "bisects bisect" "sorted ts" "ts \<noteq> []"
  shows "1 \<le> bisect ts x 1 \<and> bisect ts x 1 \<le> length ts \<and>
    (\<forall>i. 1 \<le> i \<and> i < bisect ts x 1 \<longrightarrow> ts ! i < x) \<and> (\<forall>i. bisect ts x 1 \<le> i \<and> i < length ts \<longrightarrow> x \<le> ts ! i)"
proof -
  have "1 \<le> length ts" using assms(3) by (simp add: Suc_le_eq)
  then show ?thesis using assms(1,2) unfolding bisects_def by (meson less_le_trans)
qed

text \<open>The index the handlers settle on.\<close>

definition nearer :: "rat list \<Rightarrow> rat \<Rightarrow> nat \<Rightarrow> nat" where
  "nearer ts x k = (if k < length ts \<and> x - ts ! (k - 1) > ts ! k - x then k else k - 1)"

lemma nearer_nearest:
  assumes "sorted ts" "1 \<le> k" "k \<le> length ts" "\<forall>i. 1 \<le> i \<and> i < k \<longrightarrow> ts ! i < x" "\<forall>i. k \<le> i \<and> i < length ts \<longrightarrow> x \<le> ts ! i"
    and "j < length ts"
  shows "\<bar>x - ts ! nearer ts x k\<bar> \<le> \<bar>x - ts ! j\<bar>"
proof -
  have lower: "\<bar>x - ts ! (k - 1)\<bar> \<le> \<bar>x - ts ! j\<bar>" if "j < k"
  proof (cases "k = 1")
    case False
    then have "ts ! (k - 1) < x" using assms(2,4) by simp
    moreover have "ts ! j \<le> ts ! (k - 1)" using assms(1,3) that by (intro sorted_nth_mono) simp_all
    ultimately show ?thesis by simp
  qed (use that in simp)
  have upper: "x \<le> ts ! k \<and> ts ! k \<le> ts ! j" if "k \<le> j"
    using assms(1,5,6) that by (simp add: sorted_nth_mono)
  have low: "ts ! (k - 1) \<le> ts ! k" if "k < length ts" using assms(1,2) that by (intro sorted_nth_mono) simp_all
  show ?thesis
  proof (cases "k < length ts \<and> x - ts ! (k - 1) > ts ! k - x")
    case True
    then have x: "x \<le> ts ! k" using assms(5) by simp
    have "\<bar>x - ts ! k\<bar> \<le> \<bar>x - ts ! j\<bar>"
    proof (cases "j < k")
      case True
      then show ?thesis using lower \<open>k < length ts \<and> x - ts ! (k - 1) > ts ! k - x\<close> x by simp
    next
      case False
      then show ?thesis using upper by simp
    qed
    then show ?thesis using True by (simp add: nearer_def)
  next
    case False
    have "\<bar>x - ts ! (k - 1)\<bar> \<le> \<bar>x - ts ! j\<bar>"
    proof (cases "j < k")
      case False
      then have "k < length ts" using assms(6) by simp
      then show ?thesis using False upper low \<open>\<not> (k < length ts \<and> x - ts ! (k - 1) > ts ! k - x)\<close> by (simp add: abs_le_iff)
    qed (rule lower)
    then show ?thesis using False by (auto simp: nearer_def)
  qed
qed

lemma row_at_index:
  assumes "1 \<le> k" "k \<le> length (ce_rows env)"
  shows "row_at env (int k - 1) = Some (ce_rows env ! (k - 1))"
    and "row_at env (int k) = (if k < length (ce_rows env) then Some (ce_rows env ! k) else None)"
  using assms by (auto simp: row_at_def nat_diff_distrib)

lemma env_times_nth [simp]: "i < length (ce_rows env) \<Longrightarrow> env_times env ! i = ce_time env (ce_rows env ! i)"
  by (simp add: env_times_def)

lemma length_env_times [simp]: "length (env_times env) = length (ce_rows env)"
  by (simp add: env_times_def)

lemma resolve_index:
  assumes "bisects bisect" "sorted (env_times env)" "ce_rows env \<noteq> []"
  shows "resolveIndexFromX bisect env x = nearer (env_times env) (ce_invert env x) (bisect (env_times env) (ce_invert env x) 1)"
proof -
  let ?k = "bisect (env_times env) (ce_invert env x) 1"
  have k: "1 \<le> ?k" "?k \<le> length (ce_rows env)"
    using bisects_at [OF assms(1,2), of "ce_invert env x"] assms(3) by (simp_all add: env_times_def)
  then have "?k - 1 < length (ce_rows env)" by simp
  then show ?thesis using row_at_index [OF k] by (simp add: resolveIndexFromX_def Let_def nearer_def)
qed

lemma resolve_tooltip:
  assumes "bisects bisect" "sorted (env_times env)" "ce_rows env \<noteq> []"
  shows "\<exists>t. resolveTooltipFromX bisect env x = Some t \<and> td_index t = resolveIndexFromX bisect env x \<and>
    td_point t = ce_rows env ! resolveIndexFromX bisect env x"
proof -
  let ?k = "bisect (env_times env) (ce_invert env x) 1"
  have k: "1 \<le> ?k" "?k \<le> length (ce_rows env)"
    using bisects_at [OF assms(1,2), of "ce_invert env x"] assms(3) by (simp_all add: env_times_def)
  then show ?thesis using row_at_index [OF k] by (auto simp: resolveTooltipFromX_def resolveIndexFromX_def Let_def)
qed

lemma resolve_index_mono:
  assumes "bisects bisect" "sorted (env_times env)" "ce_rows env \<noteq> []" "ce_invert env x \<le> ce_invert env y"
  shows "resolveIndexFromX bisect env x \<le> resolveIndexFromX bisect env y"
proof -
  let ?ts = "env_times env" and ?x = "ce_invert env x" and ?y = "ce_invert env y"
  have ne: "?ts \<noteq> []" using assms(3) by (simp add: env_times_def)
  note kx = bisects_at [OF assms(1,2) ne, of ?x] and ky = bisects_at [OF assms(1,2) ne, of ?y]
  have "bisect ?ts ?x 1 \<le> bisect ?ts ?y 1"
  proof (rule ccontr)
    assume "\<not> bisect ?ts ?x 1 \<le> bisect ?ts ?y 1"
    then have "?ts ! (bisect ?ts ?y 1) < ?x" "?y \<le> ?ts ! (bisect ?ts ?y 1)" using kx ky by (meson not_le le_trans less_le_trans order_refl)+
    with assms(4) show False by simp
  qed
  then consider "bisect ?ts ?x 1 = bisect ?ts ?y 1" | "bisect ?ts ?x 1 \<le> bisect ?ts ?y 1 - 1" by linarith
  then show ?thesis
  proof cases
    case 1
    then show ?thesis using assms(4) unfolding resolve_index [OF assms(1-3)] by (auto simp: nearer_def)
  next
    case 2
    then show ?thesis unfolding resolve_index [OF assms(1-3)] by (auto simp: nearer_def)
  qed
qed

text \<open>The pointer picks the nearest row: on a chart whose rows are in the order of their times, a position in
  the plot has a tooltip for the row nearest in time, the index a drag uses is the same one, no row of
  the chart is nearer, and a drag or a pinch selects from the lower to the higher index and pixel.\<close>

theorem pointer_picks_nearest:
  assumes "bisects bisect" "sorted (env_times env)" "j < length (ce_rows env)" "\<forall>x y. x \<le> y \<longrightarrow> ce_invert env x \<le> ce_invert env y"
  shows "(\<exists>t. resolveTooltipFromX bisect env x = Some t \<and> td_index t = resolveIndexFromX bisect env x \<and>
      td_point t = ce_rows env ! td_index t \<and>
      \<bar>ce_invert env x - env_times env ! td_index t\<bar> \<le> \<bar>ce_invert env x - env_times env ! j\<bar>) \<and>
    cs_startX (select_between bisect env x y) \<le> cs_endX (select_between bisect env x y) \<and>
    cs_startIndex (select_between bisect env x y) \<le> cs_endIndex (select_between bisect env x y)"
proof -
  have ne: "ce_rows env \<noteq> []" "env_times env \<noteq> []" using assms(3) by (auto simp: env_times_def)
  note k = bisects_at [OF assms(1,2) ne(2), of "ce_invert env x"]
  have "\<bar>ce_invert env x - env_times env ! resolveIndexFromX bisect env x\<bar> \<le> \<bar>ce_invert env x - env_times env ! j\<bar>"
    unfolding resolve_index [OF assms(1,2) ne(1)]
    by (rule nearer_nearest [OF assms(2)]) (use k assms(3) in \<open>simp_all del: env_times_nth\<close>)
  moreover have "ce_invert env (min x y) \<le> ce_invert env (max x y)" using assms(4) by simp
  ultimately show ?thesis
    using resolve_tooltip [OF assms(1,2) ne(1), of x] resolve_index_mono [OF assms(1,2) ne(1), of "min x y" "max x y"]
    by (auto simp: select_between_def Let_def)
qed

text \<open>A search by counting, for the concrete charts below.\<close>

definition count_below :: bisect where
  "count_below ts x lo = max lo (length (takeWhile (\<lambda>t. t < x) ts))"

lemma count_below_bisects: "bisects count_below"
proof -
  have "ts ! i < x" if "i < length (takeWhile (\<lambda>t. t < x) ts)" for ts i and x :: rat
    using nth_mem [OF that] that by (auto simp: takeWhile_nth dest: set_takeWhileD)
  moreover have "x \<le> ts ! i" if "sorted ts" "length (takeWhile (\<lambda>t. t < x) ts) \<le> i" "i < length ts" for ts i and x :: rat
  proof -
    have "x \<le> ts ! length (takeWhile (\<lambda>t. t < x) ts)"
      using nth_length_takeWhile [of "\<lambda>t. t < x" ts] that by (simp add: not_less)
    also have "\<dots> \<le> ts ! i" using that by (intro sorted_nth_mono)
    finally show ?thesis .
  qed
  moreover have "length (takeWhile (\<lambda>t. t < x) ts) \<le> length ts" for ts and x :: rat by (rule length_takeWhile_le)
  ultimately show ?thesis unfolding bisects_def count_below_def by (auto simp: max_def)
qed

definition two_days :: "rat \<Rightarrow> chart_env" where
  "two_days latest = \<lparr>ce_rows = [[(''t'', JNum (Fin 0)), (''v'', JNum (Fin 5))], [(''t'', JNum (Fin 100)), (''v'', JNum (Fin latest))]],
     ce_time = (\<lambda>d. coalesce (num_field d ''t'') 0), ce_invert = (\<lambda>x. x), ce_x = (\<lambda>t. Some t), ce_lines = [(''v'', None)],
     ce_bands = [], ce_yScales = (\<lambda>_. None), ce_yScale = (\<lambda>v. Some (100 - v)), ce_canInteract = True\<rparr>"

lemma two_days_times: "env_times (two_days v) = [0, 100]"
  by (simp add: env_times_def two_days_def num_field_def coalesce_def)

theorem pointer_picks_nearest_witness:
  "\<exists>t. resolveTooltipFromX count_below (two_days 7) 60 = Some t \<and> \<bar>60 - [0, 100 :: rat] ! td_index t\<bar> \<le> 40"
proof -
  have env: "sorted (env_times (two_days 7))" "1 < length (ce_rows (two_days 7))"
    "\<forall>x y. x \<le> y \<longrightarrow> ce_invert (two_days 7) x \<le> ce_invert (two_days 7) y" by (simp_all add: two_days_times) (simp_all add: two_days_def)
  have "ce_invert (two_days 7) 60 = 60" by (simp add: two_days_def)
  with pointer_picks_nearest [OF count_below_bisects env, of 60] show ?thesis unfolding two_days_times by auto
qed

subsection \<open>What the tooltip shows\<close>

definition key_shown :: "pointer_state \<Rightarrow> bool" where
  "key_shown s = (ps_lastKey s = map_option defaultDedupeKey (ps_tooltip s))"

definition pointer_ok :: "pointer_state \<Rightarrow> bool" where
  "pointer_ok s \<longleftrightarrow> key_shown s \<and> (ps_frame s \<longrightarrow> ps_pending s \<noteq> None) \<and>
     (\<forall>t k. ps_pending s = Some (t, k) \<longrightarrow> k = defaultDedupeKey t \<and> (ps_frame s \<or> ps_lastKey s = Some k)) \<and>
     (\<forall>c. ps_selection s = Some c \<longrightarrow> cs_startX c \<le> cs_endX c)"

lemma key_shown_simps [simp]:
  "key_shown (s\<lparr>ps_pending := a\<rparr>) = key_shown s" "key_shown (s\<lparr>ps_frame := b\<rparr>) = key_shown s"
  "key_shown (s\<lparr>ps_selection := c\<rparr>) = key_shown s" "key_shown (s\<lparr>ps_dragging := d\<rparr>) = key_shown s"
  "key_shown (s\<lparr>ps_dragStart := e\<rparr>) = key_shown s" "key_shown (s\<lparr>ps_lastX := x\<rparr>) = key_shown s"
  "key_shown (s\<lparr>ps_touched := y\<rparr>) = key_shown s"
  "key_shown (s\<lparr>ps_lastKey := Some (defaultDedupeKey t), ps_tooltip := Some t\<rparr>)"
  "key_shown (s\<lparr>ps_lastKey := None, ps_tooltip := None\<rparr>)"
  "key_shown (s\<lparr>ps_tooltip := None, ps_lastKey := None\<rparr>)"
  by (simp_all add: key_shown_def)

lemma ok_schedule: "pointer_ok s \<Longrightarrow> pointer_ok (scheduleTooltip t s)"
  by (auto simp: pointer_ok_def scheduleTooltip_def Let_def)

lemma ok_clear: "pointer_ok s \<Longrightarrow> pointer_ok (clearTooltip s)"
  by (simp add: pointer_ok_def clearTooltip_def)

lemma ok_frame: "pointer_ok s \<Longrightarrow> pointer_ok (run_frame s)"
  by (auto simp: pointer_ok_def run_frame_def commitTooltip_def Let_def split: option.splits)

lemma ok_refs: "pointer_ok (s\<lparr>ps_lastX := a\<rparr>) = pointer_ok s" "pointer_ok (s\<lparr>ps_touched := b\<rparr>) = pointer_ok s"
  "pointer_ok (s\<lparr>ps_dragging := c\<rparr>) = pointer_ok s" "pointer_ok (s\<lparr>ps_dragStart := d\<rparr>) = pointer_ok s"
  "pointer_ok s \<Longrightarrow> pointer_ok (s\<lparr>ps_selection := None\<rparr>)"
  "pointer_ok s \<Longrightarrow> pointer_ok (s\<lparr>ps_selection := Some (select_between bisect env x y)\<rparr>)"
  by (simp_all add: pointer_ok_def select_between_def Let_def)

lemma ok_hover: "pointer_ok s \<Longrightarrow> pointer_ok (hover_at bisect env x s)"
  by (auto simp: hover_at_def Let_def ok_schedule ok_refs split: option.split)

lemma ok_touch_move: "pointer_ok s \<Longrightarrow> pointer_ok (handleTouchMove bisect env ps s)"
  by (auto simp: handleTouchMove_def ok_hover ok_refs split: list.split option.split)

lemma ok_reset: "pointer_ok s \<Longrightarrow> pointer_ok (clearTooltip (resetTooltipDedupe s))"
  by (simp add: pointer_ok_def clearTooltip_def resetTooltipDedupe_def)

lemma ok_step: "pointer_ok s \<Longrightarrow> pointer_ok (pointer_step bisect env e s)"
  by (cases e) (auto simp: ok_frame ok_touch_move ok_hover ok_clear ok_reset ok_refs handleMouseMove_def handleMouseLeave_def
    handleMouseDown_def handleMouseUp_def handleTouchStart_def handleTouchEnd_def onPointerDown_def Let_def split: option.split)

lemma ok_reanchor: "pointer_ok s \<Longrightarrow> pointer_ok (reanchor bisect env s)"
  by (auto simp: reanchor_def ok_schedule ok_clear split: option.split)

lemma pointer_reach_ok: "pointer_reach bisect env s \<Longrightarrow> pointer_ok s"
proof (induction rule: pointer_reach.induct)
  case mounted_chart
  show ?case by (simp add: pointer_ok_def key_shown_def fresh_pointer_def)
qed (simp_all add: ok_step ok_reanchor)

text \<open>The tooltip catches up in a frame: whatever the pointer, the fingers and the data did, after the next
  frame none is left waiting and the tooltip shows the index and the pixel that were asked for last, or
  stays as it was when none were; what is shown is what the last key says; and a selection always runs
  from left to right.\<close>

theorem tooltip_catches_up:
  assumes "pointer_reach bisect env s"
  shows "\<not> ps_frame (run_frame s) \<and>
    map_option defaultDedupeKey (ps_tooltip (run_frame s)) = (case ps_pending s of
      Some (t, k) \<Rightarrow> Some (defaultDedupeKey t) | None \<Rightarrow> map_option defaultDedupeKey (ps_tooltip s)) \<and>
    ps_lastKey s = map_option defaultDedupeKey (ps_tooltip s) \<and>
    (case ps_selection s of None \<Rightarrow> True | Some c \<Rightarrow> cs_startX c \<le> cs_endX c)"
proof -
  have ok: "pointer_ok s" using assms by (rule pointer_reach_ok)
  then have "key_shown (run_frame s)" using ok_frame pointer_ok_def by blast
  then have "map_option defaultDedupeKey (ps_tooltip (run_frame s)) = ps_lastKey (run_frame s)" by (simp add: key_shown_def)
  moreover have "\<not> ps_frame (run_frame s)" "ps_lastKey (run_frame s) = (case ps_pending s of
      Some (t, k) \<Rightarrow> Some (defaultDedupeKey t) | None \<Rightarrow> ps_lastKey s)"
    using ok by (auto simp: pointer_ok_def run_frame_def commitTooltip_def Let_def split: option.splits)
  moreover have "ps_lastKey s = map_option defaultDedupeKey (ps_tooltip s)" using ok by (simp add: pointer_ok_def key_shown_def)
  moreover have "case ps_selection s of None \<Rightarrow> True | Some c \<Rightarrow> cs_startX c \<le> cs_endX c"
    using ok by (simp add: pointer_ok_def split: option.split)
  ultimately show ?thesis by (simp split: option.split)
qed

theorem tooltip_catches_up_witness:
  "\<not> ps_frame (run_frame (pointer_step count_below (two_days 7) (MouseMoved (Some 90)) fresh_pointer))"
  using tooltip_catches_up [OF pointed [OF mounted_chart], of count_below "two_days 7" "MouseMoved (Some 90)"] by blast

text \<open>A tooltip does not follow new values: when the rows change under a pointer at rest but the nearest row keeps
  its index and its pixel, the tooltip that is shown keeps the row it was made from, whatever the values of
  the new row, although the effect is there to show the tooltip of the new rows.\<close>

theorem refreshed_row_not_shown:
  assumes "pointer_reach bisect env s" "ps_frame s = False" "ps_tooltip s = Some t" "ps_lastX s = Some x"
    and "resolveTooltipFromX bisect env' x = Some t'" "td_index t' = td_index t" "js_round (td_x t') = js_round (td_x t)"
  shows "ps_tooltip (run_frame (reanchor bisect env' s)) = Some t"
proof -
  have "key_shown s" using pointer_reach_ok [OF assms(1)] by (simp add: pointer_ok_def)
  then have "ps_lastKey s = Some (defaultDedupeKey t')" using assms by (simp add: key_shown_def defaultDedupeKey_def)
  then show ?thesis using assms by (simp add: reanchor_def scheduleTooltip_def Let_def run_frame_def)
qed

lemma two_days_hover:
  "resolveTooltipFromX count_below (two_days v) 90 = Some \<lparr>td_point = [(''t'', JNum (Fin 100)), (''v'', JNum (Fin v))],
    td_index = 1, td_x = 100, td_y = [(''v'', 100 - v)]\<rparr>"
proof -
  have "count_below [0, 100] 90 1 = 1" by (simp add: count_below_def)
  moreover have "ce_invert (two_days v) 90 = 90" by (simp add: two_days_def)
  moreover have "row_at (two_days v) 0 = Some [(''t'', JNum (Fin 0)), (''v'', JNum (Fin 5))]"
    "row_at (two_days v) 1 = Some [(''t'', JNum (Fin 100)), (''v'', JNum (Fin v))]" by (simp_all add: two_days_def row_at_def)
  moreover have "resolveYPositions (two_days v) [(''t'', JNum (Fin 100)), (''v'', JNum (Fin v))] = [(''v'', 100 - v)]"
    by (simp add: two_days_def resolveYPositions_def place_y_def num_field_def coalesce_def Let_def)
  moreover have "ce_time (two_days v) [(''t'', JNum (Fin 0)), (''v'', JNum (Fin 5))] = 0"
    "ce_time (two_days v) [(''t'', JNum (Fin 100)), (''v'', JNum (Fin v))] = 100" "ce_x (two_days v) = Some"
    by (simp_all add: two_days_def num_field_def coalesce_def)
  ultimately show ?thesis by (simp add: resolveTooltipFromX_def two_days_times Let_def coalesce_def)
qed

theorem refreshed_row_not_shown_witness:
  "map_option td_point (ps_tooltip (run_frame (reanchor count_below (two_days 8)
      (run_frame (pointer_step count_below (two_days 7) (MouseMoved (Some 90)) fresh_pointer))))) =
    Some [(''t'', JNum (Fin 100)), (''v'', JNum (Fin 7))] \<and>
   map_option td_point (resolveTooltipFromX count_below (two_days 8) 90) = Some [(''t'', JNum (Fin 100)), (''v'', JNum (Fin 8))]"
proof -
  let ?m = "pointer_step count_below (two_days 7) (MouseMoved (Some 90)) fresh_pointer"
  let ?t = "the (resolveTooltipFromX count_below (two_days 7) 90)"
  have can: "ce_canInteract (two_days 7)" by (simp add: two_days_def)
  have m: "?m = fresh_pointer\<lparr>ps_pending := Some (?t, defaultDedupeKey ?t), ps_frame := True, ps_lastX := Some 90\<rparr>"
    using can by (simp add: handleMouseMove_def hover_at_def two_days_hover scheduleTooltip_def Let_def fresh_pointer_def)
  have shown: "ps_tooltip (run_frame ?m) = Some ?t" "ps_frame (run_frame ?m) = False" "ps_lastX (run_frame ?m) = Some 90"
    unfolding m by (simp_all add: run_frame_def commitTooltip_def fresh_pointer_def)
  have "pointer_reach count_below (two_days 7) (run_frame ?m)"
    using pointed [OF pointed [OF mounted_chart], of count_below "two_days 7" AnimationFrame "MouseMoved (Some 90)"] by simp
  from refreshed_row_not_shown [OF this shown(2,1,3), of "two_days 8"] show ?thesis by (simp add: two_days_hover)
qed

end
