(* ===== verification/Credentials.thy ===== *)
theory Credentials
  imports Mock_Accounts
begin

text \<open>
  Reading pasted credentials in the add-account dialog (src/ui/src/features/add-account/lib): the
  region field (region.ts), lines of API keys (api-key-lines.ts), credentials JSON and Kiro Account
  Manager exports (credentials-mapping.ts), and the two files of the IDE's cache (local-cache.ts).
  \<open>JSON.parse\<close> and \<open>atob\<close> are parameters that answer \<open>None\<close> where JavaScript throws.
\<close>

subsection \<open>Regions\<close>

definition DEFAULT_REGION :: string where "DEFAULT_REGION = ''us-east-1''"

definition is_region_char :: "char \<Rightarrow> bool" where
  "is_region_char c \<longleftrightarrow> is_lower_az c \<or> is_digit c"

text \<open>\<open>REGION_RE\<close>: two letters, then at least one part of letters and digits, then a number, joined by
  dashes; no part holds a dash, so the parts are those of the split.\<close>

definition region_re :: "string \<Rightarrow> bool" where
  "region_re s =
     (let ps = split_char (CHR ''-'') s
      in length ps \<ge> 3 \<and> length (hd ps) = 2 \<and> list_all is_lower_az (hd ps) \<and>
         list_all (\<lambda>p. p \<noteq> [] \<and> list_all is_region_char p) (butlast (tl ps)) \<and>
         last ps \<noteq> [] \<and> list_all is_digit (last ps))"

definition parseRegion :: "string \<Rightarrow> string option" where
  "parseRegion raw =
     (let region = toLowerCase (trim raw)
      in if region = [] then Some DEFAULT_REGION else if region_re region then Some region else None)"

subsection \<open>Fields of a pasted item\<close>

type_synonym source = "(string \<times> json) list"

fun textField :: "json \<Rightarrow> string" where
  "textField (JStr s) = s"
| "textField (JNum n) = num_text n"
| "textField (JBool b) = (if b then ''true'' else ''false'')"
| "textField _ = []"

definition item_text :: "source \<Rightarrow> string \<Rightarrow> string" where
  "item_text item k = textField (own item k)"

definition MICROSOFT_ALIASES :: "string list" where
  "MICROSOFT_ALIASES =
     [''external_idp'', ''external-idp'', ''external'', ''microsoft'', ''m365'', ''office365'', ''azure'',
      ''azuread'', ''azure-ad'', ''azure_ad'', ''entra'', ''entra-id'']"

definition isMicrosoftCredential :: "source \<Rightarrow> bool" where
  "isMicrosoftCredential item \<longleftrightarrow>
     toLowerCase (item_text item ''authMethod'') \<in> set MICROSOFT_ALIASES \<or>
     toLowerCase (item_text item ''provider'') \<in> set MICROSOFT_ALIASES \<or>
     or_text (item_text item ''tokenEndpoint'') (item_text item ''issuerUrl'') \<noteq> []"

definition record_or_empty :: "json \<Rightarrow> source" where
  "record_or_empty v = (case as_record v of None \<Rightarrow> [] | Some fs \<Rightarrow> fs)"

definition fromAccountManager :: "json \<Rightarrow> source" where
  "fromAccountManager entry =
     (let account = record_or_empty entry;
          credentials = record_or_empty (own account ''credentials'');
          pick = (\<lambda>k. or_text (item_text credentials k) (item_text account k))
      in map (\<lambda>(k, v). (k, JStr v))
           [(''refreshToken'', pick ''refreshToken''), (''accessToken'', pick ''accessToken''),
            (''kiroApiKey'', pick ''kiroApiKey''), (''clientId'', pick ''clientId''),
            (''clientSecret'', pick ''clientSecret''), (''region'', pick ''region''),
            (''authMethod'', pick ''authMethod''),
            (''provider'', or_text (pick ''provider'') (item_text account ''idp'')),
            (''userId'', item_text account ''userId''), (''profileArn'', item_text account ''profileArn''),
            (''tokenEndpoint'', item_text credentials ''tokenEndpoint''),
            (''issuerUrl'', item_text credentials ''issuerUrl''), (''scopes'', item_text credentials ''scopes'')])"

text \<open>\<open>None\<close> where \<open>JSON.parse\<close> throws.\<close>

definition parseCredentialsJson :: "(string \<Rightarrow> json option) \<Rightarrow> string \<Rightarrow> source list option" where
  "parseCredentialsJson parse text =
     map_option (\<lambda>v. case as_record v of
         Some fs \<Rightarrow> (case own fs ''accounts'' of
             JArr entries \<Rightarrow> map fromAccountManager entries
           | _ \<Rightarrow> [fs])
       | None \<Rightarrow> (case v of JArr items \<Rightarrow> map record_or_empty items | _ \<Rightarrow> [record_or_empty v]))
       (parse (trim text))"

subsection \<open>The request of an item\<close>

datatype mapped_credential = MappedRequest credentials_import_request | MissingRefreshToken

definition no_payload :: credentials_import_request where
  "no_payload = \<lparr>cir_accessToken = None, cir_refreshToken = None, cir_kiroApiKey = None, cir_clientId = None,
     cir_clientSecret = None, cir_authMethod = None, cir_provider = None, cir_region = None, cir_email = None,
     cir_nickname = None, cir_userId = None, cir_profileArn = None, cir_tokenEndpoint = None,
     cir_issuerUrl = None, cir_scopes = None\<rparr>"

definition api_key_of :: "source \<Rightarrow> string" where
  "api_key_of item =
     (let refreshToken = item_text item ''refreshToken''; accessToken = item_text item ''accessToken'';
          method = toLowerCase (item_text item ''authMethod'');
          looksLikeApiKey = (method = ''api_key'' \<or> method = ''apikey'' \<or> startsWith accessToken ''ksk_'')
      in or_text (item_text item ''kiroApiKey'') (if looksLikeApiKey \<and> refreshToken = [] then accessToken else []))"

definition social_method :: "source \<Rightarrow> string" where
  "social_method item =
     (if item_text item ''clientId'' \<noteq> [] \<and> item_text item ''clientSecret'' \<noteq> [] then ''idc''
      else if toLowerCase (item_text item ''authMethod'') = ''idc'' then ''idc'' else ''social'')"

definition mapCredential :: "source \<Rightarrow> mapped_credential" where
  "mapCredential item =
     (let field = item_text item;
          refreshToken = field ''refreshToken''; accessToken = field ''accessToken''; region = field ''region'';
          apiKey = api_key_of item
      in if apiKey \<noteq> [] then
           MappedRequest (no_payload\<lparr>cir_kiroApiKey := Some apiKey, cir_authMethod := Some ''api_key'',
             cir_region := Some region\<rparr>)
         else if refreshToken = [] then MissingRefreshToken
         else if isMicrosoftCredential item then
           MappedRequest (no_payload\<lparr>cir_refreshToken := Some refreshToken, cir_accessToken := Some accessToken,
             cir_clientId := Some (field ''clientId''), cir_authMethod := Some ''external_idp'',
             cir_provider := Some ''AzureAD'', cir_region := Some region, cir_userId := Some (field ''userId''),
             cir_profileArn := Some (field ''profileArn''), cir_tokenEndpoint := Some (field ''tokenEndpoint''),
             cir_issuerUrl := Some (field ''issuerUrl''), cir_scopes := Some (field ''scopes'')\<rparr>)
         else
           (let authMethod = social_method item
            in MappedRequest (no_payload\<lparr>cir_refreshToken := Some refreshToken, cir_accessToken := Some accessToken,
                 cir_clientId := Some (field ''clientId''), cir_clientSecret := Some (field ''clientSecret''),
                 cir_authMethod := Some authMethod,
                 cir_provider := Some (or_text (field ''provider'') (if authMethod = ''idc'' then ''BuilderId'' else ''Google'')),
                 cir_region := Some (or_text region DEFAULT_REGION)\<rparr>)))"

subsection \<open>Lines of API keys\<close>

definition parseApiKeyLines :: "string \<Rightarrow> string \<Rightarrow> credentials_import_request list" where
  "parseApiKeyLines text region =
     map (\<lambda>key. no_payload\<lparr>cir_kiroApiKey := Some key, cir_authMethod := Some ''api_key'',
            cir_region := Some (if CHR ''|'' \<in> set key then [] else region)\<rparr>)
       (filter (\<lambda>l. l \<noteq> []) (map trim (split_char (CHR 0x0A) text)))"

subsection \<open>The files of the local cache\<close>

datatype local_provider = BuilderId | Enterprise | Google | Github | Microsoft

fun provider_text :: "local_provider \<Rightarrow> string" where
  "provider_text BuilderId = ''BuilderId''" | "provider_text Enterprise = ''Enterprise''"
| "provider_text Google = ''Google''" | "provider_text Github = ''Github''"
| "provider_text Microsoft = ''Microsoft''"

definition isSocialProvider :: "local_provider \<Rightarrow> bool" where
  "isSocialProvider p \<longleftrightarrow> p = Google \<or> p = Github"

datatype local_cache_error =
    TokenMissing | TokenInvalid | RefreshTokenMissing | ClientInvalid | MicrosoftClientIdMissing
  | MicrosoftTenantMissing | ClientMissingNamed string | ClientMissing | ClientSecretMissing

definition localCacheErrorField :: "local_cache_error \<Rightarrow> bool \<Rightarrow> bool" where
  "localCacheErrorField key clientShown \<longleftrightarrow>
     (case key of ClientInvalid \<Rightarrow> True | ClientSecretMissing \<Rightarrow> True | ClientMissing \<Rightarrow> True
      | ClientMissingNamed _ \<Rightarrow> True | MicrosoftClientIdMissing \<Rightarrow> True | _ \<Rightarrow> False) \<and> clientShown"

definition jwtClaims :: "(string \<Rightarrow> json option) \<Rightarrow> (string \<Rightarrow> string option) \<Rightarrow> string \<Rightarrow> source" where
  "jwtClaims parse atob token =
     (case split_char (CHR ''.'') token of
        _ # part # _ \<Rightarrow>
          (let b64 = map (\<lambda>c. if c = CHR ''-'' then CHR ''+'' else if c = CHR ''_'' then CHR ''/'' else c) part;
               padded = b64 @ replicate ((4 - length b64 mod 4) mod 4) (CHR ''='')
           in if part = [] then []
              else case Option.bind (atob padded) parse of None \<Rightarrow> [] | Some v \<Rightarrow> record_or_empty v)
      | _ \<Rightarrow> [])"

definition LOCAL_MICROSOFT_ALIASES :: "string list" where
  "LOCAL_MICROSOFT_ALIASES =
     [''externalidp'', ''external'', ''microsoft'', ''m365'', ''office365'', ''azure'', ''azuread'', ''entra'', ''entraid'']"

definition fold_text :: "json \<Rightarrow> string" where
  "fold_text v = filter is_region_char (toLowerCase (textField v))"

definition isLocalMicrosoftToken :: "source \<Rightarrow> bool" where
  "isLocalMicrosoftToken item \<longleftrightarrow> isMicrosoftCredential item \<or>
     fold_text (own item ''authMethod'') \<in> set LOCAL_MICROSOFT_ALIASES \<or>
     fold_text (own item ''provider'') \<in> set LOCAL_MICROSOFT_ALIASES"

text \<open>\<open>.replace(/^api:\/\//i, "")\<close> and \<open>.replace(/\/.*$/, "")\<close>: a dot does not match a line end.\<close>

definition strip_api :: "string \<Rightarrow> string" where
  "strip_api s = (if startsWith (toLowerCase s) ''api://'' then drop 6 s else s)"

fun strip_path :: "string \<Rightarrow> string" where
  "strip_path [] = []"
| "strip_path (c # r) =
     (if c = CHR ''/'' \<and> list_all (\<lambda>d. code d \<noteq> 10 \<and> code d \<noteq> 13) r then [] else c # strip_path r)"

definition microsoftClientIdFromToken ::
  "(string \<Rightarrow> json option) \<Rightarrow> (string \<Rightarrow> string option) \<Rightarrow> string \<Rightarrow> string" where
  "microsoftClientIdFromToken parse atob accessToken =
     (let claims = jwtClaims parse atob accessToken;
          aud = strip_path (strip_api (textField (case own claims ''aud'' of
                  JArr (v # _) \<Rightarrow> v | JArr [] \<Rightarrow> JUndef | v \<Rightarrow> v)))
      in case List.find is_uuid [aud, item_text claims ''azp'', item_text claims ''appid''] of
           None \<Rightarrow> [] | Some v \<Rightarrow> v)"

type_synonym cache_result = "local_cache_error + credentials_import_request"

definition microsoftPayload ::
  "(string \<Rightarrow> json option) \<Rightarrow> (string \<Rightarrow> string option) \<Rightarrow> source \<Rightarrow> source option \<Rightarrow> cache_result" where
  "microsoftPayload parse atob token client =
     (let pick = (\<lambda>k. trim (or_text (item_text token k) (case client of None \<Rightarrow> [] | Some c \<Rightarrow> item_text c k)));
          accessToken = item_text token ''accessToken'';
          clientId = or_text (pick ''clientId'') (microsoftClientIdFromToken parse atob accessToken);
          tokenEndpoint = pick ''tokenEndpoint''; issuerUrl = pick ''issuerUrl'';
          userId = trim (item_text token ''userId'')
      in if \<not> is_uuid clientId then Inl MicrosoftClientIdMissing
         else if tokenEndpoint = [] \<and> issuerUrl = [] \<and> userId = [] \<and> \<not> truthy (own (jwtClaims parse atob accessToken) ''iss'')
         then Inl MicrosoftTenantMissing
         else Inr (no_payload\<lparr>cir_refreshToken := Some (item_text token ''refreshToken''),
                cir_accessToken := Some accessToken, cir_clientId := Some clientId,
                cir_authMethod := Some ''external_idp'', cir_provider := Some ''AzureAD'',
                cir_region := Some (item_text token ''region''), cir_userId := Some userId,
                cir_profileArn := Some (item_text token ''profileArn''),
                cir_tokenEndpoint := Some tokenEndpoint, cir_issuerUrl := Some issuerUrl,
                cir_scopes := Some (pick ''scopes'')\<rparr>))"

definition parseObject :: "(string \<Rightarrow> json option) \<Rightarrow> string \<Rightarrow> source option" where
  "parseObject parse text = Option.bind (parse text) as_record"

definition local_payload :: "source \<Rightarrow> source option \<Rightarrow> local_provider \<Rightarrow> credentials_import_request" where
  "local_payload token client provider =
     (let of_client = (\<lambda>k. case client of None \<Rightarrow> [] | Some c \<Rightarrow> item_text c k)
      in no_payload\<lparr>cir_refreshToken := Some (item_text token ''refreshToken''),
           cir_accessToken := Some (item_text token ''accessToken''),
           cir_clientId := Some (of_client ''clientId''), cir_clientSecret := Some (of_client ''clientSecret''),
           cir_region := Some (item_text token ''region''),
           cir_authMethod := Some (if client = None then ''social'' else ''idc''),
           cir_provider := Some (provider_text provider)\<rparr>)"

definition buildLocalCachePayload ::
  "(string \<Rightarrow> json option) \<Rightarrow> (string \<Rightarrow> string option) \<Rightarrow> local_provider \<Rightarrow> string \<Rightarrow> string \<Rightarrow> cache_result" where
  "buildLocalCachePayload parse atob provider tokenText clientText =
     (let tokenJson = trim tokenText; clientJson = trim clientText; social = isSocialProvider provider in
      if tokenJson = [] then Inl TokenMissing
      else case parseObject parse tokenJson of
        None \<Rightarrow> Inl TokenInvalid
      | Some token \<Rightarrow>
          if item_text token ''refreshToken'' = [] then Inl RefreshTokenMissing
          else if clientJson \<noteq> [] \<and> \<not> social \<and> parseObject parse clientJson = None then Inl ClientInvalid
          else
            (let client = (if clientJson \<noteq> [] \<and> \<not> social then parseObject parse clientJson else None);
                 microsoft = (provider = Microsoft \<or> isLocalMicrosoftToken token \<or>
                   (case client of None \<Rightarrow> False
                    | Some c \<Rightarrow> item_text c ''clientSecret'' = [] \<and> isLocalMicrosoftToken c))
             in if microsoft then microsoftPayload parse atob token client
                else if social then Inr (local_payload token client provider)
                else case client of
                    None \<Rightarrow>
                      (let hash = trim (item_text token ''clientIdHash'')
                       in Inl (if hash \<noteq> [] then ClientMissingNamed hash else ClientMissing))
                  | Some c \<Rightarrow>
                      if item_text c ''clientId'' = [] \<or> item_text c ''clientSecret'' = [] then Inl ClientSecretMissing
                      else Inr (local_payload token client provider)))"

end
