(* ===== verification/Go_Regex.thy ===== *)
theory Go_Regex
  imports Js_Strings
begin

text \<open>
  The check that stands for Go's \<open>regexp.Compile\<close> on a pattern (src/ui/src/features/settings/lib/go-regex.ts). The
  code walks the pattern by index; here the text left is passed on, so \<open>p[i + 1]\<close> is the second character
  of it. Characters are 8-bit, so there are no surrogate pairs. Whether JavaScript's engine knows a
  script (\<open>new RegExp("\p{Script=...}", "u")\<close>) is the parameter \<open>script\<close>.
\<close>

subsection \<open>Tables\<close>

definition MAX_REPEAT :: int where "MAX_REPEAT = 1000"

definition PERL_CLASSES :: "char list" where "PERL_CLASSES = ''dDsSwW''"

definition POSIX_CLASSES :: "string list" where
  "POSIX_CLASSES = [''alnum'', ''alpha'', ''ascii'', ''blank'', ''cntrl'', ''digit'', ''graph'', ''lower'', ''print'',
     ''punct'', ''space'', ''upper'', ''word'', ''xdigit'']"

definition CONTROL_ESCAPES :: "(char \<times> nat) list" where
  "CONTROL_ESCAPES = [(CHR ''a'', 7), (CHR ''f'', 12), (CHR ''n'', 10), (CHR ''r'', 13), (CHR ''t'', 9), (CHR ''v'', 11)]"

definition CATEGORY_NAMES :: string where
  "CATEGORY_NAMES =
     ''C Cc Cf Cn Co Cs L Ll Lm Lo Lt Lu M Mc Me Mn N Nd Nl No '' @
     ''P Pc Pd Pe Pf Pi Po Ps S Sc Sk Sm So Z Zl Zp Zs '' @
     ''Cased_Letter Close_Punctuation Combining_Mark Connector_Punctuation Control Currency_Symbol '' @
     ''Dash_Punctuation Decimal_Number Enclosing_Mark Final_Punctuation Format Initial_Punctuation '' @
     ''Letter Letter_Number Line_Separator Lowercase_Letter Mark Math_Symbol Modifier_Letter '' @
     ''Modifier_Symbol Nonspacing_Mark Number Open_Punctuation Other Other_Letter Other_Number '' @
     ''Other_Punctuation Other_Symbol Paragraph_Separator Private_Use Punctuation Separator '' @
     ''Space_Separator Spacing_Mark Surrogate Symbol Titlecase_Letter Unassigned Uppercase_Letter '' @
     ''cntrl digit punct Any Assigned ASCII LC''"

definition is_octal :: "char \<Rightarrow> bool" where "is_octal c \<longleftrightarrow> 48 \<le> code c \<and> code c \<le> 55"

definition is_alnum :: "char \<Rightarrow> bool" where "is_alnum c \<longleftrightarrow> is_digit c \<or> is_upper_az c \<or> is_lower_az c"

definition capture_name :: "string \<Rightarrow> bool" where
  "capture_name s \<longleftrightarrow> s \<noteq> [] \<and> list_all (\<lambda>c. is_alnum c \<or> c = CHR ''_'') s"

text \<open>\<open>p[n]\<close>: \<open>undefined\<close> past the end.\<close>

definition char_at :: "string \<Rightarrow> nat \<Rightarrow> char option" where
  "char_at p n = (if n < length p then Some (p ! n) else None)"

definition head_is :: "(char \<Rightarrow> bool) \<Rightarrow> string \<Rightarrow> bool" where
  "head_is P p \<longleftrightarrow> p \<noteq> [] \<and> P (hd p)"

subsection \<open>Unicode class names\<close>

definition is_separator :: "char \<Rightarrow> bool" where
  "is_separator c \<longleftrightarrow> c = CHR ''_'' \<or> c = CHR ''-'' \<or> c = CHR '' ''"

definition raise_az :: "char \<Rightarrow> char" where
  "raise_az c = (if is_lower_az c then char_of (code c - 32) else c)"

definition lower_az :: "char \<Rightarrow> char" where
  "lower_az c = (if is_upper_az c then char_of (code c + 32) else c)"

definition canonicalName :: "string \<Rightarrow> string" where
  "canonicalName name = (case filter (\<lambda>c. \<not> is_separator c) name of
     [] \<Rightarrow> [] | c # cs \<Rightarrow> raise_az c # map lower_az cs)"

text \<open>\<open>name.split(/[_\- ]+/).filter(Boolean)\<close>.\<close>

fun script_words :: "string \<Rightarrow> string \<Rightarrow> string list" where
  "script_words word [] = (if word = [] then [] else [rev word])"
| "script_words word (c # cs) =
     (if is_separator c then (if word = [] then [] else [rev word]) @ script_words [] cs
      else script_words (c # word) cs)"

text \<open>\<open>charAt(0).toUpperCase()\<close>: two letters for sharp s; the letters whose capital is outside the 8-bit
  characters stay, since a name with either is refused by \<open>CAPTURE_NAME\<close>.\<close>

definition raise_first :: "char \<Rightarrow> string" where
  "raise_first c = (if code c = 223 then ''SS''
     else if is_lower_az c \<or> (224 \<le> code c \<and> code c \<le> 254 \<and> code c \<noteq> 247) then [char_of (code c - 32)] else [c])"

definition titled_word :: "string \<Rightarrow> string" where
  "titled_word w = (case w of [] \<Rightarrow> [] | c # cs \<Rightarrow> raise_first c @ toLowerCase cs)"

definition isScript :: "(string \<Rightarrow> bool) \<Rightarrow> string \<Rightarrow> bool" where
  "isScript script name =
     (let titled = join ''_'' (map titled_word (script_words [] name))
      in list_ex (\<lambda>candidate. capture_name candidate \<and> script candidate) [name, titled])"

definition isUnicodeClassName :: "(string \<Rightarrow> bool) \<Rightarrow> string \<Rightarrow> bool" where
  "isUnicodeClassName script name \<longleftrightarrow> name \<noteq> [] \<and>
     (canonicalName name \<in> set (map canonicalName (split_char (CHR '' '') CATEGORY_NAMES)) \<or> isScript script name)"

subsection \<open>Escapes and classes\<close>

definition digit_value :: "char \<Rightarrow> nat" where
  "digit_value c = (if is_digit c then code c - 48 else if is_upper_az c then code c - 55 else code c - 87)"

definition number_in :: "nat \<Rightarrow> string \<Rightarrow> nat" where
  "number_in base ds = foldl (\<lambda>v d. v * base + digit_value d) 0 ds"

text \<open>A character and the text after it. The text starts at the backslash.\<close>

definition parseEscape :: "string \<Rightarrow> (nat \<times> string) option" where
  "parseEscape p = (case char_at p 1 of
     None \<Rightarrow> None
   | Some c \<Rightarrow>
       (let next = drop 2 p in
        if c = CHR ''0'' \<or> (CHR ''0'' \<noteq> c \<and> is_octal c \<and> head_is is_octal next) then
          (let ds = takeWhile is_octal (take 2 next) in Some (number_in 8 (c # ds), drop (length ds) next))
        else if c = CHR ''x'' then
          (if head_is (\<lambda>d. d = CHR ''{'') next then
             (let digits = takeWhile (\<lambda>d. d \<noteq> CHR ''}'') (tl next) in
              if CHR ''}'' \<notin> set next \<or> digits = [] \<or> \<not> list_all is_hex digits then None
              else if number_in 16 digits > 0x10ffff then None
              else Some (number_in 16 digits, drop (length digits + 2) next))
           else if head_is is_hex next \<and> head_is is_hex (drop 1 next)
           then Some (number_in 16 (take 2 next), drop 2 next) else None)
        else (case map_of CONTROL_ESCAPES c of
            Some cp \<Rightarrow> Some (cp, next)
          | None \<Rightarrow> if code c < 128 \<and> \<not> is_alnum c then Some (code c, next) else None)))"

definition strip_caret :: "string \<Rightarrow> string" where
  "strip_caret s = (if head_is (\<lambda>c. c = CHR ''^'') s then tl s else s)"

definition parseUnicodeClass :: "(string \<Rightarrow> bool) \<Rightarrow> string \<Rightarrow> string option" where
  "parseUnicodeClass script p =
     (let q = drop 2 p in
      if head_is (\<lambda>c. c = CHR ''{'') q then
        (if CHR ''}'' \<notin> set q then None
         else (let name = takeWhile (\<lambda>c. c \<noteq> CHR ''}'') (tl q)
               in if isUnicodeClassName script (strip_caret name) then Some (drop (length name + 2) q) else None))
      else (case q of
          [] \<Rightarrow> None
        | c # rest \<Rightarrow> if isUnicodeClassName script (strip_caret [c]) then Some rest else None))"

definition parseClassChar :: "string \<Rightarrow> (nat \<times> string) option" where
  "parseClassChar p = (case p of
     [] \<Rightarrow> None
   | c # rest \<Rightarrow> if c = CHR 0x5C then parseEscape p else Some (code c, rest))"

text \<open>One round of the loop of \<open>parseClass\<close>: the text after an item of a bracket class, \<open>None\<close> for a
  rejected one.\<close>

definition posix_item :: "string \<Rightarrow> (bool \<times> string) option" where
  "posix_item p =
     (if startsWith p ''[:'' \<and> length p > 2 then
        map_option (\<lambda>k. (strip_caret (take k (drop 2 p)) \<in> set POSIX_CLASSES, drop (k + 4) p)) (indexOf (drop 2 p) '':]'')
      else None)"

definition range_item :: "string \<Rightarrow> string option" where
  "range_item p = (case parseClassChar p of
     None \<Rightarrow> None
   | Some (lo, q) \<Rightarrow>
       if head_is (\<lambda>c. c = CHR ''-'') q \<and> length q > 1 \<and> q ! 1 \<noteq> CHR '']'' then
         (case parseClassChar (tl q) of
            None \<Rightarrow> None
          | Some (hi, r) \<Rightarrow> if hi < lo then None else Some r)
       else Some q)"

definition class_item :: "(string \<Rightarrow> bool) \<Rightarrow> string \<Rightarrow> string option" where
  "class_item script p = (case posix_item p of
     Some (known, rest) \<Rightarrow> if known then Some rest else None
   | None \<Rightarrow>
       if char_at p 0 = Some (CHR 0x5C) \<and> (char_at p 1 = Some (CHR ''p'') \<or> char_at p 1 = Some (CHR ''P''))
       then parseUnicodeClass script p
       else if char_at p 0 = Some (CHR 0x5C) \<and> (case char_at p 1 of None \<Rightarrow> False | Some c \<Rightarrow> c \<in> set PERL_CLASSES)
       then Some (drop 2 p)
       else range_item p)"

text \<open>Every parser leaves less text than it was given.\<close>

lemma char_at_Some: "char_at p n = Some c \<Longrightarrow> n < length p \<and> c = p ! n"
  by (simp add: char_at_def split: if_splits)

lemma parseEscape_shorter: "parseEscape p = Some (cp, q) \<Longrightarrow> length q < length p"
  by (auto simp: parseEscape_def Let_def dest!: char_at_Some split: option.splits if_splits)

lemma parseUnicodeClass_shorter:
  assumes "parseUnicodeClass script p = Some q" "2 \<le> length p"
  shows "length q < length p"
  using assms by (cases "drop 2 p") (auto simp: parseUnicodeClass_def Let_def head_is_def split: if_splits dest: arg_cong [where f = length])

lemma parseClassChar_shorter: "parseClassChar p = Some (cp, q) \<Longrightarrow> length q < length p"
  using parseEscape_shorter [of p cp q] by (cases p) (auto simp: parseClassChar_def split: if_splits)

lemma range_item_shorter: "range_item p = Some q \<Longrightarrow> length q < length p"
  by (fastforce simp: range_item_def dest!: parseClassChar_shorter split: option.splits if_splits)

lemma class_item_shorter:
  assumes "class_item script p = Some q"
  shows "length q < length p"
proof -
  have "length q < length p" if "posix_item p = Some (known, q)" for known
    using that by (auto simp: posix_item_def split: if_splits)
  then show ?thesis using assms
    by (auto simp: class_item_def intro: range_item_shorter parseUnicodeClass_shorter dest!: char_at_Some
        split: option.splits if_splits prod.splits)
qed

function class_loop :: "(string \<Rightarrow> bool) \<Rightarrow> bool \<Rightarrow> string \<Rightarrow> string option" where
  "class_loop script first p =
     (if \<not> first \<and> char_at p 0 = Some (CHR '']'') then Some (tl p)
      else if p = [] then None
      else (case class_item script p of None \<Rightarrow> None | Some q \<Rightarrow> class_loop script False q))"
  by pat_completeness auto
termination by (relation "measure (\<lambda>(script, first, p). length p)") (auto dest: class_item_shorter)

declare class_loop.simps [simp del]

text \<open>The text starts at the opening bracket.\<close>

definition parseClass :: "(string \<Rightarrow> bool) \<Rightarrow> string \<Rightarrow> string option" where
  "parseClass script p = class_loop script True (drop (if char_at p 1 = Some (CHR ''^'') then 2 else 1) p)"

lemma class_loop_shorter: "class_loop script first p = Some q \<Longrightarrow> length q \<le> length p"
proof (induction script first p rule: class_loop.induct)
  case (1 script first p)
  show ?case
  proof (cases "\<not> first \<and> char_at p 0 = Some (CHR '']'')")
    case True
    with "1.prems" show ?thesis by (subst (asm) class_loop.simps) auto
  next
    case False
    with "1.prems" obtain r where "p \<noteq> []" and r: "class_item script p = Some r" "class_loop script False r = Some q"
      by (subst (asm) class_loop.simps) (auto split: if_splits option.splits)
    then show ?thesis using "1.IH" [OF False] class_item_shorter [OF r(1)] by fastforce
  qed
qed

lemma parseClass_shorter: "parseClass script p = Some q \<Longrightarrow> p \<noteq> [] \<Longrightarrow> length q < length p"
  by (cases p) (auto simp: parseClass_def dest!: class_loop_shorter split: if_splits)

subsection \<open>Groups and repetitions\<close>

fun perl_flags :: "bool \<Rightarrow> bool \<Rightarrow> string \<Rightarrow> (bool \<times> string) option" where
  "perl_flags negated sawFlag [] = None"
| "perl_flags negated sawFlag (c # cs) =
     (if c \<in> {CHR ''i'', CHR ''m'', CHR ''s'', CHR ''U''} then perl_flags negated True cs
      else if c = CHR ''-'' \<and> \<not> negated then perl_flags True False cs
      else if c = CHR '':'' \<or> c = CHR '')'' then
        (if negated \<and> \<not> sawFlag then None else Some (c = CHR '':'', cs))
      else None)"

text \<open>The text starts at the \<open>(?\<close>; the flag tells whether a group opens.\<close>

definition parsePerlGroup :: "string \<Rightarrow> (bool \<times> string) option" where
  "parsePerlGroup p =
     (let named = (if char_at p 2 = Some (CHR ''<'') then 3
                   else if char_at p 2 = Some (CHR ''P'') \<and> char_at p 3 = Some (CHR ''<'') then 4 else 0)
      in if named > 0 \<and> named < length p then
           (let name = takeWhile (\<lambda>c. c \<noteq> CHR ''>'') (drop named p)
            in if CHR ''>'' \<notin> set p \<or> \<not> capture_name name then None
               else Some (True, drop (named + length name + 1) p))
         else perl_flags False False (drop 2 p))"

lemma perl_flags_shorter: "perl_flags negated sawFlag p = Some (opens, q) \<Longrightarrow> length q < length p"
  by (induction negated sawFlag p rule: perl_flags.induct) (auto split: if_splits)

lemma parsePerlGroup_shorter: "parsePerlGroup p = Some (opens, q) \<Longrightarrow> p \<noteq> [] \<Longrightarrow> length q < length p"
  by (fastforce simp: parsePerlGroup_def Let_def dest: perl_flags_shorter split: if_splits)

record frame =
  fr_done :: int
  fr_last :: "int option"

definition open_frame :: frame where "open_frame = \<lparr>fr_done = 1, fr_last = None\<rparr>"

definition heaviest :: "frame \<Rightarrow> int" where
  "heaviest f = max (fr_done f) (case fr_last f of None \<Rightarrow> 1 | Some w \<Rightarrow> w)"

text \<open>The frames with the innermost group first: \<open>item(weight)\<close> on the top frame.\<close>

fun add_item :: "int \<Rightarrow> frame list \<Rightarrow> frame list" where
  "add_item weight [] = []"
| "add_item weight (f # fs) = \<lparr>fr_done = heaviest f, fr_last = Some weight\<rparr> # fs"

definition repeatWeight :: "int \<Rightarrow> int \<Rightarrow> int \<Rightarrow> int" where
  "repeatWeight operand mn mx =
     (if mx = 0 then 1 else let n = (if mx < 0 then mn else mx) in if n > 0 then operand * n else operand)"

definition repeat_number :: "string \<Rightarrow> bool" where
  "repeat_number ds \<longleftrightarrow> ds = ''0'' \<or> (ds \<noteq> [] \<and> hd ds \<noteq> CHR ''0'')"

text \<open>\<open>REPEAT.exec\<close> on a text that starts at the brace: the two counts (\<open>-1\<close> for an open end) and the
  text after. The digits are maximal, so no shorter match can succeed.\<close>

definition counted_repeat :: "string \<Rightarrow> (int \<times> int \<times> string) option" where
  "counted_repeat p =
     (let ds = takeWhile is_digit (drop 1 p); q = dropWhile is_digit (drop 1 p);
          es = takeWhile is_digit (drop 1 q); r = dropWhile is_digit (drop 1 q);
          mn = int (number_in 10 ds)
      in if \<not> repeat_number ds then None
         else if head_is (\<lambda>c. c = CHR ''}'') q then Some (mn, mn, tl q)
         else if head_is (\<lambda>c. c = CHR '','') q \<and> (es = [] \<or> repeat_number es) \<and> head_is (\<lambda>c. c = CHR ''}'') r
         then Some (mn, if es = [] then - 1 else int (number_in 10 es), tl r)
         else None)"

lemma counted_repeat_shorter:
  assumes "counted_repeat p = Some (mn, mx, q)" "p \<noteq> []"
  shows "length q < length p"
proof -
  have "length (dropWhile is_digit (drop 1 p)) \<le> length (drop 1 p)" by (rule length_dropWhile_le)
  moreover have "length (dropWhile is_digit (drop 1 (dropWhile is_digit (drop 1 p)))) \<le> length (drop 1 (dropWhile is_digit (drop 1 p)))"
    by (rule length_dropWhile_le)
  moreover have "length (drop 1 p) < length p" using assms(2) by (cases p) auto
  ultimately show ?thesis using assms(1) by (auto simp: counted_repeat_def Let_def split: if_splits)
qed

subsection \<open>The walk over a pattern\<close>

type_synonym walk = "string \<times> frame list \<times> bool"

definition group_step :: "string \<Rightarrow> frame list \<Rightarrow> walk option" where
  "group_step p fs =
     (if char_at p 1 = Some (CHR ''?'') then
        map_option (\<lambda>(opens, q). (q, if opens then open_frame # fs else fs, False)) (parsePerlGroup p)
      else Some (tl p, open_frame # fs, False))"

definition close_step :: "string \<Rightarrow> frame list \<Rightarrow> walk option" where
  "close_step p fs = (case fs of
     g # f # rest \<Rightarrow> Some (tl p, add_item (heaviest g) (f # rest), False) | _ \<Rightarrow> None)"

definition bar_step :: "string \<Rightarrow> frame list \<Rightarrow> walk option" where
  "bar_step p fs = (case fs of
     [] \<Rightarrow> None | f # rest \<Rightarrow> Some (tl p, \<lparr>fr_done = heaviest f, fr_last = None\<rparr> # rest, False))"

definition skip_mark :: "string \<Rightarrow> string" where
  "skip_mark q = (if head_is (\<lambda>c. c = CHR ''?'') q then tl q else q)"

definition apply_repeat :: "(int \<times> int) option \<Rightarrow> string \<Rightarrow> frame list \<Rightarrow> bool \<Rightarrow> walk option" where
  "apply_repeat counted q fs lastWasRepeat =
     (if (case counted of None \<Rightarrow> False | Some (mn, mx) \<Rightarrow> mn > MAX_REPEAT \<or> mx > MAX_REPEAT \<or> (mx \<ge> 0 \<and> mn > mx)) then None
      else (case fs of
          [] \<Rightarrow> None
        | f # rest \<Rightarrow> (case fr_last f of
              None \<Rightarrow> None
            | Some w \<Rightarrow>
                (let w' = (case counted of None \<Rightarrow> w | Some (mn, mx) \<Rightarrow> repeatWeight w mn mx)
                 in if lastWasRepeat \<or> (counted \<noteq> None \<and> w' > MAX_REPEAT) then None
                    else Some (skip_mark q, f\<lparr>fr_last := Some w'\<rparr> # rest, True)))))"

definition repeat_step :: "string \<Rightarrow> frame list \<Rightarrow> bool \<Rightarrow> walk option" where
  "repeat_step p fs lastWasRepeat =
     (if char_at p 0 = Some (CHR ''{'') then
        (case counted_repeat p of
           None \<Rightarrow> Some (tl p, add_item 1 fs, False)
         | Some (mn, mx, q) \<Rightarrow> apply_repeat (Some (mn, mx)) q fs lastWasRepeat)
      else apply_repeat None (tl p) fs lastWasRepeat)"

definition quoted_step :: "string \<Rightarrow> frame list \<Rightarrow> walk option" where
  "quoted_step p fs =
     (let body = drop 2 p in case indexOf body [CHR 0x5C, CHR ''E''] of
        None \<Rightarrow> Some ([], if body \<noteq> [] then add_item 1 fs else fs, False)
      | Some k \<Rightarrow> Some (drop (k + 2) body, if k > 0 then add_item 1 fs else fs, False))"

definition escape_step :: "(string \<Rightarrow> bool) \<Rightarrow> string \<Rightarrow> frame list \<Rightarrow> walk option" where
  "escape_step script p fs =
     (let next = char_at p 1 in
      if next = Some (CHR ''C'') then None
      else if next = Some (CHR ''Q'') then quoted_step p fs
      else map_option (\<lambda>q. (q, add_item 1 fs, False))
        (if next \<in> {Some (CHR ''A''), Some (CHR ''b''), Some (CHR ''B''), Some (CHR ''z'')} then Some (drop 2 p)
         else if next = Some (CHR ''p'') \<or> next = Some (CHR ''P'') then parseUnicodeClass script p
         else if (case next of None \<Rightarrow> False | Some c \<Rightarrow> c \<in> set PERL_CLASSES) then Some (drop 2 p)
         else map_option snd (parseEscape p)))"

text \<open>One round of the loop of \<open>compilesInGo\<close>, on a text that is not empty: the \<open>switch\<close>.\<close>

definition regex_step :: "(string \<Rightarrow> bool) \<Rightarrow> string \<Rightarrow> frame list \<Rightarrow> bool \<Rightarrow> walk option" where
  "regex_step script p fs lastWasRepeat =
     (let c = hd p in
      if c = CHR ''('' then group_step p fs
      else if c = CHR '')'' then close_step p fs
      else if c = CHR ''|'' then bar_step p fs
      else if c = CHR ''['' then map_option (\<lambda>q. (q, add_item 1 fs, False)) (parseClass script p)
      else if c \<in> {CHR ''*'', CHR ''+'', CHR ''?'', CHR ''{''} then repeat_step p fs lastWasRepeat
      else if c = CHR 0x5C then escape_step script p fs
      else Some (tl p, add_item 1 fs, False))"

lemma skip_mark_length: "length (skip_mark q) \<le> length q" by (simp add: skip_mark_def)

lemma apply_repeat_shorter:
  "apply_repeat counted q fs r = Some (p', fs', r') \<Longrightarrow> length p' \<le> length q"
  by (auto simp: apply_repeat_def Let_def skip_mark_length split: if_splits option.splits list.splits)

lemma indexOf_bound: "indexOf s p = Some k \<Longrightarrow> k + length p \<le> length s"
  using indexOf_split [of s p k] indexOf_Some [of s p k]
  by (metis add.commute add_le_cancel_left append_take_drop_id drop_eq_Nil2 length_append length_drop startsWith_iff
      le_add1 le_add_diff_inverse2)

lemma regex_step_shorter:
  assumes "p \<noteq> []" "regex_step script p fs r = Some (p', fs', r')"
  shows "length p' < length p"
proof -
  have p: "length (tl p) < length p" using assms(1) by (cases p) auto
  consider (group) "group_step p fs = Some (p', fs', r')" | (close) "close_step p fs = Some (p', fs', r')"
    | (bar) "bar_step p fs = Some (p', fs', r')" | (cls) "parseClass script p = Some p'"
    | (rep) "repeat_step p fs r = Some (p', fs', r')" | (esc) "escape_step script p fs = Some (p', fs', r')"
    | (plain) "p' = tl p"
    using assms(2) unfolding regex_step_def Let_def by (auto split: if_splits)
  then show ?thesis
  proof cases
    case group
    then show ?thesis using p assms(1) by (auto simp: group_step_def dest: parsePerlGroup_shorter split: if_splits)
  next
    case close
    then show ?thesis using p by (auto simp: close_step_def split: list.splits)
  next
    case bar
    then show ?thesis using p by (auto simp: bar_step_def split: list.splits)
  next
    case cls
    then show ?thesis using assms(1) by (simp add: parseClass_shorter)
  next
    case rep
    then consider "p' = tl p" | "apply_repeat None (tl p) fs r = Some (p', fs', r')"
      | mn mx q where "counted_repeat p = Some (mn, mx, q)" "apply_repeat (Some (mn, mx)) q fs r = Some (p', fs', r')"
      by (auto simp: repeat_step_def split: if_splits option.splits)
    then show ?thesis
    proof cases
      case 1
      then show ?thesis using p by simp
    next
      case 2
      then show ?thesis using p apply_repeat_shorter by fastforce
    next
      case 3
      then show ?thesis using counted_repeat_shorter [OF 3(1) assms(1)] apply_repeat_shorter [OF 3(2)] by simp
    qed
  next
    case esc
    then show ?thesis using assms(1)
      by (auto simp: escape_step_def quoted_step_def Let_def dest: parseEscape_shorter
          intro: parseUnicodeClass_shorter dest!: char_at_Some indexOf_bound split: if_splits option.splits)
  next
    case plain
    then show ?thesis using p by simp
  qed
qed

function walk_pattern :: "(string \<Rightarrow> bool) \<Rightarrow> string \<Rightarrow> frame list \<Rightarrow> bool \<Rightarrow> bool" where
  "walk_pattern script p fs r =
     (if p = [] then length fs = 1
      else (case regex_step script p fs r of
          None \<Rightarrow> False
        | Some (p', fs', r') \<Rightarrow> walk_pattern script p' fs' r'))"
  by pat_completeness auto
termination by (relation "measure (\<lambda>(script, p, fs, r). length p)") (auto dest: regex_step_shorter)

declare walk_pattern.simps [simp del]

definition compilesInGo :: "(string \<Rightarrow> bool) \<Rightarrow> string \<Rightarrow> bool" where
  "compilesInGo script pattern = walk_pattern script pattern [open_frame] False"

subsection \<open>What the walk decides: a recursion over the syntax\<close>

text \<open>
  Regular expressions as syntax: alternatives of sequences of items, an item an atom with at most one
  repetition operator (lazy or not), an atom a literal character or a group.
\<close>

datatype rx_op = Star bool | Plus bool | Maybe bool | Counted nat "nat option option" bool

datatype rx_alts = RxLast rx_seq | RxOr rx_seq rx_alts
  and rx_seq = RxEnd | RxItem rx_atom "rx_op option" rx_seq
  and rx_atom = RxChar char | RxGroup bool rx_alts

definition lazy_mark :: "bool \<Rightarrow> string" where "lazy_mark b = (if b then ''?'' else [])"

fun show_op :: "rx_op option \<Rightarrow> string" where
  "show_op None = []"
| "show_op (Some (Star l)) = ''*'' @ lazy_mark l"
| "show_op (Some (Plus l)) = ''+'' @ lazy_mark l"
| "show_op (Some (Maybe l)) = ''?'' @ lazy_mark l"
| "show_op (Some (Counted n m l)) = ''{'' @ string_of_nat n @
     (case m of None \<Rightarrow> [] | Some None \<Rightarrow> '','' | Some (Some k) \<Rightarrow> '','' @ string_of_nat k) @ ''}'' @ lazy_mark l"

primrec show_alts :: "rx_alts \<Rightarrow> string" and show_seq :: "rx_seq \<Rightarrow> string" and show_atom :: "rx_atom \<Rightarrow> string" where
  "show_alts (RxLast s) = show_seq s"
| "show_alts (RxOr s a) = show_seq s @ ''|'' @ show_alts a"
| "show_seq RxEnd = []"
| "show_seq (RxItem a opr s) = show_atom a @ show_op opr @ show_seq s"
| "show_atom (RxChar c) = [c]"
| "show_atom (RxGroup capturing a) = ''('' @ (if capturing then [] else ''?:'') @ show_alts a @ '')''"

definition literal :: "char \<Rightarrow> bool" where
  "literal c \<longleftrightarrow> c \<notin> set ''()|[*+?{'' \<and> c \<noteq> CHR 0x5C"

primrec literal_alts :: "rx_alts \<Rightarrow> bool" and literal_seq :: "rx_seq \<Rightarrow> bool" and literal_atom :: "rx_atom \<Rightarrow> bool" where
  "literal_alts (RxLast s) = literal_seq s"
| "literal_alts (RxOr s a) = (literal_seq s \<and> literal_alts a)"
| "literal_seq RxEnd = True"
| "literal_seq (RxItem a opr s) = (literal_atom a \<and> literal_seq s)"
| "literal_atom (RxChar c) = literal c"
| "literal_atom (RxGroup capturing a) = literal_alts a"

text \<open>
  The rule for counts the check is after, by the structure of the expression: a count takes its share of the
  budget, what it repeats gets the rest. It is the rule for repetitions only: the limits Go's parser has beside it, on
  the depth of the nesting and on the size of the compiled program, are not in the code and not here.
\<close>

fun upper_count :: "nat \<Rightarrow> nat option option \<Rightarrow> nat option" where
  "upper_count n None = Some n" | "upper_count n (Some m) = m"

definition op_within :: "rx_op option \<Rightarrow> nat \<Rightarrow> (nat \<Rightarrow> bool) \<Rightarrow> bool" where
  "op_within opr budget sub = (case opr of
     Some (Counted n m l) \<Rightarrow>
       (case upper_count n m of
          Some 0 \<Rightarrow> True
        | Some k \<Rightarrow> k \<le> budget \<and> sub (budget div k)
        | None \<Rightarrow> if n = 0 then sub budget else n \<le> budget \<and> sub (budget div n))
   | _ \<Rightarrow> sub budget)"

primrec alts_within :: "rx_alts \<Rightarrow> nat \<Rightarrow> bool" and seq_within :: "rx_seq \<Rightarrow> nat \<Rightarrow> bool"
  and atom_within :: "rx_atom \<Rightarrow> nat \<Rightarrow> bool" where
  "alts_within (RxLast s) budget = seq_within s budget"
| "alts_within (RxOr s a) budget = (seq_within s budget \<and> alts_within a budget)"
| "seq_within RxEnd budget = True"
| "seq_within (RxItem a opr s) budget = (op_within opr budget (atom_within a) \<and> seq_within s budget)"
| "atom_within (RxChar c) budget = True"
| "atom_within (RxGroup capturing a) budget = alts_within a budget"

text \<open>Both counts at most 1000 and in order, and every counted repetition within a budget of 1000 by itself.\<close>

definition op_accepted :: "rx_op option \<Rightarrow> (nat \<Rightarrow> bool) \<Rightarrow> bool" where
  "op_accepted opr sub = (case opr of
     Some (Counted n m l) \<Rightarrow> n \<le> 1000 \<and> (case upper_count n m of None \<Rightarrow> True | Some k \<Rightarrow> n \<le> k \<and> k \<le> 1000) \<and> op_within opr 1000 sub
   | _ \<Rightarrow> True)"

primrec sound_alts :: "rx_alts \<Rightarrow> bool" and sound_seq :: "rx_seq \<Rightarrow> bool" and sound_atom :: "rx_atom \<Rightarrow> bool" where
  "sound_alts (RxLast s) = sound_seq s"
| "sound_alts (RxOr s a) = (sound_seq s \<and> sound_alts a)"
| "sound_seq RxEnd = True"
| "sound_seq (RxItem a opr s) = (sound_atom a \<and> op_accepted opr (atom_within a) \<and> sound_seq s)"
| "sound_atom (RxChar c) = True"
| "sound_atom (RxGroup capturing a) = sound_alts a"

subsection \<open>Weights\<close>

definition op_weight :: "rx_op option \<Rightarrow> int \<Rightarrow> int" where
  "op_weight opr w = (case opr of
     Some (Counted n m l) \<Rightarrow> repeatWeight w (int n) (case upper_count n m of None \<Rightarrow> - 1 | Some k \<Rightarrow> int k)
   | _ \<Rightarrow> w)"

primrec alts_weight :: "rx_alts \<Rightarrow> int" and seq_weight :: "rx_seq \<Rightarrow> int" and atom_weight :: "rx_atom \<Rightarrow> int" where
  "alts_weight (RxLast s) = seq_weight s"
| "alts_weight (RxOr s a) = max (seq_weight s) (alts_weight a)"
| "seq_weight RxEnd = 1"
| "seq_weight (RxItem a opr s) = max (op_weight opr (atom_weight a)) (seq_weight s)"
| "atom_weight (RxChar c) = 1"
| "atom_weight (RxGroup capturing a) = alts_weight a"

lemma op_weight_pos: "1 \<le> w \<Longrightarrow> 1 \<le> op_weight opr w"
  by (auto simp: op_weight_def repeatWeight_def Let_def mult_pos_pos int_one_le_iff_zero_less zero_less_mult_iff
      split: option.split rx_op.split)

lemma weight_pos: "1 \<le> alts_weight a" "1 \<le> seq_weight s" "1 \<le> atom_weight b"
  by (induction a and s and b) (auto simp: op_weight_pos le_max_iff_disj)

text \<open>The product of the code is the division of Go.\<close>

lemma op_within_weight:
  assumes w: "1 \<le> w" and b: "1 \<le> budget" and sub: "\<And>k. 1 \<le> k \<Longrightarrow> sub k \<longleftrightarrow> w \<le> int k"
  shows "op_within opr budget sub \<longleftrightarrow> op_weight opr w \<le> int budget"
proof -
  have div: "k \<le> budget \<and> sub (budget div k) \<longleftrightarrow> w * int k \<le> int budget" if "0 < k" for k :: nat
  proof (cases "k \<le> budget")
    case True
    then have "1 \<le> budget div k" using that by (metis div_le_mono div_self less_numeral_extra(3))
    moreover have "w \<le> int (budget div k) \<longleftrightarrow> w * int k \<le> int budget"
    proof -
      have "w = int (nat w)" using w by simp
      then show ?thesis using that by (metis less_eq_div_iff_mult_less_eq of_nat_le_iff of_nat_mult)
    qed
    ultimately show ?thesis using True sub by blast
  next
    case False
    moreover have "int k \<le> w * int k" using w by (simp add: mult_le_cancel_right1)
    ultimately show ?thesis by linarith
  qed
  show ?thesis using b sub [OF b] div
    by (auto simp: op_within_def op_weight_def repeatWeight_def Let_def split: option.split rx_op.split nat.split)
qed

lemma within_weight:
  "1 \<le> k \<Longrightarrow> alts_within a k \<longleftrightarrow> alts_weight a \<le> int k"
  "1 \<le> k \<Longrightarrow> seq_within s k \<longleftrightarrow> seq_weight s \<le> int k"
  "1 \<le> k \<Longrightarrow> atom_within b k \<longleftrightarrow> atom_weight b \<le> int k"
proof (induction a and s and b arbitrary: k and k and k)
  case (RxItem b opr s)
  then show ?case using op_within_weight [OF weight_pos(3) RxItem.prems, of "atom_within b" b opr] by simp
qed simp_all

subsection \<open>The walk over a printed expression\<close>

lemma walk_Cons: "walk_pattern script (c # p) fs r = (case regex_step script (c # p) fs r of
    None \<Rightarrow> False | Some (p', fs', r') \<Rightarrow> walk_pattern script p' fs' r')"
  by (simp add: walk_pattern.simps [of script "c # p"])

lemma walk_literal: "literal c \<Longrightarrow> walk_pattern script (c # p) fs r = walk_pattern script p (add_item 1 fs) False"
  by (auto simp: walk_Cons regex_step_def literal_def)

text \<open>Text that does not start with a repetition operator; the end of a sequence.\<close>

definition no_operator :: "string \<Rightarrow> bool" where
  "no_operator p \<longleftrightarrow> \<not> head_is (\<lambda>c. c \<in> set ''*+?{'') p"

definition ends_seq :: "string \<Rightarrow> bool" where
  "ends_seq p \<longleftrightarrow> p = [] \<or> hd p = CHR ''|'' \<or> hd p = CHR '')''"

lemma ends_no_operator: "ends_seq p \<Longrightarrow> no_operator p"
  by (auto simp: ends_seq_def no_operator_def head_is_def)

lemma walk_flag: "no_operator p \<Longrightarrow> walk_pattern script p fs r = walk_pattern script p fs False"
proof (cases p)
  case (Cons c q)
  moreover assume "no_operator p"
  ultimately have "regex_step script p fs r = regex_step script p fs False"
    by (auto simp: regex_step_def no_operator_def head_is_def)
  with Cons show ?thesis by (simp add: walk_Cons)
qed (simp add: walk_pattern.simps)

lemma seq_no_operator: "literal_seq s \<Longrightarrow> ends_seq rest \<Longrightarrow> no_operator (show_seq s @ rest)"
proof (cases s)
  case (RxItem b opr t)
  moreover assume "literal_seq s" "ends_seq rest"
  ultimately show ?thesis by (cases b) (auto simp: no_operator_def head_is_def literal_def)
qed (simp add: ends_no_operator)

text \<open>The counts of an operator are read back.\<close>

lemma number_in_string: "number_in 10 (string_of_nat n) = n"
proof -
  have "foldl (\<lambda>v d. v * 10 + digit_value d) k ds = foldl (\<lambda>n c. 10 * n + (code c - 48)) k ds"
    if "\<And>c. c \<in> set ds \<Longrightarrow> is_digit c" for ds k
    using that by (induction ds arbitrary: k) (auto simp: digit_value_def mult.commute)
  then have "number_in 10 (string_of_nat n) = nat_of_digits (string_of_nat n)"
    unfolding number_in_def nat_of_digits_def using string_of_nat_digits by blast
  then show ?thesis by (simp add: nat_of_string_of_nat)
qed

lemma hd_string_of_nat: "0 < n \<Longrightarrow> hd (string_of_nat n) \<noteq> CHR ''0''"
proof (induction n rule: string_of_nat.induct)
  case (1 n)
  show ?case
  proof (cases "n < 10")
    case True
    have "code (digit_char n) = 48 + n" using True by (rule code_digit_char)
    moreover have "code (CHR ''0'') = 48" by code_simp
    ultimately have "digit_char n \<noteq> CHR ''0''" using "1.prems" by auto
    then show ?thesis using True by (simp add: string_of_nat.simps [of n])
  next
    case False
    then have "hd (string_of_nat n) = hd (string_of_nat (n div 10))" by (subst string_of_nat.simps) simp
    then show ?thesis using 1 False by simp
  qed
qed

lemma repeat_number_string: "repeat_number (string_of_nat n)"
proof (cases "n = 0")
  case True
  have "string_of_nat 0 = ''0''" by code_simp
  with True show ?thesis by (simp add: repeat_number_def)
qed (simp add: repeat_number_def hd_string_of_nat)

lemma split_digits:
  assumes "\<not> is_digit c"
  shows "takeWhile is_digit (string_of_nat n @ c # p) = string_of_nat n" "dropWhile is_digit (string_of_nat n @ c # p) = c # p"
  using assms string_of_nat_digits [of _ n] by (simp_all add: takeWhile_append2 dropWhile_append2 takeWhile.simps dropWhile.simps)

lemma brace_not_digit [simp]: "\<not> is_digit (CHR ''}'')" "\<not> is_digit (CHR '','')" by code_simp+

lemma counted_repeat_shown:
  "counted_repeat (''{'' @ string_of_nat n @ (case m of None \<Rightarrow> [] | Some None \<Rightarrow> '','' | Some (Some k) \<Rightarrow> '','' @ string_of_nat k) @ ''}'' @ p)
   = Some (int n, case upper_count n m of None \<Rightarrow> - 1 | Some k \<Rightarrow> int k, p)"
  by (auto simp: counted_repeat_def Let_def split_digits number_in_string repeat_number_string head_is_def
      split: option.split)

text \<open>What an operator does to the frame of its operand.\<close>

definition op_fits :: "rx_op option \<Rightarrow> int \<Rightarrow> bool" where
  "op_fits opr w = (case opr of
     Some (Counted n m l) \<Rightarrow> n \<le> 1000 \<and> (case upper_count n m of None \<Rightarrow> True | Some k \<Rightarrow> n \<le> k \<and> k \<le> 1000) \<and> op_weight opr w \<le> 1000
   | _ \<Rightarrow> True)"

lemma skip_lazy: "no_operator p \<Longrightarrow> skip_mark (lazy_mark l @ p) = p"
  by (auto simp: skip_mark_def lazy_mark_def head_is_def no_operator_def)

lemma walk_apply:
  assumes "no_operator p" "fr_last f = Some w"
    and "regex_step script (c # q) (f # fs) False = apply_repeat counted (lazy_mark l @ p) (f # fs) False"
  shows "walk_pattern script (c # q) (f # fs) False =
    ((case counted of None \<Rightarrow> True | Some (mn, mx) \<Rightarrow> mn \<le> 1000 \<and> mx \<le> 1000 \<and> (mx \<ge> 0 \<longrightarrow> mn \<le> mx) \<and> repeatWeight w mn mx \<le> 1000) \<and>
     walk_pattern script p (f\<lparr>fr_last := Some (case counted of None \<Rightarrow> w | Some (mn, mx) \<Rightarrow> repeatWeight w mn mx)\<rparr> # fs) False)"
  unfolding walk_Cons assms(3) using assms(2) walk_flag [OF assms(1), of script _ True]
  by (auto simp: apply_repeat_def skip_lazy [OF assms(1)] MAX_REPEAT_def Let_def split: option.splits prod.splits)

lemma walk_op:
  assumes "no_operator p" "fr_last f = Some w"
  shows "walk_pattern script (show_op opr @ p) (f # fs) False =
    (op_fits opr w \<and> walk_pattern script p (f\<lparr>fr_last := Some (op_weight opr w)\<rparr> # fs) False)"
proof (cases opr)
  case None
  have "f\<lparr>fr_last := Some w\<rparr> = f" using assms(2) by simp
  with None show ?thesis by (simp add: op_fits_def op_weight_def)
next
  case (Some opc)
  show ?thesis
  proof (cases opc)
    case (Star l)
    then show ?thesis using walk_apply [OF assms, of script "CHR ''*''" "lazy_mark l @ p" fs None l] Some
      by (simp add: regex_step_def repeat_step_def char_at_def op_fits_def op_weight_def)
  next
    case (Plus l)
    then show ?thesis using walk_apply [OF assms, of script "CHR ''+''" "lazy_mark l @ p" fs None l] Some
      by (simp add: regex_step_def repeat_step_def char_at_def op_fits_def op_weight_def)
  next
    case (Maybe l)
    then show ?thesis using walk_apply [OF assms, of script "CHR ''?''" "lazy_mark l @ p" fs None l] Some
      by (simp add: regex_step_def repeat_step_def char_at_def op_fits_def op_weight_def)
  next
    case (Counted n m l)
    let ?mx = "case upper_count n m of None \<Rightarrow> - 1 | Some k \<Rightarrow> int k"
    obtain q where q: "show_op opr @ p = CHR ''{'' # q" and
      c: "counted_repeat (CHR ''{'' # q) = Some (int n, ?mx, lazy_mark l @ p)"
      using counted_repeat_shown [of n m "lazy_mark l @ p"] Counted Some by simp
    have "regex_step script (CHR ''{'' # q) (f # fs) False = apply_repeat (Some (int n, ?mx)) (lazy_mark l @ p) (f # fs) False"
      by (simp add: regex_step_def repeat_step_def char_at_def c)
    from walk_apply [OF assms this] show ?thesis unfolding q
      by (auto simp: Counted Some op_fits_def op_weight_def split: option.splits)
  qed
qed

primrec after_seq :: "rx_seq \<Rightarrow> frame \<Rightarrow> frame" where
  "after_seq RxEnd f = f"
| "after_seq (RxItem b opr s) f =
     after_seq s \<lparr>fr_done = heaviest f, fr_last = Some (op_weight opr (atom_weight b))\<rparr>"

primrec after_alts :: "rx_alts \<Rightarrow> frame \<Rightarrow> frame" where
  "after_alts (RxLast s) f = after_seq s f"
| "after_alts (RxOr s a) f = after_alts a \<lparr>fr_done = heaviest (after_seq s f), fr_last = None\<rparr>"

primrec fits_alts :: "rx_alts \<Rightarrow> bool" and fits_seq :: "rx_seq \<Rightarrow> bool" and fits_atom :: "rx_atom \<Rightarrow> bool" where
  "fits_alts (RxLast s) = fits_seq s"
| "fits_alts (RxOr s a) = (fits_seq s \<and> fits_alts a)"
| "fits_seq RxEnd = True"
| "fits_seq (RxItem b opr s) = (fits_atom b \<and> op_fits opr (atom_weight b) \<and> fits_seq s)"
| "fits_atom (RxChar c) = True"
| "fits_atom (RxGroup capturing a) = fits_alts a"

lemma heaviest_after:
  "1 \<le> heaviest f \<Longrightarrow> heaviest (after_alts a f) = max (heaviest f) (alts_weight a)"
  "1 \<le> heaviest f \<Longrightarrow> heaviest (after_seq s f) = max (heaviest f) (seq_weight s)"
  "atom_weight b = atom_weight b"
proof (induction a and s and b arbitrary: f and f)
  case (RxItem b opr s)
  then show ?case by (simp add: heaviest_def max.assoc le_max_iff_disj)
next
  case (RxOr s a)
  let ?g = "\<lparr>fr_done = heaviest (after_seq s f), fr_last = None\<rparr>"
  have "heaviest ?g = max (heaviest f) (seq_weight s)"
    using RxOr.prems RxOr.IH(1) [of f] by (simp add: heaviest_def)
  then show ?case using RxOr.IH(2) [of ?g] RxOr.prems by (simp add: max.assoc le_max_iff_disj)
qed (auto simp: max_def)

lemma walk_close:
  "walk_pattern script (CHR '')'' # p) (g # f # fs) r = walk_pattern script p (add_item (heaviest g) (f # fs)) False"
  by (simp add: walk_Cons regex_step_def close_step_def)

lemma walk_bar:
  "walk_pattern script (CHR ''|'' # p) (f # fs) r = walk_pattern script p (\<lparr>fr_done = heaviest f, fr_last = None\<rparr> # fs) False"
  by (simp add: walk_Cons regex_step_def bar_step_def)

text \<open>A group opens a frame, whether it captures or not; a question mark cannot follow its parenthesis
  by accident.\<close>

lemma no_question: "no_operator p \<Longrightarrow> char_at (c # p) 1 \<noteq> Some (CHR ''?'')"
  by (cases p) (auto simp: char_at_def no_operator_def head_is_def)

lemma walk_open:
  assumes "no_operator p"
  shows "walk_pattern script (''('' @ (if capturing then [] else ''?:'') @ p) fs r = walk_pattern script p (open_frame # fs) False"
  using no_question [OF assms, of "CHR ''(''"]
  by (simp add: walk_Cons regex_step_def group_step_def)
    (simp add: char_at_def parsePerlGroup_def walk_Cons)

lemma alts_no_operator: "literal_alts a \<Longrightarrow> ends_seq rest \<Longrightarrow> no_operator (show_alts a @ rest)"
  by (cases a) (simp_all add: seq_no_operator ends_seq_def)

text \<open>The walk over printed alternatives, sequences and atoms.\<close>

lemma walk_shown:
  "literal_alts a \<Longrightarrow> p = [] \<or> hd p = CHR '')'' \<Longrightarrow>
    walk_pattern script (show_alts a @ p) (f # fs) False = (fits_alts a \<and> walk_pattern script p (after_alts a f # fs) False)"
  "literal_seq s \<Longrightarrow> ends_seq p \<Longrightarrow>
    walk_pattern script (show_seq s @ p) (f # fs) False = (fits_seq s \<and> walk_pattern script p (after_seq s f # fs) False)"
  "literal_atom b \<Longrightarrow>
    walk_pattern script (show_atom b @ p) (f # fs) False = (fits_atom b \<and> walk_pattern script p (add_item (atom_weight b) (f # fs)) False)"
proof (induction a and s and b arbitrary: f fs p and f fs p and f fs p)
  case (RxLast s)
  then show ?case by (auto simp: ends_seq_def)
next
  case (RxOr s a)
  have "walk_pattern script (show_seq s @ ''|'' @ show_alts a @ p) (f # fs) False =
    (fits_seq s \<and> walk_pattern script (''|'' @ show_alts a @ p) (after_seq s f # fs) False)"
    using RxOr.IH(1) [of "''|'' @ show_alts a @ p" f fs] RxOr.prems by (simp add: ends_seq_def)
  then show ?case using RxOr.IH(2) RxOr.prems by (auto simp: walk_bar)
next
  case RxEnd
  then show ?case by simp
next
  case (RxItem b opr s)
  let ?f = "\<lparr>fr_done = heaviest f, fr_last = Some (atom_weight b)\<rparr>"
  have "walk_pattern script (show_op opr @ show_seq s @ p) (?f # fs) False =
    (op_fits opr (atom_weight b) \<and>
     walk_pattern script (show_seq s @ p) (?f\<lparr>fr_last := Some (op_weight opr (atom_weight b))\<rparr> # fs) False)"
    using RxItem.prems by (intro walk_op seq_no_operator) simp_all
  then show ?case using RxItem by simp
next
  case (RxChar c)
  then show ?case by (simp add: walk_literal)
next
  case (RxGroup capturing a)
  have "walk_pattern script (''('' @ (if capturing then [] else ''?:'') @ show_alts a @ '')'' @ p) (f # fs) False =
    walk_pattern script (show_alts a @ '')'' @ p) (open_frame # f # fs) False"
    using RxGroup.prems alts_no_operator [of a "'')'' @ p"] by (intro walk_open) (simp add: ends_seq_def)
  moreover have "heaviest (after_alts a open_frame) = alts_weight a"
    using heaviest_after(1) [of open_frame a] weight_pos(1) [of a] by (simp add: open_frame_def heaviest_def)
  ultimately show ?case using RxGroup by (simp add: walk_close)
qed

lemma fits_sound:
  "fits_alts a \<longleftrightarrow> sound_alts a" "fits_seq s \<longleftrightarrow> sound_seq s" "fits_atom b \<longleftrightarrow> sound_atom b"
proof (induction a and s and b)
  case (RxItem b opr s)
  have "op_within opr 1000 (atom_within b) \<longleftrightarrow> op_weight opr (atom_weight b) \<le> int 1000"
    by (rule op_within_weight) (simp_all add: weight_pos within_weight)
  then have "op_fits opr (atom_weight b) \<longleftrightarrow> op_accepted opr (atom_within b)"
    by (auto simp: op_fits_def op_accepted_def split: option.split rx_op.split)
  with RxItem show ?case by simp
qed simp_all

text \<open>Nothing in the check bounds the nesting: any number of groups, one in the other, passes.\<close>

primrec nested :: "nat \<Rightarrow> rx_alts" where
  "nested 0 = RxLast (RxItem (RxChar (CHR ''a'')) None RxEnd)"
| "nested (Suc n) = RxLast (RxItem (RxGroup True (nested n)) None RxEnd)"

lemma nested_groups_pass: "compilesInGo script (replicate n (CHR ''('') @ ''a'' @ replicate n (CHR '')''))"
proof -
  have "show_alts (nested n) = replicate n (CHR ''('') @ ''a'' @ replicate n (CHR '')'')"
    by (induction n) (simp_all add: replicate_append_same)
  moreover have "literal_alts (nested n)" by (induction n) (simp_all add: literal_def)
  moreover have "sound_alts (nested n)" by (induction n) (simp_all add: op_accepted_def)
  ultimately show ?thesis
    using walk_shown(1) [of "nested n" "[]" script open_frame "[]"] fits_sound(1) [of "nested n"]
    by (simp add: compilesInGo_def walk_pattern.simps)
qed

text \<open>C20: The check decides by structure: for every expression built from literals, groups (capturing or not),
  alternatives and at most one repetition per item, the code's single pass with its frames and products
  accepts the printed expression exactly when a recursion over its syntax does, with counts up to 1000 and
  in order, and each counted repetition within a budget of 1000 that its operand shares by division. This
  is the rule for repetitions of Go's parser; its limits on nesting and size are checked by neither.\<close>

theorem regex_check_by_structure:
  assumes "literal_alts a"
  shows "compilesInGo script (show_alts a) \<longleftrightarrow> sound_alts a"
  using walk_shown(1) [OF assms, of "[]" script open_frame "[]"] fits_sound(1) [of a]
  by (simp add: compilesInGo_def walk_pattern.simps)

theorem regex_check_by_structure_witness:
  "\<not> compilesInGo (\<lambda>_. False) ''(a{100}){11}'' \<and> compilesInGo (\<lambda>_. False) ''(?:b|a{100}){10}''"
proof -
  let ?no = "RxLast (RxItem (RxGroup True (RxLast (RxItem (RxChar (CHR ''a'')) (Some (Counted 100 None False)) RxEnd)))
    (Some (Counted 11 None False)) RxEnd)"
  let ?yes = "RxLast (RxItem (RxGroup False (RxOr (RxItem (RxChar (CHR ''b'')) None RxEnd)
    (RxLast (RxItem (RxChar (CHR ''a'')) (Some (Counted 100 None False)) RxEnd)))) (Some (Counted 10 None False)) RxEnd)"
  have "literal_alts ?no" "literal_alts ?yes" "\<not> sound_alts ?no" "sound_alts ?yes"
    "show_alts ?no = ''(a{100}){11}''" "show_alts ?yes = ''(?:b|a{100}){10}''" by code_simp+
  then show ?thesis using regex_check_by_structure [of ?no] regex_check_by_structure [of ?yes] by metis
qed

end
