(* ===== verification/Js_Objects.thy ===== *)
theory Js_Objects
  imports Main
begin

text \<open>
  The names every plain object answers to: the members of \<open>Object.prototype\<close>. A table kept in an object finds
  them beside its own entries, so a lookup by a text that comes from outside has to tell them apart.
\<close>

definition OBJECT_MEMBERS :: "string list" where
  "OBJECT_MEMBERS =
     [''constructor'', ''__defineGetter__'', ''__defineSetter__'', ''hasOwnProperty'', ''__lookupGetter__'',
      ''__lookupSetter__'', ''isPrototypeOf'', ''propertyIsEnumerable'', ''toString'', ''valueOf'', ''__proto__'',
      ''toLocaleString'']"

end
