(* ===== verification/I18n_Model.thy ===== *)
theory I18n_Model
  imports Js_Strings Js_Objects
begin

text \<open>The languages of the interface, \<open>lib/i18n/index.tsx\<close>: the catalogue of messages, the lookup of a key with
  its fallbacks, the placeholders of a message and the choice of the language. A dictionary is the table of
  its own entries (a name every object inherits is no key of any). The plural rules are \<open>Intl\<close>'s and an argument, as is whether the build has the pseudo
  language (\<open>PSEUDO_ENABLED\<close>); a character outside Latin-1, such as the brackets of the pseudo language, has no
  \<open>char\<close>, so the two brackets are arguments too.\<close>

subsection \<open>Languages\<close>

datatype supported_lang = LangEn | LangZh | LangVi | LangPt

datatype ui_lang = Supported supported_lang | Pseudo

fun lang_code :: "supported_lang \<Rightarrow> string" where
  "lang_code LangEn = ''en''"
| "lang_code LangZh = ''zh''"
| "lang_code LangVi = ''vi''"
| "lang_code LangPt = ''pt-BR''"

fun lang_intl :: "supported_lang \<Rightarrow> string" where
  "lang_intl LangEn = ''en-US''"
| "lang_intl LangZh = ''zh-CN''"
| "lang_intl LangVi = ''vi-VN''"
| "lang_intl LangPt = ''pt-BR''"

definition LANGS :: "supported_lang list" where
  "LANGS = [LangEn, LangZh, LangVi, LangPt]"

definition PSEUDO_LANG :: string where "PSEUDO_LANG = ''pseudo''"

definition isLang :: "string \<Rightarrow> supported_lang option" where
  "isLang v = List.find (\<lambda>l. lang_code l = v) LANGS"

definition isUiLang :: "bool \<Rightarrow> string \<Rightarrow> ui_lang option" where
  "isUiLang pseudoEnabled v = (case isLang v of
     Some l \<Rightarrow> Some (Supported l)
   | None \<Rightarrow> if pseudoEnabled \<and> v = PSEUDO_LANG then Some Pseudo else None)"

fun ui_code :: "ui_lang \<Rightarrow> string" where
  "ui_code (Supported l) = lang_code l"
| "ui_code Pseudo = PSEUDO_LANG"

fun intlLocale :: "ui_lang option \<Rightarrow> string" where
  "intlLocale (Some (Supported l)) = lang_intl l"
| "intlLocale _ = ''en-US''"

fun intlLang :: "ui_lang \<Rightarrow> string" where
  "intlLang (Supported l) = lang_code l"
| "intlLang Pseudo = ''en''"

definition matchLang :: "string \<Rightarrow> supported_lang option" where
  "matchLang tag =
     (let lower = toLowerCase tag
      in if startsWith lower ''zh'' then Some LangZh
         else if startsWith lower ''vi'' then Some LangVi
         else if startsWith lower ''pt'' then Some LangPt
         else if startsWith lower ''en'' then Some LangEn
         else None)"

text \<open>The stored language, the languages of the browser and its language; no browser is \<open>None\<close>.\<close>

definition getInitialLang :: "bool \<Rightarrow> string option \<Rightarrow> (string list \<times> string option) option \<Rightarrow> ui_lang" where
  "getInitialLang pseudoEnabled stored navigator =
     (case Option.bind stored (isUiLang pseudoEnabled) of
        Some l \<Rightarrow> l
      | None \<Rightarrow> (case navigator of
            None \<Rightarrow> Supported LangEn
          | Some (languages, language) \<Rightarrow>
              (let preferred = (if languages \<noteq> [] then languages else [case language of None \<Rightarrow> [] | Some s \<Rightarrow> s])
               in case List.map_filter matchLang preferred of l # _ \<Rightarrow> Supported l | [] \<Rightarrow> Supported LangEn)))"

text \<open>The provider: the language of its state, what is stored and the document's language; \<open>setLang\<close> takes any
  string the caller passes.\<close>

record lang_provider =
  lp_lang :: ui_lang
  lp_stored :: "string option"
  lp_document :: string

definition mount_provider :: "bool \<Rightarrow> ui_lang option \<Rightarrow> string option \<Rightarrow> (string list \<times> string option) option \<Rightarrow> lang_provider" where
  "mount_provider pseudoEnabled initial stored navigator =
     (let l = (case initial of Some l \<Rightarrow> l | None \<Rightarrow> getInitialLang pseudoEnabled stored navigator)
      in \<lparr>lp_lang = l, lp_stored = stored, lp_document = intlLang l\<rparr>)"

definition setLang :: "bool \<Rightarrow> string \<Rightarrow> lang_provider \<Rightarrow> lang_provider" where
  "setLang pseudoEnabled next p = (case isUiLang pseudoEnabled next of
     None \<Rightarrow> p
   | Some l \<Rightarrow> p\<lparr>lp_stored := Some (ui_code l), lp_document := intlLang l, lp_lang := l\<rparr>)"

subsection \<open>The catalogue\<close>

type_synonym dict = "(string \<times> string) list"

type_synonym catalog = "supported_lang \<Rightarrow> (string \<times> dict) list"

text \<open>\<open>{...old, ...new}\<close>, read by key.\<close>

definition registerMessages :: "catalog \<Rightarrow> supported_lang \<Rightarrow> string \<Rightarrow> dict \<Rightarrow> catalog" where
  "registerMessages cat lang ns d =
     cat(lang := (ns, d @ (case map_of (cat lang) ns of None \<Rightarrow> [] | Some old \<Rightarrow> old)) # cat lang)"

definition drop_json :: "string \<Rightarrow> string" where
  "drop_json s = (if startsWith (rev s) (rev ''.json'') then take (length s - 5) s else s)"

definition registerGlob :: "catalog \<Rightarrow> (string \<times> dict) list \<Rightarrow> (string list \<Rightarrow> string option) \<Rightarrow> catalog" where
  "registerGlob cat modules namespaceOf = foldl (\<lambda>cat (path, d).
     let segments = split_char (CHR ''/'') path
     in case (isLang (drop_json (List.last segments)), namespaceOf segments) of
          (Some lang, Some (c # ns)) \<Rightarrow> registerMessages cat lang (c # ns) d
        | _ \<Rightarrow> cat) cat modules"

subsection \<open>Placeholders\<close>

definition is_word_char :: "char \<Rightarrow> bool" where
  "is_word_char c = (is_digit c \<or> is_lower_az c \<or> is_upper_az c \<or> c = CHR ''_'')"

fun param_text :: "tparam \<Rightarrow> string" where
  "param_text (TStr s) = s"
| "param_text (TNum n) = string_of_int n"

type_synonym tparams = "(string \<times> tparam) list"

function replace_holes :: "tparams \<Rightarrow> string \<Rightarrow> string" where
  "replace_holes params [] = []"
| "replace_holes params (c # s) =
     (let name = takeWhile is_word_char s; rest = dropWhile is_word_char s
      in if c = CHR ''{'' \<and> name \<noteq> [] \<and> rest \<noteq> [] \<and> hd rest = CHR ''}''
         then (case map_of params name of Some v \<Rightarrow> param_text v | None \<Rightarrow> c # name @ [CHR ''}'']) @ replace_holes params (tl rest)
         else c # replace_holes params s)"
  by pat_completeness auto
termination
proof (relation "measure (\<lambda>(params, s). length s)", goal_cases)
  case (2 params c s x xa)
  have "length (tl (dropWhile is_word_char s)) \<le> length s"
    using length_dropWhile_le [of is_word_char s] by (simp add: le_diff_conv)
  then show ?case using 2 by simp
qed simp_all

definition interpolate :: "string \<Rightarrow> tparams option \<Rightarrow> string" where
  "interpolate s params = (case params of None \<Rightarrow> s | Some ps \<Rightarrow> replace_holes ps s)"

subsection \<open>Lookup\<close>

text \<open>The rules of \<open>Intl.PluralRules\<close>: the category of a count in a locale.\<close>

type_synonym plural_rules = "string \<Rightarrow> int \<Rightarrow> string"

definition pluralCategory :: "plural_rules \<Rightarrow> supported_lang \<Rightarrow> int \<Rightarrow> string" where
  "pluralCategory rules lang n = (if lang = LangPt \<and> n = 0 then ''other'' else rules (lang_intl lang) n)"

definition count_of :: "tparams option \<Rightarrow> int option" where
  "count_of params = (case params of None \<Rightarrow> None
     | Some ps \<Rightarrow> (case map_of ps ''count'' of Some (TNum n) \<Rightarrow> Some n | _ \<Rightarrow> None))"

definition candidates :: "plural_rules \<Rightarrow> supported_lang \<Rightarrow> string \<Rightarrow> tparams option \<Rightarrow> string list" where
  "candidates rules lang key params = (case count_of params of
     None \<Rightarrow> [key]
   | Some n \<Rightarrow> [key @ ''_'' @ pluralCategory rules lang n, key @ ''_other'', key])"

fun first_text :: "dict \<Rightarrow> string list \<Rightarrow> string option" where
  "first_text d [] = None"
| "first_text d (k # ks) = (case map_of d k of Some v \<Rightarrow> Some v | None \<Rightarrow> first_text d ks)"

fun lookup_langs :: "plural_rules \<Rightarrow> catalog \<Rightarrow> supported_lang list \<Rightarrow> string \<Rightarrow> string \<Rightarrow> tparams option \<Rightarrow> string option" where
  "lookup_langs rules cat [] ns name params = None"
| "lookup_langs rules cat (l # ls) ns name params = (case map_of (cat l) ns of
     None \<Rightarrow> lookup_langs rules cat ls ns name params
   | Some d \<Rightarrow> (case first_text d (candidates rules l name params) of
         Some v \<Rightarrow> Some (interpolate v params)
       | None \<Rightarrow> lookup_langs rules cat ls ns name params))"

definition lookup_message :: "plural_rules \<Rightarrow> catalog \<Rightarrow> supported_lang \<Rightarrow> string \<Rightarrow> string \<Rightarrow> tparams option \<Rightarrow> string option" where
  "lookup_message rules cat lang ns name params =
     lookup_langs rules cat (if lang = LangEn then [LangEn] else [lang, LangEn]) ns name params"

text \<open>\<open>/^([A-Za-z][\w-]*):(.+)$/\<close>\<close>

definition namespaced_key :: "string \<Rightarrow> (string \<times> string) option" where
  "namespaced_key key =
     (let ns = takeWhile (\<lambda>c. is_word_char c \<or> c = CHR ''-'') key; rest = dropWhile (\<lambda>c. is_word_char c \<or> c = CHR ''-'') key
      in if ns \<noteq> [] \<and> (is_lower_az (hd ns) \<or> is_upper_az (hd ns)) \<and> rest \<noteq> [] \<and> hd rest = CHR '':'' \<and> tl rest \<noteq> [] \<and>
            list_all (\<lambda>c. code c \<noteq> 10 \<and> code c \<noteq> 13) (tl rest)
         then Some (ns, tl rest) else None)"

definition resolved_key :: "string \<Rightarrow> string \<Rightarrow> string \<times> string" where
  "resolved_key namespace key = (case namespaced_key key of Some m \<Rightarrow> m | None \<Rightarrow> (namespace, key))"

text \<open>In a build without the pseudo language that language has no catalogue, and the lookup throws: \<open>None\<close>.\<close>

definition translate ::
  "plural_rules \<Rightarrow> bool \<Rightarrow> string \<times> string \<Rightarrow> catalog \<Rightarrow> ui_lang \<Rightarrow> string \<Rightarrow> string \<Rightarrow> tparams option \<Rightarrow> string option" where
  "translate rules pseudoEnabled brackets cat lang namespace key params =
     (let (ns, name) = resolved_key namespace key
      in case lang of
           Supported l \<Rightarrow> Some (case lookup_message rules cat l ns name params of Some v \<Rightarrow> v | None \<Rightarrow> key)
         | Pseudo \<Rightarrow>
             if pseudoEnabled then
               Some (case lookup_message rules cat LangEn ns name params of
                   Some v \<Rightarrow> fst brackets @ v @ snd brackets | None \<Rightarrow> key)
             else None)"

subsection \<open>The choice of a language\<close>

lemma isUiLang_Some: "isUiLang e v = Some l \<Longrightarrow> v = ui_code l"
  by (auto simp: isUiLang_def isLang_def LANGS_def split: if_splits)

text \<open>A chosen language is kept: a choice that is a language of the interface is the language from then on, of
  the document too, and the one the application starts in the next time whatever the browser prefers; any
  other choice changes nothing.\<close>

theorem language_is_kept:
  "case isUiLang pseudoEnabled next of
     None \<Rightarrow> setLang pseudoEnabled next p = p
   | Some l \<Rightarrow> next = ui_code l \<and> lp_lang (setLang pseudoEnabled next p) = l \<and> lp_document (setLang pseudoEnabled next p) = intlLang l \<and>
       getInitialLang pseudoEnabled (lp_stored (setLang pseudoEnabled next p)) navigator = l"
  using isUiLang_Some [of pseudoEnabled "next"]
  by (auto simp: setLang_def getInitialLang_def split: option.split)

subsection \<open>Messages\<close>

text \<open>A message as its author writes it: text without an opening brace, and placeholders.\<close>

datatype piece = Lit string | Hole string

fun piece_text :: "piece \<Rightarrow> string" where
  "piece_text (Lit s) = s"
| "piece_text (Hole n) = ''{'' @ n @ ''}''"

fun piece_ok :: "piece \<Rightarrow> bool" where
  "piece_ok (Lit s) = (CHR ''{'' \<notin> set s)"
| "piece_ok (Hole n) = (n \<noteq> [] \<and> list_all is_word_char n)"

fun piece_filled :: "tparams \<Rightarrow> piece \<Rightarrow> string" where
  "piece_filled ps (Lit s) = s"
| "piece_filled ps (Hole n) = (case map_of ps n of Some v \<Rightarrow> param_text v | None \<Rightarrow> ''{'' @ n @ ''}'')"

lemma brace_no_word: "\<not> is_word_char (CHR ''}'')"
  by (simp add: is_word_char_def is_digit_def is_lower_az_def is_upper_az_def code_def)

lemma replace_lit: "CHR ''{'' \<notin> set s \<Longrightarrow> replace_holes ps (s @ r) = s @ replace_holes ps r"
  by (induction s) (auto simp: Let_def)

declare replace_holes.simps(2) [simp del]

lemma replace_hole:
  assumes "n \<noteq> []" "list_all is_word_char n"
  shows "replace_holes ps (''{'' @ n @ ''}'' @ r) = piece_filled ps (Hole n) @ replace_holes ps r"
proof -
  have "takeWhile is_word_char (n @ CHR ''}'' # r) = n" "dropWhile is_word_char (n @ CHR ''}'' # r) = CHR ''}'' # r"
    using assms(2) brace_no_word by (induction n) simp_all
  then show ?thesis using assms(1) by (simp add: replace_holes.simps(2) Let_def split: option.split)
qed

text \<open>Placeholders are filled and nothing else is touched: a message of text and placeholders comes out as the
  same text with each placeholder whose parameter was given replaced by its value, the others as they
  stand, and a value is never read for placeholders itself.\<close>

theorem placeholders_filled:
  assumes "list_all piece_ok ms"
  shows "interpolate (concat (map piece_text ms)) (Some ps) = concat (map (piece_filled ps) ms)"
  using assms
proof (induction ms)
  case (Cons m ms)
  show ?case
  proof (cases m)
    case (Lit t)
    then show ?thesis using Cons by (simp add: interpolate_def replace_lit)
  next
    case (Hole n)
    then show ?thesis using Cons replace_hole [of n ps "concat (map piece_text ms)"] by (simp add: interpolate_def)
  qed
qed (simp add: interpolate_def)

theorem placeholders_filled_witness:
  "interpolate ''Hi {name}, {n} of {total}'' (Some [(''name'', TStr ''{n}''), (''n'', TNum 3)]) = ''Hi {n}, 3 of {total}''"
proof -
  have "list_all piece_ok [Lit ''Hi '', Hole ''name'', Lit '', '', Hole ''n'', Lit '' of '', Hole ''total'']"
    by (simp add: is_word_char_def is_lower_az_def code_def)
  from placeholders_filled [OF this, of "[(''name'', TStr ''{n}''), (''n'', TNum 3)]"]
  show ?thesis by (simp add: string_of_int_def string_of_nat.simps digit_char_def) code_simp
qed

lemma first_text_Some: "first_text d ks = Some v \<Longrightarrow> \<exists>k\<in>set ks. map_of d k = Some v"
  by (induction ks) (auto split: option.splits)

lemma first_text_None: "first_text d ks = None \<longleftrightarrow> (\<forall>k\<in>set ks. map_of d k = None)"
  by (induction ks) (auto split: option.splits)

lemma key_is_candidate: "key \<in> set (candidates rules l key params)"
  by (simp add: candidates_def split: option.split)

lemma lookup_floor:
  assumes "map_of (cat LangEn) ns = Some den" "map_of den name = Some v0"
  shows "\<exists>l' d k v. (l' = l \<or> l' = LangEn) \<and> map_of (cat l') ns = Some d \<and> k \<in> set (candidates rules l' name params) \<and>
    map_of d k = Some v \<and> lookup_message rules cat l ns name params = Some (interpolate v params) \<and>
    (\<forall>dl. map_of (cat l) ns = Some dl \<and> (\<exists>c\<in>set (candidates rules l name params). map_of dl c \<noteq> None) \<longrightarrow> l' = l)"
proof -
  obtain ven where en: "first_text den (candidates rules LangEn name params) = Some ven"
    using assms(2) key_is_candidate [of name rules LangEn params] first_text_None [of den] by (metis option.exhaust option.simps(3))
  show ?thesis
  proof (cases "\<exists>dl vl. map_of (cat l) ns = Some dl \<and> first_text dl (candidates rules l name params) = Some vl")
    case True
    then obtain dl vl where d: "map_of (cat l) ns = Some dl" "first_text dl (candidates rules l name params) = Some vl" by blast
    obtain k where "k \<in> set (candidates rules l name params)" "map_of dl k = Some vl" using first_text_Some [OF d(2)] by blast
    moreover have "lookup_message rules cat l ns name params = Some (interpolate vl params)"
      using d by (cases "l = LangEn") (simp_all add: lookup_message_def)
    ultimately show ?thesis using d(1) by blast
  next
    case False
    then have "l \<noteq> LangEn" using en assms(1) by blast
    have none: "\<forall>dl. map_of (cat l) ns = Some dl \<longrightarrow> first_text dl (candidates rules l name params) = None" using False by auto
    obtain k where "k \<in> set (candidates rules LangEn name params)" "map_of den k = Some ven" using first_text_Some [OF en] by blast
    moreover have "lookup_langs rules cat [l, LangEn] ns name params = lookup_langs rules cat [LangEn] ns name params"
      using none by (subst lookup_langs.simps(2)) (simp split: option.split)
    then have "lookup_message rules cat l ns name params = Some (interpolate ven params)"
      using assms(1) en \<open>l \<noteq> LangEn\<close> by (simp add: lookup_message_def del: lookup_langs.simps(2)) (simp add: lookup_langs.simps(2))
    moreover have "\<not> (map_of (cat l) ns = Some dl \<and> (\<exists>c\<in>set (candidates rules l name params). map_of dl c \<noteq> None))" for dl
      using none first_text_None [of dl "candidates rules l name params"] by auto
    ultimately show ?thesis using assms(1)
      by - (rule exI [of _ LangEn], rule exI [of _ den], rule exI [of _ k], rule exI [of _ ven], blast)
  qed
qed

text \<open>C27: English is the floor: a key that English has is never shown as a key, whether it names its namespace itself or
  not and whatever the language and the count: in the pseudo language too it is the message in brackets. The
  message is one the language or English has for the key or one of its plural forms, with its placeholders
  filled, and the language's own whenever it has one. (Names that every object inherits are no keys.)\<close>

theorem english_is_the_floor:
  fixes lang :: ui_lang
  assumes "resolved_key namespace key = (ns, name)" "map_of (cat LangEn) ns = Some den" "map_of den name = Some v0"
    and "ns \<notin> set OBJECT_MEMBERS" "name \<notin> set OBJECT_MEMBERS" "enabled \<or> lang \<noteq> Pseudo"
  defines "l \<equiv> (case lang of Supported l \<Rightarrow> l | Pseudo \<Rightarrow> LangEn)"
  shows "\<exists>l' d k v. (l' = l \<or> l' = LangEn) \<and> map_of (cat l') ns = Some d \<and> k \<in> set (candidates rules l' name params) \<and>
    map_of d k = Some v \<and>
    translate rules enabled (open_mark, close_mark) cat lang namespace key params =
      Some (if lang = Pseudo then open_mark @ interpolate v params @ close_mark else interpolate v params) \<and>
    (\<forall>dl. map_of (cat l) ns = Some dl \<and> (\<exists>c\<in>set (candidates rules l name params). map_of dl c \<noteq> None) \<longrightarrow> l' = l)"
proof -
  obtain l' d k v where found: "l' = l \<or> l' = LangEn" "map_of (cat l') ns = Some d" "k \<in> set (candidates rules l' name params)"
    "map_of d k = Some v" "lookup_message rules cat l ns name params = Some (interpolate v params)"
    "\<forall>dl. map_of (cat l) ns = Some dl \<and> (\<exists>c\<in>set (candidates rules l name params). map_of dl c \<noteq> None) \<longrightarrow> l' = l"
    using lookup_floor [of cat ns den name v0 l rules params] assms(2,3) by blast
  have "translate rules enabled (open_mark, close_mark) cat lang namespace key params =
      Some (if lang = Pseudo then open_mark @ interpolate v params @ close_mark else interpolate v params)"
    using found(5) assms(1,6) by (cases lang) (simp_all add: translate_def l_def)
  with found show ?thesis by blast
qed

definition sample_catalog :: catalog where
  "sample_catalog = (\<lambda>_. [])(LangEn := [(''common'', [(''actions.back'', ''Back'')])], LangVi := [(''common'', [(''save'', ''x'')])])"

theorem english_is_the_floor_witness:
  "translate (\<lambda>_ _. ''one'') True (''['', '']'') sample_catalog (Supported LangVi) ''accounts'' ''common:actions.back'' None = Some ''Back'' \<and>
   translate (\<lambda>_ _. ''one'') True (''['', '']'') sample_catalog Pseudo ''accounts'' ''common:actions.back'' None = Some ''[Back]''"
proof -
  have key: "resolved_key ''accounts'' ''common:actions.back'' = (''common'', ''actions.back'')" by code_simp
  have en: "map_of (sample_catalog LangEn) ''common'' = Some [(''actions.back'', ''Back'')]"
    "map_of [(''actions.back'', ''Back'')] ''actions.back'' = Some ''Back''" by (simp_all add: sample_catalog_def)
  have own: "''common'' \<notin> set OBJECT_MEMBERS" "''actions.back'' \<notin> set OBJECT_MEMBERS" by code_simp+
  have only: "v = ''Back''" if "map_of (sample_catalog l) ''common'' = Some d" "l = LangVi \<or> l = LangEn"
      "k \<in> set (candidates (\<lambda>_ _. ''one'') l ''actions.back'' None)" "map_of d k = Some v" for l d k v
    using that by (auto simp: sample_catalog_def candidates_def count_of_def split: if_splits)
  show ?thesis
    using english_is_the_floor [where lang = "Supported LangVi" and enabled = True and rules = "\<lambda>_ _. ''one''" and params = None
        and open_mark = "''[''" and close_mark = "'']''" and cat = sample_catalog, OF key en own]
      english_is_the_floor [where lang = Pseudo and enabled = True and rules = "\<lambda>_ _. ''one''" and params = None
        and open_mark = "''[''" and close_mark = "'']''" and cat = sample_catalog, OF key en own]
    by (auto simp: interpolate_def dest: only [of LangVi] only [of LangEn])
qed

end
