(* ===== verification/Mock_Signin.thy ===== *)
theory Mock_Signin
  imports Credentials Js_Objects "HOL-Library.AList"
begin

text \<open>
  The add-account endpoints of the mock server (src/ui/src/features/add-account/mocks.ts): IAM Identity
  Center, Microsoft and Builder ID logins with their pending sessions, bulk SSO tokens and imported
  credentials. The state is the store with what these handlers keep beside it: the pending sessions,
  the sequence number of the e-mail addresses and the state of the factories' generator. Session ids
  (\<open>crypto.randomUUID\<close>) are arguments, and so is the text of the phrases whose characters are outside
  the model. A credentials body has text in its text fields; on others the code throws. The tables of
  pending logins are plain objects, so an id that names a member of \<open>Object.prototype\<close> is found in them; the
  region read from such a member is undefined, which is the empty text here.
\<close>

definition or_empty :: "string option \<Rightarrow> string" where
  "or_empty v = (case v of None \<Rightarrow> [] | Some s \<Rightarrow> s)"

datatype microsoft_leg = KiroLeg | MicrosoftLeg

datatype microsoft_pending = MicrosoftSession microsoft_leg | MicrosoftSelection "kiro_profile list"

record signin =
  sg_db :: mock_db
  sg_rng :: rng
  sg_sequence :: nat
  sg_iam :: "(string \<times> (string \<times> string)) list"
  sg_microsoft :: "(string \<times> microsoft_pending) list"
  sg_builderId :: "(string \<times> (int \<times> string)) list"

definition API_KEY_REGIONS :: "string list" where "API_KEY_REGIONS = [''us-east-1'', ''eu-central-1'']"

definition BUILDER_ID_EXPIRED_REGION :: string where "BUILDER_ID_EXPIRED_REGION = ''eu-west-9''"

definition BUILDER_ID_PENDING_POLLS :: int where "BUILDER_ID_PENDING_POLLS = 2"

definition normalizeRegion :: "string option \<Rightarrow> string option" where
  "normalizeRegion raw =
     (let region = toLowerCase (trim (or_empty raw))
      in if region = [] then Some ''us-east-1'' else if region_re region then Some region else None)"

text \<open>\<open>makeAccount\<close> with its two drawn ids, before the overrides.\<close>

definition makeAccount :: "int \<Rightarrow> rng \<Rightarrow> account \<times> rng" where
  "makeAccount now rng =
     (let (drawn, rng) = uuid rng; (machine, rng) = uuid rng
      in (\<lparr>acc_id = drawn, acc_email = [], acc_userId = [], acc_nickname = [], acc_authMethod = ''social'',
           acc_provider = ''Google'', acc_region = ''us-east-1'', acc_profileArn = [], acc_profileArnPinned = False,
           acc_enabled = True, acc_silent = False, acc_silentReason = [], acc_silentTime = 0, acc_banStatus = [],
           acc_banReason = [], acc_banTime = 0, acc_expiresAt = now + 3600, acc_machineId = machine, acc_weight = 0,
           acc_overageStatus = [], acc_overageCapability = [], acc_overageCap = 0, acc_overageRate = 0,
           acc_currentOverages = 0, acc_overageCheckedAt = 0, acc_proxyURL = [], acc_subscriptionType = [],
           acc_subscriptionTitle = [], acc_daysRemaining = 0, acc_usageCurrent = 0, acc_usageLimit = 0,
           acc_usagePercent = 0, acc_nextResetDate = [], acc_lastRefresh = 0, acc_trialUsageCurrent = 0,
           acc_trialUsageLimit = 0, acc_trialUsagePercent = 0, acc_trialStatus = [], acc_trialExpiresAt = 0,
           acc_requestCount = 0, acc_errorCount = 0, acc_totalTokens = 0, acc_totalCredits = 0, acc_lastUsed = 0,
           acc_hasToken = True, acc_activeRegion = ''us-east-1''\<rparr>, rng))"

text \<open>\<open>addAccount(overrides, secrets)\<close>: the overrides after the defaults, the secrets after the drawn ones.\<close>

definition addAccount ::
  "int \<Rightarrow> (account \<Rightarrow> account) \<Rightarrow> (account_full \<Rightarrow> account_full) \<Rightarrow> signin \<Rightarrow> added_account_ref \<times> signin" where
  "addAccount now overrides secrets st =
     (let (a, rng) = makeAccount now (sg_rng st);
          a = overrides (a\<lparr>acc_region := ''us-east-1'', acc_activeRegion := ''us-east-1'', acc_lastRefresh := now\<rparr>);
          db = sg_db st
      in (\<lparr>ref_id = acc_id a, ref_email = acc_email a\<rparr>,
          st\<lparr>sg_sequence := sg_sequence st + 1, sg_rng := rng,
             sg_db := db\<lparr>db_accounts := db_accounts db @ [a],
                         db_secrets := AList.update (acc_id a) (secrets (makeAccountFull a)) (db_secrets db)\<rparr>\<rparr>))"

definition newEmail :: "string \<Rightarrow> signin \<Rightarrow> string" where
  "newEmail who st = who @ ''.'' @ string_of_nat (sg_sequence st + 1) @ ''@northwind-labs.dev''"

definition in_region :: "string \<Rightarrow> account \<Rightarrow> account" where
  "in_region region a = a\<lparr>acc_region := region, acc_activeRegion := region\<rparr>"

definition addMicrosoftAccount :: "int \<Rightarrow> string \<Rightarrow> signin \<Rightarrow> added_account_ref \<times> signin" where
  "addMicrosoftAccount now profileArn st =
     addAccount now (\<lambda>a. a\<lparr>acc_email := newEmail ''entra.user'' st, acc_authMethod := ''external_idp'',
       acc_provider := ''AzureAD'', acc_profileArn := profileArn\<rparr>) id st"

type_synonym 'a step = "signin \<Rightarrow> 'a reply \<times> signin"

definition reject :: "int \<Rightarrow> string \<Rightarrow> 'a step" where
  "reject status msg st = (Inl (jsonError status msg None), st)"

definition guarded_step :: "string \<Rightarrow> 'a step \<Rightarrow> 'a step" where
  "guarded_step token h st = (case requireAuth token of Some denied \<Rightarrow> (Inl denied, st) | None \<Rightarrow> h st)"

definition answer :: "added_account_ref \<times> signin \<Rightarrow> added_account_ref reply \<times> signin" where
  "answer out = (Inr (fst out), snd out)"

subsection \<open>Imported credentials\<close>

definition is_key_char :: "char \<Rightarrow> bool" where
  "is_key_char c \<longleftrightarrow> is_digit c \<or> is_lower_az c \<or> is_upper_az c \<or> c = CHR ''_'' \<or> c = CHR ''.'' \<or> c = CHR ''-''"

definition importApiKey :: "int \<Rightarrow> credentials_import_request \<Rightarrow> added_account_ref step" where
  "importApiKey now body st =
     (let raw = trim (or_text (or_empty (cir_kiroApiKey body)) (or_empty (cir_accessToken body)));
          parts = map trim (split_char (CHR ''|'') raw);
          key = hd parts;
          suffix = (case parts of _ # s # _ \<Rightarrow> s | _ \<Rightarrow> [])
      in if raw = [] then reject 400 ''kiroApiKey is empty'' st
         else if length parts > 2 then reject 400 (''kiroApiKey has more than one '' @ [CHR 0x27, CHR ''|'', CHR 0x27] @ '' separator'') st
         else if key = [] \<or> \<not> list_all is_key_char key then reject 400 ''kiroApiKey contains invalid characters'' st
         else case normalizeRegion (Some (or_text (or_empty (cir_region body)) suffix)) of
             None \<Rightarrow> reject 400 ''invalid Kiro API key region'' st
           | Some region \<Rightarrow>
               if region \<notin> set API_KEY_REGIONS
               then reject 400 ''unsupported Kiro API key region: use us-east-1 or eu-central-1'' st
               else if list_ex (\<lambda>p. full_kiroApiKey (snd p) = key) (db_secrets (sg_db st))
               then reject 409 ''this Kiro API key is already added'' st
               else answer (addAccount now
                 (\<lambda>a. in_region region (a\<lparr>acc_authMethod := ''api_key'', acc_provider := ''APIKey'', acc_expiresAt := 0\<rparr>))
                 (\<lambda>f. f\<lparr>full_kiroApiKey := key, full_accessToken := key, full_refreshToken := []\<rparr>) st))"

definition server_method :: "credentials_import_request \<Rightarrow> string" where
  "server_method body =
     (let hint = toLowerCase (or_empty (cir_authMethod body));
          microsoft = (hint = ''external_idp'' \<or>
            or_text (or_empty (cir_tokenEndpoint body)) (or_empty (cir_issuerUrl body)) \<noteq> [])
      in if microsoft then ''external_idp''
         else if hint = ''idc'' \<or> (or_empty (cir_clientId body) \<noteq> [] \<and> or_empty (cir_clientSecret body) \<noteq> [])
         then ''idc'' else ''social'')"

definition importRefreshToken :: "int \<Rightarrow> credentials_import_request \<Rightarrow> added_account_ref step" where
  "importRefreshToken now body st =
     (let refreshToken = trim (or_empty (cir_refreshToken body)) in
      if refreshToken = [] then reject 400 ''refreshToken or kiroApiKey is required'' st
      else case normalizeRegion (cir_region body) of
          None \<Rightarrow> reject 400 ''invalid region'' st
        | Some region \<Rightarrow>
            (let authMethod = server_method body
             in answer (addAccount now
                  (\<lambda>a. in_region region (a\<lparr>
                     acc_email := newEmail (if authMethod = ''social'' then ''social.user'' else ''idc.user'') st,
                     acc_authMethod := authMethod,
                     acc_provider := or_text (or_empty (cir_provider body))
                       (if authMethod = ''social'' then ''Google'' else ''BuilderId''),
                     acc_userId := or_empty (cir_userId body), acc_profileArn := or_empty (cir_profileArn body)\<rparr>))
                  (\<lambda>f. f\<lparr>full_refreshToken := refreshToken, full_accessToken := or_empty (cir_accessToken body)\<rparr>) st)))"

definition apiKeyPath :: "credentials_import_request \<Rightarrow> bool" where
  "apiKeyPath body \<longleftrightarrow>
     (let method = toLowerCase (or_empty (cir_authMethod body))
      in or_empty (cir_kiroApiKey body) \<noteq> [] \<or>
         or_empty (cir_refreshToken body) = [] \<and>
           (method = ''api_key'' \<or> method = ''apikey'' \<or> startsWith (or_empty (cir_accessToken body)) ''ksk_''))"

definition post_credentials ::
  "string \<Rightarrow> int \<Rightarrow> credentials_import_request option \<Rightarrow> added_account_ref step" where
  "post_credentials token now body = guarded_step token (\<lambda>st. case body of
      None \<Rightarrow> reject 400 ''Invalid JSON'' st
    | Some b \<Rightarrow> if apiKeyPath b then importApiKey now b st else importRefreshToken now b st)"

subsection \<open>Logins\<close>

record iam_start =
  is_sessionId :: string
  is_authorizeUrl :: string
  is_expiresIn :: int

definition field_string :: "source \<Rightarrow> string \<Rightarrow> string" where
  "field_string body k = or_empty (as_string (own body k))"

definition post_iam_start :: "string \<Rightarrow> string \<Rightarrow> json option \<Rightarrow> iam_start step" where
  "post_iam_start token drawn body = guarded_step token (\<lambda>st. case read_object body of
      None \<Rightarrow> reject 400 ''Invalid JSON'' st
    | Some b \<Rightarrow>
        (let startUrl = trim (field_string b ''startUrl'') in
         if startUrl = [] then reject 400 ''startUrl is required'' st
         else case normalizeRegion (as_string (own b ''region'')) of
             None \<Rightarrow> reject 400 ''invalid region'' st
           | Some region \<Rightarrow>
               (Inr \<lparr>is_sessionId = drawn,
                  is_authorizeUrl = ''https://oidc.'' @ region @ ''.amazonaws.com/authorize?response_type=code&client_id=mock-'' @
                    take 8 drawn @ ''&redirect_uri=http%3A%2F%2F127.0.0.1%2Foauth%2Fcallback&state='' @ drawn @
                    ''&code_challenge_method=S256'',
                  is_expiresIn = 600\<rparr>,
                st\<lparr>sg_iam := AList.update drawn (startUrl, region) (sg_iam st)\<rparr>)))"

text \<open>\<open>mockDb.pending.iam[id]\<close>: an own entry, or a member every object inherits.\<close>

definition pending_at :: "'a \<Rightarrow> (string \<times> 'a) list \<Rightarrow> string \<Rightarrow> 'a option" where
  "pending_at inherited table i =
     (case map_of table i of Some v \<Rightarrow> Some v | None \<Rightarrow> if i \<in> set OBJECT_MEMBERS then Some inherited else None)"

definition post_iam_complete ::
  "(string \<Rightarrow> string) \<Rightarrow> string \<Rightarrow> int \<Rightarrow> json option \<Rightarrow> added_account_ref step" where
  "post_iam_complete phrase token now body = guarded_step token (\<lambda>st. case read_object body of
      None \<Rightarrow> reject 400 ''Invalid JSON'' st
    | Some b \<Rightarrow>
        (let i = field_string b ''sessionId''; callbackUrl = field_string b ''callbackUrl'' in
         case pending_at ([], []) (sg_iam st) i of
           None \<Rightarrow> reject 400 (phrase ''session expired'') st
         | Some (startUrl, region) \<Rightarrow>
             if \<not> includesStr callbackUrl ''code='' \<or> \<not> includesStr callbackUrl ''state=''
             then reject 400 (phrase ''bad callback'') st
             else
               (let st = st\<lparr>sg_iam := AList.delete i (sg_iam st)\<rparr>
                in answer (addAccount now (\<lambda>a. in_region region (a\<lparr>acc_email := newEmail ''enterprise.user'' st,
                     acc_authMethod := ''idc'', acc_provider := ''Enterprise''\<rparr>)) id st))))"

definition post_microsoft_start :: "string \<Rightarrow> string \<Rightarrow> string step" where
  "post_microsoft_start token drawn = guarded_step token (\<lambda>st.
     (Inr drawn, st\<lparr>sg_microsoft := AList.update drawn (MicrosoftSession KiroLeg) (sg_microsoft st)\<rparr>))"

definition OFFERED_PROFILES :: "kiro_profile list" where
  "OFFERED_PROFILES =
     [\<lparr>kp_arn = ''arn:aws:codewhisperer:eu-central-1:381492027763:profile/QK7M2XRZ9PLA'',
       kp_name = Some ''Northwind Engineering'', kp_region = ''eu-central-1''\<rparr>,
      \<lparr>kp_arn = ''arn:aws:codewhisperer:us-east-1:381492027763:profile/HV4N8TQW2JDE'',
       kp_name = None, kp_region = ''us-east-1''\<rparr>]"

definition second_leg ::
  "string \<Rightarrow> int \<Rightarrow> string \<Rightarrow> string \<Rightarrow> microsoft_complete_response step" where
  "second_leg selectionId now sessionId callbackUrl st =
     (let st = st\<lparr>sg_microsoft := AList.delete sessionId (sg_microsoft st)\<rparr> in
      if includesStr callbackUrl ''profiles=2''
      then (Inr (StageProfile selectionId OFFERED_PROFILES),
            st\<lparr>sg_microsoft := AList.update selectionId (MicrosoftSelection OFFERED_PROFILES) (sg_microsoft st)\<rparr>)
      else
        (let (ref, st) = addMicrosoftAccount now [] st
         in (Inr (StageComplete ref (if includesStr callbackUrl ''noprofile''
               then Some ''The account was added, but its Kiro profile could not be resolved yet: no Kiro profile found''
               else None)), st)))"

definition post_microsoft_complete ::
  "string \<Rightarrow> string \<Rightarrow> int \<Rightarrow> json option \<Rightarrow> microsoft_complete_response step" where
  "post_microsoft_complete token drawn now body = guarded_step token (\<lambda>st. case read_object body of
      None \<Rightarrow> reject 400 ''Invalid JSON'' st
    | Some b \<Rightarrow>
        (let i = trim (field_string b ''sessionId''); callbackUrl = trim (field_string b ''callbackUrl'') in
         if i = [] \<or> callbackUrl = [] then reject 400 ''sessionId and callbackUrl are required'' st
         else case map_of (sg_microsoft st) i of
             Some (MicrosoftSession leg) \<Rightarrow>
               if includesStr callbackUrl ''dup'' then reject 409 ''this Microsoft account is already added'' st
               else (case leg of
                   KiroLeg \<Rightarrow>
                     (Inr (StageMicrosoft (''https://login.microsoftonline.com/common/oauth2/v2.0/authorize?client_id=mock&redirect_uri=http%3A%2F%2Flocalhost%3A3128%2Foauth%2Fcallback&state='' @ i)),
                      st\<lparr>sg_microsoft := AList.update i (MicrosoftSession MicrosoftLeg) (sg_microsoft st)\<rparr>)
                 | MicrosoftLeg \<Rightarrow> second_leg drawn now i callbackUrl st)
           | _ \<Rightarrow> reject 400 ''unknown or expired Microsoft SSO session'' st))"

definition post_select_profile :: "string \<Rightarrow> int \<Rightarrow> json option \<Rightarrow> added_account_ref step" where
  "post_select_profile token now body = guarded_step token (\<lambda>st. case read_object body of
      None \<Rightarrow> reject 400 ''Invalid JSON'' st
    | Some b \<Rightarrow>
        (let i = field_string b ''selectionId''; arn = field_string b ''profileArn'' in
         case map_of (sg_microsoft st) i of
           Some (MicrosoftSelection profiles) \<Rightarrow>
             if \<not> list_ex (\<lambda>p. kp_arn p = arn) profiles
             then reject 400 ''Selected Kiro profile was not offered for this login'' st
             else answer (addMicrosoftAccount now arn (st\<lparr>sg_microsoft := AList.delete i (sg_microsoft st)\<rparr>))
         | _ \<Rightarrow> reject 400 ''Microsoft profile selection not found or expired'' st))"

definition drop_pending :: "string \<Rightarrow> (string \<times> 'a) list \<Rightarrow> (string \<times> 'a) list" where
  "drop_pending i pending = (if i = [] then pending else AList.delete i pending)"

definition post_microsoft_cancel :: "string \<Rightarrow> json option \<Rightarrow> unit step" where
  "post_microsoft_cancel token body = guarded_step token (\<lambda>st.
     (let b = (case read_object body of None \<Rightarrow> [] | Some b \<Rightarrow> b)
      in (Inr (), st\<lparr>sg_microsoft := drop_pending (field_string b ''selectionId'')
           (drop_pending (field_string b ''sessionId'') (sg_microsoft st))\<rparr>)))"

definition post_builderid_start :: "string \<Rightarrow> string \<Rightarrow> json option \<Rightarrow> string step" where
  "post_builderid_start token drawn body = guarded_step token (\<lambda>st.
     case normalizeRegion (case read_object body of None \<Rightarrow> None | Some b \<Rightarrow> as_string (own b ''region'')) of
       None \<Rightarrow> reject 400 ''invalid region'' st
     | Some region \<Rightarrow> (Inr drawn, st\<lparr>sg_builderId := AList.update drawn (0, region) (sg_builderId st)\<rparr>))"

text \<open>The polls of an inherited member are \<open>NaN\<close> once 1 is added, which no comparison holds of: \<open>None\<close>.\<close>

definition builderIdState :: "string \<Rightarrow> signin \<Rightarrow> (int option \<times> string) option" where
  "builderIdState i st =
     pending_at (None, []) (map (\<lambda>(i, polls, region). (i, Some polls, region)) (sg_builderId st)) i"

definition post_builderid_poll :: "string \<Rightarrow> int \<Rightarrow> json option \<Rightarrow> builder_id_poll_response step" where
  "post_builderid_poll token now body = guarded_step token (\<lambda>st. case read_object body of
      None \<Rightarrow> reject 400 ''Invalid JSON'' st
    | Some b \<Rightarrow>
        (let i = field_string b ''sessionId'' in
         case builderIdState i st of
           None \<Rightarrow> reject 400 ''session not found or expired'' st
         | Some (polls, region) \<Rightarrow>
             if region = BUILDER_ID_EXPIRED_REGION
             then (Inl (jsonError 400 ''authorization expired'' None),
                   st\<lparr>sg_builderId := AList.delete i (sg_builderId st)\<rparr>)
             else if (case polls of None \<Rightarrow> False | Some n \<Rightarrow> n + 1 \<le> BUILDER_ID_PENDING_POLLS)
             then (Inr (PollPending ''pending'' 1),
                   st\<lparr>sg_builderId := AList.update i (the polls + 1, region) (sg_builderId st)\<rparr>)
             else
               (let st = st\<lparr>sg_builderId := AList.delete i (sg_builderId st)\<rparr>;
                    (ref, st) = addAccount now (\<lambda>a. in_region region (a\<lparr>acc_email := newEmail ''builder.dev'' st,
                      acc_authMethod := ''idc'', acc_provider := ''BuilderId''\<rparr>)) id st
                in (Inr (PollCompleted ref), st))))"

subsection \<open>Bulk tokens\<close>

fun sso_lines ::
  "(string \<Rightarrow> string) \<Rightarrow> int \<Rightarrow> string \<Rightarrow> nat \<Rightarrow> string list \<Rightarrow> signin \<Rightarrow> added_account_ref list \<times> string list \<times> signin" where
  "sso_lines phrase now region index [] st = ([], [], st)"
| "sso_lines phrase now region index (line # lines) st =
     (if line = ''bad'' then
        (let (refs, errors, st) = sso_lines phrase now region (index + 1) lines st
         in (refs, (''token '' @ string_of_nat (index + 1) @ '': token '' @ phrase ''check failed'' @ '': 401 Unauthorized'') # errors, st))
      else
        (let (ref, st) = addAccount now (\<lambda>a. in_region region (a\<lparr>acc_email := [], acc_authMethod := ''idc'', acc_provider := []\<rparr>)) id st;
             (refs, errors, st) = sso_lines phrase now region (index + 1) lines st
         in (ref # refs, errors, st)))"

definition some_list :: "'a list \<Rightarrow> 'a list option" where
  "some_list xs = (if xs = [] then None else Some xs)"

definition post_sso_token ::
  "(string \<Rightarrow> string) \<Rightarrow> string \<Rightarrow> int \<Rightarrow> json option \<Rightarrow> (added_account_ref list option \<times> string list option) step" where
  "post_sso_token phrase token now body = guarded_step token (\<lambda>st. case read_object body of
      None \<Rightarrow> reject 400 ''Invalid JSON'' st
    | Some b \<Rightarrow>
        (let bearerToken = field_string b ''bearerToken'' in
         if trim bearerToken = [] then reject 400 ''bearerToken is required'' st
         else case normalizeRegion (as_string (own b ''region'')) of
             None \<Rightarrow> reject 400 ''invalid region'' st
           | Some region \<Rightarrow>
               (let lines = filter (\<lambda>l. l \<noteq> []) (map trim (split_char (CHR 0x0A) bearerToken));
                    (refs, errors, st) = sso_lines phrase now region 0 lines st
                in if refs = [] \<and> errors \<noteq> []
                   then (Inl (jsonError 500 (join ''; '' errors) None), st)
                   else (Inr (some_list refs, some_list errors), st))))"

subsection \<open>Lemmas\<close>

lemma guarded_step_state: "P (snd (h st)) \<Longrightarrow> P st \<Longrightarrow> P (snd (guarded_step token h st))"
  by (simp add: guarded_step_def split: option.split)

lemma reject_simps [simp]: "snd (reject status msg st) = st" "fst (reject status msg st) = Inl (jsonError status msg None)"
  by (simp_all add: reject_def)

lemma answer_simps [simp]: "snd (answer out) = snd out" "fst (answer out) = Inr (fst out)"
  by (simp_all add: answer_def)

text \<open>What adding an account does: one row at the end, its secrets under its id, one more sequence
  number, nothing pending touched.\<close>

definition new_account :: "int \<Rightarrow> (account \<Rightarrow> account) \<Rightarrow> signin \<Rightarrow> account" where
  "new_account now overrides st = overrides ((fst (makeAccount now (sg_rng st)))
     \<lparr>acc_region := ''us-east-1'', acc_activeRegion := ''us-east-1'', acc_lastRefresh := now\<rparr>)"

lemma addAccount_state:
  "snd (addAccount now overrides secrets st) = st\<lparr>sg_sequence := sg_sequence st + 1,
     sg_rng := snd (makeAccount now (sg_rng st)),
     sg_db := (sg_db st)\<lparr>db_accounts := db_accounts (sg_db st) @ [new_account now overrides st],
       db_secrets := AList.update (acc_id (new_account now overrides st))
         (secrets (makeAccountFull (new_account now overrides st))) (db_secrets (sg_db st))\<rparr>\<rparr>"
  by (simp add: addAccount_def new_account_def split_beta Let_def)

lemma addAccount_parts [simp]:
  "db_accounts (sg_db (snd (addAccount now ov sec st))) = db_accounts (sg_db st) @ [new_account now ov st]"
  "sg_iam (snd (addAccount now ov sec st)) = sg_iam st"
  "sg_microsoft (snd (addAccount now ov sec st)) = sg_microsoft st"
  "sg_builderId (snd (addAccount now ov sec st)) = sg_builderId st"
  by (simp_all add: addAccount_state)

lemma addMicrosoft_parts [simp]:
  "length (db_accounts (sg_db (snd (addMicrosoftAccount now arn st)))) = Suc (length (db_accounts (sg_db st)))"
  "sg_iam (snd (addMicrosoftAccount now arn st)) = sg_iam st"
  "sg_microsoft (snd (addMicrosoftAccount now arn st)) = sg_microsoft st"
  "sg_builderId (snd (addMicrosoftAccount now arn st)) = sg_builderId st"
  by (simp_all add: addMicrosoftAccount_def)

subsection \<open>One account per login\<close>

text \<open>A login's requests: starting one counts one, every other request none, except for a completion or a
  poll whose id names an inherited member: it counts one, like a login of its own.\<close>

definition borrowed_id :: "json option \<Rightarrow> nat" where
  "borrowed_id body =
     (case read_object body of
        None \<Rightarrow> 0
      | Some b \<Rightarrow> if field_string b ''sessionId'' \<in> set OBJECT_MEMBERS then 1 else 0)"

inductive login_step :: "signin \<Rightarrow> nat \<Rightarrow> signin \<Rightarrow> bool" where
  iam_start: "login_step st 1 (snd (post_iam_start token drawn body st))"
| iam_complete: "login_step st (borrowed_id body) (snd (post_iam_complete phrase token now body st))"
| microsoft_start: "login_step st 1 (snd (post_microsoft_start token drawn st))"
| microsoft_complete: "login_step st 0 (snd (post_microsoft_complete token drawn now body st))"
| select_profile: "login_step st 0 (snd (post_select_profile token now body st))"
| microsoft_cancel: "login_step st 0 (snd (post_microsoft_cancel token body st))"
| builderid_start: "login_step st 1 (snd (post_builderid_start token drawn body st))"
| builderid_poll: "login_step st (borrowed_id body) (snd (post_builderid_poll token now body st))"

inductive login_run :: "signin \<Rightarrow> nat \<Rightarrow> signin \<Rightarrow> bool" where
  run_start: "login_run st 0 st"
| run_next: "login_run st n st' \<Longrightarrow> login_step st' k st'' \<Longrightarrow> login_run st (n + k) st''"

definition weight_of :: "signin \<Rightarrow> nat" where
  "weight_of st = length (db_accounts (sg_db st)) + length (sg_iam st) + length (sg_microsoft st) + length (sg_builderId st)"

lemma length_update_le: "length (AList.update k v al) \<le> Suc (length al)"
  by (induction al) auto

lemma length_update_known: "map_of al k \<noteq> None \<Longrightarrow> length (AList.update k v al) = length al"
  by (induction al) auto

lemma length_delete_le: "length (AList.delete k al) \<le> length al"
  by (simp add: AList.delete_eq)

lemma length_delete_known: "map_of al k \<noteq> None \<Longrightarrow> length (AList.delete k al) < length al"
proof -
  assume "map_of al k \<noteq> None"
  then obtain w where "(k, w) \<in> set al" by (auto dest: map_of_SomeD)
  then show ?thesis unfolding AList.delete_eq by (intro length_filter_less [of "(k, w)"]) simp_all
qed

lemma guarded_step_le: "(\<And>st. f (snd (h st)) \<le> f st + k) \<Longrightarrow> f (snd (guarded_step token h st)) \<le> f st + (k::nat)"
  by (simp add: guarded_step_def split: option.split)

lemma iam_start_weight: "weight_of (snd (post_iam_start token drawn body st)) \<le> weight_of st + 1"
  unfolding post_iam_start_def
  by (rule guarded_step_le) (simp add: weight_of_def Let_def length_update_le split: option.split)

lemma pending_at_own: "pending_at v table i = Some w \<Longrightarrow> map_of table i = Some w \<or> map_of table i = None \<and> i \<in> set OBJECT_MEMBERS \<and> w = v"
  by (auto simp: pending_at_def split: option.splits if_splits)

lemma builderIdState_table: "builderIdState i st =
    (case map_of (sg_builderId st) i of Some (n, r) \<Rightarrow> Some (Some n, r)
     | None \<Rightarrow> if i \<in> set OBJECT_MEMBERS then Some (None, []) else None)"
proof -
  have "map_of (map (\<lambda>(i, polls, region). (i, Some polls, region)) xs) i = map_option (\<lambda>(n, r). (Some n, r)) (map_of xs i)"
    for xs :: "(string \<times> int \<times> string) list"
    by (induction xs) auto
  then show ?thesis by (auto simp: builderIdState_def pending_at_def split: option.split)
qed

lemma builderIdState_own:
  assumes "builderIdState i st = Some (polls, region)"
  shows "(\<exists>n. polls = Some n \<and> map_of (sg_builderId st) i = Some (n, region)) \<or>
    polls = None \<and> region = [] \<and> map_of (sg_builderId st) i = None \<and> i \<in> set OBJECT_MEMBERS"
  using assms by (auto simp: builderIdState_table split: option.splits if_splits)

lemma iam_complete_weight: "weight_of (snd (post_iam_complete phrase token now body st)) \<le> weight_of st + borrowed_id body"
proof -
  have one: "Suc (length (AList.delete i t)) \<le> length t + (if i \<in> set OBJECT_MEMBERS then 1 else 0)"
    if "pending_at v t i = Some w" for v w i and t :: "(string \<times> string \<times> string) list"
    using pending_at_own [OF that] length_delete_known [of t i] length_delete_le [of i t] by auto
  show ?thesis
    unfolding post_iam_complete_def
    by (rule guarded_step_le) (auto simp: weight_of_def Let_def borrowed_id_def split: option.split dest!: one)
qed

lemma microsoft_start_weight: "weight_of (snd (post_microsoft_start token drawn st)) \<le> weight_of st + 1"
  unfolding post_microsoft_start_def
  by (rule guarded_step_le) (simp add: weight_of_def length_update_le)

lemma length_drop_pending: "length (drop_pending i pending) \<le> length pending"
  by (simp add: drop_pending_def length_delete_le)

lemma microsoft_cancel_weight: "weight_of (snd (post_microsoft_cancel token body st)) \<le> weight_of st + 0"
  unfolding post_microsoft_cancel_def Let_def
  by (rule guarded_step_le) (simp add: weight_of_def le_trans [OF length_drop_pending length_drop_pending])

lemma select_profile_weight: "weight_of (snd (post_select_profile token now body st)) \<le> weight_of st + 0"
  unfolding post_select_profile_def
  by (rule guarded_step_le)
    (simp add: weight_of_def Let_def length_delete_known Suc_le_eq split: option.split microsoft_pending.split)

lemma builderid_start_weight: "weight_of (snd (post_builderid_start token drawn body st)) \<le> weight_of st + 1"
  unfolding post_builderid_start_def
  by (rule guarded_step_le) (simp add: weight_of_def length_update_le split: option.split)

lemma builderid_poll_weight: "weight_of (snd (post_builderid_poll token now body st)) \<le> weight_of st + borrowed_id body"
proof -
  have gone: "Suc (length (AList.delete i (sg_builderId st))) \<le> length (sg_builderId st) + (if i \<in> set OBJECT_MEMBERS then 1 else 0)"
    if "builderIdState i st = Some w" for w i st
    using builderIdState_own [of i st "fst w" "snd w"] that length_delete_known [of "sg_builderId st" i]
      length_delete_le [of i "sg_builderId st"] by auto
  have kept: "length (AList.update i v (sg_builderId st)) = length (sg_builderId st)"
    if "builderIdState i st = Some (Some n, r)" for n r i v st
    using builderIdState_own [OF that] by (intro length_update_known) auto
  show ?thesis
    unfolding post_builderid_poll_def
    by (rule guarded_step_le)
      (auto simp: weight_of_def Let_def split_beta borrowed_id_def kept split: option.split dest!: gone)
qed

lemma second_leg_weight:
  "map_of (sg_microsoft st) i \<noteq> None \<Longrightarrow> weight_of (snd (second_leg drawn now i callbackUrl st)) \<le> weight_of st"
  using length_delete_known [of "sg_microsoft st" i]
    length_update_le [of drawn "MicrosoftSelection OFFERED_PROFILES" "AList.delete i (sg_microsoft st)"]
  by (simp add: second_leg_def weight_of_def Let_def split_beta)

lemma microsoft_complete_weight:
  "weight_of (snd (post_microsoft_complete token drawn now body st)) \<le> weight_of st + 0"
  unfolding post_microsoft_complete_def
  by (rule guarded_step_le, simp add: Let_def second_leg_weight split: option.split microsoft_pending.split microsoft_leg.split,
      simp add: weight_of_def length_update_known)

lemma login_step_weight: "login_step st k st' \<Longrightarrow> weight_of st' \<le> weight_of st + k"
  by (induction rule: login_step.induct)
    (simp_all only: iam_start_weight iam_complete_weight microsoft_start_weight microsoft_complete_weight
      select_profile_weight microsoft_cancel_weight builderid_start_weight builderid_poll_weight)

lemma login_run_weight: "login_run st n st' \<Longrightarrow> weight_of st' \<le> weight_of st + n"
  by (induction rule: login_run.induct) (auto dest: login_step_weight)

text \<open>C6: One account per login: however the requests of the Identity Center, Microsoft and Builder ID
  logins interleave (bodies, tokens, clocks and drawn ids are arbitrary), accounts and open sessions
  together never outgrow what was there before by more than the logins started since; so a finished,
  cancelled, replayed or expired login cannot add a second account. The one exception is counted as a login
  of its own: a completion or a poll whose session id names a member every object inherits, which the
  plain-object tables find without any login having been started.\<close>

theorem one_account_per_login:
  assumes "login_run st n st'"
  shows "length (db_accounts (sg_db st')) + length (sg_iam st') + length (sg_microsoft st') + length (sg_builderId st')
    \<le> length (db_accounts (sg_db st)) + length (sg_iam st) + length (sg_microsoft st) + length (sg_builderId st) + n"
  using login_run_weight [OF assms] by (simp add: weight_of_def)

text \<open>The exception is real: such a request adds an account, each time.\<close>

definition borrowed_complete :: "json option" where
  "borrowed_complete = Some (JObj [(''sessionId'', JStr ''constructor''), (''callbackUrl'', JStr ''code=1&state=2'')])"

lemma borrowed_id_adds_account:
  "sg_iam st = [] \<Longrightarrow> length (db_accounts (sg_db (snd (post_iam_complete phrase ''mock-t'' now borrowed_complete st)))) =
    Suc (length (db_accounts (sg_db st)))"
proof -
  have "includesStr ''code=1&state=2'' ''code=''" "includesStr ''code=1&state=2'' ''state=''" by code_simp+
  moreover assume "sg_iam st = []"
  ultimately show ?thesis
    by (simp add: post_iam_complete_def guarded_step_def requireAuth_def startsWith_def borrowed_complete_def
        read_object_def field_string_def or_empty_def pending_at_def OBJECT_MEMBERS_def Let_def)
qed

definition sample_signin :: signin where
  "sample_signin = \<lparr>sg_db = seedEmptyDb ''pw'' False 0, sg_rng = 7, sg_sequence = 0, sg_iam = [], sg_microsoft = [],
     sg_builderId = []\<rparr>"

theorem one_account_per_login_witness:
  "length (db_accounts (sg_db (snd (post_microsoft_complete ''mock-t'' ''p'' 9 (Some (JObj [(''sessionId'', JStr ''s''), (''callbackUrl'', JStr ''u'')]))
     (snd (post_microsoft_start ''mock-t'' ''s'' sample_signin)))))) \<le> 1"
proof -
  let ?s1 = "snd (post_microsoft_start ''mock-t'' ''s'' sample_signin)"
  let ?s2 = "snd (post_microsoft_complete ''mock-t'' ''p'' 9 (Some (JObj [(''sessionId'', JStr ''s''), (''callbackUrl'', JStr ''u'')])) ?s1)"
  have "login_run sample_signin (0 + 1) ?s1" by (intro run_next [OF run_start] login_step.microsoft_start)
  then have "login_run sample_signin (0 + 1 + 0) ?s2" by (rule run_next) (rule login_step.microsoft_complete)
  from one_account_per_login [OF this] show ?thesis by (simp add: sample_signin_def seedEmptyDb_def)
qed

subsection \<open>No Kiro API key twice\<close>

definition keys_unique :: "signin \<Rightarrow> bool" where
  "keys_unique st \<longleftrightarrow> (\<forall>i j f g. map_of (db_secrets (sg_db st)) i = Some f \<and> map_of (db_secrets (sg_db st)) j = Some g \<and>
     full_kiroApiKey f = full_kiroApiKey g \<and> full_kiroApiKey f \<noteq> [] \<longrightarrow> i = j)"

lemma keys_unique_pending [simp]:
  "keys_unique (st\<lparr>sg_iam := x\<rparr>) = keys_unique st" "keys_unique (st\<lparr>sg_microsoft := y\<rparr>) = keys_unique st"
  "keys_unique (st\<lparr>sg_builderId := z\<rparr>) = keys_unique st"
  by (simp_all add: keys_unique_def)

text \<open>The secrets of a made account, field by field.\<close>

lemma full_of_fields:
  "full_accessToken (account_base.extend b (account_full.fields a1 r1 k1 c1 s1 e1 i1 p1)) = a1"
  "full_refreshToken (account_base.extend b (account_full.fields a1 r1 k1 c1 s1 e1 i1 p1)) = r1"
  "full_kiroApiKey (account_base.extend b (account_full.fields a1 r1 k1 c1 s1 e1 i1 p1)) = k1"
  "full_clientId (account_base.extend b (account_full.fields a1 r1 k1 c1 s1 e1 i1 p1)) = c1"
  "full_clientSecret (account_base.extend b (account_full.fields a1 r1 k1 c1 s1 e1 i1 p1)) = s1"
  "full_tokenEndpoint (account_base.extend b (account_full.fields a1 r1 k1 c1 s1 e1 i1 p1)) = e1"
  "full_issuerUrl (account_base.extend b (account_full.fields a1 r1 k1 c1 s1 e1 i1 p1)) = i1"
  by (simp_all add: account_base.defs account_full.defs)

lemma makeAccountFull_no_key: "\<not> mock_isApiKey a \<Longrightarrow> full_kiroApiKey (makeAccountFull a) = []"
  by (simp add: makeAccountFull_def full_of_fields Let_def split_beta)

lemma keys_unique_add:
  assumes unique: "keys_unique st"
    and fresh: "\<And>i f. map_of (db_secrets (sg_db st)) i = Some f \<Longrightarrow>
      full_kiroApiKey (sec (makeAccountFull (new_account now ov st))) \<noteq> [] \<Longrightarrow>
      full_kiroApiKey f \<noteq> full_kiroApiKey (sec (makeAccountFull (new_account now ov st)))"
  shows "keys_unique (snd (addAccount now ov sec st))"
proof -
  define new where "new = sec (makeAccountFull (new_account now ov st))"
  define d where "d = acc_id (new_account now ov st)"
  define m where "m = map_of (db_secrets (sg_db st))"
  have m': "map_of (db_secrets (sg_db (snd (addAccount now ov sec st)))) = m(d \<mapsto> new)"
    by (simp add: addAccount_state AList.update_conv' new_def d_def m_def)
  have fresh': "full_kiroApiKey f \<noteq> full_kiroApiKey new" if "m i = Some f" "full_kiroApiKey new \<noteq> []" for i f
    using fresh that by (simp add: m_def new_def)
  have unique': "i = j" if "m i = Some f" "m j = Some g" "full_kiroApiKey f = full_kiroApiKey g" "full_kiroApiKey f \<noteq> []"
    for i j f g using unique that unfolding keys_unique_def m_def by blast
  show ?thesis unfolding keys_unique_def m'
  proof (intro allI impI)
    fix i j f g
    assume *: "(m(d \<mapsto> new)) i = Some f \<and> (m(d \<mapsto> new)) j = Some g \<and> full_kiroApiKey f = full_kiroApiKey g \<and>
      full_kiroApiKey f \<noteq> []"
    show "i = j"
    proof (cases "i = d"; cases "j = d")
      assume "i \<noteq> d" "j \<noteq> d" with * show ?thesis using unique' by (metis fun_upd_other)
    next
      assume "i = d" "j \<noteq> d" with * show ?thesis using fresh' [of j g] by auto
    next
      assume "i \<noteq> d" "j = d" with * show ?thesis using fresh' [of i f] by auto
    qed simp
  qed
qed

lemma keys_unique_add_keyless:
  "keys_unique st \<Longrightarrow> \<not> mock_isApiKey (new_account now ov st) \<Longrightarrow> (\<And>f. full_kiroApiKey (sec f) = full_kiroApiKey f) \<Longrightarrow>
    keys_unique (snd (addAccount now ov sec st))"
  by (rule keys_unique_add) (simp_all add: makeAccountFull_no_key)

lemma keys_unique_add_fresh:
  assumes "keys_unique st" "\<not> list_ex (\<lambda>p. full_kiroApiKey (snd p) = key) (db_secrets (sg_db st))"
    and "\<And>f. full_kiroApiKey (sec f) = key"
  shows "keys_unique (snd (addAccount now ov sec st))"
  using assms by (intro keys_unique_add) (fastforce simp: list_ex_iff dest: map_of_SomeD)+

lemmas keyless = mock_isApiKey_def new_account_def in_region_def

lemma keys_unique_microsoft: "keys_unique st \<Longrightarrow> keys_unique (snd (addMicrosoftAccount now arn st))"
  unfolding addMicrosoftAccount_def by (rule keys_unique_add_keyless) (simp_all add: keyless)

lemma keys_unique_idc:
  "keys_unique st \<Longrightarrow> keys_unique (snd (addAccount now (\<lambda>a. in_region region (a\<lparr>acc_email := e, acc_authMethod := ''idc'',
     acc_provider := p\<rparr>)) id st))"
  by (rule keys_unique_add_keyless) (simp_all add: keyless)

lemma keys_unique_sso: "keys_unique st \<Longrightarrow> keys_unique (snd (snd (sso_lines phrase now region n lines st)))"
proof (induction lines arbitrary: n st)
  case (Cons line lines)
  then show ?case by (simp add: split_beta Let_def Cons.IH keys_unique_idc)
qed simp

lemma keys_unique_importApiKey: "keys_unique st \<Longrightarrow> keys_unique (snd (importApiKey now body st))"
  by (simp add: importApiKey_def Let_def keys_unique_add_fresh split: option.split)

lemma not_api_method: "mock_isApiKey (new_account now (\<lambda>a. in_region region (a\<lparr>acc_email := e, acc_authMethod := server_method body,
    acc_provider := p, acc_userId := u, acc_profileArn := q\<rparr>)) st) = False"
  by (simp add: keyless server_method_def Let_def)

lemma keys_unique_importRefreshToken: "keys_unique st \<Longrightarrow> keys_unique (snd (importRefreshToken now body st))"
  by (simp add: importRefreshToken_def Let_def keys_unique_add_keyless not_api_method split: option.split)

text \<open>Every request that can add an account or change an open login, and the removal of an account.\<close>

inductive signin_step :: "signin \<Rightarrow> signin \<Rightarrow> bool" where
  login: "login_step st k st' \<Longrightarrow> signin_step st st'"
| sso_token: "signin_step st (snd (post_sso_token phrase token now body st))"
| credentials: "signin_step st (snd (post_credentials token now request st))"
| delete: "signin_step st (st\<lparr>sg_db := fst (snd (delete_account token i (sg_db st)))\<rparr>)"

lemma login_step_keys: "login_step st k st' \<Longrightarrow> keys_unique st \<Longrightarrow> keys_unique st'"
proof (induction rule: login_step.induct)
  case (iam_start st token drawn body)
  then show ?case unfolding post_iam_start_def
    by (intro guarded_step_state [where P = keys_unique]) (simp_all add: Let_def split: option.split)
next
  case (iam_complete st phrase token now body)
  then show ?case unfolding post_iam_complete_def
    by (intro guarded_step_state [where P = keys_unique]) (simp_all add: Let_def keys_unique_idc split: option.split)
next
  case (microsoft_start st token drawn)
  then show ?case unfolding post_microsoft_start_def
    by (intro guarded_step_state [where P = keys_unique]) simp_all
next
  case (microsoft_complete st token drawn now body)
  then show ?case unfolding post_microsoft_complete_def
    by (intro guarded_step_state [where P = keys_unique])
      (simp_all add: Let_def second_leg_def split_beta keys_unique_microsoft
        split: option.split microsoft_pending.split microsoft_leg.split)
next
  case (select_profile st token now body)
  then show ?case unfolding post_select_profile_def
    by (intro guarded_step_state [where P = keys_unique])
      (simp_all add: Let_def keys_unique_microsoft split: option.split microsoft_pending.split)
next
  case (microsoft_cancel st token body)
  then show ?case unfolding post_microsoft_cancel_def
    by (intro guarded_step_state [where P = keys_unique]) (simp_all add: Let_def)
next
  case (builderid_start st token drawn body)
  then show ?case unfolding post_builderid_start_def
    by (intro guarded_step_state [where P = keys_unique]) (simp_all split: option.split)
next
  case (builderid_poll st token now body)
  then show ?case unfolding post_builderid_poll_def
    by (intro guarded_step_state [where P = keys_unique])
      (simp_all add: Let_def split_beta keys_unique_idc split: option.split)
qed

lemma map_of_remove_by: "map_of (remove_by fst i xs) = (map_of xs)(i := None)"
  by (induction xs) (auto simp: remove_by_def)

lemma keys_unique_fewer:
  assumes "keys_unique st" and "\<And>i f. map_of (db_secrets db') i = Some f \<Longrightarrow> map_of (db_secrets (sg_db st)) i = Some f"
  shows "keys_unique (st\<lparr>sg_db := db'\<rparr>)"
  unfolding keys_unique_def
proof (intro allI impI, elim conjE)
  fix i j f g
  assume "map_of (db_secrets (sg_db (st\<lparr>sg_db := db'\<rparr>))) i = Some f" "map_of (db_secrets (sg_db (st\<lparr>sg_db := db'\<rparr>))) j = Some g"
    "full_kiroApiKey f = full_kiroApiKey g" "full_kiroApiKey f \<noteq> []"
  moreover from this(1,2) have "map_of (db_secrets (sg_db st)) i = Some f" "map_of (db_secrets (sg_db st)) j = Some g"
    using assms(2) by simp_all
  ultimately show "i = j" using assms(1) unfolding keys_unique_def by blast
qed

lemma keys_unique_delete:
  "keys_unique st \<Longrightarrow> keys_unique (st\<lparr>sg_db := fst (snd (delete_account token i (sg_db st)))\<rparr>)"
  by (rule keys_unique_fewer)
    (auto simp: delete_account_def guarded_def delete_account_row_def map_of_remove_by split: option.splits if_splits)

lemma signin_step_keys: "signin_step st st' \<Longrightarrow> keys_unique st \<Longrightarrow> keys_unique st'"
proof (induction rule: signin_step.induct)
  case (login st k st')
  then show ?case by (rule login_step_keys)
next
  case (sso_token st phrase token now body)
  then show ?case unfolding post_sso_token_def
    by (intro guarded_step_state [where P = keys_unique])
      (simp_all add: Let_def split_beta keys_unique_sso split: option.split)
next
  case (credentials st token now request)
  then show ?case unfolding post_credentials_def
    by (intro guarded_step_state [where P = keys_unique])
      (simp_all add: keys_unique_importApiKey keys_unique_importRefreshToken split: option.split)
next
  case (delete st token i)
  then show ?case by (rule keys_unique_delete)
qed

text \<open>C5: No Kiro API key is ever held by two accounts: if the stored secrets satisfy this, so do those
  after any request that adds an account, by any way of signing in or importing, or deletes one.\<close>

theorem no_api_key_twice:
  assumes "signin_step\<^sup>*\<^sup>* st st'"
    and "\<And>i j f g. map_of (db_secrets (sg_db st)) i = Some f \<Longrightarrow> map_of (db_secrets (sg_db st)) j = Some g \<Longrightarrow>
      full_kiroApiKey f = full_kiroApiKey g \<Longrightarrow> full_kiroApiKey f \<noteq> [] \<Longrightarrow> i = j"
    and "map_of (db_secrets (sg_db st')) i = Some f" "map_of (db_secrets (sg_db st')) j = Some g"
    and "full_kiroApiKey f = full_kiroApiKey g" "full_kiroApiKey f \<noteq> []"
  shows "i = j"
proof -
  have "keys_unique st" using assms(2) by (auto simp: keys_unique_def)
  with assms(1) have "keys_unique st'" by (induction rule: rtranclp_induct) (blast intro: signin_step_keys)+
  with assms(3-) show ?thesis unfolding keys_unique_def by blast
qed

definition sample_import :: credentials_import_request where
  "sample_import = no_payload\<lparr>cir_kiroApiKey := Some ''ksk_1'', cir_authMethod := Some ''api_key'', cir_region := Some ''us-east-1''\<rparr>"

text \<open>The secrets stored by an accepted key, as a list of one when the store was empty.\<close>

lemma sample_import_parts:
  "normalizeRegion (Some ''us-east-1'') = Some ''us-east-1''" "map trim (split_char (CHR ''|'') ''ksk_1'') = [''ksk_1'']"
  "trim ''ksk_1'' = ''ksk_1''" "is_key_char (CHR ''k'')" "is_key_char (CHR ''s'')"
  "is_key_char (CHR ''_'')" "is_key_char (CHR ''1'')" "''us-east-1'' \<in> set API_KEY_REGIONS"
  by code_simp+

lemma sample_import_secrets:
  "\<exists>d f. db_secrets (sg_db (snd (post_credentials ''mock-t'' 9 (Some sample_import) sample_signin))) = [(d, f)] \<and>
     full_kiroApiKey f = ''ksk_1''"
proof -
  have "db_secrets (sg_db sample_signin) = []" by (simp add: sample_signin_def seedEmptyDb_def)
  then have "\<exists>d f. db_secrets (sg_db (snd (importApiKey 9 sample_import sample_signin))) = [(d, f)] \<and> full_kiroApiKey f = ''ksk_1''"
    by (simp add: importApiKey_def Let_def sample_import_parts sample_import_def no_payload_def or_empty_def or_text_def
        addAccount_state)
  moreover have "apiKeyPath sample_import" by code_simp
  ultimately show ?thesis by (simp add: post_credentials_def guarded_step_def requireAuth_def startsWith_def)
qed

theorem no_api_key_twice_witness:
  "\<exists>st' d f. signin_step\<^sup>*\<^sup>* sample_signin st' \<and> map_of (db_secrets (sg_db st')) d = Some f \<and>
     full_kiroApiKey f = ''ksk_1'' \<and> d = fst (hd (db_secrets (sg_db st')))"
proof -
  let ?st' = "snd (post_credentials ''mock-t'' 9 (Some sample_import) sample_signin)"
  have step: "signin_step\<^sup>*\<^sup>* sample_signin ?st'" by (rule r_into_rtranclp) (rule signin_step.credentials)
  obtain d f where s: "db_secrets (sg_db ?st') = [(d, f)]" and key: "full_kiroApiKey f = ''ksk_1''"
    using sample_import_secrets by blast
  have none: "map_of (db_secrets (sg_db sample_signin)) i = None" for i
    by (simp add: sample_signin_def seedEmptyDb_def)
  have eq: "d = fst (hd (db_secrets (sg_db ?st')))"
    by (rule no_api_key_twice [OF step, of d f _ f]) (simp_all add: none s key)
  show ?thesis
    by (intro exI [of _ ?st'] exI [of _ d] exI [of _ f] conjI, rule step, simp only: s, simp, rule key, rule eq)
qed

subsection \<open>Refusals\<close>

definition refused_inert :: "signin \<Rightarrow> 'a reply \<times> signin \<Rightarrow> bool" where
  "refused_inert st out \<longleftrightarrow> (case fst out of Inl _ \<Rightarrow> snd out = st | Inr _ \<Rightarrow> True)"

lemma refused_inert_simps [simp]:
  "refused_inert st (reject status msg st)" "refused_inert st (answer out)" "refused_inert st (Inr v, st')"
  "refused_inert st (Inl e, st)"
  by (simp_all add: refused_inert_def reject_def answer_def)

lemma refused_inert_guarded: "(\<And>st. refused_inert st (h st)) \<Longrightarrow> refused_inert st (guarded_step token h st)"
  by (simp add: guarded_step_def split: option.split)

lemma sso_all_bad: "fst (sso_lines phrase now region n lines st) = [] \<Longrightarrow> snd (snd (sso_lines phrase now region n lines st)) = st"
  by (induction lines arbitrary: n) (auto simp: split_beta Let_def split: if_splits)

lemma refused_inert_second_leg: "refused_inert st (second_leg drawn now i callbackUrl st)"
  by (simp add: second_leg_def Let_def split_beta)

lemma refused_inert_import:
  "refused_inert st (importApiKey now b st)" "refused_inert st (importRefreshToken now b st)"
  by (simp_all add: importApiKey_def importRefreshToken_def Let_def split: option.split)

lemma refused_poll:
  "case fst (post_builderid_poll token now body st) of
      Inl _ \<Rightarrow> (\<exists>pending. snd (post_builderid_poll token now body st) = st\<lparr>sg_builderId := pending\<rparr>) | Inr _ \<Rightarrow> True"
proof -
  have "st = st\<lparr>sg_builderId := sg_builderId st\<rparr>" by simp
  then have same: "\<exists>pending. st = st\<lparr>sg_builderId := pending\<rparr>" by (rule exI)
  have changed: "\<exists>pending. st\<lparr>sg_builderId := x\<rparr> = st\<lparr>sg_builderId := pending\<rparr>" for x by (rule exI) (rule refl)
  show ?thesis
    by (simp add: post_builderid_poll_def guarded_step_def Let_def split_beta reject_def split: option.split)
      (simp only: same changed simp_thms)
qed

text \<open>A refused login request changes nothing: whichever add-account endpoint answers an error,
  accounts, secrets, open logins, e-mail numbers and the generator are as before. The only exception is
  the poll of a Builder ID login that the provider expired, which closes that login and adds nothing.\<close>

theorem refused_logins_inert:
  shows "(case fst (post_iam_start token drawn body st) of Inl _ \<Rightarrow> snd (post_iam_start token drawn body st) = st | Inr _ \<Rightarrow> True) \<and>
    (case fst (post_iam_complete phrase token now body st) of Inl _ \<Rightarrow> snd (post_iam_complete phrase token now body st) = st | Inr _ \<Rightarrow> True) \<and>
    (case fst (post_microsoft_complete token drawn now body st) of
        Inl _ \<Rightarrow> snd (post_microsoft_complete token drawn now body st) = st | Inr _ \<Rightarrow> True) \<and>
    (case fst (post_select_profile token now body st) of Inl _ \<Rightarrow> snd (post_select_profile token now body st) = st | Inr _ \<Rightarrow> True) \<and>
    (case fst (post_builderid_start token drawn body st) of Inl _ \<Rightarrow> snd (post_builderid_start token drawn body st) = st | Inr _ \<Rightarrow> True) \<and>
    (case fst (post_builderid_poll token now body st) of
        Inl _ \<Rightarrow> (\<exists>pending. snd (post_builderid_poll token now body st) = st\<lparr>sg_builderId := pending\<rparr>) | Inr _ \<Rightarrow> True) \<and>
    (case fst (post_sso_token phrase token now body st) of Inl _ \<Rightarrow> snd (post_sso_token phrase token now body st) = st | Inr _ \<Rightarrow> True) \<and>
    (case fst (post_credentials token now request st) of Inl _ \<Rightarrow> snd (post_credentials token now request st) = st | Inr _ \<Rightarrow> True)"
proof -
  have "refused_inert st (post_iam_start token drawn body st)"
    unfolding post_iam_start_def by (rule refused_inert_guarded) (simp add: Let_def split: option.split)
  moreover have "refused_inert st (post_iam_complete phrase token now body st)"
    unfolding post_iam_complete_def by (rule refused_inert_guarded) (simp add: Let_def split: option.split)
  moreover have "refused_inert st (post_microsoft_complete token drawn now body st)"
    unfolding post_microsoft_complete_def
    by (rule refused_inert_guarded)
      (simp add: Let_def refused_inert_second_leg split: option.split microsoft_pending.split microsoft_leg.split)
  moreover have "refused_inert st (post_select_profile token now body st)"
    unfolding post_select_profile_def
    by (rule refused_inert_guarded) (simp add: Let_def split: option.split microsoft_pending.split)
  moreover have "refused_inert st (post_builderid_start token drawn body st)"
    unfolding post_builderid_start_def by (rule refused_inert_guarded) (simp add: Let_def split: option.split)
  moreover have "refused_inert st (post_sso_token phrase token now body st)"
    unfolding post_sso_token_def
    by (rule refused_inert_guarded) (simp add: Let_def split_beta refused_inert_def reject_def sso_all_bad split: option.split)
  moreover have "refused_inert st (post_credentials token now request st)"
    unfolding post_credentials_def
    by (rule refused_inert_guarded) (simp add: refused_inert_import split: option.split)
  moreover note refused_poll [of token now body st]
  ultimately show ?thesis by (simp only: refused_inert_def)
qed

end
