(* ===== verification/Import_Flow.thy ===== *)
theory Import_Flow
  imports Mock_Signin
begin

text \<open>
  The add-account dialog and its endpoints together: what the parsers of the dialog build
  (\<open>Credentials\<close>) against what the handlers do with it (\<open>Mock_Signin\<close>), an exported account
  (\<open>Mock_Accounts\<close>) read back, and the whole of a bulk import and of a Builder ID login. The
  definitions here are only the JSON of an export and samples.
\<close>

subsection \<open>Client and server read credentials alike\<close>

lemma mapped_api_key:
  "api_key_of item \<noteq> [] \<Longrightarrow> mapCredential item =
    MappedRequest (no_payload\<lparr>cir_kiroApiKey := Some (api_key_of item), cir_authMethod := Some ''api_key'',
      cir_region := Some (item_text item ''region'')\<rparr>)"
  by (simp add: mapCredential_def Let_def)

lemma apiKeyPath_key: "or_empty (cir_kiroApiKey p) \<noteq> [] \<Longrightarrow> apiKeyPath p"
  by (simp add: apiKeyPath_def Let_def)

lemma apiKeyPath_refresh: "or_empty (cir_kiroApiKey p) = [] \<Longrightarrow> or_empty (cir_refreshToken p) \<noteq> [] \<Longrightarrow> \<not> apiKeyPath p"
  by (simp add: apiKeyPath_def Let_def)

lemma lower_simps:
  "lower_char (CHR ''a'') = CHR ''a''" "lower_char (CHR ''c'') = CHR ''c''" "lower_char (CHR ''d'') = CHR ''d''"
  "lower_char (CHR ''e'') = CHR ''e''" "lower_char (CHR ''i'') = CHR ''i''" "lower_char (CHR ''l'') = CHR ''l''"
  "lower_char (CHR ''n'') = CHR ''n''" "lower_char (CHR ''o'') = CHR ''o''" "lower_char (CHR ''p'') = CHR ''p''"
  "lower_char (CHR ''r'') = CHR ''r''" "lower_char (CHR ''s'') = CHR ''s''" "lower_char (CHR ''t'') = CHR ''t''"
  "lower_char (CHR ''x'') = CHR ''x''" "lower_char (CHR ''_'') = CHR ''_''" "lower_char (CHR ''y'') = CHR ''y''"
  "lower_char (CHR ''k'') = CHR ''k''"
  by code_simp+

text \<open>The two ways an item without a key is mapped.\<close>

lemma mapped_microsoft:
  assumes "api_key_of item = []" "item_text item ''refreshToken'' \<noteq> []" "isMicrosoftCredential item"
  shows "\<exists>p. mapCredential item = MappedRequest p \<and> \<not> apiKeyPath p \<and> server_method p = ''external_idp'' \<and>
    cir_authMethod p = Some ''external_idp'' \<and> cir_refreshToken p = Some (item_text item ''refreshToken'') \<and>
    cir_region p = Some (item_text item ''region'')"
  using assms by (simp add: mapCredential_def Let_def no_payload_def or_empty_def server_method_def apiKeyPath_refresh lower_simps)

lemma mapped_social:
  assumes "api_key_of item = []" "item_text item ''refreshToken'' \<noteq> []" "\<not> isMicrosoftCredential item"
  shows "\<exists>p. mapCredential item = MappedRequest p \<and> \<not> apiKeyPath p \<and> server_method p = social_method item \<and>
    cir_authMethod p = Some (social_method item) \<and> cir_refreshToken p = Some (item_text item ''refreshToken'') \<and>
    cir_region p = Some (or_text (item_text item ''region'') DEFAULT_REGION)"
  using assms
  by (simp add: mapCredential_def Let_def no_payload_def or_empty_def or_text_def server_method_def apiKeyPath_refresh
      social_method_def lower_simps)

lemma client_server_agree_lemma:
  assumes "mapCredential item = MappedRequest p"
  shows "apiKeyPath p \<longleftrightarrow> api_key_of item \<noteq> []"
    and "cir_authMethod p = Some (if apiKeyPath p then ''api_key'' else server_method p)"
proof -
  consider (key) "api_key_of item \<noteq> []" | (none) "api_key_of item = []" "item_text item ''refreshToken'' = []"
    | (ms) "api_key_of item = []" "item_text item ''refreshToken'' \<noteq> []" "isMicrosoftCredential item"
    | (so) "api_key_of item = []" "item_text item ''refreshToken'' \<noteq> []" "\<not> isMicrosoftCredential item" by blast
  then have "(apiKeyPath p \<longleftrightarrow> api_key_of item \<noteq> []) \<and>
    cir_authMethod p = Some (if apiKeyPath p then ''api_key'' else server_method p)"
  proof cases
    case key
    then have "p = no_payload\<lparr>cir_kiroApiKey := Some (api_key_of item), cir_authMethod := Some ''api_key'',
      cir_region := Some (item_text item ''region'')\<rparr>" using assms mapped_api_key by simp
    with key show ?thesis by (simp add: apiKeyPath_def or_empty_def)
  next
    case none
    then show ?thesis using assms by (simp add: mapCredential_def Let_def)
  next
    case ms
    then show ?thesis using assms mapped_microsoft [OF ms] by auto
  next
    case so
    then show ?thesis using assms mapped_social [OF so] by auto
  qed
  then show "apiKeyPath p \<longleftrightarrow> api_key_of item \<noteq> []"
    and "cir_authMethod p = Some (if apiKeyPath p then ''api_key'' else server_method p)" by blast+
qed

text \<open>What an accepted import leaves: the new account is the last one, under the id answered, with the
  method of its path and its secrets filed under that id.\<close>

definition imported :: "signin \<Rightarrow> added_account_ref \<Rightarrow> string \<Rightarrow> (account_full \<Rightarrow> bool) \<Rightarrow> bool" where
  "imported st' ref authMethod secret \<longleftrightarrow> db_accounts (sg_db st') \<noteq> [] \<and>
     (let a = last (db_accounts (sg_db st'))
      in acc_id a = ref_id ref \<and> acc_authMethod a = authMethod \<and>
         (\<exists>f. map_of (db_secrets (sg_db st')) (ref_id ref) = Some f \<and> secret f))"

lemma addAccount_imported:
  assumes "acc_authMethod (new_account now ov st) = m" "secret (sec (makeAccountFull (new_account now ov st)))"
  shows "imported (snd (addAccount now ov sec st)) (fst (addAccount now ov sec st)) m secret"
  using assms by (simp add: imported_def addAccount_state AList.update_conv' Let_def)
    (simp add: addAccount_def new_account_def split_beta Let_def)

lemma importRefreshToken_imported:
  assumes "fst (importRefreshToken now p st) = Inr ref"
  shows "imported (snd (importRefreshToken now p st)) ref (server_method p)
    (\<lambda>f. full_refreshToken f = trim (or_empty (cir_refreshToken p)))"
proof -
  have "trim (or_empty (cir_refreshToken p)) \<noteq> []" using assms by (auto simp: importRefreshToken_def)
  moreover obtain region where "normalizeRegion (cir_region p) = Some region"
    using assms by (auto simp: importRefreshToken_def Let_def split: if_splits option.splits)
  ultimately show ?thesis using assms
    by (auto simp: importRefreshToken_def Let_def intro!: addAccount_imported simp: new_account_def in_region_def)
qed

lemma importApiKey_imported:
  assumes "fst (importApiKey now p st) = Inr ref"
  shows "imported (snd (importApiKey now p st)) ref ''api_key'' (\<lambda>f. full_kiroApiKey f =
    hd (map trim (split_char (CHR ''|'') (trim (or_text (or_empty (cir_kiroApiKey p)) (or_empty (cir_accessToken p)))))))"
  using assms unfolding importApiKey_def Let_def
  by (auto intro!: addAccount_imported simp: new_account_def in_region_def split: if_splits option.splits)

lemma client_server_agree_lemma2:
  assumes "mapCredential item = MappedRequest p" "fst (post_credentials token now (Some p) st) = Inr ref"
  shows "imported (snd (post_credentials token now (Some p) st)) ref (the (cir_authMethod p)) (\<lambda>f.
    if api_key_of item \<noteq> [] then full_kiroApiKey f = hd (map trim (split_char (CHR ''|'') (trim (api_key_of item))))
    else full_refreshToken f = trim (item_text item ''refreshToken''))"
proof -
  note m = client_server_agree_lemma [OF assms(1)]
  have token: "requireAuth token = None"
    using assms(2) by (auto simp: post_credentials_def guarded_step_def split: option.splits)
  show ?thesis
  proof (cases "api_key_of item \<noteq> []")
    case True
    then have "or_empty (cir_kiroApiKey p) = api_key_of item"
      using mapped_api_key [OF True] assms(1) by (auto simp: or_empty_def)
    moreover have "or_text (api_key_of item) x = api_key_of item" for x using True by (simp add: or_text_def)
    ultimately show ?thesis using importApiKey_imported [of now p st ref] assms(2) m token True
      by (simp add: post_credentials_def guarded_step_def requireAuth_def)
  next
    case False
    then have "or_empty (cir_refreshToken p) = item_text item ''refreshToken''"
      using assms(1) mapped_microsoft [of item] mapped_social [of item]
      by (cases "isMicrosoftCredential item") (auto simp: or_empty_def mapCredential_def Let_def split: if_splits)
    then show ?thesis using importRefreshToken_imported [of now p st ref] assms(2) m token False
      by (simp add: post_credentials_def guarded_step_def requireAuth_def)
  qed
qed

text \<open>C11: Client and server read credentials alike: when the dialog maps a pasted item to a request and
  the server accepts it, the account appended last has the sign-in method the dialog chose, the answered
  id, and files the very secret of the item: the API key before its \<open>|region\<close> suffix when the dialog
  found one, else the refresh token, both trimmed.\<close>

theorem client_server_agree:
  assumes "mapCredential item = MappedRequest p"
    and "fst (post_credentials token now (Some p) st) = Inr ref"
  defines "db' \<equiv> sg_db (snd (post_credentials token now (Some p) st))"
  shows "cir_authMethod p = Some (acc_authMethod (last (db_accounts db'))) \<and> acc_id (last (db_accounts db')) = ref_id ref \<and>
    (\<exists>f. map_of (db_secrets db') (ref_id ref) = Some f \<and>
      (if api_key_of item \<noteq> [] then full_kiroApiKey f = hd (map trim (split_char (CHR ''|'') (trim (api_key_of item))))
       else full_refreshToken f = trim (item_text item ''refreshToken'')))"
  using client_server_agree_lemma2 [OF assms(1,2)] client_server_agree_lemma(2) [OF assms(1)]
  by (auto simp: imported_def db'_def Let_def)

definition sample_item :: source where
  "sample_item = [(''refreshToken'', JStr ''r1''), (''provider'', JStr ''Github'')]"

definition sample_refresh_request :: credentials_import_request where
  "sample_refresh_request = no_payload\<lparr>cir_refreshToken := Some ''r1'', cir_accessToken := Some [], cir_clientId := Some [],
     cir_clientSecret := Some [], cir_authMethod := Some ''social'', cir_provider := Some ''Github'',
     cir_region := Some ''us-east-1''\<rparr>"

theorem client_server_agree_witness:
  "\<exists>ref f. fst (post_credentials ''mock-t'' 9 (Some sample_refresh_request) sample_signin) = Inr ref \<and>
     map_of (db_secrets (sg_db (snd (post_credentials ''mock-t'' 9 (Some sample_refresh_request) sample_signin)))) (ref_id ref) = Some f \<and>
     full_refreshToken f = ''r1''"
proof -
  have parts: "trim ''r1'' = ''r1''" "normalizeRegion (Some ''us-east-1'') = Some ''us-east-1''" "\<not> apiKeyPath sample_refresh_request"
    "api_key_of sample_item = []" "item_text sample_item ''refreshToken'' = ''r1''" by code_simp+
  have m: "mapCredential sample_item = MappedRequest sample_refresh_request" by code_simp
  have "\<exists>ref. fst (importRefreshToken 9 sample_refresh_request sample_signin) = Inr ref"
    using parts(1,2) by (simp add: importRefreshToken_def sample_refresh_request_def or_empty_def Let_def)
  then obtain ref where r: "fst (post_credentials ''mock-t'' 9 (Some sample_refresh_request) sample_signin) = Inr ref"
    using parts(3) by (auto simp: post_credentials_def guarded_step_def requireAuth_def startsWith_def)
  from client_server_agree [OF m r] r parts show ?thesis by auto
qed

subsection \<open>An exported account read back\<close>

definition given_field :: "string \<Rightarrow> string option \<Rightarrow> (string \<times> json) list" where
  "given_field k v = (case v of None \<Rightarrow> [] | Some s \<Rightarrow> [(k, JStr s)])"

definition credentials_json :: "export_credentials \<Rightarrow> json" where
  "credentials_json c = JObj ([(''accessToken'', JStr (exc_accessToken c)), (''csrfToken'', JStr (exc_csrfToken c)),
     (''refreshToken'', JStr (exc_refreshToken c))] @ given_field ''kiroApiKey'' (exc_kiroApiKey c) @
     given_field ''clientId'' (exc_clientId c) @ given_field ''clientSecret'' (exc_clientSecret c) @
     given_field ''region'' (exc_region c) @ [(''expiresAt'', JNum (Fin (of_int (exc_expiresAt c))))] @
     given_field ''authMethod'' (exc_authMethod c) @ given_field ''provider'' (exc_provider c) @
     given_field ''tokenEndpoint'' (exc_tokenEndpoint c) @ given_field ''issuerUrl'' (exc_issuerUrl c) @
     given_field ''scopes'' (exc_scopes c))"

definition json_int :: "int \<Rightarrow> json" where
  "json_int n = JNum (Fin (of_int n))"

definition subscription_json :: "string \<times> string option \<Rightarrow> json" where
  "subscription_json x = JObj ([(''type'', JStr (fst x))] @ given_field ''title'' (snd x))"

definition usage_json :: "rat \<times> rat \<times> rat \<times> int \<Rightarrow> json" where
  "usage_json x = (case x of (current, limit, percent, updated) \<Rightarrow>
     JObj [(''current'', JNum (Fin current)), (''limit'', JNum (Fin limit)), (''percentUsed'', JNum (Fin percent)),
           (''lastUpdated'', json_int updated)])"

definition account_json :: "export_account \<Rightarrow> json" where
  "account_json e = JObj ([(''id'', JStr (exa_id e)), (''email'', JStr (exa_email e))] @
     given_field ''nickname'' (exa_nickname e) @ [(''idp'', JStr (exa_idp e))] @
     given_field ''userId'' (exa_userId e) @ given_field ''profileArn'' (exa_profileArn e) @
     given_field ''machineId'' (exa_machineId e) @ [(''credentials'', credentials_json (exa_credentials e)),
     (''subscription'', subscription_json (exa_subscription e)), (''usage'', usage_json (exa_usage e)),
     (''tags'', JArr []), (''status'', JStr ''active''), (''createdAt'', json_int (exa_createdAt e)),
     (''lastUsedAt'', json_int (exa_lastUsedAt e))])"

definition export_json :: "export_data \<Rightarrow> json" where
  "export_json d = JObj [(''version'', JStr (exd_version d)), (''exportedAt'', json_int (exd_exportedAt d)),
     (''accounts'', JArr (map account_json (exd_accounts d))), (''groups'', JArr []), (''tags'', JArr [])]"

lemma own_given_field [simp]:
  "own (given_field k v @ fs) j = (if j = k \<and> v \<noteq> None then JStr (the v) else own fs j)"
  "own (given_field k v) j = (if j = k \<and> v \<noteq> None then JStr (the v) else JUndef)"
  by (auto simp: given_field_def own_def split: option.split)

lemma item_text_Cons: "item_text [] j = []" "item_text ((k, v) # fs) j = (if k = j then textField v else item_text fs j)"
  by (simp_all add: item_text_def)

lemma item_text_given:
  "item_text (given_field k v @ fs) j = (if k = j \<and> v \<noteq> None then or_empty v else item_text fs j)"
  "item_text (given_field k v) j = (if k = j then or_empty v else [])"
  by (auto simp: given_field_def item_text_def or_empty_def split: option.split)

lemma or_text_Nil [simp]: "or_text s [] = s" "or_text [] s = s" by (simp_all add: or_text_def)

text \<open>What the parser reads out of an exported account: each field of the parsed item, the fields of the
  two objects of the export, and both together.\<close>

lemma fromAccountManager_reads:
  fixes entry :: json
  defines "account \<equiv> record_or_empty entry" and "credentials \<equiv> record_or_empty (own (record_or_empty entry) ''credentials'')"
  shows "k \<in> {''refreshToken'', ''accessToken'', ''kiroApiKey'', ''clientId'', ''clientSecret'', ''region'', ''authMethod''} \<Longrightarrow>
      item_text (fromAccountManager entry) k = or_text (item_text credentials k) (item_text account k)"
    and "item_text (fromAccountManager entry) ''provider'' =
      or_text (or_text (item_text credentials ''provider'') (item_text account ''provider'')) (item_text account ''idp'')"
    and "item_text (fromAccountManager entry) ''tokenEndpoint'' = item_text credentials ''tokenEndpoint''"
    and "item_text (fromAccountManager entry) ''issuerUrl'' = item_text credentials ''issuerUrl''"
  unfolding account_def credentials_def fromAccountManager_def Let_def
  by ((elim insertE emptyE; simp add: item_text_Cons), simp_all add: item_text_Cons)

lemma credentials_reads:
  fixes c :: export_credentials
  defines "fs \<equiv> record_or_empty (credentials_json c)"
  shows "item_text fs ''refreshToken'' = exc_refreshToken c" "item_text fs ''accessToken'' = exc_accessToken c"
    "item_text fs ''kiroApiKey'' = or_empty (exc_kiroApiKey c)" "item_text fs ''clientId'' = or_empty (exc_clientId c)"
    "item_text fs ''clientSecret'' = or_empty (exc_clientSecret c)" "item_text fs ''region'' = or_empty (exc_region c)"
    "item_text fs ''authMethod'' = or_empty (exc_authMethod c)" "item_text fs ''provider'' = or_empty (exc_provider c)"
    "item_text fs ''tokenEndpoint'' = or_empty (exc_tokenEndpoint c)" "item_text fs ''issuerUrl'' = or_empty (exc_issuerUrl c)"
  unfolding fs_def credentials_json_def record_or_empty_def
  by (simp_all add: item_text_Cons item_text_given) (simp_all add: or_empty_def)

lemma account_reads:
  fixes e :: export_account
  defines "fs \<equiv> record_or_empty (account_json e)"
  shows "own fs ''credentials'' = credentials_json (exa_credentials e)" "item_text fs ''idp'' = exa_idp e"
    and "k \<in> {''refreshToken'', ''accessToken'', ''kiroApiKey'', ''clientId'', ''clientSecret'', ''region'', ''authMethod'',
      ''provider''} \<Longrightarrow> item_text fs k = []"
  unfolding fs_def account_json_def record_or_empty_def
  by (simp, simp add: item_text_Cons item_text_given, (elim insertE emptyE; simp add: item_text_Cons item_text_given))

lemma or_empty_simps [simp]: "or_empty (Some s) = s" "or_empty None = []" "or_empty (given_or_none s) = s"
  by (simp_all add: or_empty_def given_or_none_def)

lemma read_export:
  fixes nowMs :: int and a :: account
  defines "item \<equiv> fromAccountManager (account_json (export_of nowMs a))" and "full \<equiv> makeAccountFull a"
  shows "item_text item ''refreshToken'' = full_refreshToken full" "item_text item ''accessToken'' = full_accessToken full"
    "item_text item ''kiroApiKey'' = full_kiroApiKey full" "item_text item ''clientId'' = full_clientId full"
    "item_text item ''clientSecret'' = full_clientSecret full" "item_text item ''region'' = acc_region a"
    "item_text item ''authMethod'' = (if acc_authMethod a = ''idc'' then ''IdC'' else acc_authMethod a)"
    "item_text item ''provider'' = or_text (acc_provider a) (or_text (acc_provider a) (acc_authMethod a))"
    "item_text item ''tokenEndpoint'' = full_tokenEndpoint full" "item_text item ''issuerUrl'' = full_issuerUrl full"
  unfolding item_def full_def
  by (simp_all add: fromAccountManager_reads account_reads credentials_reads)
    (simp_all add: export_of_def Let_def)

lemma base64ish_length [simp]: "fst (base64ish rng n) = [] \<longleftrightarrow> n = 0"
  using draw_text_spec [of BASE64_ALPHABET rng n] unfolding base64ish_def by (metis length_0_conv)

lemma full_of_key_account:
  "mock_isApiKey a \<Longrightarrow> full_kiroApiKey (makeAccountFull a) \<noteq> []"
  by (simp add: makeAccountFull_def full_of_fields Let_def split_beta)

lemma full_of_token_account:
  assumes "\<not> mock_isApiKey a" "acc_hasToken a"
  shows "full_refreshToken (makeAccountFull a) \<noteq> []"
    and "full_kiroApiKey (makeAccountFull a) = []"
    and "acc_authMethod a = ''idc'' \<Longrightarrow> full_clientId (makeAccountFull a) \<noteq> [] \<and> full_clientSecret (makeAccountFull a) \<noteq> []"
    and "acc_authMethod a = ''social'' \<Longrightarrow> full_clientId (makeAccountFull a) = []"
    and "acc_authMethod a \<noteq> ''external_idp'' \<Longrightarrow>
      full_tokenEndpoint (makeAccountFull a) = [] \<and> full_issuerUrl (makeAccountFull a) = []"
  using assms by (simp_all add: makeAccountFull_def full_of_fields Let_def split_beta)

text \<open>An account as the store keeps them, whose method, provider and region the parsers and the import know.\<close>

definition portable :: "account \<Rightarrow> bool" where
  "portable a \<longleftrightarrow> acc_authMethod a \<in> {''api_key'', ''apikey'', ''social'', ''idc'', ''external_idp''} \<and>
     (acc_hasToken a \<or> mock_isApiKey a) \<and>
     (acc_authMethod a = ''external_idp'' \<or> toLowerCase (acc_provider a) \<notin> set MICROSOFT_ALIASES) \<and>
     (case normalizeRegion (Some (acc_region a)) of None \<Rightarrow> False | Some r \<Rightarrow> \<not> mock_isApiKey a \<or> r \<in> set API_KEY_REGIONS)"

definition carries :: "account \<Rightarrow> credentials_import_request \<Rightarrow> bool" where
  "carries a p \<longleftrightarrow> normalizeRegion (cir_region p) = normalizeRegion (Some (acc_region a)) \<and>
     (if mock_isApiKey a then apiKeyPath p \<and> cir_kiroApiKey p = Some (full_kiroApiKey (makeAccountFull a))
      else \<not> apiKeyPath p \<and> cir_refreshToken p = Some (full_refreshToken (makeAccountFull a)) \<and>
        server_method p = acc_authMethod a)"

lemma region_default: "normalizeRegion (Some (or_text r DEFAULT_REGION)) = normalizeRegion (Some r)"
proof (cases "r = []")
  case True
  have "normalizeRegion (Some DEFAULT_REGION) = normalizeRegion (Some [])" by code_simp
  with True show ?thesis by simp
qed (simp add: or_text_def)

lemma carries_export:
  fixes nowMs :: int
  assumes "portable a"
  shows "\<exists>p. mapCredential (fromAccountManager (account_json (export_of nowMs a))) = MappedRequest p \<and> carries a p"
proof -
  let ?item = "fromAccountManager (account_json (export_of nowMs a))" and ?full = "makeAccountFull a"
  note r = read_export [of nowMs a]
  show ?thesis
  proof (cases "mock_isApiKey a")
    case True
    then have k: "api_key_of ?item = full_kiroApiKey ?full" "full_kiroApiKey ?full \<noteq> []"
      by (simp_all add: api_key_of_def Let_def r full_of_key_account or_text_def)
    then show ?thesis using True mapped_api_key [of ?item]
      by (simp add: carries_def apiKeyPath_key or_empty_def r)
  next
    case False
    with assms have t: "acc_hasToken a" by (simp add: portable_def)
    note f = full_of_token_account [OF False t]
    have m: "acc_authMethod a \<in> {''social'', ''idc'', ''external_idp''}"
      using assms False by (auto simp: portable_def mock_isApiKey_def)
    have key: "api_key_of ?item = []" by (simp add: api_key_of_def Let_def r f)
    have refresh: "item_text ?item ''refreshToken'' \<noteq> []" by (simp add: r f)
    have low: "toLowerCase ''IdC'' = ''idc''" by code_simp
    show ?thesis
    proof (cases "acc_authMethod a = ''external_idp''")
      case True
      then have "isMicrosoftCredential ?item"
        by (simp add: isMicrosoftCredential_def r MICROSOFT_ALIASES_def lower_simps)
      from mapped_microsoft [OF key refresh this] True False show ?thesis
        by (auto simp: carries_def r)
    next
      case other: False
      then have "toLowerCase (item_text ?item ''authMethod'') \<notin> set MICROSOFT_ALIASES"
        using m low by (auto simp: r MICROSOFT_ALIASES_def lower_simps)
      moreover have "toLowerCase (item_text ?item ''provider'') \<notin> set MICROSOFT_ALIASES"
        using assms other m by (auto simp: r portable_def or_text_def MICROSOFT_ALIASES_def lower_simps)
      ultimately have "\<not> isMicrosoftCredential ?item"
        using f(5) other by (simp add: isMicrosoftCredential_def r)
      moreover have "social_method ?item = acc_authMethod a"
        using m other f(3,4) by (auto simp: social_method_def r lower_simps)
      ultimately show ?thesis using mapped_social [OF key refresh] False
        by (auto simp: carries_def r region_default)
    qed
  qed
qed

text \<open>What is drawn for a key or a token is of the alphabet of keys, so trimming and splitting leave it alone.\<close>

lemma base64ish_chars: "list_all is_key_char (fst (base64ish rng n))"
proof -
  have "set (fst (base64ish rng n)) \<subseteq> set BASE64_ALPHABET"
    using draw_text_spec [of BASE64_ALPHABET rng n] by (simp add: base64ish_def BASE64_ALPHABET_def)
  moreover have "list_all is_key_char BASE64_ALPHABET" by code_simp
  ultimately show ?thesis by (auto simp: list_all_iff)
qed

lemma code_injective: "code c = code d \<longleftrightarrow> c = d"
  by (simp add: code_def)

lemma key_char_plain: "is_key_char c \<Longrightarrow> \<not> is_space c \<and> c \<noteq> CHR ''|''"
proof -
  assume key: "is_key_char c"
  have "code (CHR ''_'') = 95" "code (CHR ''.'') = 46" "code (CHR ''-'') = 45" "code (CHR ''|'') = 124" by code_simp+
  with key show ?thesis
    by (auto simp: is_key_char_def is_digit_def is_lower_az_def is_upper_az_def is_space_def simp flip: code_injective)
qed

lemma key_text_plain:
  assumes "list_all is_key_char s"
  shows "trim s = s" "split_char (CHR ''|'') s = [s]"
proof -
  have plain: "\<not> is_space c" "c \<noteq> CHR ''|''" if "c \<in> set s" for c
    using assms key_char_plain that by (auto simp: list_all_iff)
  show "trim s = s" using plain(1) by (intro trim_fix) (auto dest: hd_in_set last_in_set)
  have "CHR ''|'' \<notin> set s" using plain(2) by blast
  then show "split_char (CHR ''|'') s = [s]" by (induction s) auto
qed

lemma drawn_secrets:
  "list_all is_key_char (full_kiroApiKey (makeAccountFull a))" "list_all is_key_char (full_refreshToken (makeAccountFull a))"
proof -
  have "list_all is_key_char ''ksk_''" "list_all is_key_char ''aorAAAAAG''" by code_simp+
  then show "list_all is_key_char (full_kiroApiKey (makeAccountFull a))" "list_all is_key_char (full_refreshToken (makeAccountFull a))"
    using base64ish_chars by (simp_all add: makeAccountFull_def full_of_fields Let_def split_beta)
qed

lemma region_given: "normalizeRegion (Some (or_text (or_empty x) [])) = normalizeRegion x"
  by (simp add: normalizeRegion_def or_text_def or_empty_def)

text \<open>The server takes what was exported, unless it is a key it already holds.\<close>

lemma exported_accepted:
  assumes "portable a" "carries a p" "requireAuth token = None"
  shows "(\<exists>ref. fst (post_credentials token now (Some p) st) = Inr ref) \<longleftrightarrow>
    \<not> (mock_isApiKey a \<and> list_ex (\<lambda>s. full_kiroApiKey (snd s) = full_kiroApiKey (makeAccountFull a)) (db_secrets (sg_db st)))"
proof -
  obtain r where r: "normalizeRegion (cir_region p) = Some r" "mock_isApiKey a \<Longrightarrow> r \<in> set API_KEY_REGIONS"
    using assms(1,2) by (auto simp: portable_def carries_def split: option.splits)
  let ?full = "makeAccountFull a"
  show ?thesis
  proof (cases "mock_isApiKey a")
    case True
    then have k: "apiKeyPath p" "cir_kiroApiKey p = Some (full_kiroApiKey ?full)" using assms(2) by (simp_all add: carries_def)
    have key: "or_text (full_kiroApiKey ?full) x = full_kiroApiKey ?full" for x
      using full_of_key_account [OF True] by (simp add: or_text_def)
    show ?thesis
      using True k full_of_key_account [OF True] r(2) [OF True] drawn_secrets(1) [of a] key_text_plain [OF drawn_secrets(1) [of a]]
        region_given [of "cir_region p"] r(1)
      unfolding post_credentials_def guarded_step_def assms(3)
      by (simp add: importApiKey_def Let_def key)
  next
    case False
    then have t: "\<not> apiKeyPath p" "cir_refreshToken p = Some (full_refreshToken ?full)" using assms(2) by (simp_all add: carries_def)
    have "full_refreshToken ?full \<noteq> []" using full_of_token_account(1) [OF False] assms(1) False by (simp add: portable_def)
    then show ?thesis
      using False t key_text_plain(1) [OF drawn_secrets(2) [of a]] r(1)
      unfolding post_credentials_def guarded_step_def assms(3)
      by (simp add: importRefreshToken_def Let_def)
  qed
qed

text \<open>C30: An export can be imported again: pasting the JSON that an export of portable accounts writes into
  the credentials field gives one item per account, in order, each mapped to a request that takes the path
  of its account, with its API key or its refresh token, its region, and a sign-in method the server reads
  back as the account's own; and a signed-in server accepts each of these requests in every state, but for
  an API key it already holds.\<close>

theorem export_import_roundtrip:
  assumes "parse (trim pasted) = Some (export_json (makeExport nowMs accounts))" and "list_all portable accounts"
    and "requireAuth token = None"
  shows "\<exists>items ps. parseCredentialsJson parse pasted = Some items \<and> map mapCredential items = map MappedRequest ps \<and>
    list_all2 (\<lambda>a p. normalizeRegion (cir_region p) = normalizeRegion (Some (acc_region a)) \<and>
      (if mock_isApiKey a then apiKeyPath p \<and> cir_kiroApiKey p = Some (full_kiroApiKey (makeAccountFull a))
       else \<not> apiKeyPath p \<and> cir_refreshToken p = Some (full_refreshToken (makeAccountFull a)) \<and>
         server_method p = acc_authMethod a) \<and>
      (\<forall>now st. (\<exists>ref. fst (post_credentials token now (Some p) st) = Inr ref) \<longleftrightarrow>
         \<not> (mock_isApiKey a \<and> list_ex (\<lambda>s. full_kiroApiKey (snd s) = full_kiroApiKey (makeAccountFull a)) (db_secrets (sg_db st)))))
      accounts ps"
proof -
  let ?items = "map (\<lambda>a. fromAccountManager (account_json (export_of nowMs a))) accounts"
  have "\<exists>ps. map mapCredential ?items = map MappedRequest ps \<and> list_all2 (\<lambda>a p. portable a \<and> carries a p) accounts ps"
    using assms(2)
  proof (induction accounts)
    case (Cons a as)
    then obtain ps where "map mapCredential (map (\<lambda>a. fromAccountManager (account_json (export_of nowMs a))) as) = map MappedRequest ps"
      "list_all2 (\<lambda>a p. portable a \<and> carries a p) as ps" by auto
    moreover obtain p where "mapCredential (fromAccountManager (account_json (export_of nowMs a))) = MappedRequest p" "carries a p"
      using carries_export [of a nowMs] Cons.prems by auto
    ultimately show ?case using Cons.prems by (intro exI [of _ "p # ps"]) simp
  qed simp
  then obtain ps where ps: "map mapCredential ?items = map MappedRequest ps" "list_all2 (\<lambda>a p. portable a \<and> carries a p) accounts ps" by blast
  have "parseCredentialsJson parse pasted = Some ?items"
    using assms(1) by (simp add: parseCredentialsJson_def export_json_def makeExport_def comp_def)
  moreover have "list_all2 (\<lambda>a p. carries a p \<and> (\<forall>now st. (\<exists>ref. fst (post_credentials token now (Some p) st) = Inr ref) \<longleftrightarrow>
      \<not> (mock_isApiKey a \<and> list_ex (\<lambda>s. full_kiroApiKey (snd s) = full_kiroApiKey (makeAccountFull a)) (db_secrets (sg_db st)))))
      accounts ps"
    using ps(2) by (rule list_all2_mono) (use exported_accepted [OF _ _ assms(3)] in blast)
  ultimately show ?thesis using ps(1) unfolding carries_def by (intro exI [of _ ?items] exI [of _ ps]) (simp add: conj_assoc)
qed

theorem export_import_roundtrip_witness:
  "\<exists>items p ref. parseCredentialsJson (\<lambda>_. Some (export_json (makeExport 5 [sample_account]))) ''text'' = Some items \<and>
     map mapCredential items = [MappedRequest p] \<and> fst (post_credentials ''mock-t'' 9 (Some p) sample_signin) = Inr ref"
proof -
  have ok: "list_all portable [sample_account]" and token: "requireAuth ''mock-t'' = None" by code_simp+
  have plain: "\<not> mock_isApiKey sample_account" by code_simp
  from export_import_roundtrip [where parse = "\<lambda>_. Some (export_json (makeExport 5 [sample_account]))" and
      pasted = "''text''", OF refl ok token]
  obtain items ps where items: "parseCredentialsJson (\<lambda>_. Some (export_json (makeExport 5 [sample_account]))) ''text'' = Some items"
    and maps: "map mapCredential items = map MappedRequest ps"
    and two: "list_all2 (\<lambda>a p. \<forall>now st. (\<exists>ref. fst (post_credentials ''mock-t'' now (Some p) st) = Inr ref) \<longleftrightarrow>
      \<not> (mock_isApiKey a \<and> list_ex (\<lambda>s. full_kiroApiKey (snd s) = full_kiroApiKey (makeAccountFull a)) (db_secrets (sg_db st))))
      [sample_account] ps"
    by (blast intro: list_all2_mono)
  from two obtain p where "ps = [p]" "\<exists>ref. fst (post_credentials ''mock-t'' 9 (Some p) sample_signin) = Inr ref"
    using plain by (auto simp: list_all2_Cons1)
  with items maps show ?thesis by auto
qed

subsection \<open>Bulk tokens\<close>

text \<open>The numbers, from one, of the lines that read \<open>bad\<close>.\<close>

definition bad_lines :: "nat \<Rightarrow> string list \<Rightarrow> nat list" where
  "bad_lines n lines = map fst (filter (\<lambda>p. snd p = ''bad'') (zip [n + 1 ..< n + 1 + length lines] lines))"

lemma bad_lines_Cons: "bad_lines n (l # ls) = (if l = ''bad'' then [n + 1] else []) @ bad_lines (n + 1) ls"
  by (simp add: bad_lines_def upt_conv_Cons del: upt_Suc)

lemma sso_lines_exact:
  fixes phrase :: "string \<Rightarrow> string" and now :: int and region :: string
  defines "run \<equiv> \<lambda>n ls st. sso_lines phrase now region n ls st"
  shows "map ref_id (fst (run n ls st)) = map acc_id (drop (length (db_accounts (sg_db st))) (db_accounts (sg_db (snd (snd (run n ls st)))))) \<and>
    take (length (db_accounts (sg_db st))) (db_accounts (sg_db (snd (snd (run n ls st))))) = db_accounts (sg_db st) \<and>
    length (fst (run n ls st)) = length (filter (\<lambda>l. l \<noteq> ''bad'') ls) \<and>
    fst (snd (run n ls st)) = map (\<lambda>i. ''token '' @ string_of_nat i @ '': token '' @ phrase ''check failed'' @ '': 401 Unauthorized'') (bad_lines n ls)"
proof (induction ls arbitrary: n st)
  case Nil
  then show ?case by (simp add: run_def bad_lines_def)
next
  case (Cons l ls)
  show ?case
  proof (cases "l = ''bad''")
    case True
    then show ?thesis using Cons [of "n + 1" st] by (simp add: run_def split_beta Let_def bad_lines_Cons)
  next
    case False
    let ?ov = "\<lambda>a. in_region region (a\<lparr>acc_email := [], acc_authMethod := ''idc'', acc_provider := []\<rparr>)"
    let ?st = "snd (addAccount now ?ov id st)" and ?n = "length (db_accounts (sg_db st))"
    let ?rows = "db_accounts (sg_db (snd (snd (run (n + 1) ls ?st))))"
    note IH = Cons [of "n + 1" ?st]
    have len: "length (db_accounts (sg_db ?st)) = Suc ?n" by simp
    have rows: "take (Suc ?n) ?rows = db_accounts (sg_db st) @ [new_account now ?ov st]" using IH len by simp
    then have "length (take (Suc ?n) ?rows) = Suc ?n" by simp
    then have longer: "?n < length ?rows" by simp
    have "take ?n ?rows = take ?n (take (Suc ?n) ?rows)" by (simp add: min_def)
    also have "\<dots> = db_accounts (sg_db st)" by (simp only: rows) simp
    finally have before: "take ?n ?rows = db_accounts (sg_db st)" .
    have "?rows ! ?n = take (Suc ?n) ?rows ! ?n" by simp
    also have "\<dots> = new_account now ?ov st" by (simp only: rows) simp
    finally have d: "drop ?n ?rows = new_account now ?ov st # drop (Suc ?n) ?rows"
      using longer by (simp add: Cons_nth_drop_Suc [symmetric])
    have r: "ref_id (fst (addAccount now ?ov id st)) = acc_id (new_account now ?ov st)"
      by (simp add: addAccount_def new_account_def split_beta Let_def)
    have step: "run n (l # ls) st = (fst (addAccount now ?ov id st) # fst (run (n + 1) ls ?st), snd (run (n + 1) ls ?st))"
      using False by (simp add: run_def split_beta Let_def)
    show ?thesis unfolding step fst_conv snd_conv
    proof (intro conjI)
      show "map ref_id (fst (addAccount now ?ov id st) # fst (run (n + 1) ls ?st)) = map acc_id (drop ?n ?rows)"
        unfolding d using IH len r by simp
      show "take ?n ?rows = db_accounts (sg_db st)" by (rule before)
      show "length (fst (addAccount now ?ov id st) # fst (run (n + 1) ls ?st)) = length (filter (\<lambda>l. l \<noteq> ''bad'') (l # ls))"
        using IH False by simp
      show "fst (snd (run (n + 1) ls ?st)) = map (\<lambda>i. ''token '' @ string_of_nat i @ '': token '' @ phrase ''check failed'' @
        '': 401 Unauthorized'') (bad_lines n (l # ls))"
        using IH False by (simp add: bad_lines_Cons)
    qed
  qed
qed

text \<open>A bulk import is exact: an accepted request adds one account per line that is not \<open>bad\<close> (blank
  lines do not count), after the accounts already there and in the order of the lines; the answered
  references are those accounts; and the errors name exactly the bad lines by their number. The request
  fails as a whole only when every line was bad.\<close>

theorem bulk_tokens_exact:
  fixes pasted :: string
  defines "lines \<equiv> filter (\<lambda>l. l \<noteq> []) (map trim (split_char (CHR 0x0A) pasted))"
  assumes "fst (post_sso_token phrase token now (Some (JObj [(''bearerToken'', JStr pasted), (''region'', JStr region)])) st) = Inr (refs, errors)"
  defines "db' \<equiv> sg_db (snd (post_sso_token phrase token now (Some (JObj [(''bearerToken'', JStr pasted), (''region'', JStr region)])) st))"
  shows "\<exists>added. db_accounts db' = db_accounts (sg_db st) @ added \<and>
    length added = length (filter (\<lambda>l. l \<noteq> ''bad'') lines) \<and>
    (case refs of None \<Rightarrow> added = [] | Some rs \<Rightarrow> map ref_id rs = map acc_id added) \<and>
    (case errors of None \<Rightarrow> ''bad'' \<notin> set lines
     | Some es \<Rightarrow> es = map (\<lambda>i. ''token '' @ string_of_nat i @ '': token '' @ phrase ''check failed'' @ '': 401 Unauthorized'')
         (bad_lines 0 lines)) \<and>
    (filter (\<lambda>l. l \<noteq> ''bad'') lines = [] \<longrightarrow> ''bad'' \<notin> set lines)"
proof -
  let ?n = "length (db_accounts (sg_db st))"
  have token: "requireAuth token = None" and "trim pasted \<noteq> []"
    using assms(2) by (auto simp: post_sso_token_def guarded_step_def reject_def read_object_def field_string_def Let_def split: option.splits if_splits)
  have some: "read_object (Some (JObj fs)) = Some fs" for fs by (simp add: read_object_def)
  have field: "field_string [(''bearerToken'', JStr pasted), (''region'', JStr region)] ''bearerToken'' = pasted"
    by (simp add: field_string_def)
  obtain r where r: "normalizeRegion (Some region) = Some r"
    using assms(2) token \<open>trim pasted \<noteq> []\<close>
    by (auto simp: post_sso_token_def guarded_step_def reject_def some field Let_def requireAuth_def split: option.splits)
  define run where "run = sso_lines phrase now r 0 lines st"
  have out: "post_sso_token phrase token now (Some (JObj [(''bearerToken'', JStr pasted), (''region'', JStr region)])) st =
    (if fst run = [] \<and> fst (snd run) \<noteq> [] then (Inl (jsonError 500 (join ''; '' (fst (snd run))) None), snd (snd run))
     else (Inr (some_list (fst run), some_list (fst (snd run))), snd (snd run)))"
    using token \<open>trim pasted \<noteq> []\<close> r
    by (simp add: post_sso_token_def guarded_step_def some field Let_def run_def lines_def split_beta requireAuth_def)
  note exact = sso_lines_exact [of phrase now r 0 lines st, folded run_def]
  have bad: "bad_lines 0 ls = [] \<longleftrightarrow> ''bad'' \<notin> set ls" for ls :: "string list"
  proof -
    have "bad_lines n ls = [] \<longleftrightarrow> ''bad'' \<notin> set ls" for n by (induction ls arbitrary: n) (auto simp: bad_lines_Cons, simp add: bad_lines_def)
    then show ?thesis .
  qed
  let ?added = "drop ?n (db_accounts (sg_db (snd (snd run))))"
  have ok: "\<not> (fst run = [] \<and> fst (snd run) \<noteq> [])" "refs = some_list (fst run)" "errors = some_list (fst (snd run))"
    "db' = sg_db (snd (snd run))"
    using assms(2) out unfolding db'_def by (auto split: if_splits)
  have "db_accounts db' = db_accounts (sg_db st) @ ?added" using exact ok(4) by (metis append_take_drop_id)
  moreover have len: "length ?added = length (fst run)" using exact by (metis length_map)
  moreover have "case refs of None \<Rightarrow> ?added = [] | Some rs \<Rightarrow> map ref_id rs = map acc_id ?added"
    using exact ok(2) len by (auto simp: some_list_def)
  moreover have "case errors of None \<Rightarrow> ''bad'' \<notin> set lines | Some es \<Rightarrow> es = map (\<lambda>i. ''token '' @ string_of_nat i @
      '': token '' @ phrase ''check failed'' @ '': 401 Unauthorized'') (bad_lines 0 lines)"
    using exact ok(3) bad [of lines] by (auto simp: some_list_def)
  moreover have "filter (\<lambda>l. l \<noteq> ''bad'') lines = [] \<longrightarrow> ''bad'' \<notin> set lines"
    using exact ok(1) bad [of lines] by (metis length_0_conv list.map_disc_iff)
  ultimately show ?thesis using exact by (intro exI [of _ ?added]) simp
qed

theorem bulk_tokens_exact_witness:
  "\<exists>a. db_accounts (sg_db (snd (post_sso_token id ''mock-t'' 9
     (Some (JObj [(''bearerToken'', JStr (''t1'' @ [CHR 0x0A] @ ''bad'')), (''region'', JStr ''us-east-1'')])) sample_signin))) = [a]"
proof -
  let ?pasted = "''t1'' @ [CHR 0x0A] @ ''bad''"
  let ?out = "post_sso_token id ''mock-t'' 9 (Some (JObj [(''bearerToken'', JStr ?pasted), (''region'', JStr ''us-east-1'')])) sample_signin"
  have lines: "filter (\<lambda>l. l \<noteq> []) (map trim (split_char (CHR 0x0A) ?pasted)) = [''t1'', ''bad'']" by code_simp
  have parts: "requireAuth ''mock-t'' = None" "normalizeRegion (Some ''us-east-1'') = Some ''us-east-1''" "trim ?pasted \<noteq> []"
    by code_simp+
  have "\<exists>refs errors. fst ?out = Inr (refs, errors)"
    using parts(2,3) lines by (simp add: post_sso_token_def guarded_step_def requireAuth_def startsWith_def read_object_def field_string_def Let_def split_beta)
  then obtain refs errors where "fst ?out = Inr (refs, errors)" by blast
  from bulk_tokens_exact [OF this] lines obtain added where
    "db_accounts (sg_db (snd ?out)) = db_accounts (sg_db sample_signin) @ added" "length added = 1" by auto
  then show ?thesis by (auto simp: sample_signin_def seedEmptyDb_def length_Suc_conv)
qed

subsection \<open>A Builder ID login, from start to end\<close>

lemma poll_parts:
  fixes now :: int
  assumes "startsWith token ''mock-''" "map_of (sg_builderId st) d = Some (polls, r)" "r \<noteq> BUILDER_ID_EXPIRED_REGION"
  defines "out \<equiv> post_builderid_poll token now (Some (JObj [(''sessionId'', JStr d)])) st"
  shows "polls < 2 \<Longrightarrow> fst out = Inr (PollPending ''pending'' 1)"
    and "polls < 2 \<Longrightarrow> snd out = st\<lparr>sg_builderId := AList.update d (polls + 1, r) (sg_builderId st)\<rparr>"
    and "polls \<ge> 2 \<Longrightarrow> \<exists>ref a. fst out = Inr (PollCompleted ref) \<and> db_accounts (sg_db (snd out)) = db_accounts (sg_db st) @ [a] \<and>
      acc_id a = ref_id ref \<and> acc_region a = r \<and> acc_activeRegion a = r \<and> acc_authMethod a = ''idc'' \<and>
      acc_provider a = ''BuilderId'' \<and> sg_builderId (snd out) = AList.delete d (sg_builderId st)"
  using assms(1-3)
  by (simp_all add: out_def post_builderid_poll_def builderIdState_table guarded_step_def requireAuth_def read_object_def field_string_def
      BUILDER_ID_PENDING_POLLS_def Let_def split_beta)
    (simp add: addAccount_def makeAccount_def split_beta Let_def in_region_def new_account_def)

text \<open>A Builder ID login completes: started in a region that does not expire, from any state, two polls
  answer that it is pending and the third completes it, with one new account of that region at the end of
  the list under the answered id; a fourth poll finds no session. The clock does not matter.\<close>

theorem builder_login_completes:
  fixes d :: string and st :: signin and t1 t2 t3 t4 :: int
  assumes token: "startsWith token ''mock-''" and region: "normalizeRegion (Some typed) = Some r" "r \<noteq> BUILDER_ID_EXPIRED_REGION"
    and drawn: "d \<notin> set OBJECT_MEMBERS"
  defines "poll \<equiv> \<lambda>now st. post_builderid_poll token now (Some (JObj [(''sessionId'', JStr d)])) st"
  defines "s0 \<equiv> snd (post_builderid_start token d (Some (JObj [(''region'', JStr typed)])) st)"
  defines "s1 \<equiv> snd (poll t1 s0)" defines "s2 \<equiv> snd (poll t2 s1)" defines "s3 \<equiv> snd (poll t3 s2)"
  shows "fst (poll t1 s0) = Inr (PollPending ''pending'' 1) \<and> fst (poll t2 s1) = Inr (PollPending ''pending'' 1) \<and>
    (\<exists>ref a. fst (poll t3 s2) = Inr (PollCompleted ref) \<and> db_accounts (sg_db s3) = db_accounts (sg_db st) @ [a] \<and>
      acc_id a = ref_id ref \<and> acc_region a = r \<and> acc_authMethod a = ''idc'' \<and> acc_provider a = ''BuilderId'') \<and>
    fst (poll t4 s3) = Inl (jsonError 400 ''session not found or expired'' None)"
proof -
  note p = poll_parts [OF token, of _ d _ r, OF _ region(2), folded poll_def]
  have s0: "map_of (sg_builderId s0) d = Some (0, r)" "sg_db s0 = sg_db st"
    using token region(1) by (simp_all add: s0_def post_builderid_start_def guarded_step_def requireAuth_def read_object_def AList.update_conv')
  have s1: "map_of (sg_builderId s1) d = Some (1, r)" "sg_db s1 = sg_db st"
    using p(2) [OF s0(1)] s0 by (simp_all add: s1_def poll_def AList.update_conv')
  have s2: "map_of (sg_builderId s2) d = Some (2, r)" "sg_db s2 = sg_db st"
    using p(2) [OF s1(1)] s1 by (simp_all add: s2_def poll_def AList.update_conv')
  obtain ref a where c: "fst (poll t3 s2) = Inr (PollCompleted ref)" "db_accounts (sg_db s3) = db_accounts (sg_db st) @ [a]"
    "acc_id a = ref_id ref" "acc_region a = r" "acc_authMethod a = ''idc''" "acc_provider a = ''BuilderId''"
    "sg_builderId s3 = AList.delete d (sg_builderId s2)"
    using p(3) [OF s2(1), of t3] s2(2) unfolding s3_def poll_def by auto
  have "map_of (sg_builderId s3) d = None" by (simp add: c(7) AList.delete_conv')
  then have "fst (poll t4 s3) = Inl (jsonError 400 ''session not found or expired'' None)"
    using token drawn by (simp add: poll_def post_builderid_poll_def builderIdState_table guarded_step_def requireAuth_def read_object_def field_string_def)
  with p(1) [OF s0(1), of t1] p(1) [OF s1(1), of t2] c show ?thesis by (auto simp: poll_def)
qed

theorem builder_login_completes_witness:
  "fst (post_builderid_poll ''mock-t'' 5 (Some (JObj [(''sessionId'', JStr ''s'')]))
     (snd (post_builderid_start ''mock-t'' ''s'' (Some (JObj [(''region'', JStr '' EU-west-1'')])) sample_signin))) =
   Inr (PollPending ''pending'' 1)"
proof -
  have "startsWith ''mock-t'' ''mock-''" "normalizeRegion (Some '' EU-west-1'') = Some ''eu-west-1''"
    "''eu-west-1'' \<noteq> BUILDER_ID_EXPIRED_REGION" "''s'' \<notin> set OBJECT_MEMBERS" by code_simp+
  from builder_login_completes [OF this] show ?thesis by blast
qed

subsection \<open>The files of the local cache\<close>

lemma microsoft_payload_fields:
  assumes "microsoftPayload parse atob token client = Inr p"
  shows "\<exists>clientId. is_uuid clientId \<and> cir_clientId p = Some clientId \<and> cir_authMethod p = Some ''external_idp'' \<and>
    cir_refreshToken p = Some (item_text token ''refreshToken'') \<and> cir_kiroApiKey p = None"
proof -
  define clientId where "clientId = or_text (trim (or_text (item_text token ''clientId'')
      (case client of None \<Rightarrow> [] | Some c \<Rightarrow> item_text c ''clientId'')))
    (microsoftClientIdFromToken parse atob (item_text token ''accessToken''))"
  have "is_uuid clientId" using assms unfolding microsoftPayload_def Let_def clientId_def by (rule contrapos_pp) simp
  moreover have "cir_clientId p = Some clientId \<and> cir_authMethod p = Some ''external_idp'' \<and>
    cir_refreshToken p = Some (item_text token ''refreshToken'') \<and> cir_kiroApiKey p = None"
    using assms unfolding microsoftPayload_def Let_def clientId_def [symmetric]
    by (simp only: split: if_split_asm) (auto simp: no_payload_def)
  ultimately show ?thesis by blast
qed

text \<open>The local cache builds only what the server can use: a payload made from the two pasted files goes
  the refresh-token way with a token that is not empty, the server reads back the sign-in method the dialog
  chose, an Identity Center payload brings its client id and secret, and a Microsoft payload a client id
  that is a UUID, whatever the files hold and however \<open>JSON.parse\<close> and \<open>atob\<close> read them.\<close>

theorem local_cache_payload_sound:
  assumes "buildLocalCachePayload parse atob provider tokenText clientText = Inr p"
  shows "\<not> apiKeyPath p \<and> or_empty (cir_refreshToken p) \<noteq> [] \<and> cir_authMethod p = Some (server_method p) \<and>
    (server_method p = ''idc'' \<longrightarrow> or_empty (cir_clientId p) \<noteq> [] \<and> or_empty (cir_clientSecret p) \<noteq> []) \<and>
    (server_method p = ''external_idp'' \<longrightarrow> is_uuid (or_empty (cir_clientId p)))"
proof -
  obtain token where token: "parseObject parse (trim tokenText) = Some token" "item_text token ''refreshToken'' \<noteq> []"
    using assms by (auto simp: buildLocalCachePayload_def Let_def split: if_splits option.splits)
  consider (ms) client where "microsoftPayload parse atob token client = Inr p"
    | (social) "isSocialProvider provider" "p = local_payload token None provider"
    | (idc) c where "p = local_payload token (Some c) provider" "item_text c ''clientId'' \<noteq> []" "item_text c ''clientSecret'' \<noteq> []"
    using assms token unfolding buildLocalCachePayload_def Let_def
    by (auto split: if_splits option.splits)
  then show ?thesis
  proof cases
    case ms
    from microsoft_payload_fields [OF ms] show ?thesis using token(2)
      by (elim exE conjE) (simp add: server_method_def apiKeyPath_def lower_simps Let_def)
  next
    case social
    then show ?thesis using token(2)
      by (simp add: local_payload_def no_payload_def server_method_def apiKeyPath_def lower_simps Let_def)
  next
    case idc
    then show ?thesis using token(2)
      by (simp add: local_payload_def no_payload_def server_method_def apiKeyPath_def lower_simps Let_def)
  qed
qed

theorem local_cache_payload_sound_witness:
  "or_empty (cir_refreshToken (local_payload [(''refreshToken'', JStr ''r'')] None Github)) \<noteq> []"
proof -
  have "buildLocalCachePayload (\<lambda>_. Some (JObj [(''refreshToken'', JStr ''r'')])) (\<lambda>_. None) Github ''t'' [] =
    Inr (local_payload [(''refreshToken'', JStr ''r'')] None Github)" by code_simp
  from local_cache_payload_sound [OF this] show ?thesis by blast
qed

end
