(* ===== verification/Js_Uri.thy ===== *)
theory Js_Uri
  imports Js_Strings
begin

text \<open>
  \<open>encodeURIComponent\<close> and \<open>decodeURIComponent\<close> of the language, on the characters up to U+00FF this
  development uses: UTF-8 bytes in percent escapes. Decoding is None where the source's function
  throws; an escape of a character beyond U+00FF is None too, a limit of the model.
\<close>

definition uri_unreserved :: "char \<Rightarrow> bool" where
  "uri_unreserved c \<longleftrightarrow> is_digit c \<or> is_lower_az c \<or> is_upper_az c \<or> c \<in> set ''-_.!~*()'' \<or> code c = 39"

definition hex_digit :: "nat \<Rightarrow> char" where
  "hex_digit n = char_of (if n < 10 then 48 + n else 55 + n)"

definition hex_value :: "char \<Rightarrow> nat option" where
  "hex_value c = (if is_digit c then Some (code c - 48)
     else if 65 \<le> code c \<and> code c \<le> 70 then Some (code c - 55)
     else if 97 \<le> code c \<and> code c \<le> 102 then Some (code c - 87) else None)"

definition percent :: "nat \<Rightarrow> string" where
  "percent n = [CHR ''%'', hex_digit (n div 16), hex_digit (n mod 16)]"

definition encode_char :: "char \<Rightarrow> string" where
  "encode_char c = (if uri_unreserved c then [c]
     else if code c < 128 then percent (code c)
     else percent (192 + code c div 64) @ percent (128 + code c mod 64))"

definition encodeURIComponent :: "string \<Rightarrow> string" where
  "encodeURIComponent s = concat (map encode_char s)"

text \<open>One escape at the head of a string: its byte and the rest.\<close>

definition escape :: "string \<Rightarrow> (nat \<times> string) option" where
  "escape s = (case s of
      p # a # b # r \<Rightarrow>
        (case (hex_value a, hex_value b) of
           (Some x, Some y) \<Rightarrow> if p = CHR ''%'' then Some (16 * x + y, r) else None
         | _ \<Rightarrow> None)
    | _ \<Rightarrow> None)"

lemma escape_shorter: "escape s = Some (n, r) \<Longrightarrow> length r < length s"
  by (auto simp: escape_def split: list.splits option.splits if_splits)

text \<open>One decoded character at the head of a string, and the rest.\<close>

definition decode_char :: "string \<Rightarrow> (char \<times> string) option" where
  "decode_char s = (case s of
      [] \<Rightarrow> None
    | c # t \<Rightarrow>
        if c \<noteq> CHR ''%'' then Some (c, t)
        else (case escape s of
            None \<Rightarrow> None
          | Some (n, r) \<Rightarrow>
              if n < 128 then Some (char_of n, r)
              else if n = 194 \<or> n = 195 then
                (case escape r of
                   None \<Rightarrow> None
                 | Some (m, r') \<Rightarrow>
                     if 128 \<le> m \<and> m < 192 then Some (char_of ((n - 192) * 64 + (m - 128)), r') else None)
              else None))"

lemma decode_char_shorter: "decode_char s = Some (c, r) \<Longrightarrow> length r < length s"
  by (auto simp: decode_char_def split: list.splits option.splits if_splits
      dest!: escape_shorter)

function decodeURIComponent :: "string \<Rightarrow> string option" where
  "decodeURIComponent s =
     (if s = [] then Some []
      else (case decode_char s of
          None \<Rightarrow> None
        | Some (c, r) \<Rightarrow> map_option ((#) c) (decodeURIComponent r)))"
  by pat_completeness auto
termination
  by (relation "measure length") (auto dest: decode_char_shorter)

declare decodeURIComponent.simps [simp del]

lemma hex_round: "n < 16 \<Longrightarrow> hex_value (hex_digit n) = Some n"
  by (auto simp: hex_value_def hex_digit_def is_digit_def)

lemma escape_percent: "n < 256 \<Longrightarrow> escape (percent n @ r) = Some (n, r)"
  by (simp add: escape_def percent_def hex_round)

lemma decode_char_percent:
  "n < 256 \<Longrightarrow> decode_char (percent n @ r) =
     (if n < 128 then Some (char_of n, r)
      else if n = 194 \<or> n = 195 then
        (case escape r of
           None \<Rightarrow> None
         | Some (m, r') \<Rightarrow>
             if 128 \<le> m \<and> m < 192 then Some (char_of ((n - 192) * 64 + (m - 128)), r') else None)
      else None)"
  using escape_percent [of n r] by (simp add: decode_char_def percent_def)

lemma percent_reserved: "\<not> uri_unreserved (CHR ''%'')"
  by code_simp

lemma char_of_code [simp]: "char_of (code c) = c"
  by (simp add: code_def)

lemma decode_encode_char: "decode_char (encode_char c @ r) = Some (c, r)"
proof -
  have n: "code c < 256" by simp
  consider "uri_unreserved c" | "\<not> uri_unreserved c" "code c < 128" | "\<not> uri_unreserved c" "128 \<le> code c"
    by linarith
  then show ?thesis
  proof cases
    case 1
    then have "c \<noteq> CHR ''%''" using percent_reserved by blast
    with 1 show ?thesis by (simp add: encode_char_def decode_char_def)
  next
    case 2
    then show ?thesis
      by (simp add: encode_char_def decode_char_percent)
  next
    case 3
    have d: "code c div 64 = 2 \<or> code c div 64 = 3" using 3 n by linarith
    have whole: "(code c div 64) * 64 + code c mod 64 = code c" by simp
    have "escape (percent (128 + code c mod 64) @ r) = Some (128 + code c mod 64, r)"
      by (rule escape_percent) (simp add: order.strict_trans [OF mod_less_divisor])
    then have "decode_char (percent (192 + code c div 64) @ percent (128 + code c mod 64) @ r) =
        Some (char_of ((code c div 64) * 64 + code c mod 64), r)"
      using d by (subst decode_char_percent) auto
    then show ?thesis using 3 by (simp only: whole char_of_code) (simp add: encode_char_def)
  qed
qed

lemma encode_char_nonempty: "encode_char c \<noteq> []"
  by (simp add: encode_char_def percent_def)

lemma decode_encode: "decodeURIComponent (encodeURIComponent s) = Some s"
proof (induction s)
  case (Cons c s)
  have "encode_char c @ encodeURIComponent s \<noteq> []" by (simp add: encode_char_nonempty)
  then have "decodeURIComponent (encode_char c @ encodeURIComponent s) = Some (c # s)"
    by (subst decodeURIComponent.simps) (simp add: decode_encode_char Cons)
  then show ?case by (simp add: encodeURIComponent_def)
qed (simp add: encodeURIComponent_def decodeURIComponent.simps)

text \<open>What the encoder writes is made of unreserved characters and escapes.\<close>

lemma encoded_chars: "c \<in> set (encodeURIComponent s) \<Longrightarrow> uri_unreserved c \<or> c = CHR ''%''"
proof -
  have hex: "uri_unreserved (hex_digit n)" if "n < 16" for n
    using that by (auto simp: uri_unreserved_def hex_digit_def is_digit_def is_upper_az_def)
  have pct: "uri_unreserved c \<or> c = CHR ''%''" if "c \<in> set (percent n)" "n < 256" for n
    using that hex [of "n div 16"] hex [of "n mod 16"] by (auto simp: percent_def)
  have "uri_unreserved c \<or> c = CHR ''%''" if "c \<in> set (encode_char d)" for d
  proof -
    have "c = d \<and> uri_unreserved d \<or> c \<in> set (percent (code d)) \<or>
        c \<in> set (percent (192 + code d div 64)) \<or> c \<in> set (percent (128 + code d mod 64))"
      using that by (auto simp: encode_char_def split: if_splits)
    moreover have "192 + code d div 64 < 256" "128 + code d mod 64 < 256"
      using code_less [of d] by linarith+
    ultimately show ?thesis using pct code_less by blast
  qed
  then show "c \<in> set (encodeURIComponent s) \<Longrightarrow> ?thesis"
    by (auto simp: encodeURIComponent_def)
qed

end
