(* ===== verification/Login_Flows.thy ===== *)
theory Login_Flows
  imports Credentials Api_Client Toasts
begin

text \<open>
  The eight ways of the add-account dialog (src/ui/src/features/add-account): the login state the dialog shares
  between them (\<open>flow-sessions.ts\<close>), the form each flow keeps, and what the forms send and show. A request is
  in flight from the step that sends it to the step that answers it; it carries the instance of the flow that
  sent it (React drops the state of an instance that is gone) and the generation it was sent in. What goes
  out is a log: requests, their answers, messages, focus, and calls of the page. The phrases are a parameter.
\<close>

subsection \<open>The shared login state\<close>

text \<open>A timer of the device-code login with what its callback holds: the instance that started it, its
  generation, the interval in seconds and the network failures in a row.\<close>

record poll_timer =
  po_key :: nat
  po_generation :: nat
  po_interval :: int
  po_failures :: nat

record flow_sessions =
  fs_generation :: nat
  fs_microsoft :: string
  fs_selection :: string
  fs_builderId :: string
  fs_timer :: "poll_timer option"
  fs_iam :: string

definition no_sessions :: flow_sessions where
  "no_sessions = \<lparr>fs_generation = 0, fs_microsoft = [], fs_selection = [], fs_builderId = [], fs_timer = None, fs_iam = []\<rparr>"

definition isCurrent :: "flow_sessions \<Rightarrow> nat \<Rightarrow> bool" where
  "isCurrent s generation \<longleftrightarrow> generation = fs_generation s"

definition stopBuilderId :: "flow_sessions \<Rightarrow> flow_sessions" where
  "stopBuilderId s = s\<lparr>fs_timer := None, fs_builderId := []\<rparr>"

subsection \<open>Requests and answers\<close>

text \<open>A batch that is being imported one item at a time: whether its failures are numbered, the place of the
  item in flight, the items after it, and what came of those before.\<close>

record import_batch =
  ib_numbered :: bool
  ib_index :: nat
  ib_rest :: "mapped_credential list"
  ib_added :: "added_account_ref list"
  ib_failures :: "string list"

datatype flow_request =
    StartBuilderId string
  | PollBuilderId string int nat
  | StartIam string string
  | CompleteIam string string
  | StartMicrosoft
  | CompleteMicrosoft string string
  | SelectProfile string string
  | ImportTokens string string
  | ImportOne credentials_import_request
  | ImportNext credentials_import_request import_batch
  | RefetchAdded "string list"
  | RefreshAdded string "string list"

datatype flow_answer =
    BuilderIdStarted string string string int
  | BuilderIdPolled builder_id_poll_response
  | IamStarted string string
  | AccountAdded added_account_ref
  | MicrosoftStarted string string
  | MicrosoftStage microsoft_complete_response
  | TokensImported "added_account_ref list" "string list"
  | Settled
  | Refused thrown

text \<open>The answers each endpoint has, by its type.\<close>

definition answers :: "flow_request \<Rightarrow> flow_answer \<Rightarrow> bool" where
  "answers rq ans = (case rq of
       StartBuilderId region \<Rightarrow> (case ans of BuilderIdStarted s c u i \<Rightarrow> True | Refused e \<Rightarrow> True | _ \<Rightarrow> False)
     | PollBuilderId s i n \<Rightarrow> (case ans of BuilderIdPolled p \<Rightarrow> True | Refused e \<Rightarrow> True | _ \<Rightarrow> False)
     | StartIam u r \<Rightarrow> (case ans of IamStarted s a \<Rightarrow> True | Refused e \<Rightarrow> True | _ \<Rightarrow> False)
     | StartMicrosoft \<Rightarrow> (case ans of MicrosoftStarted s a \<Rightarrow> True | Refused e \<Rightarrow> True | _ \<Rightarrow> False)
     | CompleteMicrosoft s c \<Rightarrow> (case ans of MicrosoftStage g \<Rightarrow> True | Refused e \<Rightarrow> True | _ \<Rightarrow> False)
     | SelectProfile s a \<Rightarrow> (case ans of MicrosoftStage (StageComplete r w) \<Rightarrow> True | Refused e \<Rightarrow> True | _ \<Rightarrow> False)
     | ImportTokens t r \<Rightarrow> (case ans of TokensImported rs es \<Rightarrow> True | Refused e \<Rightarrow> True | _ \<Rightarrow> False)
     | RefetchAdded ids \<Rightarrow> ans = Settled
     | RefreshAdded i ids \<Rightarrow> (case ans of Settled \<Rightarrow> True | Refused e \<Rightarrow> True | _ \<Rightarrow> False)
     | _ \<Rightarrow> (case ans of AccountAdded r \<Rightarrow> True | Refused e \<Rightarrow> True | _ \<Rightarrow> False))"

record in_flight =
  if_key :: nat
  if_generation :: nat
  if_request :: flow_request

datatype flow_field = RegionInput | StartUrlInput | CallbackInput | TokensInput | TokenInput | ClientInput | JsonInput
  | KeysInput | ProviderInput | ProfileInput | CodeStep

datatype flow_effect =
    Sent flow_request
  | Answered flow_request flow_answer
  | CancelSent string string
  | Told toast_kind string "string option" "int option"
  | AskedFocus flow_field
  | OpenChanged bool
  | Added "string list"
  | AccountsInvalidated
  | StatusInvalidated

subsection \<open>The forms\<close>

record builder_form =
  bf_region :: string
  bf_badRegion :: bool
  bf_starting :: bool
  bf_code :: "(string \<times> string) option"
  bf_reconnecting :: bool

record iam_form =
  im_startUrl :: string
  im_region :: string
  im_callback :: string
  im_authorizeUrl :: string
  im_noUrl :: bool
  im_badRegion :: bool
  im_noCallback :: bool
  im_pending :: bool

datatype microsoft_stage = MsIdle | MsKiro | MsMicrosoft | MsProfile

record microsoft_form =
  mf_stage :: microsoft_stage
  mf_authorizeUrl :: string
  mf_callback :: string
  mf_profiles :: "kiro_profile list"
  mf_arn :: string
  mf_error :: "string option"
  mf_busy :: bool

record sso_form =
  so_tokens :: string
  so_region :: string
  so_noTokens :: bool
  so_badRegion :: bool
  so_pending :: bool

record local_form =
  lo_provider :: local_provider
  lo_token :: string
  lo_client :: string
  lo_problem :: "local_cache_error option"
  lo_pending :: bool

record json_form =
  jf_json :: string
  jf_error :: "string option"
  jf_pending :: bool

record cookie_form =
  ck_provider :: string
  ck_token :: string
  ck_missing :: bool
  ck_pending :: bool

record keys_form =
  kf_keys :: string
  kf_region :: string
  kf_noKeys :: bool
  kf_badRegion :: bool
  kf_pending :: bool

datatype flow =
    BuilderIdFlow builder_form
  | IamFlow iam_form
  | MicrosoftFlow microsoft_form
  | SsoTokenFlow sso_form
  | LocalCacheFlow local_form
  | CredentialsFlow json_form
  | CookieFlow cookie_form
  | ApiKeyFlow keys_form

datatype add_method = ByBuilderId | ByIam | ByMicrosoft | BySso | ByLocal | ByCredentials | ByCookie | ByApiKey

definition us_east :: string where "us_east = ''us-east-1''"

fun mounted :: "add_method \<Rightarrow> flow" where
  "mounted ByBuilderId = BuilderIdFlow \<lparr>bf_region = us_east, bf_badRegion = False, bf_starting = False,
     bf_code = None, bf_reconnecting = False\<rparr>"
| "mounted ByIam = IamFlow \<lparr>im_startUrl = [], im_region = us_east, im_callback = [], im_authorizeUrl = [],
     im_noUrl = False, im_badRegion = False, im_noCallback = False, im_pending = False\<rparr>"
| "mounted ByMicrosoft = MicrosoftFlow \<lparr>mf_stage = MsIdle, mf_authorizeUrl = [], mf_callback = [], mf_profiles = [],
     mf_arn = [], mf_error = None, mf_busy = False\<rparr>"
| "mounted BySso = SsoTokenFlow \<lparr>so_tokens = [], so_region = us_east, so_noTokens = False, so_badRegion = False,
     so_pending = False\<rparr>"
| "mounted ByLocal = LocalCacheFlow \<lparr>lo_provider = BuilderId, lo_token = [], lo_client = [], lo_problem = None,
     lo_pending = False\<rparr>"
| "mounted ByCredentials = CredentialsFlow \<lparr>jf_json = [], jf_error = None, jf_pending = False\<rparr>"
| "mounted ByCookie = CookieFlow \<lparr>ck_provider = ''Google'', ck_token = [], ck_missing = False, ck_pending = False\<rparr>"
| "mounted ByApiKey = ApiKeyFlow \<lparr>kf_keys = [], kf_region = us_east, kf_noKeys = False, kf_badRegion = False,
     kf_pending = False\<rparr>"

fun flow_pending :: "flow \<Rightarrow> bool" where
  "flow_pending (BuilderIdFlow f) = bf_starting f"
| "flow_pending (IamFlow f) = im_pending f"
| "flow_pending (MicrosoftFlow f) = mf_busy f"
| "flow_pending (SsoTokenFlow f) = so_pending f"
| "flow_pending (LocalCacheFlow f) = lo_pending f"
| "flow_pending (CredentialsFlow f) = jf_pending f"
| "flow_pending (CookieFlow f) = ck_pending f"
| "flow_pending (ApiKeyFlow f) = kf_pending f"

fun set_pending :: "bool \<Rightarrow> flow \<Rightarrow> flow" where
  "set_pending b (BuilderIdFlow f) = BuilderIdFlow (f\<lparr>bf_starting := b\<rparr>)"
| "set_pending b (IamFlow f) = IamFlow (f\<lparr>im_pending := b\<rparr>)"
| "set_pending b (MicrosoftFlow f) = MicrosoftFlow (f\<lparr>mf_busy := b\<rparr>)"
| "set_pending b (SsoTokenFlow f) = SsoTokenFlow (f\<lparr>so_pending := b\<rparr>)"
| "set_pending b (LocalCacheFlow f) = LocalCacheFlow (f\<lparr>lo_pending := b\<rparr>)"
| "set_pending b (CredentialsFlow f) = CredentialsFlow (f\<lparr>jf_pending := b\<rparr>)"
| "set_pending b (CookieFlow f) = CookieFlow (f\<lparr>ck_pending := b\<rparr>)"
| "set_pending b (ApiKeyFlow f) = ApiKeyFlow (f\<lparr>kf_pending := b\<rparr>)"

text \<open>Typing into a field, which a running request disables; a field a form does not show is not there.\<close>

definition provider_named :: "string \<Rightarrow> local_provider option" where
  "provider_named s = find (\<lambda>p. provider_text p = s) [BuilderId, Enterprise, Google, Github, Microsoft]"

definition type_local :: "flow_field \<Rightarrow> string \<Rightarrow> local_form \<Rightarrow> local_form" where
  "type_local field v f =
     (if field = ProviderInput then (case provider_named v of None \<Rightarrow> f | Some p \<Rightarrow> f\<lparr>lo_provider := p, lo_problem := None\<rparr>)
      else if field = TokenInput then f\<lparr>lo_token := v\<rparr>
      else if field = ClientInput \<and> \<not> isSocialProvider (lo_provider f) then f\<lparr>lo_client := v\<rparr> else f)"

definition type_iam :: "flow_field \<Rightarrow> string \<Rightarrow> iam_form \<Rightarrow> iam_form" where
  "type_iam field v f =
     (if im_authorizeUrl f \<noteq> [] then (if field = CallbackInput then f\<lparr>im_callback := v\<rparr> else f)
      else if field = StartUrlInput then f\<lparr>im_startUrl := v\<rparr>
      else if field = RegionInput then f\<lparr>im_region := v\<rparr> else f)"

definition type_microsoft :: "flow_field \<Rightarrow> string \<Rightarrow> microsoft_form \<Rightarrow> microsoft_form" where
  "type_microsoft field v f =
     (if mf_stage f = MsProfile then (if field = ProfileInput then f\<lparr>mf_arn := v\<rparr> else f)
      else if field = CallbackInput \<and> mf_stage f \<noteq> MsIdle then f\<lparr>mf_callback := v\<rparr> else f)"

fun type_into :: "flow_field \<Rightarrow> string \<Rightarrow> flow \<Rightarrow> flow" where
  "type_into field v (BuilderIdFlow f) = BuilderIdFlow (if field = RegionInput \<and> bf_code f = None then f\<lparr>bf_region := v\<rparr> else f)"
| "type_into field v (IamFlow f) = IamFlow (type_iam field v f)"
| "type_into field v (MicrosoftFlow f) = MicrosoftFlow (type_microsoft field v f)"
| "type_into field v (SsoTokenFlow f) = SsoTokenFlow
     (if field = TokensInput then f\<lparr>so_tokens := v\<rparr> else if field = RegionInput then f\<lparr>so_region := v\<rparr> else f)"
| "type_into field v (LocalCacheFlow f) = LocalCacheFlow (type_local field v f)"
| "type_into field v (CredentialsFlow f) = CredentialsFlow (if field = JsonInput then f\<lparr>jf_json := v\<rparr> else f)"
| "type_into field v (CookieFlow f) = CookieFlow
     (if field = TokenInput then f\<lparr>ck_token := v\<rparr>
      else if field = ProviderInput \<and> (v = ''Google'' \<or> v = ''Github'') then f\<lparr>ck_provider := v\<rparr> else f)"
| "type_into field v (ApiKeyFlow f) = ApiKeyFlow
     (if field = KeysInput then f\<lparr>kf_keys := v\<rparr> else if field = RegionInput then f\<lparr>kf_region := v\<rparr> else f)"

end
