(* ===== verification/Login_Dialog.thy ===== *)
theory Login_Dialog
  imports Login_Flows
begin

text \<open>
  The add-account dialog at work (src/ui/src/features/add-account/add-account-dialog.tsx with its flows): opening,
  choosing a way, going back and leaving, submitting a form, the answers of the requests in flight, the timer of
  the device code, and what follows an addition. The page obeys \<open>onOpenChange\<close> at once, as the accounts
  page does; a closed dialog takes no input. \<open>parse\<close> is \<open>JSON.parse\<close>, \<open>atob\<close> the platform's.
\<close>

record phrases =
  say_text :: "string \<Rightarrow> (string \<times> string) list \<Rightarrow> string"
  say_error :: "thrown \<Rightarrow> string"
  say_account :: "added_account_ref \<Rightarrow> string"

record login_dialog =
  ld_initial :: "add_method option"
  ld_open :: bool
  ld_gone :: bool
  ld_method :: "add_method option"
  ld_key :: nat
  ld_busy :: bool
  ld_flow :: "flow option"
  ld_sessions :: flow_sessions
  ld_inflight :: "in_flight list"
  ld_log :: "flow_effect list"

text \<open>Mounted closed or, when the page is opened at the dialog, open. Instances are numbered from 1.\<close>

definition fresh_dialog :: "add_method option \<Rightarrow> bool \<Rightarrow> login_dialog" where
  "fresh_dialog initial opened = \<lparr>ld_initial = initial, ld_open = opened, ld_gone = False, ld_method = initial, ld_key = 1,
     ld_busy = False, ld_flow = (if opened then map_option mounted initial else None), ld_sessions = no_sessions,
     ld_inflight = [], ld_log = []\<rparr>"

subsection \<open>What the steps are made of\<close>

definition log_effect :: "flow_effect \<Rightarrow> login_dialog \<Rightarrow> login_dialog" where
  "log_effect e d = d\<lparr>ld_log := ld_log d @ [e]\<rparr>"

definition on_sessions :: "(flow_sessions \<Rightarrow> flow_sessions) \<Rightarrow> login_dialog \<Rightarrow> login_dialog" where
  "on_sessions f d = d\<lparr>ld_sessions := f (ld_sessions d)\<rparr>"

definition send_request :: "nat \<Rightarrow> nat \<Rightarrow> flow_request \<Rightarrow> login_dialog \<Rightarrow> login_dialog" where
  "send_request key generation rq d =
     log_effect (Sent rq) (d\<lparr>ld_inflight := ld_inflight d @ [\<lparr>if_key = key, if_generation = generation, if_request = rq\<rparr>]\<rparr>)"

text \<open>State set by an instance of a flow: nothing happens once it is gone.\<close>

definition on_flow :: "nat \<Rightarrow> (flow \<Rightarrow> flow) \<Rightarrow> login_dialog \<Rightarrow> login_dialog" where
  "on_flow key f d = (if key = ld_key d then d\<lparr>ld_flow := map_option f (ld_flow d)\<rparr> else d)"

text \<open>The pending state of a form, which \<open>useReportBusy\<close> reports to the dialog.\<close>

definition report_busy :: "nat \<Rightarrow> bool \<Rightarrow> login_dialog \<Rightarrow> login_dialog" where
  "report_busy key b d = (if key = ld_key d \<and> ld_flow d \<noteq> None
     then d\<lparr>ld_flow := map_option (set_pending b) (ld_flow d), ld_busy := b\<rparr> else d)"

definition cancelMicrosoft :: "login_dialog \<Rightarrow> login_dialog" where
  "cancelMicrosoft d =
     (let sessionId = fs_microsoft (ld_sessions d); selectionId = fs_selection (ld_sessions d);
          d = on_sessions (\<lambda>s. s\<lparr>fs_microsoft := [], fs_selection := []\<rparr>) d
      in if sessionId \<noteq> [] \<or> selectionId \<noteq> [] then log_effect (CancelSent sessionId selectionId) d else d)"

definition reset_sessions :: "bool \<Rightarrow> login_dialog \<Rightarrow> login_dialog" where
  "reset_sessions cancel d =
     (let d = (if cancel then cancelMicrosoft d else d)
      in on_sessions (\<lambda>s. (stopBuilderId (s\<lparr>fs_microsoft := [], fs_selection := []\<rparr>))
           \<lparr>fs_iam := [], fs_generation := fs_generation s + 1\<rparr>) d)"

text \<open>The flow leaves the screen: the device-code view stops its polling, and a pending form is no longer reported.\<close>

definition unmount_flow :: "login_dialog \<Rightarrow> login_dialog" where
  "unmount_flow d =
     (let d = (case ld_flow d of Some (BuilderIdFlow _) \<Rightarrow> on_sessions stopBuilderId d | _ \<Rightarrow> d);
          pending = (case ld_flow d of Some f \<Rightarrow> flow_pending f | None \<Rightarrow> False)
      in d\<lparr>ld_flow := None, ld_busy := (if pending then False else ld_busy d)\<rparr>)"

definition mount_flow :: "add_method option \<Rightarrow> login_dialog \<Rightarrow> login_dialog" where
  "mount_flow m d = (let d = unmount_flow d in d\<lparr>ld_method := m, ld_key := ld_key d + 1, ld_flow := map_option mounted m\<rparr>)"

text \<open>The page sets \<open>open\<close>: opening starts over at the first step, and closing resets the sessions.\<close>

definition set_open :: "bool \<Rightarrow> login_dialog \<Rightarrow> login_dialog" where
  "set_open b d =
     (if b = ld_open d then d
      else if b then (mount_flow (ld_initial d) (d\<lparr>ld_open := True\<rparr>))\<lparr>ld_busy := False\<rparr>
      else reset_sessions True (d\<lparr>ld_open := False\<rparr>))"

definition handleOpenChange :: "bool \<Rightarrow> login_dialog \<Rightarrow> login_dialog" where
  "handleOpenChange b d = set_open b (log_effect (OpenChanged b) (if b then d else reset_sessions True d))"

definition selectMethod :: "add_method \<Rightarrow> login_dialog \<Rightarrow> login_dialog" where
  "selectMethod m d = mount_flow (Some m) (reset_sessions True d)"

definition go_back :: "login_dialog \<Rightarrow> login_dialog" where
  "go_back d = (unmount_flow (reset_sessions True d))\<lparr>ld_method := None, ld_busy := False\<rparr>"

text \<open>After an addition: the dialog closes, the lists are refetched, and then each account is refreshed, one
  at a time. The requests of this chain belong to no flow: their key is never one of an instance's.\<close>

definition finishAdd :: "added_account_ref list \<Rightarrow> login_dialog \<Rightarrow> login_dialog" where
  "finishAdd refs d =
     (let ids = filter (\<lambda>i. i \<noteq> []) (map ref_id refs);
          d = set_open False (log_effect (OpenChanged False) (reset_sessions False d))
      in send_request 0 0 (RefetchAdded ids) (log_effect StatusInvalidated (log_effect AccountsInvalidated (log_effect (Added ids) d))))"

fun refresh_rest :: "string list \<Rightarrow> login_dialog \<Rightarrow> login_dialog" where
  "refresh_rest [] d = log_effect AccountsInvalidated d"
| "refresh_rest (i # ids) d = send_request 0 0 (RefreshAdded i ids) d"

subsection \<open>Batches\<close>

definition showBatchResult :: "phrases \<Rightarrow> nat \<Rightarrow> string list \<Rightarrow> login_dialog \<Rightarrow> login_dialog" where
  "showBatchResult say added failures d =
     (if failures = [] then log_effect (Told ToastSuccess (say_text say ''importSuccess'' [(''count'', string_of_nat added)]) None (Some 5200)) d
      else (let description = join ''; '' (take 3 failures @
                 (if length failures > 3 then [say_text say ''moreFailures'' [(''count'', string_of_nat (length failures - 3))]] else []))
        in log_effect (Told ToastWarning (say_text say ''importPartial''
             [(''count'', string_of_nat added), (''failed'', string_of_nat (length failures))]) (Some description) (Some 5200)) d))"

definition failure_text :: "phrases \<Rightarrow> bool \<Rightarrow> nat \<Rightarrow> string \<Rightarrow> string" where
  "failure_text say numbered index reason =
     (if numbered then say_text say ''credentials.failureItem'' [(''index'', string_of_nat (index + 1)), (''reason'', reason)]
      else reason)"

text \<open>The loop up to its next request: items without a refresh token fail without one.\<close>

fun next_import ::
  "phrases \<Rightarrow> bool \<Rightarrow> nat \<Rightarrow> mapped_credential list \<Rightarrow> string list \<Rightarrow>
    string list \<times> (nat \<times> credentials_import_request \<times> mapped_credential list) option" where
  "next_import say numbered i [] failures = (failures, None)"
| "next_import say numbered i (MissingRefreshToken # items) failures = next_import say numbered (i + 1) items
     (failures @ [failure_text say numbered i (say_text say ''credentials.missingRefreshToken'' [])])"
| "next_import say numbered i (MappedRequest p # items) failures = (failures, Some (i, p, items))"

definition finish_batch :: "phrases \<Rightarrow> nat \<Rightarrow> bool \<Rightarrow> added_account_ref list \<Rightarrow> string list \<Rightarrow> login_dialog \<Rightarrow> login_dialog" where
  "finish_batch say key numbered added failures d = report_busy key False
     (if added = []
      then log_effect (AskedFocus (if numbered then JsonInput else KeysInput))
        (log_effect (Told ToastError
           (say_text say (if numbered then ''allFailed'' else ''failed'')
             [(''error'', case failures of [] \<Rightarrow> [] | f # _ \<Rightarrow> f)])
           (if numbered \<and> length failures > 1 then Some (join ''; '' (take 2 (drop 1 failures))) else None) None) d)
      else finishAdd added (showBatchResult say (length added) failures d))"

definition go_batch ::
  "phrases \<Rightarrow> nat \<Rightarrow> nat \<Rightarrow> bool \<Rightarrow> nat \<Rightarrow> mapped_credential list \<Rightarrow> added_account_ref list \<Rightarrow> string list \<Rightarrow>
    login_dialog \<Rightarrow> login_dialog" where
  "go_batch say key generation numbered i items added failures d =
     (case next_import say numbered i items failures of
        (fs, Some (j, p, rest)) \<Rightarrow> send_request key generation
          (ImportNext p \<lparr>ib_numbered = numbered, ib_index = j, ib_rest = rest, ib_added = added, ib_failures = fs\<rparr>) d
      | (fs, None) \<Rightarrow> finish_batch say key numbered added fs d)"

subsection \<open>Submitting\<close>

definition refuse_form :: "flow_field \<Rightarrow> flow \<Rightarrow> login_dialog \<Rightarrow> login_dialog" where
  "refuse_form field f d = log_effect (AskedFocus field) (d\<lparr>ld_flow := Some f\<rparr>)"

text \<open>The form as it stands, its errors cleared, sends a request and is pending.\<close>

definition start_request :: "flow \<Rightarrow> flow_request \<Rightarrow> login_dialog \<Rightarrow> login_dialog" where
  "start_request f rq d = send_request (ld_key d) (fs_generation (ld_sessions d)) rq
     (report_busy (ld_key d) True (d\<lparr>ld_flow := Some f\<rparr>))"

definition submit_builderId :: "builder_form \<Rightarrow> login_dialog \<Rightarrow> login_dialog" where
  "submit_builderId f d =
     (if bf_code f \<noteq> None then d
      else case parseRegion (bf_region f) of
        None \<Rightarrow> refuse_form RegionInput (BuilderIdFlow (f\<lparr>bf_badRegion := True\<rparr>)) d
      | Some region \<Rightarrow> start_request (BuilderIdFlow (f\<lparr>bf_badRegion := False\<rparr>)) (StartBuilderId region) d)"

definition submit_iam :: "iam_form \<Rightarrow> login_dialog \<Rightarrow> login_dialog" where
  "submit_iam f d =
     (if im_authorizeUrl f \<noteq> [] then
        (let callback = trim (im_callback f) in
         if callback = []
         then refuse_form CallbackInput (IamFlow (f\<lparr>im_noCallback := True, im_noUrl := False, im_badRegion := False\<rparr>)) d
         else start_request (IamFlow (f\<lparr>im_noCallback := False, im_noUrl := False, im_badRegion := False\<rparr>))
                (CompleteIam (fs_iam (ld_sessions d)) callback) d)
      else
        (let noUrl = (trim (im_startUrl f) = []);
             g = f\<lparr>im_noUrl := noUrl, im_badRegion := (parseRegion (im_region f) = None), im_noCallback := False\<rparr>
         in case parseRegion (im_region f) of
              None \<Rightarrow> refuse_form (if noUrl then StartUrlInput else RegionInput) (IamFlow g) d
            | Some region \<Rightarrow> if noUrl then refuse_form StartUrlInput (IamFlow g) d
                else start_request (IamFlow g) (StartIam (trim (im_startUrl f)) region) d))"

definition submit_microsoft :: "phrases \<Rightarrow> microsoft_form \<Rightarrow> login_dialog \<Rightarrow> login_dialog" where
  "submit_microsoft say f d =
     (case mf_stage f of
        MsIdle \<Rightarrow> start_request (MicrosoftFlow f) StartMicrosoft d
      | MsProfile \<Rightarrow>
          if mf_arn f = [] then refuse_form ProfileInput (MicrosoftFlow (f\<lparr>mf_error := Some (say_text say ''microsoft.profileRequired'' [])\<rparr>)) d
          else start_request (MicrosoftFlow (f\<lparr>mf_error := None\<rparr>)) (SelectProfile (fs_selection (ld_sessions d)) (mf_arn f)) d
      | _ \<Rightarrow>
          (let callback = trim (mf_callback f) in
           if callback = [] then refuse_form CallbackInput (MicrosoftFlow (f\<lparr>mf_error := Some (say_text say ''callbackRequired'' [])\<rparr>)) d
           else start_request (MicrosoftFlow (f\<lparr>mf_error := None\<rparr>)) (CompleteMicrosoft (fs_microsoft (ld_sessions d)) callback) d))"

definition submit_sso :: "sso_form \<Rightarrow> login_dialog \<Rightarrow> login_dialog" where
  "submit_sso f d =
     (let noTokens = (trim (so_tokens f) = []);
          g = f\<lparr>so_noTokens := noTokens, so_badRegion := (parseRegion (so_region f) = None)\<rparr>
      in case parseRegion (so_region f) of
           None \<Rightarrow> refuse_form (if noTokens then TokensInput else RegionInput) (SsoTokenFlow g) d
         | Some region \<Rightarrow> if noTokens then refuse_form TokensInput (SsoTokenFlow g) d
             else start_request (SsoTokenFlow g) (ImportTokens (so_tokens f) region) d)"

definition submit_local ::
  "(string \<Rightarrow> json option) \<Rightarrow> (string \<Rightarrow> string option) \<Rightarrow> local_form \<Rightarrow> login_dialog \<Rightarrow> login_dialog" where
  "submit_local parse atob f d =
     (case buildLocalCachePayload parse atob (lo_provider f) (lo_token f) (lo_client f) of
        Inl e \<Rightarrow> refuse_form (if localCacheErrorField e (\<not> isSocialProvider (lo_provider f)) then ClientInput else TokenInput)
          (LocalCacheFlow (f\<lparr>lo_problem := Some e\<rparr>)) d
      | Inr p \<Rightarrow> start_request (LocalCacheFlow (f\<lparr>lo_problem := None\<rparr>)) (ImportOne p) d)"

text \<open>A batch that sends nothing is over before the form was ever pending.\<close>

definition start_batch :: "phrases \<Rightarrow> flow \<Rightarrow> bool \<Rightarrow> mapped_credential list \<Rightarrow> login_dialog \<Rightarrow> login_dialog" where
  "start_batch say f numbered items d = go_batch say (ld_key d) (fs_generation (ld_sessions d)) numbered 0 items [] []
     (report_busy (ld_key d) True (d\<lparr>ld_flow := Some f\<rparr>))"

definition submit_credentials :: "phrases \<Rightarrow> (string \<Rightarrow> json option) \<Rightarrow> json_form \<Rightarrow> login_dialog \<Rightarrow> login_dialog" where
  "submit_credentials say parse f d =
     (let failed = (\<lambda>k. refuse_form JsonInput (CredentialsFlow (f\<lparr>jf_error := Some (say_text say k [])\<rparr>)) d) in
      if trim (jf_json f) = [] then failed ''credentials.empty''
      else case parseCredentialsJson parse (jf_json f) of
          None \<Rightarrow> failed ''credentials.parseError''
        | Some [] \<Rightarrow> failed ''credentials.noItems''
        | Some items \<Rightarrow> start_batch say (CredentialsFlow (f\<lparr>jf_error := None\<rparr>)) True (map mapCredential items) d)"

definition submit_cookie :: "cookie_form \<Rightarrow> login_dialog \<Rightarrow> login_dialog" where
  "submit_cookie f d =
     (let token = trim (ck_token f) in
      if token = [] then refuse_form TokenInput (CookieFlow (f\<lparr>ck_missing := True\<rparr>)) d
      else start_request (CookieFlow (f\<lparr>ck_missing := False\<rparr>))
        (ImportOne (no_payload\<lparr>cir_refreshToken := Some token, cir_accessToken := Some [], cir_clientId := Some [],
           cir_clientSecret := Some [], cir_authMethod := Some ''social'', cir_provider := Some (ck_provider f)\<rparr>)) d)"

definition submit_apiKeys :: "phrases \<Rightarrow> keys_form \<Rightarrow> login_dialog \<Rightarrow> login_dialog" where
  "submit_apiKeys say f d =
     (let region = parseRegion (kf_region f);
          requests = parseApiKeyLines (kf_keys f) (case region of Some r \<Rightarrow> r | None \<Rightarrow> []);
          g = f\<lparr>kf_noKeys := (requests = []), kf_badRegion := (region = None)\<rparr>
      in if requests = [] \<or> region = None
         then refuse_form (if requests = [] then KeysInput else RegionInput) (ApiKeyFlow g) d
         else start_batch say (ApiKeyFlow g) False (map MappedRequest requests) d)"

definition submit_flow ::
  "phrases \<Rightarrow> (string \<Rightarrow> json option) \<Rightarrow> (string \<Rightarrow> string option) \<Rightarrow> login_dialog \<Rightarrow> login_dialog" where
  "submit_flow say parse atob d =
     (case ld_flow d of
        None \<Rightarrow> d
      | Some f \<Rightarrow> if flow_pending f then d else (case f of
            BuilderIdFlow f \<Rightarrow> submit_builderId f d
          | IamFlow f \<Rightarrow> submit_iam f d
          | MicrosoftFlow f \<Rightarrow> submit_microsoft say f d
          | SsoTokenFlow f \<Rightarrow> submit_sso f d
          | LocalCacheFlow f \<Rightarrow> submit_local parse atob f d
          | CredentialsFlow f \<Rightarrow> submit_credentials say parse f d
          | CookieFlow f \<Rightarrow> submit_cookie f d
          | ApiKeyFlow f \<Rightarrow> submit_apiKeys say f d))"

subsection \<open>Answers\<close>

text \<open>The common end of a request that failed: nothing is shown when it is late.\<close>

definition show_failure :: "phrases \<Rightarrow> nat \<Rightarrow> string \<Rightarrow> flow_field \<Rightarrow> thrown \<Rightarrow> login_dialog \<Rightarrow> login_dialog" where
  "show_failure say generation title field e d =
     (if isCurrent (ld_sessions d) generation
      then log_effect (AskedFocus field) (log_effect (Told ToastError (say_text say title [(''error'', say_error say e)]) None None) d)
      else d)"

definition tell_success :: "phrases \<Rightarrow> added_account_ref \<Rightarrow> login_dialog \<Rightarrow> login_dialog" where
  "tell_success say ref d = log_effect (Told ToastSuccess (say_text say ''success'' [(''name'', say_account say ref)]) None None) d"

definition or_seconds :: "int \<Rightarrow> int \<Rightarrow> int" where
  "or_seconds interval other = (if interval \<noteq> 0 then interval else other)"

definition set_timer :: "nat \<Rightarrow> nat \<Rightarrow> int \<Rightarrow> nat \<Rightarrow> flow_sessions \<Rightarrow> flow_sessions" where
  "set_timer key generation intervalS networkFailures s = s\<lparr>fs_timer := Some \<lparr>po_key = key, po_generation = generation,
     po_interval = intervalS, po_failures = networkFailures\<rparr>\<rparr>"

definition on_builder :: "(builder_form \<Rightarrow> builder_form) \<Rightarrow> flow \<Rightarrow> flow" where
  "on_builder g f = (case f of BuilderIdFlow b \<Rightarrow> BuilderIdFlow (g b) | _ \<Rightarrow> f)"

definition on_iam :: "(iam_form \<Rightarrow> iam_form) \<Rightarrow> flow \<Rightarrow> flow" where
  "on_iam g f = (case f of IamFlow b \<Rightarrow> IamFlow (g b) | _ \<Rightarrow> f)"

definition on_microsoft :: "(microsoft_form \<Rightarrow> microsoft_form) \<Rightarrow> flow \<Rightarrow> flow" where
  "on_microsoft g f = (case f of MicrosoftFlow b \<Rightarrow> MicrosoftFlow (g b) | _ \<Rightarrow> f)"

definition builderId_started :: "phrases \<Rightarrow> nat \<Rightarrow> nat \<Rightarrow> flow_answer \<Rightarrow> login_dialog \<Rightarrow> login_dialog" where
  "builderId_started say key generation ans d = report_busy key False (case ans of
       BuilderIdStarted sessionId userCode verificationUri interval \<Rightarrow>
         if \<not> isCurrent (ld_sessions d) generation then d
         else on_sessions (set_timer key generation (or_seconds interval 5) 0)
           (log_effect (AskedFocus CodeStep)
             (on_flow key (on_builder (\<lambda>f. f\<lparr>bf_code := Some (userCode, verificationUri)\<rparr>))
               (on_sessions (\<lambda>s. (stopBuilderId s)\<lparr>fs_builderId := sessionId\<rparr>) d)))
     | Refused e \<Rightarrow> show_failure say generation ''startFailed'' RegionInput e d
     | _ \<Rightarrow> d)"

definition MAX_NETWORK_RETRIES :: nat where "MAX_NETWORK_RETRIES = 3"

definition networkError :: "thrown \<Rightarrow> bool" where
  "networkError e = (case e of ApiError a \<Rightarrow> err_status a = 0 | _ \<Rightarrow> False)"

definition stop_polling :: "phrases \<Rightarrow> nat \<Rightarrow> thrown \<Rightarrow> login_dialog \<Rightarrow> login_dialog" where
  "stop_polling say key e d =
     log_effect (AskedFocus RegionInput) (log_effect (Told ToastError (say_text say ''failed'' [(''error'', say_error say e)]) None None)
       (on_flow key (on_builder (\<lambda>f. f\<lparr>bf_code := None, bf_reconnecting := False\<rparr>)) (on_sessions stopBuilderId d)))"

definition builderId_polled ::
  "phrases \<Rightarrow> nat \<Rightarrow> nat \<Rightarrow> string \<Rightarrow> int \<Rightarrow> nat \<Rightarrow> flow_answer \<Rightarrow> login_dialog \<Rightarrow> login_dialog" where
  "builderId_polled say key generation sessionId intervalS networkFailures ans d =
     (if \<not> isCurrent (ld_sessions d) generation \<or> fs_builderId (ld_sessions d) \<noteq> sessionId then d
      else case ans of
        BuilderIdPolled (PollCompleted ref) \<Rightarrow> finishAdd [ref] (tell_success say ref (on_sessions stopBuilderId d))
      | BuilderIdPolled (PollPending status interval) \<Rightarrow>
          on_sessions (set_timer key generation (or_seconds interval intervalS) 0)
            (on_flow key (on_builder (\<lambda>f. f\<lparr>bf_reconnecting := False\<rparr>)) d)
      | Refused e \<Rightarrow>
          if networkError e \<and> networkFailures < MAX_NETWORK_RETRIES
          then on_sessions (set_timer key generation intervalS (networkFailures + 1))
            (on_flow key (on_builder (\<lambda>f. f\<lparr>bf_reconnecting := True\<rparr>)) d)
          else stop_polling say key e d
      | _ \<Rightarrow> d)"

definition timer_fired :: "login_dialog \<Rightarrow> login_dialog" where
  "timer_fired d = (case fs_timer (ld_sessions d) of
       None \<Rightarrow> d
     | Some t \<Rightarrow>
        (let d = on_sessions (\<lambda>s. s\<lparr>fs_timer := None\<rparr>) d; sessionId = fs_builderId (ld_sessions d) in
         if sessionId = [] \<or> \<not> isCurrent (ld_sessions d) (po_generation t) then d
         else send_request (po_key t) (po_generation t) (PollBuilderId sessionId (po_interval t) (po_failures t)) d))"

definition iam_started :: "phrases \<Rightarrow> nat \<Rightarrow> nat \<Rightarrow> flow_answer \<Rightarrow> login_dialog \<Rightarrow> login_dialog" where
  "iam_started say key generation ans d = report_busy key False (case ans of
       IamStarted sessionId authorizeUrl \<Rightarrow>
         if \<not> isCurrent (ld_sessions d) generation then d
         else log_effect (AskedFocus CallbackInput) (on_flow key (on_iam (\<lambda>f. f\<lparr>im_authorizeUrl := authorizeUrl\<rparr>))
           (on_sessions (\<lambda>s. s\<lparr>fs_iam := sessionId\<rparr>) d))
     | Refused e \<Rightarrow> show_failure say generation ''startFailed'' StartUrlInput e d
     | _ \<Rightarrow> d)"

text \<open>The end of the flows whose answer is the one account: the callback of the SSO login, a cookie, a local cache.\<close>

definition account_added :: "phrases \<Rightarrow> nat \<Rightarrow> nat \<Rightarrow> flow_field \<Rightarrow> flow_answer \<Rightarrow> login_dialog \<Rightarrow> login_dialog" where
  "account_added say key generation field ans d = report_busy key False (case ans of
       AccountAdded ref \<Rightarrow>
         if \<not> isCurrent (ld_sessions d) generation then d else finishAdd [ref] (tell_success say ref d)
     | Refused e \<Rightarrow> show_failure say generation ''failed'' field e d
     | _ \<Rightarrow> d)"

definition tokens_imported :: "phrases \<Rightarrow> nat \<Rightarrow> nat \<Rightarrow> flow_answer \<Rightarrow> login_dialog \<Rightarrow> login_dialog" where
  "tokens_imported say key generation ans d = report_busy key False (case ans of
       TokensImported refs errors \<Rightarrow>
         if \<not> isCurrent (ld_sessions d) generation then d
         else finishAdd refs (showBatchResult say (length refs) errors d)
     | Refused e \<Rightarrow> show_failure say generation ''failed'' TokensInput e d
     | _ \<Rightarrow> d)"

definition item_imported ::
  "phrases \<Rightarrow> nat \<Rightarrow> nat \<Rightarrow> import_batch \<Rightarrow> flow_answer \<Rightarrow> login_dialog \<Rightarrow> login_dialog" where
  "item_imported say key generation b ans d =
     (let added = ib_added b @ (case ans of AccountAdded ref \<Rightarrow> [ref] | _ \<Rightarrow> []);
          failures = ib_failures b @ (case ans of Refused e \<Rightarrow> [failure_text say (ib_numbered b) (ib_index b) (say_error say e)] | _ \<Rightarrow> [])
      in if \<not> isCurrent (ld_sessions d) generation then report_busy key False d
         else go_batch say key generation (ib_numbered b) (ib_index b + 1) (ib_rest b) added failures d)"

subsection \<open>The Microsoft login\<close>

text \<open>A late answer that opened something at the server is canceled, whatever the login was for.\<close>

definition cancel_late :: "flow_answer \<Rightarrow> login_dialog \<Rightarrow> login_dialog" where
  "cancel_late ans d = (case ans of
       MicrosoftStarted sessionId url \<Rightarrow> if sessionId \<noteq> [] then log_effect (CancelSent sessionId []) d else d
     | MicrosoftStage (StageProfile selectionId profiles) \<Rightarrow> if selectionId \<noteq> [] then log_effect (CancelSent [] selectionId) d else d
     | _ \<Rightarrow> d)"

definition microsoft_done :: "phrases \<Rightarrow> added_account_ref \<Rightarrow> string option \<Rightarrow> login_dialog \<Rightarrow> login_dialog" where
  "microsoft_done say ref warning d =
     finishAdd [ref] ((case warning of
          Some (c # cs) \<Rightarrow> log_effect (Told ToastWarning (c # cs) None None)
        | _ \<Rightarrow> id)
       (tell_success say ref (on_sessions (\<lambda>s. s\<lparr>fs_microsoft := [], fs_selection := []\<rparr>) d)))"

definition microsoft_step ::
  "phrases \<Rightarrow> nat \<Rightarrow> nat \<Rightarrow> flow_field option \<Rightarrow> (login_dialog \<Rightarrow> login_dialog) \<Rightarrow> flow_answer \<Rightarrow> login_dialog \<Rightarrow> login_dialog" where
  "microsoft_step say key generation onError apply_answer ans d = report_busy key False (case ans of
       Refused e \<Rightarrow>
         if isCurrent (ld_sessions d) generation
         then (case onError of Some field \<Rightarrow> log_effect (AskedFocus field) | None \<Rightarrow> id)
           (log_effect (Told ToastError (say_text say ''failed'' [(''error'', say_error say e)]) None None) d)
         else d
     | _ \<Rightarrow> if isCurrent (ld_sessions d) generation then apply_answer d else cancel_late ans d)"

definition microsoft_started :: "nat \<Rightarrow> flow_answer \<Rightarrow> login_dialog \<Rightarrow> login_dialog" where
  "microsoft_started key ans d = (case ans of
       MicrosoftStarted sessionId authorizeUrl \<Rightarrow>
         log_effect (AskedFocus CallbackInput) (on_flow key (on_microsoft (\<lambda>f. f\<lparr>mf_authorizeUrl := authorizeUrl, mf_callback := [],
             mf_stage := MsKiro\<rparr>)) (on_sessions (\<lambda>s. s\<lparr>fs_microsoft := sessionId\<rparr>) d))
     | _ \<Rightarrow> d)"

definition microsoft_completed :: "phrases \<Rightarrow> nat \<Rightarrow> flow_answer \<Rightarrow> login_dialog \<Rightarrow> login_dialog" where
  "microsoft_completed say key ans d = (case ans of
       MicrosoftStage (StageComplete ref warning) \<Rightarrow> microsoft_done say ref warning d
     | MicrosoftStage (StageProfile selectionId profiles) \<Rightarrow>
         log_effect (AskedFocus ProfileInput) (on_flow key (on_microsoft (\<lambda>f. f\<lparr>mf_profiles := profiles,
             mf_arn := (case profiles of [] \<Rightarrow> [] | p # _ \<Rightarrow> kp_arn p), mf_stage := MsProfile\<rparr>))
           (on_sessions (\<lambda>s. s\<lparr>fs_selection := selectionId\<rparr>) d))
     | MicrosoftStage (StageMicrosoft authorizeUrl) \<Rightarrow>
         log_effect (AskedFocus CallbackInput) (on_flow key (on_microsoft (\<lambda>f. f\<lparr>mf_authorizeUrl := authorizeUrl, mf_callback := [],
             mf_stage := MsMicrosoft\<rparr>)) d)
     | _ \<Rightarrow> d)"

subsection \<open>One step\<close>

fun on_answer :: "phrases \<Rightarrow> nat \<Rightarrow> nat \<Rightarrow> flow_request \<Rightarrow> flow_answer \<Rightarrow> login_dialog \<Rightarrow> login_dialog" where
  "on_answer say key g (StartBuilderId region) ans d = builderId_started say key g ans d"
| "on_answer say key g (PollBuilderId sid intervalS n) ans d = builderId_polled say key g sid intervalS n ans d"
| "on_answer say key g (StartIam url region) ans d = iam_started say key g ans d"
| "on_answer say key g (CompleteIam sid cb) ans d = account_added say key g CallbackInput ans d"
| "on_answer say key g StartMicrosoft ans d = microsoft_step say key g None (microsoft_started key ans) ans d"
| "on_answer say key g (CompleteMicrosoft sid cb) ans d =
     microsoft_step say key g (Some CallbackInput) (microsoft_completed say key ans) ans d"
| "on_answer say key g (SelectProfile sel arn) ans d =
     microsoft_step say key g (Some ProfileInput) (microsoft_completed say key ans) ans d"
| "on_answer say key g (ImportTokens tokens region) ans d = tokens_imported say key g ans d"
| "on_answer say key g (ImportOne p) ans d = account_added say key g TokenInput ans d"
| "on_answer say key g (ImportNext p b) ans d = item_imported say key g b ans d"
| "on_answer say key g (RefetchAdded []) ans d = d"
| "on_answer say key g (RefetchAdded ids) ans d = refresh_rest ids d"
| "on_answer say key g (RefreshAdded i ids) ans d = refresh_rest ids d"

definition answer_arrives :: "phrases \<Rightarrow> nat \<Rightarrow> flow_answer \<Rightarrow> login_dialog \<Rightarrow> login_dialog" where
  "answer_arrives say n ans d =
     (if n < length (ld_inflight d) \<and> answers (if_request (ld_inflight d ! n)) ans then
        (let r = ld_inflight d ! n in on_answer say (if_key r) (if_generation r) (if_request r) ans
           (log_effect (Answered (if_request r) ans)
             (d\<lparr>ld_inflight := take n (ld_inflight d) @ drop (Suc n) (ld_inflight d)\<rparr>)))
      else d)"

datatype dialog_event =
    PageOpens bool
  | PageLeft
  | Picked add_method
  | WentBack
  | Canceled
  | Dismissed
  | FlowRemoved
  | Typed flow_field string
  | Submitted
  | TimerFired
  | AnswerCame nat flow_answer

text \<open>A closed dialog's flow stays until the library removes it; Escape, the backdrop and the close button wait
  for a running request, the dialog's own buttons do not.\<close>

fun dialog_step ::
  "phrases \<Rightarrow> (string \<Rightarrow> json option) \<Rightarrow> (string \<Rightarrow> string option) \<Rightarrow> dialog_event \<Rightarrow> login_dialog \<Rightarrow> login_dialog" where
  "dialog_step say parse atob (PageOpens b) d = (if ld_gone d then d else set_open b d)"
| "dialog_step say parse atob PageLeft d =
     (if ld_gone d then d else (set_open False (unmount_flow d))\<lparr>ld_gone := True\<rparr>)"
| "dialog_step say parse atob (Picked m) d = (if ld_open d \<and> ld_method d = None then selectMethod m d else d)"
| "dialog_step say parse atob WentBack d = (if ld_open d \<and> ld_method d \<noteq> None then go_back d else d)"
| "dialog_step say parse atob Canceled d = (if ld_open d then handleOpenChange False d else d)"
| "dialog_step say parse atob Dismissed d = (if ld_open d \<and> \<not> ld_busy d then handleOpenChange False d else d)"
| "dialog_step say parse atob FlowRemoved d = (if ld_open d then d else unmount_flow d)"
| "dialog_step say parse atob (Typed field v) d = (case ld_flow d of
     Some f \<Rightarrow> if ld_open d \<and> \<not> flow_pending f then d\<lparr>ld_flow := Some (type_into field v f)\<rparr> else d | None \<Rightarrow> d)"
| "dialog_step say parse atob Submitted d = (if ld_open d then submit_flow say parse atob d else d)"
| "dialog_step say parse atob TimerFired d = timer_fired d"
| "dialog_step say parse atob (AnswerCame n ans) d = answer_arrives say n ans d"

inductive dialog_reach ::
  "phrases \<Rightarrow> (string \<Rightarrow> json option) \<Rightarrow> (string \<Rightarrow> string option) \<Rightarrow> login_dialog \<Rightarrow> bool"
  for say parse atob where
  dialog_mounted: "dialog_reach say parse atob (fresh_dialog initial opened)"
| dialog_stepped: "dialog_reach say parse atob d \<Longrightarrow> dialog_reach say parse atob (dialog_step say parse atob e d)"

end
