(* ===== verification/Login_Invariants.thy ===== *)
theory Login_Invariants
  imports Login_Dialog
begin

text \<open>
  What the add-account dialog keeps at any time of its life, whatever is typed and pressed, in whatever order the
  answers come and the timer fires: requests in flight and the form that waits for them, the one chain of
  polls of a device code, and the logins the server has opened. Each part of the invariant is a predicate on
  the dialog; \<open>dialog_simps\<close> collects what each operation does to each field.
\<close>

named_theorems dialog_simps

subsection \<open>The parts of the invariant\<close>

fun after_add :: "flow_request \<Rightarrow> bool" where
  "after_add (RefetchAdded _) = True" | "after_add (RefreshAdded _ _) = True" | "after_add _ = False"

fun is_poll :: "flow_request \<Rightarrow> bool" where
  "is_poll (PollBuilderId _ _ _) = True" | "is_poll _ = False"

definition form_request :: "flow_request \<Rightarrow> bool" where
  "form_request rq \<longleftrightarrow> \<not> after_add rq \<and> \<not> is_poll rq"

definition generation_of :: "login_dialog \<Rightarrow> nat" where
  "generation_of d = fs_generation (ld_sessions d)"

definition old_ok :: "login_dialog \<Rightarrow> bool" where
  "old_ok d \<longleftrightarrow> 1 \<le> ld_key d \<and>
     (\<forall>r\<in>set (ld_inflight d). if_generation r \<le> generation_of d \<and> if_key r \<le> ld_key d)"

definition form_calls :: "login_dialog \<Rightarrow> nat" where
  "form_calls d = length (filter (\<lambda>r. form_request (if_request r) \<and> if_key r = ld_key d) (ld_inflight d))"

definition busy_ok :: "login_dialog \<Rightarrow> bool" where
  "busy_ok d \<longleftrightarrow> (case ld_flow d of
      None \<Rightarrow> \<not> ld_busy d
    | Some f \<Rightarrow> ld_busy d = flow_pending f \<and> form_calls d = (if flow_pending f then 1 else 0))"

text \<open>What a request of the running generation says of the flow on screen.\<close>

definition fits_flow :: "flow_sessions \<Rightarrow> flow_request \<Rightarrow> flow \<Rightarrow> bool" where
  "fits_flow s rq f = (case rq of
       StartMicrosoft \<Rightarrow> (case f of MicrosoftFlow m \<Rightarrow> mf_stage m = MsIdle | _ \<Rightarrow> False)
     | CompleteMicrosoft sid cb \<Rightarrow> sid = fs_microsoft s \<and>
         (case f of MicrosoftFlow m \<Rightarrow> mf_stage m \<noteq> MsIdle \<and> mf_stage m \<noteq> MsProfile | _ \<Rightarrow> False)
     | SelectProfile sel arn \<Rightarrow> sel = fs_selection s \<and>
         (case f of MicrosoftFlow m \<Rightarrow> mf_stage m = MsProfile | _ \<Rightarrow> False)
     | StartBuilderId region \<Rightarrow> (case f of BuilderIdFlow b \<Rightarrow> bf_code b = None | _ \<Rightarrow> False)
     | PollBuilderId sid i n \<Rightarrow> sid = fs_builderId s \<and> sid \<noteq> [] \<and>
         (case f of BuilderIdFlow b \<Rightarrow> bf_code b \<noteq> None | _ \<Rightarrow> False)
     | _ \<Rightarrow> (case f of MicrosoftFlow m \<Rightarrow> False | BuilderIdFlow b \<Rightarrow> False | _ \<Rightarrow> True))"

definition running :: "login_dialog \<Rightarrow> in_flight \<Rightarrow> bool" where
  "running d r \<longleftrightarrow> if_generation r = generation_of d \<and> \<not> after_add (if_request r)"

definition live_ok :: "login_dialog \<Rightarrow> bool" where
  "live_ok d \<longleftrightarrow> (\<forall>r\<in>set (ld_inflight d). running d r \<longrightarrow>
     if_key r = ld_key d \<and> ld_open d \<and> (\<exists>f. ld_flow d = Some f \<and> fits_flow (ld_sessions d) (if_request r) f))"

definition code_shown :: "login_dialog \<Rightarrow> bool" where
  "code_shown d \<longleftrightarrow> ld_open d \<and> (\<exists>b. ld_flow d = Some (BuilderIdFlow b) \<and> bf_code b \<noteq> None)"

definition login_shown :: "login_dialog \<Rightarrow> bool" where
  "login_shown d \<longleftrightarrow> ld_open d \<and> (\<exists>m. ld_flow d = Some (MicrosoftFlow m) \<and> mf_stage m \<noteq> MsIdle)"

definition held_ok :: "login_dialog \<Rightarrow> bool" where
  "held_ok d \<longleftrightarrow> (fs_microsoft (ld_sessions d) \<noteq> [] \<or> fs_selection (ld_sessions d) \<noteq> [] \<longrightarrow> login_shown d) \<and>
     (fs_builderId (ld_sessions d) \<noteq> [] \<longrightarrow> code_shown d) \<and>
     (\<forall>t. fs_timer (ld_sessions d) = Some t \<longrightarrow>
        po_generation t = generation_of d \<and> po_key t = ld_key d \<and> code_shown d)"

definition live_polls :: "login_dialog \<Rightarrow> nat" where
  "live_polls d = (if fs_timer (ld_sessions d) = None then 0 else 1) +
     length (filter (\<lambda>r. is_poll (if_request r) \<and> if_generation r = generation_of d) (ld_inflight d))"

definition chain_ok :: "login_dialog \<Rightarrow> bool" where
  "chain_ok d \<longleftrightarrow> (fs_builderId (ld_sessions d) \<noteq> [] \<longrightarrow> live_polls d = 1)"

lemmas part_defs = old_ok_def busy_ok_def live_ok_def held_ok_def chain_ok_def

subsection \<open>The operations, field by field\<close>

definition cleared :: "nat \<Rightarrow> flow_sessions" where
  "cleared n = no_sessions\<lparr>fs_generation := n\<rparr>"

lemma cleared_simps [simp]:
  "fs_generation (cleared n) = n" "fs_microsoft (cleared n) = []" "fs_selection (cleared n) = []"
  "fs_builderId (cleared n) = []" "fs_timer (cleared n) = None"
  by (simp_all add: cleared_def no_sessions_def)

definition cancel_of :: "flow_sessions \<Rightarrow> flow_effect list" where
  "cancel_of s = (if fs_microsoft s \<noteq> [] \<or> fs_selection s \<noteq> [] then [CancelSent (fs_microsoft s) (fs_selection s)] else [])"

lemma log_effect_simps [dialog_simps]:
  "ld_initial (log_effect e d) = ld_initial d" "ld_open (log_effect e d) = ld_open d" "ld_method (log_effect e d) = ld_method d"
  "ld_key (log_effect e d) = ld_key d" "ld_busy (log_effect e d) = ld_busy d" "ld_flow (log_effect e d) = ld_flow d"
  "ld_sessions (log_effect e d) = ld_sessions d" "ld_inflight (log_effect e d) = ld_inflight d" "ld_log (log_effect e d) = ld_log d @ [e]"
  by (simp_all add: log_effect_def)

lemma on_sessions_simps [dialog_simps]:
  "ld_initial (on_sessions f d) = ld_initial d" "ld_open (on_sessions f d) = ld_open d"
  "ld_key (on_sessions f d) = ld_key d" "ld_busy (on_sessions f d) = ld_busy d" "ld_flow (on_sessions f d) = ld_flow d"
  "ld_sessions (on_sessions f d) = f (ld_sessions d)" "ld_inflight (on_sessions f d) = ld_inflight d"
  "ld_log (on_sessions f d) = ld_log d"
  by (simp_all add: on_sessions_def)

lemma send_request_simps [dialog_simps]:
  "ld_initial (send_request k g rq d) = ld_initial d" "ld_open (send_request k g rq d) = ld_open d"
  "ld_key (send_request k g rq d) = ld_key d" "ld_busy (send_request k g rq d) = ld_busy d"
  "ld_flow (send_request k g rq d) = ld_flow d" "ld_sessions (send_request k g rq d) = ld_sessions d"
  "ld_inflight (send_request k g rq d) = ld_inflight d @ [\<lparr>if_key = k, if_generation = g, if_request = rq\<rparr>]"
  "ld_log (send_request k g rq d) = ld_log d @ [Sent rq]"
  by (simp_all add: send_request_def log_effect_def)

lemma reset_simps [dialog_simps]:
  "ld_initial (reset_sessions c d) = ld_initial d" "ld_open (reset_sessions c d) = ld_open d"
  "ld_key (reset_sessions c d) = ld_key d" "ld_busy (reset_sessions c d) = ld_busy d"
  "ld_flow (reset_sessions c d) = ld_flow d" "ld_inflight (reset_sessions c d) = ld_inflight d"
  "ld_sessions (reset_sessions c d) = cleared (fs_generation (ld_sessions d) + 1)"
  "ld_log (reset_sessions c d) = ld_log d @ (if c then cancel_of (ld_sessions d) else [])"
  by (simp_all add: reset_sessions_def cancelMicrosoft_def on_sessions_def log_effect_def Let_def stopBuilderId_def cleared_def
      no_sessions_def cancel_of_def)

lemma cancel_of_cleared [simp]: "cancel_of (cleared n) = []"
  by (simp add: cancel_of_def)

lemma close_simps [dialog_simps]:
  "ld_open (set_open False d) = False" "ld_key (set_open False d) = ld_key d" "ld_busy (set_open False d) = ld_busy d"
  "ld_flow (set_open False d) = ld_flow d" "ld_inflight (set_open False d) = ld_inflight d"
  "ld_sessions (set_open False d) = (if ld_open d then cleared (fs_generation (ld_sessions d) + 1) else ld_sessions d)"
  "ld_log (set_open False d) = ld_log d @ (if ld_open d then cancel_of (ld_sessions d) else [])"
  by (auto simp: set_open_def dialog_simps)

lemma finishAdd_simps [dialog_simps]:
  "ld_open (finishAdd refs d) = False" "ld_key (finishAdd refs d) = ld_key d" "ld_busy (finishAdd refs d) = ld_busy d"
  "ld_flow (finishAdd refs d) = ld_flow d"
  "ld_inflight (finishAdd refs d) = ld_inflight d @
     [\<lparr>if_key = 0, if_generation = 0, if_request = RefetchAdded (filter (\<lambda>i. i \<noteq> []) (map ref_id refs))\<rparr>]"
  "ld_sessions (finishAdd refs d) = cleared (fs_generation (ld_sessions d) + (if ld_open d then 2 else 1))"
  "ld_log (finishAdd refs d) = ld_log d @ [OpenChanged False, Added (filter (\<lambda>i. i \<noteq> []) (map ref_id refs)),
     AccountsInvalidated, StatusInvalidated, Sent (RefetchAdded (filter (\<lambda>i. i \<noteq> []) (map ref_id refs)))]"
  by (simp_all add: finishAdd_def Let_def dialog_simps)

lemma unmount_simps [dialog_simps]:
  "ld_open (unmount_flow d) = ld_open d" "ld_key (unmount_flow d) = ld_key d" "ld_flow (unmount_flow d) = None"
  "ld_inflight (unmount_flow d) = ld_inflight d" "ld_log (unmount_flow d) = ld_log d"
  "ld_busy (unmount_flow d) = (case ld_flow d of Some f \<Rightarrow> \<not> flow_pending f \<and> ld_busy d | None \<Rightarrow> ld_busy d)"
  "ld_sessions (unmount_flow d) = (case ld_flow d of Some (BuilderIdFlow _) \<Rightarrow> stopBuilderId (ld_sessions d) | _ \<Rightarrow> ld_sessions d)"
  "ld_initial (unmount_flow d) = ld_initial d"
  by (auto simp: unmount_flow_def Let_def on_sessions_def split: option.splits flow.splits)

lemma mount_simps [dialog_simps]:
  "ld_open (mount_flow m d) = ld_open d" "ld_key (mount_flow m d) = ld_key d + 1" "ld_flow (mount_flow m d) = map_option mounted m"
  "ld_inflight (mount_flow m d) = ld_inflight d" "ld_log (mount_flow m d) = ld_log d"
  "ld_busy (mount_flow m d) = ld_busy (unmount_flow d)" "ld_sessions (mount_flow m d) = ld_sessions (unmount_flow d)"
  by (simp_all add: mount_flow_def Let_def dialog_simps)

lemma on_flow_simps [dialog_simps]:
  "ld_open (on_flow k f d) = ld_open d" "ld_key (on_flow k f d) = ld_key d" "ld_busy (on_flow k f d) = ld_busy d"
  "ld_inflight (on_flow k f d) = ld_inflight d" "ld_log (on_flow k f d) = ld_log d" "ld_sessions (on_flow k f d) = ld_sessions d"
  "ld_flow (on_flow k f d) = (if k = ld_key d then map_option f (ld_flow d) else ld_flow d)"
  by (simp_all add: on_flow_def)

lemma report_simps [dialog_simps]:
  "ld_open (report_busy k b d) = ld_open d" "ld_key (report_busy k b d) = ld_key d"
  "ld_inflight (report_busy k b d) = ld_inflight d" "ld_log (report_busy k b d) = ld_log d"
  "ld_sessions (report_busy k b d) = ld_sessions d"
  "ld_busy (report_busy k b d) = (if k = ld_key d \<and> ld_flow d \<noteq> None then b else ld_busy d)"
  "ld_flow (report_busy k b d) = (if k = ld_key d then map_option (set_pending b) (ld_flow d) else ld_flow d)"
  by (auto simp: report_busy_def)

lemma stop_simps [simp]:
  "fs_generation (stopBuilderId s) = fs_generation s" "fs_microsoft (stopBuilderId s) = fs_microsoft s"
  "fs_selection (stopBuilderId s) = fs_selection s" "fs_builderId (stopBuilderId s) = []" "fs_timer (stopBuilderId s) = None"
  by (simp_all add: stopBuilderId_def)

lemma timer_simps [simp]:
  "fs_generation (set_timer k g i n s) = fs_generation s" "fs_microsoft (set_timer k g i n s) = fs_microsoft s"
  "fs_selection (set_timer k g i n s) = fs_selection s" "fs_builderId (set_timer k g i n s) = fs_builderId s"
  "fs_timer (set_timer k g i n s) = Some \<lparr>po_key = k, po_generation = g, po_interval = i, po_failures = n\<rparr>"
  by (simp_all add: set_timer_def)

lemma pending_simps [simp]: "flow_pending (set_pending b f) = b"
  by (cases f) simp_all

lemma mounted_idle [simp]: "\<not> flow_pending (mounted m)"
  by (cases m) simp_all

subsection \<open>Requests and forms\<close>

text \<open>The part of the invariant that is about requests and the form on screen.\<close>

definition core_ok :: "login_dialog \<Rightarrow> bool" where
  "core_ok d \<longleftrightarrow> old_ok d \<and> busy_ok d \<and> live_ok d \<and> held_ok d \<and> chain_ok d"

definition quiet :: "login_dialog \<Rightarrow> bool" where
  "quiet d \<longleftrightarrow> (\<forall>r\<in>set (ld_inflight d). \<not> running d r)"

text \<open>Between two requests of a form: it is pending and nothing of it is in flight.\<close>

definition between :: "login_dialog \<Rightarrow> bool" where
  "between d \<longleftrightarrow> old_ok d \<and> quiet d \<and> form_calls d = 0 \<and> ld_open d \<and> ld_busy d \<and> held_ok d \<and>
     (\<exists>f. ld_flow d = Some f \<and> flow_pending f) \<and> fs_builderId (ld_sessions d) = [] \<and> fs_timer (ld_sessions d) = None"

definition same_view :: "flow \<Rightarrow> flow \<Rightarrow> bool" where
  "same_view f g \<longleftrightarrow> (case f of
      BuilderIdFlow b \<Rightarrow> (case g of BuilderIdFlow c \<Rightarrow> bf_code c = bf_code b | _ \<Rightarrow> False)
    | MicrosoftFlow m \<Rightarrow> (case g of MicrosoftFlow k \<Rightarrow> mf_stage k = mf_stage m | _ \<Rightarrow> False)
    | _ \<Rightarrow> (case g of BuilderIdFlow c \<Rightarrow> False | MicrosoftFlow k \<Rightarrow> False | _ \<Rightarrow> True))"

lemma same_view_fits: "same_view f g \<Longrightarrow> fits_flow s rq g = fits_flow s rq f"
  by (cases rq) (auto simp: same_view_def fits_flow_def split: flow.splits)

lemma same_view_pending [simp]: "same_view f (set_pending b f)" "same_view (set_pending b f) f" "same_view f f"
  by (cases f; simp add: same_view_def)+

lemma same_view_trans: "same_view f g \<Longrightarrow> same_view g h \<Longrightarrow> same_view f h"
  by (auto simp: same_view_def split: flow.splits)

lemma same_view_typed: "same_view f (type_into field v f) \<and> flow_pending (type_into field v f) = flow_pending f"
  by (cases f) (auto simp: same_view_def type_iam_def type_microsoft_def type_local_def split: option.splits)

lemma same_view_shown:
  assumes "same_view f g"
  shows "(\<exists>b. f = BuilderIdFlow b \<and> bf_code b \<noteq> None) = (\<exists>b. g = BuilderIdFlow b \<and> bf_code b \<noteq> None)"
    and "(\<exists>m. f = MicrosoftFlow m \<and> mf_stage m \<noteq> MsIdle) = (\<exists>m. g = MicrosoftFlow m \<and> mf_stage m \<noteq> MsIdle)"
  using assms by (auto simp: same_view_def split: flow.splits)

text \<open>Only sessions, requests, key, form, openness and the busy flag matter.\<close>

lemma core_cong:
  assumes "ld_sessions e = ld_sessions d" "ld_inflight e = ld_inflight d" "ld_key e = ld_key d" "ld_flow e = ld_flow d"
    and "ld_open e = ld_open d" "ld_busy e = ld_busy d"
  shows "core_ok e = core_ok d" "between e = between d" "quiet e = quiet d"
  using assms by (simp_all add: core_ok_def between_def quiet_def running_def part_defs form_calls_def live_polls_def
      code_shown_def login_shown_def generation_of_def cong: option.case_cong)

lemma core_log_effect [simp]: "core_ok (log_effect e d) = core_ok d" "between (log_effect e d) = between d"
  by (rule core_cong; simp add: dialog_simps)+

lemma idle_quiet:
  assumes "core_ok d" "ld_flow d = Some f" "\<not> flow_pending f" "\<not> code_shown d"
  shows "quiet d"
  unfolding quiet_def
proof (intro ballI notI)
  fix r assume r: "r \<in> set (ld_inflight d)" "running d r"
  then have l: "if_key r = ld_key d" "ld_open d" "fits_flow (ld_sessions d) (if_request r) f"
    using assms(1,2) by (auto simp: core_ok_def live_ok_def)
  have "\<not> is_poll (if_request r)"
    using l assms(2,4) by (cases "if_request r") (auto simp: fits_flow_def code_shown_def split: flow.splits)
  then have "form_request (if_request r)" using r(2) by (simp add: form_request_def running_def)
  then have "form_calls d \<noteq> 0" using r(1) l(1) by (auto simp: form_calls_def filter_empty_conv)
  then show False using assms(1,2,3) by (simp add: core_ok_def busy_ok_def)
qed

text \<open>A form is submitted: it becomes pending, and then its request goes out.\<close>

lemma change_form:
  assumes "core_ok d" "ld_flow d = Some f" "same_view f g" "flow_pending g = flow_pending f"
  shows "core_ok (d\<lparr>ld_flow := Some g\<rparr>)"
  using assms same_view_fits [OF assms(3)] same_view_shown [OF assms(3)]
  by (simp add: core_ok_def part_defs form_calls_def live_polls_def code_shown_def login_shown_def generation_of_def running_def)

lemma submit_between:
  assumes "core_ok d" "ld_flow d = Some f" "\<not> flow_pending f" "ld_open d" "same_view f g" "\<not> code_shown d"
  shows "between (report_busy (ld_key d) True (d\<lparr>ld_flow := Some g\<rparr>))"
proof -
  have q: "quiet d" by (rule idle_quiet [OF assms(1,2,3,6)])
  have "form_calls d = 0" using assms by (simp add: core_ok_def busy_ok_def)
  moreover have "fs_builderId (ld_sessions d) = [] \<and> fs_timer (ld_sessions d) = None"
    using assms(1,6) by (cases "fs_timer (ld_sessions d)") (auto simp: core_ok_def held_ok_def)
  moreover have "same_view f (set_pending True g)" using same_view_trans [OF assms(5)] by simp
  ultimately show ?thesis using assms q same_view_shown [of f "set_pending True g"]
    by (simp add: between_def core_ok_def part_defs quiet_def running_def form_calls_def code_shown_def login_shown_def
        generation_of_def dialog_simps)
qed

lemma between_sends:
  assumes "between d" "form_request rq" "\<exists>f. ld_flow d = Some f \<and> fits_flow (ld_sessions d) rq f"
  shows "core_ok (send_request (ld_key d) (fs_generation (ld_sessions d)) rq d)"
proof -
  have "\<not> is_poll rq" using assms(2) by (simp add: form_request_def)
  then show ?thesis using assms
    by (auto simp: between_def core_ok_def part_defs quiet_def running_def form_calls_def live_polls_def code_shown_def
        login_shown_def generation_of_def dialog_simps)
qed

lemma between_settles:
  assumes "between d"
  shows "core_ok (report_busy (ld_key d) False d)"
proof -
  obtain f where f: "ld_flow d = Some f" using assms by (auto simp: between_def)
  show ?thesis using assms f same_view_shown [of f "set_pending False f"]
    by (auto simp: between_def core_ok_def part_defs quiet_def running_def form_calls_def live_polls_def code_shown_def
        login_shown_def generation_of_def dialog_simps)
qed

lemma between_finishes:
  assumes "between d"
  shows "core_ok (report_busy (ld_key d) False (finishAdd refs d))"
proof -
  have "form_request (RefetchAdded ids) = False" for ids by (simp add: form_request_def)
  then show ?thesis using assms
    by (auto simp: between_def core_ok_def part_defs quiet_def running_def form_calls_def live_polls_def code_shown_def
        login_shown_def generation_of_def dialog_simps)
qed

lemma between_form:
  assumes "between d" "ld_flow d = Some f" "same_view f g" "flow_pending g"
  shows "between (d\<lparr>ld_flow := Some g\<rparr>)"
  using assms same_view_shown [OF assms(3)]
  by (simp add: between_def old_ok_def held_ok_def quiet_def running_def form_calls_def code_shown_def login_shown_def generation_of_def)

subsection \<open>An answer comes\<close>

definition answered :: "nat \<Rightarrow> flow_answer \<Rightarrow> login_dialog \<Rightarrow> login_dialog" where
  "answered n ans d = log_effect (Answered (if_request (ld_inflight d ! n)) ans)
     (d\<lparr>ld_inflight := take n (ld_inflight d) @ drop (Suc n) (ld_inflight d)\<rparr>)"

lemma answered_simps [dialog_simps]:
  "ld_open (answered n ans d) = ld_open d" "ld_key (answered n ans d) = ld_key d" "ld_busy (answered n ans d) = ld_busy d"
  "ld_flow (answered n ans d) = ld_flow d" "ld_sessions (answered n ans d) = ld_sessions d"
  "ld_inflight (answered n ans d) = take n (ld_inflight d) @ drop (Suc n) (ld_inflight d)"
  "ld_log (answered n ans d) = ld_log d @ [Answered (if_request (ld_inflight d ! n)) ans]"
  by (simp_all add: answered_def log_effect_def)

lemma filter_removed:
  "n < length xs \<Longrightarrow> length (filter P xs) = (if P (xs ! n) then 1 else 0) + length (filter P (take n xs @ drop (Suc n) xs))"
  by (subst id_take_nth_drop [of n xs]) auto

lemma set_removed: "set (take n xs @ drop (Suc n) xs) \<subseteq> set xs"
  by (auto dest: in_set_takeD in_set_dropD)

lemma form_calls_answered:
  assumes "n < length (ld_inflight d)"
  shows "form_calls d = (if form_request (if_request (ld_inflight d ! n)) \<and> if_key (ld_inflight d ! n) = ld_key d then 1 else 0) +
    form_calls (answered n ans d)"
  using filter_removed [OF assms, of "\<lambda>r. form_request (if_request r) \<and> if_key r = ld_key d"]
  by (simp add: form_calls_def answered_simps)

lemma old_answered: "old_ok d \<Longrightarrow> old_ok (answered n ans d)"
  using set_removed [of n "ld_inflight d"] by (auto simp: old_ok_def generation_of_def answered_simps)

lemma live_answered: "live_ok d \<Longrightarrow> live_ok (answered n ans d)"
  using set_removed [of n "ld_inflight d"]
  by (auto simp: live_ok_def running_def generation_of_def answered_simps)

lemma held_answered: "held_ok (answered n ans d) = held_ok d"
  by (simp add: held_ok_def generation_of_def login_shown_def code_shown_def answered_simps)

lemma polls_answered:
  assumes "n < length (ld_inflight d)"
  shows "live_polls d = (if is_poll (if_request (ld_inflight d ! n)) \<and> if_generation (ld_inflight d ! n) = generation_of d then 1 else 0) +
    live_polls (answered n ans d)"
  using filter_removed [OF assms, of "\<lambda>r. is_poll (if_request r) \<and> if_generation r = generation_of d"]
  by (simp add: live_polls_def generation_of_def answered_simps)

lemmas answered_parts = old_answered live_answered held_answered

text \<open>Of a running form nothing else is in flight.\<close>

lemma fits_exclusive:
  assumes "fits_flow s rq f" "fits_flow s rq' f" "form_request rq" "is_poll rq'"
  shows False
  using assms by (cases rq'; cases rq) (auto simp: fits_flow_def form_request_def split: flow.splits)

lemma answered_between:
  assumes "core_ok d" "n < length (ld_inflight d)" "running d (ld_inflight d ! n)" "form_request (if_request (ld_inflight d ! n))"
  shows "between (answered n ans d)"
    and "if_key (ld_inflight d ! n) = ld_key d \<and> if_generation (ld_inflight d ! n) = fs_generation (ld_sessions d) \<and>
      (\<exists>f. ld_flow d = Some f \<and> fits_flow (ld_sessions d) (if_request (ld_inflight d ! n)) f)"
proof -
  let ?r = "ld_inflight d ! n" and ?e = "answered n ans d"
  have r: "?r \<in> set (ld_inflight d)" using assms(2) by simp
  from assms(1,3) r obtain f where f: "if_key ?r = ld_key d" "ld_open d" "ld_flow d = Some f"
    "fits_flow (ld_sessions d) (if_request ?r) f" by (auto simp: core_ok_def live_ok_def)
  have calls: "form_calls d = 1 + form_calls ?e" using form_calls_answered [OF assms(2)] assms(4) f(1) by simp
  then have p: "flow_pending f" "form_calls ?e = 0" "ld_busy d"
    using assms(1) f(3) by (auto simp: core_ok_def busy_ok_def split: if_splits)
  have no_code: "\<not> code_shown d"
    using f(3,4) assms(4) by (cases "if_request ?r") (auto simp: code_shown_def fits_flow_def form_request_def)
  have "quiet ?e" unfolding quiet_def
  proof (intro ballI notI)
    fix q assume q: "q \<in> set (ld_inflight ?e)" "running ?e q"
    have "live_ok ?e" using live_answered assms(1) by (simp add: core_ok_def)
    with q f(3) have l: "if_key q = ld_key d" "fits_flow (ld_sessions d) (if_request q) f"
      by (auto simp: live_ok_def answered_simps)
    have "\<not> is_poll (if_request q)" using fits_exclusive [OF f(4) l(2) assms(4)] by blast
    then have "form_request (if_request q)" using q(2) by (simp add: form_request_def running_def)
    then show False using p(2) q(1) l(1) by (auto simp: form_calls_def filter_empty_conv answered_simps)
  qed
  moreover have "fs_builderId (ld_sessions d) = [] \<and> fs_timer (ld_sessions d) = None"
    using assms(1) no_code by (cases "fs_timer (ld_sessions d)") (auto simp: core_ok_def held_ok_def)
  ultimately show "between ?e" using assms(1) f p by (simp add: between_def core_ok_def answered_parts answered_simps)
  show "if_key ?r = ld_key d \<and> if_generation ?r = fs_generation (ld_sessions d) \<and>
      (\<exists>f. ld_flow d = Some f \<and> fits_flow (ld_sessions d) (if_request ?r) f)"
    using f assms(3) by (simp add: running_def generation_of_def)
qed

text \<open>A late answer only ends the waiting of its form, when that is still there.\<close>

lemma answered_other:
  assumes "core_ok d" "n < length (ld_inflight d)" "\<not> running d (ld_inflight d ! n)"
  shows "form_request (if_request (ld_inflight d ! n)) \<Longrightarrow> core_ok (report_busy (if_key (ld_inflight d ! n)) False (answered n ans d))"
    and "\<not> form_request (if_request (ld_inflight d ! n)) \<Longrightarrow> core_ok (answered n ans d)"
proof -
  let ?r = "ld_inflight d ! n" and ?e = "answered n ans d"
  have "\<not> (is_poll (if_request ?r) \<and> if_generation ?r = generation_of d)"
    using assms(3) by (cases "if_request ?r") (auto simp: running_def)
  then have polls: "live_polls ?e = live_polls d" using polls_answered [OF assms(2), of ans] by auto
  then have rest: "old_ok ?e \<and> live_ok ?e \<and> held_ok ?e \<and> chain_ok ?e"
    using assms(1) by (simp add: core_ok_def answered_parts chain_ok_def answered_simps)
  { assume "\<not> form_request (if_request ?r)"
    then have "form_calls ?e = form_calls d" using form_calls_answered [OF assms(2), of ans] by simp
    then show "core_ok ?e" using assms(1) rest by (simp add: core_ok_def busy_ok_def answered_simps cong: option.case_cong)
  }
  { assume fr: "form_request (if_request ?r)"
    show "core_ok (report_busy (if_key ?r) False ?e)"
    proof (cases "if_key ?r = ld_key d \<and> ld_flow d \<noteq> None")
      case True
      then obtain f where f: "ld_flow d = Some f" by auto
      have "form_calls d = 1 + form_calls ?e" using form_calls_answered [OF assms(2), of ans] True fr by simp
      then have z: "form_calls ?e = 0" using assms(1) f by (auto simp: core_ok_def busy_ok_def split: if_splits)
      have "form_calls (report_busy (if_key ?r) False ?e) = form_calls ?e" by (simp add: form_calls_def report_simps)
      moreover have "live_polls (report_busy (if_key ?r) False ?e) = live_polls ?e"
        by (simp add: live_polls_def generation_of_def report_simps)
      ultimately show ?thesis using z rest f True same_view_shown [of f "set_pending False f"] same_view_fits [of f "set_pending False f"]
        by (simp add: core_ok_def part_defs running_def code_shown_def login_shown_def generation_of_def dialog_simps)
    next
      case False
      then have "form_calls ?e = form_calls d \<or> ld_flow d = None"
        using form_calls_answered [OF assms(2), of ans] by auto
      moreover have "report_busy (if_key ?r) False ?e = ?e" using False by (auto simp: report_busy_def answered_simps)
      ultimately show ?thesis using rest assms(1)
        by (auto simp: core_ok_def busy_ok_def answered_simps split: option.splits)
    qed
  }
qed

subsection \<open>What each answer does to requests and forms\<close>

lemma report_log_effect [simp]: "core_ok (report_busy k b (log_effect x d)) = core_ok (report_busy k b d)"
  by (rule core_cong) (auto simp: dialog_simps)

lemma show_failure_simps [simp]:
  "between (show_failure say g t fl e d) = between d" "ld_key (show_failure say g t fl e d) = ld_key d"
  "core_ok (report_busy k b (show_failure say g t fl e d)) = core_ok (report_busy k b d)"
  by (simp_all add: show_failure_def dialog_simps)

lemma tell_success_simps [simp]: "between (tell_success say ref d) = between d" "ld_key (tell_success say ref d) = ld_key d"
  by (simp_all add: tell_success_def dialog_simps)

lemma batch_result_simps [simp]:
  "between (showBatchResult say n fs d) = between d" "ld_key (showBatchResult say n fs d) = ld_key d"
  by (simp_all add: showBatchResult_def Let_def dialog_simps)

lemma between_sessions:
  assumes "between d" "fs_generation (g (ld_sessions d)) = fs_generation (ld_sessions d)" "fs_builderId (g (ld_sessions d)) = []"
    and "fs_timer (g (ld_sessions d)) = None"
    and "fs_microsoft (g (ld_sessions d)) \<noteq> [] \<or> fs_selection (g (ld_sessions d)) \<noteq> [] \<Longrightarrow> login_shown d"
  shows "between (on_sessions g d)"
  using assms
  by (auto simp: between_def old_ok_def quiet_def running_def form_calls_def held_ok_def generation_of_def login_shown_def
      on_sessions_simps)

lemma between_on_flow:
  assumes "between d" "\<And>f. ld_flow d = Some f \<Longrightarrow> same_view f (h f) \<and> flow_pending (h f) = flow_pending f"
  shows "between (on_flow k h d)"
proof (cases "k = ld_key d")
  case True
  obtain f where f: "ld_flow d = Some f" "flow_pending f" using assms(1) by (auto simp: between_def)
  then have "on_flow k h d = d\<lparr>ld_flow := Some (h f)\<rparr>" using True by (simp add: on_flow_def)
  then show ?thesis using between_form [OF assms(1) f(1)] assms(2) [OF f(1)] f(2) by simp
next
  case False
  then show ?thesis using assms(1) by (simp add: on_flow_def)
qed

lemma between_settles': "between d \<Longrightarrow> k = ld_key d \<Longrightarrow> core_ok (report_busy k False d)"
  using between_settles by simp

lemma between_finishes': "between d \<Longrightarrow> k = ld_key d \<Longrightarrow> core_ok (report_busy k False (finishAdd refs d))"
  using between_finishes by simp

lemmas settle_rules = between_settles' between_finishes' between_sessions between_on_flow

lemma poll_not_after [simp]: "is_poll rq \<Longrightarrow> \<not> after_add rq"
  by (cases rq) simp_all

lemma builderId_started_core:
  assumes "between d" "k = ld_key d" "\<exists>f. ld_flow d = Some f \<and> fits_flow (ld_sessions d) (StartBuilderId region) f"
    and "g = fs_generation (ld_sessions d)"
  shows "core_ok (builderId_started say k g ans d)"
proof -
  from assms(3) obtain f where f: "ld_flow d = Some f" "fits_flow (ld_sessions d) (StartBuilderId region) f" by blast
  then obtain b where b: "ld_flow d = Some (BuilderIdFlow b)" by (cases f) (auto simp: fits_flow_def)
  have polls: "filter (\<lambda>r. is_poll (if_request r) \<and> if_generation r = fs_generation (ld_sessions d)) (ld_inflight d) = []"
    using assms(1) by (auto simp: between_def quiet_def running_def filter_empty_conv generation_of_def)
  show ?thesis
  proof (cases ans)
    case (BuilderIdStarted sid code uri i)
    then show ?thesis using assms b polls
      by (auto simp: builderId_started_def isCurrent_def on_builder_def between_def core_ok_def part_defs quiet_def running_def
          form_calls_def live_polls_def code_shown_def login_shown_def generation_of_def dialog_simps)
  qed (use assms in \<open>simp_all add: builderId_started_def between_settles'\<close>)
qed

lemma iam_started_core:
  assumes "between d" "k = ld_key d" "g = fs_generation (ld_sessions d)"
  shows "core_ok (iam_started say k g ans d)"
proof (cases ans)
  case (IamStarted sid url)
  have "between (on_sessions (\<lambda>s. s\<lparr>fs_iam := sid\<rparr>) d)"
    using assms(1) by (intro between_sessions) (auto simp: between_def held_ok_def)
  then have "between (on_flow k (on_iam (\<lambda>f. f\<lparr>im_authorizeUrl := url\<rparr>)) (on_sessions (\<lambda>s. s\<lparr>fs_iam := sid\<rparr>) d))"
    by (rule between_on_flow) (auto simp: on_iam_def same_view_def split: flow.splits)
  then show ?thesis using assms IamStarted by (simp add: iam_started_def isCurrent_def between_settles' dialog_simps)
qed (use assms in \<open>simp_all add: iam_started_def between_settles'\<close>)

lemma account_added_core:
  assumes "between d" "k = ld_key d"
  shows "core_ok (account_added say k g field ans d)"
  using assms by (cases ans) (simp_all add: account_added_def between_settles' between_finishes')

lemma tokens_imported_core:
  assumes "between d" "k = ld_key d"
  shows "core_ok (tokens_imported say k g ans d)"
  using assms by (cases ans) (simp_all add: tokens_imported_def between_settles' between_finishes')

lemma finish_batch_core:
  assumes "between d" "k = ld_key d"
  shows "core_ok (finish_batch say k numbered added failures d)"
  using assms by (simp add: finish_batch_def between_settles' between_finishes')

lemma go_batch_core:
  assumes "between d" "\<exists>f. ld_flow d = Some f \<and> fits_flow (ld_sessions d) (ImportNext p0 b0) f"
  shows "core_ok (go_batch say (ld_key d) (fs_generation (ld_sessions d)) numbered i items added failures d)"
proof -
  have "\<exists>f. ld_flow d = Some f \<and> fits_flow (ld_sessions d) (ImportNext p b) f" for p b
    using assms(2) by (simp add: fits_flow_def)
  then show ?thesis using assms(1) finish_batch_core [OF assms(1) refl] between_sends [OF assms(1)]
    by (auto simp: go_batch_def form_request_def split: prod.split option.split)
qed

lemma item_imported_core:
  assumes "between d" "k = ld_key d" "g = fs_generation (ld_sessions d)"
    "\<exists>f. ld_flow d = Some f \<and> fits_flow (ld_sessions d) (ImportNext p b) f"
  shows "core_ok (item_imported say k g b ans d)"
  using assms go_batch_core [OF assms(1,4)] by (simp add: item_imported_def isCurrent_def)

text \<open>The Microsoft login: whatever stage an answer leads to, its form stays between requests.\<close>

lemma microsoft_view:
  assumes "between d" "ld_flow d = Some (MicrosoftFlow m)" "mf_busy (h m) = mf_busy m" "mf_stage (h m) \<noteq> MsIdle"
    and "fs_generation (u (ld_sessions d)) = fs_generation (ld_sessions d)" "fs_builderId (u (ld_sessions d)) = []"
      "fs_timer (u (ld_sessions d)) = None"
  shows "between (on_flow (ld_key d) (on_microsoft h) (on_sessions u d))"
  using assms
  by (auto simp: between_def old_ok_def quiet_def running_def form_calls_def held_ok_def generation_of_def login_shown_def
      on_microsoft_def dialog_simps)

lemma microsoft_started_between:
  assumes "between d" "ld_flow d = Some (MicrosoftFlow m)"
  shows "between (microsoft_started (ld_key d) ans d)" "ld_key (microsoft_started k ans d) = ld_key d"
proof -
  show "between (microsoft_started (ld_key d) ans d)"
    using assms by (cases ans) (auto simp: microsoft_started_def between_def [of d] intro!: microsoft_view)
  show "ld_key (microsoft_started k ans d) = ld_key d"
    by (cases ans) (simp_all add: microsoft_started_def dialog_simps)
qed

lemma microsoft_done_core:
  assumes "between d" "k = ld_key d"
  shows "core_ok (report_busy k False (microsoft_done say ref w d))"
proof -
  have "between (on_sessions (\<lambda>s. s\<lparr>fs_microsoft := [], fs_selection := []\<rparr>) d)"
    using assms(1) by (intro between_sessions) (auto simp: between_def)
  then show ?thesis using assms(2) unfolding microsoft_done_def
    by (intro between_finishes') (auto simp: dialog_simps split: option.split list.split)
qed

lemma on_sessions_id: "on_sessions (\<lambda>s. s) d = d"
  by (simp add: on_sessions_def)

lemma microsoft_completed_core:
  assumes "between d" "ld_flow d = Some (MicrosoftFlow m)" "mf_stage m \<noteq> MsIdle" "k = ld_key d"
  shows "core_ok (report_busy k False (microsoft_completed say k ans d))"
proof (cases ans)
  case (MicrosoftStage st)
  note z = assms(1) [unfolded between_def]
  show ?thesis
  proof (cases st)
    case (StageMicrosoft url)
    have "between (on_flow k (on_microsoft (\<lambda>f. f\<lparr>mf_authorizeUrl := url, mf_callback := [], mf_stage := MsMicrosoft\<rparr>))
        (on_sessions (\<lambda>s. s) d))"
      using assms z by (auto intro!: microsoft_view)
    then show ?thesis using MicrosoftStage StageMicrosoft assms(4)
      by (simp add: microsoft_completed_def on_sessions_id between_settles' dialog_simps)
  next
    case (StageProfile sel ps)
    have "between (on_flow k (on_microsoft (\<lambda>f. f\<lparr>mf_profiles := ps, mf_arn := (case ps of [] \<Rightarrow> [] | p # _ \<Rightarrow> kp_arn p),
        mf_stage := MsProfile\<rparr>)) (on_sessions (\<lambda>s. s\<lparr>fs_selection := sel\<rparr>) d))"
      using assms z by (auto intro!: microsoft_view)
    then show ?thesis using MicrosoftStage StageProfile assms(4)
      by (simp add: microsoft_completed_def between_settles' dialog_simps)
  next
    case (StageComplete ref w)
    then show ?thesis using MicrosoftStage assms by (simp add: microsoft_completed_def microsoft_done_core)
  qed
qed (use assms in \<open>simp_all add: microsoft_completed_def between_settles'\<close>)

lemma microsoft_step_core:
  assumes "between d" "k = ld_key d" "core_ok (report_busy k False (f d))" 
  shows "core_ok (microsoft_step say k g onError f ans d)"
  using assms by (auto simp: microsoft_step_def cancel_late_def between_settles'
      split: flow_answer.split option.split microsoft_complete_response.split)

subsection \<open>The polls\<close>

lemma answered_poll:
  assumes "core_ok d" "n < length (ld_inflight d)" "running d (ld_inflight d ! n)"
    and "if_request (ld_inflight d ! n) = PollBuilderId sid i m"
  shows "quiet (answered n ans d) \<and> old_ok (answered n ans d) \<and> busy_ok (answered n ans d) \<and> held_ok (answered n ans d) \<and>
    fs_timer (ld_sessions d) = None \<and> fs_builderId (ld_sessions d) = sid \<and> sid \<noteq> [] \<and>
    if_key (ld_inflight d ! n) = ld_key d \<and> if_generation (ld_inflight d ! n) = fs_generation (ld_sessions d) \<and> ld_open d \<and>
    (\<exists>b. ld_flow d = Some (BuilderIdFlow b) \<and> bf_code b \<noteq> None)"
proof -
  let ?r = "ld_inflight d ! n" and ?e = "answered n ans d"
  have r: "?r \<in> set (ld_inflight d)" using assms(2) by simp
  from assms(1,3) r obtain f where f: "if_key ?r = ld_key d" "ld_open d" "ld_flow d = Some f"
    "fits_flow (ld_sessions d) (if_request ?r) f" by (auto simp: core_ok_def live_ok_def)
  then obtain b where b: "f = BuilderIdFlow b" "bf_code b \<noteq> None" "fs_builderId (ld_sessions d) = sid" "sid \<noteq> []"
    using assms(4) by (cases f) (auto simp: fits_flow_def)
  have "live_polls d = 1" using assms(1) b(3,4) by (simp add: core_ok_def chain_ok_def)
  then have z: "live_polls ?e = 0"
    using polls_answered [OF assms(2), of ans] assms(3,4) by (simp add: running_def split: if_splits)
  then have timer: "fs_timer (ld_sessions d) = None" by (simp add: live_polls_def answered_simps split: if_splits)
  have "quiet ?e" unfolding quiet_def
  proof (intro ballI notI)
    fix q assume q: "q \<in> set (ld_inflight ?e)" "running ?e q"
    have "live_ok ?e" using live_answered assms(1) by (simp add: core_ok_def)
    with q f(3) have l: "fits_flow (ld_sessions d) (if_request q) f" by (auto simp: live_ok_def answered_simps)
    have "is_poll (if_request q)"
      using l b(1,2) q(2) by (cases "if_request q") (auto simp: fits_flow_def running_def)
    then have "live_polls ?e \<noteq> 0"
      using q by (auto simp: live_polls_def running_def filter_empty_conv)
    then show False using z by simp
  qed
  moreover have "form_calls ?e = form_calls d"
    using form_calls_answered [OF assms(2), of ans] assms(4) by (simp add: form_request_def)
  then have "busy_ok ?e" using assms(1) by (simp add: core_ok_def busy_ok_def answered_simps cong: option.case_cong)
  ultimately show ?thesis using assms(1,3) f b timer
    by (simp add: core_ok_def answered_parts running_def generation_of_def)
qed

lemma live_polls_quiet: "quiet d \<Longrightarrow> live_polls d = (if fs_timer (ld_sessions d) = None then 0 else 1)"
  by (auto simp: quiet_def running_def live_polls_def filter_empty_conv)

lemma quiet_live: "quiet d \<Longrightarrow> live_ok d"
  by (auto simp: quiet_def live_ok_def)

lemma quiet_cong:
  "ld_inflight e = ld_inflight d \<Longrightarrow> fs_generation (ld_sessions e) = fs_generation (ld_sessions d) \<Longrightarrow> quiet d \<Longrightarrow> quiet e"
  by (simp add: quiet_def running_def generation_of_def)

text \<open>A poll that goes on sets the timer, one that is over stops, and one that has brought the account closes.\<close>

lemma poll_goes_on:
  assumes "quiet d" "old_ok d" "busy_ok d" "held_ok d" "ld_open d" "ld_flow d = Some (BuilderIdFlow b)" "bf_code b \<noteq> None"
    and "bf_code (h b) = bf_code b" "bf_starting (h b) = bf_starting b"
  shows "core_ok (on_sessions (set_timer (ld_key d) (fs_generation (ld_sessions d)) i m) (on_flow (ld_key d) (on_builder h) d))"
    (is "core_ok ?e")
proof -
  have q: "quiet ?e" by (rule quiet_cong [OF _ _ assms(1)]) (simp_all add: dialog_simps)
  then have "live_polls ?e = 1" by (simp add: live_polls_quiet dialog_simps)
  moreover have "form_calls ?e = form_calls d" by (simp add: form_calls_def dialog_simps)
  ultimately show ?thesis using assms quiet_live [OF q]
    by (auto simp: core_ok_def old_ok_def busy_ok_def held_ok_def chain_ok_def generation_of_def code_shown_def login_shown_def
        on_builder_def dialog_simps)
qed

lemma poll_stops:
  assumes "quiet d" "old_ok d" "busy_ok d" "held_ok d" "ld_flow d = Some (BuilderIdFlow b)" "bf_starting (h b) = bf_starting b"
  shows "core_ok (on_flow (ld_key d) (on_builder h) (on_sessions stopBuilderId d))" (is "core_ok ?e")
proof -
  have q: "quiet ?e" by (rule quiet_cong [OF _ _ assms(1)]) (simp_all add: dialog_simps)
  have "form_calls ?e = form_calls d" by (simp add: form_calls_def dialog_simps)
  then show ?thesis using assms quiet_live [OF q]
    by (auto simp: core_ok_def old_ok_def busy_ok_def held_ok_def chain_ok_def generation_of_def code_shown_def login_shown_def
        on_builder_def dialog_simps)
qed

lemma poll_finishes:
  assumes "old_ok d" "busy_ok d"
  shows "core_ok (finishAdd refs d)" (is "core_ok ?e")
proof -
  have q: "quiet ?e" using assms(1) by (auto simp: old_ok_def quiet_def running_def generation_of_def dialog_simps)
  have "form_calls ?e = form_calls d" by (simp add: form_calls_def form_request_def dialog_simps)
  then show ?thesis using assms quiet_live [OF q]
    by (auto simp: core_ok_def old_ok_def busy_ok_def held_ok_def chain_ok_def generation_of_def dialog_simps split: option.splits)
qed

lemma builderId_polled_core:
  assumes "core_ok d" "n < length (ld_inflight d)" "running d (ld_inflight d ! n)"
    and "if_request (ld_inflight d ! n) = PollBuilderId sid i m" "answers (PollBuilderId sid i m) ans"
  shows "core_ok (builderId_polled say (if_key (ld_inflight d ! n)) (if_generation (ld_inflight d ! n)) sid i m ans (answered n ans d))"
proof -
  let ?e = "answered n ans d"
  note a = answered_poll [OF assms(1-4), of ans]
  then obtain b where b: "ld_flow ?e = Some (BuilderIdFlow b)" "bf_code b \<noteq> None" by (auto simp: answered_simps)
  have goes: "core_ok (on_sessions (set_timer (ld_key ?e) (fs_generation (ld_sessions ?e)) j l) (on_flow (ld_key ?e) (on_builder h) ?e))"
    if "bf_code (h b) = bf_code b" "bf_starting (h b) = bf_starting b" for j l h
    using a b that by (intro poll_goes_on) (auto simp: answered_simps)
  have stops: "core_ok (on_flow (ld_key ?e) (on_builder h) (on_sessions stopBuilderId ?e))" if "bf_starting (h b) = bf_starting b" for h
    using a b that by (intro poll_stops) auto
  have fin: "core_ok (finishAdd [ref] (tell_success say ref (on_sessions stopBuilderId ?e)))" for ref
    using a by (intro poll_finishes) (auto simp: old_ok_def busy_ok_def form_calls_def generation_of_def tell_success_def dialog_simps
        cong: option.case_cong)
  show ?thesis using a goes stops fin assms(5)
    by (auto simp: builderId_polled_def isCurrent_def stop_polling_def answers_def answered_simps
        split: flow_answer.splits builder_id_poll_response.splits)
qed

subsection \<open>Every answer\<close>

lemma core_send_after: "core_ok d \<Longrightarrow> after_add rq \<Longrightarrow> core_ok (send_request 0 0 rq d)"
proof -
  assume c: "core_ok d" and a: "after_add rq"
  have "\<not> is_poll rq" "\<not> form_request rq" using a by (cases rq; simp add: form_request_def)+
  then have "form_calls (send_request 0 0 rq d) = form_calls d" "live_polls (send_request 0 0 rq d) = live_polls d"
    by (simp_all add: form_calls_def live_polls_def generation_of_def dialog_simps)
  then show ?thesis using c a
    by (auto simp: core_ok_def part_defs running_def code_shown_def login_shown_def generation_of_def dialog_simps split: option.splits)
qed

lemma refresh_rest_core: "core_ok d \<Longrightarrow> core_ok (refresh_rest ids d)"
  by (cases ids) (simp_all add: core_send_after)

lemma late_core:
  assumes "core_ok (report_busy k False d)" "\<not> isCurrent (ld_sessions d) g" "answers rq ans" "form_request rq"
  shows "core_ok (on_answer say k g rq ans d)"
  using assms
  by (cases rq) (auto simp: form_request_def builderId_started_def iam_started_def account_added_def tokens_imported_def
      item_imported_def microsoft_step_def cancel_late_def answers_def show_failure_def
      split: flow_answer.splits microsoft_complete_response.splits)

lemma running_core:
  assumes "between d" "k = ld_key d" "g = fs_generation (ld_sessions d)" "form_request rq"
    and "ld_flow d = Some f" "fits_flow (ld_sessions d) rq f"
  shows "core_ok (on_answer say k g rq ans d)"
proof (cases rq)
  case StartMicrosoft
  then obtain m where "f = MicrosoftFlow m" using assms(6) by (cases f) (auto simp: fits_flow_def)
  then have "between (microsoft_started k ans d)" "ld_key (microsoft_started k ans d) = ld_key d"
    using microsoft_started_between [of d m] assms(1,2,5) by auto
  then show ?thesis using assms(1,2) StartMicrosoft by (auto intro!: microsoft_step_core between_settles')
next
  case (CompleteMicrosoft sid cb)
  then obtain m where "f = MicrosoftFlow m" "mf_stage m \<noteq> MsIdle" using assms(6) by (cases f) (auto simp: fits_flow_def)
  then show ?thesis using assms(1,2,5) CompleteMicrosoft by (auto intro!: microsoft_step_core microsoft_completed_core)
next
  case (SelectProfile sel arn)
  then obtain m where "f = MicrosoftFlow m" "mf_stage m \<noteq> MsIdle" using assms(6) by (cases f) (auto simp: fits_flow_def)
  then show ?thesis using assms(1,2,5) SelectProfile by (auto intro!: microsoft_step_core microsoft_completed_core)
qed (use assms in \<open>auto simp: form_request_def intro!: builderId_started_core iam_started_core account_added_core tokens_imported_core
    item_imported_core\<close>)

lemma on_answer_after: "after_add rq \<Longrightarrow> core_ok d \<Longrightarrow> core_ok (on_answer say k g rq ans d)"
  by (cases "(say, k, g, rq, ans, d)" rule: on_answer.cases) (simp_all add: refresh_rest_core del: refresh_rest.simps)

lemma answer_core:
  assumes "core_ok d"
  shows "core_ok (answer_arrives say n ans d)"
proof (cases "n < length (ld_inflight d) \<and> answers (if_request (ld_inflight d ! n)) ans")
  case True
  let ?r = "ld_inflight d ! n" and ?e = "answered n ans d"
  have step: "answer_arrives say n ans d = on_answer say (if_key ?r) (if_generation ?r) (if_request ?r) ans ?e"
    using True by (simp add: answer_arrives_def answered_def Let_def)
  consider (form) "form_request (if_request ?r)" "running d ?r" | (late) "form_request (if_request ?r)" "\<not> running d ?r"
    | (poll) "is_poll (if_request ?r)" "running d ?r" | (old) "is_poll (if_request ?r)" "\<not> running d ?r"
    | (after) "after_add (if_request ?r)" by (auto simp: form_request_def)
  then show ?thesis
  proof cases
    case form
    then show ?thesis using answered_between(1) [OF assms _ form(2) form(1), of ans] answered_between(2) [OF assms _ form(2) form(1)] True
      unfolding step by (auto intro!: running_core simp: answered_simps)
  next
    case late
    then have "\<not> isCurrent (ld_sessions ?e) (if_generation ?r)"
      by (auto simp: isCurrent_def running_def generation_of_def form_request_def answered_simps)
    then show ?thesis using late_core [OF answered_other(1) [OF assms _ late(2,1)]] True late unfolding step by blast
  next
    case poll
    then obtain sid i m where p: "if_request ?r = PollBuilderId sid i m" by (cases "if_request ?r") auto
    then show ?thesis using builderId_polled_core [OF assms _ poll(2) p] True unfolding step by simp
  next
    case old
    then obtain sid i m where p: "if_request ?r = PollBuilderId sid i m" by (cases "if_request ?r") auto
    then have "if_generation ?r \<noteq> fs_generation (ld_sessions d)" using old(2) by (auto simp: running_def generation_of_def)
    moreover have "core_ok ?e" using answered_other(2) [OF assms _ old(2)] True p by (simp add: form_request_def)
    ultimately show ?thesis using p unfolding step by (simp add: builderId_polled_def isCurrent_def answered_simps)
  next
    case after
    then have "core_ok ?e" using answered_other(2) [OF assms] True by (simp add: running_def form_request_def)
    then show ?thesis unfolding step by (rule on_answer_after [OF after])
  qed
qed (use assms in \<open>auto simp: answer_arrives_def\<close>)

subsection \<open>Every event\<close>

lemma core_ok_fields [simp]: "core_ok (d\<lparr>ld_gone := b\<rparr>) = core_ok d" "core_ok (d\<lparr>ld_method := m\<rparr>) = core_ok d"
  by (rule core_cong; simp)+

lemma closed_empty:
  assumes "held_ok d" "\<not> ld_open d"
  shows "fs_microsoft (ld_sessions d) = [] \<and> fs_selection (ld_sessions d) = [] \<and> fs_builderId (ld_sessions d) = [] \<and>
    fs_timer (ld_sessions d) = None"
  using assms by (cases "fs_timer (ld_sessions d)") (auto simp: held_ok_def login_shown_def code_shown_def)

text \<open>Sessions that were just reset belong to nothing on the way: only the busy flag is left to check.\<close>

lemma reset_core:
  assumes "old_ok d" "ld_sessions e = cleared (fs_generation (ld_sessions d) + Suc k)" "ld_inflight e = ld_inflight d"
    and "ld_key d \<le> ld_key e" "busy_ok e"
  shows "core_ok e"
proof -
  have "quiet e" using assms(1,2,3) by (auto simp: old_ok_def quiet_def running_def generation_of_def)
  moreover have "old_ok e" using assms(1-4) by (force simp: old_ok_def generation_of_def)
  ultimately show ?thesis using assms(2,5)
    by (simp add: core_ok_def quiet_live held_ok_def chain_ok_def)
qed

lemma form_calls_new_key:
  assumes "old_ok d" "ld_inflight e = ld_inflight d" "ld_key d < ld_key e"
  shows "form_calls e = 0"
  using assms by (fastforce simp: form_calls_def old_ok_def filter_empty_conv)

lemma busy_ok_cong:
  "busy_ok d \<Longrightarrow> ld_flow e = ld_flow d \<Longrightarrow> ld_busy e = ld_busy d \<Longrightarrow> ld_key e = ld_key d \<Longrightarrow> ld_inflight e = ld_inflight d \<Longrightarrow> busy_ok e"
  by (simp add: busy_ok_def form_calls_def cong: option.case_cong)

lemma unmounted_busy: "busy_ok d \<Longrightarrow> \<not> ld_busy (unmount_flow d)"
  by (auto simp: busy_ok_def unmount_simps split: option.splits)

lemma unmount_closed_core:
  assumes "core_ok d" "\<not> ld_open d"
  shows "core_ok (unmount_flow d)"
proof -
  have q: "quiet d" using assms by (auto simp: core_ok_def live_ok_def quiet_def)
  have q: "quiet (unmount_flow d)"
    by (rule quiet_cong [OF _ _ q]) (simp_all add: unmount_simps split: option.split flow.split)
  have s: "fs_generation (ld_sessions (unmount_flow d)) = fs_generation (ld_sessions d)"
    "fs_microsoft (ld_sessions (unmount_flow d)) = []" "fs_selection (ld_sessions (unmount_flow d)) = []"
    "fs_builderId (ld_sessions (unmount_flow d)) = []" "fs_timer (ld_sessions (unmount_flow d)) = None"
    using closed_empty [OF _ assms(2)] assms(1) by (auto simp: core_ok_def unmount_simps split: option.split flow.split)
  show ?thesis using assms s q unmounted_busy [of d]
    by (auto simp: core_ok_def old_ok_def busy_ok_def quiet_live held_ok_def chain_ok_def generation_of_def unmount_simps)
qed

lemma open_core:
  assumes "core_ok d" "\<not> ld_open d"
  shows "core_ok (set_open True d)"
proof -
  let ?e = "set_open True d"
  have f: "ld_inflight ?e = ld_inflight d" "ld_key ?e = ld_key d + 1" "\<not> ld_busy ?e"
    "ld_flow ?e = map_option mounted (ld_initial d)" "ld_open ?e"
    "fs_generation (ld_sessions ?e) = fs_generation (ld_sessions d)" "fs_microsoft (ld_sessions ?e) = []"
    "fs_selection (ld_sessions ?e) = []" "fs_builderId (ld_sessions ?e) = []" "fs_timer (ld_sessions ?e) = None"
    using closed_empty [OF _ assms(2)] assms
    by (auto simp: set_open_def mount_simps unmount_simps core_ok_def split: option.split flow.split)
  have "quiet d" using assms by (auto simp: core_ok_def live_ok_def quiet_def)
  then have q: "quiet ?e" using quiet_cong f by blast
  have "form_calls ?e = 0" using form_calls_new_key [of d ?e] assms(1) f by (simp add: core_ok_def)
  then have "busy_ok ?e" using f by (cases "ld_initial d") (simp_all add: busy_ok_def)
  moreover have "old_ok ?e" using assms(1) f by (auto simp: core_ok_def old_ok_def generation_of_def)
  ultimately show ?thesis using q f by (simp add: core_ok_def quiet_live held_ok_def chain_ok_def)
qed

lemma close_core:
  assumes "core_ok d"
  shows "core_ok (set_open False d)"
proof (cases "ld_open d")
  case True
  then show ?thesis using assms
    by (intro reset_core [of d _ 0]) (auto simp: core_ok_def close_simps intro: busy_ok_cong)
qed (use assms in \<open>simp add: set_open_def\<close>)

lemma submit_core:
  assumes "core_ok d" "ld_open d"
  shows "core_ok (submit_flow say parse atob d)"
proof (cases "ld_flow d")
  case (Some f)
  show ?thesis
  proof (cases "flow_pending f \<or> code_shown d")
    case True
    then show ?thesis using Some assms
      by (cases f) (auto simp: submit_flow_def code_shown_def submit_builderId_def)
  next
    case False
    have refuse_form: "core_ok (refuse_form field g d)" if "same_view f g" "flow_pending g = flow_pending f" for field g
      unfolding refuse_form_def using change_form [OF assms(1) Some that] by simp
    have between: "between (report_busy (ld_key d) True (d\<lparr>ld_flow := Some g\<rparr>))" if "same_view f g" for g
      using submit_between [OF assms(1) Some _ assms(2) that] False by simp
    have start: "core_ok (start_request g rq d)" if "same_view f g" "form_request rq" "fits_flow (ld_sessions d) rq g" for g rq
      using between_sends [OF between [OF that(1)] that(2)] that(3) same_view_fits [of g "set_pending True g"]
      by (simp add: start_request_def dialog_simps)
    have batch: "core_ok (start_batch say g numbered items d)" if "same_view f g" "fits_flow (ld_sessions d) (ImportNext p b) g"
      for g numbered items p b
      using go_batch_core [OF between [OF that(1)], of p b] that(2) same_view_fits [of g "set_pending True g"]
      by (simp add: start_batch_def dialog_simps)
    have idle: "fits_flow (ld_sessions d) (ImportNext undefined undefined) g = fits_flow (ld_sessions d) (ImportOne undefined) g" for g
      by (simp add: fits_flow_def)
    show ?thesis
    proof (cases f)
      case (BuilderIdFlow b)
      then have "bf_code b = None" using Some False assms(2) by (cases "bf_code b") (auto simp: code_shown_def)
      then show ?thesis using Some False BuilderIdFlow
        by (auto simp: submit_flow_def submit_builderId_def same_view_def form_request_def fits_flow_def
            intro!: refuse_form start split: option.split)
    next
      case (IamFlow b)
      then show ?thesis using Some False
        by (auto simp: submit_flow_def submit_iam_def Let_def same_view_def form_request_def fits_flow_def
            intro!: refuse_form start split: option.split)
    next
      case (MicrosoftFlow m)
      then show ?thesis using Some False
        by (auto simp: submit_flow_def submit_microsoft_def Let_def same_view_def form_request_def fits_flow_def
            intro!: refuse_form start split: microsoft_stage.split)
    next
      case (SsoTokenFlow b)
      then show ?thesis using Some False
        by (auto simp: submit_flow_def submit_sso_def Let_def same_view_def form_request_def fits_flow_def
            intro!: refuse_form start split: option.split)
    next
      case (LocalCacheFlow b)
      then show ?thesis using Some False
        by (auto simp: submit_flow_def submit_local_def Let_def same_view_def form_request_def fits_flow_def
            intro!: refuse_form start split: sum.split)
    next
      case (CredentialsFlow b)
      then show ?thesis using Some False
        by (auto simp: submit_flow_def submit_credentials_def Let_def same_view_def fits_flow_def
            intro!: refuse_form batch [of _ undefined undefined] split: option.split list.split)
    next
      case (CookieFlow b)
      then show ?thesis using Some False
        by (auto simp: submit_flow_def submit_cookie_def Let_def same_view_def form_request_def fits_flow_def
            intro!: refuse_form start)
    next
      case (ApiKeyFlow b)
      then show ?thesis using Some False
        by (auto simp: submit_flow_def submit_apiKeys_def Let_def same_view_def fits_flow_def
            intro!: refuse_form batch [of _ undefined undefined])
    qed
  qed
qed (simp add: submit_flow_def assms)

lemma timer_core:
  assumes "core_ok d"
  shows "core_ok (timer_fired d)"
proof (cases "fs_timer (ld_sessions d)")
  case (Some t)
  have t: "po_generation t = fs_generation (ld_sessions d)" "po_key t = ld_key d" "code_shown d"
    using assms Some by (auto simp: core_ok_def held_ok_def generation_of_def)
  let ?e = "on_sessions (\<lambda>s. s\<lparr>fs_timer := None\<rparr>) d"
  have e: "old_ok ?e" "busy_ok ?e" "live_ok ?e" "held_ok ?e" "1 + live_polls ?e = live_polls d"
    using assms Some
    by (auto simp: core_ok_def old_ok_def busy_ok_def live_ok_def held_ok_def generation_of_def running_def form_calls_def fits_flow_def
        login_shown_def code_shown_def live_polls_def on_sessions_simps cong: option.case_cong flow_request.case_cong)
  show ?thesis
  proof (cases "fs_builderId (ld_sessions d) = []")
    case True
    then show ?thesis using Some e by (simp add: timer_fired_def Let_def core_ok_def chain_ok_def on_sessions_simps)
  next
    case False
    let ?rq = "PollBuilderId (fs_builderId (ld_sessions d)) (po_interval t) (po_failures t)"
    let ?s = "send_request (ld_key d) (fs_generation (ld_sessions d)) ?rq ?e"
    have r: "timer_fired d = ?s" using Some False t by (simp add: timer_fired_def Let_def isCurrent_def on_sessions_simps)
    have "live_polls d = 1" using False assms by (simp add: core_ok_def chain_ok_def)
    then have "live_polls ?s = 1" using e(5) by (simp add: live_polls_def generation_of_def dialog_simps)
    moreover have "form_calls ?s = form_calls ?e" by (simp add: form_calls_def form_request_def dialog_simps)
    moreover obtain b where "ld_flow d = Some (BuilderIdFlow b)" "bf_code b \<noteq> None" "ld_open d" using t(3) by (auto simp: code_shown_def)
    ultimately show ?thesis using e False unfolding r
      by (auto simp: core_ok_def old_ok_def busy_ok_def live_ok_def held_ok_def chain_ok_def generation_of_def running_def
          login_shown_def code_shown_def fits_flow_def dialog_simps cong: option.case_cong)
  qed
qed (simp add: timer_fired_def assms)

lemma step_core:
  assumes "core_ok d"
  shows "core_ok (dialog_step say parse atob e d)"
proof (cases e)
  case (PageOpens b)
  then show ?thesis using assms close_core open_core by (cases b) (auto simp: set_open_def)
next
  case PageLeft
  have "core_ok (set_open False (unmount_flow d))"
  proof (cases "ld_open d")
    case True
    then show ?thesis using assms unmounted_busy [of d]
      by (intro reset_core [of d _ 0]) (auto simp: core_ok_def busy_ok_def close_simps unmount_simps split: option.split flow.split)
  next
    case False
    then show ?thesis using unmount_closed_core [OF assms] by (simp add: set_open_def unmount_simps)
  qed
  then show ?thesis using PageLeft assms by simp
next
  case (Picked m)
  let ?e = "selectMethod m d"
  have f: "ld_inflight ?e = ld_inflight d" "ld_key ?e = ld_key d + 1" "ld_flow ?e = Some (mounted m)"
    "ld_sessions ?e = cleared (fs_generation (ld_sessions d) + Suc 0)"
    by (auto simp: selectMethod_def mount_simps unmount_simps reset_simps stopBuilderId_def cleared_def no_sessions_def
        split: option.split flow.split)
  have "\<not> ld_busy ?e"
    using assms by (auto simp: selectMethod_def mount_simps unmount_simps reset_simps core_ok_def busy_ok_def split: option.splits)
  then have "busy_ok ?e" using form_calls_new_key [of d ?e] f assms by (simp add: busy_ok_def core_ok_def)
  then have "core_ok ?e" using assms f by (intro reset_core [of d _ 0]) (auto simp: core_ok_def)
  then show ?thesis using Picked assms by simp
next
  case WentBack
  let ?e = "(unmount_flow (reset_sessions True d))\<lparr>ld_busy := False\<rparr>"
  have "core_ok ?e" using assms
    by (intro reset_core [of d _ 0]) (auto simp: core_ok_def busy_ok_def unmount_simps reset_simps stopBuilderId_def cleared_def
        no_sessions_def split: option.split flow.split)
  moreover have "go_back d = ?e\<lparr>ld_method := None\<rparr>" by (simp add: go_back_def)
  ultimately show ?thesis using WentBack assms by (simp del: core_ok_fields(1))
next
  case Canceled
  have "core_ok (handleOpenChange False d)" if "ld_open d"
    using assms that by (intro reset_core [of d _ 1])
      (auto simp: handleOpenChange_def core_ok_def dialog_simps intro: busy_ok_cong)
  then show ?thesis using Canceled assms by simp
next
  case Dismissed
  have "core_ok (handleOpenChange False d)" if "ld_open d"
    using assms that by (intro reset_core [of d _ 1])
      (auto simp: handleOpenChange_def core_ok_def dialog_simps intro: busy_ok_cong)
  then show ?thesis using Dismissed assms by simp
next
  case FlowRemoved
  then show ?thesis using assms unmount_closed_core by simp
next
  case (Typed field v)
  then show ?thesis using assms change_form [OF assms] same_view_typed by (auto split: option.split)
next
  case Submitted
  then show ?thesis using assms submit_core by simp
next
  case TimerFired
  then show ?thesis using assms timer_core by simp
next
  case (AnswerCame n ans)
  then show ?thesis using assms answer_core by simp
qed

lemma fresh_core: "core_ok (fresh_dialog initial opened)"
  by (auto simp: fresh_dialog_def core_ok_def part_defs form_calls_def live_polls_def no_sessions_def split: option.split)

lemma reach_core: "dialog_reach say parse atob d \<Longrightarrow> core_ok d"
  by (induction rule: dialog_reach.induct) (simp_all add: fresh_core step_core)

subsection \<open>The logins at the server\<close>

text \<open>What the server holds open for the client, replaying what was answered and sent: the sign-ins it started and the
  profile choices that replace them (\<open>mockDb.pending.microsoft\<close>). A cancellation ends what it names when it
  is sent; an answer that comes after it opens again what it tells of.\<close>

datatype held_login = HeldSignIn string | HeldChoice string

definition replay :: "held_login list \<Rightarrow> flow_effect \<Rightarrow> held_login list" where
  "replay hs e = (case e of
       Answered rq (MicrosoftStarted sid url) \<Rightarrow> if sid = [] then hs else HeldSignIn sid # hs
     | Answered (CompleteMicrosoft sid cb) (MicrosoftStage st) \<Rightarrow>
         (case st of
            StageProfile sel ps \<Rightarrow> (if sel = [] then [] else [HeldChoice sel]) @ removeAll (HeldSignIn sid) hs
          | StageComplete ref w \<Rightarrow> removeAll (HeldSignIn sid) hs
          | StageMicrosoft url \<Rightarrow> hs)
     | Answered (SelectProfile sel arn) (MicrosoftStage (StageComplete ref w)) \<Rightarrow> removeAll (HeldChoice sel) hs
     | CancelSent sid sel \<Rightarrow> removeAll (HeldSignIn sid) (removeAll (HeldChoice sel) hs)
     | _ \<Rightarrow> hs)"

definition held_logins :: "flow_effect list \<Rightarrow> held_login list" where
  "held_logins out = foldl replay [] out"

lemma held_append [simp]: "held_logins (out @ xs) = foldl replay (held_logins out) xs"
  by (simp add: held_logins_def)

definition opens_login :: "flow_effect \<Rightarrow> bool" where
  "opens_login e \<longleftrightarrow> (\<exists>rq sid url. e = Answered rq (MicrosoftStarted sid url) \<and> sid \<noteq> []) \<or>
     (\<exists>sid cb sel ps. e = Answered (CompleteMicrosoft sid cb) (MicrosoftStage (StageProfile sel ps)) \<and> sel \<noteq> [])"

lemma replay_shrinks: "\<not> opens_login x \<Longrightarrow> set (replay hs x) \<subseteq> set hs"
  by (auto simp: opens_login_def replay_def
      split: flow_effect.splits flow_request.splits flow_answer.splits microsoft_complete_response.splits if_splits)

lemma replays_shrink: "\<not> list_ex opens_login xs \<Longrightarrow> set (foldl replay hs xs) \<subseteq> set hs"
proof (induction xs arbitrary: hs)
  case (Cons x xs)
  then show ?case using replay_shrinks [of x hs] Cons.IH [of "replay hs x"] by auto
qed simp

text \<open>Nothing without an id is held.\<close>

lemma held_named: "h \<in> set (held_logins out) \<Longrightarrow> h \<noteq> HeldSignIn [] \<and> h \<noteq> HeldChoice []"
proof (induction out rule: rev_induct)
  case (snoc x xs)
  then show ?case
    by (auto simp: replay_def
        split: flow_effect.splits flow_request.splits flow_answer.splits microsoft_complete_response.splits if_splits)
qed (simp add: held_logins_def)

definition stage_of :: "flow \<Rightarrow> microsoft_stage option" where
  "stage_of f = (case f of MicrosoftFlow m \<Rightarrow> Some (mf_stage m) | _ \<Rightarrow> None)"

definition stage_shown :: "login_dialog \<Rightarrow> microsoft_stage option" where
  "stage_shown d = (if ld_open d then Option.bind (ld_flow d) stage_of else None)"

text \<open>The books: the one login the server may hold is the profile choice on screen, or else the sign-in of the session.\<close>

definition books_ok :: "login_dialog \<Rightarrow> bool" where
  "books_ok d \<longleftrightarrow> set (held_logins (ld_log d)) \<subseteq>
     (if stage_shown d = Some MsProfile then {HeldChoice (fs_selection (ld_sessions d))}
      else {HeldSignIn (fs_microsoft (ld_sessions d))})"

text \<open>Steps that open no login: one that leaves the login as it is, and one that ends it.\<close>

definition no_start :: "login_dialog \<Rightarrow> login_dialog \<Rightarrow> bool" where
  "no_start d e \<longleftrightarrow> set (held_logins (ld_log e)) \<subseteq> set (held_logins (ld_log d))"

definition keeps :: "login_dialog \<Rightarrow> login_dialog \<Rightarrow> bool" where
  "keeps d e \<longleftrightarrow> no_start d e \<and> fs_microsoft (ld_sessions e) = fs_microsoft (ld_sessions d) \<and>
     fs_selection (ld_sessions e) = fs_selection (ld_sessions d) \<and>
     (stage_shown e = Some MsProfile) = (stage_shown d = Some MsProfile)"

definition leaves :: "login_dialog \<Rightarrow> login_dialog \<Rightarrow> bool" where
  "leaves d e \<longleftrightarrow> stage_shown e \<noteq> Some MsProfile \<and> (books_ok d \<longrightarrow> held_logins (ld_log e) = [])"

lemma keeps_books: "keeps d e \<Longrightarrow> books_ok d \<Longrightarrow> books_ok e"
  unfolding books_ok_def keeps_def no_start_def by auto

lemma leaves_books: "leaves d e \<Longrightarrow> books_ok d \<Longrightarrow> books_ok e"
  unfolding leaves_def by (simp add: books_ok_def [of e])

lemma no_start_trans: "no_start c d \<Longrightarrow> no_start d e \<Longrightarrow> no_start c e"
  unfolding no_start_def by blast

lemma keeps_trans: "keeps c d \<Longrightarrow> keeps d e \<Longrightarrow> keeps c e"
  unfolding keeps_def using no_start_trans by auto

lemma keeps_leaves: "keeps c d \<Longrightarrow> leaves d e \<Longrightarrow> leaves c e"
  using keeps_books by (auto simp: leaves_def)

lemma keeps_refl [simp]: "keeps d d"
  by (simp add: keeps_def no_start_def)

lemma keepsI:
  assumes "ld_log e = ld_log d @ xs" "\<not> list_ex opens_login xs" "fs_microsoft (ld_sessions e) = fs_microsoft (ld_sessions d)"
    and "fs_selection (ld_sessions e) = fs_selection (ld_sessions d)" "(stage_shown e = Some MsProfile) = (stage_shown d = Some MsProfile)"
  shows "keeps d e"
  using assms replays_shrink [OF assms(2)] by (simp add: keeps_def no_start_def)

lemma leavesI:
  assumes "ld_log e = ld_log d @ ys @ xs" "\<not> list_ex opens_login xs" "stage_shown e \<noteq> Some MsProfile"
    and "books_ok d \<Longrightarrow> foldl replay (held_logins (ld_log d)) ys = []"
  shows "leaves d e"
  using assms replays_shrink [OF assms(2), of "[]"] by (simp add: leaves_def)

lemma stage_of_simps [simp]:
  "stage_of (set_pending b f) = stage_of f" "stage_of (type_into field v f) = stage_of f"
  "stage_of (on_builder h f) = stage_of f" "stage_of (on_iam h' f) = stage_of f"
  by (cases f; simp add: stage_of_def type_microsoft_def on_builder_def on_iam_def)+

lemma stage_of_mounted [simp]: "stage_of (mounted m) \<noteq> Some MsProfile"
  by (cases m) (simp_all add: stage_of_def)

lemma stage_simps [simp]:
  "stage_shown (log_effect x d) = stage_shown d" "stage_shown (send_request k g rq d) = stage_shown d"
  "stage_shown (on_sessions u d) = stage_shown d" "stage_shown (answered n ans d) = stage_shown d"
  "stage_shown (finishAdd refs d) = None" "stage_shown (set_open False d) = None" "stage_shown (unmount_flow d) = None"
  by (simp_all add: stage_shown_def log_effect_simps send_request_simps on_sessions_simps answered_simps finishAdd_simps(1)
      close_simps(1) unmount_simps(3))

lemma stage_form_simps [simp]:
  "stage_shown (report_busy k b d) = stage_shown d" "stage_shown (on_flow k (on_builder h) d) = stage_shown d"
  "stage_shown (on_flow k (on_iam h') d) = stage_shown d" "stage_shown (mount_flow m d) \<noteq> Some MsProfile"
  by (cases "ld_flow d"; cases m; simp add: stage_shown_def report_simps on_flow_simps mount_simps)+

lemma opens_simps [simp]:
  "\<not> opens_login (Sent rq)" "\<not> opens_login (CancelSent a b)" "\<not> opens_login (Told a' b' c d')" "\<not> opens_login (AskedFocus f)"
  "\<not> opens_login (OpenChanged o')" "\<not> opens_login (Added ids)" "\<not> opens_login AccountsInvalidated" "\<not> opens_login StatusInvalidated"
  by (simp_all add: opens_login_def)

lemma opens_answer:
  "answers rq ans \<Longrightarrow> rq \<noteq> StartMicrosoft \<Longrightarrow> (\<And>s c. rq \<noteq> CompleteMicrosoft s c) \<Longrightarrow> \<not> opens_login (Answered rq ans)"
  "\<not> opens_login (Answered rq (Refused x))" "\<not> opens_login (Answered rq (MicrosoftStage (StageComplete ref w)))"
  "\<not> opens_login (Answered rq (MicrosoftStage (StageMicrosoft url)))"
  by (cases rq; auto simp: opens_login_def answers_def)+

text \<open>While no login is on screen, none is held.\<close>

definition no_login :: "login_dialog \<Rightarrow> bool" where
  "no_login d \<longleftrightarrow> fs_microsoft (ld_sessions d) = [] \<and> stage_shown d \<noteq> Some MsProfile"

lemma no_login_held: "no_login d \<Longrightarrow> books_ok d \<Longrightarrow> held_logins (ld_log d) = []"
  using held_named [of "hd (held_logins (ld_log d))" "ld_log d"]
  by (cases "held_logins (ld_log d)") (auto simp: no_login_def books_ok_def)

lemma keeps_no_login: "keeps d e \<Longrightarrow> no_login d \<Longrightarrow> no_login e"
  by (auto simp: keeps_def no_login_def)

lemma keeps_log_effect: "keeps d e \<Longrightarrow> \<not> opens_login x \<Longrightarrow> keeps d (log_effect x e)"
  by (rule keeps_trans) (auto intro: keepsI [of _ _ "[x]"] simp: log_effect_simps)

lemma keeps_send: "keeps d e \<Longrightarrow> keeps d (send_request k g rq e)"
  by (rule keeps_trans) (auto intro: keepsI [of _ _ "[Sent rq]"] simp: send_request_simps)

lemma keeps_report: "keeps d e \<Longrightarrow> keeps d (report_busy k b e)"
  by (rule keeps_trans) (auto intro: keepsI [of _ _ "[]"] simp: report_simps)

lemma keeps_form:
  "keeps d e \<Longrightarrow> keeps d (on_flow k (on_builder h) e)" "keeps d e \<Longrightarrow> keeps d (on_flow k (on_iam h') e)"
  by (erule keeps_trans, auto intro: keepsI [of _ _ "[]"] simp: on_flow_simps(5,6))+

lemma keeps_sessions:
  "keeps d e \<Longrightarrow> fs_microsoft (u (ld_sessions e)) = fs_microsoft (ld_sessions e) \<Longrightarrow>
    fs_selection (u (ld_sessions e)) = fs_selection (ld_sessions e) \<Longrightarrow> keeps d (on_sessions u e)"
  by (erule keeps_trans) (auto intro: keepsI [of _ _ "[]"] simp: on_sessions_simps)

lemmas keeps_rules = keeps_log_effect keeps_send keeps_report keeps_form keeps_sessions keeps_refl

lemma keeps_failure: "keeps d e \<Longrightarrow> keeps d (show_failure say g t f x e)"
  by (simp add: show_failure_def keeps_rules)

lemma keeps_tell: "keeps d e \<Longrightarrow> keeps d (tell_success say ref e)" "keeps d e \<Longrightarrow> keeps d (showBatchResult say n fs e)"
  by (simp_all add: tell_success_def showBatchResult_def Let_def keeps_rules)

lemma leaves_finish:
  assumes "keeps d e" "no_login d"
  shows "leaves d (finishAdd refs e)"
proof -
  have "leaves e (finishAdd refs e)"
    using no_login_held [OF keeps_no_login [OF assms]] by (intro leavesI [of _ _ "[]"]) (auto simp: finishAdd_simps(7))
  then show ?thesis by (rule keeps_leaves [OF assms(1)])
qed

lemma leaves_report: "leaves d e \<Longrightarrow> leaves d (report_busy k b e)"
  by (simp add: leaves_def report_simps)

lemma leaves_mono:
  "leaves d e \<Longrightarrow> ld_log e' = ld_log e @ xs \<Longrightarrow> \<not> list_ex opens_login xs \<Longrightarrow> stage_shown e' = stage_shown e \<Longrightarrow> leaves d e'"
  using replays_shrink [of xs "[]"] by (simp add: leaves_def)

text \<open>Either way the books stay in order; the rules follow the shape of the step.\<close>

definition booked :: "login_dialog \<Rightarrow> login_dialog \<Rightarrow> bool" where
  "booked d e \<longleftrightarrow> keeps d e \<or> leaves d e"

lemma booked_rules:
  "booked d d"
  "booked d e \<Longrightarrow> booked d (report_busy k b e)"
  "booked d e \<Longrightarrow> \<not> opens_login x \<Longrightarrow> booked d (log_effect x e)"
  "booked d e \<Longrightarrow> booked d (send_request k g rq e)"
  "booked d e \<Longrightarrow> booked d (on_flow k (on_builder h) e)"
  "booked d e \<Longrightarrow> booked d (on_flow k (on_iam h') e)"
  by (auto simp: booked_def intro: keeps_rules leaves_report leaves_mono [of d e _ "[x]"] leaves_mono [of d e _ "[Sent rq]"]
      leaves_mono [of d e _ "[]"] simp: log_effect_simps send_request_simps on_flow_simps(5))

lemma booked_sessions:
  "booked d e \<Longrightarrow> fs_microsoft (u (ld_sessions e)) = fs_microsoft (ld_sessions e) \<Longrightarrow>
    fs_selection (u (ld_sessions e)) = fs_selection (ld_sessions e) \<Longrightarrow> booked d (on_sessions u e)"
  by (auto simp: booked_def intro: keeps_sessions leaves_mono [of d e _ "[]"] simp: on_sessions_simps)

lemma booked_books: "booked d e \<Longrightarrow> books_ok d \<Longrightarrow> books_ok e"
  by (auto simp: booked_def intro: keeps_books leaves_books)

lemma booked_finish: "keeps d e \<Longrightarrow> no_login d \<Longrightarrow> booked d (finishAdd refs e)"
  by (simp add: booked_def leaves_finish)

lemma booked_trans: "keeps c d \<Longrightarrow> booked d e \<Longrightarrow> booked c e"
  by (auto simp: booked_def intro: keeps_trans keeps_leaves)

lemma booked_failure: "booked d e \<Longrightarrow> booked d (show_failure say g t f x e)"
  by (simp add: show_failure_def booked_rules)

lemmas booked_intros = booked_rules booked_sessions booked_finish booked_failure keeps_tell keeps_refl

text \<open>The batches, and the answers that are not of a Microsoft login.\<close>

lemma go_batch_booked:
  assumes "no_login d"
  shows "booked d (go_batch say k g numbered i items added failures d)"
  using assms by (auto simp: go_batch_def finish_batch_def split: prod.split option.split intro!: booked_intros)

lemma other_answer_booked:
  assumes "isCurrent (ld_sessions d) g \<Longrightarrow> no_login d" "form_request rq" "answers rq ans"
    and "rq \<noteq> StartMicrosoft" "\<And>s c. rq \<noteq> CompleteMicrosoft s c" "\<And>s a. rq \<noteq> SelectProfile s a"
  shows "booked d (on_answer say k g rq ans d)"
  using assms go_batch_booked [of d say k g]
  by (cases rq) (auto simp: form_request_def answers_def builderId_started_def iam_started_def account_added_def tokens_imported_def
        item_imported_def split: flow_answer.splits intro!: booked_intros)

text \<open>The answers of a Microsoft login.\<close>

lemma keeps_answered: "\<not> opens_login (Answered (if_request (ld_inflight d ! n)) ans) \<Longrightarrow> keeps d (answered n ans d)"
  by (rule keepsI) (auto simp: answered_simps)

lemma cancel_late_booked: "booked d e \<Longrightarrow> booked d (cancel_late ans e)"
  by (auto simp: cancel_late_def intro!: booked_intros split: flow_answer.split microsoft_complete_response.split)

lemma stage_microsoft:
  "stage_shown (on_flow k (on_microsoft h) d) = Some MsProfile \<Longrightarrow> (\<And>m. mf_stage (h m) \<noteq> MsProfile) \<Longrightarrow>
    stage_shown d = Some MsProfile"
  by (cases "ld_flow d"; cases "the (ld_flow d)") (auto simp: stage_shown_def stage_of_def on_flow_simps on_microsoft_def split: if_splits)

lemma booked_microsoft:
  assumes "booked d e" "\<And>m. mf_stage (h m) \<noteq> MsProfile" "stage_shown e \<noteq> Some MsProfile"
  shows "booked d (on_flow k (on_microsoft h) e)"
proof -
  have "stage_shown (on_flow k (on_microsoft h) e) \<noteq> Some MsProfile"
    using stage_microsoft [of k h e] assms(2,3) by auto
  then show ?thesis using assms(1,3)
    by (auto simp: booked_def leaves_def keeps_def no_start_def on_flow_simps)
qed

lemma done_leaves:
  assumes "books_ok d \<Longrightarrow> held_logins (ld_log d) = []"
  shows "leaves d (microsoft_done say ref w d)"
proof -
  have "\<exists>xs. ld_log (microsoft_done say ref w d) = ld_log d @ xs \<and> \<not> list_ex opens_login xs"
    by (auto simp: microsoft_done_def tell_success_def dialog_simps split: option.split list.split)
  then obtain xs where xs: "ld_log (microsoft_done say ref w d) = ld_log d @ xs" "\<not> list_ex opens_login xs" by blast
  have "stage_shown (microsoft_done say ref w d) \<noteq> Some MsProfile" by (simp add: microsoft_done_def)
  then show ?thesis using xs assms by (intro leavesI [of _ _ "[]"]) auto
qed

lemma started_books:
  assumes "core_ok d" "books_ok d" "n < length (ld_inflight d)" "if_request (ld_inflight d ! n) = StartMicrosoft"
  defines "r \<equiv> ld_inflight d ! n"
  shows "books_ok (microsoft_step say (if_key r) (if_generation r) None (microsoft_started (if_key r) (MicrosoftStarted sid url))
    (MicrosoftStarted sid url) (answered n (MicrosoftStarted sid url) d))" (is "books_ok ?x")
proof (cases "isCurrent (ld_sessions d) (if_generation r)")
  case False
  let ?xs = "[Answered StartMicrosoft (MicrosoftStarted sid url)] @ (if sid = [] then [] else [CancelSent sid []])"
  have "keeps d ?x"
    using False assms(4)
    by (auto simp: keeps_def no_start_def replay_def microsoft_step_def cancel_late_def answered_simps dialog_simps)
  then show ?thesis using keeps_books assms(2) by blast
next
  case True
  then have run: "running d r" using assms(4) by (simp add: running_def isCurrent_def generation_of_def r_def)
  obtain f where f: "ld_flow d = Some f" "fits_flow (ld_sessions d) StartMicrosoft f" "if_key r = ld_key d"
    using answered_between(2) [OF assms(1,3)] run assms(4) by (auto simp: r_def form_request_def)
  then obtain m where m: "f = MicrosoftFlow m" "mf_stage m = MsIdle" by (cases f) (auto simp: fits_flow_def)
  then have "no_login d" using assms(1) f(1)
    by (auto simp: core_ok_def held_ok_def login_shown_def no_login_def stage_shown_def stage_of_def)
  then have "held_logins (ld_log d) = []" using no_login_held assms(2) by blast
  then show ?thesis using True f(1,3) m
    by (auto simp: books_ok_def microsoft_step_def microsoft_started_def on_microsoft_def assms(4) replay_def stage_shown_def
        stage_of_def dialog_simps)
qed

text \<open>What a login held comes to when its request is answered.\<close>

lemma held_completed:
  assumes "books_ok d" "ld_open d" "ld_flow d = Some f" "fits_flow (ld_sessions d) rq f"
    and "(\<exists>s c. rq = CompleteMicrosoft s c) \<or> (\<exists>s a. rq = SelectProfile s a)"
  shows "replay (held_logins (ld_log d)) (Answered rq (MicrosoftStage (StageComplete ref w))) = []"
proof -
  have "h = (case rq of CompleteMicrosoft s c \<Rightarrow> HeldSignIn s | SelectProfile s a \<Rightarrow> HeldChoice s)" if "h \<in> set (held_logins (ld_log d))" for h
    using assms that
    by (cases f) (auto simp: books_ok_def fits_flow_def stage_shown_def stage_of_def split: if_splits)
  then have "h \<notin> set (replay (held_logins (ld_log d)) (Answered rq (MicrosoftStage (StageComplete ref w))))" for h
    using assms(5) by (auto simp: replay_def)
  then show ?thesis by (metis list.set_intros(1) neq_Nil_conv)
qed

lemma held_choosing:
  assumes "books_ok d" "ld_open d" "ld_flow d = Some f" "fits_flow (ld_sessions d) (CompleteMicrosoft sid cb) f"
  shows "set (replay (held_logins (ld_log d)) (Answered (CompleteMicrosoft sid cb) (MicrosoftStage (StageProfile sel ps)))) \<subseteq> {HeldChoice sel}"
proof -
  have "h = HeldSignIn sid" if "h \<in> set (held_logins (ld_log d))" for h
    using assms that
    by (cases f) (auto simp: books_ok_def fits_flow_def stage_shown_def stage_of_def split: if_splits)
  then show ?thesis by (auto simp: replay_def)
qed

lemma completed_books:
  assumes "core_ok d" "books_ok d" "n < length (ld_inflight d)" "answers (if_request (ld_inflight d ! n)) ans"
    and "(\<exists>s c. if_request (ld_inflight d ! n) = CompleteMicrosoft s c) \<or> (\<exists>s a. if_request (ld_inflight d ! n) = SelectProfile s a)"
  defines "r \<equiv> ld_inflight d ! n"
  shows "books_ok (microsoft_step say (if_key r) (if_generation r) fo (microsoft_completed say (if_key r) ans) ans (answered n ans d))"
    (is "books_ok (microsoft_step _ _ _ _ _ _ ?e)")
proof -
  let ?x = "microsoft_step say (if_key r) (if_generation r) fo (microsoft_completed say (if_key r) ans) ans ?e"
  have form: "form_request (if_request r)" using assms(5) by (auto simp: form_request_def r_def)
  consider (refused) x where "ans = Refused x" | (staged) st where "ans = MicrosoftStage st"
    using assms(4,5) by (cases ans) (auto simp: answers_def)
  then show ?thesis
  proof cases
    case refused
    then have "keeps d ?e" by (intro keeps_answered) (simp add: opens_answer)
    moreover have "booked ?e ?x"
      using refused by (auto simp: microsoft_step_def answered_simps intro!: booked_rules split: option.split)
    ultimately show ?thesis using booked_books keeps_books assms(2) by blast
  next
    case (staged st)
    show ?thesis
    proof (cases "isCurrent (ld_sessions d) (if_generation r)")
      case False
      then have "keeps d ?x"
        using staged assms(4,5) unfolding keeps_def no_start_def
        by (cases st) (auto simp: microsoft_step_def cancel_late_def answered_simps dialog_simps replay_def answers_def)
      then show ?thesis using keeps_books assms(2) by blast
    next
      case True
      then have run: "running d r" using assms(5) by (auto simp: running_def isCurrent_def generation_of_def r_def)
      obtain f where f: "ld_flow d = Some f" "fits_flow (ld_sessions d) (if_request r) f" "if_key r = ld_key d"
        using answered_between(2) [OF assms(1,3)] run form by (auto simp: r_def)
      have opened: "ld_open d" using assms(1,3) run by (auto simp: core_ok_def live_ok_def r_def)
      note held = held_completed [OF assms(2) opened f(1,2) assms(5) [folded r_def]]
      show ?thesis
      proof (cases st)
        case (StageMicrosoft url)
        then have k: "keeps d ?e" using staged by (intro keeps_answered) (simp add: opens_answer)
        obtain sid cb where q: "if_request r = CompleteMicrosoft sid cb"
          using staged StageMicrosoft assms(4,5) by (auto simp: answers_def r_def)
        then have "stage_shown ?e \<noteq> Some MsProfile"
          using f(1,2) by (cases f) (auto simp: fits_flow_def stage_shown_def stage_of_def answered_simps)
        then have "booked ?e ?x" using True StageMicrosoft staged
          by (auto simp: microsoft_step_def microsoft_completed_def answered_simps intro!: booked_rules booked_microsoft)
        then show ?thesis using booked_books keeps_books [OF k assms(2)] by blast
      next
        case (StageProfile sel ps)
        then obtain sid cb where q: "if_request r = CompleteMicrosoft sid cb"
          using staged assms(4,5) by (auto simp: answers_def r_def)
        then obtain m where m: "f = MicrosoftFlow m" using f(2) by (cases f) (auto simp: fits_flow_def)
        have "set (held_logins (ld_log ?e)) \<subseteq> {HeldChoice sel}"
          using held_choosing [OF assms(2) opened f(1)] f(2) q staged StageProfile by (simp add: answered_simps flip: r_def)
        then show ?thesis using True staged StageProfile f(1,3) m opened
          by (simp add: books_ok_def microsoft_step_def microsoft_completed_def on_microsoft_def stage_shown_def stage_of_def
              replay_def dialog_simps)
      next
        case (StageComplete ref w)
        then have "?x = report_busy (if_key r) False (microsoft_done say ref w ?e)"
          using True staged by (simp add: microsoft_step_def microsoft_completed_def answered_simps)
        moreover have none: "held_logins (ld_log ?e) = []"
          using held staged StageComplete by (simp add: answered_simps flip: r_def)
        moreover have "books_ok ?e" by (simp only: books_ok_def none list.set empty_subsetI)
        ultimately show ?thesis
          using leaves_books [OF leaves_report [OF done_leaves [OF none]]] by simp
      qed
    qed
  qed
qed

lemma answer_books:
  assumes "core_ok d" "books_ok d"
  shows "books_ok (answer_arrives say n ans d)"
proof (cases "n < length (ld_inflight d) \<and> answers (if_request (ld_inflight d ! n)) ans")
  case True
  let ?r = "ld_inflight d ! n" and ?e = "answered n ans d"
  have step: "answer_arrives say n ans d = on_answer say (if_key ?r) (if_generation ?r) (if_request ?r) ans ?e"
    using True by (simp add: answer_arrives_def answered_def Let_def)
  have e: "books_ok ?e" if "(if_request ?r \<noteq> StartMicrosoft \<and> (\<forall>s c. if_request ?r \<noteq> CompleteMicrosoft s c)) \<or> (\<exists>x. ans = Refused x)"
    using that True by (intro keeps_books [OF keeps_answered assms(2)]) (auto simp: opens_answer)
  have other_books: "books_ok (answer_arrives say n ans d)"
    if q: "form_request (if_request ?r)" "if_request ?r \<noteq> StartMicrosoft" "\<And>s c. if_request ?r \<noteq> CompleteMicrosoft s c"
      "\<And>s a. if_request ?r \<noteq> SelectProfile s a"
  proof -
    have "no_login ?e" if "isCurrent (ld_sessions ?e) (if_generation ?r)"
    proof -
      have "running d ?r" using that q(1) by (auto simp: running_def isCurrent_def generation_of_def form_request_def answered_simps)
      then obtain f where "ld_flow d = Some f" "fits_flow (ld_sessions d) (if_request ?r) f"
        using answered_between(2) [OF assms(1) _ _ q(1)] True by auto
      then show ?thesis using assms(1) q
        by (cases f; cases "if_request ?r") (auto simp: core_ok_def held_ok_def login_shown_def fits_flow_def form_request_def answered_simps
            no_login_def stage_shown_def stage_of_def)
    qed
    then have "booked ?e (answer_arrives say n ans d)" unfolding step using q True by (intro other_answer_booked) auto
    then show ?thesis using booked_books e q(2,3) by blast
  qed
  show ?thesis
  proof (cases "if_request ?r")
    case StartMicrosoft
    then consider (ok) sid url where "ans = MicrosoftStarted sid url" | (no) x where "ans = Refused x"
      using True by (cases ans) (auto simp: answers_def)
    then show ?thesis
    proof cases
      case ok
      then show ?thesis using started_books [OF assms _ StartMicrosoft] True StartMicrosoft unfolding step by simp
    next
      case no
      then have "booked ?e (answer_arrives say n ans d)" using StartMicrosoft unfolding step
        by (auto simp: microsoft_step_def intro!: booked_rules)
      then show ?thesis using booked_books e no by blast
    qed
  next
    case (CompleteMicrosoft s c)
    then show ?thesis using completed_books [OF assms] True unfolding step by simp
  next
    case (SelectProfile s a)
    then show ?thesis using completed_books [OF assms] True unfolding step by simp
  next
    case (PollBuilderId sid i m)
    have "no_login ?e" if "isCurrent (ld_sessions d) (if_generation ?r)"
    proof -
      have "running d ?r" using that PollBuilderId by (simp add: running_def isCurrent_def generation_of_def)
      then obtain b where "ld_flow d = Some (BuilderIdFlow b)"
        using answered_poll [OF assms(1) _ _ PollBuilderId] True by blast
      then show ?thesis using assms(1)
        by (auto simp: core_ok_def held_ok_def login_shown_def answered_simps no_login_def stage_shown_def stage_of_def)
    qed
    then have "booked ?e (answer_arrives say n ans d)" using PollBuilderId True unfolding step
      by (auto simp: builderId_polled_def stop_polling_def answers_def answered_simps
          split: flow_answer.splits builder_id_poll_response.splits intro!: booked_intros keeps_sessions)
    then show ?thesis using booked_books e PollBuilderId by simp
  next
    case (RefetchAdded ids)
    then have "booked ?e (answer_arrives say n ans d)" unfolding step by (cases ids) (auto intro!: booked_rules)
    then show ?thesis using booked_books e RefetchAdded by simp
  next
    case (RefreshAdded i ids)
    then have "booked ?e (answer_arrives say n ans d)" unfolding step by (cases ids) (auto intro!: booked_rules)
    then show ?thesis using booked_books e RefreshAdded by simp
  qed (insert other_books True, auto simp: form_request_def)
qed (use assms in \<open>auto simp: answer_arrives_def\<close>)

lemma cancel_of_stop [simp]: "cancel_of (stopBuilderId s) = cancel_of s"
  by (simp add: cancel_of_def)

text \<open>Whoever resets the sessions cancels the login that was open.\<close>

lemma canceled_leaves:
  assumes "ld_log e = ld_log d @ cancel_of (ld_sessions d) @ xs" "\<not> list_ex opens_login xs" "stage_shown e \<noteq> Some MsProfile"
  shows "leaves d e"
proof (rule leavesI [OF assms])
  assume books: "books_ok d"
  show "foldl replay (held_logins (ld_log d)) (cancel_of (ld_sessions d)) = []"
  proof (rule ccontr)
    assume "foldl replay (held_logins (ld_log d)) (cancel_of (ld_sessions d)) \<noteq> []"
    then obtain h where h: "h \<in> set (foldl replay (held_logins (ld_log d)) (cancel_of (ld_sessions d)))"
      by (meson list.set_sel(1))
    then have "h \<in> set (held_logins (ld_log d))"
      by (auto simp: cancel_of_def replay_def split: if_splits)
    then show False using h books held_named [of h]
      by (auto simp: books_ok_def cancel_of_def replay_def split: if_splits)
  qed
qed

lemma stage_shown_fields [simp]: "stage_shown (d\<lparr>ld_gone := b\<rparr>) = stage_shown d" "stage_shown (d\<lparr>ld_method := m\<rparr>) = stage_shown d"
  "stage_shown (d\<lparr>ld_busy := b\<rparr>) = stage_shown d"
  by (simp_all add: stage_shown_def)

lemma keeps_shown:
  assumes "ld_flow d = Some f" "stage_of g = stage_of f"
  shows "keeps d (d\<lparr>ld_flow := Some g\<rparr>)"
  using assms by (intro keepsI [of _ _ "[]"]) (auto simp: stage_shown_def split: if_splits)

lemma stage_shown_closed [simp]: "\<not> ld_open d \<Longrightarrow> stage_shown d = None"
  by (simp add: stage_shown_def)

lemma submit_booked:
  assumes "core_ok d" "ld_open d"
  shows "booked d (submit_flow say parse atob d)"
proof (cases "ld_flow d")
  case (Some f)
  have refuse_form: "booked d (refuse_form field g d)" if "stage_of g = stage_of f" for field g
    using keeps_shown [OF Some that] unfolding refuse_form_def by (intro booked_rules) (simp_all add: booked_def)
  have start: "booked d (start_request g rq d)" if "stage_of g = stage_of f" for g rq
    using keeps_shown [OF Some that] unfolding start_request_def by (intro booked_rules) (simp add: booked_def)
  have batch: "booked d (start_batch say g numbered items d)" if "stage_of g = stage_of f" "stage_of f = None" for g numbered items
  proof -
    have k: "keeps d (report_busy (ld_key d) True (d\<lparr>ld_flow := Some g\<rparr>))" (is "keeps d ?e")
      using keeps_shown [OF Some that(1)] by (rule keeps_report)
    have "no_login d"
      using assms(1) Some that(2) by (auto simp: core_ok_def held_ok_def login_shown_def no_login_def stage_shown_def stage_of_def)
    then have "no_login ?e" by (rule keeps_no_login [OF k])
    from go_batch_booked [OF this] booked_trans [OF k] show ?thesis by (simp add: start_batch_def)
  qed
  show ?thesis
    using Some refuse_form start batch
    by (cases f) (auto simp: submit_flow_def submit_builderId_def submit_iam_def submit_microsoft_def submit_sso_def submit_local_def
        submit_credentials_def submit_cookie_def submit_apiKeys_def stage_of_def Let_def booked_rules(1)
        split: option.split microsoft_stage.split sum.split list.split)
qed (simp add: submit_flow_def booked_rules)

lemma step_books:
  assumes "core_ok d" "books_ok d"
  shows "books_ok (dialog_step say parse atob e d)"
proof -
  have close: "leaves d (set_open False d)" if "ld_open d"
    using that by (intro canceled_leaves [of _ _ "[]"]) (simp_all add: close_simps)
  have hide: "leaves d (handleOpenChange False d)"
    by (rule canceled_leaves [of _ _ "[OpenChanged False]"]) (simp_all add: handleOpenChange_def dialog_simps)
  have "booked d (dialog_step say parse atob e d)" if "\<And>n ans. e \<noteq> AnswerCame n ans"
  proof (cases e)
    case (PageOpens b)
    have "keeps d (set_open True d)" if "\<not> ld_open d"
      using closed_empty [of d] assms(1) that
      by (intro keepsI [of _ _ "[]"]) (auto simp: set_open_def core_ok_def mount_simps unmount_simps split: option.split flow.split)
    then have "booked d (set_open b d)"
      using close by (cases "b = ld_open d") (auto simp: booked_def set_open_def)
    then show ?thesis using PageOpens by (simp add: booked_rules)
  next
    case PageLeft
    have "booked d ((set_open False (unmount_flow d))\<lparr>ld_gone := True\<rparr>)"
    proof (cases "ld_open d")
      case True
      then have "leaves d ((set_open False (unmount_flow d))\<lparr>ld_gone := True\<rparr>)"
        by (intro canceled_leaves [of _ _ "[]"]) (simp_all add: close_simps unmount_simps split: option.split flow.split)
      then show ?thesis by (simp add: booked_def)
    next
      case False
      then have "keeps d ((set_open False (unmount_flow d))\<lparr>ld_gone := True\<rparr>)"
        by (intro keepsI [of _ _ "[]"]) (simp_all add: close_simps unmount_simps split: option.split flow.split)
      then show ?thesis by (simp add: booked_def)
    qed
    then show ?thesis using PageLeft by (simp add: booked_rules)
  next
    case (Picked m)
    have "leaves d (selectMethod m d)"
      by (rule canceled_leaves [of _ _ "[]"]) (simp_all add: selectMethod_def dialog_simps)
    then show ?thesis using Picked by (simp add: booked_def)
  next
    case WentBack
    have "leaves d (go_back d)" by (rule canceled_leaves [of _ _ "[]"]) (simp_all add: go_back_def dialog_simps)
    then show ?thesis using WentBack by (simp add: booked_def)
  next
    case FlowRemoved
    have "keeps d (unmount_flow d)" if "\<not> ld_open d"
      using that by (intro keepsI [of _ _ "[]"]) (simp_all add: unmount_simps split: option.split flow.split)
    then show ?thesis using FlowRemoved by (simp add: booked_def)
  next
    case (Typed field v)
    then show ?thesis using keeps_shown [of d] by (auto simp: booked_def split: option.split)
  next
    case Submitted
    then show ?thesis using submit_booked [OF assms(1)] by (simp add: booked_rules)
  next
    case TimerFired
    then show ?thesis by (auto simp: timer_fired_def Let_def split: option.split intro!: booked_rules booked_sessions)
  qed (use hide that in \<open>auto simp: booked_def\<close>)
  then show ?thesis using booked_books assms(2) answer_books [OF assms] by (cases e) auto
qed

lemma dialog_reach_ok: "dialog_reach say parse atob d \<Longrightarrow> core_ok d \<and> books_ok d"
proof (induction rule: dialog_reach.induct)
  case (dialog_mounted initial opened)
  have "held_logins (ld_log (fresh_dialog initial opened)) = []" by (simp add: fresh_dialog_def held_logins_def)
  then show ?case by (simp add: fresh_core books_ok_def)
next
  case (dialog_stepped d e)
  then show ?case using step_core step_books by blast
qed

end
