(* ===== verification/Login_Promises.thy ===== *)
theory Login_Promises
  imports Login_Invariants
begin

text \<open>
  What the add-account dialog promises, over the invariant of \<open>Login_Invariants\<close>: no login of Microsoft is left open,
  a device code is polled by one chain, the dialog is locked only while it works, a flow that was left is
  silent, and a batch accounts for every item it was given. Each with a run of the dialog that shows it.
\<close>

subsection \<open>What the dialog promises\<close>

text \<open>C7: No Microsoft login is left open at the server: whatever the user does and whenever the answers come, replaying
  what was answered and what was canceled, in that order, leaves at most one login held at the server, and only
  the one on screen in the open dialog: the sign-in of its session or the profile choice it was replaced by.
  What was left is ended, by the account it brought or by a cancellation with its id, also when it was
  opened by an answer that came after the dialog was left.\<close>

theorem no_login_left_open:
  assumes "dialog_reach say parse atob d"
  shows "card (set (held_logins (ld_log d))) \<le> 1 \<and>
    (\<forall>h\<in>set (held_logins (ld_log d)). login_shown d \<and>
       h \<in> {HeldSignIn (fs_microsoft (ld_sessions d)), HeldChoice (fs_selection (ld_sessions d))})"
proof -
  have "core_ok d" "books_ok d" using dialog_reach_ok [OF assms] by auto
  define only where "only = (if stage_shown d = Some MsProfile then HeldChoice (fs_selection (ld_sessions d))
    else HeldSignIn (fs_microsoft (ld_sessions d)))"
  have one: "set (held_logins (ld_log d)) \<subseteq> {only}" using \<open>books_ok d\<close> by (auto simp: books_ok_def only_def)
  have "login_shown d" if "h \<in> set (held_logins (ld_log d))" for h
    using that one held_named [OF that] \<open>core_ok d\<close>
    by (auto simp: core_ok_def held_ok_def only_def split: if_splits)
  moreover have "card (set (held_logins (ld_log d))) \<le> 1"
    using card_mono [OF _ one] by simp
  ultimately show ?thesis using one by (auto simp: only_def split: if_splits)
qed

text \<open>C9: A device code is polled by one chain: while the dialog holds a session, its code is on screen and there is
  exactly one timer or poll for it, so it is polled until it ends and never twice at once; without a
  session no poll is under way, and a closed dialog holds neither a session nor a timer.\<close>

theorem code_polled_by_one_chain:
  assumes "dialog_reach say parse atob d"
  shows "(if fs_builderId (ld_sessions d) = [] then list_all (\<lambda>r. \<not> (is_poll (if_request r) \<and> running d r)) (ld_inflight d)
      else code_shown d \<and> live_polls d = 1) \<and>
    (ld_open d \<or> (fs_builderId (ld_sessions d) = [] \<and> fs_timer (ld_sessions d) = None))"
proof -
  have c: "core_ok d" using dialog_reach_ok [OF assms] by auto
  have "fs_builderId (ld_sessions d) \<noteq> []" if "r \<in> set (ld_inflight d)" "is_poll (if_request r)" "running d r" for r
    using c that by (cases "if_request r") (auto simp: core_ok_def live_ok_def fits_flow_def)
  then have "list_all (\<lambda>r. \<not> (is_poll (if_request r) \<and> running d r)) (ld_inflight d)" if "fs_builderId (ld_sessions d) = []"
    using that unfolding list_all_iff by blast
  moreover have "held_ok d" using c by (simp add: core_ok_def)
  moreover have "fs_builderId (ld_sessions d) \<noteq> [] \<longrightarrow> code_shown d \<and> live_polls d = 1"
    using c by (simp add: core_ok_def held_ok_def chain_ok_def)
  ultimately show ?thesis using closed_empty [of d] by (cases "ld_open d") auto
qed

text \<open>The dialog is locked only while it works: it ignores Escape, the backdrop and the close button exactly while a
  request of the form on screen is in flight, of which there is never more than one.\<close>

theorem locked_while_working:
  assumes "dialog_reach say parse atob d"
  shows "ld_busy d = (ld_flow d \<noteq> None \<and> 0 < form_calls d) \<and> (ld_flow d = None \<or> form_calls d \<le> 1)"
  using dialog_reach_ok [OF assms] by (auto simp: core_ok_def busy_ok_def split: option.splits if_splits)

text \<open>Generations never go back, so a request that was left stays left.\<close>

lemma gen_batch: "fs_generation (ld_sessions d) \<le> fs_generation (ld_sessions (go_batch say k g numbered i items added failures d))"
  by (auto simp: go_batch_def finish_batch_def showBatchResult_def Let_def dialog_simps split: prod.split option.split)

lemma gen_step: "fs_generation (ld_sessions d) \<le> fs_generation (ld_sessions (report_busy k b d))"
  "fs_generation (ld_sessions d) \<le> fs_generation (ld_sessions (show_failure say g t f x d))"
  "fs_generation (ld_sessions d) \<le> fs_generation (ld_sessions (tell_success say ref d))"
  "fs_generation (ld_sessions (showBatchResult say n fs d)) = fs_generation (ld_sessions d)"
  "fs_generation (ld_sessions (refresh_rest ids d)) = fs_generation (ld_sessions d)"
  "fs_generation (ld_sessions (cancel_late ans d)) = fs_generation (ld_sessions d)"
  "fs_generation (ld_sessions d) \<le> fs_generation (ld_sessions (microsoft_done say ref w d))"
  by (auto simp: show_failure_def tell_success_def showBatchResult_def cancel_late_def microsoft_done_def Let_def dialog_simps
      split: flow_answer.split microsoft_complete_response.split option.split list.split) (cases ids; simp add: dialog_simps)

lemma gen_trans: "(a :: nat) \<le> b \<Longrightarrow> b \<le> c \<Longrightarrow> a \<le> c"
  by (fact order.trans)

lemma gen_answer: "fs_generation (ld_sessions d) \<le> fs_generation (ld_sessions (on_answer say k g rq ans d))"
  using gen_batch [of d] gen_step
  by (cases "(say, k, g, rq, ans, d)" rule: on_answer.cases)
    (auto simp: builderId_started_def builderId_polled_def iam_started_def account_added_def tokens_imported_def item_imported_def
      microsoft_step_def microsoft_started_def microsoft_completed_def stop_polling_def tell_success_def microsoft_done_def
      show_failure_def cancel_late_def dialog_simps
      split: flow_answer.split option.split microsoft_complete_response.split builder_id_poll_response.split list.split
      simp del: refresh_rest.simps)

lemma gen_submit: "fs_generation (ld_sessions d) \<le> fs_generation (ld_sessions (submit_flow say parse atob d))"
proof -
  have "fs_generation (ld_sessions d) \<le> fs_generation (ld_sessions (start_batch say g numbered items d))" for g numbered items
    using gen_batch [of "report_busy (ld_key d) True (d\<lparr>ld_flow := Some g\<rparr>)"] by (simp add: start_batch_def report_simps)
  then show ?thesis
    by (auto simp: submit_flow_def submit_builderId_def submit_iam_def submit_microsoft_def submit_sso_def submit_local_def
        submit_credentials_def submit_cookie_def submit_apiKeys_def refuse_form_def start_request_def Let_def dialog_simps
        split: option.split microsoft_stage.split sum.split list.split flow.split)
qed

lemma gen_event: "fs_generation (ld_sessions d) \<le> fs_generation (ld_sessions (dialog_step say parse atob e d))"
proof (cases e)
  case (PageOpens b)
  then show ?thesis
    by (cases b) (auto simp: set_open_def mount_simps unmount_simps reset_simps split: option.split flow.split)
next
  case (AnswerCame n ans)
  have "fs_generation (ld_sessions d) = fs_generation (ld_sessions (answered n ans d))" by (simp add: answered_simps)
  then show ?thesis using AnswerCame gen_answer [of "answered n ans d"]
    by (simp add: answer_arrives_def answered_def Let_def)
qed (auto simp: set_open_def selectMethod_def go_back_def handleOpenChange_def timer_fired_def Let_def dialog_simps gen_submit
    split: option.split flow.split)

lemma gen_events: "fs_generation (ld_sessions d) \<le> fs_generation (ld_sessions (foldl (\<lambda>x e. dialog_step say parse atob e x) d es))"
  by (induction es arbitrary: d) (auto intro: gen_trans gen_event)

text \<open>The ways out of a step.\<close>

definition way_out :: "login_dialog \<Rightarrow> dialog_event \<Rightarrow> bool" where
  "way_out d e \<longleftrightarrow> ld_open d \<and> \<not> ld_gone d \<and>
     (e = PageOpens False \<or> e = PageLeft \<or> e = Canceled \<or> (e = WentBack \<and> ld_method d \<noteq> None) \<or> (e = Dismissed \<and> \<not> ld_busy d))"

lemma way_out_ages:
  assumes "way_out d e"
  shows "fs_generation (ld_sessions d) < fs_generation (ld_sessions (dialog_step say parse atob e d)) \<and>
    ld_inflight (dialog_step say parse atob e d) = ld_inflight d"
  using assms
  by (auto simp: way_out_def go_back_def handleOpenChange_def dialog_simps stopBuilderId_def cleared_def split: option.split flow.split)

definition is_cancel :: "flow_effect \<Rightarrow> bool" where
  "is_cancel x \<longleftrightarrow> (case x of CancelSent s t \<Rightarrow> True | _ \<Rightarrow> False)"

lemma late_silent:
  assumes "\<not> isCurrent (ld_sessions d) g" "\<not> after_add rq" "answers rq ans"
  shows "ld_sessions (on_answer say k g rq ans d) = ld_sessions d \<and> ld_open (on_answer say k g rq ans d) = ld_open d \<and>
    (\<exists>c. ld_log (on_answer say k g rq ans d) = ld_log d @ c \<and> list_all is_cancel c)"
  using assms
  by (cases rq) (auto simp: builderId_started_def builderId_polled_def iam_started_def account_added_def tokens_imported_def
      item_imported_def microsoft_step_def cancel_late_def answers_def show_failure_def is_cancel_def dialog_simps
      split: flow_answer.splits microsoft_complete_response.splits)

text \<open>C8: A flow that was left is silent: once the user has gone back, canceled, closed or left the page, an answer to a
  request that was in flight then, however much later and whatever was done in between, shows nothing, adds
  nothing, closes nothing and touches no session; all it can do is cancel what it opened at the server.\<close>

theorem left_flow_is_silent:
  fixes es :: "dialog_event list"
  assumes "dialog_reach say parse atob d" "way_out d e" "r \<in> set (ld_inflight (dialog_step say parse atob e d))"
    and "\<not> after_add (if_request r)" "answers (if_request r) ans"
  defines "later \<equiv> foldl (\<lambda>x e. dialog_step say parse atob e x) (dialog_step say parse atob e d) es"
  assumes "n < length (ld_inflight later)" "ld_inflight later ! n = r"
  shows "ld_sessions (dialog_step say parse atob (AnswerCame n ans) later) = ld_sessions later \<and>
    ld_open (dialog_step say parse atob (AnswerCame n ans) later) = ld_open later \<and>
    (\<exists>c. ld_log (dialog_step say parse atob (AnswerCame n ans) later) = ld_log later @ Answered (if_request r) ans # c \<and>
      list_all is_cancel c)"
proof -
  have "if_generation r \<le> fs_generation (ld_sessions d)"
    using dialog_reach_ok [OF assms(1)] assms(3) way_out_ages [OF assms(2)] by (auto simp: core_ok_def old_ok_def generation_of_def)
  also have "\<dots> < fs_generation (ld_sessions (dialog_step say parse atob e d))" using way_out_ages [OF assms(2)] by blast
  also have "\<dots> \<le> fs_generation (ld_sessions later)" unfolding later_def by (rule gen_events)
  finally have "\<not> isCurrent (ld_sessions (answered n ans later)) (if_generation r)" by (simp add: isCurrent_def answered_simps)
  from late_silent [OF this assms(4,5), of say "if_key r"] show ?thesis
    using assms(5,7,8) by (simp add: answer_arrives_def answered_def Let_def log_effect_simps)
qed

subsection \<open>One run of the dialog\<close>

lemma reach_events: "dialog_reach say parse atob d \<Longrightarrow> dialog_reach say parse atob (foldl (\<lambda>x e. dialog_step say parse atob e x) d es)"
  by (induction es arbitrary: d) (auto intro: dialog_stepped)

definition plain_phrases :: phrases where
  "plain_phrases = \<lparr>say_text = (\<lambda>k ps. k), say_error = (\<lambda>e. ''error''), say_account = ref_email\<rparr>"

definition run_dialog :: "dialog_event list \<Rightarrow> login_dialog" where
  "run_dialog es = foldl (\<lambda>x e. dialog_step plain_phrases (\<lambda>_. None) (\<lambda>_. None) e x) (fresh_dialog None True) es"

lemma run_reach: "dialog_reach plain_phrases (\<lambda>_. None) (\<lambda>_. None) (run_dialog es)"
  unfolding run_dialog_def by (rule reach_events [OF dialog_mounted])

text \<open>The user leaves while the login is being opened, and while a profile is to be chosen; or stays.\<close>

definition hasty :: "dialog_event list" where
  "hasty = [Picked ByMicrosoft, Submitted, WentBack, AnswerCame 0 (MicrosoftStarted ''s1'' ''https://login''),
     Picked ByMicrosoft, Submitted, AnswerCame 0 (MicrosoftStarted ''s2'' ''https://login''),
     Typed CallbackInput ''http://localhost/?code=1'', Submitted, Canceled,
     AnswerCame 0 (MicrosoftStage (StageProfile ''c1'' []))]"

theorem no_login_left_open_witness:
  "held_logins (ld_log (run_dialog (take 7 hasty))) = [HeldSignIn ''s2''] \<and> held_logins (ld_log (run_dialog hasty)) = [] \<and>
    CancelSent [] ''c1'' \<in> set (ld_log (run_dialog hasty))"
proof -
  have "\<not> ld_open (run_dialog hasty)" "CancelSent [] ''c1'' \<in> set (ld_log (run_dialog hasty))"
    "held_logins (ld_log (run_dialog (take 7 hasty))) = [HeldSignIn ''s2'']" by code_simp+
  moreover from this(1) have "\<not> login_shown (run_dialog hasty)" by (simp add: login_shown_def)
  ultimately show ?thesis using no_login_left_open [OF run_reach, of hasty] by (metis list.set_intros(1) neq_Nil_conv)
qed

definition coded :: "dialog_event list" where
  "coded = [Picked ByBuilderId, Submitted, AnswerCame 0 (BuilderIdStarted ''b1'' ''WXYZ'' ''https://device'' 5), TimerFired]"

theorem code_polled_by_one_chain_witness: "code_shown (run_dialog coded) \<and> live_polls (run_dialog coded) = 1"
proof -
  have "fs_builderId (ld_sessions (run_dialog coded)) \<noteq> []" by code_simp
  with code_polled_by_one_chain [OF run_reach, of coded] show ?thesis by presburger
qed

theorem locked_while_working_witness: "ld_busy (run_dialog [Picked ByBuilderId, Submitted])"
proof -
  have "ld_flow (run_dialog [Picked ByBuilderId, Submitted]) \<noteq> None" "0 < form_calls (run_dialog [Picked ByBuilderId, Submitted])"
    by code_simp+
  with locked_while_working [OF run_reach, of "[Picked ByBuilderId, Submitted]"] show ?thesis by simp
qed

theorem left_flow_is_silent_witness:
  "\<exists>c. ld_log (dialog_step plain_phrases (\<lambda>_. None) (\<lambda>_. None) (AnswerCame 0 (Refused Aborted)) (run_dialog [Picked ByMicrosoft, Submitted, WentBack])) =
     ld_log (run_dialog [Picked ByMicrosoft, Submitted, WentBack]) @ Answered StartMicrosoft (Refused Aborted) # c \<and> list_all is_cancel c"
proof -
  let ?d = "run_dialog [Picked ByMicrosoft, Submitted]" and ?r = "\<lparr>if_key = 2, if_generation = 1, if_request = StartMicrosoft\<rparr>"
  have d: "way_out ?d WentBack" by code_simp
  have r: "ld_inflight (dialog_step plain_phrases (\<lambda>_. None) (\<lambda>_. None) WentBack ?d) = [?r]" by code_simp
  have s: "run_dialog [Picked ByMicrosoft, Submitted, WentBack] = dialog_step plain_phrases (\<lambda>_. None) (\<lambda>_. None) WentBack ?d"
    by (simp add: run_dialog_def)
  have a: "answers (if_request ?r) (Refused Aborted)" "\<not> after_add (if_request ?r)" by code_simp+
  show ?thesis
    using left_flow_is_silent [OF run_reach d _ a(2,1), of 0 "[]"] r unfolding s by simp
qed

subsection \<open>A batch from beginning to end\<close>

text \<open>What a batch should come to: each item is an account or a failure, in the order of the items. An item
  that was sent takes the next outcome; the outcome \<open>Inl\<close> is a refusal.\<close>

fun batch_result ::
  "phrases \<Rightarrow> bool \<Rightarrow> nat \<Rightarrow> mapped_credential list \<Rightarrow> (thrown + added_account_ref) list \<Rightarrow> added_account_ref list \<times> string list" where
  "batch_result say numbered i [] os = ([], [])"
| "batch_result say numbered i (MissingRefreshToken # items) os =
     (let (refs, fails) = batch_result say numbered (i + 1) items os
      in (refs, failure_text say numbered i (say_text say ''credentials.missingRefreshToken'' []) # fails))"
| "batch_result say numbered i (MappedRequest p # items) [] = ([], [])"
| "batch_result say numbered i (MappedRequest p # items) (Inr ref # os) =
     (let (refs, fails) = batch_result say numbered (i + 1) items os in (ref # refs, fails))"
| "batch_result say numbered i (MappedRequest p # items) (Inl e # os) =
     (let (refs, fails) = batch_result say numbered (i + 1) items os
      in (refs, failure_text say numbered i (say_error say e) # fails))"

definition sent_items :: "mapped_credential list \<Rightarrow> nat" where
  "sent_items items = length (filter (\<lambda>m. m \<noteq> MissingRefreshToken) items)"

definition outcome_answer :: "thrown + added_account_ref \<Rightarrow> flow_answer" where
  "outcome_answer out = (case out of Inl e \<Rightarrow> Refused e | Inr ref \<Rightarrow> AccountAdded ref)"

text \<open>The request sent last is answered.\<close>

definition answer_last :: "phrases \<Rightarrow> login_dialog \<Rightarrow> thrown + added_account_ref \<Rightarrow> login_dialog" where
  "answer_last say d out = answer_arrives say (length (ld_inflight d) - 1) (outcome_answer out) d"

text \<open>The requests of a batch: its items in order, and what the answers brought.\<close>

definition batch_payloads :: "mapped_credential list \<Rightarrow> credentials_import_request list" where
  "batch_payloads items = concat (map (\<lambda>m. case m of MappedRequest p \<Rightarrow> [p] | MissingRefreshToken \<Rightarrow> []) items)"

definition accounts_of :: "(thrown + added_account_ref) list \<Rightarrow> added_account_ref list" where
  "accounts_of os = concat (map (\<lambda>out. case out of Inr ref \<Rightarrow> [ref] | Inl e \<Rightarrow> []) os)"

definition imports_sent :: "flow_effect list \<Rightarrow> credentials_import_request list" where
  "imports_sent out = concat (map (\<lambda>e. case e of Sent (ImportNext p b) \<Rightarrow> [p] | _ \<Rightarrow> []) out)"

definition is_import :: "flow_effect \<Rightarrow> bool" where
  "is_import e \<longleftrightarrow> (case e of Sent (ImportNext p b) \<Rightarrow> True | Answered (ImportNext p b) ans \<Rightarrow> True | _ \<Rightarrow> False)"

lemma batch_lists [simp]:
  "batch_payloads [] = []" "batch_payloads (MappedRequest p # items) = p # batch_payloads items"
  "batch_payloads (MissingRefreshToken # items) = batch_payloads items"
  "imports_sent [] = []" "imports_sent (Sent (ImportNext p b) # xs) = p # imports_sent xs"
  "imports_sent (Answered rq ans # xs) = imports_sent xs"
  "is_import (Sent (ImportNext p b))" "is_import (Answered (ImportNext p b) ans)"
  by (simp_all add: batch_payloads_def imports_sent_def is_import_def)

lemma batch_result_accounts:
  "length os = sent_items items \<Longrightarrow> fst (batch_result say numbered i items os) = accounts_of os"
  by (induction say numbered i items os rule: batch_result.induct) (auto simp: sent_items_def accounts_of_def split: prod.splits)

text \<open>The last word of a batch: no account at all, or how many there are and what failed.\<close>

definition batch_ending :: "phrases \<Rightarrow> bool \<Rightarrow> added_account_ref list \<Rightarrow> string list \<Rightarrow> flow_effect list" where
  "batch_ending say numbered refs fails =
     (let ids = filter (\<lambda>i. i \<noteq> []) (map ref_id refs);
          closing = [OpenChanged False, Added ids, AccountsInvalidated, StatusInvalidated, Sent (RefetchAdded ids)];
          others = join ''; '' (take 2 (drop 1 fails));
          firsts = take 3 fails @ (if length fails > 3 then [say_text say ''moreFailures'' [(''count'', string_of_nat (length fails - 3))]] else [])
      in if refs = [] then
           [Told ToastError (say_text say (if numbered then ''allFailed'' else ''failed'') [(''error'', if fails = [] then [] else hd fails)])
              (if numbered \<and> length fails > 1 then Some others else None) None,
            AskedFocus (if numbered then JsonInput else KeysInput)]
         else if fails = [] then
           Told ToastSuccess (say_text say ''importSuccess'' [(''count'', string_of_nat (length refs))]) None (Some 5200) # closing
         else
           Told ToastWarning (say_text say ''importPartial'' [(''count'', string_of_nat (length refs)), (''failed'', string_of_nat (length fails))])
             (Some (join ''; '' firsts)) (Some 5200) # closing)"

lemma finish_log: "ld_log (finish_batch say k numbered refs fails d) = ld_log d @ batch_ending say numbered refs fails"
  by (cases fails) (simp_all add: finish_batch_def batch_ending_def showBatchResult_def Let_def dialog_simps)

lemma batch_result_length:
  "length os = sent_items items \<Longrightarrow> length (fst (batch_result say numbered i items os)) +
    length (snd (batch_result say numbered i items os)) = length items"
  by (induction say numbered i items os rule: batch_result.induct) (auto simp: sent_items_def split: prod.splits)

lemma answer_item:
  "answer_last say (send_request k g (ImportNext p b) d) out =
    item_imported say k g b (outcome_answer out) (d\<lparr>ld_log := ld_log d @ [Sent (ImportNext p b), Answered (ImportNext p b) (outcome_answer out)]\<rparr>)"
  by (simp add: answer_last_def answer_arrives_def send_request_simps answers_def outcome_answer_def split: sum.split)
    (simp add: send_request_def log_effect_def)

lemma go_missing: "go_batch say k g numbered i (MissingRefreshToken # items) added failures d =
    go_batch say k g numbered (i + 1) items added
      (failures @ [failure_text say numbered i (say_text say ''credentials.missingRefreshToken'' [])]) d"
  by (simp add: go_batch_def)

lemma go_mapped: "go_batch say k g numbered i (MappedRequest p # items) added failures d = send_request k g
    (ImportNext p \<lparr>ib_numbered = numbered, ib_index = i, ib_rest = items, ib_added = added, ib_failures = failures\<rparr>) d"
  by (simp add: go_batch_def)

lemma batch_runs:
  assumes "length os = sent_items items" "g = fs_generation (ld_sessions d)"
  shows "\<exists>xs. foldl (answer_last say) (go_batch say k g numbered i items added failures d) os =
    finish_batch say k numbered (added @ fst (batch_result say numbered i items os))
      (failures @ snd (batch_result say numbered i items os)) (d\<lparr>ld_log := ld_log d @ xs\<rparr>) \<and>
    imports_sent xs = batch_payloads items \<and> list_all is_import xs"
  using assms
proof (induction say numbered i items os arbitrary: added failures d rule: batch_result.induct)
  case (1 say numbered i os)
  then show ?case by (intro exI [of _ "[]"]) (simp add: go_batch_def sent_items_def)
next
  case (2 say numbered i items os)
  then show ?case
    using 2(1) [of d added "failures @ [failure_text say numbered i (say_text say ''credentials.missingRefreshToken'' [])]"]
    by (simp add: go_missing sent_items_def split_beta)
next
  case (3 say numbered i p items)
  then show ?case by (simp add: sent_items_def)
next
  case (4 say numbered i p items ref os)
  let ?b = "\<lparr>ib_numbered = numbered, ib_index = i, ib_rest = items, ib_added = added, ib_failures = failures\<rparr>"
  let ?ys = "[Sent (ImportNext p ?b), Answered (ImportNext p ?b) (AccountAdded ref)]"
  let ?d = "d\<lparr>ld_log := ld_log d @ ?ys\<rparr>"
  have "foldl (answer_last say) (go_batch say k g numbered i (MappedRequest p # items) added failures d) (Inr ref # os) =
    foldl (answer_last say) (go_batch say k g numbered (i + 1) items (added @ [ref]) failures ?d) os"
    using 4(3) by (simp add: go_mapped answer_item item_imported_def outcome_answer_def isCurrent_def Let_def)
  moreover obtain xs where "foldl (answer_last say) (go_batch say k g numbered (i + 1) items (added @ [ref]) failures ?d) os =
      finish_batch say k numbered ((added @ [ref]) @ fst (batch_result say numbered (i + 1) items os))
        (failures @ snd (batch_result say numbered (i + 1) items os)) (?d\<lparr>ld_log := ld_log ?d @ xs\<rparr>)"
      "imports_sent xs = batch_payloads items" "list_all is_import xs"
    using 4(1) [of ?d "added @ [ref]" failures] 4(2,3) by (auto simp: sent_items_def)
  ultimately show ?case
    by (intro exI [of _ "?ys @ xs"]) (simp add: split_beta)
next
  case (5 say numbered i p items e os)
  let ?b = "\<lparr>ib_numbered = numbered, ib_index = i, ib_rest = items, ib_added = added, ib_failures = failures\<rparr>"
  let ?ys = "[Sent (ImportNext p ?b), Answered (ImportNext p ?b) (Refused e)]"
  let ?d = "d\<lparr>ld_log := ld_log d @ ?ys\<rparr>" and ?f = "failures @ [failure_text say numbered i (say_error say e)]"
  have "foldl (answer_last say) (go_batch say k g numbered i (MappedRequest p # items) added failures d) (Inl e # os) =
    foldl (answer_last say) (go_batch say k g numbered (i + 1) items added ?f ?d) os"
    using 5(3) by (simp add: go_mapped answer_item item_imported_def outcome_answer_def isCurrent_def Let_def)
  moreover obtain xs where "foldl (answer_last say) (go_batch say k g numbered (i + 1) items added ?f ?d) os =
      finish_batch say k numbered (added @ fst (batch_result say numbered (i + 1) items os))
        (?f @ snd (batch_result say numbered (i + 1) items os)) (?d\<lparr>ld_log := ld_log ?d @ xs\<rparr>)"
      "imports_sent xs = batch_payloads items" "list_all is_import xs"
    using 5(1) [of ?d added ?f] 5(2,3) by (auto simp: sent_items_def)
  ultimately show ?case
    by (intro exI [of _ "?ys @ xs"]) (simp add: split_beta)
qed

text \<open>C10: A batch accounts for every item: when the requests of pasted credentials are answered one after the other, each
  item with a token is sent once, in order; the accounts are those the answers brought, and with the
  failures they make up the items, so nothing is counted twice. Then exactly one toast tells the end: with one
  account at least how many there are and the first three failures with the number of the others, and the
  dialog closes and the page is told the ids of the accounts in order; without one the first failures, and the
  dialog stays open, its form ready again.\<close>

theorem batch_accounts_for_all:
  fixes say :: phrases and numbered :: bool and f :: flow and d :: login_dialog
  assumes "length os = sent_items items" "ld_open d"
  defines "refs \<equiv> accounts_of os" and "fails \<equiv> snd (batch_result say numbered 0 items os)"
    and "result \<equiv> foldl (answer_last say) (start_batch say f numbered items d) os"
  shows "length refs + length fails = length items \<and>
    (\<exists>xs. ld_log result = ld_log d @ xs @ batch_ending say numbered refs fails \<and>
       imports_sent xs = batch_payloads items \<and> list_all is_import xs) \<and>
    (if refs = [] then ld_open result \<and> ld_flow result = Some (set_pending False f)
     else \<not> ld_open result \<and> fs_generation (ld_sessions d) < fs_generation (ld_sessions result))"
proof -
  have twice: "set_pending False (set_pending b g) = set_pending False g" for b g by (cases g) simp_all
  let ?d = "report_busy (ld_key d) True (d\<lparr>ld_flow := Some f\<rparr>)"
  have g: "fs_generation (ld_sessions d) = fs_generation (ld_sessions ?d)" by (simp add: report_simps)
  have refs: "refs = fst (batch_result say numbered 0 items os)"
    unfolding refs_def by (rule batch_result_accounts [OF assms(1), symmetric])
  obtain xs where r: "result = finish_batch say (ld_key d) numbered refs fails (?d\<lparr>ld_log := ld_log ?d @ xs\<rparr>)"
    and xs: "imports_sent xs = batch_payloads items" "list_all is_import xs"
    using batch_runs [OF assms(1) g, where say = say and k = "ld_key d" and numbered = numbered and i = 0 and added = "[]" and failures = "[]"]
    unfolding result_def refs fails_def start_batch_def by auto
  have "ld_log result = ld_log d @ xs @ batch_ending say numbered refs fails"
    unfolding r by (simp add: finish_log report_simps)
  moreover have "length refs + length fails = length items"
    unfolding refs fails_def by (rule batch_result_length [OF assms(1)])
  moreover have "if refs = [] then ld_open result \<and> ld_flow result = Some (set_pending False f)
     else \<not> ld_open result \<and> fs_generation (ld_sessions d) < fs_generation (ld_sessions result)"
    using assms(2) twice unfolding r by (simp add: finish_batch_def showBatchResult_def Let_def dialog_simps)
  ultimately show ?thesis using xs by blast
qed

definition two_items :: "mapped_credential list" where
  "two_items = [MappedRequest no_payload, MissingRefreshToken, MappedRequest no_payload]"

theorem batch_accounts_for_all_witness:
  "\<exists>xs. ld_log (foldl (answer_last plain_phrases) (start_batch plain_phrases (mounted ByCredentials) True two_items
       (run_dialog [Picked ByCredentials])) [Inl Aborted, Inr \<lparr>ref_id = ''a1'', ref_email = ''e''\<rparr>]) =
     xs @ [Told ToastWarning ''importPartial'' (Some ''credentials.failureItem; credentials.failureItem'') (Some 5200),
       OpenChanged False, Added [''a1''], AccountsInvalidated, StatusInvalidated, Sent (RefetchAdded [''a1''])]"
proof -
  let ?os = "[Inl Aborted, Inr \<lparr>ref_id = ''a1'', ref_email = ''e''\<rparr>]"
  have "length ?os = sent_items two_items" "ld_open (run_dialog [Picked ByCredentials])"
    "batch_ending plain_phrases True (accounts_of ?os) (snd (batch_result plain_phrases True 0 two_items ?os)) =
       [Told ToastWarning ''importPartial'' (Some ''credentials.failureItem; credentials.failureItem'') (Some 5200),
        OpenChanged False, Added [''a1''], AccountsInvalidated, StatusInvalidated, Sent (RefetchAdded [''a1''])]" by code_simp+
  with batch_accounts_for_all [of ?os two_items "run_dialog [Picked ByCredentials]" plain_phrases True "mounted ByCredentials"]
  show ?thesis by (metis append.assoc)
qed

end
