(* ===== verification/Mock_Stats.thy ===== *)
theory Mock_Stats
  imports Mock_Core Aggregate Request_Model
begin

text \<open>
  What the mock server computes from its request log (src/ui/src/lib/mocks/fixtures.ts): the account
  heatmap, the overview, the model mix and the status; and the handlers that serve them
  (src/ui/src/features/overview/mocks.ts). The loops are folds over the log with the code's
  accumulators: arrays of cells updated by index, maps as association lists in insertion order, sets
  as lists without repetition. Credits are exact rationals, rounded where the code rounds.
\<close>

definition minuteOffset :: "int \<Rightarrow> int \<Rightarrow> int" where
  "minuteOffset ts nowUnix = nowUnix div 60 - ts div 60"

definition RING_MINUTES :: int where "RING_MINUTES = 1440"

definition OVERVIEW_SERIES_MINUTES :: int where "OVERVIEW_SERIES_MINUTES = 30"

definition TOP_RANK_MINUTES :: int where "TOP_RANK_MINUTES = 60"

definition round_to :: "rat \<Rightarrow> nat \<Rightarrow> rat" where
  "round_to v digits = of_int (js_round (v * 10 ^ digits)) / 10 ^ digits"

subsection \<open>The heatmap\<close>

record cell_sums =
  cs_offset :: int
  cs_reqs :: int
  cs_failures :: int
  cs_retries :: int
  cs_credits :: rat

definition emptyCells :: "int \<Rightarrow> cell_sums list" where
  "emptyCells n = map (\<lambda>i. \<lparr>cs_offset = int i, cs_reqs = 0, cs_failures = 0, cs_retries = 0, cs_credits = 0\<rparr>) [0..<nat n]"

definition isEmptyCell :: "cell_sums \<Rightarrow> bool" where
  "isEmptyCell c \<longleftrightarrow> cs_reqs c = 0 \<and> cs_failures c = 0 \<and> cs_retries c = 0 \<and> cs_credits c = 0"

definition finish_cell :: "cell_sums \<Rightarrow> heatmap_cell" where
  "finish_cell c = \<lparr>cell_offset = cs_offset c, cell_reqs = cs_reqs c, cell_failures = cs_failures c,
     cell_retries = (if cs_retries c > 0 then Some (cs_retries c) else None),
     cell_credits = (if cs_credits c > 0 then Some (round_to (cs_credits c) 4) else None)\<rparr>"

definition finishCells :: "cell_sums list \<Rightarrow> bool \<Rightarrow> heatmap_cell list" where
  "finishCells cells sparse = map finish_cell (filter (\<lambda>c. \<not> sparse \<or> \<not> isEmptyCell c) cells)"

record heat_options =
  ho_errors :: "observe_error list"
  ho_global :: bool
  ho_top :: int
  ho_sparse :: bool
  ho_bucketMin :: int

record heat_row =
  row_cells :: "cell_sums list"
  row_rank :: int

type_synonym heat_state = "cell_sums list \<times> (string \<times> heat_row) list"

definition update_cell :: "nat \<Rightarrow> (cell_sums \<Rightarrow> cell_sums) \<Rightarrow> cell_sums list \<Rightarrow> cell_sums list" where
  "update_cell i f cells = (if i < length cells then cells[i := f (cells ! i)] else cells)"

fun update_row :: "string \<Rightarrow> (heat_row \<Rightarrow> heat_row) \<Rightarrow> (string \<times> heat_row) list \<Rightarrow> (string \<times> heat_row) list" where
  "update_row k f [] = []"
| "update_row k f ((j, r) # rest) = (if j = k then (j, f r) # rest else (j, r) # update_row k f rest)"

text \<open>The closure \<open>add\<close> of \<open>buildHeatmap\<close>, for \<open>count\<close> cells of \<open>bucketMin\<close> minutes.\<close>

definition heat_add ::
  "account list \<Rightarrow> int \<Rightarrow> int \<Rightarrow> int \<Rightarrow> string \<Rightarrow> int \<Rightarrow> (cell_sums \<Rightarrow> cell_sums) \<Rightarrow> int \<Rightarrow> heat_state \<Rightarrow> heat_state" where
  "heat_add accounts windowMin bucketMin nowUnix accountId ts apply_to rankBy = (\<lambda>(glob, rows).
     (let offset = minuteOffset ts nowUnix in
      if offset < 0 \<or> offset \<ge> RING_MINUTES then (glob, rows)
      else
        (let known = (accountId \<noteq> [] \<and> accountId \<in> acc_id ` set accounts);
             rows1 = (if known \<and> map_of rows accountId = None
                      then rows @ [(accountId, \<lparr>row_cells = emptyCells (js_ceil_div windowMin bucketMin), row_rank = 0\<rparr>)]
                      else rows);
             rows2 = (if known \<and> offset < TOP_RANK_MINUTES
                      then update_row accountId (\<lambda>r. r\<lparr>row_rank := row_rank r + rankBy\<rparr>) rows1 else rows1)
         in if offset \<ge> windowMin then (glob, rows2)
            else
              (let i = nat (offset div bucketMin)
               in (update_cell i apply_to glob,
                   if known then update_row accountId (\<lambda>r. r\<lparr>row_cells := update_cell i apply_to (row_cells r)\<rparr>) rows2
                   else rows2)))))"

definition count_request :: "request_record \<Rightarrow> cell_sums \<Rightarrow> cell_sums" where
  "count_request r c = c\<lparr>cs_reqs := cs_reqs c + 1,
     cs_failures := (if rr_success r then cs_failures c else cs_failures c + 1),
     cs_credits := cs_credits c + rr_credits r\<rparr>"

definition count_retry :: "cell_sums \<Rightarrow> cell_sums" where
  "count_retry c = c\<lparr>cs_retries := cs_retries c + 1\<rparr>"

definition heat_bucket :: "int \<Rightarrow> heat_options \<Rightarrow> int" where
  "heat_bucket windowMin opts = min (max 1 (ho_bucketMin opts)) windowMin"

definition heat_sums ::
  "request_record list \<Rightarrow> account list \<Rightarrow> int \<Rightarrow> int \<Rightarrow> heat_options \<Rightarrow> heat_state" where
  "heat_sums requests accounts windowMin nowUnix opts =
     (let bucketMin = heat_bucket windowMin opts;
          add = heat_add accounts windowMin bucketMin nowUnix;
          st = foldl (\<lambda>st r. add (rr_accountId r) (rr_ts r) (count_request r) 1 st)
                 (emptyCells (js_ceil_div windowMin bucketMin), []) requests
      in foldl (\<lambda>st e. add (oe_accountId e) (oe_ts e) count_retry 1 st) st (ho_errors opts))"

definition id_order :: "string \<times> heat_row \<Rightarrow> string \<times> heat_row \<Rightarrow> int" where
  "id_order x y = textCompare (fst x) (fst y)"

definition rank_order :: "string \<times> heat_row \<Rightarrow> string \<times> heat_row \<Rightarrow> int" where
  "rank_order x y = (if row_rank (snd y) - row_rank (snd x) \<noteq> 0 then row_rank (snd y) - row_rank (snd x)
     else textCompare (fst x) (fst y))"

definition heat_row_out :: "account list \<Rightarrow> bool \<Rightarrow> string \<times> heat_row \<Rightarrow> account_heatmap" where
  "heat_row_out accounts sparse p =
     \<lparr>hm_accountId = fst p,
      hm_email = (case map_of (rev (map (\<lambda>a. (acc_id a, acc_email a)) accounts)) (fst p) of
          None \<Rightarrow> None | Some e \<Rightarrow> if e = [] then None else Some e),
      hm_cells = finishCells (row_cells (snd p)) sparse\<rparr>"

definition buildHeatmap ::
  "request_record list \<Rightarrow> account list \<Rightarrow> int \<Rightarrow> int \<Rightarrow> heat_options \<Rightarrow> heatmap_data" where
  "buildHeatmap requests accounts windowMin nowUnix opts =
     (let (glob, rows) = heat_sums requests accounts windowMin nowUnix opts;
          sparse = ho_sparse opts;
          out = heat_row_out accounts sparse;
          result = \<lparr>hd_windowMin = windowMin, hd_bucketMin = heat_bucket windowMin opts, hd_nowUnix = nowUnix,
            hd_global = \<lparr>hm_accountId = ''_global_'', hm_email = None, hm_cells = finishCells glob sparse\<rparr>,
            hd_accounts = [], hd_restCount = None\<rparr>
      in if ho_global opts then result
         else if ho_top opts > 0 then
           (let busy = sort_cmp rank_order (filter (\<lambda>(_, r). row_rank r > 0) rows)
            in result\<lparr>hd_accounts := map out (take (nat (ho_top opts)) busy),
                 hd_restCount := Some (max 0 (int (length busy) - ho_top opts))\<rparr>)
         else result\<lparr>hd_accounts := map out (sort_cmp id_order rows)\<rparr>)"

subsection \<open>Serving it\<close>

definition MAX_HEATMAP_WINDOW :: int where "MAX_HEATMAP_WINDOW = 1440"

definition DEFAULT_HEATMAP_WINDOW :: int where "DEFAULT_HEATMAP_WINDOW = 60"

definition MAX_RECENT_ERRORS :: int where "MAX_RECENT_ERRORS = 100"

definition MAX_SAFE_INTEGER :: int where "MAX_SAFE_INTEGER = 2 ^ 53 - 1"

text \<open>A text of digits too large for a number is \<open>Infinity\<close>, which is not finite.\<close>

definition MAX_NUMBER :: int where "MAX_NUMBER = 2 ^ 1024 - 2 ^ 970"

definition clampParam :: "string option \<Rightarrow> int \<Rightarrow> int \<Rightarrow> int" where
  "clampParam raw fallback most =
     (case raw of
        None \<Rightarrow> fallback
      | Some s \<Rightarrow>
          (let (neg, ds) = signed s; n = (if neg then - int (nat_of_digits ds) else int (nat_of_digits ds))
           in if ds = [] \<or> \<not> list_all is_digit ds \<or> n \<ge> MAX_NUMBER \<or> n \<le> 0 then fallback else min n most))"

definition isFlag :: "string option \<Rightarrow> bool" where
  "isFlag raw \<longleftrightarrow> toLowerCase (trim (case raw of None \<Rightarrow> [] | Some s \<Rightarrow> s)) \<in> {''1'', ''true'', ''yes'', ''on''}"

definition get_account_heatmap ::
  "string \<Rightarrow> int \<Rightarrow> (string \<times> string) list \<Rightarrow> mock_db \<Rightarrow> heatmap_response reply \<times> mock_db \<times> event list" where
  "get_account_heatmap token nowUnix query = guarded token (\<lambda>db.
     (let windowMin = clampParam (map_of query ''windowMin'') DEFAULT_HEATMAP_WINDOW MAX_HEATMAP_WINDOW;
          busiest = clampParam (map_of query ''top'') 0 MAX_SAFE_INTEGER;
          h = buildHeatmap (db_requests db) (db_accounts db) windowMin nowUnix
                \<lparr>ho_errors = db_errors db,
                 ho_global = (case map_of query ''scope'' of None \<Rightarrow> False | Some s \<Rightarrow> toLowerCase s = ''global''),
                 ho_top = busiest, ho_sparse = isFlag (map_of query ''sparse''),
                 ho_bucketMin = clampParam (map_of query ''bucketMin'') 1 windowMin\<rparr>
      in (Inr \<lparr>hr_windowMin = hd_windowMin h, hr_bucketMin = Some (hd_bucketMin h), hr_nowUnix = hd_nowUnix h,
               hr_global = hd_global h,
               hr_accounts = (if hd_accounts h = [] then None else Some (hd_accounts h)),
               hr_restCount = (if busiest > 0 then hd_restCount h else None)\<rparr>, db, [])))"

definition get_model_mix :: "string \<Rightarrow> mock_db \<Rightarrow> model_mix_entry list reply \<times> mock_db \<times> event list" where
  "get_model_mix token = guarded token (\<lambda>db. (Inr (db_modelMix db), db, []))"

definition get_recent_errors ::
  "string \<Rightarrow> (string \<times> string) list \<Rightarrow> mock_db \<Rightarrow> observe_error list reply \<times> mock_db \<times> event list" where
  "get_recent_errors token query = guarded token (\<lambda>db.
     (Inr (take (nat (clampParam (map_of query ''limit'') MAX_RECENT_ERRORS MAX_RECENT_ERRORS)) (db_errors db)), db, []))"

subsection \<open>Lemmas\<close>

text \<open>What the log holds for one cell: the final requests and the failed attempts of its minutes.\<close>

definition heat_at :: "int \<Rightarrow> int \<Rightarrow> int \<Rightarrow> int \<Rightarrow> int \<Rightarrow> bool" where
  "heat_at w b now i ts \<longleftrightarrow> (let k = minuteOffset ts now in 0 \<le> k \<and> k < RING_MINUTES \<and> k < w \<and> k div b = i)"

definition log_sums :: "int \<Rightarrow> int \<Rightarrow> int \<Rightarrow> request_record list \<Rightarrow> observe_error list \<Rightarrow> int \<Rightarrow> cell_sums" where
  "log_sums w b now requests errors i =
     (let here = filter (\<lambda>r. heat_at w b now i (rr_ts r)) requests
      in \<lparr>cs_offset = i, cs_reqs = int (length here),
          cs_failures = int (length (filter (\<lambda>r. \<not> rr_success r) here)),
          cs_retries = int (length (filter (\<lambda>e. heat_at w b now i (oe_ts e)) errors)),
          cs_credits = sum_list (map rr_credits here)\<rparr>)"

definition log_cells :: "int \<Rightarrow> int \<Rightarrow> int \<Rightarrow> request_record list \<Rightarrow> observe_error list \<Rightarrow> heatmap_cell list" where
  "log_cells w b now requests errors =
     map (\<lambda>i. finish_cell (log_sums w b now requests errors (int i))) [0..<nat (js_ceil_div w b)]"

lemma length_emptyCells [simp]: "length (emptyCells n) = nat n"
  by (simp add: emptyCells_def)

lemma length_update_cell [simp]: "length (update_cell i f cells) = length cells"
  by (simp add: update_cell_def)

lemma update_cell_nth: "j < length cells \<Longrightarrow> update_cell i f cells ! j = (if i = j then f (cells ! j) else cells ! j)"
  by (auto simp: update_cell_def nth_list_update)

lemma heat_cell_offset: "cs_offset (count_request r c) = cs_offset c" "cs_offset (count_retry c) = cs_offset c"
  by (simp_all add: count_request_def count_retry_def)

text \<open>One row of cells, whichever it is: the fold of the counts that fall on it.\<close>

definition hit :: "int \<Rightarrow> int \<Rightarrow> int \<Rightarrow> int \<Rightarrow> (cell_sums \<Rightarrow> cell_sums) \<Rightarrow> cell_sums list \<Rightarrow> cell_sums list" where
  "hit w b now ts f cells =
     (let k = minuteOffset ts now
      in if 0 \<le> k \<and> k < RING_MINUTES \<and> k < w then update_cell (nat (k div b)) f cells else cells)"

definition hits ::
  "int \<Rightarrow> int \<Rightarrow> int \<Rightarrow> request_record list \<Rightarrow> observe_error list \<Rightarrow> cell_sums list \<Rightarrow> cell_sums list" where
  "hits w b now requests errors cells =
     foldl (\<lambda>cs e. hit w b now (oe_ts e) count_retry cs)
       (foldl (\<lambda>cs r. hit w b now (rr_ts r) (count_request r) cs) cells requests) errors"

lemma length_hit [simp]: "length (hit w b now ts f cells) = length cells"
  by (simp add: hit_def Let_def)

lemma hit_nth:
  assumes "0 < b" "j < length cells"
  shows "hit w b now ts f cells ! j = (if heat_at w b now (int j) ts then f (cells ! j) else cells ! j)"
proof -
  have "nat (k div b) = j \<longleftrightarrow> k div b = int j" if "0 \<le> k" for k
    using pos_imp_zdiv_nonneg_iff [OF assms(1), of k] that by auto
  then show ?thesis using assms(2) by (auto simp: hit_def heat_at_def Let_def update_cell_nth)
qed

lemma requests_nth:
  assumes "0 < b" "j < length cells"
  shows "length (foldl (\<lambda>cs r. hit w b now (rr_ts r) (count_request r) cs) cells requests) = length cells \<and>
    foldl (\<lambda>cs r. hit w b now (rr_ts r) (count_request r) cs) cells requests ! j =
      (let c = cells ! j; here = filter (\<lambda>r. heat_at w b now (int j) (rr_ts r)) requests in
       c\<lparr>cs_reqs := cs_reqs c + int (length here),
         cs_failures := cs_failures c + int (length (filter (\<lambda>r. \<not> rr_success r) here)),
         cs_credits := cs_credits c + sum_list (map rr_credits here)\<rparr>)"
proof (induction requests rule: rev_induct)
  case Nil
  then show ?case by (simp add: Let_def)
next
  case (snoc r rs)
  with assms show ?case by (simp add: hit_nth Let_def count_request_def)
qed

lemma retries_nth:
  assumes "0 < b" "j < length cells"
  shows "length (foldl (\<lambda>cs e. hit w b now (oe_ts e) count_retry cs) cells errors) = length cells \<and>
    foldl (\<lambda>cs e. hit w b now (oe_ts e) count_retry cs) cells errors ! j =
      (cells ! j)\<lparr>cs_retries := cs_retries (cells ! j) +
        int (length (filter (\<lambda>e. heat_at w b now (int j) (oe_ts e)) errors))\<rparr>"
proof (induction errors rule: rev_induct)
  case Nil
  then show ?case by simp
next
  case (snoc e es)
  with assms show ?case by (simp add: hit_nth count_retry_def)
qed

lemma length_hits [simp]: "length (hits w b now requests errors cells) = length cells"
proof -
  have "length (foldl (\<lambda>cs r. hit w b now (rr_ts r) (count_request r) cs) cs requests) = length cs" for cs
    by (induction requests arbitrary: cs) simp_all
  moreover have "length (foldl (\<lambda>cs e. hit w b now (oe_ts e) count_retry cs) cs errors) = length cs" for cs
    by (induction errors arbitrary: cs) simp_all
  ultimately show ?thesis by (simp add: hits_def)
qed

lemma hits_empty_nth:
  assumes "0 < b" "j < nat n"
  shows "hits w b now requests errors (emptyCells n) ! j = log_sums w b now requests errors (int j)"
proof -
  let ?mid = "foldl (\<lambda>cs r. hit w b now (rr_ts r) (count_request r) cs) (emptyCells n) requests"
  note mid = requests_nth [OF assms(1), of j "emptyCells n" w now requests]
  from mid assms(2) have "j < length ?mid" by simp
  from retries_nth [OF assms(1) this, of w now errors] mid assms(2) show ?thesis
    by (simp add: hits_def log_sums_def emptyCells_def Let_def)
qed

text \<open>Dense again: what \<open>finishCells\<close> left out comes back as the empty cell it was.\<close>

lemma find_by_filter_map:
  assumes "distinct (map key rows)" "r \<in> set rows"
  shows "find_by key (filter P rows) (key r) = (if P r then Some r else None)"
proof (cases "P r")
  case True
  have "distinct (map key (filter P rows))" using assms(1) by (rule distinct_map_filter)
  from find_by_unique [OF this, of r] True assms(2) show ?thesis by simp
next
  case False
  have "key r \<notin> key ` set (filter P rows)"
    using assms False by (auto simp: distinct_map inj_on_def)
  with False show ?thesis by (simp add: find_by_None)
qed

lemma finish_cell_empty: "isEmptyCell c \<Longrightarrow> finish_cell c = empty_cell (cs_offset c)"
  by (simp add: isEmptyCell_def finish_cell_def empty_cell_def)

lemma densify_finishCells:
  assumes "\<And>j. j < nat n \<Longrightarrow> cs_offset (cells ! j) = int j" "length cells = nat n"
  shows "densify (finishCells cells sparse) n = map finish_cell cells"
proof (rule nth_equalityI)
  fix j assume "j < length (densify (finishCells cells sparse) n)"
  then have j: "j < nat n" by simp
  let ?keep = "\<lambda>c. \<not> sparse \<or> \<not> isEmptyCell c"
  have off: "map cs_offset cells = map int [0..<nat n]"
    by (rule nth_equalityI) (simp_all add: assms)
  have "cell_at (finishCells cells sparse) k = map_option finish_cell (find_by cs_offset (filter ?keep (rev cells)) k)" for k
  proof -
    have "find_by cell_offset (map finish_cell xs) k = map_option finish_cell (find_by cs_offset xs k)" for xs
      by (induction xs) (simp_all add: finish_cell_def)
    then show ?thesis by (simp add: cell_at_def finishCells_def rev_map rev_filter)
  qed
  moreover have "find_by cs_offset (filter ?keep (rev cells)) (cs_offset (cells ! j)) =
      (if ?keep (cells ! j) then Some (cells ! j) else None)"
    by (rule find_by_filter_map) (use j assms(2) in \<open>simp_all add: rev_map [symmetric] off distinct_map\<close>)
  ultimately have "cell_at (finishCells cells sparse) (int j) =
      (if ?keep (cells ! j) then Some (finish_cell (cells ! j)) else None)"
    using assms(1) [OF j] by simp
  then show "densify (finishCells cells sparse) n ! j = map finish_cell cells ! j"
    using j assms by (simp add: densify_nth finish_cell_empty)
qed (simp add: assms)

lemma densify_hits:
  assumes "0 < b"
  shows "densify (finishCells (hits w b now requests errors (emptyCells (js_ceil_div w b))) sparse)
    (js_ceil_div w b) = log_cells w b now requests errors"
proof -
  let ?cells = "hits w b now requests errors (emptyCells (js_ceil_div w b))"
  have "cs_offset (?cells ! j) = int j" if "j < nat (js_ceil_div w b)" for j
    using hits_empty_nth [OF assms that] by (simp add: log_sums_def Let_def)
  moreover have "map finish_cell ?cells = log_cells w b now requests errors"
    by (rule nth_equalityI) (simp_all add: log_cells_def hits_empty_nth [OF assms])
  ultimately show ?thesis using densify_finishCells [of "js_ceil_div w b" ?cells sparse] by simp
qed

subsection \<open>Rows\<close>

text \<open>The two loops of \<open>buildHeatmap\<close> as one sequence of events: an account, a time, a count.\<close>

type_synonym heat_event = "string \<times> int \<times> (cell_sums \<Rightarrow> cell_sums)"

definition heat_events :: "request_record list \<Rightarrow> observe_error list \<Rightarrow> heat_event list" where
  "heat_events requests errors =
     map (\<lambda>r. (rr_accountId r, rr_ts r, count_request r)) requests @
     map (\<lambda>e. (oe_accountId e, oe_ts e, count_retry)) errors"

definition hit_event :: "int \<Rightarrow> int \<Rightarrow> int \<Rightarrow> cell_sums list \<Rightarrow> heat_event \<Rightarrow> cell_sums list" where
  "hit_event w b now cells ev = (case ev of (_, ts, f) \<Rightarrow> hit w b now ts f cells)"

definition in_ring :: "int \<Rightarrow> int \<Rightarrow> bool" where
  "in_ring now ts \<longleftrightarrow> 0 \<le> minuteOffset ts now \<and> minuteOffset ts now < RING_MINUTES"

definition known_id :: "account list \<Rightarrow> string \<Rightarrow> bool" where
  "known_id accounts k \<longleftrightarrow> k \<noteq> [] \<and> k \<in> acc_id ` set accounts"

lemma hit_event_eq: "hit_event w b now cells (k, ts, f) = hit w b now ts f cells"
  by (simp add: hit_event_def)

lemma heat_sums_events:
  "heat_sums requests accounts w now opts =
     foldl (\<lambda>st ev. heat_add accounts w (heat_bucket w opts) now (fst ev) (fst (snd ev)) (snd (snd ev)) 1 st)
       (emptyCells (js_ceil_div w (heat_bucket w opts)), []) (heat_events requests (ho_errors opts))"
  by (simp add: heat_sums_def heat_events_def Let_def foldl_map)

lemma hits_events: "hits w b now requests errors cells = foldl (hit_event w b now) cells (heat_events requests errors)"
  by (simp add: hits_def heat_events_def hit_event_def foldl_map)

lemma heat_events_own: "filter (\<lambda>ev. fst ev = k) (heat_events requests errors) =
    heat_events (filter (\<lambda>r. rr_accountId r = k) requests) (filter (\<lambda>e. oe_accountId e = k) errors)"
  by (simp add: heat_events_def filter_map comp_def)

lemma update_row_keys [simp]: "map fst (update_row k f rows) = map fst rows"
  by (induction rows) auto

lemma update_row_set:
  "distinct (map fst rows) \<Longrightarrow> set (update_row k f rows) = (\<lambda>(j, r). (j, if j = k then f r else r)) ` set rows"
proof (induction rows)
  case (Cons p rows)
  obtain j r where p: "p = (j, r)" by (cases p)
  show ?case
  proof (cases "j = k")
    case True
    then have "\<And>q. q \<in> set rows \<Longrightarrow> fst q \<noteq> k" using Cons.prems p by (auto simp: image_iff)
    then have "(\<lambda>(j, r). (j, if j = k then f r else r)) ` set rows = set rows"
      by (force simp: image_iff)
    with True p show ?thesis by simp
  next
    case False
    with Cons p show ?thesis by simp
  qed
qed simp

text \<open>The rows after some events: one per known account with traffic in the ring, its cells the
  count of its own events.\<close>

definition rows_of ::
  "account list \<Rightarrow> int \<Rightarrow> int \<Rightarrow> int \<Rightarrow> heat_event list \<Rightarrow> (string \<times> heat_row) list \<Rightarrow> bool" where
  "rows_of accounts w b now evs rows \<longleftrightarrow>
     distinct (map fst rows) \<and>
     fst ` set rows = {k. known_id accounts k \<and> list_ex (\<lambda>ev. fst ev = k \<and> in_ring now (fst (snd ev))) evs} \<and>
     (\<forall>p\<in>set rows. row_cells (snd p) =
        foldl (hit_event w b now) (emptyCells (js_ceil_div w b)) (filter (\<lambda>ev. fst ev = fst p) evs))"

lemma hit_outside: "\<not> in_ring now ts \<Longrightarrow> hit w b now ts f cells = cells"
  by (auto simp: in_ring_def hit_def Let_def)

lemma hits_outside:
  "list_all (\<lambda>ev. \<not> in_ring now (fst (snd ev))) evs \<Longrightarrow> foldl (hit_event w b now) cells evs = cells"
  by (induction evs arbitrary: cells) (auto simp: hit_event_def hit_outside)

lemma heat_add_rows:
  assumes ok: "rows_of accounts w b now evs rows"
  shows "rows_of accounts w b now (evs @ [(k, ts, f)]) (snd (heat_add accounts w b now k ts f by (g, rows)))"
proof (cases "in_ring now ts \<and> known_id accounts k")
  case False
  have same: "snd (heat_add accounts w b now k ts f by (g, rows)) = rows"
    using False by (auto simp: heat_add_def in_ring_def known_id_def Let_def)
  have keys: "{j. known_id accounts j \<and> list_ex (\<lambda>ev. fst ev = j \<and> in_ring now (fst (snd ev))) (evs @ [(k, ts, f)])} =
      {j. known_id accounts j \<and> list_ex (\<lambda>ev. fst ev = j \<and> in_ring now (fst (snd ev))) evs}"
    using False by auto
  have cells: "hit_event w b now cs (k, ts, f) = cs" if "p \<in> set rows" "fst p = k" for p cs
  proof -
    have "known_id accounts k" using ok that unfolding rows_of_def by blast
    with False show ?thesis by (simp add: hit_event_def hit_outside)
  qed
  show ?thesis using ok cells unfolding rows_of_def same keys by auto
next
  case True
  let ?zero = "\<lparr>row_cells = emptyCells (js_ceil_div w b), row_rank = 0\<rparr>"
  let ?rows1 = "if map_of rows k = None then rows @ [(k, ?zero)] else rows"
  let ?rank = "\<lambda>r. if minuteOffset ts now < TOP_RANK_MINUTES then r\<lparr>row_rank := row_rank r + by\<rparr> else r"
  let ?step = "\<lambda>r. (?rank r)\<lparr>row_cells := hit w b now ts f (row_cells r)\<rparr>"
  have ids: "update_row k (\<lambda>r. r) rs = rs" for rs by (induction rs) auto
  have twice: "update_row k f2 (update_row k f1 rs) = update_row k (\<lambda>r. f2 (f1 r)) rs" for f1 f2 rs
    by (induction rs) auto
  have res: "snd (heat_add accounts w b now k ts f by (g, rows)) = update_row k ?step ?rows1"
    using True by (auto simp: heat_add_def in_ring_def known_id_def Let_def hit_def ids twice)
  have None_iff: "map_of rows k = None \<longleftrightarrow> k \<notin> fst ` set rows" by (simp add: map_of_eq_None_iff)
  have dist1: "distinct (map fst ?rows1)" using ok by (auto simp: rows_of_def None_iff)
  have set1: "fst ` set ?rows1 = insert k (fst ` set rows)" by (auto simp: None_iff)
  have before: "row_cells (snd p) = foldl (hit_event w b now) (emptyCells (js_ceil_div w b))
      (filter (\<lambda>ev. fst ev = fst p) evs)" if p: "p \<in> set ?rows1" for p
  proof (cases "p \<in> set rows")
    case True
    then show ?thesis using ok by (auto simp: rows_of_def)
  next
    case new: False
    then have p: "p = (k, ?zero)" "k \<notin> fst ` set rows" using p by (auto simp: None_iff split: if_splits)
    then have "\<not> list_ex (\<lambda>ev. fst ev = k \<and> in_ring now (fst (snd ev))) evs"
      using ok True by (auto simp: rows_of_def)
    then have "list_all (\<lambda>ev. \<not> in_ring now (fst (snd ev))) (filter (\<lambda>ev. fst ev = k) evs)"
      by (auto simp: list_ex_iff list_all_iff)
    from hits_outside [OF this] p show ?thesis by simp
  qed
  have "fst ` set (update_row k ?step ?rows1) = fst ` set ?rows1"
    using update_row_keys [of k ?step ?rows1] by (metis set_map)
  moreover have "fst ` set ?rows1 = {j. known_id accounts j \<and>
      list_ex (\<lambda>ev. fst ev = j \<and> in_ring now (fst (snd ev))) (evs @ [(k, ts, f)])}"
    unfolding set1 using ok True by (auto simp: rows_of_def)
  moreover have "row_cells (snd p) = foldl (hit_event w b now) (emptyCells (js_ceil_div w b))
      (filter (\<lambda>ev. fst ev = fst p) (evs @ [(k, ts, f)]))" if "p \<in> set (update_row k ?step ?rows1)" for p
  proof -
    from that obtain q where q: "q \<in> set ?rows1" "p = (fst q, if fst q = k then ?step (snd q) else snd q)"
      unfolding update_row_set [OF dist1] by auto
    show ?thesis using before [OF q(1)] q(2) by (cases "fst q = k") (simp_all add: hit_event_def)
  qed
  ultimately show ?thesis using dist1 unfolding rows_of_def res by (simp only: update_row_keys) blast
qed

lemma heat_sums_spec:
  fixes opts :: heat_options
  assumes "heat_sums requests accounts w now opts = (g, rows)"
  defines "b \<equiv> heat_bucket w opts"
  shows "g = hits w b now requests (ho_errors opts) (emptyCells (js_ceil_div w b)) \<and>
    rows_of accounts w b now (heat_events requests (ho_errors opts)) rows"
proof -
  let ?add = "\<lambda>st ev. heat_add accounts w b now (fst ev) (fst (snd ev)) (snd (snd ev)) 1 st"
  have "fst (foldl ?add (cs, []) evs) = foldl (hit_event w b now) cs evs \<and>
      (cs = emptyCells (js_ceil_div w b) \<longrightarrow> rows_of accounts w b now evs (snd (foldl ?add (cs, []) evs)))" for cs evs
  proof (induction evs rule: rev_induct)
    case Nil
    then show ?case by (simp add: rows_of_def)
  next
    case (snoc ev evs)
    obtain k ts f where ev: "ev = (k, ts, f)" by (cases ev) auto
    obtain g rows where st: "foldl ?add (cs, []) evs = (g, rows)" by (cases "foldl ?add (cs, []) evs")
    have g: "g = foldl (hit_event w b now) cs evs" using snoc.IH by (simp only: st fst_conv)
    have glob: "fst (heat_add accounts w b now k ts f 1 (g, rows)) = hit w b now ts f g"
      by (simp add: heat_add_def hit_def Let_def)
    have step: "foldl ?add (cs, []) (evs @ [ev]) = heat_add accounts w b now k ts f 1 (g, rows)"
      using st by (simp add: ev)
    show ?case
    proof (intro conjI impI)
      show "fst (foldl ?add (cs, []) (evs @ [ev])) = foldl (hit_event w b now) cs (evs @ [ev])"
        unfolding step glob by (simp only: ev foldl_append foldl.simps hit_event_eq g)
      assume "cs = emptyCells (js_ceil_div w b)"
      then have "rows_of accounts w b now evs rows" using snoc.IH st by simp
      then show "rows_of accounts w b now (evs @ [ev]) (snd (foldl ?add (cs, []) (evs @ [ev])))"
        using heat_add_rows [of accounts w b now evs rows k ts f 1 g] step by (simp only: ev)
    qed
  qed
  from this [of "emptyCells (js_ceil_div w b)" "heat_events requests (ho_errors opts)"] assms(1)
  show ?thesis unfolding heat_sums_events b_def hits_events by simp
qed

lemma clampParam_bounds: "0 < fallback \<Longrightarrow> fallback \<le> most \<Longrightarrow> 0 < clampParam raw fallback most \<and> clampParam raw fallback most \<le> most"
  by (auto simp: clampParam_def Let_def split: option.split prod.split)

subsection \<open>Properties\<close>

text \<open>C34: The heatmap the page shows is the log's: whatever the query and whether or not the answer was
  sparse, the answer as the client shapes it has a window of 1 to 1440 minutes cut into whole buckets,
  every bucket of the global row counts exactly the requests, failures, retries and credits of the
  log's entries in its minutes, and so does every account's row for the entries of that account.\<close>

theorem heatmap_end_to_end:
  assumes "get_account_heatmap token now query db = (Inr body, db', sent)"
  defines "page \<equiv> shapeHeatmap body"
  shows "1 \<le> hd_windowMin page \<and> hd_windowMin page \<le> 1440 \<and>
    1 \<le> hd_bucketMin page \<and> hd_bucketMin page \<le> hd_windowMin page \<and>
    hm_cells (hd_global page) =
      log_cells (hd_windowMin page) (hd_bucketMin page) now (db_requests db) (db_errors db) \<and>
    list_all (\<lambda>row. hm_cells row = log_cells (hd_windowMin page) (hd_bucketMin page) now
      (filter (\<lambda>r. rr_accountId r = hm_accountId row) (db_requests db))
      (filter (\<lambda>e. oe_accountId e = hm_accountId row) (db_errors db))) (hd_accounts page) \<and>
    distinct (map hm_accountId (hd_accounts page)) \<and> db' = db"
proof -
  define w where "w = clampParam (map_of query ''windowMin'') DEFAULT_HEATMAP_WINDOW MAX_HEATMAP_WINDOW"
  define opts where "opts = \<lparr>ho_errors = db_errors db,
      ho_global = (case map_of query ''scope'' of None \<Rightarrow> False | Some s \<Rightarrow> toLowerCase s = ''global''),
      ho_top = clampParam (map_of query ''top'') 0 MAX_SAFE_INTEGER, ho_sparse = isFlag (map_of query ''sparse''),
      ho_bucketMin = clampParam (map_of query ''bucketMin'') 1 w\<rparr>"
  define b where "b = heat_bucket w opts"
  define n where "n = js_ceil_div w b"
  let ?h = "buildHeatmap (db_requests db) (db_accounts db) w now opts"
  have w: "1 \<le> w" "w \<le> 1440"
    using clampParam_bounds [of DEFAULT_HEATMAP_WINDOW MAX_HEATMAP_WINDOW "map_of query ''windowMin''"]
    by (simp_all add: w_def DEFAULT_HEATMAP_WINDOW_def MAX_HEATMAP_WINDOW_def)
  then have b: "1 \<le> b" "b \<le> w" by (simp_all add: b_def heat_bucket_def)
  obtain g rows where sums: "heat_sums (db_requests db) (db_accounts db) w now opts = (g, rows)"
    by (cases "heat_sums (db_requests db) (db_accounts db) w now opts")
  note spec = heat_sums_spec [OF sums, folded b_def n_def]
  have errs: "ho_errors opts = db_errors db" by (simp add: opts_def)
  have head: "hd_windowMin ?h = w" "hd_bucketMin ?h = b"
      "hm_cells (hd_global ?h) = finishCells g (ho_sparse opts)"
    and accs: "\<exists>ps. set ps \<subseteq> set rows \<and> distinct (map fst ps) \<and>
      hd_accounts ?h = map (heat_row_out (db_accounts db) (ho_sparse opts)) ps"
  proof -
    show "hd_windowMin ?h = w" "hd_bucketMin ?h = b" "hm_cells (hd_global ?h) = finishCells g (ho_sparse opts)"
      by (simp_all add: buildHeatmap_def sums b_def Let_def)
    let ?busy = "sort_cmp rank_order (filter (\<lambda>(_, r). row_rank r > 0) rows)"
    have d: "distinct (map fst rows)" using spec by (simp add: rows_of_def)
    then have "distinct (map fst (take (nat (ho_top opts)) ?busy))"
      by (simp add: take_map [symmetric] distinct_map_filter distinct_take)
    moreover have "set (take (nat (ho_top opts)) ?busy) \<subseteq> set rows"
      using set_take_subset [of _ ?busy] by fastforce
    moreover have "distinct (map fst (sort_cmp id_order rows))" "set (sort_cmp id_order rows) \<subseteq> set rows"
      using d by simp_all
    moreover have "set [] \<subseteq> set rows" "distinct (map fst [])" by simp_all
    ultimately show "\<exists>ps. set ps \<subseteq> set rows \<and> distinct (map fst ps) \<and>
        hd_accounts ?h = map (heat_row_out (db_accounts db) (ho_sparse opts)) ps"
      unfolding buildHeatmap_def sums Let_def prod.case
      by (cases "ho_global opts"; cases "ho_top opts > 0") (simp only: if_True if_False heatmap_data.simps; blast)+
  qed
  let ?body = "\<lparr>hr_windowMin = hd_windowMin ?h, hr_bucketMin = Some (hd_bucketMin ?h), hr_nowUnix = hd_nowUnix ?h,
      hr_global = hd_global ?h, hr_accounts = (if hd_accounts ?h = [] then None else Some (hd_accounts ?h)),
      hr_restCount = (if ho_top opts > 0 then hd_restCount ?h else None)\<rparr>"
  have served: "get_account_heatmap token now query db =
      (case requireAuth token of Some denied \<Rightarrow> (Inl denied, db, []) | None \<Rightarrow> (Inr ?body, db, []))"
    by (simp only: get_account_heatmap_def guarded_def Let_def w_def opts_def heat_options.select_convs)
  have body: "body = ?body" "db' = db"
    using assms(1) unfolding served by (auto split: option.splits)
  have page: "hd_windowMin page = w" "hd_bucketMin page = b"
      "hm_cells (hd_global page) = densify (finishCells g (ho_sparse opts)) n"
      "hd_accounts page = map (\<lambda>row. row\<lparr>hm_cells := densify (hm_cells row) n\<rparr>) (hd_accounts ?h)"
    using b by (simp_all add: page_def shapeHeatmap_def body head Let_def n_def max_def)
  obtain ps where ps: "set ps \<subseteq> set rows" "distinct (map fst ps)"
      "hd_accounts ?h = map (heat_row_out (db_accounts db) (ho_sparse opts)) ps" using accs by blast
  have row: "densify (finishCells (row_cells (snd p)) (ho_sparse opts)) n = log_cells w b now
      (filter (\<lambda>r. rr_accountId r = fst p) (db_requests db)) (filter (\<lambda>e. oe_accountId e = fst p) (db_errors db))"
    if "p \<in> set ps" for p
  proof -
    have "row_cells (snd p) = hits w b now (filter (\<lambda>r. rr_accountId r = fst p) (db_requests db))
        (filter (\<lambda>e. oe_accountId e = fst p) (db_errors db)) (emptyCells n)"
      using spec that ps(1) by (auto simp: rows_of_def heat_events_own hits_events errs n_def)
    then show ?thesis using densify_hits [of b] b by (simp add: n_def)
  qed
  have "hm_cells (hd_global page) = log_cells w b now (db_requests db) (db_errors db)"
    using spec densify_hits [of b] b by (simp add: page errs n_def)
  moreover have "list_all (\<lambda>row. hm_cells row = log_cells w b now
      (filter (\<lambda>r. rr_accountId r = hm_accountId row) (db_requests db))
      (filter (\<lambda>e. oe_accountId e = hm_accountId row) (db_errors db))) (hd_accounts page)"
    using row by (simp add: page(4) ps(3) list_all_iff heat_row_out_def)
  moreover have "map hm_accountId (hd_accounts page) = map fst ps"
    by (simp add: page(4) ps(3) heat_row_out_def)
  ultimately show ?thesis using w b ps(2) body(2) unfolding page(1,2) by presburger
qed

definition sample_request :: request_record where
  "sample_request = \<lparr>rr_id = Some 1, rr_ts = 86410, rr_accountId = ''a1'', rr_apiKeyId = None,
     rr_apiKeyMasked = None, rr_email = None, rr_model = ''m'', rr_inTokens = 1, rr_outTokens = 2,
     rr_totalTokens = 3, rr_cacheReadTokens = 0, rr_cacheWriteTokens = 0, rr_credits = 1 / 2,
     rr_success = False, rr_status = None, rr_message = None, rr_endpoint = None, rr_durationMs = None,
     rr_errorType = None\<rparr>"

theorem heatmap_end_to_end_witness:
  "\<exists>body. fst (get_account_heatmap ''mock-t'' 86460 [] ((seedEmptyDb ''pw'' False 0)\<lparr>db_requests := [sample_request]\<rparr>)) = Inr body \<and>
    hm_cells (hd_global (shapeHeatmap body)) = log_cells 60 1 86460 [sample_request] []"
proof -
  let ?db = "(seedEmptyDb ''pw'' False 0)\<lparr>db_requests := [sample_request]\<rparr>"
  obtain body where b: "get_account_heatmap ''mock-t'' 86460 [] ?db = (Inr body, ?db, [])"
    and w: "hr_windowMin body = 60" "hr_bucketMin body = Some 1"
    by (simp add: get_account_heatmap_def guarded_def requireAuth_def startsWith_def clampParam_def
        DEFAULT_HEATMAP_WINDOW_def buildHeatmap_def heat_bucket_def Let_def split_beta)
  then have "hd_windowMin (shapeHeatmap body) = 60" "hd_bucketMin (shapeHeatmap body) = 1"
    by (simp_all add: shapeHeatmap_def Let_def)
  with heatmap_end_to_end [OF b] b show ?thesis by (auto simp: seedEmptyDb_def)
qed

end
