(* ===== verification/Mock_Overview.thy ===== *)
theory Mock_Overview
  imports Mock_Stats
begin

text \<open>
  The live figures the mock server computes from its log (src/ui/src/lib/mocks/fixtures.ts): the
  overview with its half-hour series, the model mix and the status, and the handlers that serve the
  overview and the status. The loops are folds over the log with the code's accumulators; sets are
  lists without repetition, the map of models an association in insertion order.
\<close>

record observe_series =
  os_rpm :: "rat list"
  os_errRate :: "rat list"
  os_inTpm :: "rat list"
  os_outTpm :: "rat list"
  os_credits :: "rat list"

record observe_overview =
  ovw_startedAt :: int
  ovw_nowUnix :: int
  ovw_rpm1 :: int
  ovw_rpm5Avg :: rat
  ovw_errRate5 :: rat
  ovw_inTpm5 :: rat
  ovw_outTpm5 :: rat
  ovw_credits5 :: rat
  ovw_credits60 :: rat
  ovw_errors60 :: int
  ovw_successes60 :: int
  ovw_retries60 :: int
  ovw_activeAccts :: int
  ovw_totalAccts :: int
  ovw_totalModels :: int
  ovw_enabledAccts :: int
  ovw_availableAccts :: int
  ovw_series :: observe_series

subsection \<open>The overview\<close>

record overview_context =
  oc_errors :: "observe_error list"
  oc_accounts :: "account list option"
  oc_allowOverUsage :: bool

text \<open>The locals of \<open>buildOverview\<close>.\<close>

record overview_sums =
  v_rpm1 :: int
  v_reqs5 :: int
  v_failures5 :: int
  v_successes5 :: int
  v_in5 :: int
  v_out5 :: int
  v_credits5 :: rat
  v_credits60 :: rat
  v_errors60 :: int
  v_successes60 :: int
  v_retries60 :: int
  v_active :: "string list"
  v_ring :: "string list"
  v_models :: "string list"
  v_rpm :: "rat list"
  v_failures :: "rat list"
  v_inTpm :: "rat list"
  v_outTpm :: "rat list"
  v_credits :: "rat list"

definition zeros :: "rat list" where
  "zeros = replicate (nat OVERVIEW_SERIES_MINUTES) 0"

definition overview_zero :: overview_sums where
  "overview_zero = \<lparr>v_rpm1 = 0, v_reqs5 = 0, v_failures5 = 0, v_successes5 = 0, v_in5 = 0, v_out5 = 0,
     v_credits5 = 0, v_credits60 = 0, v_errors60 = 0, v_successes60 = 0, v_retries60 = 0,
     v_active = [], v_ring = [], v_models = [],
     v_rpm = zeros, v_failures = zeros, v_inTpm = zeros, v_outTpm = zeros, v_credits = zeros\<rparr>"

definition add_once :: "string \<Rightarrow> string list \<Rightarrow> string list" where
  "add_once x xs = (if x \<in> set xs then xs else xs @ [x])"

definition bump_at :: "nat \<Rightarrow> rat \<Rightarrow> rat list \<Rightarrow> rat list" where
  "bump_at i d xs = (if i < length xs then xs[i := xs ! i + d] else xs)"

definition ringAccount :: "account list option \<Rightarrow> string \<Rightarrow> bool" where
  "ringAccount accounts k \<longleftrightarrow>
     k \<noteq> [] \<and> (case accounts of None \<Rightarrow> True | Some rows \<Rightarrow> k \<in> acc_id ` set rows)"

definition series_minute :: "request_record \<Rightarrow> int \<Rightarrow> overview_sums \<Rightarrow> overview_sums" where
  "series_minute r offset s =
     (let i = nat (OVERVIEW_SERIES_MINUTES - 1 - offset)
      in s\<lparr>v_rpm := bump_at i 1 (v_rpm s),
           v_failures := (if rr_success r then v_failures s else bump_at i 1 (v_failures s)),
           v_inTpm := bump_at i (of_int (rr_inTokens r)) (v_inTpm s),
           v_outTpm := bump_at i (of_int (rr_outTokens r)) (v_outTpm s),
           v_credits := bump_at i (rr_credits r) (v_credits s)\<rparr>)"

definition last_five :: "account list option \<Rightarrow> request_record \<Rightarrow> int \<Rightarrow> overview_sums \<Rightarrow> overview_sums" where
  "last_five accounts r offset s =
     s\<lparr>v_rpm1 := (if offset = 0 then v_rpm1 s + 1 else v_rpm1 s),
       v_reqs5 := v_reqs5 s + 1,
       v_active := (if ringAccount accounts (rr_accountId r) then add_once (rr_accountId r) (v_active s) else v_active s),
       v_successes5 := (if rr_success r then v_successes5 s + 1 else v_successes5 s),
       v_failures5 := (if rr_success r then v_failures5 s else v_failures5 s + 1),
       v_in5 := v_in5 s + rr_inTokens r,
       v_out5 := v_out5 s + rr_outTokens r,
       v_credits5 := v_credits5 s + rr_credits r\<rparr>"

definition note_model :: "string \<Rightarrow> overview_sums \<Rightarrow> overview_sums" where
  "note_model model s = s\<lparr>v_models := (if model = [] then v_models s else add_once model (v_models s))\<rparr>"

definition note_ring :: "account list option \<Rightarrow> string \<Rightarrow> overview_sums \<Rightarrow> overview_sums" where
  "note_ring accounts k s = s\<lparr>v_ring := (if ringAccount accounts k then add_once k (v_ring s) else v_ring s)\<rparr>"

definition last_hour :: "request_record \<Rightarrow> overview_sums \<Rightarrow> overview_sums" where
  "last_hour r s =
     s\<lparr>v_successes60 := (if rr_success r then v_successes60 s + 1 else v_successes60 s),
       v_errors60 := (if rr_success r then v_errors60 s else v_errors60 s + 1),
       v_credits60 := v_credits60 s + rr_credits r\<rparr>"

definition overview_request :: "account list option \<Rightarrow> int \<Rightarrow> overview_sums \<Rightarrow> request_record \<Rightarrow> overview_sums" where
  "overview_request accounts nowUnix s r =
     (let s = note_model (rr_model r) s;
          offset = minuteOffset (rr_ts r) nowUnix
      in if offset < 0 \<or> offset \<ge> RING_MINUTES then s
         else
           (let s = note_ring accounts (rr_accountId r) s
            in if offset \<ge> 60 then s
               else
                 (let s = last_hour r s;
                      s = (if offset < OVERVIEW_SERIES_MINUTES then series_minute r offset s else s)
                  in if offset \<ge> 5 then s else last_five accounts r offset s)))"

definition overview_error :: "account list option \<Rightarrow> int \<Rightarrow> overview_sums \<Rightarrow> observe_error \<Rightarrow> overview_sums" where
  "overview_error accounts nowUnix s e =
     (let s = note_model (case oe_model e of None \<Rightarrow> [] | Some m \<Rightarrow> m) s;
          offset = minuteOffset (oe_ts e) nowUnix
      in if offset < 0 \<or> offset \<ge> RING_MINUTES then s
         else
           (let s = note_ring accounts (oe_accountId e) s
            in if offset < 60 then s\<lparr>v_retries60 := v_retries60 s + 1\<rparr> else s))"

definition overview_fold ::
  "request_record list \<Rightarrow> int \<Rightarrow> overview_context \<Rightarrow> overview_sums" where
  "overview_fold requests nowUnix ctx =
     foldl (overview_error (oc_accounts ctx) nowUnix)
       (foldl (overview_request (oc_accounts ctx) nowUnix) overview_zero requests) (oc_errors ctx)"

definition overview_out :: "int \<Rightarrow> int \<Rightarrow> overview_context \<Rightarrow> overview_sums \<Rightarrow> observe_overview" where
  "overview_out nowUnix startedAt ctx s =
     (let (enabled, available) = buildAvailability (case oc_accounts ctx of None \<Rightarrow> [] | Some rows \<Rightarrow> rows) (oc_allowOverUsage ctx)
      in \<lparr>ovw_startedAt = startedAt, ovw_nowUnix = nowUnix, ovw_rpm1 = v_rpm1 s,
          ovw_rpm5Avg = of_int (v_reqs5 s) / 5,
          ovw_errRate5 = (if v_failures5 s + v_successes5 s > 0
             then of_int (v_failures5 s) / of_int (v_failures5 s + v_successes5 s) else 0),
          ovw_inTpm5 = of_int (v_in5 s) / 5, ovw_outTpm5 = of_int (v_out5 s) / 5,
          ovw_credits5 = round_to (v_credits5 s) 4, ovw_credits60 = round_to (v_credits60 s) 4,
          ovw_errors60 = v_errors60 s, ovw_successes60 = v_successes60 s, ovw_retries60 = v_retries60 s,
          ovw_activeAccts = int (length (v_active s)), ovw_totalAccts = int (length (v_ring s)),
          ovw_totalModels = int (length (v_models s)),
          ovw_enabledAccts = enabled, ovw_availableAccts = available,
          ovw_series = \<lparr>os_rpm = v_rpm s,
            os_errRate = map_index (\<lambda>reqs i. if reqs > 0 then v_failures s ! i / reqs else 0) (v_rpm s),
            os_inTpm = v_inTpm s, os_outTpm = v_outTpm s,
            os_credits = map (\<lambda>c. round_to c 4) (v_credits s)\<rparr>\<rparr>)"

definition buildOverview ::
  "request_record list \<Rightarrow> int \<Rightarrow> int \<Rightarrow> overview_context \<Rightarrow> observe_overview" where
  "buildOverview requests nowUnix startedAt ctx =
     overview_out nowUnix startedAt ctx (overview_fold requests nowUnix ctx)"

definition get_overview :: "string \<Rightarrow> int \<Rightarrow> mock_db \<Rightarrow> observe_overview reply \<times> mock_db \<times> event list" where
  "get_overview token nowUnix = guarded token (\<lambda>db.
     (Inr (buildOverview (db_requests db) nowUnix (db_startedAt db)
        \<lparr>oc_errors = db_errors db, oc_accounts = Some (db_accounts db),
         oc_allowOverUsage = set_allowOverUsage (db_settings db)\<rparr>), db, []))"

subsection \<open>The model mix\<close>

definition makeModelMixEntry :: "string \<Rightarrow> model_mix_entry" where
  "makeModelMixEntry model =
     \<lparr>mix_model = model, mix_reqs = 0, mix_retries = Some 0, mix_inTokens = 0, mix_outTokens = 0,
      mix_cacheReadTokens = 0, mix_cacheWriteTokens = 0, mix_credits = 0, mix_lastUsed = 0\<rparr>"

text \<open>\<open>entryFor(model)\<close>, then the mutation of the entry it returned.\<close>

fun for_entry :: "string \<Rightarrow> (model_mix_entry \<Rightarrow> model_mix_entry) \<Rightarrow> model_mix_entry list \<Rightarrow> model_mix_entry list" where
  "for_entry model f [] = [f (makeModelMixEntry model)]"
| "for_entry model f (m # rest) = (if mix_model m = model then f m # rest else m # for_entry model f rest)"

definition mix_request :: "request_record \<Rightarrow> model_mix_entry \<Rightarrow> model_mix_entry" where
  "mix_request r m = m\<lparr>mix_reqs := mix_reqs m + 1, mix_lastUsed := max (mix_lastUsed m) (rr_ts r),
     mix_inTokens := mix_inTokens m + rr_inTokens r, mix_outTokens := mix_outTokens m + rr_outTokens r,
     mix_cacheReadTokens := mix_cacheReadTokens m + rr_cacheReadTokens r,
     mix_cacheWriteTokens := mix_cacheWriteTokens m + rr_cacheWriteTokens r,
     mix_credits := mix_credits m + rr_credits r\<rparr>"

definition mix_retry :: "model_mix_entry \<Rightarrow> model_mix_entry" where
  "mix_retry m = m\<lparr>mix_retries := Some ((case mix_retries m of None \<Rightarrow> 0 | Some k \<Rightarrow> k) + 1)\<rparr>"

definition mix_order :: "(string \<Rightarrow> string \<Rightarrow> int) \<Rightarrow> model_mix_entry \<Rightarrow> model_mix_entry \<Rightarrow> int" where
  "mix_order localeCompare a b =
     (if cmp_num (mix_credits b) (mix_credits a) \<noteq> 0 then cmp_num (mix_credits b) (mix_credits a)
      else if cmp_num (mix_reqs b) (mix_reqs a) \<noteq> 0 then cmp_num (mix_reqs b) (mix_reqs a)
      else localeCompare (mix_model a) (mix_model b))"

definition mix_entries :: "request_record list \<Rightarrow> observe_error list \<Rightarrow> model_mix_entry list" where
  "mix_entries requests errors =
     foldl (\<lambda>ms e. case oe_model e of None \<Rightarrow> ms | Some m \<Rightarrow> if m = [] then ms else for_entry m mix_retry ms)
       (foldl (\<lambda>ms r. if rr_model r = [] then ms else for_entry (rr_model r) (mix_request r) ms) [] requests)
       errors"

definition buildModelMix ::
  "(string \<Rightarrow> string \<Rightarrow> int) \<Rightarrow> request_record list \<Rightarrow> observe_error list \<Rightarrow> model_mix_entry list" where
  "buildModelMix localeCompare requests errors =
     sort_cmp (mix_order localeCompare)
       (map (\<lambda>m. m\<lparr>mix_credits := round_to (mix_credits m) 4\<rparr>) (mix_entries requests errors))"

subsection \<open>The status\<close>

record status_response =
  st_status :: string
  st_version :: string
  st_accounts :: int
  st_available :: int
  st_accountCreditsUsed :: rat
  st_accountCreditsLimit :: rat
  st_totalRequests :: int
  st_successRequests :: int
  st_failedRequests :: int
  st_totalTokens :: int
  st_totalCredits :: rat
  st_successTokens :: int
  st_successInTokens :: int
  st_successOutTokens :: int
  st_successCredits :: rat
  st_totalErrorEvents :: int
  st_uptime :: int
  st_totalBanned :: int
  st_todayBanned :: int
  st_totalExhausted :: int

record status_sums =
  u_successRequests :: int
  u_totalTokens :: int
  u_totalCredits :: rat
  u_successTokens :: int
  u_successInTokens :: int
  u_successOutTokens :: int
  u_successCredits :: rat

definition status_step :: "status_sums \<Rightarrow> request_record \<Rightarrow> status_sums" where
  "status_step u r =
     (let u = u\<lparr>u_totalTokens := u_totalTokens u + rr_totalTokens r, u_totalCredits := u_totalCredits u + rr_credits r\<rparr>
      in if \<not> rr_success r then u
         else u\<lparr>u_successRequests := u_successRequests u + 1,
                u_successTokens := u_successTokens u + rr_totalTokens r,
                u_successInTokens := u_successInTokens u + rr_inTokens r,
                u_successOutTokens := u_successOutTokens u + rr_outTokens r,
                u_successCredits := u_successCredits u + rr_credits r\<rparr>)"

definition status_zero :: status_sums where
  "status_zero = \<lparr>u_successRequests = 0, u_totalTokens = 0, u_totalCredits = 0, u_successTokens = 0,
     u_successInTokens = 0, u_successOutTokens = 0, u_successCredits = 0\<rparr>"

definition takes_traffic :: "bool \<Rightarrow> account \<Rightarrow> bool" where
  "takes_traffic allowOverUsage a \<longleftrightarrow> acc_enabled a \<and> acc_hasToken a \<and> \<not> mock_isBanned a \<and>
     (\<not> isExhausted a \<or> toUpperCase (acc_overageStatus a) = ''ENABLED'' \<or> allowOverUsage)"

text \<open>\<open>midnightUnix\<close> is the start of the day in the server's time zone, an argument as the clock is.\<close>

definition buildStatus :: "int \<Rightarrow> int \<Rightarrow> mock_db \<Rightarrow> status_response" where
  "buildStatus now midnightUnix db =
     (let u = foldl status_step status_zero (db_requests db); accounts = db_accounts db
      in \<lparr>st_status = ''ok'', st_version = db_version db, st_accounts = int (length accounts),
          st_available = int (length (filter (takes_traffic (set_allowOverUsage (db_settings db))) accounts)),
          st_accountCreditsUsed = round_to (sum_list (map acc_usageCurrent accounts)) 4,
          st_accountCreditsLimit = sum_list (map acc_usageLimit accounts),
          st_totalRequests = int (length (db_requests db)),
          st_successRequests = u_successRequests u,
          st_failedRequests = int (length (db_requests db)) - u_successRequests u,
          st_totalTokens = u_totalTokens u, st_totalCredits = round_to (u_totalCredits u) 4,
          st_successTokens = u_successTokens u, st_successInTokens = u_successInTokens u,
          st_successOutTokens = u_successOutTokens u, st_successCredits = round_to (u_successCredits u) 4,
          st_totalErrorEvents = int (length (db_errors db)),
          st_uptime = max 0 (now - db_startedAt db),
          st_totalBanned = int (length (filter mock_isBanned accounts)),
          st_todayBanned = int (length (filter (\<lambda>a. mock_isBanned a \<and> acc_banTime a \<ge> midnightUnix) accounts)),
          st_totalExhausted = int (length (filter isExhausted accounts))\<rparr>)"

definition get_status :: "string \<Rightarrow> int \<Rightarrow> int \<Rightarrow> mock_db \<Rightarrow> status_response reply \<times> mock_db \<times> event list" where
  "get_status token now midnightUnix = guarded token (\<lambda>db. (Inr (buildStatus now midnightUnix db), db, []))"

subsection \<open>Lemmas\<close>

text \<open>The log read declaratively: the requests of the last \<open>k\<close> minutes, and a sum per minute of the
  series.\<close>

definition lately :: "int \<Rightarrow> int \<Rightarrow> request_record list \<Rightarrow> request_record list" where
  "lately now k requests = filter (\<lambda>r. 0 \<le> minuteOffset (rr_ts r) now \<and> minuteOffset (rr_ts r) now < k) requests"

definition failed_of :: "request_record list \<Rightarrow> request_record list" where
  "failed_of requests = filter (\<lambda>r. \<not> rr_success r) requests"

definition minute_sum :: "int \<Rightarrow> (request_record \<Rightarrow> rat) \<Rightarrow> request_record list \<Rightarrow> rat list" where
  "minute_sum now f requests = map (\<lambda>j. sum_list (map f
     (filter (\<lambda>r. minuteOffset (rr_ts r) now = 29 - int j) requests))) [0..<30]"

definition once :: "string list \<Rightarrow> string list" where
  "once xs = foldl (\<lambda>ys x. add_once x ys) [] xs"

lemma once_Nil [simp]: "once [] = []"
  by (simp add: once_def)

lemma once_snoc [simp]: "once (xs @ [x]) = add_once x (once xs)"
  by (simp add: once_def)

lemma once_spec: "distinct (once xs) \<and> set (once xs) = set xs"
  by (induction xs rule: rev_induct) (auto simp: add_once_def)

lemma length_once: "length (once xs) = card (set xs)"
  using once_spec [of xs] distinct_card by metis

lemma lately_Nil [simp]: "lately now k [] = []"
  by (simp add: lately_def)

lemma lately_snoc [simp]: "lately now k (rs @ [r]) =
    lately now k rs @ (if 0 \<le> minuteOffset (rr_ts r) now \<and> minuteOffset (rr_ts r) now < k then [r] else [])"
  by (simp add: lately_def)

lemma failed_of_simps [simp]: "failed_of [] = []" "failed_of (xs @ ys) = failed_of xs @ failed_of ys"
  "failed_of [r] = (if rr_success r then [] else [r])"
  by (simp_all add: failed_of_def)

lemma minute_sum_Nil: "minute_sum now f [] = zeros"
  by (rule nth_equalityI) (simp_all add: minute_sum_def zeros_def OVERVIEW_SERIES_MINUTES_def)

lemma length_minute_sum [simp]: "length (minute_sum now f rs) = 30"
  by (simp add: minute_sum_def)

lemma minute_sum_nth: "j < 30 \<Longrightarrow> minute_sum now f rs ! j =
    sum_list (map f (filter (\<lambda>r. minuteOffset (rr_ts r) now = 29 - int j) rs))"
  by (simp add: minute_sum_def)

lemma minute_sum_snoc: "minute_sum now f (rs @ [r]) =
    (if 0 \<le> minuteOffset (rr_ts r) now \<and> minuteOffset (rr_ts r) now < 30
     then bump_at (nat (29 - minuteOffset (rr_ts r) now)) (f r) (minute_sum now f rs) else minute_sum now f rs)"
proof (rule nth_equalityI)
  fix j assume "j < length (minute_sum now f (rs @ [r]))"
  then have j: "j < 30" by simp
  then show "minute_sum now f (rs @ [r]) ! j =
    (if 0 \<le> minuteOffset (rr_ts r) now \<and> minuteOffset (rr_ts r) now < 30
     then bump_at (nat (29 - minuteOffset (rr_ts r) now)) (f r) (minute_sum now f rs) else minute_sum now f rs) ! j"
    by (auto simp: minute_sum_nth bump_at_def nth_list_update)
qed (simp add: bump_at_def)

lemma bump_at_zero [simp]: "bump_at i 0 xs = xs"
  by (simp add: bump_at_def)

definition ring_ids :: "account list option \<Rightarrow> string list \<Rightarrow> string list" where
  "ring_ids accounts ids = once (filter (ringAccount accounts) ids)"

definition one_if_failed :: "request_record \<Rightarrow> rat" where
  "one_if_failed r = (if rr_success r then 0 else 1)"

definition overview_spec :: "account list option \<Rightarrow> int \<Rightarrow> request_record list \<Rightarrow> overview_sums" where
  "overview_spec accounts now rs =
     (let W = (\<lambda>k. lately now k rs)
      in \<lparr>v_rpm1 = int (length (W 1)), v_reqs5 = int (length (W 5)),
          v_failures5 = int (length (failed_of (W 5))),
          v_successes5 = int (length (W 5)) - int (length (failed_of (W 5))),
          v_in5 = sum_list (map rr_inTokens (W 5)), v_out5 = sum_list (map rr_outTokens (W 5)),
          v_credits5 = sum_list (map rr_credits (W 5)), v_credits60 = sum_list (map rr_credits (W 60)),
          v_errors60 = int (length (failed_of (W 60))),
          v_successes60 = int (length (W 60)) - int (length (failed_of (W 60))),
          v_retries60 = 0,
          v_active = ring_ids accounts (map rr_accountId (W 5)),
          v_ring = ring_ids accounts (map rr_accountId (W RING_MINUTES)),
          v_models = once (filter (\<lambda>m. m \<noteq> []) (map rr_model rs)),
          v_rpm = minute_sum now (\<lambda>_. 1) rs,
          v_failures = minute_sum now one_if_failed rs,
          v_inTpm = minute_sum now (\<lambda>r. of_int (rr_inTokens r)) rs,
          v_outTpm = minute_sum now (\<lambda>r. of_int (rr_outTokens r)) rs,
          v_credits = minute_sum now rr_credits rs\<rparr>)"

lemma ring_ids_snoc: "ring_ids accounts (ids @ [k]) =
    (if ringAccount accounts k then add_once k (ring_ids accounts ids) else ring_ids accounts ids)"
  by (simp add: ring_ids_def)

text \<open>One request's step with its early returns resolved, field by field.\<close>

lemma overview_request_flat:
  fixes accounts :: "account list option" and now :: int and s :: overview_sums and r :: request_record
  defines "k \<equiv> minuteOffset (rr_ts r) now"
  shows "overview_request accounts now s r = s\<lparr>
    v_rpm1 := (if k = 0 then v_rpm1 s + 1 else v_rpm1 s),
    v_reqs5 := (if 0 \<le> k \<and> k < 5 then v_reqs5 s + 1 else v_reqs5 s),
    v_failures5 := (if 0 \<le> k \<and> k < 5 then if rr_success r then v_failures5 s else v_failures5 s + 1 else v_failures5 s),
    v_successes5 := (if 0 \<le> k \<and> k < 5 then if rr_success r then v_successes5 s + 1 else v_successes5 s else v_successes5 s),
    v_in5 := (if 0 \<le> k \<and> k < 5 then v_in5 s + rr_inTokens r else v_in5 s),
    v_out5 := (if 0 \<le> k \<and> k < 5 then v_out5 s + rr_outTokens r else v_out5 s),
    v_credits5 := (if 0 \<le> k \<and> k < 5 then v_credits5 s + rr_credits r else v_credits5 s),
    v_credits60 := (if 0 \<le> k \<and> k < 60 then v_credits60 s + rr_credits r else v_credits60 s),
    v_errors60 := (if 0 \<le> k \<and> k < 60 then if rr_success r then v_errors60 s else v_errors60 s + 1 else v_errors60 s),
    v_successes60 := (if 0 \<le> k \<and> k < 60 then if rr_success r then v_successes60 s + 1 else v_successes60 s else v_successes60 s),
    v_active := (if 0 \<le> k \<and> k < 5 then if ringAccount accounts (rr_accountId r)
      then add_once (rr_accountId r) (v_active s) else v_active s else v_active s),
    v_ring := (if 0 \<le> k \<and> k < 1440 then if ringAccount accounts (rr_accountId r)
      then add_once (rr_accountId r) (v_ring s) else v_ring s else v_ring s),
    v_models := (if rr_model r = [] then v_models s else add_once (rr_model r) (v_models s)),
    v_rpm := (if 0 \<le> k \<and> k < 30 then bump_at (nat (29 - k)) 1 (v_rpm s) else v_rpm s),
    v_failures := (if 0 \<le> k \<and> k < 30 then if rr_success r then v_failures s
      else bump_at (nat (29 - k)) 1 (v_failures s) else v_failures s),
    v_inTpm := (if 0 \<le> k \<and> k < 30 then bump_at (nat (29 - k)) (of_int (rr_inTokens r)) (v_inTpm s) else v_inTpm s),
    v_outTpm := (if 0 \<le> k \<and> k < 30 then bump_at (nat (29 - k)) (of_int (rr_outTokens r)) (v_outTpm s) else v_outTpm s),
    v_credits := (if 0 \<le> k \<and> k < 30 then bump_at (nat (29 - k)) (rr_credits r) (v_credits s) else v_credits s)\<rparr>"
proof -
  note defs = overview_request_def k_def [symmetric] Let_def RING_MINUTES_def OVERVIEW_SERIES_MINUTES_def
    note_model_def note_ring_def last_hour_def series_minute_def last_five_def
  consider "k < 0" | "1440 \<le> k" | "60 \<le> k" "k < 1440" | "30 \<le> k" "k < 60" | "5 \<le> k" "k < 30"
    | "0 < k" "k < 5" | "k = 0" by linarith
  then show ?thesis by cases (simp_all add: defs)
qed

lemma overview_requests:
  "foldl (overview_request accounts now) overview_zero rs = overview_spec accounts now rs"
proof (induction rs rule: rev_induct)
  case Nil
  then show ?case by (simp add: overview_zero_def overview_spec_def Let_def minute_sum_Nil ring_ids_def)
next
  case (snoc r rs)
  let ?k = "minuteOffset (rr_ts r) now"
  have step: "foldl (overview_request accounts now) overview_zero (rs @ [r]) =
      overview_request accounts now (overview_spec accounts now rs) r"
    using snoc.IH by simp
  show ?case unfolding step
    by (intro overview_sums.equality)
      (simp_all add: overview_request_flat overview_spec_def Let_def minute_sum_snoc ring_ids_snoc
        one_if_failed_def RING_MINUTES_def)
qed

text \<open>The errors only add retries, accounts of the ring and models.\<close>

definition recent_error :: "int \<Rightarrow> int \<Rightarrow> observe_error \<Rightarrow> bool" where
  "recent_error now k e \<longleftrightarrow> 0 \<le> minuteOffset (oe_ts e) now \<and> minuteOffset (oe_ts e) now < k"

definition error_model :: "observe_error \<Rightarrow> string" where
  "error_model e = (case oe_model e of None \<Rightarrow> [] | Some m \<Rightarrow> m)"

lemma overview_errors:
  "foldl (overview_error accounts now) s es =
     s\<lparr>v_retries60 := v_retries60 s + int (length (filter (recent_error now 60) es)),
       v_ring := foldl (\<lambda>ys x. add_once x ys) (v_ring s)
         (filter (ringAccount accounts) (map oe_accountId (filter (recent_error now RING_MINUTES) es))),
       v_models := foldl (\<lambda>ys x. add_once x ys) (v_models s) (filter (\<lambda>m. m \<noteq> []) (map error_model es))\<rparr>"
proof (induction es rule: rev_induct)
  case Nil
  then show ?case by simp
next
  case (snoc e es)
  then show ?case
    by (auto simp: overview_error_def error_model_def [symmetric] recent_error_def note_model_def note_ring_def
        RING_MINUTES_def Let_def)
qed

lemma once_append: "foldl (\<lambda>ys x. add_once x ys) (once xs) ys = once (xs @ ys)"
  by (simp add: once_def)

lemma one_if_failed_sum: "sum_list (map one_if_failed rs) = of_nat (length (failed_of rs))"
  by (induction rs) (simp_all add: one_if_failed_def failed_of_def)

lemma length_failed_of: "length (failed_of rs) \<le> length rs"
  by (simp add: failed_of_def)

lemma sum_ones: "sum_list (map (\<lambda>_. 1) rs) = (of_nat (length rs) :: rat)"
  by (induction rs) simp_all

lemma served_failures_exact:
  "failuresPerMinute (minute_sum now (\<lambda>_. 1) rs)
     (map_index (\<lambda>reqs i. if reqs > 0 then minute_sum now one_if_failed rs ! i / reqs else 0) (minute_sum now (\<lambda>_. 1) rs)) =
   minute_sum now one_if_failed rs"
proof (rule nth_equalityI)
  fix i assume "i < length (failuresPerMinute (minute_sum now (\<lambda>_. 1) rs)
     (map_index (\<lambda>reqs i. if reqs > 0 then minute_sum now one_if_failed rs ! i / reqs else 0) (minute_sum now (\<lambda>_. 1) rs)))"
  then have i: "i < 30" by (simp add: failuresPerMinute_def map_index_def)
  let ?here = "filter (\<lambda>r. minuteOffset (rr_ts r) now = 29 - int i) rs"
  have n: "minute_sum now (\<lambda>_. 1) rs ! i = of_nat (length ?here)"
      "minute_sum now one_if_failed rs ! i = of_nat (length (failed_of ?here))"
    using i by (simp_all only: minute_sum_nth sum_ones one_if_failed_sum)
  have "js_round (of_nat (length (failed_of ?here))) = int (length (failed_of ?here))"
    using js_round_of_int [of "int (length (failed_of ?here))"] by simp
  with length_failed_of [of ?here] i js_round_of_int [of 0] show "failuresPerMinute (minute_sum now (\<lambda>_. 1) rs)
     (map_index (\<lambda>reqs i. if reqs > 0 then minute_sum now one_if_failed rs ! i / reqs else 0) (minute_sum now (\<lambda>_. 1) rs)) ! i =
    minute_sum now one_if_failed rs ! i"
    by (simp add: failuresPerMinute_def map_index_def rate_at_def n)
qed (simp add: failuresPerMinute_def map_index_def)

subsection \<open>Properties\<close>

text \<open>C35: The overview counts the log, every figure of it: each window is exactly the requests of its minutes, with
  their tokens and credits and split into failed and successful ones; the active accounts, the accounts of
  the ring (the last day, retries included) and the models are the distinct ones of the log; the accounts
  enabled and available are those of the store; each of the 30 values of every series (requests, error rate,
  tokens in and out, credits) is that of its own minute with the current one last; and the failures the page
  recovers from the served rates are exactly the failed requests of each minute.\<close>

theorem overview_counts_the_log:
  fixes requests :: "request_record list" and now started :: int and ctx :: overview_context
  defines "view \<equiv> buildOverview requests now started ctx"
    and "last5 \<equiv> lately now 5 requests" and "last60 \<equiv> lately now 60 requests"
    and "ring \<equiv> rr_accountId ` set (lately now 1440 requests) \<union> oe_accountId ` {e \<in> set (oc_errors ctx). recent_error now 1440 e}"
    and "rows \<equiv> (case oc_accounts ctx of None \<Rightarrow> [] | Some as \<Rightarrow> as)"
  shows "ovw_startedAt view = started \<and> ovw_nowUnix view = now \<and>
    ovw_rpm1 view = int (length (lately now 1 requests)) \<and>
    ovw_rpm5Avg view = of_nat (length last5) / 5 \<and>
    ovw_errRate5 view = (if last5 = [] then 0 else of_nat (length (failed_of last5)) / of_nat (length last5)) \<and>
    ovw_inTpm5 view = of_int (sum_list (map rr_inTokens last5)) / 5 \<and>
    ovw_outTpm5 view = of_int (sum_list (map rr_outTokens last5)) / 5 \<and>
    ovw_credits5 view = round_to (sum_list (map rr_credits last5)) 4 \<and>
    ovw_credits60 view = round_to (sum_list (map rr_credits last60)) 4 \<and>
    ovw_errors60 view = int (length (failed_of last60)) \<and>
    ovw_successes60 view = int (length (filter rr_success last60)) \<and>
    ovw_retries60 view = int (length (filter (recent_error now 60) (oc_errors ctx))) \<and>
    ovw_activeAccts view = int (card {k \<in> rr_accountId ` set last5. ringAccount (oc_accounts ctx) k}) \<and>
    ovw_totalAccts view = int (card {k \<in> ring. ringAccount (oc_accounts ctx) k}) \<and>
    ovw_totalModels view = int (card (rr_model ` set requests \<union> error_model ` set (oc_errors ctx) - {[]})) \<and>
    ovw_enabledAccts view = int (length (filter acc_enabled rows)) \<and>
    ovw_availableAccts view = int (length (filter (\<lambda>a. acc_enabled a \<and> can_serve (oc_allowOverUsage ctx) a) rows)) \<and>
    os_rpm (ovw_series view) = minute_sum now (\<lambda>_. 1) requests \<and>
    os_inTpm (ovw_series view) = minute_sum now (\<lambda>r. of_int (rr_inTokens r)) requests \<and>
    os_outTpm (ovw_series view) = minute_sum now (\<lambda>r. of_int (rr_outTokens r)) requests \<and>
    os_credits (ovw_series view) = map (\<lambda>c. round_to c 4) (minute_sum now rr_credits requests) \<and>
    os_errRate (ovw_series view) = map_index (\<lambda>reqs i. if reqs > 0
      then minute_sum now one_if_failed requests ! i / reqs else 0) (minute_sum now (\<lambda>_. 1) requests) \<and>
    failuresPerMinute (os_rpm (ovw_series view)) (os_errRate (ovw_series view)) =
      minute_sum now one_if_failed requests"
proof -
  let ?acc = "oc_accounts ctx"
  define s where "s = overview_fold requests now ctx"
  have fold: "s = (overview_spec ?acc now requests)\<lparr>
      v_retries60 := int (length (filter (recent_error now 60) (oc_errors ctx))),
      v_ring := once (filter (ringAccount ?acc) (map rr_accountId (lately now RING_MINUTES requests)) @
        filter (ringAccount ?acc) (map oe_accountId (filter (recent_error now RING_MINUTES) (oc_errors ctx)))), v_models := once (filter (\<lambda>m. m \<noteq> []) (map rr_model requests) @
        filter (\<lambda>m. m \<noteq> []) (map error_model (oc_errors ctx)))\<rparr>"
    unfolding s_def overview_fold_def overview_requests overview_errors once_append [symmetric]
    by (simp add: overview_spec_def ring_ids_def Let_def)
  have out: "view = overview_out now started ctx s" by (simp add: view_def buildOverview_def s_def)
  have succ: "int (length rs) - int (length (failed_of rs)) = int (length (filter rr_success rs))" for rs
    by (induction rs) (simp_all add: failed_of_def)
  have fields: "v_rpm1 s = int (length (lately now 1 requests))" "v_reqs5 s = int (length last5)"
      "v_failures5 s = int (length (failed_of last5))" "v_successes5 s = int (length (filter rr_success last5))"
      "v_errors60 s = int (length (failed_of last60))" "v_successes60 s = int (length (filter rr_success last60))"
      "v_retries60 s = int (length (filter (recent_error now 60) (oc_errors ctx)))"
      "v_active s = ring_ids ?acc (map rr_accountId last5)"
      "v_rpm s = minute_sum now (\<lambda>_. 1) requests" "v_failures s = minute_sum now one_if_failed requests"
      "v_inTpm s = minute_sum now (\<lambda>r. of_int (rr_inTokens r)) requests"
      "v_outTpm s = minute_sum now (\<lambda>r. of_int (rr_outTokens r)) requests"
      "v_credits s = minute_sum now rr_credits requests"
      "v_in5 s = sum_list (map rr_inTokens last5)" "v_out5 s = sum_list (map rr_outTokens last5)"
      "v_credits5 s = sum_list (map rr_credits last5)" "v_credits60 s = sum_list (map rr_credits last60)"
    by (subst fold, simp add: overview_spec_def Let_def last5_def last60_def succ)+
  have models: "v_models s = once (filter (\<lambda>m. m \<noteq> []) (map rr_model requests) @
        filter (\<lambda>m. m \<noteq> []) (map error_model (oc_errors ctx)))" by (subst fold) simp
  have "v_ring s = once (filter (ringAccount ?acc) (map rr_accountId (lately now RING_MINUTES requests)) @
        filter (ringAccount ?acc) (map oe_accountId (filter (recent_error now RING_MINUTES) (oc_errors ctx))))" by (subst fold) simp
  then have "length (v_ring s) = card (set (filter (ringAccount ?acc) (map rr_accountId (lately now RING_MINUTES requests)) @
        filter (ringAccount ?acc) (map oe_accountId (filter (recent_error now RING_MINUTES) (oc_errors ctx)))))"
    by (simp only: length_once)
  also have "\<dots> = card {k \<in> ring. ringAccount ?acc k}"
    unfolding ring_def RING_MINUTES_def by (rule arg_cong [of _ _ card]) auto
  finally have ring: "length (v_ring s) = card {k \<in> ring. ringAccount ?acc k}" .
  have sum5: "v_failures5 s + v_successes5 s = int (length last5)"
    unfolding fields succ [symmetric] by simp
  have act: "length (v_active s) = card {k \<in> rr_accountId ` set last5. ringAccount ?acc k}"
    unfolding fields ring_ids_def length_once by (rule arg_cong [of _ _ card]) auto
  have mods: "length (v_models s) = card (rr_model ` set requests \<union> error_model ` set (oc_errors ctx) - {[]})"
    unfolding models length_once by (rule arg_cong [of _ _ card]) auto
  have rate: "(if v_failures5 s + v_successes5 s > 0
      then rat_of_int (v_failures5 s) / of_int (v_failures5 s + v_successes5 s) else 0) =
      (if last5 = [] then 0 else of_nat (length (failed_of last5)) / of_nat (length last5))"
    unfolding sum5 by (simp add: fields)
  note outs = overview_out_def Let_def split_beta
  have "ovw_errRate5 view = (if last5 = [] then 0 else of_nat (length (failed_of last5)) / of_nat (length last5))"
    unfolding out rate [symmetric] by (simp add: outs)
  moreover have "ovw_rpm1 view = int (length (lately now 1 requests))" "ovw_rpm5Avg view = of_nat (length last5) / 5"
    "ovw_errors60 view = int (length (failed_of last60))"
    "ovw_successes60 view = int (length (filter rr_success last60))"
    "ovw_retries60 view = int (length (filter (recent_error now 60) (oc_errors ctx)))"
    "ovw_activeAccts view = int (card {k \<in> rr_accountId ` set last5. ringAccount ?acc k})"
    "ovw_totalModels view = int (card (rr_model ` set requests \<union> error_model ` set (oc_errors ctx) - {[]}))"
    unfolding out act [symmetric] mods [symmetric] by (simp_all add: outs fields)
  moreover have "ovw_startedAt view = started" "ovw_nowUnix view = now"
    "ovw_inTpm5 view = of_int (sum_list (map rr_inTokens last5)) / 5"
    "ovw_outTpm5 view = of_int (sum_list (map rr_outTokens last5)) / 5"
    "ovw_credits5 view = round_to (sum_list (map rr_credits last5)) 4"
    "ovw_credits60 view = round_to (sum_list (map rr_credits last60)) 4"
    "ovw_totalAccts view = int (card {k \<in> ring. ringAccount ?acc k})"
    "ovw_enabledAccts view = int (length (filter acc_enabled rows))"
    "ovw_availableAccts view = int (length (filter (\<lambda>a. acc_enabled a \<and> can_serve (oc_allowOverUsage ctx) a) rows))"
    "os_credits (ovw_series view) = map (\<lambda>c. round_to c 4) (minute_sum now rr_credits requests)"
    unfolding out ring [symmetric] by (simp_all add: outs fields rows_def buildAvailability_counts)
  moreover have series: "os_rpm (ovw_series view) = minute_sum now (\<lambda>_. 1) requests"
    "os_inTpm (ovw_series view) = minute_sum now (\<lambda>r. of_int (rr_inTokens r)) requests"
    "os_outTpm (ovw_series view) = minute_sum now (\<lambda>r. of_int (rr_outTokens r)) requests"
    "os_errRate (ovw_series view) = map_index (\<lambda>reqs i. if reqs > 0
       then minute_sum now one_if_failed requests ! i / reqs else 0) (minute_sum now (\<lambda>_. 1) requests)"
    unfolding out fields [symmetric] by (simp_all add: outs)
  moreover note served_failures_exact [of now requests, folded series]
  ultimately show ?thesis unfolding series by blast
qed

subsection \<open>The model mix, by model\<close>

type_synonym mix_event = "string \<times> (model_mix_entry \<Rightarrow> model_mix_entry)"

definition mix_events :: "request_record list \<Rightarrow> observe_error list \<Rightarrow> mix_event list" where
  "mix_events requests errors =
     filter (\<lambda>ev. fst ev \<noteq> []) (map (\<lambda>r. (rr_model r, mix_request r)) requests @ map (\<lambda>e. (error_model e, mix_retry)) errors)"

definition keeps_model :: "(model_mix_entry \<Rightarrow> model_mix_entry) \<Rightarrow> bool" where
  "keeps_model f \<longleftrightarrow> (\<forall>m. mix_model (f m) = mix_model m)"

lemma keeps_model_steps [simp]: "keeps_model (mix_request r)" "keeps_model mix_retry"
  by (simp_all add: keeps_model_def mix_request_def mix_retry_def)

lemma mix_entries_events: "mix_entries requests errors = foldl (\<lambda>ms ev. for_entry (fst ev) (snd ev) ms) [] (mix_events requests errors)"
proof -
  have reqs: "foldl (\<lambda>ms r. if rr_model r = [] then ms else for_entry (rr_model r) (mix_request r) ms) ms requests =
      foldl (\<lambda>ms ev. for_entry (fst ev) (snd ev) ms) ms
        (filter (\<lambda>ev. fst ev \<noteq> []) (map (\<lambda>r. (rr_model r, mix_request r)) requests))" for ms
    by (induction requests arbitrary: ms) auto
  have errs: "foldl (\<lambda>ms e. case oe_model e of None \<Rightarrow> ms | Some m \<Rightarrow> if m = [] then ms else for_entry m mix_retry ms) ms errors =
      foldl (\<lambda>ms ev. for_entry (fst ev) (snd ev) ms) ms
        (filter (\<lambda>ev. fst ev \<noteq> []) (map (\<lambda>e. (error_model e, mix_retry)) errors))" for ms
    by (induction errors arbitrary: ms) (auto simp: error_model_def split: option.split)
  show ?thesis unfolding mix_entries_def mix_events_def by (simp add: reqs errs)
qed

text \<open>The entries after some events: one per model seen, each the result of its own events.\<close>

definition entries_of :: "mix_event list \<Rightarrow> model_mix_entry list \<Rightarrow> bool" where
  "entries_of evs ms \<longleftrightarrow> distinct (map mix_model ms) \<and> mix_model ` set ms = fst ` set evs \<and>
     (\<forall>m\<in>set ms. m = foldl (\<lambda>m ev. snd ev m) (makeModelMixEntry (mix_model m)) (filter (\<lambda>ev. fst ev = mix_model m) evs))"

lemma for_entry_other: "k \<notin> mix_model ` set ms \<Longrightarrow> for_entry k f ms = ms @ [f (makeModelMixEntry k)]"
  by (induction ms) auto

lemma for_entry_known:
  "distinct (map mix_model ms) \<Longrightarrow> k \<in> mix_model ` set ms \<Longrightarrow>
    for_entry k f ms = map (\<lambda>m. if mix_model m = k then f m else m) ms"
proof (induction ms)
  case (Cons m ms)
  show ?case
  proof (cases "mix_model m = k")
    case True
    then have "map (\<lambda>m. if mix_model m = k then f m else m) ms = ms"
      using Cons.prems(1) by (intro map_idI) (auto simp: image_iff)
    with True show ?thesis by simp
  next
    case False
    with Cons show ?thesis by auto
  qed
qed simp

lemma for_entry_entries:
  assumes "entries_of evs ms" "keeps_model f"
  shows "entries_of (evs @ [(k, f)]) (for_entry k f ms)"
proof (cases "k \<in> mix_model ` set ms")
  case True
  have d: "distinct (map mix_model ms)" using assms(1) by (simp add: entries_of_def)
  have keep: "mix_model (if mix_model m = k then f m else m) = mix_model m" for m
    using assms(2) by (simp add: keeps_model_def)
  have eq: "for_entry k f ms = map (\<lambda>m. if mix_model m = k then f m else m) ms" by (rule for_entry_known [OF d True])
  have keys: "map mix_model (for_entry k f ms) = map mix_model ms" unfolding eq by (simp add: keep)
  have "mix_model ` set (for_entry k f ms) = mix_model ` set ms" using keys by (metis set_map)
  then have "mix_model ` set (for_entry k f ms) = fst ` set (evs @ [(k, f)])"
    using assms(1) True by (simp add: entries_of_def insert_absorb)
  moreover have "m = foldl (\<lambda>m ev. snd ev m) (makeModelMixEntry (mix_model m))
      (filter (\<lambda>ev. fst ev = mix_model m) (evs @ [(k, f)]))" if "m \<in> set (for_entry k f ms)" for m
  proof -
    from that obtain x where x: "x \<in> set ms" "m = (if mix_model x = k then f x else x)" unfolding eq by auto
    have "x = foldl (\<lambda>m ev. snd ev m) (makeModelMixEntry (mix_model x)) (filter (\<lambda>ev. fst ev = mix_model x) evs)"
      using assms(1) x(1) unfolding entries_of_def by blast
    moreover have "mix_model m = mix_model x" unfolding x(2) by (rule keep)
    ultimately show ?thesis using x(2) by (cases "mix_model x = k") auto
  qed
  ultimately show ?thesis using d unfolding entries_of_def keys by blast
next
  case False
  have none: "filter (\<lambda>ev. fst ev = k) evs = []"
    using assms(1) False by (force simp: entries_of_def filter_empty_conv)
  have model: "mix_model (f (makeModelMixEntry k)) = k"
    using assms(2) by (simp add: keeps_model_def makeModelMixEntry_def)
  have other: "\<And>m. m \<in> set ms \<Longrightarrow> mix_model m \<noteq> k" using False by auto
  show ?thesis
    using assms(1) False none model other unfolding entries_of_def for_entry_other [OF False]
    by auto
qed

lemma mix_entries_of: "entries_of (mix_events requests errors) (mix_entries requests errors)"
proof -
  have built: "entries_of evs (foldl (\<lambda>ms ev. for_entry (fst ev) (snd ev) ms) [] evs)"
    if "list_all (\<lambda>ev. keeps_model (snd ev)) evs" for evs
    using that
  proof (induction evs rule: rev_induct)
    case Nil
    then show ?case by (simp add: entries_of_def)
  next
    case (snoc ev evs)
    then show ?case using for_entry_entries [of evs _ "snd ev" "fst ev"] by simp
  qed
  have "list_all (\<lambda>ev. keeps_model (snd ev)) (mix_events requests errors)"
    by (auto simp: mix_events_def list_all_iff)
  from built [OF this] show ?thesis unfolding mix_entries_events .
qed

definition mix_spec :: "request_record list \<Rightarrow> observe_error list \<Rightarrow> string \<Rightarrow> model_mix_entry" where
  "mix_spec requests errors model =
     (let rs = filter (\<lambda>r. rr_model r = model) requests
      in \<lparr>mix_model = model, mix_reqs = int (length rs),
          mix_retries = Some (int (length (filter (\<lambda>e. oe_model e = Some model) errors))),
          mix_inTokens = sum_list (map rr_inTokens rs), mix_outTokens = sum_list (map rr_outTokens rs),
          mix_cacheReadTokens = sum_list (map rr_cacheReadTokens rs),
          mix_cacheWriteTokens = sum_list (map rr_cacheWriteTokens rs),
          mix_credits = sum_list (map rr_credits rs), mix_lastUsed = foldl (\<lambda>t r. max t (rr_ts r)) 0 rs\<rparr>)"

lemma mix_requests_fold:
  "foldl (\<lambda>m r. mix_request r m) (makeModelMixEntry model) rs =
    \<lparr>mix_model = model, mix_reqs = int (length rs), mix_retries = Some 0,
     mix_inTokens = sum_list (map rr_inTokens rs), mix_outTokens = sum_list (map rr_outTokens rs),
     mix_cacheReadTokens = sum_list (map rr_cacheReadTokens rs),
     mix_cacheWriteTokens = sum_list (map rr_cacheWriteTokens rs),
     mix_credits = sum_list (map rr_credits rs), mix_lastUsed = foldl (\<lambda>t r. max t (rr_ts r)) 0 rs\<rparr>"
  by (induction rs rule: rev_induct) (simp_all add: makeModelMixEntry_def mix_request_def)

lemma mix_retries_fold:
  "mix_retries m = Some k \<Longrightarrow> foldl (\<lambda>m e. mix_retry m) m es = m\<lparr>mix_retries := Some (k + int (length es))\<rparr>"
  by (induction es rule: rev_induct) (simp_all add: mix_retry_def)

lemma mix_events_fold:
  assumes "model \<noteq> []"
  shows "foldl (\<lambda>m ev. snd ev m) (makeModelMixEntry model) (filter (\<lambda>ev. fst ev = model) (mix_events requests errors)) =
    mix_spec requests errors model"
proof -
  have own: "filter (\<lambda>ev. fst ev = model) (mix_events requests errors) =
      map (\<lambda>r. (rr_model r, mix_request r)) (filter (\<lambda>r. rr_model r = model) requests) @
      map (\<lambda>e. (error_model e, mix_retry)) (filter (\<lambda>e. oe_model e = Some model) errors)"
  proof -
    have "filter (\<lambda>e. error_model e = model) errors = filter (\<lambda>e. oe_model e = Some model) errors"
      using assms by (intro filter_cong) (auto simp: error_model_def split: option.split)
    moreover have "(\<lambda>ev. fst ev = model \<and> fst ev \<noteq> []) = (\<lambda>ev. fst ev = model)" for ev :: mix_event
      using assms by auto
    ultimately show ?thesis
      unfolding mix_events_def filter_filter filter_append filter_map using assms
      by (simp add: comp_def conj_commute cong: conj_cong)
  qed
  show ?thesis
    unfolding own foldl_append foldl_map snd_conv mix_requests_fold
    by (subst mix_retries_fold [of _ 0]) (simp_all add: mix_spec_def Let_def)
qed

lemma mix_entries_exact:
  "mix_entries requests errors = map (mix_spec requests errors) (map mix_model (mix_entries requests errors)) \<and>
   mix_model ` set (mix_entries requests errors) = rr_model ` set requests \<union> error_model ` set errors - {[]}"
proof -
  let ?ms = "mix_entries requests errors"
  note of = mix_entries_of [of requests errors, unfolded entries_of_def]
  have keys: "fst ` set (mix_events requests errors) = rr_model ` set requests \<union> error_model ` set errors - {[]}"
  proof -
    have "fst ` {ev \<in> A. fst ev \<noteq> []} = fst ` A - {[]}" for A :: "mix_event set" by auto
    then show ?thesis by (simp only: mix_events_def set_filter set_append set_map image_Un image_image fst_conv)
  qed
  have own: "mix_spec requests errors (mix_model m) = m" if "m \<in> set ?ms" for m
  proof -
    have "mix_model m \<in> mix_model ` set ?ms" using that by blast
    then have "mix_model m \<noteq> []" using of keys by auto
    moreover have "m = foldl (\<lambda>m ev. snd ev m) (makeModelMixEntry (mix_model m))
        (filter (\<lambda>ev. fst ev = mix_model m) (mix_events requests errors))" using of that by blast
    ultimately show ?thesis using mix_events_fold [of "mix_model m" requests errors] by argo
  qed
  have "map (\<lambda>m. mix_spec requests errors (mix_model m)) ?ms = ?ms" by (rule map_idI) (rule own)
  then have "?ms = map (mix_spec requests errors) (map mix_model ?ms)" by (simp only: map_map comp_def)
  moreover have "mix_model ` set ?ms = fst ` set (mix_events requests errors)" using of by blast
  ultimately show ?thesis unfolding keys by (rule conjI)
qed

lemma comparator_num_desc: "comparator (\<lambda>a b. cmp_num (f b) (f a)) P"
  by unfold_locales auto

lemma mix_order_comparator: "comparator localeCompare (\<lambda>_. True) \<Longrightarrow> comparator (mix_order localeCompare) (\<lambda>_. True)"
  unfolding mix_order_def by (rule comparator_lex [OF comparator_num_desc
      comparator_lex [OF comparator_num_desc comparator_map]]) simp_all

subsection \<open>More properties\<close>

text \<open>The model mix is the log by model: one entry for every model a request or an error names, no
  other, each holding exactly the requests, retries, tokens, credits (rounded to four places) and last
  use of its model, and the entries are in descending order of credits.\<close>

theorem model_mix_exact:
  fixes requests :: "request_record list" and errors :: "observe_error list"
  assumes "comparator localeCompare (\<lambda>_. True)"
  defines "mix \<equiv> buildModelMix localeCompare requests errors"
  shows "distinct (map mix_model mix) \<and>
    mix_model ` set mix = rr_model ` set requests \<union> error_model ` set errors - {[]} \<and>
    mix = map (\<lambda>model. (mix_spec requests errors model)\<lparr>mix_credits :=
        round_to (mix_credits (mix_spec requests errors model)) 4\<rparr>) (map mix_model mix) \<and>
    sorted_wrt (\<lambda>a b. mix_credits b \<le> mix_credits a) mix"
proof -
  let ?round = "\<lambda>m :: model_mix_entry. m\<lparr>mix_credits := round_to (mix_credits m) 4\<rparr>"
  let ?rows = "map ?round (mix_entries requests errors)"
  have keys: "map mix_model ?rows = map mix_model (mix_entries requests errors)" by simp
  have mix: "mset mix = mset ?rows" by (simp add: mix_def buildModelMix_def)
  have "distinct (map mix_model mix)" using mix_entries_of [of requests errors] keys
    unfolding mix_def buildModelMix_def distinct_map_sort_cmp entries_of_def by (simp add: comp_def)
  moreover have "mix_model ` set mix = rr_model ` set requests \<union> error_model ` set errors - {[]}"
    using mix_entries_exact [of requests errors] mset_eq_setD [OF mix] by (simp add: image_image)
  moreover have own: "?round (mix_spec requests errors (mix_model m)) = m" if "m \<in> set mix" for m
  proof -
    from that have "m \<in> set ?rows" using mset_eq_setD [OF mix] by simp
    then obtain x where x: "x \<in> set (mix_entries requests errors)" "m = ?round x" by auto
    have "set (mix_entries requests errors) = mix_spec requests errors ` mix_model ` set (mix_entries requests errors)"
      using mix_entries_exact [of requests errors] by (metis list.set_map)
    with x(1) obtain k where "x = mix_spec requests errors k" by blast
    then show ?thesis using x(2) by (simp add: mix_spec_def Let_def)
  qed
  have "map (\<lambda>m. ?round (mix_spec requests errors (mix_model m))) mix = mix" by (rule map_idI) (rule own)
  then have "mix = map (\<lambda>model. ?round (mix_spec requests errors model)) (map mix_model mix)"
    by (simp add: comp_def)
  moreover have "sorted_wrt (\<lambda>a b. mix_order localeCompare a b \<le> 0) mix"
    unfolding mix_def buildModelMix_def
    by (rule comparator.sorted_sort_cmp [OF mix_order_comparator [OF assms(1)]]) (simp add: list_all_iff)
  then have "sorted_wrt (\<lambda>a b. mix_credits b \<le> mix_credits a) mix"
    by (rule sorted_wrt_mono_rel [rotated]) (auto simp: mix_order_def cmp_num_def split: if_splits)
  ultimately show ?thesis by blast
qed

theorem model_mix_exact_witness:
  "map mix_model (buildModelMix textCompare [sample_request, sample_request\<lparr>rr_model := ''k'', rr_credits := 2\<rparr>] []) = [''k'', ''m''] \<and>
   distinct (map mix_model (buildModelMix textCompare [sample_request, sample_request\<lparr>rr_model := ''k'', rr_credits := 2\<rparr>] []))"
proof
  show "distinct (map mix_model (buildModelMix textCompare [sample_request, sample_request\<lparr>rr_model := ''k'', rr_credits := 2\<rparr>] []))"
    using model_mix_exact [OF text_order.comparator_axioms] by blast
  have "round_to (1 / 2) 4 = 1 / 2" "round_to 2 4 = 2"
    using js_round_of_int [of 5000] js_round_of_int [of 20000] by (simp_all add: round_to_def)
  then show "map mix_model (buildModelMix textCompare [sample_request, sample_request\<lparr>rr_model := ''k'', rr_credits := 2\<rparr>] []) = [''k'', ''m'']"
    by (simp add: buildModelMix_def mix_entries_def sample_request_def mix_request_def makeModelMixEntry_def
        mix_order_def cmp_num_def)
qed

text \<open>The status agrees with itself and with the log: its counts split the log into successful and
  failed requests, every sum of the successful ones is that of exactly those rows, the accounts that
  can take traffic are enabled and signed in, and those banned today are among the banned.\<close>

theorem status_counts_the_log:
  fixes now midnight :: int and db :: mock_db
  defines "st \<equiv> buildStatus now midnight db"
    and "good \<equiv> filter rr_success (db_requests db)"
  shows "st_successRequests st = int (length good) \<and>
    st_successRequests st + st_failedRequests st = st_totalRequests st \<and>
    st_failedRequests st = int (length (failed_of (db_requests db))) \<and>
    st_totalTokens st = sum_list (map rr_totalTokens (db_requests db)) \<and>
    st_successTokens st = sum_list (map rr_totalTokens good) \<and>
    st_successInTokens st = sum_list (map rr_inTokens good) \<and>
    st_successOutTokens st = sum_list (map rr_outTokens good) \<and>
    st_successCredits st = round_to (sum_list (map rr_credits good)) 4 \<and>
    st_available st \<le> int (length (filter (\<lambda>a. acc_enabled a \<and> acc_hasToken a) (db_accounts db))) \<and>
    st_todayBanned st \<le> st_totalBanned st \<and> st_totalBanned st \<le> st_accounts st \<and> 0 \<le> st_uptime st"
proof -
  have fold: "foldl status_step status_zero rs =
     \<lparr>u_successRequests = int (length (filter rr_success rs)), u_totalTokens = sum_list (map rr_totalTokens rs),
      u_totalCredits = sum_list (map rr_credits rs),
      u_successTokens = sum_list (map rr_totalTokens (filter rr_success rs)),
      u_successInTokens = sum_list (map rr_inTokens (filter rr_success rs)),
      u_successOutTokens = sum_list (map rr_outTokens (filter rr_success rs)),
      u_successCredits = sum_list (map rr_credits (filter rr_success rs))\<rparr>" for rs
    by (induction rs rule: rev_induct) (simp_all add: status_zero_def status_step_def Let_def)
  have fewer: "length (filter P xs) \<le> length (filter Q xs)" if "\<And>x. P x \<Longrightarrow> Q x" for P Q :: "account \<Rightarrow> bool" and xs
    using that by (induction xs) auto
  have split: "int (length rs) = int (length (filter rr_success rs)) + int (length (failed_of rs))" for rs
    by (induction rs) (simp_all add: failed_of_def)
  have "length (filter (takes_traffic (set_allowOverUsage (db_settings db))) (db_accounts db)) \<le>
      length (filter (\<lambda>a. acc_enabled a \<and> acc_hasToken a) (db_accounts db))"
    by (rule fewer) (simp add: takes_traffic_def)
  moreover have "length (filter (\<lambda>a. mock_isBanned a \<and> acc_banTime a \<ge> midnight) (db_accounts db)) \<le>
      length (filter mock_isBanned (db_accounts db))"
    by (rule fewer) simp
  ultimately show ?thesis
    unfolding st_def buildStatus_def Let_def fold good_def by (simp add: split [of "db_requests db"])
qed

end
