(* ===== verification/Prompt_Filter.thy ===== *)
theory Prompt_Filter
  imports Settings_Server Dirty_Draft Go_Regex
begin

text \<open>
  The prompt-filter card's logic (src/ui/src/features/settings/lib/prompt-filter.ts): a new rule's id,
  the hint about its pattern, the equality that ignores a missing replacement, and the body that is sent.
\<close>

datatype rule_kind = RegexRule | LinesContaining

definition kind_text :: "rule_kind \<Rightarrow> string" where
  "kind_text k = (case k of RegexRule \<Rightarrow> ''regex'' | LinesContaining \<Rightarrow> ''lines-containing'')"

definition isRegexRule :: "prompt_filter_rule \<Rightarrow> bool" where
  "isRegexRule r \<longleftrightarrow> pf_type r = ''regex''"

text \<open>The hint of a rule's pattern; it never blocks saving.\<close>

definition regexFails :: "(string \<Rightarrow> bool) \<Rightarrow> string \<Rightarrow> bool" where
  "regexFails script pattern \<longleftrightarrow> \<not> compilesInGo script pattern"

definition stamp_id :: "nat \<Rightarrow> string" where
  "stamp_id n = ''rule-'' @ string_of_nat n"

text \<open>The loop \<open>while (existing.some(...)) stamp += 1\<close>.\<close>

function bump :: "prompt_filter_rule list \<Rightarrow> nat \<Rightarrow> nat" where
  "bump existing n = (if list_ex (\<lambda>r. pf_id r = stamp_id n) existing then bump existing (n + 1) else n)"
  by pat_completeness auto

lemma stamp_id_inject [simp]: "stamp_id m = stamp_id n \<longleftrightarrow> m = n"
  by (simp add: stamp_id_def)

text \<open>Each round leaves a rule behind: the number of rules whose stamp is still ahead falls.\<close>

definition ahead :: "prompt_filter_rule list \<Rightarrow> nat \<Rightarrow> nat" where
  "ahead existing n = length (filter (\<lambda>r. \<exists>m\<ge>n. pf_id r = stamp_id m) existing)"

lemma ahead_decreases:
  assumes "list_ex (\<lambda>r. pf_id r = stamp_id n) existing"
  shows "ahead existing (n + 1) < ahead existing n"
proof -
  obtain r where r: "r \<in> set existing" "pf_id r = stamp_id n" using assms by (auto simp: list_ex_iff)
  have "filter (\<lambda>r. \<exists>m\<ge>n + 1. pf_id r = stamp_id m) existing =
      filter (\<lambda>r. \<exists>m\<ge>n + 1. pf_id r = stamp_id m) (filter (\<lambda>r. \<exists>m\<ge>n. pf_id r = stamp_id m) existing)"
    by (auto intro: filter_cong dest: Suc_leD)
  also have "length \<dots> < length (filter (\<lambda>r. \<exists>m\<ge>n. pf_id r = stamp_id m) existing)"
    by (rule length_filter_less [of r]) (use r in auto)
  finally show ?thesis by (simp add: ahead_def)
qed

termination bump
  by (relation "measure (\<lambda>(existing, n). ahead existing n)") (use ahead_decreases in auto)

declare bump.simps [simp del]

definition newRule :: "rule_kind \<Rightarrow> prompt_filter_rule list \<Rightarrow> nat \<Rightarrow> prompt_filter_rule" where
  "newRule k existing now =
     \<lparr>pf_id = stamp_id (bump existing now), pf_name = [], pf_type = kind_text k, pf_match = [],
      pf_replace = Some [], pf_enabled = True\<rparr>"

definition normalized :: "prompt_filter_config \<Rightarrow> prompt_filter_config" where
  "normalized c = c\<lparr>pfc_rules :=
     map (\<lambda>r. r\<lparr>pf_replace := Some (case pf_replace r of None \<Rightarrow> [] | Some s \<Rightarrow> s)\<rparr>) (pfc_rules c)\<rparr>"

text \<open>The JSON value of a rule and of a configuration, as the objects the code compares and sends.\<close>

definition rule_json :: "prompt_filter_rule \<Rightarrow> json" where
  "rule_json r = JObj [(''id'', JStr (pf_id r)), (''name'', JStr (pf_name r)), (''type'', JStr (pf_type r)),
     (''match'', JStr (pf_match r)),
     (''replace'', case pf_replace r of None \<Rightarrow> JUndef | Some s \<Rightarrow> JStr s),
     (''enabled'', JBool (pf_enabled r))]"

definition config_fields :: "prompt_filter_config \<Rightarrow> (string \<times> json) list" where
  "config_fields c = [(''filterClaudeCode'', JBool (pfc_filterClaudeCode c)),
     (''filterEnvNoise'', JBool (pfc_filterEnvNoise c)),
     (''filterStripBoundaries'', JBool (pfc_filterStripBoundaries c)),
     (''rules'', JArr (map rule_json (pfc_rules c)))]"

definition samePromptFilter :: "prompt_filter_config \<Rightarrow> prompt_filter_config \<Rightarrow> bool" where
  "samePromptFilter a b \<longleftrightarrow> isEqual (JObj (config_fields (normalized a))) (JObj (config_fields (normalized b)))"

definition promptFilterBody :: "prompt_filter_config \<Rightarrow> (string \<times> json) list" where
  "promptFilterBody c = config_fields c"

subsection \<open>Lemmas\<close>

lemma bump_fresh: "\<not> list_ex (\<lambda>r. pf_id r = stamp_id (bump existing n)) existing"
  by (induction existing n rule: bump.induct) (subst bump.simps, simp)

lemma bump_least: "n \<le> bump existing n \<and>
    (\<forall>m. n \<le> m \<and> m < bump existing n \<longrightarrow> list_ex (\<lambda>r. pf_id r = stamp_id m) existing)"
proof (induction existing n rule: bump.induct)
  case (1 existing n)
  show ?case
  proof (cases "list_ex (\<lambda>r. pf_id r = stamp_id n) existing")
    case True
    then have b: "bump existing n = bump existing (n + 1)" by (subst bump.simps) simp
    show ?thesis unfolding b using 1 [OF True] True by (metis Suc_eq_plus1 Suc_leD Suc_leI le_neq_implies_less)
  next
    case False
    then have "bump existing n = n" by (subst bump.simps) simp
    then show ?thesis by auto
  qed
qed

lemma rule_json_equal:
  assumes "pf_replace r \<noteq> None" "pf_replace s \<noteq> None"
  shows "isEqual (rule_json r) (rule_json s) \<longleftrightarrow> r = s"
  using assms by (cases r; cases s) (auto simp: rule_json_def defined_fields_def own_def)

lemma rules_json_equal:
  "list_all (\<lambda>r. pf_replace r \<noteq> None) rs \<Longrightarrow> list_all (\<lambda>r. pf_replace r \<noteq> None) ss \<Longrightarrow>
   isEqual (JArr (map rule_json rs)) (JArr (map rule_json ss)) \<longleftrightarrow> rs = ss"
proof (induction rs arbitrary: ss)
  case (Cons r rs)
  then show ?case by (cases ss) (auto simp: rule_json_equal)
qed auto

lemma normalized_full: "list_all (\<lambda>r. pf_replace r \<noteq> None) (pfc_rules (normalized c))"
  by (simp add: normalized_def list_all_iff)

lemma samePromptFilter_iff: "samePromptFilter a b \<longleftrightarrow> normalized a = normalized b"
proof -
  have "isEqual (JObj (config_fields x)) (JObj (config_fields y)) \<longleftrightarrow> x = y"
    if "list_all (\<lambda>r. pf_replace r \<noteq> None) (pfc_rules x)" "list_all (\<lambda>r. pf_replace r \<noteq> None) (pfc_rules y)" for x y
    using rules_json_equal [OF that] by (cases x; cases y) (auto simp: config_fields_def defined_fields_def own_def)
  then show ?thesis unfolding samePromptFilter_def using normalized_full by blast
qed

interpretation filter_draft: draft_equality samePromptFilter "\<lambda>_. True"
  by unfold_locales (simp_all add: samePromptFilter_iff)

text \<open>What the server makes of a rule it is sent.\<close>

definition stored_rule :: "prompt_filter_rule \<Rightarrow> prompt_filter_rule" where
  "stored_rule r = r\<lparr>pf_replace := (case pf_replace r of None \<Rightarrow> None | Some s \<Rightarrow> if s = [] then None else Some s)\<rparr>"

lemma readRules_json: "readRules (map rule_json rs) = Some (map stored_rule rs)"
proof (induction rs)
  case (Cons r rs)
  then show ?case
    by (cases r) (auto simp: rule_json_def stored_rule_def own_def string_or_empty_def given_text_def
        split: option.split)
qed simp

lemma normalized_stored: "normalized (c\<lparr>pfc_rules := map stored_rule (pfc_rules c)\<rparr>) = normalized c"
  by (cases c) (auto simp: normalized_def stored_rule_def split: option.split)

subsection \<open>Properties\<close>

text \<open>
  C39: a new rule's id is fresh and the search for it ends. Whatever rules exist and whatever the
  clock says, the loop returns the first stamp from \<open>now\<close> on that no rule uses, so distinct ids stay
  distinct when the rule is added, also for several rules made in one millisecond.
\<close>

theorem new_rule_id_fresh:
  "pf_id (newRule k existing now) \<notin> pf_id ` set existing
   \<and> (\<exists>stamp. pf_id (newRule k existing now) = stamp_id stamp \<and> now \<le> stamp
        \<and> {stamp_id m |m. now \<le> m \<and> m < stamp} \<subseteq> pf_id ` set existing)
   \<and> distinct (map pf_id (existing @ [newRule k existing now])) = distinct (map pf_id existing)"
proof -
  have fresh: "pf_id (newRule k existing now) \<notin> pf_id ` set existing"
    using bump_fresh [of existing now] by (auto simp: newRule_def list_ex_iff)
  have taken: "stamp_id m \<in> pf_id ` set existing" if "now \<le> m" "m < bump existing now" for m
  proof -
    have "list_ex (\<lambda>r. pf_id r = stamp_id m) existing" using bump_least that by blast
    then show ?thesis by (force simp: list_ex_iff)
  qed
  have "now \<le> bump existing now
      \<and> {stamp_id m |m. now \<le> m \<and> m < bump existing now} \<subseteq> pf_id ` set existing"
    using bump_least [of now existing] taken by blast
  then have "\<exists>stamp. pf_id (newRule k existing now) = stamp_id stamp \<and> now \<le> stamp
        \<and> {stamp_id m |m. now \<le> m \<and> m < stamp} \<subseteq> pf_id ` set existing"
    by (intro exI [of _ "bump existing now"]) (simp add: newRule_def)
  with fresh show ?thesis by simp
qed

text \<open>
  A saved prompt filter is clean again. Posting the body of any configuration is accepted, and
  what the server then holds is the same filter as the one that was sent, in the card's own
  equality, although the server drops empty replacements; so the card is not dirty after the save,
  and that equality is an equivalence.
\<close>

theorem saved_filter_reads_back:
  assumes "startsWith token ''mock-''"
  shows "fst (post_prompt_filter token (Some (JObj (promptFilterBody c))) db) = Inr ()
    \<and> samePromptFilter (db_promptFilter (fst (snd (post_prompt_filter token (Some (JObj (promptFilterBody c))) db)))) c
    \<and> (samePromptFilter c d \<longleftrightarrow> normalized c = normalized d)"
proof -
  have stored: "post_prompt_filter token (Some (JObj (promptFilterBody c))) db =
      saved (db\<lparr>db_promptFilter := c\<lparr>pfc_rules := map stored_rule (pfc_rules c)\<rparr>\<rparr>)"
    using assms readRules_json [of "pfc_rules c"]
    by (cases c) (simp add: post_prompt_filter_def guarded_ok read_object_def promptFilterBody_def
        config_fields_def optional_def own_def keep_or_def Let_def)
  show ?thesis
    unfolding stored by (simp add: samePromptFilter_iff normalized_stored)
qed

definition sample_filter :: prompt_filter_config where
  "sample_filter = \<lparr>pfc_filterClaudeCode = True, pfc_filterEnvNoise = False, pfc_filterStripBoundaries = False,
     pfc_rules = [newRule RegexRule [] 5]\<rparr>"

theorem saved_filter_reads_back_witness:
  "samePromptFilter (db_promptFilter (fst (snd (post_prompt_filter ''mock-1''
     (Some (JObj (promptFilterBody sample_filter))) sample_db)))) sample_filter"
  by (rule saved_filter_reads_back [THEN conjunct2, THEN conjunct1]) (simp add: startsWith_def)

end
