(* ===== verification/Proxy_Url.thy ===== *)
theory Proxy_Url
  imports Js_Uri Settings_Server
begin

text \<open>
  The outbound proxy form: a proxy URL split into its parts and joined back
  (src/ui/src/features/settings/lib/proxy-url.ts). The two regular expressions are written out as
  the strings they accept.
\<close>

datatype proxy_type = ProxyNone | ProxySocks5 | ProxyHttp

datatype proxy_scheme = Socks5 | Socks5h | Http | Https

record proxy_model =
  pm_type :: proxy_type
  pm_scheme :: proxy_scheme
  pm_host :: string
  pm_port :: string
  pm_username :: string
  pm_password :: string

fun scheme_text :: "proxy_scheme \<Rightarrow> string" where
  "scheme_text Socks5 = ''socks5''"
| "scheme_text Socks5h = ''socks5h''"
| "scheme_text Http = ''http''"
| "scheme_text Https = ''https''"

definition SCHEMES :: "(string \<times> proxy_scheme) list" where
  "SCHEMES = map (\<lambda>s. (scheme_text s, s)) [Socks5, Socks5h, Http, Https]"

definition DIRECT_PROXY :: proxy_model where
  "DIRECT_PROXY = \<lparr>pm_type = ProxyNone, pm_scheme = Socks5, pm_host = [], pm_port = [],
     pm_username = [], pm_password = []\<rparr>"

definition typeOfScheme :: "proxy_scheme \<Rightarrow> proxy_type" where
  "typeOfScheme s = (if startsWith (scheme_text s) ''socks5'' then ProxySocks5 else ProxyHttp)"

definition schemeForType :: "proxy_type \<Rightarrow> proxy_scheme \<Rightarrow> proxy_scheme" where
  "schemeForType t current =
     (if typeOfScheme current = t then current else if t = ProxySocks5 then Socks5 else Http)"

definition decode_part :: "string \<Rightarrow> string" where
  "decode_part v = (case decodeURIComponent v of None \<Rightarrow> v | Some s \<Rightarrow> s)"

text \<open>
  The match of \<open>/^([a-z][a-z0-9+.-]*):\/\/(.*)$/i\<close>: the scheme and the rest, None without a match. A
  line terminator stops \<open>.*\<close> before the end.
\<close>

definition scheme_char :: "char \<Rightarrow> bool" where
  "scheme_char c \<longleftrightarrow> is_lower_az c \<or> is_upper_az c \<or> is_digit c \<or> c \<in> set ''+.-''"

definition url_match :: "string \<Rightarrow> (string \<times> string) option" where
  "url_match s =
     (let scheme = takeWhile scheme_char s; rest = dropWhile scheme_char s
      in if scheme \<noteq> [] \<and> (is_lower_az (hd scheme) \<or> is_upper_az (hd scheme)) \<and> startsWith rest ''://'' \<and>
            list_all (\<lambda>c. code c \<noteq> 10 \<and> code c \<noteq> 13) (drop 3 rest)
         then Some (scheme, drop 3 rest) else None)"

definition authority_of :: "string \<Rightarrow> string" where
  "authority_of rest = takeWhile (\<lambda>c. c \<notin> set ''/?#'') rest"

text \<open>The text before and after position \<open>i\<close>, the character there dropped.\<close>

definition cut_at :: "nat \<Rightarrow> string \<Rightarrow> string \<times> string" where
  "cut_at i s = (take i s, drop (i + 1) s)"

definition host_and_port :: "string \<Rightarrow> string \<times> string" where
  "host_and_port hostPort =
     (if startsWith hostPort ''['' then
        (case indexOf hostPort '']'' of
           None \<Rightarrow> (drop 1 hostPort, [])
         | Some close \<Rightarrow>
             (let rest = drop (close + 1) hostPort
              in (slice 1 close hostPort, if startsWith rest '':'' then drop 1 rest else [])))
      else (case lastIndexOf hostPort (CHR '':'') of
          None \<Rightarrow> (hostPort, [])
        | Some i \<Rightarrow> cut_at i hostPort))"

definition userinfo_of :: "string \<Rightarrow> string \<times> string" where
  "userinfo_of authority =
     (case lastIndexOf authority (CHR ''@'') of None \<Rightarrow> ([], authority) | Some i \<Rightarrow> cut_at i authority)"

definition credentials_of :: "string \<Rightarrow> string \<times> string" where
  "credentials_of userinfo =
     (case indexOf userinfo '':'' of None \<Rightarrow> (userinfo, []) | Some i \<Rightarrow> cut_at i userinfo)"

definition parseProxyUrl :: "string \<Rightarrow> proxy_model" where
  "parseProxyUrl url =
     (case url_match (trim url) of
        None \<Rightarrow> DIRECT_PROXY
      | Some (sch, rest) \<Rightarrow>
          (case map_of SCHEMES (toLowerCase sch) of
             None \<Rightarrow> DIRECT_PROXY
           | Some s \<Rightarrow>
               (let (userinfo, hostPort) = userinfo_of (authority_of rest);
                    (username, password) = credentials_of userinfo;
                    (host, port) = host_and_port hostPort
                in \<lparr>pm_type = typeOfScheme s, pm_scheme = s, pm_host = host, pm_port = port,
                    pm_username = decode_part username, pm_password = decode_part password\<rparr>)))"

definition auth_text :: "string \<Rightarrow> string \<Rightarrow> string" where
  "auth_text username password =
     (if username = [] then []
      else if password \<noteq> [] then encodeURIComponent username @ '':'' @ encodeURIComponent password @ ''@''
      else encodeURIComponent username @ ''@'')"

definition bracketed :: "string \<Rightarrow> string" where
  "bracketed host = (if includesStr host '':'' \<and> \<not> startsWith host ''['' then ''['' @ host @ '']'' else host)"

definition buildProxyUrl :: "proxy_model \<Rightarrow> string" where
  "buildProxyUrl m =
     (if pm_type m = ProxyNone then []
      else scheme_text (schemeForType (pm_type m) (pm_scheme m)) @ ''://'' @
           auth_text (trim (pm_username m)) (trim (pm_password m)) @
           bracketed (trim (pm_host m)) @ '':'' @ trim (pm_port m))"

subsection \<open>Lemmas\<close>

text \<open>A host and a port as a form holds them: without the characters that delimit a URL.\<close>

definition plain_host :: "string \<Rightarrow> bool" where
  "plain_host h \<longleftrightarrow> trim h = h \<and> list_all (\<lambda>c. c \<notin> set ''/?#@[]'' \<and> code c \<noteq> 10 \<and> code c \<noteq> 13) h"

definition plain_port :: "string \<Rightarrow> bool" where
  "plain_port p \<longleftrightarrow> list_all is_digit p"

lemma scheme_chars: "list_all scheme_char (scheme_text s)" "is_lower_az (hd (scheme_text s))"
  "scheme_text s \<noteq> []" "toLowerCase (scheme_text s) = scheme_text s"
  by (cases s; simp add: scheme_char_def is_lower_az_def is_digit_def code_def toLowerCase_def
      lower_char_def cased_upper_def)+

lemma scheme_lookup [simp]: "map_of SCHEMES (scheme_text s) = Some s"
  by (cases s) (simp_all add: SCHEMES_def)

lemma schemeForType_type: "t \<noteq> ProxyNone \<Longrightarrow> typeOfScheme (schemeForType t s) = t"
  by (cases s; cases t) (simp_all add: schemeForType_def typeOfScheme_def)

lemma takeWhile_until: "list_all P s \<Longrightarrow> \<not> P c \<Longrightarrow> takeWhile P (s @ c # t) = s"
  "list_all P s \<Longrightarrow> \<not> P c \<Longrightarrow> dropWhile P (s @ c # t) = c # t"
  by (auto simp: list_all_iff takeWhile_append dropWhile_append)

lemma colon_not_scheme: "\<not> scheme_char (CHR '':'')"
  by code_simp

lemma url_match_scheme:
  "list_all (\<lambda>c. code c \<noteq> 10 \<and> code c \<noteq> 13) rest \<Longrightarrow>
   url_match (scheme_text s @ ''://'' @ rest) = Some (scheme_text s, rest)"
  using scheme_chars [of s]
  by (simp add: url_match_def Let_def takeWhile_until [where P = scheme_char, OF _ colon_not_scheme])

lemma digits_plain: "is_digit c \<Longrightarrow> c \<notin> set ''/?#@:[]'' \<and> code c \<noteq> 10 \<and> code c \<noteq> 13 \<and> \<not> is_space c"
  by (auto simp: is_digit_def is_space_def code_def)

lemma uri_plain: "uri_unreserved c \<or> c = CHR ''%'' \<Longrightarrow> c \<notin> set ''/?#@:[]'' \<and> code c \<noteq> 10 \<and> code c \<noteq> 13"
  by (auto simp: uri_unreserved_def is_digit_def is_lower_az_def is_upper_az_def code_def)

lemma encoded_plain:
  "list_all (\<lambda>c. c \<notin> set ''/?#@:[]'' \<and> code c \<noteq> 10 \<and> code c \<noteq> 13) (encodeURIComponent s)"
  unfolding list_all_iff using encoded_chars uri_plain by blast

lemma trim_digits: "list_all is_digit p \<Longrightarrow> trim p = p"
  by (rule trim_fix) (cases p; auto simp: list_all_iff dest: digits_plain)

lemma cut_at_append: "cut_at (length s) (s @ c # t) = (s, t)"
  by (simp add: cut_at_def)

lemma no_colon_in_digits: "list_all is_digit p \<Longrightarrow> CHR '':'' \<notin> set p"
  using digits_plain by (auto simp: list_all_iff)

lemma host_round:
  assumes "plain_host h" "plain_port p"
  shows "host_and_port (bracketed h @ '':'' @ p) = (h, p)"
proof -
  have none: "CHR ''['' \<notin> set h" "CHR '']'' \<notin> set h" "CHR '':'' \<notin> set p"
    using assms no_colon_in_digits by (auto simp: plain_host_def plain_port_def list_all_iff)
  then have open_h: "\<not> startsWith h ''[''" by (cases h) auto
  show ?thesis
  proof (cases "CHR '':'' \<in> set h")
    case True
    then have b: "bracketed h @ '':'' @ p = (CHR ''['' # h) @ CHR '']'' # CHR '':'' # p"
      using open_h by (simp add: bracketed_def)
    have "indexOf ((CHR ''['' # h) @ CHR '']'' # CHR '':'' # p) '']'' = Some (length (CHR ''['' # h))"
      by (rule indexOf_first) (use none in simp)
    then show ?thesis unfolding b by (simp add: host_and_port_def slice_def)
  next
    case False
    then have b: "bracketed h @ '':'' @ p = h @ CHR '':'' # p"
      by (simp add: bracketed_def)
    have "\<not> startsWith (h @ CHR '':'' # p) ''[''" using none(1) by (cases h) auto
    then show ?thesis
      unfolding b using lastIndexOf_last [OF none(3), of h]
      by (simp add: host_and_port_def cut_at_append del: lastIndexOf_None)
  qed
qed

definition safe_part :: "char \<Rightarrow> bool" where
  "safe_part c \<longleftrightarrow> c \<notin> set ''/?#'' \<and> code c \<noteq> 10 \<and> code c \<noteq> 13"

lemma safe_host: "plain_host h \<Longrightarrow> plain_port p \<Longrightarrow>
    list_all (\<lambda>c. safe_part c \<and> c \<noteq> CHR ''@'') (bracketed h @ '':'' @ p)"
proof -
  assume a: "plain_host h" "plain_port p"
  have "list_all (\<lambda>c. safe_part c \<and> c \<noteq> CHR ''@'') h"
    using a(1) by (auto simp: plain_host_def safe_part_def list_all_iff)
  moreover have "safe_part c \<and> c \<noteq> CHR ''@''" if "is_digit c" for c
    using digits_plain [OF that] by (simp add: safe_part_def)
  then have "list_all (\<lambda>c. safe_part c \<and> c \<noteq> CHR ''@'') p"
    using a(2) by (simp add: plain_port_def list_all_iff)
  ultimately show ?thesis
    by (simp add: bracketed_def safe_part_def code_def)
qed

lemma safe_auth: "list_all safe_part (auth_text u w)"
  using encoded_plain [of u] encoded_plain [of w]
  by (auto simp: auth_text_def safe_part_def list_all_iff code_def)

definition userinfo :: "string \<Rightarrow> string \<Rightarrow> string" where
  "userinfo u w = (if u = [] then [] else if w = [] then encodeURIComponent u
     else encodeURIComponent u @ '':'' @ encodeURIComponent w)"

lemma userinfo_round:
  assumes "CHR ''@'' \<notin> set hp"
  shows "userinfo_of (auth_text u w @ hp) = (userinfo u w, hp)"
proof (cases "u = []")
  case True
  have "lastIndexOf hp (CHR ''@'') = None" using assms by simp
  then show ?thesis by (simp add: True auth_text_def userinfo_def userinfo_of_def del: lastIndexOf_None)
next
  case False
  then have e: "auth_text u w @ hp = userinfo u w @ CHR ''@'' # hp"
    by (simp add: auth_text_def userinfo_def)
  show ?thesis
    unfolding e userinfo_of_def lastIndexOf_last [OF assms] by (simp add: cut_at_append)
qed

lemma credentials_round:
  "credentials_of (userinfo u w) = (if u = [] then ([], []) else (encodeURIComponent u, encodeURIComponent w))"
proof -
  have none: "CHR '':'' \<notin> set (encodeURIComponent u)"
    using encoded_plain [of u] by (auto simp: list_all_iff)
  then have single: "credentials_of (encodeURIComponent u) = (encodeURIComponent u, [])"
    by (simp add: credentials_of_def indexOf_char)
  have both: "credentials_of (encodeURIComponent u @ '':'' @ v) = (encodeURIComponent u, v)" for v
    using indexOf_first [OF none, of v] by (simp add: credentials_of_def cut_at_append)
  have empty: "credentials_of [] = ([], [])" by (simp add: credentials_of_def)
  have nil: "encodeURIComponent [] = []" by (simp add: encodeURIComponent_def)
  show ?thesis
    using single both empty by (auto simp: userinfo_def nil)
qed

lemma decode_part_encoded [simp]: "decode_part (encodeURIComponent s) = s"
  by (simp add: decode_part_def decode_encode)

lemma decode_part_Nil [simp]: "decode_part [] = []"
  by (simp add: decode_part_def decodeURIComponent.simps)

lemma takeWhile_all: "list_all P s \<Longrightarrow> takeWhile P s = s"
  by (simp add: list_all_iff)

lemma trim_url: "list_all is_digit p \<Longrightarrow> trim (scheme_text s @ ''://'' @ r @ '':'' @ p) = scheme_text s @ ''://'' @ r @ '':'' @ p"
proof (rule trim_fix, rule disjI2, rule conjI)
  assume p: "list_all is_digit p"
  show "\<not> is_space (hd (scheme_text s @ ''://'' @ r @ '':'' @ p))"
    by (cases s) (simp_all add: is_space_def code_def)
  have "last ('':'' @ p) = CHR '':'' \<or> is_digit (last ('':'' @ p))"
    using p by (cases p rule: rev_cases) (auto simp: list_all_iff)
  moreover have "\<not> is_space (CHR '':'')" by (simp add: is_space_def code_def)
  ultimately show "\<not> is_space (last (scheme_text s @ ''://'' @ r @ '':'' @ p))"
    using digits_plain by auto
qed

lemma parse_built:
  assumes "plain_host h" "plain_port p"
  shows "parseProxyUrl (scheme_text s @ ''://'' @ auth_text u w @ bracketed h @ '':'' @ p) =
    \<lparr>pm_type = typeOfScheme s, pm_scheme = s, pm_host = h, pm_port = p, pm_username = u,
     pm_password = (if u = [] then [] else w)\<rparr>"
proof -
  let ?hp = "bracketed h @ '':'' @ p" and ?rest = "auth_text u w @ bracketed h @ '':'' @ p"
  note safe = safe_host [OF assms] safe_auth [of u w]
  have digits: "list_all is_digit p" using assms(2) by (simp add: plain_port_def)
  have line: "list_all (\<lambda>c. code c \<noteq> 10 \<and> code c \<noteq> 13) ?rest"
    unfolding list_all_append using safe by (auto simp: safe_part_def list_all_iff)
  have match: "url_match (trim (scheme_text s @ ''://'' @ ?rest)) = Some (scheme_text s, ?rest)"
    using trim_url [OF digits, of s "auth_text u w @ bracketed h"] url_match_scheme [OF line, of s] by simp
  have auth: "authority_of ?rest = auth_text u w @ ?hp"
    unfolding authority_of_def using safe by (intro takeWhile_all) (auto simp: safe_part_def list_all_iff)
  have noat: "CHR ''@'' \<notin> set ?hp" using safe(1) by (auto simp: list_all_iff)
  show ?thesis
    unfolding parseProxyUrl_def match option.case prod.case scheme_chars(4) scheme_lookup auth
      userinfo_round [OF noat] Let_def credentials_round
    by (simp only: host_round [OF assms] prod.case) simp
qed

subsection \<open>Properties\<close>

text \<open>
  C38: the proxy form survives the round trip through its URL. For a proxy that is not direct, with a
  host free of URL delimiters and a port of digits, parsing the URL the form builds gives the form
  back: the scheme (socks5h is not lost), the host (IPv6 unbracketed), the port and the credentials without the
  spaces around them, with every other character, however they must be escaped; a password without a
  username is dropped.
\<close>

theorem proxy_form_roundtrip:
  assumes "pm_type m \<noteq> ProxyNone" "plain_host (pm_host m)" "plain_port (pm_port m)"
  shows "parseProxyUrl (buildProxyUrl m) =
    \<lparr>pm_type = pm_type m, pm_scheme = schemeForType (pm_type m) (pm_scheme m), pm_host = pm_host m,
     pm_port = pm_port m, pm_username = trim (pm_username m),
     pm_password = (if trim (pm_username m) = [] then [] else trim (pm_password m))\<rparr>"
proof -
  have "trim (pm_host m) = pm_host m" "trim (pm_port m) = pm_port m"
    using assms(2,3) trim_digits by (auto simp: plain_host_def plain_port_def)
  then show ?thesis
    using assms parse_built [OF assms(2,3), of "schemeForType (pm_type m) (pm_scheme m)" "trim (pm_username m)" "trim (pm_password m)"]
    by (simp add: buildProxyUrl_def schemeForType_type)
qed

definition sample_proxy :: proxy_model where
  "sample_proxy = \<lparr>pm_type = ProxySocks5, pm_scheme = Socks5h, pm_host = ''::1'', pm_port = ''1080'',
     pm_username = ''user'', pm_password = ''p@ss:/#''\<rparr>"

theorem proxy_form_roundtrip_witness:
  "pm_password (parseProxyUrl (buildProxyUrl sample_proxy)) = ''p@ss:/#''"
proof -
  have "plain_host ''::1''" "plain_port ''1080''" by code_simp+
  moreover have "trim ''p@ss:/#'' = ''p@ss:/#''" "trim ''user'' = ''user''" by code_simp+
  ultimately show ?thesis
    using proxy_form_roundtrip [of sample_proxy] by (simp add: sample_proxy_def)
qed

text \<open>
  The server takes what the proxy form builds: the URL of any form value is empty or starts with
  an accepted scheme, so saving it never fails for its scheme, and what is stored reads back as the
  same form.
\<close>

theorem proxy_form_accepted:
  assumes "startsWith token ''mock-''" "pm_type m = ProxyNone \<or> plain_host (pm_host m) \<and> plain_port (pm_port m)"
  shows "fst (post_proxy token (Some (JObj [(''proxyURL'', JStr (buildProxyUrl m))])) db) = Inr ()
    \<and> px_proxyURL (db_proxy (fst (snd (post_proxy token (Some (JObj [(''proxyURL'', JStr (buildProxyUrl m))])) db))))
        = buildProxyUrl m"
proof -
  have scheme: "list_ex (startsWith (scheme_text s @ ''://'' @ r)) PROXY_SCHEMES" for s r
    by (cases s) (simp_all add: PROXY_SCHEMES_def)
  have t: "trim (buildProxyUrl m) = buildProxyUrl m"
    using assms(2) trim_digits [of "pm_port m"]
      trim_url [of "pm_port m" "schemeForType (pm_type m) (pm_scheme m)"
        "auth_text (trim (pm_username m)) (trim (pm_password m)) @ bracketed (trim (pm_host m))"]
    by (cases "pm_type m = ProxyNone") (auto simp: buildProxyUrl_def plain_port_def)
  have "buildProxyUrl m = [] \<or> list_ex (startsWith (buildProxyUrl m)) PROXY_SCHEMES"
    using scheme by (simp add: buildProxyUrl_def)
  then show ?thesis
    using assms(1) t
    by (auto simp: post_proxy_def guarded_ok read_object_def optional_def own_def field_text_def Let_def)
qed

theorem proxy_form_accepted_witness:
  "fst (post_proxy ''mock-1'' (Some (JObj [(''proxyURL'', JStr (buildProxyUrl sample_proxy))])) sample_db) = Inr ()"
  by (rule proxy_form_accepted [THEN conjunct1])
    (simp add: startsWith_def, rule disjI2, simp add: sample_proxy_def, code_simp)

end
