(* ===== verification/Server_Errors.thy ===== *)
theory Server_Errors
  imports Api_Client Settings_Server
begin

text \<open>
  What the user reads when a request fails: the translation of server messages
  (src/ui/src/lib/api/server-errors.ts). The translator \<open>t\<close> is a parameter. The Chinese phrases of the
  AWS sign-in code and their lookup inside a message (\<open>serverErrorPhrase\<close>) are outside the model's
  characters: \<open>phrase\<close>, from a message to a key and a detail, stands for it.
\<close>

definition SERVER_ERROR_CODES :: "(string \<times> string) list" where
  "SERVER_ERROR_CODES = [(''api_key_lockout'', ''errors:serverError.apiKeyLockout'')]"

definition serverErrorCode :: "thrown \<Rightarrow> string option" where
  "serverErrorCode e = (case e of
      ApiError a \<Rightarrow> (case as_string (field_of (err_body a) ''code'') of
          None \<Rightarrow> None
        | Some c \<Rightarrow> if c = [] then None else Some c)
    | _ \<Rightarrow> None)"

definition SERVER_ERROR_KEYS :: "(string \<times> string) list" where
  "SERVER_ERROR_KEYS = map (\<lambda>(msg, key). (msg, ''errors:serverError.'' @ key)) [
     (''Invalid JSON'', ''invalidJSON''),
     (''Unauthorized'', ''unauthorized''),
     (''Not Found'', ''notFound''),
     (''Account not found'', ''accountNotFound''),
     (''API key not found'', ''apiKeyNotFound''),
     (''No account IDs provided'', ''noAccountIds''),
     (''startUrl is required'', ''startUrlRequired''),
     (''bearerToken is required'', ''bearerTokenRequired''),
     (''refreshToken is required'', ''refreshTokenRequired''),
     (''refreshToken or kiroApiKey is required'', ''refreshTokenRequired''),
     (''kiroApiKey is empty'', ''kiroApiKeyEmpty''),
     (''kiroApiKey contains invalid characters'', ''kiroApiKeyInvalid''),
     (''kiroApiKey has more than one '' @ [CHR 0x27] @ ''|'' @ [CHR 0x27] @ '' separator'', ''kiroApiKeyInvalid''),
     (''invalid Kiro API key region'', ''kiroApiKeyRegion''),
     (''this Kiro API key is already added'', ''kiroApiKeyDuplicate''),
     (''unsupported Kiro API key region: use us-east-1 or eu-central-1'', ''kiroApiKeyRegionUnsupported''),
     (''invalid region'', ''invalidRegion''),
     (''Too many admin password attempts; try again later'', ''tooManyPasswordAttempts''),
     (''Password must be at least 8 characters'', ''passwordTooShort''),
     (''autoContinueMax must be between 1 and 10'', ''autoContinueMaxRange''),
     (''Account is not overage capable'', ''notOverageCapable''),
     (''API key accounts have no Kiro profile; their region is set at import'', ''apiKeyAccountNoProfile''),
     (''Selected Kiro profile is not available for this account'', ''profileNotAvailable''),
     (''profileArn is invalid'', ''profileArnInvalid''),
     (''proxyURL must start with http://, https://, socks5://, or socks5h://'', ''proxyUrlScheme''),
     (''Invalid endpoint, must be: auto, kiro, codewhisperer, or amazonq'', ''invalidEndpoint''),
     (''api key already exists'', ''apiKeyExists''),
     (''api key value collides with existing entry'', ''apiKeyCollision''),
     (''token limit must be zero or positive'', ''tokenLimitNegative''),
     (''credit limit must be zero or positive'', ''creditLimitNegative''),
     (''this Microsoft SSO login was canceled'', ''microsoftCanceled''),
     (''this Microsoft account is already added'', ''microsoftDuplicate'')]"

definition serverErrorKey :: "string \<Rightarrow> string option" where
  "serverErrorKey msg =
     map_of (rev (map (\<lambda>(m, key). (toLowerCase m, key)) SERVER_ERROR_KEYS)) (toLowerCase (trim msg))"

definition translateServerMessage ::
  "(string \<Rightarrow> (string \<times> string) option) \<Rightarrow> tfun \<Rightarrow> string \<Rightarrow> string option" where
  "translateServerMessage phrase t msg = (case serverErrorKey msg of
      Some key \<Rightarrow> Some (t key [])
    | None \<Rightarrow> (case phrase msg of
        None \<Rightarrow> None
      | Some (key, detail) \<Rightarrow>
          (let shown = t key [] in
           Some (if detail = [] then shown
                 else t ''common:text.joinSentences''
                   [(''first'', TStr shown),
                    (''second'', TStr (t ''errors:serverError.detail'' [(''detail'', TStr detail)]))]))))"

definition errorMessage ::
  "(string \<Rightarrow> (string \<times> string) option) \<Rightarrow> tfun \<Rightarrow> string \<Rightarrow> thrown \<Rightarrow> string" where
  "errorMessage phrase t fallbackKey e = (case e of
      ApiError a \<Rightarrow>
        if err_status a = 0 then t ''errors:network'' []
        else (case Option.bind (serverErrorCode e) (map_of SERVER_ERROR_CODES) of
            Some key \<Rightarrow> t key []
          | None \<Rightarrow>
              (let msg = trim (err_serverMessage a) in
               if msg = [] then t fallbackKey []
               else (case serverErrorKey msg of
                   Some key \<Rightarrow> t key []
                 | None \<Rightarrow>
                     (let parts = split_str ''; '' msg;
                          translated = map (translateServerMessage phrase t) parts
                      in if list_ex (\<lambda>p. p \<noteq> None) translated
                         then join '' '' (map (\<lambda>(p, part). case p of None \<Rightarrow> part | Some s \<Rightarrow> s) (zip translated parts))
                         else msg))))
    | _ \<Rightarrow> t fallbackKey [])"

subsection \<open>Lemmas\<close>

text \<open>The JSON body of \<open>jsonError(status, error, extra)\<close>.\<close>

definition refusal_json :: "api_failure \<Rightarrow> json" where
  "refusal_json f = JObj ([(''error'', JStr (fail_error f))] @
     (case fail_code f of None \<Rightarrow> [] | Some c \<Rightarrow> [(''code'', JStr c)]) @
     (case fail_index f of None \<Rightarrow> [] | Some i \<Rightarrow> [(''index'', jint i)]))"

lemma refusal_fields:
  "field_of (refusal_json f) ''error'' = JStr (fail_error f)"
  "field_of (refusal_json f) ''code'' = (case fail_code f of None \<Rightarrow> JUndef | Some c \<Rightarrow> JStr c)"
  by (simp_all add: field_of_def refusal_json_def own_def split: option.split)

text \<open>The refusals the table can name: by their code, or by their exact text.\<close>

definition named :: "api_failure \<Rightarrow> bool" where
  "named f \<longleftrightarrow> 0 < fail_status f \<and>
     (fail_code f = Some ''api_key_lockout'' \<or>
      fail_code f = None \<and> fail_error f \<noteq> [] \<and> trim (fail_error f) = fail_error f \<and> serverErrorKey (fail_error f) \<noteq> None)"

definition refusal_named :: "'a reply \<times> mock_db \<times> event list \<Rightarrow> bool" where
  "refusal_named out = (case fst out of Inl f \<Rightarrow> named f | Inr _ \<Rightarrow> True)"

lemma listed_known: "m \<in> fst ` set SERVER_ERROR_KEYS \<Longrightarrow> trim m = m \<Longrightarrow> serverErrorKey m \<noteq> None"
  by (auto simp: serverErrorKey_def map_of_eq_None_iff image_iff split_beta)

lemma named_listed:
  "0 < st \<Longrightarrow> m \<noteq> [] \<Longrightarrow> trim m = m \<Longrightarrow> m \<in> fst ` set SERVER_ERROR_KEYS \<Longrightarrow> named (jsonError st m None)"
  using listed_known [of m] by (simp add: named_def jsonError_def)

lemma named_unauthorized: "named (jsonError 401 ''Unauthorized'' None)"
  by (rule named_listed) (simp, simp, code_simp, simp add: SERVER_ERROR_KEYS_def)

lemma named_guarded: "refusal_named (h db) \<Longrightarrow> refusal_named (guarded token h db)"
proof -
  note named_unauthorized
  then show "refusal_named (h db) \<Longrightarrow> ?thesis"
    by (simp add: guarded_def refusal_named_def requireAuth_def)
qed

lemma named_refuse [simp]: "refusal_named (refuse st msg c db) = named (jsonError st msg c)"
  by (simp add: refusal_named_def)

lemma named_saved [simp]: "refusal_named (saved db)"
  by (simp add: refusal_named_def)

lemma named_messages [simp]:
  "named (jsonError 400 ''Invalid JSON'' None)"
  "named (jsonError 400 ''autoContinueMax must be between 1 and 10'' None)"
  "named (jsonError 400 ''Password must be at least 8 characters'' None)"
  "named (jsonError 400 ''Invalid endpoint, must be: auto, kiro, codewhisperer, or amazonq'' None)"
  "named (jsonError 400 ''proxyURL must start with http://, https://, socks5://, or socks5h://'' None)"
  by (rule named_listed; (code_simp | simp add: SERVER_ERROR_KEYS_def))+

lemma named_lockout [simp]: "named (jsonError 409 msg (Some ''api_key_lockout''))"
  by (simp add: named_def jsonError_def)

lemma refusal_namedD: "refusal_named out \<Longrightarrow> Inl f = fst out \<Longrightarrow> named f"
  by (simp add: refusal_named_def split: sum.splits)

lemma named_invalidJson [simp]: "refusal_named (invalidJson db)"
  by (simp add: invalidJson_def)

lemma refusals_named:
  "refusal_named (post_settings token body db)" "refusal_named (post_endpoint token body db)"
  "refusal_named (post_proxy token body db)" "refusal_named (post_prompt_filter token body db)"
  unfolding post_settings_def post_endpoint_def post_proxy_def post_prompt_filter_def Let_def
  by (rule named_guarded, simp split: option.split)+

lemma named_shown:
  assumes "named f" "rs_status r = fail_status f" "rs_text r = Some s" "s \<noteq> []" "parse s = Some (refusal_json f)"
  shows "\<exists>key\<in>snd ` (set SERVER_ERROR_CODES \<union> set SERVER_ERROR_KEYS).
    errorMessage phrase t fb (ApiError (toApiError parse r)) = t key []"
proof -
  let ?e = "toApiError parse r"
  have body: "err_body ?e = refusal_json f" "err_status ?e = fail_status f"
    using assms(2-5) by (simp_all add: toApiError_def Let_def response_text_def parseJson_def refusal_json_def)
  have msg: "fail_error f \<noteq> [] \<Longrightarrow> err_serverMessage ?e = fail_error f"
    using assms(3-5) by (simp add: toApiError_def Let_def response_text_def parseJson_def refusal_fields)
  have code: "serverErrorCode (ApiError ?e) = (case fail_code f of None \<Rightarrow> None | Some c \<Rightarrow> if c = [] then None else Some c)"
    by (simp add: serverErrorCode_def body refusal_fields split: option.split)
  have pos: "fail_status f \<noteq> 0" using assms(1) by (auto simp: named_def)
  show ?thesis
  proof (cases "fail_code f = Some ''api_key_lockout''")
    case True
    then show ?thesis
      using pos by (simp add: errorMessage_def code body SERVER_ERROR_CODES_def)
  next
    case False
    with assms(1) have f: "fail_code f = None" "fail_error f \<noteq> []" "trim (fail_error f) = fail_error f"
      and known: "serverErrorKey (fail_error f) \<noteq> None"
      by (simp_all add: named_def)
    then obtain key where key: "serverErrorKey (fail_error f) = Some key" by blast
    then have "(toLowerCase (trim (fail_error f)), key) \<in> set (map (\<lambda>(m, key). (toLowerCase m, key)) SERVER_ERROR_KEYS)"
      unfolding serverErrorKey_def by (metis map_of_SomeD set_rev)
    then have "key \<in> snd ` set SERVER_ERROR_KEYS" by force
    moreover have "errorMessage phrase t fb (ApiError ?e) = t key []"
      using pos f key by (simp add: errorMessage_def code body msg)
    ultimately show ?thesis by blast
  qed
qed

subsection \<open>Properties\<close>

text \<open>
  A refused settings save is explained in the UI language. Whatever the settings, endpoint, proxy
  and prompt-filter handlers refuse (with the auth guard's 401), once its JSON body is read back by
  the client, the user sees the translation of one of the table's keys, never the raw English text
  nor the generic fallback.
\<close>

theorem refusals_shown_in_ui_language:
  assumes "Inl f \<in> {fst (post_settings token body db), fst (post_endpoint token body db),
      fst (post_proxy token body db), fst (post_prompt_filter token body db)}"
    and "rs_status r = fail_status f" "rs_text r = Some s" "s \<noteq> []" "parse s = Some (refusal_json f)"
  shows "\<exists>key\<in>snd ` (set SERVER_ERROR_CODES \<union> set SERVER_ERROR_KEYS).
    errorMessage phrase t fb (ApiError (toApiError parse r)) = t key []"
proof -
  have "named f"
    using assms(1) refusals_named [of token body db] by (auto dest: refusal_namedD)
  then show ?thesis using assms(2-5) by (rule named_shown)
qed

definition denied_body :: json where
  "denied_body = JObj [(''error'', JStr ''Unauthorized'')]"

theorem refusals_shown_in_ui_language_witness:
  "\<exists>key\<in>snd ` (set SERVER_ERROR_CODES \<union> set SERVER_ERROR_KEYS).
     errorMessage (\<lambda>_. None) (\<lambda>k _. k) ''errors:generic''
       (ApiError (toApiError (\<lambda>_. Some denied_body)
         \<lparr>rs_status = 401, rs_statusText = [], rs_text = Some ''{}'', rs_retryAfter = None\<rparr>)) = key"
proof -
  have "fst (post_proxy [] None sample_db) = Inl (jsonError 401 ''Unauthorized'' None)"
    by (simp add: post_proxy_def guarded_denied startsWith_def)
  moreover have "refusal_json (jsonError 401 ''Unauthorized'' None) = denied_body"
    by (simp add: refusal_json_def jsonError_def denied_body_def)
  ultimately show ?thesis
    using refusals_shown_in_ui_language [of "jsonError 401 ''Unauthorized'' None" "[]" None sample_db
        "\<lparr>rs_status = 401, rs_statusText = [], rs_text = Some ''{}'', rs_retryAfter = None\<rparr>" "''{}''"
        "\<lambda>_. Some denied_body" "\<lambda>_. None" "\<lambda>k _. k" "''errors:generic''"]
    by (simp add: jsonError_def)
qed

end
