(* ===== verification/Sparkline.thy ===== *)
theory Sparkline
  imports Chart_Domains
begin

text \<open>The small trend lines, \<open>components/charts/sparkline-geometry.ts\<close>: the domain of the values, where each
  point stands, which point a pointer is over, the frames between two layouts and the sentence a screen
  reader gets. Values are JavaScript numbers, \<open>NaN\<close> for a missing one; a pixel y that is \<open>NaN\<close> is \<open>None\<close>. The
  curves are d3's and the compact numbers \<open>Intl\<close>'s: the latter are an argument of the sentence. The height
  of a value is computed for a domain of two different ends, which \<open>computeSparklineDomain\<close> always gives
  (\<open>sparkline_domain_ends\<close>).\<close>

subsection \<open>Domain and layout\<close>

record spark_padding =
  sp_top :: rat
  sp_right :: rat
  sp_bottom :: rat
  sp_left :: rat

datatype padding_option = NoPadding | EvenPadding rat | SidePadding "rat option" "rat option" "rat option" "rat option"

fun resolveSparklinePadding :: "padding_option \<Rightarrow> rat \<Rightarrow> spark_padding" where
  "resolveSparklinePadding NoPadding fallback =
     \<lparr>sp_top = fallback, sp_right = fallback, sp_bottom = fallback, sp_left = fallback\<rparr>"
| "resolveSparklinePadding (EvenPadding p) fallback = \<lparr>sp_top = p, sp_right = p, sp_bottom = p, sp_left = p\<rparr>"
| "resolveSparklinePadding (SidePadding t r b l) fallback =
     \<lparr>sp_top = coalesce t fallback, sp_right = coalesce r fallback, sp_bottom = coalesce b fallback, sp_left = coalesce l fallback\<rparr>"

fun finite_value :: "jnum \<Rightarrow> rat option" where
  "finite_value (Fin r) = Some r"
| "finite_value _ = None"

text \<open>The loop over the values: \<open>None\<close> is the pair of infinities it starts with.\<close>

definition value_extent :: "jnum list \<Rightarrow> (rat \<times> rat) option" where
  "value_extent vals = foldl (\<lambda>e v. case finite_value v of None \<Rightarrow> e | Some r \<Rightarrow> widen e r) None vals"

definition computeSparklineDomain :: "jnum list \<Rightarrow> (rat option \<times> rat option) option \<Rightarrow> y_domain" where
  "computeSparklineDomain vals yDomain =
     (let (mn, mx) = coalesce (value_extent vals) (0, 0);
          mn = coalesce (Option.bind yDomain fst) mn;
          mx = coalesce (Option.bind yDomain snd) mx
      in if mn = mx then (mn - 1, mx + 1) else (mn, mx))"

record spark_point =
  pt_x :: rat
  pt_y :: "rat option"
  pt_value :: jnum

record spark_layout =
  sl_points :: "spark_point list"
  sl_baseline :: rat
  sl_domain :: y_domain

record spark_box =
  bx_width :: rat
  bx_height :: rat
  bx_padding :: spark_padding

definition inner_width :: "spark_box \<Rightarrow> rat" where
  "inner_width b = max 0 (bx_width b - sp_left (bx_padding b) - sp_right (bx_padding b))"

definition inner_height :: "spark_box \<Rightarrow> rat" where
  "inner_height b = max 0 (bx_height b - sp_top (bx_padding b) - sp_bottom (bx_padding b))"

definition y_of :: "spark_box \<Rightarrow> y_domain \<Rightarrow> rat \<Rightarrow> rat" where
  "y_of b d v = sp_top (bx_padding b) + inner_height b - ((v - fst d) / (snd d - fst d)) * inner_height b"

definition computeSparklineLayout :: "jnum list \<Rightarrow> spark_box \<Rightarrow> y_domain \<Rightarrow> spark_layout" where
  "computeSparklineLayout vals b d =
     (let n = length vals; step = (if n > 1 then inner_width b / of_nat (n - 1) else 0)
      in \<lparr>sl_points = map (\<lambda>(i, v). \<lparr>pt_x = sp_left (bx_padding b) + (if n > 1 then step * of_nat i else inner_width b / 2),
                                   pt_y = map_option (y_of b d) (finite_value v), pt_value = v\<rparr>) (zip [0..<n] vals),
          sl_baseline = y_of b d (min (max 0 (fst d)) (snd d)), sl_domain = d\<rparr>)"

definition sparklineIndexAtX :: "rat \<Rightarrow> nat \<Rightarrow> spark_box \<Rightarrow> int option" where
  "sparklineIndexAtX x n b =
     (if n = 0 then None
      else (let w = bx_width b - sp_left (bx_padding b) - sp_right (bx_padding b)
            in if w \<le> 0 then Some 0
               else (let t = (x - sp_left (bx_padding b)) / w; raw = js_round (t * of_nat (n - 1))
                     in Some (min (int n - 1) (max 0 raw)))))"

subsection \<open>Frames\<close>

definition spark_y :: "spark_point list \<Rightarrow> nat \<Rightarrow> rat option" where
  "spark_y ps i = (if i < length ps then pt_y (ps ! i) else None)"

definition from_y_at :: "spark_point list \<Rightarrow> nat \<Rightarrow> nat \<Rightarrow> rat option" where
  "from_y_at ps n i =
     (let m = length ps
      in if m = 0 then None
         else if m = n then spark_y ps i
         else (let position = (if n > 1 then (of_nat i / of_nat (n - 1)) * of_nat (m - 1) else 0 :: rat);
                   lo = nat \<lfloor>position\<rfloor>
               in case (spark_y ps lo, spark_y ps (min (m - 1) (lo + 1))) of
                    (Some a, Some b) \<Rightarrow> Some (a + (b - a) * (position - of_nat lo)) | _ \<Rightarrow> None))"

definition interpolateSparklineLayout :: "spark_layout \<Rightarrow> spark_layout \<Rightarrow> rat \<Rightarrow> spark_layout" where
  "interpolateSparklineLayout from_l to_l t =
     to_l\<lparr>sl_baseline := sl_baseline from_l + (sl_baseline to_l - sl_baseline from_l) * t,
          sl_points := map (\<lambda>(i, p). case (from_y_at (sl_points from_l) (length (sl_points to_l)) i, pt_y p) of
              (Some fromY, Some y) \<Rightarrow> p\<lparr>pt_y := Some (fromY + (y - fromY) * t)\<rparr>
            | _ \<Rightarrow> p) (zip [0..<length (sl_points to_l)] (sl_points to_l))\<rparr>"

subsection \<open>The sentence\<close>

definition describeSparkline :: "(rat \<Rightarrow> string) \<Rightarrow> tfun \<Rightarrow> jnum list \<Rightarrow> string" where
  "describeSparkline brief t vals =
     (let fin = List.map_filter finite_value vals
      in if fin = [] then t ''sparkline.empty'' []
         else (let first = hd fin; final = List.last fin;
                   params = [(''count'', TNum (int (length fin))), (''first'', TStr (brief first)), (''last'', TStr (brief final))]
               in if first = 0 then t ''sparkline.summary'' params
                  else (let change = ((final - first) / \<bar>first\<bar>) * 100
                        in t (if change \<ge> 0 then ''sparkline.summaryUp'' else ''sparkline.summaryDown'')
                             (params @ [(''change'', TNum \<bar>js_round change\<bar>)]))))"

subsection \<open>Points stay on the chart\<close>

lemma value_extent_filter: "value_extent vs = foldl widen None (List.map_filter finite_value vs)"
proof -
  have "foldl (\<lambda>e v. case finite_value v of None \<Rightarrow> e | Some r \<Rightarrow> widen e r) e vs = foldl widen e (List.map_filter finite_value vs)" for e
    by (induction vs arbitrary: e) (simp_all add: List.map_filter_simps split: option.splits)
  then show ?thesis by (simp add: value_extent_def)
qed

lemma sparkline_domain_ends: "fst (computeSparklineDomain vs pins) \<noteq> snd (computeSparklineDomain vs pins)"
  by (simp add: computeSparklineDomain_def Let_def case_prod_unfold)

lemma sparkline_domain_covers:
  fixes vs :: "jnum list"
  defines "d \<equiv> computeSparklineDomain vs None"
  shows "fst d < snd d" and "v \<in> set vs \<Longrightarrow> finite_value v = Some r \<Longrightarrow> fst d \<le> r \<and> r \<le> snd d"
proof -
  obtain mn mx where e: "coalesce (value_extent vs) (0, 0) = (mn, mx)" by (cases "coalesce (value_extent vs) (0, 0)") simp
  have d: "d = (if mn = mx then (mn - 1, mx + 1) else (mn, mx))"
    using e by (simp add: d_def computeSparklineDomain_def Let_def coalesce_def)
  have le: "mn \<le> mx"
    using e widen_spec(2) [of "List.map_filter finite_value vs" mn mx] by (auto simp: coalesce_def value_extent_filter split: option.splits)
  then show "fst d < snd d" by (simp add: d)
  assume v: "v \<in> set vs" "finite_value v = Some r"
  then have mem: "r \<in> set (List.map_filter finite_value vs)" by (force simp: List.map_filter_def)
  then have "value_extent vs = Some (mn, mx)"
    using e widen_spec(1) [of "List.map_filter finite_value vs"] by (auto simp: coalesce_def value_extent_filter split: option.splits)
  then have "mn \<le> r \<and> r \<le> mx" using widen_spec(2) mem unfolding value_extent_filter by blast
  then show "fst d \<le> r \<and> r \<le> snd d" by (auto simp: d)
qed

lemma y_of_bounds:
  assumes "fst d < snd d" "fst d \<le> v" "v \<le> snd d"
  shows "sp_top (bx_padding b) \<le> y_of b d v \<and> y_of b d v \<le> sp_top (bx_padding b) + inner_height b"
proof -
  let ?r = "(v - fst d) / (snd d - fst d)"
  have r: "0 \<le> ?r" "?r \<le> 1" using assms by (simp_all add: divide_le_eq)
  have h: "0 \<le> inner_height b" by (simp add: inner_height_def)
  have "0 \<le> ?r * inner_height b" using r(1) h by (rule mult_nonneg_nonneg)
  moreover have "?r * inner_height b \<le> 1 * inner_height b" using r(2) h by (rule mult_right_mono)
  ultimately show ?thesis by (simp add: y_of_def)
qed

lemma y_of_antimono:
  assumes "fst d < snd d" "v \<le> w"
  shows "y_of b d w \<le> y_of b d v"
proof -
  have "(v - fst d) / (snd d - fst d) \<le> (w - fst d) / (snd d - fst d)" using assms by (intro divide_right_mono) simp_all
  then have "(v - fst d) / (snd d - fst d) * inner_height b \<le> (w - fst d) / (snd d - fst d) * inner_height b"
    by (intro mult_right_mono) (simp_all add: inner_height_def)
  then show ?thesis by (simp add: y_of_def)
qed

definition x_at :: "nat \<Rightarrow> spark_box \<Rightarrow> nat \<Rightarrow> rat" where
  "x_at n b i = sp_left (bx_padding b) + (if n > 1 then inner_width b / of_nat (n - 1) * of_nat i else inner_width b / 2)"

lemma layout_point:
  assumes "i < length vals"
  shows "sl_points (computeSparklineLayout vals b d) ! i =
    \<lparr>pt_x = x_at (length vals) b i, pt_y = map_option (y_of b d) (finite_value (vals ! i)), pt_value = vals ! i\<rparr>"
  using assms by (simp add: computeSparklineLayout_def Let_def x_at_def)

lemma layout_length [simp]: "length (sl_points (computeSparklineLayout vals b d)) = length vals"
  by (simp add: computeSparklineLayout_def Let_def)

lemma x_at_bounds:
  assumes "i < n"
  shows "sp_left (bx_padding b) \<le> x_at n b i \<and> x_at n b i \<le> sp_left (bx_padding b) + inner_width b"
proof -
  have w: "0 \<le> inner_width b" by (simp add: inner_width_def)
  show ?thesis
  proof (cases "n > 1")
    case True
    have "(of_nat i :: rat) \<le> of_nat (n - 1)" using assms by (simp only: of_nat_le_iff)
    then have "inner_width b * of_nat i \<le> inner_width b * of_nat (n - 1)" using w by (intro mult_left_mono)
    then have "inner_width b * of_nat i / of_nat (n - 1) \<le> inner_width b" using True by (simp add: divide_le_eq)
    then show ?thesis using True w by (simp add: x_at_def)
  qed (use w in \<open>simp add: x_at_def\<close>)
qed

text \<open>A trend line stays on its chart: for any values and any size there is one point for each value, in its
  place, between the paddings, a missing value has no height, the height of every other value and of the
  baseline is between the paddings too, and a higher value is never drawn lower.\<close>

theorem sparkline_fits:
  fixes vals :: "jnum list" and b :: spark_box
  defines "l \<equiv> computeSparklineLayout vals b (computeSparklineDomain vals None)"
  defines "fits \<equiv> \<lambda>y. sp_top (bx_padding b) \<le> y \<and> y \<le> sp_top (bx_padding b) + inner_height b"
  shows "map pt_value (sl_points l) = vals \<and> fits (sl_baseline l) \<and>
    list_all (\<lambda>p. sp_left (bx_padding b) \<le> pt_x p \<and> pt_x p \<le> sp_left (bx_padding b) + inner_width b \<and>
      (case pt_y p of None \<Rightarrow> finite_value (pt_value p) = None | Some y \<Rightarrow> fits y)) (sl_points l) \<and>
    (\<forall>i j v w. i < length vals \<and> j < length vals \<and> vals ! i = Fin v \<and> vals ! j = Fin w \<and> v \<le> w \<longrightarrow>
      the (pt_y (sl_points l ! j)) \<le> the (pt_y (sl_points l ! i)))"
proof -
  let ?d = "computeSparklineDomain vals None"
  have ends: "fst ?d < snd ?d" by (rule sparkline_domain_covers)
  have "map pt_value (sl_points l) = vals" by (rule nth_equalityI) (simp_all add: l_def layout_point)
  moreover have "fits (sl_baseline l)"
    unfolding fits_def l_def computeSparklineLayout_def Let_def by simp (rule y_of_bounds; use ends in simp)
  moreover have "list_all (\<lambda>p. sp_left (bx_padding b) \<le> pt_x p \<and> pt_x p \<le> sp_left (bx_padding b) + inner_width b \<and>
      (case pt_y p of None \<Rightarrow> finite_value (pt_value p) = None | Some y \<Rightarrow> fits y)) (sl_points l)"
  proof (unfold list_all_length l_def layout_length, intro allI impI)
    fix i assume i: "i < length vals"
    have "fits (y_of b ?d r)" if "finite_value (vals ! i) = Some r" for r
      using y_of_bounds [OF ends] sparkline_domain_covers(2) [OF nth_mem [OF i] that] by (simp add: fits_def)
    then show "sp_left (bx_padding b) \<le> pt_x (sl_points (computeSparklineLayout vals b ?d) ! i) \<and>
      pt_x (sl_points (computeSparklineLayout vals b ?d) ! i) \<le> sp_left (bx_padding b) + inner_width b \<and>
      (case pt_y (sl_points (computeSparklineLayout vals b ?d) ! i) of
        None \<Rightarrow> finite_value (pt_value (sl_points (computeSparklineLayout vals b ?d) ! i)) = None | Some y \<Rightarrow> fits y)"
      using x_at_bounds [OF i, of b] by (simp add: layout_point [OF i] split: option.split)
  qed
  moreover have "the (pt_y (sl_points l ! j)) \<le> the (pt_y (sl_points l ! i))"
    if "i < length vals" "j < length vals" "vals ! i = Fin v" "vals ! j = Fin w" "v \<le> w" for i j v w
    using that y_of_antimono [OF ends] by (simp add: l_def layout_point)
  ultimately show ?thesis by blast
qed

definition sample_box :: spark_box where
  "sample_box = \<lparr>bx_width = 100, bx_height = 30, bx_padding = \<lparr>sp_top = 2, sp_right = 0, sp_bottom = 2, sp_left = 0\<rparr>\<rparr>"

theorem sparkline_fits_witness:
  "the (pt_y (sl_points (computeSparklineLayout [Fin 1, NaN, Fin 3] sample_box (computeSparklineDomain [Fin 1, NaN, Fin 3] None)) ! 2))
    \<le> the (pt_y (sl_points (computeSparklineLayout [Fin 1, NaN, Fin 3] sample_box (computeSparklineDomain [Fin 1, NaN, Fin 3] None)) ! 0))"
proof -
  have "0 < length [Fin 1, NaN, Fin 3] \<and> 2 < length [Fin 1, NaN, Fin 3] \<and> [Fin 1, NaN, Fin 3] ! 0 = Fin 1 \<and>
    [Fin 1, NaN, Fin 3] ! 2 = Fin 3 \<and> (1 :: rat) \<le> 3" by simp
  then show ?thesis using sparkline_fits [of "[Fin 1, NaN, Fin 3]" sample_box] by blast
qed

subsection \<open>The pointer finds its point\<close>

lemma clamp_round_nearest:
  fixes u :: rat and j m :: int
  assumes "0 \<le> j" "j \<le> m"
  shows "\<bar>u - of_int (min m (max 0 (js_round u)))\<bar> \<le> \<bar>u - of_int j\<bar>"
proof -
  have r: "of_int (js_round u) \<le> u + 1 / 2" "u - 1 / 2 < of_int (js_round u)"
    unfolding js_round_def by linarith+
  consider "js_round u < 0" | "m < js_round u" | "0 \<le> js_round u" "js_round u \<le> m" by linarith
  then show ?thesis
  proof cases
    case 1
    then have "(of_int (js_round u) :: rat) \<le> of_int (- 1)" by (simp only: of_int_le_iff)
    moreover have "(0 :: rat) \<le> of_int j" using assms by simp
    ultimately show ?thesis using r 1 assms by (simp add: max_def min_def)
  next
    case 2
    then have "(of_int (m + 1) :: rat) \<le> of_int (js_round u)" by (simp only: of_int_le_iff)
    moreover have "(of_int j :: rat) \<le> of_int m" using assms by simp
    moreover have "min m (max 0 (js_round u)) = m" using 2 assms by simp
    ultimately show ?thesis using r by simp
  next
    case 3
    then have e: "min m (max 0 (js_round u)) = js_round u" by simp
    show ?thesis
    proof (cases "j = js_round u")
      case False
      then consider "j + 1 \<le> js_round u" | "js_round u + 1 \<le> j" by linarith
      then show ?thesis
      proof cases
        case 1
        then have "(of_int (j + 1) :: rat) \<le> of_int (js_round u)" by (simp only: of_int_le_iff)
        then show ?thesis using r unfolding e by simp
      next
        case 2
        then have "(of_int (js_round u + 1) :: rat) \<le> of_int j" by (simp only: of_int_le_iff)
        then show ?thesis using r unfolding e by simp
      qed
    qed (simp add: e)
  qed
qed

lemma scaled_distance:
  fixes w m x l k :: rat
  assumes "0 < w" "0 < m"
  shows "\<bar>x - (l + w / m * k)\<bar> = w / m * \<bar>(x - l) / w * m - k\<bar>"
proof -
  have "w / m * ((x - l) / w * m) = x - l" using assms by simp
  then have "x - (l + w / m * k) = w / m * ((x - l) / w * m - k)" by (simp only: right_diff_distrib)
  moreover have "0 < w / m" using assms by simp
  ultimately show ?thesis by (simp only: abs_mult abs_of_pos)
qed

text \<open>The pointer finds its point: over any chart with room to draw, the index a pointer position gives is
  one of the points', no other point is nearer, and on a point itself it is that point; over no data there is none.\<close>

theorem sparkline_pointer_nearest:
  fixes vals :: "jnum list" and b :: spark_box and x :: rat and d :: y_domain
  defines "n \<equiv> length vals" and "px \<equiv> \<lambda>i. pt_x (sl_points (computeSparklineLayout vals b d) ! i)"
  assumes "0 < bx_width b - sp_left (bx_padding b) - sp_right (bx_padding b)" "j < n"
  shows "\<exists>i<n. sparklineIndexAtX x n b = Some (int i) \<and> \<bar>x - px i\<bar> \<le> \<bar>x - px j\<bar> \<and> sparklineIndexAtX (px j) n b = Some (int j)"
proof -
  let ?w = "bx_width b - sp_left (bx_padding b) - sp_right (bx_padding b)"
  let ?u = "\<lambda>x. (x - sp_left (bx_padding b)) / ?w * of_nat (n - 1)"
  have w: "inner_width b = ?w" using assms by (simp add: inner_width_def)
  have px: "px i = x_at n b i" if "i < n" for i using that by (simp add: px_def n_def layout_point)
  have idx: "sparklineIndexAtX y n b = Some (min (int n - 1) (max 0 (js_round (?u y))))" for y
    using assms by (auto simp: sparklineIndexAtX_def Let_def)
  define i where "i = nat (min (int n - 1) (max 0 (js_round (?u x))))"
  have i: "i < n" "int i = min (int n - 1) (max 0 (js_round (?u x)))" using assms by (auto simp: i_def)
  have on: "?u (x_at n b k) = of_nat k" if "k < n" for k
    using that assms w by (cases "n > 1") (auto simp: x_at_def)
  have near: "\<bar>x - px i\<bar> \<le> \<bar>x - px j\<bar>"
  proof (cases "n > 1")
    case True
    let ?s = "?w / of_nat (n - 1)"
    have s: "0 < ?s" using assms True by simp
    have dist: "\<bar>x - x_at n b k\<bar> = ?s * \<bar>?u x - of_nat k\<bar>" for k
      using scaled_distance [of ?w "of_nat (n - 1)" x "sp_left (bx_padding b)" "of_nat k"] assms(3) True w by (simp add: x_at_def)
    have "\<bar>?u x - of_int (min (int n - 1) (max 0 (js_round (?u x))))\<bar> \<le> \<bar>?u x - of_int (int j)\<bar>"
      using assms by (intro clamp_round_nearest) simp_all
    then have "\<bar>?u x - of_nat i\<bar> \<le> \<bar>?u x - of_nat j\<bar>" unfolding i(2) [symmetric] by simp
    then have "?s * \<bar>?u x - of_nat i\<bar> \<le> ?s * \<bar>?u x - of_nat j\<bar>" using s by (intro mult_left_mono) simp_all
    then have "\<bar>x - x_at n b i\<bar> \<le> \<bar>x - x_at n b j\<bar>" unfolding dist .
    then show ?thesis by (simp only: px [OF i(1)] px [OF assms(4)])
  next
    case False
    then have "i = j" using i(1) assms(4) by linarith
    then show ?thesis by simp
  qed
  have "sparklineIndexAtX (px j) n b = Some (int j)"
    using assms(4) js_round_of_int [of "int j"] unfolding px [OF assms(4)] idx on [OF assms(4)] by simp
  with near i idx [of x] show ?thesis by auto
qed

theorem sparkline_pointer_nearest_witness:
  "\<exists>i<3. sparklineIndexAtX 70 3 sample_box = Some (int i)"
proof -
  have "0 < bx_width sample_box - sp_left (bx_padding sample_box) - sp_right (bx_padding sample_box)"
    "0 < length [Fin 1, NaN, Fin 3]" by (simp_all add: sample_box_def)
  from sparkline_pointer_nearest [OF this, of 70 "(0, 4)"] show ?thesis by (auto simp: numeral_3_eq_3)
qed

subsection \<open>Frames\<close>

lemma interpolate_ends: "interpolateSparklineLayout from_l to_l 1 = to_l"
proof -
  have "map (\<lambda>(i, p). case (from_y_at (sl_points from_l) (length (sl_points to_l)) i, pt_y p) of
      (Some fromY, Some y) \<Rightarrow> p\<lparr>pt_y := Some (fromY + (y - fromY) * 1)\<rparr> | _ \<Rightarrow> p)
    (zip [0..<length (sl_points to_l)] (sl_points to_l)) = sl_points to_l"
    by (rule nth_equalityI) (auto split: option.split)
  then show ?thesis by (simp add: interpolateSparklineLayout_def)
qed

text \<open>A trend line moves straight to its new shape: every frame has the new points in their places, each
  height between where the old shape was there and where the new one is, a missing value stays missing,
  and the last frame is the new layout exactly.\<close>

theorem sparkline_frames:
  assumes "0 \<le> t" "t \<le> 1" "i < length (sl_points to_l)"
  shows "interpolateSparklineLayout from_l to_l 1 = to_l \<and>
    length (sl_points (interpolateSparklineLayout from_l to_l t)) = length (sl_points to_l) \<and>
    pt_x (sl_points (interpolateSparklineLayout from_l to_l t) ! i) = pt_x (sl_points to_l ! i) \<and>
    (case pt_y (sl_points to_l ! i) of
      None \<Rightarrow> pt_y (sl_points (interpolateSparklineLayout from_l to_l t) ! i) = None
    | Some y \<Rightarrow> (let a = coalesce (from_y_at (sl_points from_l) (length (sl_points to_l)) i) y;
                   z = the (pt_y (sl_points (interpolateSparklineLayout from_l to_l t) ! i))
                 in min a y \<le> z \<and> z \<le> max a y))"
  using assms between_frames [OF assms(1,2)] interpolate_ends
  by (auto simp: interpolateSparklineLayout_def coalesce_def Let_def split: option.split)

theorem sparkline_frames_witness:
  "pt_x (sl_points (interpolateSparklineLayout
      (computeSparklineLayout [Fin 4] sample_box (0, 4)) (computeSparklineLayout [Fin 1, Fin 3] sample_box (0, 4)) (1 / 2)) ! 1) =
    pt_x (sl_points (computeSparklineLayout [Fin 1, Fin 3] sample_box (0, 4)) ! 1)"
proof -
  have "(0 :: rat) \<le> 1 / 2" "(1 / 2 :: rat) \<le> 1" "1 < length (sl_points (computeSparklineLayout [Fin 1, Fin 3] sample_box (0, 4)))"
    by simp_all
  from sparkline_frames [OF this] show ?thesis by blast
qed

end
