(* ===== verification/Text_Format.thy ===== *)
theory Text_Format
  imports Js_Values
begin

text \<open>What the interface writes for numbers, sizes, durations and ages, \<open>lib/format.ts\<close>. The text itself is
  \<open>Intl\<close>'s, in the language of the interface: its formatters are a record of functions the model's functions
  take; what the source decides is which value is written, in which unit and with how many decimals. A
  language is a string and a number a \<open>jnum\<close>; the cache of formatters has no effect on what they return.\<close>

subsection \<open>Formatters\<close>

datatype measure_unit = UByte | UKilobyte | UMegabyte | UGigabyte | UMillisecond | USecond | UMinute | UHour | UDay

datatype relative_unit = AgoSecond | AgoMinute | AgoHour | AgoDay | AgoMonth | AgoYear

datatype relative_style = StyleLong | StyleShort | StyleNarrow

record intl =
  in_decimal :: "rat \<Rightarrow> nat \<Rightarrow> nat \<Rightarrow> string"
  in_percent :: "rat \<Rightarrow> nat \<Rightarrow> nat \<Rightarrow> string"
  in_compact :: "rat \<Rightarrow> string"
  in_significant :: "rat \<Rightarrow> string"
  in_usd :: "rat \<Rightarrow> string"
  in_unit :: "rat \<Rightarrow> measure_unit \<Rightarrow> bool \<Rightarrow> nat \<Rightarrow> string"
  in_date_time :: "rat \<Rightarrow> string"
  in_short_time :: "rat \<Rightarrow> string"
  in_relative :: "relative_style \<Rightarrow> int \<Rightarrow> relative_unit \<Rightarrow> string"

definition finite_or_zero :: "jnum \<Rightarrow> rat" where
  "finite_or_zero v = (case v of Fin r \<Rightarrow> r | _ \<Rightarrow> 0)"

definition formatNumber :: "intl \<Rightarrow> jnum \<Rightarrow> string" where
  "formatNumber f v = in_decimal f (of_int (js_trunc (finite_or_zero v))) 0 0"

definition formatDecimal :: "intl \<Rightarrow> jnum \<Rightarrow> nat \<Rightarrow> string" where
  "formatDecimal f v digits = in_decimal f (finite_or_zero v) digits digits"

definition formatCompact :: "intl \<Rightarrow> jnum \<Rightarrow> string" where
  "formatCompact f v = (let n = finite_or_zero v in if \<bar>n\<bar> < 1000 then formatNumber f (Fin n) else in_compact f n)"

definition percent_ratio :: "jnum \<Rightarrow> jnum \<Rightarrow> rat" where
  "percent_ratio part whole = (let denominator = finite_or_zero whole
     in if denominator > 0 then finite_or_zero part / denominator else 0)"

definition formatPercent :: "intl \<Rightarrow> jnum \<Rightarrow> jnum \<Rightarrow> string" where
  "formatPercent f part whole =
     (let v = percent_ratio part whole in in_percent f v 0 (if v * 100 \<ge> 10 then 1 else 2))"

definition formatFraction :: "intl \<Rightarrow> jnum \<Rightarrow> nat \<Rightarrow> string" where
  "formatFraction f fraction digits = in_percent f (finite_or_zero fraction) digits digits"

definition roundsToZero :: "jnum \<Rightarrow> nat \<Rightarrow> bool" where
  "roundsToZero v digits = (let n = finite_or_zero v in n > 0 \<and> n < (1 / 2) * (1 / 10 ^ digits))"

definition belowStep :: "intl \<Rightarrow> nat \<Rightarrow> string" where
  "belowStep f digits = ''<'' @ formatDecimal f (Fin (1 / 10 ^ digits)) digits"

definition formatCredits :: "intl \<Rightarrow> jnum \<Rightarrow> nat \<Rightarrow> string" where
  "formatCredits f v digits = (if roundsToZero v digits then belowStep f digits else formatDecimal f v digits)"

definition formatCreditsExact :: "intl \<Rightarrow> jnum \<Rightarrow> string" where
  "formatCreditsExact f v = in_significant f (finite_or_zero v)"

definition formatUsd :: "intl \<Rightarrow> jnum \<Rightarrow> string" where
  "formatUsd f v = in_usd f (finite_or_zero v)"

definition formatUnit :: "intl \<Rightarrow> rat \<Rightarrow> measure_unit \<Rightarrow> nat \<Rightarrow> bool \<Rightarrow> string" where
  "formatUnit f v u digits narrow = in_unit f v u narrow digits"

subsection \<open>Sizes\<close>

definition BYTE_UNITS :: "measure_unit list" where
  "BYTE_UNITS = [UKilobyte, UMegabyte, UGigabyte]"

definition one_decimal :: "rat \<Rightarrow> rat" where
  "one_decimal v = of_int (js_round (v * 10)) / 10"

fun byte_steps :: "rat \<Rightarrow> measure_unit \<Rightarrow> measure_unit list \<Rightarrow> rat \<times> measure_unit" where
  "byte_steps v u [] = (v, u)"
| "byte_steps v u (n # ns) =
     (let w = v / 1024 in if \<bar>one_decimal w\<bar> < 1024 then (w, n) else byte_steps w n ns)"

definition formatBytes :: "intl \<Rightarrow> jnum \<Rightarrow> string" where
  "formatBytes f bytes =
     (let v = finite_or_zero bytes
      in if \<bar>v\<bar> < 1024 then formatUnit f (of_int (js_trunc v)) UByte 0 True
         else (let (w, u) = byte_steps v UKilobyte BYTE_UNITS in formatUnit f w u 1 False))"

subsection \<open>Durations\<close>

datatype duration_text =
    NoDuration
  | Milliseconds int
  | Seconds rat nat
  | MinutesSeconds int int

definition duration_parts :: "jnum option \<Rightarrow> bool \<Rightarrow> duration_text" where
  "duration_parts ms hasEndpoint =
     (case (case ms of None \<Rightarrow> Fin 0 | Some v \<Rightarrow> v) of
        Fin v \<Rightarrow>
          (if v = 0 \<and> \<not> hasEndpoint then NoDuration
           else if v < 1000 then Milliseconds (js_round v)
           else (let seconds = v / 1000; digits = (if seconds < 10 then 2 else 1 :: nat);
                     shown = of_int (js_round (seconds * 10 ^ digits)) / 10 ^ digits
                 in if shown < 60 then Seconds shown (if shown < 10 then 2 else 1)
                    else (let totalSec = js_round seconds in MinutesSeconds (totalSec div 60) (totalSec mod 60))))
      | _ \<Rightarrow> NoDuration)"

definition joinUnits :: "intl \<Rightarrow> (int \<times> measure_unit) list \<Rightarrow> string" where
  "joinUnits f parts = join '' '' (map (\<lambda>(v, u). formatUnit f (of_int v) u 0 True) parts)"

definition formatDurationMs :: "intl \<Rightarrow> jnum option \<Rightarrow> bool \<Rightarrow> string" where
  "formatDurationMs f ms hasEndpoint = (case duration_parts ms hasEndpoint of
     NoDuration \<Rightarrow> EMPTY
   | Milliseconds n \<Rightarrow> formatUnit f (of_int n) UMillisecond 0 True
   | Seconds s digits \<Rightarrow> formatUnit f s USecond digits True
   | MinutesSeconds m s \<Rightarrow> joinUnits f [(m, UMinute), (s, USecond)])"

definition uptime_parts :: "jnum \<Rightarrow> (int \<times> measure_unit) list" where
  "uptime_parts seconds =
     (let t = max 0 \<lfloor>finite_or_zero seconds\<rfloor>; days = t div 86400; hours = t mod 86400 div 3600; minutes = t mod 3600 div 60
      in if days > 0 then [(days, UDay), (hours, UHour)]
         else if hours > 0 then [(hours, UHour), (minutes, UMinute)]
         else [(minutes, UMinute)])"

definition formatUptime :: "intl \<Rightarrow> jnum \<Rightarrow> string" where
  "formatUptime f seconds = joinUnits f (uptime_parts seconds)"

subsection \<open>Dates and ages\<close>

definition unixToDate :: "rat \<Rightarrow> rat" where
  "unixToDate unixSec = unixSec * 1000"

definition formatDateTime :: "intl \<Rightarrow> jnum \<Rightarrow> string" where
  "formatDateTime f unixSec = in_date_time f (unixToDate (finite_or_zero unixSec))"

definition formatTime :: "intl \<Rightarrow> jnum \<Rightarrow> string" where
  "formatTime f unixSec = in_short_time f (unixToDate (finite_or_zero unixSec))"

text \<open>The unit, its seconds, and the seconds below which it is used, \<open>None\<close> for infinity.\<close>

definition RELATIVE_STEPS :: "(relative_unit \<times> rat \<times> rat option) list" where
  "RELATIVE_STEPS =
     [(AgoSecond, 1, Some 60), (AgoMinute, 60, Some 3600), (AgoHour, 3600, Some 86400), (AgoDay, 86400, Some (86400 * 30)),
      (AgoMonth, 86400 * 30, Some (86400 * 365)), (AgoYear, 86400 * 365, None)]"

definition relative_step :: "rat \<Rightarrow> relative_unit \<times> rat" where
  "relative_step diff =
     (case List.find (\<lambda>(u, secs, limit). case limit of None \<Rightarrow> True | Some l \<Rightarrow> \<bar>diff\<bar> < l) RELATIVE_STEPS of
        Some (u, secs, limit) \<Rightarrow> (u, secs) | None \<Rightarrow> (AgoSecond, 1))"

definition formatRelativeTime :: "intl \<Rightarrow> jnum \<Rightarrow> rat \<Rightarrow> relative_style \<Rightarrow> string" where
  "formatRelativeTime f unixSec nowMs style =
     (let diff = finite_or_zero unixSec - nowMs / 1000; (u, unit_seconds) = relative_step diff
      in in_relative f style (js_round (diff / unit_seconds)) u)"

subsection \<open>Units in order\<close>

fun relative_rank :: "relative_unit \<Rightarrow> nat" where
  "relative_rank AgoSecond = 0"
| "relative_rank AgoMinute = 1"
| "relative_rank AgoHour = 2"
| "relative_rank AgoDay = 3"
| "relative_rank AgoMonth = 4"
| "relative_rank AgoYear = 5"

lemma relative_rank_inject [simp]: "relative_rank u = relative_rank v \<longleftrightarrow> u = v"
  by (cases u; cases v) simp_all

instantiation relative_unit :: linorder
begin

definition less_eq_relative_unit :: "relative_unit \<Rightarrow> relative_unit \<Rightarrow> bool" where
  "less_eq_relative_unit u v = (relative_rank u \<le> relative_rank v)"

definition less_relative_unit :: "relative_unit \<Rightarrow> relative_unit \<Rightarrow> bool" where
  "less_relative_unit u v = (relative_rank u < relative_rank v)"

instance
  by standard (auto simp: less_eq_relative_unit_def less_relative_unit_def)

end

lemmas relative_order = less_eq_relative_unit_def less_relative_unit_def

subsection \<open>What is written is right\<close>

lemma js_round_le: "js_round x \<le> n \<longleftrightarrow> x < of_int n + 1 / 2"
  unfolding js_round_def by linarith

lemma js_round_ge: "n \<le> js_round x \<longleftrightarrow> of_int n - 1 / 2 \<le> x"
  unfolding js_round_def by linarith

lemma js_round_error: "\<bar>of_int (js_round x) - x\<bar> \<le> 1 / 2"
  unfolding js_round_def by linarith

fun unit_bytes :: "measure_unit \<Rightarrow> rat" where
  "unit_bytes UKilobyte = 1024"
| "unit_bytes UMegabyte = 1024 * 1024"
| "unit_bytes UGigabyte = 1024 * 1024 * 1024"
| "unit_bytes _ = 1"

lemma one_decimal_below: "\<bar>one_decimal w\<bar> < c \<longleftrightarrow> \<bar>of_int (js_round (w * 10))\<bar> < c * 10"
  by (auto simp: one_decimal_def abs_if)

lemma one_decimal_one: "1 \<le> \<bar>one_decimal w\<bar> \<longleftrightarrow> 10 \<le> js_round (w * 10) \<or> js_round (w * 10) \<le> - 10"
proof -
  have "1 \<le> \<bar>one_decimal w\<bar> \<longleftrightarrow> (10 :: rat) \<le> \<bar>of_int (js_round (w * 10))\<bar>" by (auto simp: one_decimal_def abs_if)
  also have "\<dots> \<longleftrightarrow> (of_int 10 :: rat) \<le> of_int \<bar>js_round (w * 10)\<bar>" by simp
  finally show ?thesis unfolding of_int_le_iff by linarith
qed

lemma next_unit_shows:
  assumes "\<not> \<bar>one_decimal w\<bar> < 1024"
  shows "1 \<le> \<bar>one_decimal (w / 1024)\<bar>"
proof -
  have "(of_int 10240 :: rat) \<le> of_int \<bar>js_round (w * 10)\<bar>" using assms by (simp add: one_decimal_below)
  then have "10240 \<le> js_round (w * 10) \<or> js_round (w * 10) \<le> - 10240" unfolding of_int_le_iff by linarith
  then show ?thesis unfolding one_decimal_one js_round_le js_round_ge by auto
qed

text \<open>Sizes are written in the unit that fits: from a kilobyte up, the value written times its unit is the
  size exactly, the figure a reader sees is never below one, and below the gigabyte never a thousand and
  twenty-four of the unit, whose next one is used instead.\<close>

theorem sizes_in_fitting_units:
  assumes "1024 \<le> \<bar>v\<bar>"
  shows "case byte_steps v UKilobyte BYTE_UNITS of (w, u) \<Rightarrow>
    w * unit_bytes u = v \<and> 1 \<le> \<bar>one_decimal w\<bar> \<and> (u \<noteq> UGigabyte \<longrightarrow> \<bar>one_decimal w\<bar> < 1024)"
proof -
  have "v / 1024 \<le> - 1 \<or> 1 \<le> v / 1024" using assms by (auto simp: abs_if split: if_splits)
  then have first: "1 \<le> \<bar>one_decimal (v / 1024)\<bar>" unfolding one_decimal_one js_round_le js_round_ge by auto
  show ?thesis
    using first next_unit_shows [of "v / 1024"] next_unit_shows [of "v / 1024 / 1024"]
    by (simp add: BYTE_UNITS_def Let_def)
qed

theorem sizes_in_fitting_units_witness: "snd (byte_steps (1024 * 1024 - 1) UKilobyte BYTE_UNITS) = UMegabyte"
proof -
  have "byte_steps (1024 * 1024 - 1) UKilobyte BYTE_UNITS = ((1024 * 1024 - 1) / 1024 / 1024, UMegabyte)"
    by (simp add: BYTE_UNITS_def Let_def one_decimal_def js_round_def)
  then show ?thesis using sizes_in_fitting_units [of "1024 * 1024 - 1"] by simp
qed

text \<open>Durations add up: what is written for a request's time is within half a millisecond, half of the last
  decimal or half a second of it, seconds are always below sixty, minutes at least one, and only a missing
  time of a request without an endpoint is left out.\<close>

theorem durations_add_up:
  assumes "0 \<le> v"
  shows "case duration_parts (Some (Fin v)) hasEndpoint of
      NoDuration \<Rightarrow> v = 0 \<and> \<not> hasEndpoint
    | Milliseconds n \<Rightarrow> 0 \<le> n \<and> n \<le> 1000 \<and> \<bar>of_int n - v\<bar> \<le> 1 / 2
    | Seconds s digits \<Rightarrow> 1 \<le> s \<and> s < 60 \<and> (digits = 2 \<longleftrightarrow> s < 10) \<and> \<bar>s * 1000 - v\<bar> \<le> 50
    | MinutesSeconds m s \<Rightarrow> 1 \<le> m \<and> 0 \<le> s \<and> s < 60 \<and> \<bar>of_int (60 * m + s) * 1000 - v\<bar> \<le> 500"
proof -
  consider "v = 0" "\<not> hasEndpoint" | "v < 1000" "v = 0 \<longrightarrow> hasEndpoint" | "1000 \<le> v" by linarith
  then show ?thesis
  proof cases
    case 2
    have "0 \<le> js_round v" "js_round v \<le> 1000" unfolding js_round_ge js_round_le using assms 2 by simp_all
    then show ?thesis using 2 js_round_error [of v] by (auto simp: duration_parts_def)
  next
    case 3
    define sec where "sec = v / 1000"
    define digits where "digits = (if sec < 10 then 2 else 1 :: nat)"
    define shown :: rat where "shown = of_int (js_round (sec * 10 ^ digits)) / 10 ^ digits"
    have one: "1 \<le> sec" and v: "v = sec * 1000" using 3 by (simp_all add: sec_def)
    have d: "duration_parts (Some (Fin v)) hasEndpoint = (if shown < 60 then Seconds shown (if shown < 10 then 2 else 1)
      else MinutesSeconds (js_round sec div 60) (js_round sec mod 60))"
      using 3 by (simp add: duration_parts_def Let_def sec_def digits_def shown_def)
    have bounds: "1 \<le> shown" "\<bar>shown - sec\<bar> \<le> 1 / 20" "60 \<le> shown \<Longrightarrow> 60 \<le> js_round sec"
    proof -
      show "1 \<le> shown"
      proof (cases "sec < 10")
        case True
        have "of_int 100 \<le> (of_int (js_round (sec * 100)) :: rat)" unfolding of_int_le_iff js_round_ge using one by simp
        then show ?thesis using True by (simp add: shown_def digits_def)
      next
        case False
        then have "of_int 100 \<le> (of_int (js_round (sec * 10)) :: rat)" unfolding of_int_le_iff js_round_ge by simp
        then show ?thesis using False by (simp add: shown_def digits_def)
      qed
      show "60 \<le> js_round sec" if "60 \<le> shown"
      proof (cases "sec < 10")
        case True
        then have "(of_int (js_round (sec * 100)) :: rat) \<le> of_int 1000" unfolding of_int_le_iff js_round_le by simp
        then show ?thesis using True that by (simp add: shown_def digits_def)
      next
        case False
        then have "of_int 600 \<le> (of_int (js_round (sec * 10)) :: rat)" using that by (simp add: shown_def digits_def)
        then show ?thesis unfolding of_int_le_iff js_round_ge by simp
      qed
      show "\<bar>shown - sec\<bar> \<le> 1 / 20"
        using js_round_error [of "sec * 100"] js_round_error [of "sec * 10"] by (auto simp: shown_def digits_def abs_if split: if_splits)
    qed
    have "1 \<le> js_round sec div 60" if "60 \<le> js_round sec" using that by (simp add: int_div_less_iff zdiv_mono1 [of 60 _ 60, simplified])
    moreover have "of_int (60 * (js_round sec div 60) + js_round sec mod 60) = (of_int (js_round sec) :: rat)" by (simp only: mult_div_mod_eq)
    moreover have "\<bar>shown * 1000 - v\<bar> \<le> 50" "\<bar>of_int (js_round sec) * 1000 - v\<bar> \<le> 500"
      using bounds(2) js_round_error [of sec] unfolding v by linarith+
    ultimately show ?thesis using bounds by (cases "shown < 60") (simp_all add: d del: of_int_add of_int_mult)
  qed (simp add: duration_parts_def)
qed

theorem durations_add_up_witness:
  "\<bar>of_int (60 * 1 + 0) * 1000 - 59960\<bar> \<le> (500 :: rat) \<and> duration_parts (Some (Fin 59960)) True = MinutesSeconds 1 0"
proof -
  have d: "duration_parts (Some (Fin 59960)) True = MinutesSeconds 1 0"
  proof -
    have "\<lfloor>3023 / 50 :: rat\<rfloor> = 60" "\<lfloor>6001 / 10 :: rat\<rfloor> = 600" by (simp_all add: floor_eq_iff)
    then show ?thesis by (simp add: duration_parts_def Let_def js_round_def)
  qed
  show ?thesis using durations_add_up [of 59960 True] unfolding d by simp
qed

lemma relative_step_cases:
  "relative_step d = (if \<bar>d\<bar> < 60 then (AgoSecond, 1) else if \<bar>d\<bar> < 3600 then (AgoMinute, 60)
    else if \<bar>d\<bar> < 86400 then (AgoHour, 3600) else if \<bar>d\<bar> < 2592000 then (AgoDay, 86400)
    else if \<bar>d\<bar> < 31536000 then (AgoMonth, 2592000) else (AgoYear, 31536000))"
  by (simp add: relative_step_def RELATIVE_STEPS_def)

lemma relative_step_mono: "\<bar>d\<bar> \<le> \<bar>e\<bar> \<Longrightarrow> fst (relative_step d) \<le> fst (relative_step e)"
proof -
  have "a \<le> b \<Longrightarrow> (if a < 60 then 0 else if a < 3600 then 1 else if a < 86400 then 2 else if a < 2592000 then 3
      else if a < 31536000 then 4 else 5 :: nat) \<le> (if b < 60 then 0 else if b < 3600 then 1 else if b < 86400 then 2
      else if b < 2592000 then 3 else if b < 31536000 then 4 else 5)" for a b :: rat by simp
  moreover have "relative_rank (fst (relative_step x)) = (if \<bar>x\<bar> < 60 then 0 else if \<bar>x\<bar> < 3600 then 1 else if \<bar>x\<bar> < 86400 then 2
      else if \<bar>x\<bar> < 2592000 then 3 else if \<bar>x\<bar> < 31536000 then 4 else 5)" for x
    by (simp add: relative_step_cases)
  ultimately show "\<bar>d\<bar> \<le> \<bar>e\<bar> \<Longrightarrow> ?thesis" unfolding less_eq_relative_unit_def by presburger
qed

lemma units_error:
  fixes s d :: rat
  assumes "0 < s"
  shows "\<bar>of_int (js_round (d / s)) * s - d\<bar> \<le> s / 2"
proof -
  have "\<bar>of_int (js_round (d / s)) - d / s\<bar> * s \<le> 1 / 2 * s" using assms js_round_error by (intro mult_right_mono) auto
  moreover have "\<bar>of_int (js_round (d / s)) - d / s\<bar> * s = \<bar>(of_int (js_round (d / s)) - d / s) * s\<bar>"
    using assms by (simp add: abs_mult)
  ultimately show ?thesis using assms by (simp add: left_diff_distrib)
qed

lemma units_least:
  fixes s d :: rat
  assumes "0 < s" "s \<le> \<bar>d\<bar>"
  shows "1 \<le> \<bar>js_round (d / s)\<bar>"
proof -
  have "1 \<le> d / s \<or> d / s \<le> - 1" using assms by (auto simp: abs_if field_simps split: if_splits)
  then have "of_int 1 - 1 / 2 \<le> d / s \<or> d / s < of_int (- 1) + 1 / 2" by (elim disjE) linarith+
  then have "1 \<le> js_round (d / s) \<or> js_round (d / s) \<le> - 1" unfolding js_round_le js_round_ge .
  then show ?thesis by linarith
qed

lemma units_most:
  fixes s d :: rat and k :: int
  assumes "0 < s" "\<bar>d\<bar> < (of_int k + 1 / 2) * s"
  shows "\<bar>js_round (d / s)\<bar> \<le> k"
proof -
  have "d < (of_int k + 1 / 2) * s" "- ((of_int k + 1 / 2) * s) < d" using assms(2) by linarith+
  then have "d / s < of_int k + 1 / 2" "- (of_int k + 1 / 2) < d / s"
    unfolding pos_divide_less_eq [OF assms(1)] pos_less_divide_eq [OF assms(1)] minus_mult_left .
  then have "js_round (d / s) \<le> k" "- k \<le> js_round (d / s)" unfolding js_round_le js_round_ge by simp_all
  then show ?thesis by linarith
qed

lemma relative_bounds:
  "(AgoSecond < fst (relative_step d) \<longrightarrow> 1 \<le> \<bar>js_round (d / snd (relative_step d))\<bar>) \<and>
    (case fst (relative_step d) of AgoSecond \<Rightarrow> \<bar>js_round (d / snd (relative_step d))\<bar> \<le> 60
      | AgoMinute \<Rightarrow> \<bar>js_round (d / snd (relative_step d))\<bar> \<le> 60 | AgoHour \<Rightarrow> \<bar>js_round (d / snd (relative_step d))\<bar> \<le> 24
      | AgoDay \<Rightarrow> \<bar>js_round (d / snd (relative_step d))\<bar> \<le> 30 | AgoMonth \<Rightarrow> \<bar>js_round (d / snd (relative_step d))\<bar> \<le> 12
      | AgoYear \<Rightarrow> True)"
proof -
  consider "\<bar>d\<bar> < 60" | "60 \<le> \<bar>d\<bar>" "\<bar>d\<bar> < 3600" | "3600 \<le> \<bar>d\<bar>" "\<bar>d\<bar> < 86400" | "86400 \<le> \<bar>d\<bar>" "\<bar>d\<bar> < 2592000"
    | "2592000 \<le> \<bar>d\<bar>" "\<bar>d\<bar> < 31536000" | "31536000 \<le> \<bar>d\<bar>" by (meson not_le)
  then show ?thesis
  proof cases
    case 1
    then have "relative_step d = (AgoSecond, 1)" unfolding relative_step_cases by (simp only: if_True)
    then show ?thesis using units_most [of 1 d 60] 1 by (simp add: relative_order)
  next
    case 2
    then have "relative_step d = (AgoMinute, 60)" unfolding relative_step_cases by (simp only: not_less [symmetric] if_True if_False)
    then show ?thesis using units_most [of 60 d 60] units_least [of 60 d] 2 by simp
  next
    case 3
    then have "relative_step d = (AgoHour, 3600)" by (simp add: relative_step_cases)
    then show ?thesis using units_most [of 3600 d 24] units_least [of 3600 d] 3 by simp
  next
    case 4
    then have "relative_step d = (AgoDay, 86400)" by (simp add: relative_step_cases)
    then show ?thesis using units_most [of 86400 d 30] units_least [of 86400 d] 4 by simp
  next
    case 5
    then have "relative_step d = (AgoMonth, 2592000)" by (simp add: relative_step_cases)
    then show ?thesis using units_most [of 2592000 d 12] units_least [of 2592000 d] 5 by simp
  next
    case 6
    then have "relative_step d = (AgoYear, 31536000)" by (simp add: relative_step_cases)
    then show ?thesis using units_least [of 31536000 d] 6 by simp
  qed
qed

text \<open>Ages are told in the unit that fits: a longer time is never told in a smaller unit, the number
  written is within half a unit of the time, it is at least one unit except for seconds, and at most 60
  seconds or minutes, 24 hours, 30 days and 12 months.\<close>

theorem ages_in_fitting_units:
  fixes d :: rat
  defines "u \<equiv> fst (relative_step d)" and "n \<equiv> js_round (d / snd (relative_step d))"
  shows "(\<forall>d'. \<bar>d\<bar> \<le> \<bar>d'\<bar> \<longrightarrow> u \<le> fst (relative_step d')) \<and>
    \<bar>of_int n * snd (relative_step d) - d\<bar> \<le> snd (relative_step d) / 2 \<and> (AgoSecond < u \<longrightarrow> 1 \<le> \<bar>n\<bar>) \<and>
    (case u of AgoSecond \<Rightarrow> \<bar>n\<bar> \<le> 60 | AgoMinute \<Rightarrow> \<bar>n\<bar> \<le> 60 | AgoHour \<Rightarrow> \<bar>n\<bar> \<le> 24 | AgoDay \<Rightarrow> \<bar>n\<bar> \<le> 30
      | AgoMonth \<Rightarrow> \<bar>n\<bar> \<le> 12 | AgoYear \<Rightarrow> True)"
proof -
  let ?s = "snd (relative_step d)"
  have error: "\<bar>of_int n * ?s - d\<bar> \<le> ?s / 2"
    unfolding n_def by (rule units_error) (simp add: relative_step_cases)
  have "u \<le> fst (relative_step d')" if "\<bar>d\<bar> \<le> \<bar>d'\<bar>" for d'
    unfolding u_def using that by (rule relative_step_mono)
  moreover have "(AgoSecond < u \<longrightarrow> 1 \<le> \<bar>n\<bar>) \<and> (case u of AgoSecond \<Rightarrow> \<bar>n\<bar> \<le> 60 | AgoMinute \<Rightarrow> \<bar>n\<bar> \<le> 60
      | AgoHour \<Rightarrow> \<bar>n\<bar> \<le> 24 | AgoDay \<Rightarrow> \<bar>n\<bar> \<le> 30 | AgoMonth \<Rightarrow> \<bar>n\<bar> \<le> 12 | AgoYear \<Rightarrow> True)"
    unfolding u_def n_def by (rule relative_bounds)
  ultimately show ?thesis using error by blast
qed

theorem ages_in_fitting_units_witness: "fst (relative_step (- 7000)) \<le> fst (relative_step 90000)"
  using ages_in_fitting_units [of "- 7000"] by simp

text \<open>No charge looks free: a number written with a fixed count of decimals is marked as below the step
  exactly when it is above zero and would be written as zero.\<close>

theorem charges_never_look_free:
  "roundsToZero (Fin v) digits \<longleftrightarrow> 0 < v \<and> js_round (v * 10 ^ digits) \<le> 0"
proof -
  have "js_round (v * 10 ^ digits) \<le> 0 \<longleftrightarrow> v * 10 ^ digits < 1 / 2" by (simp add: js_round_le)
  also have "\<dots> \<longleftrightarrow> v < (1 / 2) * (1 / 10 ^ digits)" by (simp add: field_simps)
  finally show ?thesis by (simp add: roundsToZero_def Let_def finite_or_zero_def)
qed

end
