(* ===== verification/Spec2Isabelle.thy ===== *)
theory Spec2Isabelle
  imports
    Account_Model Accounts_Actions Accounts_Calls Accounts_Page Accounts_Promises Admin_Events
    Aggregate Api_Client Api_Keys Backup_Model Chart_Domains Chart_Layout
    Chart_Paths Chart_Phases Chart_Pointer Confirm_Dialog Credentials Data_Table
    Dirty_Draft Go_Regex I18n_Model Import_Flow Js_Doubles Js_Objects
    Js_Prelude Js_Strings Js_Uri Js_Values Login_Dialog Login_Flows
    Login_Invariants Login_Promises Mock_Accounts Mock_Core Mock_Overview Mock_Random
    Mock_Server Mock_Signin Mock_Stats Model_Mappings Prompt_Filter Proxy_Url
    Request_Model Search_Params Server_Errors Session_Store Settings_Server Sparkline
    Text_Format Toasts Wire_Types
begin

text \<open>
  The logic of the Kiro Proxy admin UI (src/ui/src), as Isabelle definitions, and what makes it correct.

  \<^bold>\<open>The program.\<close> Kiro Proxy is a Go service with a React admin panel. The panel's own logic is
  TypeScript: pure model files beside the pages (\<open>features/*/*-model.ts\<close>, \<open>features/*/lib\<close>), a client with
  its session and event stream (\<open>lib/api\<close>, \<open>lib/auth\<close>, \<open>lib/events\<close>), and a complete mock of the admin API
  (\<open>lib/mocks\<close> and the \<open>mocks.ts\<close> beside each feature), which the tests and the mock mode run against and
  which follows the Go handlers guard by guard. This development models those three layers. A page asks the
  client; the client sends the stored session's token; a handler of the (mock) server checks the token,
  validates, changes the store and publishes events; the event stream tells every open page which query to
  refetch; the page's model turns the answer into rows, figures and forms. The order of the theories below
  is that of this loop.

  \<^bold>\<open>How the code is modelled.\<close> An interface is a record with the source's field names under a short prefix
  (\<open>acc_banStatus\<close> is \<open>Account.banStatus\<close>), a union of literals a datatype, a function of the source a
  definition with its name, a handler a definition from the request (bearer token, decoded body, clock, drawn
  ids) and the store to the answer, the new store and the published events. A thrown error or an error answer
  is the left of a sum or \<open>None\<close>. Strings are lists of 8-bit characters, so \<open>length\<close> and indices are those of
  JavaScript for Latin-1 texts; text outside it (the Chinese phrases) is a parameter. Numbers that the code
  only adds, compares and divides are exact integers or rationals; where rounding shows (the edges of thinned
  buckets, a page number in a URL) they are doubles, rounded by \<open>fl\<close> of \<open>Js_Doubles\<close>; the random generator is
  on 32-bit words.
  \<open>Date.now()\<close>, \<open>crypto.randomUUID()\<close>, \<open>JSON.parse\<close>, \<open>atob\<close>, \<open>localeCompare\<close>, \<open>fetch\<close> and the translator are
  arguments. Objects used as tables are read by their own entries; the tables whose key comes from a request
  or from the caller (pending logins, phrases) also find the members every object inherits (\<open>Js_Objects\<close>).

  \<^bold>\<open>Ground.\<close>
  \<^item> \<open>Js_Prelude\<close>: rounding, stable sorting by a comparator (\<open>locale comparator\<close>: sorting permutes, sorts
    and keeps the order of ties), tables of rows with find, remove and modify (\<open>locale row_table\<close>: a lookup
    after each operation), and the collections \<open>table_simps\<close> and \<open>inv_rules\<close>.
  \<^item> \<open>Js_Strings\<close>, \<open>Js_Values\<close>, \<open>Js_Uri\<close>: the string methods the code calls, decoded JSON with JavaScript's
    truthiness and number texts, and percent encoding.
  \<^item> \<open>Js_Doubles\<close>, \<open>Js_Objects\<close>: rounding to doubles and the text of a number, inherited members of an object.
  \<^item> \<open>Wire_Types\<close>: \<open>lib/api/types.ts\<close>.

  \<^bold>\<open>The client.\<close>
  \<^item> \<open>Session_Store\<close> (\<open>lib/storage.ts\<close>, \<open>lib/auth/session.ts\<close>): both storage areas, blocked and full ones
    included; signing in and reading back, signing out.
  \<^item> \<open>Api_Client\<close> (\<open>lib/api/client.ts\<close>, \<open>errors.ts\<close>, \<open>session.ts\<close>, \<open>system.ts\<close>, \<open>lib/query-client.ts\<close>): a request
    in two steps (sent with the token of the moment, answered later); an answer that arrives after a new
    sign-in does not end the new session; versions compare by their parts.
  \<^item> \<open>Admin_Events\<close> (\<open>lib/events/admin-events.tsx\<close>): the event stream as a transition system whose steps are
    the ticket, the source's callbacks, the timers and the cleanup; at most one connection, every change is
    refetched, nothing happens after the cleanup. Invariants are by rule induction over reachable states.
  \<^item> \<open>Server_Errors\<close>: every refusal of the settings, key and sign-in handlers has an entry in the table the
    page shows errors from.

  \<^bold>\<open>The server.\<close>
  \<^item> \<open>Mock_Server\<close>, \<open>Mock_Core\<close> (\<open>lib/mocks/http.ts\<close>, \<open>db.ts\<close>, \<open>core-handlers.ts\<close>): the store, the guard, the
    sign-in with its limiter, tickets and the observe counter; at most five guesses a minute, and during a
    lock the answer is the same whatever the password is.
  \<^item> \<open>Settings_Server\<close>, \<open>Api_Keys\<close>, \<open>Backup_Model\<close>, \<open>Request_Model\<close>: settings and model mappings, API keys, backups
    with their schedule, and the request log, each with the page's own model; invariants of the store over
    any sequence of requests, and that what a form builds the server accepts.
  \<^item> \<open>Mock_Random\<close>, \<open>Mock_Stats\<close>, \<open>Mock_Overview\<close> (\<open>lib/mocks/fixtures.ts\<close>): the seeded generator and the figures
    computed from the log; the heatmap and the overview are shown equal to counting the log itself.
  \<^item> \<open>Mock_Accounts\<close> (\<open>features/accounts/mocks.ts\<close>): every account endpoint, with the soundness of the account
    table and the exact effect of a batch.
  \<^item> \<open>Credentials\<close>, \<open>Mock_Signin\<close>, \<open>Import_Flow\<close> (\<open>features/add-account\<close>): the parsers of the dialog, the sign-in
    and import endpoints, and both together: no key twice; one account per login
    (a session id that is an inherited member adds one without a login, \<open>borrowed_id_adds_account\<close>); client and
    server agree on what was pasted; the JSON of a whole export is imported again, each item accepted.
  \<^item> \<open>Login_Flows\<close>, \<open>Login_Dialog\<close> (\<open>features/add-account\<close>): the dialog itself with its eight flows as a transition
    system, each request in flight with the generation it was sent in. \<open>Login_Invariants\<close> proves the invariant,
    \<open>Login_Promises\<close> what follows: at most one login is open at the server and it is the one on
    screen (replayed from the log of starts, answers and cancels), a device code is polled by one chain, a flow
    that was left is silent, a batch sends each item once and ends with the toast its outcomes determine.

  \<^bold>\<open>The pages.\<close>
  \<^item> \<open>Search_Params\<close> (\<open>routes/-search.ts\<close>): URL parameters and the guard of redirects after a sign-in.
  \<^item> \<open>Account_Model\<close>, \<open>Aggregate\<close>: status, filters and order of accounts; buckets, windows and totals of the
    overview, which conserve what they regroup.
  \<^item> \<open>Dirty_Draft\<close>, \<open>Model_Mappings\<close>, \<open>Prompt_Filter\<close>, \<open>Proxy_Url\<close>, \<open>Go_Regex\<close> (\<open>features/settings/lib\<close>): drafts that
    survive a refetch (\<open>locale draft_equality\<close>, interpreted for JSON, mapping rows and prompt filters), row
    ids, the proxy form and its URL, and the check of Go regular expressions: a walk over the text with a stack,
    equal to a check by structure; Go's own limits on nesting and size are in neither (\<open>nested_groups_pass\<close>).
  \<^item> \<open>Chart_Domains\<close>, \<open>Chart_Layout\<close> (\<open>components/charts\<close>): value domains, which hold all that is drawn; thinning of
    long series, bars, squares, labels and their boxes. \<open>Chart_Phases\<close>: the phase machine of a chart and the
    moves of its axes, as a transition system; \<open>Chart_Pointer\<close>: the tooltip, its pending frame and the drag.
  \<^item> \<open>Chart_Paths\<close>, \<open>Sparkline\<close>: path texts, labels read late, keys of lists, trend lines.
  \<^item> \<open>Text_Format\<close> (\<open>lib/format.ts\<close>), \<open>Toasts\<close> (\<open>lib/toast.ts\<close>), \<open>I18n_Model\<close> (\<open>lib/i18n\<close>): which figure and unit is
    written, which notice is closed by which move, and how a phrase is found.
  \<^item> \<open>Data_Table\<close>, \<open>Confirm_Dialog\<close> (\<open>components/shared\<close>): selection, sorting, row clicks and pager of the list
    pages; the confirm dialog, which answers every question once.
  \<^item> \<open>Accounts_Page\<close>, \<open>Accounts_Actions\<close> (\<open>features/accounts\<close>): the accounts list and its URL, the toolbar and its
    tabs; the page as a transition system of questions, requests in flight and toasts. \<open>Accounts_Promises\<close>,
    \<open>Accounts_Calls\<close>: only what was confirmed is sent, a toast spins as long as its request is in flight, a
    bar runs one batch at a time, a batch shows on the page what it did on the server.

  \<^bold>\<open>Bounds.\<close> No definition carries fuel: loops are structural, or \<open>function\<close>s with a measure (the id search of
  \<open>newRule\<close> by the ids still ahead, the parsers by the text left). Ranges drawn from the generator are exact
  up to \<open>2^21\<close>; larger ones are rounded by doubles in the code and not claimed.

  \<^bold>\<open>Not modelled.\<close> The Go service and its upstream protocol (another language than the one modelled); the JSX of
  the other React components, routing configuration, CSS and DOM events; the phrase tables themselves; the generated full
  fixture and route tree; timing of the network beyond the order of its steps.
\<close>

end
